(* ===== verification/Prelude.thy ===== *)
theory Prelude
  imports Main "HOL-Library.Word" "HOL-Library.AList"
begin

text \<open>
  Shared vocabulary of the development: the machine types of the C++ sources,
  fallible results (\<open>outcome::result\<close>), association lists standing for the
  hash maps and hash sets of the sources, and the generic lemmas on lists,
  words and maps that the component theories use.
\<close>

unbundle bit_operations_syntax

section \<open>Types\<close>

type_synonym byte = "8 word"
type_synonym u16 = "16 word"
type_synonym u32 = "32 word"
type_synonym u64 = "64 word"
type_synonym bytes = "byte list"

text \<open>\<open>outcome::result<T>\<close>: \<open>Inl\<close> carries the error code, \<open>Inr\<close> the value.\<close>

type_synonym ('e, 'a) result = "'e + 'a"

text \<open>An association list with distinct keys stands for \<open>std::unordered_map\<close>.\<close>

type_synonym ('k, 'v) alist = "('k \<times> 'v) list"

text \<open>
  A peer id is the bytes of its multihash: two ids are equal when these are. Protocols are
  identified by their names.
\<close>

type_synonym PeerId = bytes
type_synonym ProtocolName = string

named_theorems word_arith \<open>reading words as natural numbers\<close>
named_theorems alist_simps \<open>lookup after update and deletion\<close>

section \<open>Results\<close>

definition bind_result :: "('e, 'a) result \<Rightarrow> ('a \<Rightarrow> ('e, 'b) result) \<Rightarrow> ('e, 'b) result" where
  "bind_result r f = (case r of Inl e \<Rightarrow> Inl e | Inr x \<Rightarrow> f x)"

lemma bind_result_simps [simp]:
  "bind_result (Inl e) f = Inl e"
  "bind_result (Inr x) f = f x"
  by (simp_all add: bind_result_def)

lemma bind_result_eq_Inr:
  "bind_result r f = Inr y \<longleftrightarrow> (\<exists>x. r = Inr x \<and> f x = Inr y)"
  by (cases r) auto

lemma bind_result_cong [fundef_cong]:
  "r = r' \<Longrightarrow> (\<And>x. r' = Inr x \<Longrightarrow> f x = g x) \<Longrightarrow> bind_result r f = bind_result r' g"
  by (cases r') auto

text \<open>A call that may leave by an exception instead of returning.\<close>

datatype 'a cxx = Throws | Returns 'a

definition bind_cxx :: "'a cxx \<Rightarrow> ('a \<Rightarrow> 'b cxx) \<Rightarrow> 'b cxx" where
  "bind_cxx r f = (case r of Throws \<Rightarrow> Throws | Returns x \<Rightarrow> f x)"

lemma bind_cxx_simps [simp]:
  "bind_cxx Throws f = Throws"
  "bind_cxx (Returns x) f = f x"
  by (simp_all add: bind_cxx_def)

text \<open>A loop over a container, and one whose body may leave the function early (\<open>False\<close>).\<close>

fun fold_cxx :: "('a \<Rightarrow> 's \<Rightarrow> 's cxx) \<Rightarrow> 'a list \<Rightarrow> 's \<Rightarrow> 's cxx" where
  "fold_cxx f [] s = Returns s"
| "fold_cxx f (x # xs) s = bind_cxx (f x s) (fold_cxx f xs)"

fun loop_cxx :: "('a \<Rightarrow> 's \<Rightarrow> (bool \<times> 's) cxx) \<Rightarrow> 'a list \<Rightarrow> 's \<Rightarrow> (bool \<times> 's) cxx" where
  "loop_cxx f [] s = Returns (True, s)"
| "loop_cxx f (x # xs) s =
     bind_cxx (f x s) (\<lambda>(go, s'). if go then loop_cxx f xs s' else Returns (False, s'))"

text \<open>
  What a call returns satisfies a predicate; whether it may throw instead is the first
  argument.
\<close>

definition wp :: "bool \<Rightarrow> 'a cxx \<Rightarrow> ('a \<Rightarrow> bool) \<Rightarrow> bool" where
  "wp may_throw r Q = (case r of Throws \<Rightarrow> may_throw | Returns x \<Rightarrow> Q x)"

lemma wp_simps [simp]: "wp b Throws Q \<longleftrightarrow> b" "wp b (Returns x) Q \<longleftrightarrow> Q x"
  by (simp_all add: wp_def)

lemma wp_bind: "wp b (bind_cxx r f) Q \<longleftrightarrow> wp b r (\<lambda>x. wp b (f x) Q)"
  by (cases r) simp_all

lemma wp_mono: "wp b r P \<Longrightarrow> (\<And>x. P x \<Longrightarrow> Q x) \<Longrightarrow> wp b r Q"
  by (cases r) simp_all

lemma wp_conj: "wp b r (\<lambda>x. P x \<and> Q x) \<longleftrightarrow> wp b r P \<and> wp b r Q"
  by (cases r) simp_all

lemma wp_False: "wp False r Q \<longleftrightarrow> (\<exists>x. r = Returns x \<and> Q x)"
  by (cases r) simp_all

lemma wp_True: "wp True r Q \<longleftrightarrow> (\<forall>x. r = Returns x \<longrightarrow> Q x)"
  by (cases r) simp_all

lemma wp_bindI:
  assumes "wp b r P" and "\<And>x. P x \<Longrightarrow> wp b (f x) Q"
  shows "wp b (bind_cxx r f) Q"
  unfolding wp_bind using assms by (rule wp_mono)

lemma wp_fold:
  assumes "\<And>x s. x \<in> set xs \<Longrightarrow> I s \<Longrightarrow> wp b (f x s) I" and "I s"
  shows "wp b (fold_cxx f xs s) I"
  using assms
proof (induction xs arbitrary: s)
  case (Cons x xs)
  show ?case unfolding fold_cxx.simps
    by (rule wp_bindI [of b _ I]) (use Cons in auto)
qed simp

lemma wp_loop:
  assumes "\<And>x s. x \<in> set xs \<Longrightarrow> I s \<Longrightarrow> wp b (f x s) (\<lambda>r. I (snd r))" and "I s"
  shows "wp b (loop_cxx f xs s) (\<lambda>r. I (snd r))"
  using assms
proof (induction xs arbitrary: s)
  case (Cons x xs)
  show ?case unfolding loop_cxx.simps
    by (rule wp_bindI [of b _ "\<lambda>r. I (snd r)"]) (use Cons in \<open>auto split: prod.splits\<close>)
qed simp

section \<open>Searching lists\<close>

lemma find_SomeD: "List.find P xs = Some x \<Longrightarrow> x \<in> set xs \<and> P x"
  by (induction xs) (auto split: if_splits)

lemma find_append: "List.find P (xs @ ys) = (case List.find P xs of None \<Rightarrow> List.find P ys | Some x \<Rightarrow> Some x)"
  by (induction xs) auto

lemma find_NoneI: "(\<And>x. x \<in> set xs \<Longrightarrow> \<not> P x) \<Longrightarrow> List.find P xs = None"
  by (induction xs) auto

section \<open>Association lists\<close>

lemma set_update_subset: "set (AList.update k v al) \<subseteq> insert (k, v) (set al)"
  by (induction al) auto

lemma map_fst_map_entry: "map fst (AList.map_entry k f al) = map fst al"
  by (induction al) auto

lemma map_of_append_new: "map_of al k = None \<Longrightarrow> map_of (al @ [(k, v)]) = (map_of al)(k \<mapsto> v)"
  by (auto simp: map_add_def fun_eq_iff split: option.splits)

lemma map_entry_twice: "AList.map_entry k f (AList.map_entry k h al) = AList.map_entry k (\<lambda>v. f (h v)) al"
  by (induction al) auto

lemma map_entry_none: "map_of al k = None \<Longrightarrow> AList.map_entry k f al = al"
  by (induction al) (auto split: if_splits)

lemma map_of_filter_distinct:
  "distinct (map fst al) \<Longrightarrow>
   map_of (filter (\<lambda>(k, v). P v) al) k = (case map_of al k of None \<Rightarrow> None | Some v \<Rightarrow> if P v then Some v else None)"
proof (induction al)
  case (Cons a al)
  obtain k' v where a: "a = (k', v)" by (cases a)
  then have "map_of al k' = None" using Cons.prems by (simp add: map_of_eq_None_iff)
  with Cons a show ?case by auto
qed simp

lemma map_of_SomeE:
  assumes "map_of al k = Some v" and "\<forall>(k, v) \<in> set al. P k v"
  shows "P k v"
  using assms by (auto dest: map_of_SomeD)

section \<open>Characters and bytes\<close>

text \<open>What a reader of a C string sees of it: the characters before the first NUL.\<close>

definition c_str :: "string \<Rightarrow> string" where
  "c_str s = takeWhile (\<lambda>c. c \<noteq> CHR 0x00) s"

lemma c_str_id: "(\<And>c. c \<in> set s \<Longrightarrow> c \<noteq> CHR 0x00) \<Longrightarrow> c_str s = s"
  by (simp add: c_str_def takeWhile_eq_all_conv)

definition byte_of_char :: "char \<Rightarrow> byte" where
  "byte_of_char c = word_of_nat (of_char c)"

definition char_of_byte :: "byte \<Rightarrow> char" where
  "char_of_byte b = char_of (unat b)"

lemma of_char_less [simp]: "(of_char c :: nat) < 256"
  by (metis mod_less_divisor of_char_mod_256 zero_less_numeral)

lemma char_of_byte_of_char [simp]: "char_of_byte (byte_of_char c) = c"
  by (simp add: char_of_byte_def byte_of_char_def unat_of_nat)

lemma byte_of_char_of_byte [simp]: "byte_of_char (char_of_byte b) = b"
  using unsigned_less [of b, where ?'a = nat]
  by (simp add: char_of_byte_def byte_of_char_def)

section \<open>Words read as natural numbers\<close>

lemma unat_byte_less [simp]: "unat (b :: byte) < 256"
  using unsigned_less [of b, where ?'a = nat] by simp

lemma unat_and_127 [word_arith]: "unat (w AND 0x7f) = unat w mod 128" for w :: "'a::len word"
proof -
  have m: "(0x7f :: 'a word) = mask 7" by (simp add: mask_eq_exp_minus_1)
  show ?thesis unfolding m
    by (simp only: take_bit_eq_mask [symmetric] unsigned_take_bit_eq) (simp add: take_bit_eq_mod)
qed

lemma ucast_and_127 [word_arith]: "unat (ucast (v AND 0x7f) :: byte) = unat v mod 128" for v :: u64
proof -
  have "unat (ucast (v AND 0x7f) :: byte) = unat (v AND 0x7f) mod 256"
    by (simp add: unsigned_ucast_eq take_bit_eq_mod)
  then show ?thesis by (simp add: word_arith mod_mod_cancel less_trans [of _ 128])
qed

lemma high_bit_clear_iff [word_arith]: "(b AND 0x80 = 0) \<longleftrightarrow> unat b < 128" for b :: byte
proof -
  have e: "(0x80 :: byte) = 2 ^ 7" by simp
  have "(b AND 0x80 = 0) \<longleftrightarrow> \<not> bit b 7" unfolding e by (rule and_exp_eq_0_iff_not_bit)
  also have "\<dots> \<longleftrightarrow> \<not> bit (unat b) 7" by (simp add: bit_unsigned_iff)
  also have "\<dots> \<longleftrightarrow> even (unat b div 128)" by (simp add: bit_iff_odd)
  also have "\<dots> \<longleftrightarrow> unat b < 128"
  proof (cases "unat b < 128")
    case False
    with unat_byte_less [of b] have "unat b div 128 = 1" by linarith
    with False show ?thesis by simp
  qed simp
  finally show ?thesis .
qed

lemma unat_or_128 [word_arith]: "unat b < 128 \<Longrightarrow> unat (b OR 0x80) = unat b + 128" for b :: byte
proof -
  assume "unat b < 128"
  then have "b AND 0x80 = 0" by (simp add: word_arith)
  then have "b OR 0x80 = b + 0x80" by (simp add: disjunctive_add_eq_or)
  then show ?thesis using \<open>unat b < 128\<close> by (simp add: unat_word_ariths)
qed

lemma unat_drop_bit [word_arith]: "unat (drop_bit n v) = unat v div 2 ^ n" for v :: "'a::len word"
  by (simp only: unsigned_drop_bit_eq)
    (simp add: drop_bit_eq_div take_bit_nat_eq_self unsigned_less)

section \<open>Byte queues\<close>

text \<open>Running a sequence of operations, concatenating what they output.\<close>

fun run_ops :: "('q \<Rightarrow> 'op \<Rightarrow> (bytes \<times> 'q) option) \<Rightarrow> 'q \<Rightarrow> 'op list \<Rightarrow> (bytes \<times> 'q) option" where
  "run_ops step q [] = Some ([], q)"
| "run_ops step q (x # xs) =
     (case step q x of
        None \<Rightarrow> None
      | Some (out, q') \<Rightarrow> map_option (\<lambda>(rest, q''). (out @ rest, q'')) (run_ops step q' xs))"

text \<open>
  The contract of a buffer between a producer and a consumer: no operation fails,
  and an operation neither loses, duplicates nor reorders bytes.
\<close>

locale byte_queue =
  fixes invar :: "'q \<Rightarrow> bool"
    and contents_of :: "'q \<Rightarrow> bytes"
    and step :: "'q \<Rightarrow> 'op \<Rightarrow> (bytes \<times> 'q) option"
    and input_of :: "'op \<Rightarrow> bytes"
  assumes step_conserves: "invar q \<Longrightarrow>
    \<exists>out q'. step q x = Some (out, q') \<and> invar q' \<and> out @ contents_of q' = contents_of q @ input_of x"
begin

lemma run_conserves:
  "invar q \<Longrightarrow> \<exists>out q'. run_ops step q xs = Some (out, q') \<and> invar q'
     \<and> out @ contents_of q' = contents_of q @ concat (map input_of xs)"
proof (induction xs arbitrary: q)
  case Nil
  then show ?case by simp
next
  case (Cons x xs)
  from step_conserves [OF Cons.prems] obtain out q1
    where "step q x = Some (out, q1)" "invar q1" and c: "out @ contents_of q1 = contents_of q @ input_of x"
    by blast
  with Cons.IH [of q1] obtain rest q2
    where "run_ops step q1 xs = Some (rest, q2)" "invar q2"
      and c2: "rest @ contents_of q2 = contents_of q1 @ concat (map input_of xs)" by blast
  have "(out @ rest) @ contents_of q2 = (out @ contents_of q1) @ concat (map input_of xs)"
    using c2 by simp
  also have "\<dots> = contents_of q @ concat (map input_of (x # xs))" using c by simp
  finally show ?case using \<open>step q x = _\<close> \<open>run_ops step q1 xs = _\<close> \<open>invar q2\<close> by simp
qed

end

section \<open>Codecs\<close>

text \<open>The contract of a text encoding: what was encoded is decoded, and the empty text is empty.\<close>

locale base_codec =
  fixes enc :: "bytes \<Rightarrow> string"
    and dec :: "string \<Rightarrow> ('e, bytes) result cxx"
  assumes dec_enc: "dec (enc bs) = Returns (Inr bs)"
    and dec_empty: "dec [] = Returns (Inr [])"
begin

lemma enc_nonempty: "bs \<noteq> [] \<Longrightarrow> enc bs \<noteq> []"
  by (metis cxx.inject dec_empty dec_enc sum.inject(2))

lemma enc_inj: "enc bs = enc bs' \<Longrightarrow> bs = bs'"
  by (metis cxx.inject dec_enc sum.inject(2))

end

section \<open>Machines\<close>

text \<open>A sequence of operations, each of which may throw.\<close>

fun run_cxx :: "('s \<Rightarrow> 'op \<Rightarrow> 's cxx) \<Rightarrow> 's \<Rightarrow> 'op list \<Rightarrow> 's cxx" where
  "run_cxx step s [] = Returns s"
| "run_cxx step s (x # xs) = bind_cxx (step s x) (\<lambda>s'. run_cxx step s' xs)"

text \<open>
  The contract of a stateful component: in a good state an admissible operation returns and
  leaves a good state.
\<close>

locale safe_machine =
  fixes invar :: "'s \<Rightarrow> bool"
    and admissible :: "'op \<Rightarrow> bool"
    and step :: "'s \<Rightarrow> 'op \<Rightarrow> 's cxx"
  assumes step_safe: "invar s \<Longrightarrow> admissible x \<Longrightarrow> \<exists>s'. step s x = Returns s' \<and> invar s'"
begin

lemma run_safe:
  "invar s \<Longrightarrow> list_all admissible xs \<Longrightarrow> \<exists>s'. run_cxx step s xs = Returns s' \<and> invar s'"
proof (induction xs arbitrary: s)
  case (Cons x xs)
  then obtain s1 where "step s x = Returns s1" "invar s1" using step_safe [of s x] by auto
  with Cons show ?case by auto
qed simp

end

text \<open>
  The contract of a component with an abstract state: in addition, every operation acts on
  the abstract state as specified.
\<close>

locale refining_machine = safe_machine invar admissible step
  for invar :: "'s \<Rightarrow> bool" and admissible :: "'op \<Rightarrow> bool" and step :: "'s \<Rightarrow> 'op \<Rightarrow> 's cxx" +
  fixes abs_state :: "'s \<Rightarrow> 'a"
    and spec :: "'a \<Rightarrow> 'op \<Rightarrow> 'a"
  assumes step_spec: "invar s \<Longrightarrow> admissible x \<Longrightarrow> step s x = Returns s' \<Longrightarrow> abs_state s' = spec (abs_state s) x"
begin

lemma run_refines:
  "invar s \<Longrightarrow> list_all admissible xs
     \<Longrightarrow> \<exists>s'. run_cxx step s xs = Returns s' \<and> invar s' \<and> abs_state s' = foldl spec (abs_state s) xs"
proof (induction xs arbitrary: s)
  case (Cons x xs)
  then obtain s1 where "step s x = Returns s1" "invar s1" using step_safe [of s x] by auto
  moreover from this Cons.prems have "abs_state s1 = spec (abs_state s) x" using step_spec [of s x s1] by simp
  ultimately show ?case using Cons.IH [of s1] Cons.prems by simp
qed simp

end

text \<open>The contract of a component whose operations may throw: what returns leaves a good state.\<close>

locale invariant_machine =
  fixes invar :: "'s \<Rightarrow> bool"
    and step :: "'s \<Rightarrow> 'op \<Rightarrow> 's cxx"
  assumes step_keeps: "invar s \<Longrightarrow> step s x = Returns s' \<Longrightarrow> invar s'"
begin

lemma run_keeps: "invar s \<Longrightarrow> run_cxx step s xs = Returns s' \<Longrightarrow> invar s'"
proof (induction xs arbitrary: s)
  case (Cons x xs)
  then obtain s1 where "step s x = Returns s1" "run_cxx step s1 xs = Returns s'" by (cases "step s x") auto
  with Cons step_keeps [of s x s1] show ?case by blast
qed simp

end

text \<open>
  The contract of a component whose operations may throw and rely on an assumption about
  the outside: what returns leaves a good state. A component that never throws and one that
  assumes nothing both give it.
\<close>

locale guarded_machine =
  fixes invar :: "'s \<Rightarrow> bool"
    and admissible :: "'op \<Rightarrow> bool"
    and step :: "'s \<Rightarrow> 'op \<Rightarrow> 's cxx"
  assumes step_guarded: "invar s \<Longrightarrow> admissible x \<Longrightarrow> step s x = Returns s' \<Longrightarrow> invar s'"
begin

lemma run_guarded: "invar s \<Longrightarrow> list_all admissible xs \<Longrightarrow> run_cxx step s xs = Returns s' \<Longrightarrow> invar s'"
proof (induction xs arbitrary: s)
  case (Cons x xs)
  then obtain s1 where "step s x = Returns s1" "run_cxx step s1 xs = Returns s'" by (cases "step s x") auto
  with Cons step_guarded [of s x s1] show ?case by auto
qed simp

end

sublocale safe_machine \<subseteq> guarded: guarded_machine invar admissible step
  by unfold_locales (use step_safe in fastforce)

sublocale invariant_machine \<subseteq> guarded: guarded_machine invar "\<lambda>_. True" step
  by unfold_locales (use step_keeps in blast)


end
