(* ===== verification/Byteutil.thy ===== *)
theory Byteutil
  imports Prelude
begin

text \<open>
  The integer writers of \<open>src/common/byteutil.cpp\<close>, with the narrowing conversions of
  the calls they make to each other, against a reference reading of the bytes.
\<close>

section \<open>Model\<close>

text \<open>\<open>(n >> s) & 0xFF\<close> stored in a byte.\<close>

definition octet :: "nat \<Rightarrow> 'a::len word \<Rightarrow> byte" where
  "octet s n = ucast (drop_bit s n AND 0xFF)"

definition putUint8 :: "bytes \<Rightarrow> byte \<Rightarrow> bytes" where
  "putUint8 bs n = bs @ [n]"

definition putUint16BE :: "bytes \<Rightarrow> u16 \<Rightarrow> bytes" where
  "putUint16BE bs n = putUint8 (bs @ [octet 8 n]) (ucast n)"

definition putUint16LE :: "bytes \<Rightarrow> u16 \<Rightarrow> bytes" where
  "putUint16LE bs n = putUint8 bs (ucast n) @ [octet 8 n]"

definition putUint32BE :: "bytes \<Rightarrow> u32 \<Rightarrow> bytes" where
  "putUint32BE bs n = putUint16BE (bs @ [octet 24 n] @ [octet 16 n]) (ucast n)"

definition putUint32LE :: "bytes \<Rightarrow> u32 \<Rightarrow> bytes" where
  "putUint32LE bs n = putUint16LE bs (ucast n) @ [octet 16 n] @ [octet 24 n]"

definition putUint64BE :: "bytes \<Rightarrow> u64 \<Rightarrow> bytes" where
  "putUint64BE bs n =
     putUint32BE (bs @ [octet 56 n] @ [octet 48 n] @ [octet 40 n] @ [octet 32 n]) (ucast n)"

definition putUint64LE :: "bytes \<Rightarrow> u64 \<Rightarrow> bytes" where
  "putUint64LE bs n =
     putUint32LE bs (ucast n) @ [octet 32 n] @ [octet 40 n] @ [octet 48 n] @ [octet 56 n]"

section \<open>Reading back\<close>

text \<open>The number written in a byte string, most significant byte first.\<close>

definition load_big :: "bytes \<Rightarrow> nat" where
  "load_big bs = foldl (\<lambda>v b. v * 256 + unat b) 0 bs"

lemma octet_bit: "bit (octet s n) i \<longleftrightarrow> i < 8 \<and> bit n (s + i)"
proof -
  have ff: "(0xFF :: 'a word) = mask 8" by (simp add: mask_eq_exp_minus_1)
  show ?thesis unfolding octet_def ff by (auto simp: bit_simps dest: bit_imp_le_length)
qed

lemma unat_octet: "unat (octet s n) = unat n div 2 ^ s mod 256"
proof -
  have "unat (octet s n) = take_bit 8 (drop_bit s (unat n))"
    by (rule bit_eqI) (auto simp: bit_simps octet_bit)
  then show ?thesis by (simp add: take_bit_eq_mod drop_bit_eq_div)
qed

text \<open>Narrowing keeps the low bytes.\<close>

lemma octet_ucast: "octet s (ucast n :: 'b::len word) = octet s n" if "s + 8 \<le> LENGTH('b)" for n :: "'a::len word"
  by (rule bit_word_eqI) (use that in \<open>auto simp: octet_bit bit_simps\<close>)

lemma ucast_octet: "(ucast n :: byte) = octet 0 n" for n :: "'a::len word"
  by (rule bit_word_eqI) (auto simp: octet_bit bit_simps)

definition octets :: "nat \<Rightarrow> 'a::len word \<Rightarrow> bytes" where
  "octets k n = map (\<lambda>i. octet (8 * i) n) (rev [0..<k])"

lemma load_big_octets: "load_big (octets k n) = unat n mod 256 ^ k"
proof -
  have f: "foldl (\<lambda>v b. v * 256 + unat b) v (octets k n) = v * 256 ^ k + unat n mod 256 ^ k" for v
  proof (induction k arbitrary: v)
    case 0
    then show ?case by (simp add: octets_def)
  next
    case (Suc k)
    have p: "(2 :: nat) ^ (k * 8) = 256 ^ k" by (simp add: power_mult mult.commute [of k])
    have "unat n mod (256 ^ k * 256) = 256 ^ k * (unat n div 256 ^ k mod 256) + unat n mod 256 ^ k"
      by (rule mod_mult2_eq)
    with Suc show ?case
      by (simp add: octets_def unat_octet p algebra_simps)
  qed
  show ?thesis using f [of 0] by (simp add: load_big_def)
qed

lemma puts_octets:
  "putUint16BE bs n2 = bs @ octets 2 n2" "putUint16LE bs n2 = bs @ rev (octets 2 n2)"
  "putUint32BE bs n4 = bs @ octets 4 n4" "putUint32LE bs n4 = bs @ rev (octets 4 n4)"
  "putUint64BE bs n8 = bs @ octets 8 n8" "putUint64LE bs n8 = bs @ rev (octets 8 n8)"
  by (simp_all add: putUint16BE_def putUint16LE_def putUint32BE_def putUint32LE_def putUint64BE_def
      putUint64LE_def putUint8_def ucast_octet octet_ucast octets_def upt_rec [of _ "numeral k" for k])

text \<open>
  The big-endian writers append to the buffer exactly the bytes
  that read as the number written, two, four or eight of them, and the little-endian
  writers append the same bytes reversed.
\<close>

theorem putUint_correct:
  fixes n2 :: u16 and n4 :: u32 and n8 :: u64
  shows "\<exists>w2 w4 w8. length w2 = 2 \<and> length w4 = 4 \<and> length w8 = 8
    \<and> load_big w2 = unat n2 \<and> load_big w4 = unat n4 \<and> load_big w8 = unat n8
    \<and> putUint16BE bs n2 = bs @ w2 \<and> putUint16LE bs n2 = bs @ rev w2
    \<and> putUint32BE bs n4 = bs @ w4 \<and> putUint32LE bs n4 = bs @ rev w4
    \<and> putUint64BE bs n8 = bs @ w8 \<and> putUint64LE bs n8 = bs @ rev w8"
proof -
  have "load_big (octets 2 n2) = unat n2" "load_big (octets 4 n4) = unat n4" "load_big (octets 8 n8) = unat n8"
    using unsigned_less [of n2, where ?'a = nat] unsigned_less [of n4, where ?'a = nat]
      unsigned_less [of n8, where ?'a = nat]
    by (simp_all add: load_big_octets)
  then show ?thesis
    by (intro exI [of _ "octets 2 n2"] exI [of _ "octets 4 n4"] exI [of _ "octets 8 n8"])
       (simp add: puts_octets, simp add: octets_def)
qed

end
