(* ===== verification/Varint.thy ===== *)
theory Varint
  imports Prelude
begin

text \<open>
  Unsigned LEB128 integers and length-prefixed messages: \<open>EncodeVarint\<close>
  (\<open>include/libp2p/basic/encode_varint.hpp\<close>), \<open>UVarint\<close>
  (\<open>src/multi/uvarint.cpp\<close>), the incremental \<open>VarintPrefixReader\<close>
  (\<open>src/basic/varint_prefix_reader.cpp\<close>), and the message framing of
  \<open>read.hpp\<close>, \<open>write.hpp\<close>, \<open>read_varint.hpp\<close> and \<open>write_varint.hpp\<close>.
  The lemmas show that the two encoders write the same bytes, that the two
  decoders accept the same inputs with the same value, that decoding inverts
  encoding, and that a framed message read back is the message written.
\<close>

section \<open>Encoders\<close>

subsection \<open>\<open>UVarint\<close>\<close>

record UVarint =
  uv_bytes :: bytes

text \<open>The \<open>do ... while\<close> loop of \<open>UVarint::UVarint(uint64_t)\<close>, pushing one byte a round.\<close>

function uvarint_loop :: "bytes \<Rightarrow> u64 \<Rightarrow> bytes" where
  "uvarint_loop buf number =
     (let byte = ucast (number AND 0x7f) :: byte;
          number' = drop_bit 7 number;
          byte' = (if number' \<noteq> 0 then byte OR 0x80 else byte);
          buf' = buf @ [byte']
      in if number' \<noteq> 0 then uvarint_loop buf' number' else buf')"
  by pat_completeness auto

lemma drop_bit_7_less: "drop_bit 7 v \<noteq> 0 \<Longrightarrow> unat (drop_bit 7 v) < unat v" for v :: u64
  by (metis div_less_dividend neq0_conv one_less_numeral_iff one_less_power semiring_norm(76)
      unat_drop_bit unat_eq_zero unsigned_0 zero_less_numeral div_0)

termination uvarint_loop
  by (relation "measure (\<lambda>(buf, v). unat v)") (auto simp: drop_bit_7_less)

declare uvarint_loop.simps [simp del]

definition UVarint_of_u64 :: "u64 \<Rightarrow> UVarint" where
  "UVarint_of_u64 number = \<lparr>uv_bytes = uvarint_loop [] number\<rparr>"

definition toBytes :: "UVarint \<Rightarrow> bytes" where
  "toBytes v = uv_bytes v"

definition uvarint_size :: "UVarint \<Rightarrow> nat" where
  "uvarint_size v = length (uv_bytes v)"

text \<open>\<open>UVarint::toUInt64\<close>: the byte at index \<open>i\<close> is shifted left by \<open>7 * i\<close>.\<close>

fun toUInt64_loop :: "u64 \<Rightarrow> nat \<Rightarrow> bytes \<Rightarrow> u64" where
  "toUInt64_loop res index [] = res"
| "toUInt64_loop res index (byte # bs) =
     toUInt64_loop (res + push_bit index (ucast (byte AND 0x7f))) (index + 7) bs"

definition toUInt64 :: "UVarint \<Rightarrow> u64" where
  "toUInt64 v = toUInt64_loop 0 0 (uv_bytes v)"

text \<open>\<open>UVarint::calculateSize\<close>; \<open>0\<close> when the input does not start with a varint.\<close>

fun calculateSize_loop :: "nat \<Rightarrow> nat \<Rightarrow> bytes \<Rightarrow> nat" where
  "calculateSize_loop sz shift [] = 0"
| "calculateSize_loop sz shift (byte # bs) =
     (let sz' = sz + 1;
          slice = ucast (byte AND 0x7f) :: u64
      in if shift \<ge> 64 \<or> drop_bit shift (push_bit shift slice) \<noteq> slice then 0
         else if byte AND 0x80 = 0 then sz'
         else calculateSize_loop sz' (shift + 7) bs)"

definition calculateSize :: "bytes \<Rightarrow> nat" where
  "calculateSize varint_bytes = calculateSize_loop 0 0 varint_bytes"

definition UVarint_create :: "bytes \<Rightarrow> UVarint option" where
  "UVarint_create varint_bytes =
     (let sz = calculateSize varint_bytes
      in if sz > 0 then Some \<lparr>uv_bytes = take sz varint_bytes\<rparr> else None)"

text \<open>\<open>UVarint::UVarint(BytesIn)\<close>: empty when the input does not start with a varint.\<close>

definition UVarint_of_bytes :: "bytes \<Rightarrow> UVarint" where
  "UVarint_of_bytes varint_bytes = \<lparr>uv_bytes = take (calculateSize varint_bytes) varint_bytes\<rparr>"

definition UVarint_assign :: "UVarint \<Rightarrow> u64 \<Rightarrow> UVarint" where
  "UVarint_assign u n = UVarint_of_u64 n"

definition UVarint_eq :: "UVarint \<Rightarrow> UVarint \<Rightarrow> bool" where
  "UVarint_eq l r \<longleftrightarrow> uv_bytes l = uv_bytes r"

definition UVarint_less :: "UVarint \<Rightarrow> UVarint \<Rightarrow> bool" where
  "UVarint_less l r \<longleftrightarrow> toUInt64 l < toUInt64 r"

subsection \<open>\<open>EncodeVarint\<close>\<close>

record EncodeVarint =
  ev_size :: byte
  ev_buffer :: bytes

text \<open>
  The constructor writes into a fixed array of ten bytes; \<open>None\<close> is the failed
  \<open>assert(size_ < buffer_.size())\<close>.
\<close>

function encodeVarint_loop :: "EncodeVarint \<Rightarrow> u64 \<Rightarrow> EncodeVarint option" where
  "encodeVarint_loop e value =
     (let byte = ucast (value AND 0x7f) :: byte;
          value' = drop_bit 7 value;
          byte' = (if value' \<noteq> 0 then byte OR 0x80 else byte)
      in if unat (ev_size e) < length (ev_buffer e) then
           (let e' = e\<lparr>ev_buffer := (ev_buffer e)[unat (ev_size e) := byte'], ev_size := ev_size e + 1\<rparr>
            in if value' \<noteq> 0 then encodeVarint_loop e' value' else Some e')
         else None)"
  by pat_completeness auto
termination
  by (relation "measure (\<lambda>(e, v). unat v)") (auto simp: drop_bit_7_less)

declare encodeVarint_loop.simps [simp del]

definition encodeVarint :: "u64 \<Rightarrow> EncodeVarint option" where
  "encodeVarint value = encodeVarint_loop \<lparr>ev_size = 0, ev_buffer = replicate 10 0\<rparr> value"

definition encodeVarint_bytes :: "EncodeVarint \<Rightarrow> bytes" where
  "encodeVarint_bytes e = take (unat (ev_size e)) (ev_buffer e)"

section \<open>The incremental decoder\<close>

datatype State = kUnderflow | kReady | kOverflow | kError

record VarintPrefixReader =
  vr_value :: u64
  vr_state :: State
  vr_got_bytes :: byte

definition VarintPrefixReader_init :: VarintPrefixReader where
  "VarintPrefixReader_init = \<lparr>vr_value = 0, vr_state = kUnderflow, vr_got_bytes = 0\<rparr>"

definition reader_reset :: "VarintPrefixReader \<Rightarrow> VarintPrefixReader" where
  "reader_reset r = r\<lparr>vr_value := 0, vr_state := kUnderflow, vr_got_bytes := 0\<rparr>"

definition kMaxBytes :: byte where
  "kMaxBytes = 10"

definition consume_byte :: "VarintPrefixReader \<Rightarrow> byte \<Rightarrow> State \<times> VarintPrefixReader" where
  "consume_byte r byte =
     (case vr_state r of
        kUnderflow \<Rightarrow>
          (let next_byte_needed = (byte AND 0x80 \<noteq> 0);
               tmp = ucast (byte AND 0x7f) :: u64;
               got = vr_got_bytes r + 1;
               r1 = r\<lparr>vr_got_bytes := got\<rparr>
           in if got = kMaxBytes \<and> (tmp > 1 \<or> next_byte_needed)
              then (kOverflow, r1\<lparr>vr_state := kOverflow\<rparr>)
              else
                (let tmp' = (if got = 1 then tmp else push_bit (7 * (unat got - 1)) tmp);
                     r2 = r1\<lparr>vr_value := vr_value r1 + tmp'\<rparr>;
                     r3 = (if next_byte_needed then r2 else r2\<lparr>vr_state := kReady\<rparr>)
                 in (vr_state r3, r3)))
      | kReady \<Rightarrow> (kError, r)
      | s \<Rightarrow> (s, r))"

fun consume_loop ::
  "VarintPrefixReader \<Rightarrow> State \<Rightarrow> nat \<Rightarrow> bytes \<Rightarrow> State \<times> nat \<times> VarintPrefixReader" where
  "consume_loop r s consumed [] = (s, consumed, r)"
| "consume_loop r s consumed (byte # bs) =
     (let (s', r') = consume_byte r byte
      in if s' \<noteq> kUnderflow then (s', consumed + 1, r')
         else consume_loop r' s' (consumed + 1) bs)"

text \<open>
  \<open>consume(BytesIn &)\<close>: the state reported, what is left of the buffer, the
  reader afterwards. The buffer is cut only for \<open>kReady\<close> and \<open>kUnderflow\<close>.
\<close>

definition consume_buffer ::
  "VarintPrefixReader \<Rightarrow> bytes \<Rightarrow> State \<times> bytes \<times> VarintPrefixReader" where
  "consume_buffer r buffer =
     (let (s, consumed, r') = consume_loop r (vr_state r) 0 buffer
      in (s, if consumed > 0 \<and> (s = kReady \<or> s = kUnderflow) then drop consumed buffer
             else buffer, r'))"


section \<open>Message framing\<close>

datatype VarintError = DECODE_SIZE | MESSAGE_TOO_LONG

text \<open>
  A failure of the coroutines: an error of the stream, a \<open>VarintError\<close>, or one of
  the \<open>std::logic_error\<close> exceptions that \<open>read\<close> and \<open>write\<close> throw on a stream that
  reports zero bytes or more bytes than asked for.
\<close>

datatype 'e io_error =
    StreamError 'e
  | FrameError VarintError
  | ZeroBytes
  | TooMuchBytes

text \<open>
  A \<open>basic::Reader\<close> is its state and its virtual \<open>readSome\<close>, which is given the size
  of the output span and returns the bytes stored there; a \<open>basic::Writer\<close> is its
  state and \<open>writeSome\<close>, which returns how many bytes it took.
\<close>

type_synonym ('s, 'e) reader = "'s \<Rightarrow> nat \<Rightarrow> ('e, bytes) result \<times> 's"
type_synonym ('s, 'e) writer = "'s \<Rightarrow> bytes \<Rightarrow> ('e, nat) result \<times> 's"

function read_exact :: "('s, 'e) reader \<Rightarrow> 's \<Rightarrow> nat \<Rightarrow> ('e io_error, bytes) result \<times> 's" where
  "read_exact readSome s n =
     (if n = 0 then (Inr [], s)
      else (case readSome s n of
              (Inl e, s') \<Rightarrow> (Inl (StreamError e), s')
            | (Inr bs, s') \<Rightarrow>
                if length bs = 0 then (Inl ZeroBytes, s')
                else if length bs > n then (Inl TooMuchBytes, s')
                else (case read_exact readSome s' (n - length bs) of
                        (Inl e, s'') \<Rightarrow> (Inl e, s'')
                      | (Inr rest, s'') \<Rightarrow> (Inr (bs @ rest), s''))))"
  by pat_completeness auto
termination
  by (relation "measure (\<lambda>(f, s, n). n)") (auto simp flip: length_greater_0_conv)

function write_all :: "('s, 'e) writer \<Rightarrow> 's \<Rightarrow> bytes \<Rightarrow> ('e io_error, unit) result \<times> 's" where
  "write_all writeSome s input =
     (if input = [] then (Inr (), s)
      else (case writeSome s input of
              (Inl e, s') \<Rightarrow> (Inl (StreamError e), s')
            | (Inr n, s') \<Rightarrow>
                if n = 0 then (Inl ZeroBytes, s')
                else if n > length input then (Inl TooMuchBytes, s')
                else write_all writeSome s' (drop n input)))"
  by pat_completeness auto
termination
  by (relation "measure (\<lambda>(f, s, input). length input)") auto

declare read_exact.simps [simp del] write_all.simps [simp del]

text \<open>
  The loop of \<open>readVarint\<close>: one byte at a time while the reader is in \<open>kUnderflow\<close>.
  It ends because the tenth byte always leaves that state.
\<close>

definition reader_fuel :: "VarintPrefixReader \<Rightarrow> nat" where
  "reader_fuel r = (if vr_state r = kUnderflow then unat (9 - vr_got_bytes r) + 1 else 0)"

lemma unat_minus_1_less: "(w :: byte) \<noteq> 0 \<Longrightarrow> unat (w - 1) < unat w"
  by (metis diff_less unat_minus_one unat_eq_zero zero_less_one neq0_conv)

lemma reader_fuel_decreases:
  assumes "vr_state r = kUnderflow"
  shows "reader_fuel (snd (consume_byte r b)) < reader_fuel r"
proof (cases "vr_got_bytes r = 9")
  case True
  with assms show ?thesis
    by (simp add: reader_fuel_def consume_byte_def kMaxBytes_def Let_def)
next
  case False
  then have "9 - vr_got_bytes r \<noteq> 0" by (simp add: right_minus_eq)
  then have "unat (9 - (vr_got_bytes r + 1)) < unat (9 - vr_got_bytes r)"
    using unat_minus_1_less [of "9 - vr_got_bytes r"] by (simp add: algebra_simps)
  with assms show ?thesis
    by (auto simp add: reader_fuel_def consume_byte_def Let_def split: if_splits)
qed

function readVarint_loop ::
  "('s, 'e) reader \<Rightarrow> 's \<Rightarrow> VarintPrefixReader \<Rightarrow> ('e io_error, VarintPrefixReader) result \<times> 's" where
  "readVarint_loop readSome s varint =
     (if vr_state varint = kUnderflow then
        (case read_exact readSome s 1 of
           (Inl e, s') \<Rightarrow> (Inl e, s')
         | (Inr bs, s') \<Rightarrow> readVarint_loop readSome s' (snd (consume_byte varint (bs ! 0))))
      else (Inr varint, s))"
  by pat_completeness auto
termination
  by (relation "measure (\<lambda>(f, s, r). reader_fuel r)") (auto simp: reader_fuel_decreases)

declare readVarint_loop.simps [simp del]

definition readVarint :: "('s, 'e) reader \<Rightarrow> 's \<Rightarrow> ('e io_error, u64) result \<times> 's" where
  "readVarint readSome s =
     (case readVarint_loop readSome s VarintPrefixReader_init of
        (Inl e, s') \<Rightarrow> (Inl e, s')
      | (Inr varint, s') \<Rightarrow>
          if vr_state varint \<noteq> kReady then (Inl (FrameError DECODE_SIZE), s')
          else (Inr (vr_value varint), s'))"

definition readVarintMessage ::
  "('s, 'e) reader \<Rightarrow> 's \<Rightarrow> nat \<Rightarrow> ('e io_error, bytes) result \<times> 's" where
  "readVarintMessage readSome s max_size =
     (case readVarint readSome s of
        (Inl e, s') \<Rightarrow> (Inl e, s')
      | (Inr sz, s') \<Rightarrow>
          if unat sz > max_size then (Inl (FrameError MESSAGE_TOO_LONG), s')
          else read_exact readSome s' (unat sz))"

definition kDefaultMaxMessage :: nat where
  "kDefaultMaxMessage = 32 * 2 ^ 20"

text \<open>\<open>None\<close> is the assertion failure inside \<open>EncodeVarint\<close>.\<close>

definition writeVarintMessage ::
  "('s, 'e) writer \<Rightarrow> 's \<Rightarrow> bytes \<Rightarrow> (('e io_error, unit) result \<times> 's) option" where
  "writeVarintMessage writeSome s message =
     (case encodeVarint (word_of_nat (length message)) of
        None \<Rightarrow> None
      | Some e \<Rightarrow>
          (case write_all writeSome s (encodeVarint_bytes e) of
             (Inl err, s') \<Rightarrow> Some (Inl err, s')
           | (Inr _, s') \<Rightarrow> Some (write_all writeSome s' message)))"

section \<open>The encoding as a list, and its numeric reading\<close>

text \<open>The bytes of a varint without the accumulator of the loop.\<close>

abbreviation varint_bytes :: "u64 \<Rightarrow> bytes" where
  "varint_bytes v \<equiv> uvarint_loop [] v"

lemma drop_bit_7_eq_0_iff: "drop_bit 7 v = 0 \<longleftrightarrow> unat v < 128" for v :: u64
  by (simp add: unat_eq_zero [symmetric] unat_drop_bit div_eq_0_iff del: unat_eq_zero)

text \<open>Induction along the encoding loop.\<close>

lemma varint_induct [case_names last step]:
  assumes "\<And>v. unat v < 128 \<Longrightarrow> P v"
    and "\<And>v. 128 \<le> unat v \<Longrightarrow> P (drop_bit 7 v) \<Longrightarrow> P v"
  shows "P (v :: u64)"
proof (induction "unat v" arbitrary: v rule: less_induct)
  case less
  show ?case
  proof (cases "unat v < 128")
    case True
    then show ?thesis by (rule assms(1))
  next
    case False
    then have "drop_bit 7 v \<noteq> 0" by (simp add: drop_bit_7_eq_0_iff)
    then have "P (drop_bit 7 v)" using less drop_bit_7_less by blast
    with False show ?thesis by (simp add: assms(2))
  qed
qed

lemma uvarint_loop_acc: "uvarint_loop buf v = buf @ varint_bytes v"
proof (induction v arbitrary: buf rule: varint_induct)
  case (last v)
  then show ?case
    by (simp add: uvarint_loop.simps [of _ v] Let_def drop_bit_7_eq_0_iff)
next
  case (step v)
  let ?b = "ucast (v AND 0x7f) OR 0x80 :: byte"
  have "uvarint_loop buf' v = uvarint_loop (buf' @ [?b]) (drop_bit 7 v)" for buf'
    using step.hyps by (subst uvarint_loop.simps) (simp add: Let_def drop_bit_7_eq_0_iff)
  then show ?case
    using step.IH [of "buf @ [?b]"] step.IH [of "[?b]"] by simp
qed

lemma varint_bytes_step:
  "drop_bit 7 v \<noteq> 0 \<Longrightarrow>
   varint_bytes v = (ucast (v AND 0x7f) OR 0x80) # varint_bytes (drop_bit 7 v)"
  by (subst uvarint_loop.simps) (simp add: Let_def uvarint_loop_acc [of "[_]"])

lemma varint_bytes_last: "drop_bit 7 v = 0 \<Longrightarrow> varint_bytes v = [ucast (v AND 0x7f)]"
  by (subst uvarint_loop.simps) (simp add: Let_def)

lemma varint_bytes_nonempty [simp]: "varint_bytes v \<noteq> []"
  by (cases "drop_bit 7 v = 0") (simp_all add: varint_bytes_step varint_bytes_last)

lemma varint_bytes_length: "unat v < 128 ^ Suc k \<Longrightarrow> length (varint_bytes v) \<le> Suc k"
proof (induction k arbitrary: v)
  case 0
  then show ?case by (simp add: varint_bytes_last drop_bit_7_eq_0_iff)
next
  case (Suc k)
  show ?case
  proof (cases "drop_bit 7 v = 0")
    case False
    have "unat (drop_bit 7 v) < 128 ^ Suc k"
      using Suc.prems by (simp add: unat_drop_bit less_mult_imp_div_less mult.commute)
    then show ?thesis using Suc.IH False by (simp add: varint_bytes_step)
  qed (simp add: varint_bytes_last)
qed

lemma varint_bytes_length_le_10: "length (varint_bytes v) \<le> 10"
proof -
  have "unat v < 2 ^ 64" using unsigned_less [of v, where ?'a = nat] by simp
  also have "(2::nat) ^ 64 \<le> 128 ^ Suc 9" by simp
  finally show ?thesis using varint_bytes_length [of v 9] by simp
qed

section \<open>\<open>EncodeVarint\<close> writes the bytes of \<open>UVarint\<close>\<close>

lemma encodeVarint_loop_eq:
  assumes "length (ev_buffer e) = 10"
    and "unat (ev_size e) + length (varint_bytes v) \<le> 10"
  shows "\<exists>e'. encodeVarint_loop e v = Some e'
      \<and> encodeVarint_bytes e' = encodeVarint_bytes e @ varint_bytes v"
  using assms
proof (induction v arbitrary: e rule: varint_induct)
  case (last v)
  have sz: "unat (ev_size e) < 10"
    using last.prems length_greater_0_conv [of "varint_bytes v"] by (simp del: length_greater_0_conv) 
  then have "unat (ev_size e + 1) = Suc (unat (ev_size e))"
    by (simp add: unat_word_ariths)
  with sz last show ?case
    by (subst encodeVarint_loop.simps)
      (simp add: Let_def drop_bit_7_eq_0_iff varint_bytes_last encodeVarint_bytes_def
        take_Suc_conv_app_nth take_update_cancel)
next
  case (step v)
  let ?b = "ucast (v AND 0x7f) OR 0x80 :: byte"
  let ?e = "e\<lparr>ev_buffer := (ev_buffer e)[unat (ev_size e) := ?b], ev_size := ev_size e + 1\<rparr>"
  from step.hyps have nz: "drop_bit 7 v \<noteq> 0" by (simp add: drop_bit_7_eq_0_iff)
  have sz: "unat (ev_size e) < 10"
    using step.prems by (simp add: varint_bytes_step [OF nz])
  then have sz': "unat (ev_size e + 1) = Suc (unat (ev_size e))"
    by (simp add: unat_word_ariths)
  from step.prems have "\<exists>e'. encodeVarint_loop ?e (drop_bit 7 v) = Some e'
      \<and> encodeVarint_bytes e' = encodeVarint_bytes ?e @ varint_bytes (drop_bit 7 v)"
    by (intro step.IH) (simp_all add: varint_bytes_step [OF nz] sz')
  moreover have "encodeVarint_bytes ?e = encodeVarint_bytes e @ [?b]"
    using step.prems sz sz'
    by (simp add: encodeVarint_bytes_def take_Suc_conv_app_nth take_update_cancel)
  moreover have "encodeVarint_loop e v = encodeVarint_loop ?e (drop_bit 7 v)"
    using step.prems sz nz by (subst encodeVarint_loop.simps) (simp add: Let_def)
  ultimately show ?case by (simp add: varint_bytes_step [OF nz])
qed

lemma encodeVarint_bytes_eq:
  "\<exists>e. encodeVarint v = Some e \<and> encodeVarint_bytes e = varint_bytes v"
  using encodeVarint_loop_eq [of "\<lparr>ev_size = 0, ev_buffer = replicate 10 0\<rparr>" v]
    varint_bytes_length_le_10 [of v]
  by (simp add: encodeVarint_def encodeVarint_bytes_def)

section \<open>Both decoders, byte by byte\<close>

lemma unat_ucast_and_127 [word_arith]: "unat (ucast (b AND 0x7f) :: u64) = unat b mod 128" for b :: byte
  by (simp add: unsigned_ucast_eq take_bit_nat_eq_self word_arith less_trans [of _ 128])

lemma slice_fits_iff:
  fixes b :: byte
  assumes "k \<le> 9"
  shows "drop_bit (7 * k) (push_bit (7 * k) (ucast (b AND 0x7f) :: u64)) = ucast (b AND 0x7f)
      \<longleftrightarrow> (k = 9 \<longrightarrow> unat b mod 128 \<le> 1)"
proof -
  let ?w = "ucast (b AND 0x7f) :: u64"
  have "unat (drop_bit (7 * k) (push_bit (7 * k) ?w)) = drop_bit (7 * k) (take_bit 64 (push_bit (7 * k) (unat ?w)))"
    by (simp add: unsigned_drop_bit_eq unsigned_push_bit_eq)
  also have "\<dots> = unat ?w mod 2 ^ (64 - 7 * k)"
    using assms by (simp add: drop_bit_take_bit drop_bit_push_bit) (simp add: take_bit_eq_mod)
  finally have "drop_bit (7 * k) (push_bit (7 * k) ?w) = ?w \<longleftrightarrow>
      (unat b mod 128) mod 2 ^ (64 - 7 * k) = unat b mod 128"
    by (simp add: word_eq_iff_unsigned [where ?'a = nat] unat_ucast_and_127)
  also have "\<dots> \<longleftrightarrow> (k = 9 \<longrightarrow> unat b mod 128 \<le> 1)"
  proof (cases "k = 9")
    case False
    with assms have "8 \<le> 64 - 7 * k" by simp
    then have "(2::nat) ^ 8 \<le> 2 ^ (64 - 7 * k)" by (rule power_increasing) simp
    then have "unat b mod 128 < 2 ^ (64 - 7 * k)"
      by (rule less_le_trans [rotated]) (simp add: less_trans [of _ 128])
    with False show ?thesis by simp
  qed auto
  finally show ?thesis .
qed

lemma calculateSize_loop_more:
  assumes "k \<le> 8" and "128 \<le> unat b"
  shows "calculateSize_loop n (7 * k) (b # bs) = calculateSize_loop (Suc n) (7 * Suc k) bs"
  using assms slice_fits_iff [of k b]
  by (simp add: Let_def high_bit_clear_iff add.commute)

lemma consume_byte_underflow:
  assumes "vr_state r = kUnderflow" and "unat (vr_got_bytes r) = k" and "k \<le> 9"
  shows "consume_byte r b =
    (if k = 9 \<and> (unat b mod 128 > 1 \<or> 128 \<le> unat b)
     then (kOverflow, r\<lparr>vr_got_bytes := vr_got_bytes r + 1, vr_state := kOverflow\<rparr>)
     else (if unat b < 128 then kReady else kUnderflow,
           r\<lparr>vr_got_bytes := vr_got_bytes r + 1,
             vr_value := vr_value r + push_bit (7 * k) (ucast (b AND 0x7f)),
             vr_state := if unat b < 128 then kReady else kUnderflow\<rparr>))"
proof -
  have got: "unat (vr_got_bytes r + 1) = Suc k"
    using assms by (simp add: unat_word_ariths)
  have g10: "vr_got_bytes r + 1 = kMaxBytes \<longleftrightarrow> k = 9"
    by (simp add: word_eq_iff_unsigned [where ?'a = nat] got kMaxBytes_def)
  have g1: "vr_got_bytes r = 0 \<longleftrightarrow> k = 0"
    using assms(2) by (auto simp: unat_eq_zero)
  have gt: "(1::u64) < ucast (b AND 0x7f) \<longleftrightarrow> 1 < unat b mod 128"
    by (simp add: word_less_nat_alt unat_ucast_and_127)
  have hb: "(b AND 0x80 \<noteq> 0) \<longleftrightarrow> 128 \<le> unat b"
    by (simp add: high_bit_clear_iff not_less)
  show ?thesis
    using assms(1)
    by (auto simp add: consume_byte_def Let_def g10 gt hb g1 got not_le
        intro!: VarintPrefixReader.equality)
qed

lemma consume_loop_calculateSize:
  assumes "vr_state r = kUnderflow" and "unat (vr_got_bytes r) = k" and "k \<le> 9"
    and "consume_loop r kUnderflow n bs = (s', n', r')"
  shows "calculateSize_loop n (7 * k) bs = (if s' = kReady then n' else 0)
     \<and> n' \<le> n + (10 - k) \<and> n' \<le> n + length bs
     \<and> (s' = kReady \<longrightarrow> n < n' \<and> vr_value r' = toUInt64_loop (vr_value r) (7 * k) (take (n' - n) bs))"
  using assms
proof (induction bs arbitrary: r k n)
  case Nil
  then show ?case by auto
next
  case (Cons b bs)
  have fits: "drop_bit (7 * k) (push_bit (7 * k) (ucast (b AND 0x7f) :: u64)) \<noteq> ucast (b AND 0x7f)
      \<longleftrightarrow> k = 9 \<and> unat b mod 128 > 1"
    using slice_fits_iff [OF \<open>k \<le> 9\<close>, of b] by auto
  note step = consume_byte_underflow [OF Cons.prems(1,2,3), of b]
  consider (over) "k = 9 \<and> (unat b mod 128 > 1 \<or> 128 \<le> unat b)"
    | (ready) "\<not> (k = 9 \<and> (unat b mod 128 > 1 \<or> 128 \<le> unat b))" "unat b < 128"
    | (more) "k < 9" "128 \<le> unat b"
    using \<open>k \<le> 9\<close> by linarith
  then show ?case
  proof cases
    case over
    have "calculateSize_loop (Suc n) 70 bs = 0" by (cases bs) auto
    with over Cons.prems(4) step fits show ?thesis
      by (auto simp: Let_def high_bit_clear_iff)
  next
    case ready
    with Cons.prems(3,4) step show ?thesis
      by (auto simp: Let_def fits high_bit_clear_iff)
  next
    case more
    let ?r = "r\<lparr>vr_got_bytes := vr_got_bytes r + 1,
      vr_value := vr_value r + push_bit (7 * k) (ucast (b AND 0x7f)), vr_state := kUnderflow\<rparr>"
    have got: "unat (vr_got_bytes r + 1) = Suc k"
      using Cons.prems(2) more by (simp add: unat_word_ariths)
    from Cons.prems(4) step more have "consume_loop ?r kUnderflow (Suc n) bs = (s', n', r')"
      by simp
    from Cons.IH [OF _ _ _ this, of "Suc k"] got more
    have IH: "calculateSize_loop (Suc n) (7 * Suc k) bs = (if s' = kReady then n' else 0)
       \<and> n' \<le> Suc n + (10 - Suc k) \<and> n' \<le> Suc n + length bs
       \<and> (s' = kReady \<longrightarrow> Suc n < n' \<and>
            vr_value r' = toUInt64_loop (vr_value ?r) (7 * Suc k) (take (n' - Suc n) bs))"
      by simp
    have calc: "calculateSize_loop n (7 * k) (b # bs) = calculateSize_loop (Suc n) (7 * Suc k) bs"
      using more by (intro calculateSize_loop_more) auto
    have tk: "Suc n < n' \<Longrightarrow> take (n' - n) (b # bs) = b # take (n' - Suc n) bs"
      by (cases "n' - n") (auto simp: Suc_diff_Suc [symmetric] dest: Suc_lessD)
    show ?thesis
      using IH more by (simp only: calc) (auto simp: tk add.commute)
  qed
qed

section \<open>Decoding inverts encoding\<close>

lemma low_bits_of_encoded [word_arith]:
  "ucast ((ucast (v AND 0x7f) OR 0x80 :: byte) AND 0x7f) = v AND 0x7f"
  "ucast ((ucast (v AND 0x7f) :: byte) AND 0x7f) = v AND 0x7f" for v :: u64
  by (simp_all add: word_eq_iff_unsigned [where ?'a = nat] word_arith)

lemma word_split_7: "(v AND 0x7f) + push_bit 7 (drop_bit 7 v) = v" for v :: u64
proof -
  have "(0x7f :: u64) = mask 7" by (simp add: mask_eq_exp_minus_1)
  then have "v AND 0x7f = take_bit 7 v" by (simp only: take_bit_eq_mask)
  then show ?thesis by (metis add.commute bits_ident)
qed

lemma push_bit_split_7:
  "push_bit n (v AND 0x7f) + push_bit (n + 7) (drop_bit 7 v) = push_bit n v" for v :: u64
proof -
  have "push_bit n (v AND 0x7f) + push_bit n (push_bit 7 (drop_bit 7 v)) =
      push_bit n ((v AND 0x7f) + push_bit 7 (drop_bit 7 v))"
    by (rule push_bit_add [symmetric])
  then show ?thesis unfolding word_split_7 by (simp add: push_bit_push_bit)
qed

lemma toUInt64_loop_varint: "toUInt64_loop res n (varint_bytes v) = res + push_bit n v"
proof (induction v arbitrary: res n rule: varint_induct)
  case (last v)
  then have z: "drop_bit 7 v = 0" by (simp add: drop_bit_7_eq_0_iff)
  then have "push_bit n (v AND 0x7f) = push_bit n v" using push_bit_split_7 [of n v] by simp
  then show ?case by (simp add: varint_bytes_last [OF z] low_bits_of_encoded)
next
  case (step v)
  then have nz: "drop_bit 7 v \<noteq> 0" by (simp add: drop_bit_7_eq_0_iff)
  have "toUInt64_loop res n (varint_bytes v) =
      res + push_bit n (v AND 0x7f) + push_bit (n + 7) (drop_bit 7 v)"
    unfolding varint_bytes_step [OF nz] toUInt64_loop.simps low_bits_of_encoded step.IH ..
  then show ?case by (simp only: add.assoc push_bit_split_7)
qed

lemma calculateSize_loop_varint:
  assumes "unat v * 128 ^ k < 2 ^ 64" and "k \<le> 9"
  shows "calculateSize_loop n (7 * k) (varint_bytes v @ rest) = n + length (varint_bytes v)"
  using assms
proof (induction v arbitrary: n k rule: varint_induct)
  case (last v)
  let ?b = "ucast (v AND 0x7f) :: byte"
  have b: "unat ?b = unat v" using last.hyps by (simp add: ucast_and_127)
  have "k = 9 \<longrightarrow> unat v \<le> 1" using last.prems by auto
  then have "drop_bit (7 * k) (push_bit (7 * k) (ucast (?b AND 0x7f) :: u64)) = ucast (?b AND 0x7f)"
    using slice_fits_iff [OF last.prems(2), of ?b] b last.hyps by auto
  moreover have "?b AND 0x80 = 0" using b last.hyps by (simp add: high_bit_clear_iff)
  ultimately show ?case
    using last by (simp add: varint_bytes_last drop_bit_7_eq_0_iff Let_def)
next
  case (step v)
  let ?b = "ucast (v AND 0x7f) OR 0x80 :: byte"
  have nz: "drop_bit 7 v \<noteq> 0" using step.hyps by (simp add: drop_bit_7_eq_0_iff)
  have "128 * 128 ^ k < (2::nat) ^ 64"
    by (rule le_less_trans [OF _ step.prems(1)]) (use step.hyps in simp)
  then have k: "k \<le> 8"
  proof (rule contrapos_pp)
    assume "\<not> k \<le> 8"
    with step.prems(2) have "k = 9" by simp
    then show "\<not> 128 * 128 ^ k < (2::nat) ^ 64" by simp
  qed
  have b: "128 \<le> unat ?b" by (simp add: unat_or_128 ucast_and_127)
  have "calculateSize_loop n (7 * k) (varint_bytes v @ rest)
      = calculateSize_loop (Suc n) (7 * Suc k) (varint_bytes (drop_bit 7 v) @ rest)"
    unfolding varint_bytes_step [OF nz] append_Cons by (rule calculateSize_loop_more [OF k b])
  also have "unat (drop_bit 7 v) * 128 ^ Suc k < 2 ^ 64"
    by (rule le_less_trans [OF _ step.prems(1)]) (simp add: unat_drop_bit mult_le_mono1 mult.assoc [symmetric])
  then have "calculateSize_loop (Suc n) (7 * Suc k) (varint_bytes (drop_bit 7 v) @ rest)
      = Suc n + length (varint_bytes (drop_bit 7 v))"
    using k by (intro step.IH) auto
  finally show ?case by (simp add: varint_bytes_step [OF nz])
qed

lemma calculateSize_varint [simp]:
  "calculateSize (varint_bytes v @ rest) = length (varint_bytes v)"
proof -
  have "unat v * 128 ^ 0 < 2 ^ 64" using unsigned_less [of v, where ?'a = nat] by simp
  from calculateSize_loop_varint [OF this, of 0 rest] show ?thesis
    by (simp add: calculateSize_def)
qed

lemma UVarint_create_varint:
  "UVarint_create (varint_bytes v @ rest) = Some (UVarint_of_u64 v)"
  by (simp add: UVarint_create_def UVarint_of_u64_def Let_def)

lemma toUInt64_of_u64 [simp]: "toUInt64 (UVarint_of_u64 v) = v"
  by (simp add: toUInt64_def UVarint_of_u64_def toUInt64_loop_varint)

lemma consume_buffer_create:
  "case UVarint_create bs of
     Some u \<Rightarrow> \<exists>r. consume_buffer VarintPrefixReader_init bs = (kReady, drop (uvarint_size u) bs, r)
                \<and> vr_value r = toUInt64 u
   | None \<Rightarrow> fst (consume_buffer VarintPrefixReader_init bs) \<noteq> kReady"
proof -
  obtain s n r where run: "consume_loop VarintPrefixReader_init kUnderflow 0 bs = (s, n, r)"
    by (metis prod_cases3)
  note facts = consume_loop_calculateSize [OF _ _ _ run, of 0]
  have "consume_buffer VarintPrefixReader_init bs =
      (s, if n > 0 \<and> (s = kReady \<or> s = kUnderflow) then drop n bs else bs, r)"
    using run by (simp add: consume_buffer_def VarintPrefixReader_init_def)
  with facts show ?thesis
    by (auto simp: VarintPrefixReader_init_def UVarint_create_def calculateSize_def Let_def
        uvarint_size_def toUInt64_def)
qed

lemma consume_buffer_varint:
  "\<exists>r. consume_buffer VarintPrefixReader_init (varint_bytes v @ rest) = (kReady, rest, r)
     \<and> vr_value r = v"
  using consume_buffer_create [of "varint_bytes v @ rest"]
  by (auto simp: UVarint_create_varint uvarint_size_def UVarint_of_u64_def [symmetric])
    (simp add: UVarint_of_u64_def)

section \<open>Reading and writing frames\<close>

text \<open>
  What the framing relies on in a stream that does not fail: \<open>readSome\<close> stores a
  non-empty prefix of the pending bytes, no longer than the span it is given, and
  \<open>writeSome\<close> takes a non-empty prefix of its input. How much of it is up to the
  stream.
\<close>

definition reader_ok :: "('s, 'e) reader \<Rightarrow> ('s \<Rightarrow> bytes) \<Rightarrow> bool" where
  "reader_ok readSome pending \<longleftrightarrow>
     (\<forall>s n. 0 < n \<longrightarrow> pending s \<noteq> [] \<longrightarrow>
        (\<exists>k s'. 1 \<le> k \<and> k \<le> n \<and> k \<le> length (pending s)
           \<and> readSome s n = (Inr (take k (pending s)), s') \<and> pending s' = drop k (pending s)))"

definition writer_ok :: "('s, 'e) writer \<Rightarrow> ('s \<Rightarrow> bytes) \<Rightarrow> bool" where
  "writer_ok writeSome sent \<longleftrightarrow>
     (\<forall>s bs. bs \<noteq> [] \<longrightarrow>
        (\<exists>k s'. 1 \<le> k \<and> k \<le> length bs \<and> writeSome s bs = (Inr k, s')
           \<and> sent s' = sent s @ take k bs))"

lemma read_exact_ok:
  assumes ok: "reader_ok readSome pending" and "n \<le> length (pending s)"
  shows "\<exists>s'. read_exact readSome s n = (Inr (take n (pending s)), s')
      \<and> pending s' = drop n (pending s)"
  using assms(2)
proof (induction n arbitrary: s rule: less_induct)
  case (less n)
  show ?case
  proof (cases "n = 0")
    case True
    then show ?thesis by (simp add: read_exact.simps)
  next
    case False
    then obtain k s1 where k: "1 \<le> k" "k \<le> n" "k \<le> length (pending s)"
      and rd: "readSome s n = (Inr (take k (pending s)), s1)" "pending s1 = drop k (pending s)"
      using ok less.prems unfolding reader_ok_def by (metis le_zero_eq length_0_conv neq0_conv)
    from k have len: "length (take k (pending s)) = k" by simp
    from k less.prems rd have "n - k < n" "n - k \<le> length (pending s1)" by auto
    from less.IH [OF this] obtain s2
      where "read_exact readSome s1 (n - k) = (Inr (take (n - k) (pending s1)), s2)"
        "pending s2 = drop (n - k) (pending s1)"
      by blast
    with k rd len False show ?thesis
      by (subst read_exact.simps)
        (simp add: take_add [symmetric] flip: length_greater_0_conv)
  qed
qed

lemma write_all_ok:
  assumes ok: "writer_ok writeSome sent"
  shows "\<exists>s'. write_all writeSome s bs = (Inr (), s') \<and> sent s' = sent s @ bs"
proof (induction bs arbitrary: s rule: length_induct)
  case (1 bs)
  show ?case
  proof (cases "bs = []")
    case True
    then show ?thesis by (simp add: write_all.simps)
  next
    case False
    then obtain k s1 where k: "1 \<le> k" "k \<le> length bs" "writeSome s bs = (Inr k, s1)"
      and sent: "sent s1 = sent s @ take k bs"
      using ok unfolding writer_ok_def by metis
    from k False have "length (drop k bs) < length bs" by simp
    with 1 obtain s2 where "write_all writeSome s1 (drop k bs) = (Inr (), s2)"
        "sent s2 = sent s1 @ drop k bs" by blast
    with k sent False show ?thesis by (subst write_all.simps) auto
  qed
qed

lemma consume_byte_state: "vr_state r = kUnderflow \<Longrightarrow> vr_state (snd (consume_byte r b)) = fst (consume_byte r b)"
  by (simp add: consume_byte_def Let_def)

lemma consume_loop_mono: "consume_loop r s0 n bs = (s', n', r') \<Longrightarrow> n \<le> n'"
proof (induction bs arbitrary: r s0 n)
  case (Cons b bs)
  then show ?case by (fastforce simp: Let_def split: prod.splits if_splits)
qed simp

lemma readVarint_loop_ok:
  assumes ok: "reader_ok readSome pending"
    and "vr_state r = kUnderflow"
    and "consume_loop r kUnderflow n (pending s) = (s', n', r')" and "s' \<noteq> kUnderflow"
  shows "\<exists>t. readVarint_loop readSome s r = (Inr r', t) \<and> pending t = drop (n' - n) (pending s)
      \<and> vr_state r' = s'"
  using assms(2-4)
proof (induction "pending s" arbitrary: s r n)
  case Nil
  then show ?case by simp
next
  case (Cons b bs)
  obtain s1 where rd: "read_exact readSome s 1 = (Inr [b], s1)" "pending s1 = bs"
    using read_exact_ok [OF ok, of 1 s] Cons.hyps(2) [symmetric] by auto
  obtain st r1 where c: "consume_byte r b = (st, r1)" by fastforce
  with consume_byte_state [OF Cons.prems(1), of b] have st: "vr_state r1 = st" by simp
  have unfold: "readVarint_loop readSome s r = readVarint_loop readSome s1 r1"
    using Cons.prems(1) rd c by (subst readVarint_loop.simps) simp
  show ?case
  proof (cases "st = kUnderflow")
    case True
    with Cons.prems(2) c Cons.hyps(2) [symmetric]
    have run: "consume_loop r1 kUnderflow (Suc n) bs = (s', n', r')" by simp
    with Cons.hyps(1) [OF rd(2) [symmetric], of r1 "Suc n"] rd(2) st True Cons.prems(3)
    obtain t where "readVarint_loop readSome s1 r1 = (Inr r', t)"
      "pending t = drop (n' - Suc n) bs" "vr_state r' = s'" by auto
    moreover have "n' - n = Suc (n' - Suc n)" using consume_loop_mono [OF run] by simp
    ultimately show ?thesis using unfold Cons.hyps(2) [symmetric] by simp
  next
    case False
    with Cons.prems(2) c Cons.hyps(2) [symmetric] have "s' = st" "n' = Suc n" "r' = r1" by simp_all
    with False st unfold rd Cons.hyps(2) [symmetric] show ?thesis
      by (simp add: readVarint_loop.simps [of readSome s1 r1])
  qed
qed

lemma readVarint_ok:
  assumes ok: "reader_ok readSome pending" and p: "pending s = varint_bytes v @ rest"
  shows "\<exists>t. readVarint readSome s = (Inr v, t) \<and> pending t = rest"
proof -
  obtain s' n r where run: "consume_loop VarintPrefixReader_init kUnderflow 0 (pending s) = (s', n, r)"
    by (metis prod_cases3)
  from consume_buffer_varint [of v rest] run p have r: "s' = kReady" "vr_value r = v"
      "drop n (pending s) = rest \<or> n = 0 \<and> pending s = rest"
    by (auto simp: consume_buffer_def VarintPrefixReader_init_def Let_def split: if_splits)
  then have "drop n (pending s) = rest" by auto
  moreover obtain t where "readVarint_loop readSome s VarintPrefixReader_init = (Inr r, t)"
      "pending t = drop n (pending s)" "vr_state r = kReady"
    using readVarint_loop_ok [OF ok _ run] r by (auto simp: VarintPrefixReader_init_def)
  ultimately show ?thesis using r by (simp add: readVarint_def)
qed

section \<open>Properties\<close>

text \<open>
  Decoding inverts encoding, on every 64-bit value and whatever follows it: the
  bytes that \<open>EncodeVarint\<close> writes are read back by \<open>UVarint::create\<close> and by
  \<open>VarintPrefixReader::consume\<close> as the same value, and the prefix reader leaves
  exactly the rest of the buffer.
\<close>

theorem varint_roundtrip:
  "\<exists>e u r. encodeVarint v = Some e
     \<and> UVarint_create (encodeVarint_bytes e @ rest) = Some u \<and> toUInt64 u = v
     \<and> consume_buffer VarintPrefixReader_init (encodeVarint_bytes e @ rest) = (kReady, rest, r)
     \<and> vr_value r = v"
proof -
  obtain e where "encodeVarint v = Some e" "encodeVarint_bytes e = varint_bytes v"
    using encodeVarint_bytes_eq by blast
  then show ?thesis
    using consume_buffer_varint [of v rest] by (simp add: UVarint_create_varint)
qed

text \<open>
  The two decoders agree on every input: \<open>UVarint::create\<close> finds a varint exactly
  when the prefix reader reaches \<open>kReady\<close>, with the same value and the same number of
  bytes used.
\<close>

theorem varint_decoders_agree:
  "case UVarint_create bs of
     Some u \<Rightarrow> \<exists>r. consume_buffer VarintPrefixReader_init bs = (kReady, drop (uvarint_size u) bs, r)
                \<and> vr_value r = toUInt64 u
   | None \<Rightarrow> fst (consume_buffer VarintPrefixReader_init bs) \<noteq> kReady"
  by (rule consume_buffer_create)

text \<open>
  The ten-byte array of \<open>EncodeVarint\<close> is always large enough: its bounds
  assertion never fails, and it holds the bytes that \<open>UVarint\<close> would push.
\<close>

theorem encodeVarint_fits:
  "\<exists>e. encodeVarint v = Some e \<and> encodeVarint_bytes e = toBytes (UVarint_of_u64 v)
     \<and> length (encodeVarint_bytes e) \<le> 10"
  using encodeVarint_bytes_eq [of v] varint_bytes_length_le_10 [of v]
  by (auto simp: toBytes_def UVarint_of_u64_def)

text \<open>
  C35. Framing round trip: on streams that do not fail, however they split their
  transfers, \<open>writeVarintMessage\<close> succeeds, and \<open>readVarintMessage\<close> on what was
  sent returns the message and leaves what followed it, for any message within the
  size limit.
\<close>

theorem frame_roundtrip:
  assumes "writer_ok writeSome sent" and "reader_ok readSome pending"
    and "length message \<le> max_size" and "max_size < 2 ^ 64"
  shows "\<exists>w' frame. writeVarintMessage writeSome w message = Some (Inr (), w')
      \<and> sent w' = sent w @ frame
      \<and> (\<forall>r rest. pending r = frame @ rest \<longrightarrow>
           (\<exists>r'. readVarintMessage readSome r max_size = (Inr message, r') \<and> pending r' = rest))"
proof -
  let ?v = "word_of_nat (length message) :: u64"
  have v: "unat ?v = length message"
    using assms(3,4) by (simp add: unat_of_nat)
  obtain e where e: "encodeVarint ?v = Some e" "encodeVarint_bytes e = varint_bytes ?v"
    using encodeVarint_bytes_eq by blast
  obtain w1 where w1: "write_all writeSome w (varint_bytes ?v) = (Inr (), w1)"
      "sent w1 = sent w @ varint_bytes ?v"
    using write_all_ok [OF assms(1)] by blast
  obtain w2 where w2: "write_all writeSome w1 message = (Inr (), w2)" "sent w2 = sent w1 @ message"
    using write_all_ok [OF assms(1)] by blast
  have "\<exists>r'. readVarintMessage readSome r max_size = (Inr message, r') \<and> pending r' = rest"
    if p: "pending r = varint_bytes ?v @ message @ rest" for r rest
  proof -
    obtain t where "readVarint readSome r = (Inr ?v, t)" "pending t = message @ rest"
      using readVarint_ok [OF assms(2) p] by blast
    then show ?thesis
      using read_exact_ok [OF assms(2), of "length message" t] v assms(3)
      by (auto simp: readVarintMessage_def)
  qed
  then show ?thesis
    using e w1 w2 by (intro exI [of _ w2] exI [of _ "varint_bytes ?v @ message"])
      (simp add: writeVarintMessage_def)
qed

text \<open>
  A frame that announces more than \<open>max_size\<close> bytes is refused with
  \<open>MESSAGE_TOO_LONG\<close> after its prefix: none of its payload is read.
\<close>

theorem frame_too_long:
  assumes "reader_ok readSome pending" and "pending r = toBytes (UVarint_of_u64 v) @ rest"
    and "unat v > max_size"
  shows "\<exists>r'. readVarintMessage readSome r max_size = (Inl (FrameError MESSAGE_TOO_LONG), r')
      \<and> pending r' = rest"
  using readVarint_ok [OF assms(1), of r v rest] assms(2,3)
  by (auto simp: readVarintMessage_def toBytes_def UVarint_of_u64_def)

section \<open>Witnesses\<close>

text \<open>A stream over a byte list that moves at most two bytes a call.\<close>

definition slow_read :: "(bytes, unit) reader" where
  "slow_read s n = (if s = [] then (Inl (), s) else (Inr (take (min n 2) s), drop (min n 2) s))"

definition slow_write :: "(bytes, unit) writer" where
  "slow_write s bs = (Inr (min 2 (length bs)), s @ take 2 bs)"

lemma slow_read_ok: "reader_ok slow_read id"
  unfolding reader_ok_def
proof (intro allI impI)
  fix s :: bytes and n :: nat
  assume "0 < n" "id s \<noteq> []"
  then show "\<exists>k s'. 1 \<le> k \<and> k \<le> n \<and> k \<le> length (id s)
      \<and> slow_read s n = (Inr (take k (id s)), s') \<and> id s' = drop k (id s)"
    by (intro exI [of _ "min (min n 2) (length s)"] exI [of _ "drop (min n 2) s"])
      (auto simp: slow_read_def min_def Suc_le_eq)
qed

lemma slow_write_ok: "writer_ok slow_write id"
  unfolding writer_ok_def
proof (intro allI impI)
  fix s bs :: bytes
  assume "bs \<noteq> []"
  then show "\<exists>k s'. 1 \<le> k \<and> k \<le> length bs \<and> slow_write s bs = (Inr k, s') \<and> id s' = id s @ take k bs"
    by (intro exI [of _ "min 2 (length bs)"] exI [of _ "s @ take 2 bs"])
      (auto simp: slow_write_def min_def Suc_le_eq)
qed

theorem frame_roundtrip_witness:
  "\<exists>w' frame. writeVarintMessage slow_write [] [1, 2, 3] = Some (Inr (), w')
      \<and> id w' = id [] @ frame
      \<and> (\<forall>r rest. id r = frame @ rest \<longrightarrow>
           (\<exists>r'. readVarintMessage slow_read r kDefaultMaxMessage = (Inr [1, 2, 3], r') \<and> id r' = rest))"
  by (rule frame_roundtrip [OF slow_write_ok slow_read_ok]) (simp_all add: kDefaultMaxMessage_def)

theorem frame_too_long_witness:
  "\<exists>r'. readVarintMessage slow_read (toBytes (UVarint_of_u64 300) @ [7]) 299
      = (Inl (FrameError MESSAGE_TOO_LONG), r') \<and> id r' = [7]"
  by (rule frame_too_long [OF slow_read_ok, of _ 300]) simp_all

end
