(* ===== verification/Read_Buffer.thy ===== *)
theory Read_Buffer
  imports Prelude
begin

text \<open>
  The fragmented receive buffer \<open>ReadBuffer\<close> and the message collector
  \<open>FixedBufferCollector\<close> of \<open>src/basic/read_buffer.cpp\<close>. The lemmas show that
  \<open>ReadBuffer\<close> is a byte queue: no operation fails an assertion, and what was added is
  what is consumed, in order. The collector returns exactly the expected number of
  bytes, whatever the chunks they arrive in.
\<close>

section \<open>\<open>ReadBuffer\<close>\<close>

text \<open>
  A fragment is a \<open>std::vector<uint8_t>\<close>: its bytes and its capacity. \<open>reserve\<close> grows
  the capacity to exactly the size asked for.
\<close>

record Fragment =
  frag_data :: bytes
  frag_capacity :: nat

definition frag_reserve :: "nat \<Rightarrow> Fragment \<Rightarrow> Fragment" where
  "frag_reserve n f = f\<lparr>frag_capacity := max (frag_capacity f) n\<rparr>"

definition frag_insert :: "bytes \<Rightarrow> Fragment \<Rightarrow> Fragment" where
  "frag_insert bs f =
     (let d = frag_data f @ bs
      in f\<lparr>frag_data := d, frag_capacity := max (frag_capacity f) (length d)\<rparr>)"

record ReadBuffer =
  alloc_granularity :: nat
  total_size :: nat
  first_byte_offset :: nat
  capacity_remains :: nat
  fragments :: "Fragment list"

definition kDefaultAllocGranularity :: nat where
  "kDefaultAllocGranularity = 65536"

text \<open>
  An operation returns \<open>None\<close> where the code fails an assertion, reads outside a
  fragment, or does not return.
\<close>

definition ReadBuffer_new :: "nat \<Rightarrow> ReadBuffer option" where
  "ReadBuffer_new granularity =
     (if granularity > 0 then
        Some \<lparr>alloc_granularity = granularity, total_size = 0, first_byte_offset = 0,
              capacity_remains = 0, fragments = []\<rparr>
      else None)"

definition rb_empty :: "ReadBuffer \<Rightarrow> bool" where
  "rb_empty b \<longleftrightarrow> total_size b = 0"

definition add :: "ReadBuffer \<Rightarrow> bytes \<Rightarrow> ReadBuffer option" where
  "add b bs =
     (let sz = length bs in
      if sz = 0 then Some b
      else
        (let r =
           (if capacity_remains b \<ge> sz then
              (if fragments b = [] then None
               else Some (b\<lparr>fragments := butlast (fragments b) @ [frag_insert bs (last (fragments b))],
                            capacity_remains := capacity_remains b - sz\<rparr>))
            else if capacity_remains b > 0 then
              (if fragments b = [] then None
               else
                 (let vec = last (fragments b);
                      new_capacity = length (frag_data vec) + sz + alloc_granularity b
                  in Some (b\<lparr>fragments := butlast (fragments b)
                                 @ [frag_insert bs (frag_reserve new_capacity vec)],
                              capacity_remains := alloc_granularity b\<rparr>)))
            else
              (let new_capacity = sz + alloc_granularity b
               in Some (b\<lparr>fragments := fragments b
                              @ [frag_insert bs (frag_reserve new_capacity
                                   \<lparr>frag_data = [], frag_capacity = 0\<rparr>)],
                           capacity_remains := alloc_granularity b\<rparr>)))
         in map_option (\<lambda>b'. b'\<lparr>total_size := total_size b' + sz\<rparr>) r))"

text \<open>
  The loop of \<open>consumeAll\<close> that looks for a fragment small enough to keep: the first
  one is cleared and moved to the front.
\<close>

fun keep_one :: "nat \<Rightarrow> Fragment list \<Rightarrow> Fragment option" where
  "keep_one limit [] = None"
| "keep_one limit (f # fs) =
     (if frag_capacity f \<le> limit then Some (f\<lparr>frag_data := []\<rparr>) else keep_one limit fs)"

text \<open>
  The output span is modelled by its size; an operation returns the bytes it copies
  there. \<open>None\<close> if they do not fit or \<open>first_byte_offset_\<close> is past the fragment.
\<close>

definition consumeAll :: "ReadBuffer \<Rightarrow> nat \<Rightarrow> (bytes \<times> ReadBuffer) option" where
  "consumeAll b out_size =
     (case fragments b of
        [] \<Rightarrow> None
      | f # fs \<Rightarrow>
          if first_byte_offset b > length (frag_data f) then None
          else
            (let copied = drop (first_byte_offset b) (frag_data f) @ concat (map frag_data fs);
                 b1 = b\<lparr>total_size := 0, first_byte_offset := 0, capacity_remains := 0\<rparr>;
                 b2 = (case keep_one (alloc_granularity b * 2) (f # fs) of
                         Some g \<Rightarrow> b1\<lparr>fragments := [g], capacity_remains := frag_capacity g\<rparr>
                       | None \<Rightarrow> b1\<lparr>fragments := []\<rparr>)
             in if length copied \<le> out_size then Some (copied, b2) else None))"

definition consumePart :: "ReadBuffer \<Rightarrow> nat \<Rightarrow> (bytes \<times> ReadBuffer) option" where
  "consumePart b n =
     (case fragments b of
        [] \<Rightarrow> Some ([], b)
      | f # fs \<Rightarrow>
          if length (frag_data f) \<le> first_byte_offset b then None
          else
            (let fragment_size = length (frag_data f) - first_byte_offset b;
                 n' = (if n > fragment_size then fragment_size else n);
                 copied = take n' (drop (first_byte_offset b) (frag_data f))
             in if n' < fragment_size
                then Some (copied, b\<lparr>first_byte_offset := first_byte_offset b + n'\<rparr>)
                else Some (copied, b\<lparr>first_byte_offset := 0, fragments := fs\<rparr>)))"

text \<open>The \<open>while\<close> loop of \<open>consume\<close>; a round that copies nothing would never end.\<close>

function consume_rounds :: "ReadBuffer \<Rightarrow> nat \<Rightarrow> (bytes \<times> ReadBuffer) option" where
  "consume_rounds b remains =
     (if remains = 0 then Some ([], b)
      else (case consumePart b remains of
              None \<Rightarrow> None
            | Some (bs, b') \<Rightarrow>
                if bs = [] \<or> length bs > remains then None
                else map_option (\<lambda>(rest, b''). (bs @ rest, b''))
                       (consume_rounds b' (remains - length bs))))"
  by pat_completeness auto
termination
  by (relation "measure (\<lambda>(b, n). n)") (auto simp flip: length_greater_0_conv)

declare consume_rounds.simps [simp del]

definition consume :: "ReadBuffer \<Rightarrow> nat \<Rightarrow> (bytes \<times> ReadBuffer) option" where
  "consume b out_size =
     (if rb_empty b then Some ([], b)
      else if out_size \<ge> total_size b then consumeAll b out_size
      else map_option (\<lambda>(bs, b'). (bs, b'\<lparr>total_size := total_size b' - out_size\<rparr>))
             (consume_rounds b out_size))"

lemma consumeAll_total: "consumeAll b n = Some (bs, b') \<Longrightarrow> total_size b' = 0"
  by (auto simp: consumeAll_def Let_def split: list.splits if_splits option.splits)

function addAndConsume :: "ReadBuffer \<Rightarrow> bytes \<Rightarrow> nat \<Rightarrow> (bytes \<times> ReadBuffer) option" where
  "addAndConsume b input out_size =
     (if input = [] then consume b out_size
      else if out_size = 0 then map_option (\<lambda>b'. ([], b')) (add b input)
      else if rb_empty b then
        (if length input \<le> out_size then Some (input, b)
         else map_option (\<lambda>b'. (take out_size input, b')) (add b (drop out_size input)))
      else if out_size \<le> total_size b then
        (case consume b out_size of
           None \<Rightarrow> None
         | Some (bs, b') \<Rightarrow> map_option (\<lambda>b''. (bs, b'')) (add b' input))
      else
        (case consumeAll b out_size of
           None \<Rightarrow> None
         | Some (bs, b') \<Rightarrow>
             map_option (\<lambda>(rest, b''). (bs @ rest, b''))
               (addAndConsume b' input (out_size - length bs))))"
  by pat_completeness auto
termination
  by (relation "measure (\<lambda>(b, i, n). total_size b)") (auto simp: rb_empty_def dest: consumeAll_total)

declare addAndConsume.simps [simp del]

definition clear :: "ReadBuffer \<Rightarrow> ReadBuffer" where
  "clear b = b\<lparr>total_size := 0, first_byte_offset := 0, capacity_remains := 0, fragments := []\<rparr>"

section \<open>\<open>FixedBufferCollector\<close>\<close>

record FixedBufferCollector =
  memory_threshold :: nat
  expected_size :: nat
  collected :: Fragment

definition kDefaultMemoryThreshold :: nat where
  "kDefaultMemoryThreshold = 65536"

definition FixedBufferCollector_new :: "nat \<Rightarrow> nat \<Rightarrow> FixedBufferCollector" where
  "FixedBufferCollector_new expected threshold =
     \<lparr>memory_threshold = threshold, expected_size = expected,
      collected = \<lparr>frag_data = [], frag_capacity = 0\<rparr>\<rparr>"

definition expect :: "FixedBufferCollector \<Rightarrow> nat \<Rightarrow> FixedBufferCollector" where
  "expect c sz =
     (let c1 = c\<lparr>expected_size := sz, collected := (collected c)\<lparr>frag_data := []\<rparr>\<rparr>;
          reserved = frag_capacity (collected c1)
      in if reserved > memory_threshold c \<and> sz < reserved * 3 div 4
         then c1\<lparr>collected := \<lparr>frag_data = [], frag_capacity = 0\<rparr>\<rparr>
         else c1)"

text \<open>
  \<open>add(BytesIn &data)\<close>: the message if complete, what is left of \<open>data\<close>, and the
  collector afterwards; \<open>None\<close> is the failed assertion.
\<close>

definition collector_add ::
  "FixedBufferCollector \<Rightarrow> bytes \<Rightarrow> (bytes option \<times> bytes \<times> FixedBufferCollector) option" where
  "collector_add c data =
     (if expected_size c < length (frag_data (collected c)) then None
      else
        (let appending = length data;
             buffered = length (frag_data (collected c))
         in if buffered = 0 \<and> appending \<ge> expected_size c
            then Some (Some (take (expected_size c) data), drop (expected_size c) data,
                       c\<lparr>expected_size := 0\<rparr>)
            else
              (let c1 = (if buffered = 0
                         then c\<lparr>collected := frag_reserve (expected_size c) (collected c)\<rparr> else c);
                   unread = expected_size c - length (frag_data (collected c1))
               in if unread = 0 then Some (None, data, c1)
                  else
                    (let filled = (appending \<ge> unread);
                         appending' = (if filled then unread else appending);
                         c2 = c1\<lparr>collected := frag_insert (take appending' data) (collected c1)\<rparr>;
                         data' = drop appending' data
                     in Some (if filled then Some (frag_data (collected c2)) else None, data', c2)))))"

definition collector_reset :: "FixedBufferCollector \<Rightarrow> FixedBufferCollector" where
  "collector_reset c = c\<lparr>expected_size := 0, collected := \<lparr>frag_data = [], frag_capacity = 0\<rparr>\<rparr>"

section \<open>\<open>ReadBuffer\<close> is a byte queue\<close>

definition contents :: "ReadBuffer \<Rightarrow> bytes" where
  "contents b = drop (first_byte_offset b) (concat (map frag_data (fragments b)))"

definition fragment_ok :: "Fragment \<Rightarrow> bool" where
  "fragment_ok f \<longleftrightarrow> frag_data f \<noteq> [] \<and> length (frag_data f) \<le> frag_capacity f"

definition rb_inv :: "ReadBuffer \<Rightarrow> bool" where
  "rb_inv b \<longleftrightarrow> alloc_granularity b > 0 \<and> total_size b = length (contents b)
     \<and> (if total_size b = 0
        then first_byte_offset b = 0
          \<and> (case fragments b of
               [] \<Rightarrow> capacity_remains b = 0
             | [f] \<Rightarrow> frag_data f = [] \<and> 0 < frag_capacity f \<and> capacity_remains b = frag_capacity f
             | _ \<Rightarrow> False)
        else fragments b \<noteq> [] \<and> list_all fragment_ok (fragments b)
          \<and> first_byte_offset b < length (frag_data (hd (fragments b)))
          \<and> length (frag_data (last (fragments b))) + capacity_remains b
              \<le> frag_capacity (last (fragments b)))"

lemma rb_inv_new: "ReadBuffer_new g = Some b \<Longrightarrow> rb_inv b \<and> contents b = []"
  by (auto simp: ReadBuffer_new_def rb_inv_def contents_def split: if_splits)

lemma rb_inv_clear: "rb_inv b \<Longrightarrow> rb_inv (clear b) \<and> contents (clear b) = []"
  by (auto simp: rb_inv_def clear_def contents_def)

lemma rb_inv_nonempty:
  assumes "rb_inv b" and "total_size b \<noteq> 0"
  obtains fs l where "fragments b = fs @ [l]" "list_all fragment_ok (fs @ [l])"
    "first_byte_offset b < length (frag_data (hd (fs @ [l])))"
    "length (frag_data l) + capacity_remains b \<le> frag_capacity l" "alloc_granularity b > 0"
    "total_size b = length (contents b)"
proof (cases "fragments b" rule: rev_cases)
  case Nil
  with assms show ?thesis by (simp add: rb_inv_def)
next
  case (snoc fs l)
  with assms show ?thesis by (intro that [of fs l]) (simp_all add: rb_inv_def)
qed

lemma hd_le_concat:
  "n < length (frag_data (hd (fs @ [l]))) \<Longrightarrow> n < length (concat (map frag_data fs)) + length (frag_data l)"
  by (cases fs) auto

lemma rb_inv_nonemptyI:
  assumes "fragments b = fs @ [l]" "list_all fragment_ok (fs @ [l])"
    "first_byte_offset b < length (frag_data (hd (fs @ [l])))"
    "length (frag_data l) + capacity_remains b \<le> frag_capacity l" "alloc_granularity b > 0"
    "total_size b = length (contents b)"
  shows "rb_inv b"
proof -
  have "length (contents b) > 0"
    using assms(1) hd_le_concat [OF assms(3)] by (simp add: contents_def)
  then have "total_size b \<noteq> 0" using assms(6) by linarith
  then show ?thesis unfolding rb_inv_def using assms by simp
qed

lemma add_nonempty:
  assumes inv: "rb_inv b" and ne: "total_size b \<noteq> 0" and bs: "bs \<noteq> []"
  shows "\<exists>b'. add b bs = Some b' \<and> rb_inv b' \<and> contents b' = contents b @ bs"
proof -
  obtain fs l where f: "fragments b = fs @ [l]" "list_all fragment_ok (fs @ [l])"
      "first_byte_offset b < length (frag_data (hd (fs @ [l])))"
      "length (frag_data l) + capacity_remains b \<le> frag_capacity l" "alloc_granularity b > 0"
      "total_size b = length (contents b)"
    using rb_inv_nonempty [OF inv ne] by blast
  note off = hd_le_concat [OF f(3)]
  have hd_data: "first_byte_offset b < length (frag_data (hd (fs @ l' # ls)))"
    if "length (frag_data l) \<le> length (frag_data l')" for l' ls
    using f(3) that by (cases fs) auto
  have sz: "length bs \<noteq> 0" using bs by simp
  consider "capacity_remains b \<ge> length bs" | "capacity_remains b < length bs" "capacity_remains b > 0"
    | "capacity_remains b = 0" by linarith
  then show ?thesis
  proof cases
    case 1
    define l' where "l' = frag_insert bs l"
    define b' where "b' = b\<lparr>fragments := fs @ [l'], capacity_remains := capacity_remains b - length bs,
      total_size := total_size b + length bs\<rparr>"
    have l': "frag_data l' = frag_data l @ bs" "frag_capacity l' = frag_capacity l"
      using 1 f(4) by (simp_all add: l'_def frag_insert_def Let_def)
    have c: "contents b' = contents b @ bs" using off f(1) l' by (simp add: b'_def contents_def)
    have "rb_inv b'"
      by (rule rb_inv_nonemptyI [of _ fs l'])
        (use f l' 1 sz hd_data [of l' "[]"] c in \<open>auto simp: b'_def fragment_ok_def\<close>)
    moreover have "add b bs = Some b'" using f(1) 1 sz by (simp add: add_def b'_def l'_def Let_def)
    ultimately show ?thesis using c by blast
  next
    case 2
    let ?n = "length (frag_data l) + length bs + alloc_granularity b"
    define l' where "l' = frag_insert bs (frag_reserve ?n l)"
    define b' where "b' = b\<lparr>fragments := fs @ [l'], capacity_remains := alloc_granularity b,
      total_size := total_size b + length bs\<rparr>"
    have l': "frag_data l' = frag_data l @ bs" "frag_capacity l' = max (frag_capacity l) ?n"
      by (simp_all add: l'_def frag_insert_def frag_reserve_def Let_def)
    have c: "contents b' = contents b @ bs" using off f(1) l' by (simp add: b'_def contents_def)
    have "rb_inv b'"
      by (rule rb_inv_nonemptyI [of _ fs l'])
        (use f l' sz hd_data [of l' "[]"] c in \<open>auto simp: b'_def fragment_ok_def\<close>)
    moreover have "add b bs = Some b'" using f(1) 2 sz by (simp add: add_def b'_def l'_def Let_def)
    ultimately show ?thesis using c by blast
  next
    case 3
    let ?n = "length bs + alloc_granularity b"
    define l' where "l' = frag_insert bs (frag_reserve ?n \<lparr>frag_data = [], frag_capacity = 0\<rparr>)"
    define b' where "b' = b\<lparr>fragments := (fs @ [l]) @ [l'], capacity_remains := alloc_granularity b,
      total_size := total_size b + length bs\<rparr>"
    have l': "frag_data l' = bs" "frag_capacity l' = ?n"
      by (simp_all add: l'_def frag_insert_def frag_reserve_def Let_def)
    have c: "contents b' = contents b @ bs" using off f(1) l' by (simp add: b'_def contents_def)
    have "rb_inv b'"
      by (rule rb_inv_nonemptyI [of _ "fs @ [l]" l'])
        (use f l' sz hd_data [of l "[l']"] c in \<open>auto simp: b'_def fragment_ok_def\<close>)
    moreover have "add b bs = Some b'" using f(1) 3 sz by (simp add: add_def b'_def l'_def Let_def)
    ultimately show ?thesis using c by blast
  qed
qed

lemma add_empty:
  assumes inv: "rb_inv b" and e: "total_size b = 0" and bs: "bs \<noteq> []"
  shows "\<exists>b'. add b bs = Some b' \<and> rb_inv b' \<and> contents b' = contents b @ bs"
proof (cases "fragments b")
  case Nil
  with assms show ?thesis
    by (auto simp: add_def Let_def rb_inv_def contents_def frag_insert_def frag_reserve_def
        fragment_ok_def)
next
  case (Cons f fs)
  with inv e have "fs = []" "frag_data f = []" "0 < frag_capacity f" "capacity_remains b = frag_capacity f"
      "first_byte_offset b = 0"
    by (auto simp: rb_inv_def split: list.splits)
  with Cons assms show ?thesis
    by (auto simp: add_def Let_def rb_inv_def contents_def frag_insert_def frag_reserve_def
        fragment_ok_def)
qed

lemma add_ok:
  assumes "rb_inv b"
  shows "\<exists>b'. add b bs = Some b' \<and> rb_inv b' \<and> contents b' = contents b @ bs"
  using add_nonempty [OF assms] add_empty [OF assms] assms
  by (cases "bs = []") (auto simp: add_def)

lemma keep_one_Some:
  "keep_one limit fs = Some g \<Longrightarrow> list_all fragment_ok fs \<Longrightarrow> frag_data g = [] \<and> 0 < frag_capacity g"
  by (induction fs) (auto simp: fragment_ok_def split: if_splits simp flip: length_greater_0_conv)

lemma consumeAll_ok:
  assumes inv: "rb_inv b" and ne: "total_size b \<noteq> 0" and fits: "total_size b \<le> n"
  shows "\<exists>b'. consumeAll b n = Some (contents b, b') \<and> rb_inv b' \<and> contents b' = []"
proof -
  from inv ne obtain f fs where f: "fragments b = f # fs" by (cases "fragments b") (auto simp: rb_inv_def)
  with inv ne have ok: "list_all fragment_ok (f # fs)" "first_byte_offset b < length (frag_data f)"
      "alloc_granularity b > 0"
    by (auto simp: rb_inv_def)
  then have c: "contents b = drop (first_byte_offset b) (frag_data f) @ concat (map frag_data fs)"
    using f by (simp add: contents_def)
  moreover have "length (contents b) \<le> n" using fits inv by (simp add: rb_inv_def)
  ultimately show ?thesis
    using f ok keep_one_Some [OF _ ok(1), of "alloc_granularity b * 2"]
    by (auto simp: consumeAll_def Let_def rb_inv_def [of "_\<lparr>fragments := _\<rparr>"]
        rb_inv_def [of "_\<lparr>capacity_remains := _\<rparr>"] contents_def split: option.splits)
qed

text \<open>
  While \<open>consume\<close> is in its loop, \<open>total_size_\<close> still has the value from before the
  loop: the invariant holds with the size \<open>t\<close> that is left.
\<close>

lemma contents_total [simp]: "contents (b\<lparr>total_size := t\<rparr>) = contents b"
  by (simp add: contents_def)

lemma consumePart_ok:
  assumes inv: "rb_inv (b\<lparr>total_size := t\<rparr>)" and tot: "0 < n" "n < t"
  shows "\<exists>bs b'. consumePart b n = Some (bs, b') \<and> bs \<noteq> [] \<and> length bs \<le> n
      \<and> contents b = bs @ contents b' \<and> total_size b' = total_size b
      \<and> rb_inv (b'\<lparr>total_size := t - length bs\<rparr>)"
proof -
  have ne: "total_size (b\<lparr>total_size := t\<rparr>) \<noteq> 0" using tot by simp
  obtain fs l where f: "fragments b = fs @ [l]" "list_all fragment_ok (fs @ [l])"
      "first_byte_offset b < length (frag_data (hd (fs @ [l])))"
      "length (frag_data l) + capacity_remains b \<le> frag_capacity l" "alloc_granularity b > 0"
      "t = length (contents b)"
    using rb_inv_nonempty [OF inv ne] by auto
  obtain g gs where g: "fs @ [l] = g # gs" by (cases fs) auto
  let ?off = "first_byte_offset b" and ?size = "length (frag_data g) - first_byte_offset b"
  have off: "?off < length (frag_data g)" using f(3) g by simp
  have c: "contents b = drop ?off (frag_data g) @ concat (map frag_data gs)"
    using f(1) g off by (simp add: contents_def)
  show ?thesis
  proof (cases "n < ?size")
    case True
    let ?b' = "b\<lparr>first_byte_offset := ?off + n\<rparr>"
    have part: "consumePart b n = Some (take n (drop ?off (frag_data g)), ?b')"
      using f(1) g off True by (simp add: consumePart_def Let_def)
    have c': "contents b = take n (drop ?off (frag_data g)) @ contents ?b'"
      using c f(1) g True by (simp add: contents_def) (metis add.commute append_take_drop_id drop_drop)
    have "rb_inv (?b'\<lparr>total_size := t - n\<rparr>)"
      by (rule rb_inv_nonemptyI [of _ fs l])
        (use f g True c' in \<open>auto simp: contents_def min_def dest: arg_cong [of _ _ length]\<close>)
    with part c' True tot(1) show ?thesis by (auto simp: min_def)
  next
    case False
    let ?b' = "b\<lparr>first_byte_offset := 0, fragments := gs\<rparr>"
    have part: "consumePart b n = Some (drop ?off (frag_data g), ?b')"
      using f(1) g off False by (auto simp: consumePart_def Let_def)
    have c': "contents b = drop ?off (frag_data g) @ contents ?b'"
      using c by (simp add: contents_def)
    have "gs \<noteq> []" using False c f(6) tot(2) by (cases gs) auto
    then obtain hs where hs: "fs = g # hs" "gs = hs @ [l]" using g by (cases fs) auto
    have "frag_data (hd gs) \<noteq> []" using f(2) hs by (cases hs) (auto simp: fragment_ok_def)
    then have "rb_inv (?b'\<lparr>total_size := t - ?size\<rparr>)"
      by (intro rb_inv_nonemptyI [of _ hs l])
        (use f hs c' in \<open>auto simp: contents_def dest: arg_cong [of _ _ length]\<close>)
    with part c' off False show ?thesis by auto
  qed
qed

lemma consume_rounds_ok:
  assumes "rb_inv (b\<lparr>total_size := t\<rparr>)" and "n < t"
  shows "\<exists>b'. consume_rounds b n = Some (take n (contents b), b')
      \<and> rb_inv (b'\<lparr>total_size := t - n\<rparr>)
      \<and> total_size b' = total_size b \<and> contents b' = drop n (contents b)"
  using assms
proof (induction n arbitrary: b t rule: less_induct)
  case (less n)
  show ?case
  proof (cases "n = 0")
    case True
    with less.prems show ?thesis by (simp add: consume_rounds.simps)
  next
    case False
    then obtain bs b1 where p: "consumePart b n = Some (bs, b1)" "bs \<noteq> []" "length bs \<le> n"
        "contents b = bs @ contents b1" "total_size b1 = total_size b"
        "rb_inv (b1\<lparr>total_size := t - length bs\<rparr>)"
      using consumePart_ok [OF less.prems(1) _ less.prems(2)] by auto
    have "n - length bs < n" "n - length bs < t - length bs"
      using p(2,3) False less.prems(2) by (auto simp flip: length_greater_0_conv)
    from less.IH [OF this(1) p(6) this(2)] obtain b2
      where "consume_rounds b1 (n - length bs) = Some (take (n - length bs) (contents b1), b2)"
        "rb_inv (b2\<lparr>total_size := t - n\<rparr>)"
        "total_size b2 = total_size b1" "contents b2 = drop (n - length bs) (contents b1)"
      using p(3) by auto
    with p False show ?thesis by (subst consume_rounds.simps) simp
  qed
qed

lemma consume_ok:
  assumes "rb_inv b"
  shows "\<exists>b'. consume b n = Some (take n (contents b), b') \<and> rb_inv b'
      \<and> contents b' = drop n (contents b)"
proof -
  have len: "total_size b = length (contents b)" using assms by (simp add: rb_inv_def)
  consider "total_size b = 0" | "total_size b \<noteq> 0" "total_size b \<le> n" | "n < total_size b"
    by linarith
  then show ?thesis
  proof cases
    case 1
    with assms len show ?thesis by (simp add: consume_def rb_empty_def)
  next
    case 2
    with consumeAll_ok [OF assms 2] len show ?thesis by (auto simp: consume_def rb_empty_def)
  next
    case 3
    from assms have "rb_inv (b\<lparr>total_size := total_size b\<rparr>)" by simp
    with consume_rounds_ok [OF this 3] 3 show ?thesis
      by (auto simp: consume_def rb_empty_def)
  qed
qed

lemma addAndConsume_ok:
  assumes "rb_inv b"
  shows "\<exists>b'. addAndConsume b bs n = Some (take n (contents b @ bs), b') \<and> rb_inv b'
      \<and> contents b' = drop n (contents b @ bs)"
  using assms
proof (induction b bs n rule: addAndConsume.induct)
  case (1 b bs n)
  have len: "total_size b = length (contents b)" using "1.prems" by (simp add: rb_inv_def)
  consider "bs = []" | "bs \<noteq> []" "n = 0" | "bs \<noteq> []" "n > 0" "total_size b = 0"
    | "bs \<noteq> []" "n > 0" "total_size b > 0" "n \<le> total_size b"
    | "bs \<noteq> []" "n > 0" "total_size b > 0" "total_size b < n"
    by linarith
  then show ?case
  proof cases
    case 1
    with consume_ok [OF "1.prems", of n] show ?thesis by (subst addAndConsume.simps) simp
  next
    case 2
    with add_ok [OF "1.prems", of bs] show ?thesis by (subst addAndConsume.simps) auto
  next
    case 3
    with add_ok [OF "1.prems", of "drop n bs"] len "1.prems" show ?thesis
      by (subst addAndConsume.simps) (auto simp: rb_empty_def)
  next
    case 4
    obtain b1 where b1: "consume b n = Some (take n (contents b), b1)" "rb_inv b1"
        "contents b1 = drop n (contents b)"
      using consume_ok [OF "1.prems"] by blast
    with add_ok [OF b1(2), of bs] 4 len show ?thesis
      by (subst addAndConsume.simps) (auto simp: rb_empty_def)
  next
    case 5
    then obtain b1 where b1: "consumeAll b n = Some (contents b, b1)" "rb_inv b1" "contents b1 = []"
      using consumeAll_ok [OF "1.prems", of n] by auto
    have "\<exists>b'. addAndConsume b1 bs (n - length (contents b)) =
        Some (take (n - length (contents b)) (contents b1 @ bs), b') \<and> rb_inv b'
      \<and> contents b' = drop (n - length (contents b)) (contents b1 @ bs)"
      using 5 b1 "1.IH" [of "(contents b, b1)" "contents b" b1] by (simp add: rb_empty_def)
    with 5 b1 len show ?thesis by (subst addAndConsume.simps) (auto simp: rb_empty_def)
  qed
qed

section \<open>Operation sequences\<close>

datatype rb_op = Add bytes | Consume nat | AddAndConsume bytes nat

fun rb_step :: "ReadBuffer \<Rightarrow> rb_op \<Rightarrow> (bytes \<times> ReadBuffer) option" where
  "rb_step b (Add bs) = map_option (\<lambda>b'. ([], b')) (add b bs)"
| "rb_step b (Consume n) = consume b n"
| "rb_step b (AddAndConsume bs n) = addAndConsume b bs n"

fun rb_input :: "rb_op \<Rightarrow> bytes" where
  "rb_input (Add bs) = bs"
| "rb_input (Consume n) = []"
| "rb_input (AddAndConsume bs n) = bs"

interpretation rbq: byte_queue rb_inv contents rb_step rb_input
proof unfold_locales
  fix b x
  assume inv: "rb_inv b"
  show "\<exists>out b'. rb_step b x = Some (out, b') \<and> rb_inv b'
      \<and> out @ contents b' = contents b @ rb_input x"
    using add_ok [OF inv] consume_ok [OF inv] addAndConsume_ok [OF inv]
    by (cases x) (fastforce, (metis append_Nil2 append_take_drop_id rb_input.simps rb_step.simps)+)
qed

text \<open>
  \<open>ReadBuffer\<close> is a lossless queue: from a fresh buffer, no sequence of \<open>add\<close>,
  \<open>consume\<close> and \<open>addAndConsume\<close> fails an assertion or hangs, the bytes handed out
  followed by the bytes still held are exactly the bytes added, in order, and
  \<open>size()\<close> is the number of bytes held.
\<close>

theorem readbuffer_lossless:
  assumes "ReadBuffer_new granularity = Some b"
  shows "\<exists>out b'. run_ops rb_step b ops = Some (out, b')
      \<and> out @ contents b' = concat (map rb_input ops) \<and> total_size b' = length (contents b')"
  using rbq.run_conserves [of b ops] rb_inv_new [OF assms] by (auto simp: rb_inv_def)

theorem readbuffer_lossless_witness:
  "\<exists>out b'. run_ops rb_step \<lparr>alloc_granularity = 4, total_size = 0, first_byte_offset = 0,
        capacity_remains = 0, fragments = []\<rparr> [Add [1, 2], AddAndConsume [3] 2] = Some (out, b')
      \<and> out @ contents b' = [1, 2, 3] \<and> total_size b' = length (contents b')"
  using readbuffer_lossless [of 4 _ "[Add [1, 2], AddAndConsume [3] 2]"]
  by (simp add: ReadBuffer_new_def)

text \<open>
  \<open>consume\<close> and \<open>addAndConsume\<close> copy out as many bytes as are available and
  asked for, in any state the operations can reach: never fewer, and always the
  oldest ones.
\<close>

theorem readbuffer_serves_all:
  assumes "ReadBuffer_new granularity = Some b" and "run_ops rb_step b ops = Some (out, b')"
  shows "(\<exists>b1. consume b' n = Some (take n (contents b'), b1) \<and> contents b1 = drop n (contents b'))
    \<and> (\<exists>b2. addAndConsume b' bs n = Some (take n (contents b' @ bs), b2)
          \<and> contents b2 = drop n (contents b' @ bs))"
proof -
  have "rb_inv b'" using rbq.run_conserves [of b ops] rb_inv_new [OF assms(1)] assms(2) by auto
  then show ?thesis using consume_ok addAndConsume_ok by blast
qed

theorem readbuffer_serves_all_witness:
  "(\<exists>b1. consume \<lparr>alloc_granularity = 4, total_size = 0, first_byte_offset = 0,
        capacity_remains = 0, fragments = []\<rparr> 3 = Some ([], b1) \<and> contents b1 = [])
   \<and> (\<exists>b2. addAndConsume \<lparr>alloc_granularity = 4, total_size = 0, first_byte_offset = 0,
        capacity_remains = 0, fragments = []\<rparr> [5, 6] 1 = Some ([5], b2) \<and> contents b2 = [6])"
  using readbuffer_serves_all [of 4 _ "[]" "[]" _ 3 "[]"]
    readbuffer_serves_all [of 4 _ "[]" "[]" _ 1 "[5, 6]"]
  by (simp add: ReadBuffer_new_def contents_def)

section \<open>The collector\<close>

text \<open>Feeding chunks until a message is complete: the message, the rest of its chunk, the chunks left.\<close>

fun collect_chunks ::
  "FixedBufferCollector \<Rightarrow> bytes list \<Rightarrow> (bytes \<times> bytes \<times> bytes list \<times> FixedBufferCollector) option" where
  "collect_chunks c [] = None"
| "collect_chunks c (data # chunks) =
     (case collector_add c data of
        None \<Rightarrow> None
      | Some (Some message, data', c') \<Rightarrow> Some (message, data', chunks, c')
      | Some (None, data', c') \<Rightarrow> collect_chunks c' chunks)"

lemma collect_chunks_ok:
  assumes "length (frag_data (collected c)) < expected_size c"
    and "expected_size c \<le> length (frag_data (collected c)) + length (concat chunks)"
  shows "\<exists>data' rest c'. collect_chunks c chunks =
        Some (frag_data (collected c)
                @ take (expected_size c - length (frag_data (collected c))) (concat chunks),
              data', rest, c')
      \<and> data' @ concat rest = drop (expected_size c - length (frag_data (collected c))) (concat chunks)"
  using assms
proof (induction chunks arbitrary: c)
  case Nil
  then show ?case by simp
next
  case (Cons data chunks)
  let ?unread = "expected_size c - length (frag_data (collected c))"
  show ?case
  proof (cases "?unread \<le> length data")
    case True
    with Cons.prems(1) show ?thesis
      by (auto simp: collector_add_def Let_def frag_insert_def frag_reserve_def)
  next
    case False
    have "\<exists>c'. collector_add c data = Some (None, [], c')
      \<and> frag_data (collected c') = frag_data (collected c) @ data \<and> expected_size c' = expected_size c"
      using Cons.prems(1) False
      by (cases "frag_data (collected c) = []")
        (simp_all add: collector_add_def Let_def frag_insert_def frag_reserve_def)
    then obtain c' where c': "collector_add c data = Some (None, [], c')"
      "frag_data (collected c') = frag_data (collected c) @ data" "expected_size c' = expected_size c"
      by blast
    with Cons.IH [of c'] Cons.prems False show ?thesis by auto
  qed
qed

text \<open>
  After \<open>expect(n)\<close> in any state, feeding data in any chunks makes the collector
  return exactly the first \<open>n\<close> bytes as soon as they have arrived, and leaves every
  later byte to its caller.
\<close>

theorem collector_exact:
  assumes "0 < n" and "n \<le> length (concat chunks)"
  shows "\<exists>data' rest c'. collect_chunks (expect c n) chunks
      = Some (take n (concat chunks), data', rest, c') \<and> data' @ concat rest = drop n (concat chunks)"
proof -
  have "frag_data (collected (expect c n)) = []" "expected_size (expect c n) = n"
    by (simp_all add: expect_def Let_def)
  with collect_chunks_ok [of "expect c n" chunks] assms show ?thesis by simp
qed

theorem collector_exact_witness:
  "\<exists>data' rest c'. collect_chunks (expect (FixedBufferCollector_new 0 kDefaultMemoryThreshold) 3)
        [[1, 2], [], [3, 4]] = Some ([1, 2, 3], data', rest, c') \<and> data' @ concat rest = [4]"
  using collector_exact [of 3 "[[1, 2], [], [3, 4]]" "FixedBufferCollector_new 0 kDefaultMemoryThreshold"]
  by simp

text \<open>
  The two ways a message completes leave different states. Completed from one chunk,
  the collector expects nothing and answers every further chunk with an empty
  message; completed from its buffer, it answers \<open>nullopt\<close>.
\<close>

lemma collector_after_split:
  "collector_add (FixedBufferCollector_new 1 8) [7] = Some (Some [7], [], FixedBufferCollector_new 0 8)"
  "collector_add (FixedBufferCollector_new 0 8) [9] = Some (Some [], [9], FixedBufferCollector_new 0 8)"
  by (simp_all add: collector_add_def FixedBufferCollector_new_def)

end
