(* ===== verification/Multihash.thy ===== *)
theory Multihash
  imports Varint
begin

text \<open>
  The self-describing hashes of \<open>src/multi/multihash.cpp\<close>: the layout of the buffer
  (type as a varint, one length byte, the hash), the checked constructors, and the
  comparison operators. The cached \<open>std_hash\<close>, a boost hash of the buffer, is left out.
\<close>

section \<open>Model\<close>

type_synonym HashType = u64

definition identity :: HashType where "identity = 0x0"
definition sha1 :: HashType where "sha1 = 0x11"
definition sha256 :: HashType where "sha256 = 0x12"
definition sha512 :: HashType where "sha512 = 0x13"
definition blake2b_256 :: HashType where "blake2b_256 = 0xb220"
definition blake2s128 :: HashType where "blake2s128 = 0xb250"
definition blake2s256 :: HashType where "blake2s256 = 0xb260"
definition sha2_256_trunc254_padded :: HashType where "sha2_256_trunc254_padded = 0x1012"
definition poseidon_bls12_381_a1_fc1 :: HashType where "poseidon_bls12_381_a1_fc1 = 0xb401"

datatype MultihashError = ZERO_INPUT_LENGTH | INPUT_TOO_LONG | MULTIHASH_TOO_SHORT | INCONSISTENT_LENGTH

definition kMaxHashLength :: nat where
  "kMaxHashLength = 127"

record Multihash =
  mh_bytes :: bytes
  mh_hash_offset :: byte
  mh_type :: HashType

function appendVarint :: "bytes \<Rightarrow> u64 \<Rightarrow> bytes" where
  "appendVarint buffer t =
     (let byte = ucast (t AND 0x7f) :: byte;
          t' = drop_bit 7 t;
          byte' = (if t' \<noteq> 0 then byte OR 0x80 else byte);
          buffer' = buffer @ [byte']
      in if t' > 0 then appendVarint buffer' t' else buffer')"
  by pat_completeness auto
termination
  by (relation "measure (\<lambda>(buffer, t). unat t)") (auto intro!: drop_bit_7_less)

declare appendVarint.simps [simp del]

text \<open>\<open>Data::Data\<close>; the assertion on the size of the hash is the guard of \<open>create\<close>.\<close>

definition Multihash_Data :: "HashType \<Rightarrow> bytes \<Rightarrow> Multihash" where
  "Multihash_Data t h =
     (let header = appendVarint [] t @ [word_of_nat (length h)]
      in \<lparr>mh_bytes = header @ h, mh_hash_offset = word_of_nat (length header), mh_type = t\<rparr>)"

definition Multihash_create :: "HashType \<Rightarrow> bytes \<Rightarrow> (MultihashError, Multihash) result" where
  "Multihash_create type hash =
     (if length hash > kMaxHashLength then Inl INPUT_TOO_LONG else Inr (Multihash_Data type hash))"

definition Multihash_createFromBytes :: "bytes \<Rightarrow> (MultihashError, Multihash) result" where
  "Multihash_createFromBytes b =
     (case consume_buffer VarintPrefixReader_init b of
        (st, b1, vr) \<Rightarrow>
          if st \<noteq> kReady then Inl MULTIHASH_TOO_SHORT
          else
            (let type = vr_value vr
             in case b1 of
                  [] \<Rightarrow> Inl MULTIHASH_TOO_SHORT
                | len # hash \<Rightarrow>
                    if len = 0 then Inl ZERO_INPUT_LENGTH
                    else if length hash \<noteq> unat len then Inl INCONSISTENT_LENGTH
                    else Multihash_create type hash))"

datatype 'u MultihashHexError = BadHex 'u | BadMultihash MultihashError

text \<open>\<open>createFromHex\<close> and \<open>toHex\<close>, over the hexadecimal library.\<close>

definition Multihash_createFromHex ::
  "(string \<Rightarrow> ('u, bytes) result) \<Rightarrow> string \<Rightarrow> ('u MultihashHexError, Multihash) result" where
  "Multihash_createFromHex unhex hex =
     (case unhex hex of
        Inl e \<Rightarrow> Inl (BadHex e)
      | Inr buf \<Rightarrow> map_sum BadMultihash id (Multihash_createFromBytes buf))"

definition getType :: "Multihash \<Rightarrow> HashType" where
  "getType m = mh_type m"

definition getHash :: "Multihash \<Rightarrow> bytes" where
  "getHash m = drop (unat (mh_hash_offset m)) (mh_bytes m)"

definition toHex :: "(bytes \<Rightarrow> string) \<Rightarrow> Multihash \<Rightarrow> string" where
  "toHex hex_upper m = hex_upper (mh_bytes m)"

definition toBuffer :: "Multihash \<Rightarrow> bytes" where
  "toBuffer m = mh_bytes m"

definition Multihash_eq :: "Multihash \<Rightarrow> Multihash \<Rightarrow> bool" where
  "Multihash_eq a b \<longleftrightarrow> mh_bytes a = mh_bytes b \<and> mh_type a = mh_type b"

definition Multihash_neq :: "Multihash \<Rightarrow> Multihash \<Rightarrow> bool" where
  "Multihash_neq a b \<longleftrightarrow> \<not> Multihash_eq a b"

text \<open>\<open>operator<\<close> of \<open>std::vector<uint8_t>\<close>.\<close>

fun vector_less :: "bytes \<Rightarrow> bytes \<Rightarrow> bool" where
  "vector_less xs [] \<longleftrightarrow> False"
| "vector_less [] (y # ys) \<longleftrightarrow> True"
| "vector_less (x # xs) (y # ys) \<longleftrightarrow> x < y \<or> \<not> y < x \<and> vector_less xs ys"

definition Multihash_less :: "Multihash \<Rightarrow> Multihash \<Rightarrow> bool" where
  "Multihash_less a b =
     (if mh_type a = mh_type b then vector_less (mh_bytes a) (mh_bytes b) else mh_type a < mh_type b)"

section \<open>Layout\<close>

lemma appendVarint_eq: "appendVarint buffer t = buffer @ varint_bytes t"
proof -
  have "appendVarint buffer t = uvarint_loop buffer t"
    by (induction buffer t rule: appendVarint.induct)
       (subst appendVarint.simps, subst uvarint_loop.simps, auto simp: Let_def word_neq_0_conv)
  then show ?thesis by (simp add: uvarint_loop_acc [of buffer])
qed

text \<open>Every multihash the public constructors make has this shape.\<close>

definition mh_inv :: "Multihash \<Rightarrow> bool" where
  "mh_inv m \<longleftrightarrow>
     length (getHash m) \<le> kMaxHashLength \<and>
     mh_bytes m = varint_bytes (mh_type m) @ [word_of_nat (length (getHash m))] @ getHash m \<and>
     unat (mh_hash_offset m) = length (varint_bytes (mh_type m)) + 1"

lemma Multihash_Data_parts:
  "mh_bytes (Multihash_Data t h) = varint_bytes t @ [word_of_nat (length h)] @ h"
  "mh_type (Multihash_Data t h) = t"
  "unat (mh_hash_offset (Multihash_Data t h)) = length (varint_bytes t) + 1"
  "getHash (Multihash_Data t h) = h"
proof -
  show o: "unat (mh_hash_offset (Multihash_Data t h)) = length (varint_bytes t) + 1"
    using varint_bytes_length_le_10 [of t]
    by (simp add: Multihash_Data_def appendVarint_eq unat_word_ariths unat_of_nat)
  show b: "mh_bytes (Multihash_Data t h) = varint_bytes t @ [word_of_nat (length h)] @ h"
    "mh_type (Multihash_Data t h) = t"
    by (simp_all add: Multihash_Data_def appendVarint_eq)
  show "getHash (Multihash_Data t h) = h" unfolding getHash_def o b by simp
qed

lemma Multihash_create_inv:
  "Multihash_create t h = Inr m \<Longrightarrow> mh_inv m \<and> getType m = t \<and> getHash m = h"
  by (auto simp: Multihash_create_def mh_inv_def Multihash_Data_parts getType_def split: if_splits)

lemma mh_inv_Data:
  assumes "mh_inv m"
  shows "m = Multihash_Data (mh_type m) (getHash m)"
proof (rule Multihash.equality)
  show "mh_bytes m = mh_bytes (Multihash_Data (mh_type m) (getHash m))"
    using assms by (simp add: mh_inv_def Multihash_Data_parts)
  show "mh_hash_offset m = mh_hash_offset (Multihash_Data (mh_type m) (getHash m))"
    using assms Multihash_Data_parts(3) [of "mh_type m" "getHash m"]
    by (simp add: mh_inv_def word_unat_eq_iff)
qed (simp_all add: Multihash_Data_parts)

lemma unat_length_byte: "length h \<le> kMaxHashLength \<Longrightarrow> unat (word_of_nat (length h) :: byte) = length h"
  by (simp add: kMaxHashLength_def unat_of_nat)

text \<open>Parsing a well-formed layout, whatever follows from the length byte.\<close>

lemma createFromBytes_layout:
  "Multihash_createFromBytes (varint_bytes t @ len # h) =
     (if len = 0 then Inl ZERO_INPUT_LENGTH
      else if length h \<noteq> unat len then Inl INCONSISTENT_LENGTH
      else Multihash_create t h)"
  using consume_buffer_varint [of t "len # h"] by (auto simp: Multihash_createFromBytes_def)

section \<open>Properties\<close>

text \<open>
  A multihash made by \<open>Multihash::create\<close> from a type and a
  hash of one to 127 bytes gives the type and the hash back, and its buffer parses with
  \<open>createFromBytes\<close> to the same multihash.
\<close>

theorem multihash_roundtrip:
  assumes "Multihash_create t h = Inr m" and "h \<noteq> []"
  shows "getType m = t \<and> getHash m = h \<and> Multihash_createFromBytes (toBuffer m) = Inr m"
proof -
  from assms(1) have m: "m = Multihash_Data t h" and len: "length h \<le> kMaxHashLength"
    by (auto simp: Multihash_create_def split: if_splits)
  have nz: "(word_of_nat (length h) :: byte) \<noteq> 0"
    using unat_length_byte [OF len] assms(2) by (auto simp: word_unat_eq_iff)
  have "Multihash_createFromBytes (toBuffer m) = Multihash_create t h"
    using nz unat_length_byte [OF len]
    by (simp add: toBuffer_def m Multihash_Data_parts createFromBytes_layout)
  with assms(1) Multihash_create_inv [OF assms(1)] show ?thesis by simp
qed

theorem multihash_roundtrip_witness:
  "Multihash_createFromBytes (toBuffer (Multihash_Data sha256 [1, 2])) = Inr (Multihash_Data sha256 [1, 2])"
  using multihash_roundtrip [of sha256 "[1, 2]" "Multihash_Data sha256 [1, 2]"]
  by (simp add: Multihash_create_def kMaxHashLength_def)

text \<open>
  What \<open>createFromBytes\<close> accepts is exactly a varint for the
  type, one length byte between 1 and 127, and that many bytes; the multihash returned
  has that type and that hash, and is well formed.
\<close>

theorem multihash_parse_sound:
  assumes "Multihash_createFromBytes b = Inr m"
  shows "\<exists>u len h. UVarint_create b = Some u \<and> drop (uvarint_size u) b = len # h
    \<and> unat len = length h \<and> 1 \<le> length h \<and> length h \<le> 127
    \<and> getType m = toUInt64 u \<and> getHash m = h \<and> mh_inv m"
proof -
  obtain st b1 vr where c: "consume_buffer VarintPrefixReader_init b = (st, b1, vr)" by (metis prod_cases3)
  with assms have st: "st = kReady" by (auto simp: Multihash_createFromBytes_def split: if_splits)
  obtain len h where b1: "b1 = len # h"
    using assms c st by (auto simp: Multihash_createFromBytes_def Let_def split: list.splits)
  have guards: "len \<noteq> 0" "length h = unat len" "Multihash_create (vr_value vr) h = Inr m"
    using assms c st b1 by (auto simp: Multihash_createFromBytes_def Let_def split: if_splits)
  then have len: "1 \<le> length h" "length h \<le> 127"
    by (auto simp: Multihash_create_def kMaxHashLength_def word_unat_eq_iff Suc_le_eq split: if_splits)
  obtain u where u: "UVarint_create b = Some u" "drop (uvarint_size u) b = b1" "vr_value vr = toUInt64 u"
    using consume_buffer_create [of b] c st by (auto split: option.splits)
  with guards len b1 Multihash_create_inv [OF guards(3)] show ?thesis by auto
qed

theorem multihash_parse_sound_witness:
  "mh_inv (Multihash_Data 0x12 [7]) \<and> getHash (Multihash_Data 0x12 [7]) = [7]"
proof -
  have "Multihash_createFromBytes [0x12, 1, 7] = Inr (Multihash_Data 0x12 [7])" by code_simp
  from multihash_parse_sound [OF this] show ?thesis by (auto simp: Multihash_Data_parts)
qed

subsection \<open>Order\<close>

lemma vector_less_iff: "vector_less xs ys \<longleftrightarrow> ord_class.lexordp xs ys"
  by (induction xs ys rule: vector_less.induct) auto

text \<open>
  \<open>operator<\<close> on multihashes is a strict total order that agrees
  with \<open>operator==\<close>, so that multihashes may be keys of an ordered container: exactly
  one of \<open>a < b\<close>, \<open>a == b\<close>, \<open>b < a\<close> holds, and \<open><\<close> is transitive.
\<close>

theorem multihash_order:
  "(Multihash_less a b \<longrightarrow> \<not> Multihash_eq a b \<and> \<not> Multihash_less b a)
   \<and> (Multihash_less a b \<or> Multihash_eq a b \<or> Multihash_less b a)
   \<and> (Multihash_less a b \<and> Multihash_less b c \<longrightarrow> Multihash_less a c)"
proof (intro conjI impI)
  assume ab: "Multihash_less a b"
  show "\<not> Multihash_eq a b" using ab lexordp_irreflexive' [of "mh_bytes a"]
    by (auto simp: Multihash_less_def Multihash_eq_def vector_less_iff split: if_splits)
  show "\<not> Multihash_less b a" using ab lexordp_antisym [of "mh_bytes a" "mh_bytes b"]
    by (auto simp: Multihash_less_def vector_less_iff split: if_splits)
next
  show "Multihash_less a b \<or> Multihash_eq a b \<or> Multihash_less b a"
    using lexordp_linear [of "mh_bytes a" "mh_bytes b"]
    by (auto simp: Multihash_less_def Multihash_eq_def vector_less_iff)
next
  assume "Multihash_less a b \<and> Multihash_less b c"
  then show "Multihash_less a c" using lexordp_trans [of "mh_bytes a" "mh_bytes b" "mh_bytes c"]
    by (auto simp: Multihash_less_def vector_less_iff split: if_splits)
qed

theorem multihash_order_witness:
  "Multihash_less (Multihash_Data sha256 [1]) (Multihash_Data sha256 [2])
   \<and> \<not> Multihash_eq (Multihash_Data sha256 [1]) (Multihash_Data sha256 [2])"
proof -
  have "Multihash_less (Multihash_Data sha256 [1]) (Multihash_Data sha256 [2])" by code_simp
  with multihash_order [of "Multihash_Data sha256 [1]" "Multihash_Data sha256 [2]"] show ?thesis by blast
qed

text \<open>A multihash with an empty hash can be made but its buffer does not parse.\<close>

lemma multihash_empty_hash:
  "Multihash_create t [] = Inr (Multihash_Data t [])"
  "Multihash_createFromBytes (toBuffer (Multihash_Data t [])) = Inl ZERO_INPUT_LENGTH"
  by (simp_all add: Multihash_create_def toBuffer_def Multihash_Data_parts createFromBytes_layout)

end
