(* ===== verification/Base58.thy ===== *)
theory Base58
  imports Base32
begin

text \<open>
  The base58 codec of \<open>src/multi/multibase_codec/codecs/base58.cpp\<close>: schoolbook
  conversion between base 256 and base 58 in a pre-sized digit array. The lemmas show
  that the arrays are large enough, that a carry never leaves them, and that decoding
  inverts encoding for every byte string.
\<close>

section \<open>Model\<close>

definition pszBase58 :: string where
  "pszBase58 = ''123456789ABCDEFGHJKLMNPQRSTUVWXYZabcdefghijkmnopqrstuvwxyz''"

definition mapBase58 :: "int list" where
  "mapBase58 =
     [
      - 1, - 1, - 1, - 1, - 1, - 1, - 1, - 1, - 1, - 1, - 1, - 1, - 1, - 1, - 1, - 1,
      - 1, - 1, - 1, - 1, - 1, - 1, - 1, - 1, - 1, - 1, - 1, - 1, - 1, - 1, - 1, - 1,
      - 1, - 1, - 1, - 1, - 1, - 1, - 1, - 1, - 1, - 1, - 1, - 1, - 1, - 1, - 1, - 1,
      - 1, 0, 1, 2, 3, 4, 5, 6, 7, 8, - 1, - 1, - 1, - 1, - 1, - 1,
      - 1, 9, 10, 11, 12, 13, 14, 15, 16, - 1, 17, 18, 19, 20, 21, - 1,
      22, 23, 24, 25, 26, 27, 28, 29, 30, 31, 32, - 1, - 1, - 1, - 1, - 1,
      - 1, 33, 34, 35, 36, 37, 38, 39, 40, 41, 42, 43, - 1, 44, 45, 46,
      47, 48, 49, 50, 51, 52, 53, 54, 55, 56, 57, - 1, - 1, - 1, - 1, - 1,
      - 1, - 1, - 1, - 1, - 1, - 1, - 1, - 1, - 1, - 1, - 1, - 1, - 1, - 1, - 1, - 1,
      - 1, - 1, - 1, - 1, - 1, - 1, - 1, - 1, - 1, - 1, - 1, - 1, - 1, - 1, - 1, - 1,
      - 1, - 1, - 1, - 1, - 1, - 1, - 1, - 1, - 1, - 1, - 1, - 1, - 1, - 1, - 1, - 1,
      - 1, - 1, - 1, - 1, - 1, - 1, - 1, - 1, - 1, - 1, - 1, - 1, - 1, - 1, - 1, - 1,
      - 1, - 1, - 1, - 1, - 1, - 1, - 1, - 1, - 1, - 1, - 1, - 1, - 1, - 1, - 1, - 1,
      - 1, - 1, - 1, - 1, - 1, - 1, - 1, - 1, - 1, - 1, - 1, - 1, - 1, - 1, - 1, - 1,
      - 1, - 1, - 1, - 1, - 1, - 1, - 1, - 1, - 1, - 1, - 1, - 1, - 1, - 1, - 1, - 1,
      - 1, - 1, - 1, - 1, - 1, - 1, - 1, - 1, - 1, - 1, - 1, - 1, - 1, - 1, - 1, - 1
     ]"

definition isSpace :: "char \<Rightarrow> bool" where
  "isSpace c \<longleftrightarrow> c = CHR '' '' \<or> c = CHR 0x0C \<or> c = CHR 0x0A \<or> c = CHR 0x0D \<or> c = CHR 0x09 \<or> c = CHR 0x0B"

text \<open>
  The inner loop of both directions, over the digits from the least significant one
  (\<open>rbegin\<close>): multiply by \<open>factor\<close>, add the carry, keep the remainder modulo \<open>base\<close>.
  It stops at the end of the array, or when nothing is carried and \<open>len\<close> digits are
  done. Result: the digits, the carry left, the number of digits visited.
\<close>

fun digits_round :: "nat \<Rightarrow> nat \<Rightarrow> nat \<Rightarrow> nat \<Rightarrow> nat \<Rightarrow> nat list \<Rightarrow> nat list \<times> nat \<times> nat" where
  "digits_round factor base len carry i [] = ([], carry, i)"
| "digits_round factor base len carry i (d # ds) =
     (if carry \<noteq> 0 \<or> i < len then
        (let c = carry + factor * d;
             (ds', carry', i') = digits_round factor base len (c div base) (i + 1) ds
         in ((c mod base) # ds', carry', i'))
      else (d # ds, carry, i))"

fun encode58_bytes :: "nat list \<Rightarrow> nat \<Rightarrow> bytes \<Rightarrow> nat list \<times> nat" where
  "encode58_bytes b58 len [] = (b58, len)"
| "encode58_bytes b58 len (b # bs) =
     (let (b58', carry, i) = digits_round 256 58 len (unat b) 0 b58
      in encode58_bytes b58' i bs)"

text \<open>The digit array is kept least significant digit first.\<close>

definition encodeImpl58 :: "bytes \<Rightarrow> string" where
  "encodeImpl58 bs =
     (let zeroes = length (takeWhile (\<lambda>b. b = 0) bs);
          rest = dropWhile (\<lambda>b. b = 0) bs;
          size = length rest * 138 div 100 + 1;
          (b58, len) = encode58_bytes (replicate size 0) 0 rest;
          digits = dropWhile (\<lambda>d. d = 0) (rev (take len b58))
      in replicate zeroes CHR ''1'' @ map (\<lambda>d. pszBase58 ! d) digits)"

fun decode58_chars :: "nat list \<Rightarrow> nat \<Rightarrow> string \<Rightarrow> (nat list \<times> nat \<times> string) option" where
  "decode58_chars b256 len [] = Some (b256, len, [])"
| "decode58_chars b256 len (ch # cs) =
     (if isSpace ch then Some (b256, len, ch # cs)
      else
        (let carry = mapBase58 ! of_char ch
         in if carry = - 1 then None
            else
              (let (b256', carry', i) = digits_round 58 256 len (nat carry) 0 b256
               in if carry' \<noteq> 0 then None else decode58_chars b256' i cs)))"

text \<open>\<open>decodeImpl(const char *)\<close> reads up to the terminating NUL: \<open>c_str\<close>.\<close>

definition decodeImpl58 :: "string \<Rightarrow> bytes option" where
  "decodeImpl58 str =
     (let psz = c_str str;
          psz1 = dropWhile (\<lambda>c. c \<noteq> CHR ''0'' \<and> isSpace c) psz;
          zeroes = length (takeWhile (\<lambda>c. c = CHR ''1'') psz1);
          psz2 = dropWhile (\<lambda>c. c = CHR ''1'') psz1;
          size = length psz2 * 733 div 1000 + 1
      in case decode58_chars (replicate size 0) 0 psz2 of
           None \<Rightarrow> None
         | Some (b256, len, psz3) \<Rightarrow>
             if dropWhile isSpace psz3 \<noteq> [] then None
             else Some (replicate zeroes 0
                        @ map word_of_nat (dropWhile (\<lambda>d. d = 0) (rev (take len b256)))))"

definition encodeBase58 :: "bytes \<Rightarrow> string" where
  "encodeBase58 bs = encodeImpl58 bs"

definition decodeBase58 :: "string \<Rightarrow> (BaseError, bytes) result" where
  "decodeBase58 str =
     (case decodeImpl58 str of Some bs \<Rightarrow> Inr bs | None \<Rightarrow> Inl INVALID_BASE58_INPUT)"

section \<open>Digit arrays as numbers\<close>

fun le_value :: "nat \<Rightarrow> nat list \<Rightarrow> nat" where
  "le_value base [] = 0"
| "le_value base (d # ds) = d + base * le_value base ds"

lemma le_value_zeros: "\<forall>d \<in> set ds. d = 0 \<Longrightarrow> le_value base ds = 0"
  by (induction ds) auto

lemma le_value_append: "le_value base (xs @ ys) = le_value base xs + base ^ length xs * le_value base ys"
  by (induction xs) (auto simp: algebra_simps)

lemma le_value_bound: "\<forall>d \<in> set ds. d < base \<Longrightarrow> le_value base ds < base ^ length ds"
proof (induction ds)
  case (Cons d ds)
  then have "le_value base ds + 1 \<le> base ^ length ds" "d < base" by auto
  then have "base * (le_value base ds + 1) \<le> base * base ^ length ds" by (simp only: mult_le_mono2)
  with \<open>d < base\<close> show ?case by simp
qed simp

lemma le_value_unique:
  assumes "le_value base xs = le_value base ys" and "\<forall>d \<in> set xs. d < base" and "\<forall>d \<in> set ys. d < base"
    and "xs \<noteq> [] \<longrightarrow> last xs \<noteq> 0" and "ys \<noteq> [] \<longrightarrow> last ys \<noteq> 0"
  shows "xs = ys"
  using assms
proof (induction xs arbitrary: ys)
  case Nil
  show ?case
  proof (rule ccontr)
    assume "[] \<noteq> ys"
    then have "le_value base ys \<noteq> 0" using Nil
      by (cases ys rule: rev_cases) (auto simp: le_value_append)
    with Nil show False by simp
  qed
next
  case (Cons x xs)
  have "ys \<noteq> []"
  proof
    assume "ys = []"
    with Cons.prems have "le_value base (x # xs) = 0" "last (x # xs) \<noteq> 0" "0 < base" by auto
    then show False by (cases xs rule: rev_cases) (auto simp: le_value_append)
  qed
  then obtain y ys' where ys: "ys = y # ys'" by (cases ys) auto
  have d: "x < base" "y < base" using Cons.prems ys by auto
  have v: "x + base * le_value base xs = y + base * le_value base ys'" using Cons.prems(1) ys by simp
  from arg_cong [OF v, of "\<lambda>n. n mod base"] d have "x = y" by simp
  moreover from arg_cong [OF v, of "\<lambda>n. n div base"] d have "le_value base xs = le_value base ys'" by simp
  then have "xs = ys'" using Cons.prems ys by (intro Cons.IH) (auto split: if_splits)
  ultimately show ?case using ys by simp
qed

text \<open>One round multiplies the number in the array by \<open>factor\<close> and adds the carry.\<close>

lemma digits_round_value:
  assumes "0 < base" and "\<forall>d \<in> set ds. d < base" and "\<forall>d \<in> set (drop (len - i) ds). d = 0"
    and "digits_round factor base len carry i ds = (ds', carry', i')"
  shows "le_value base ds' + carry' * base ^ length ds = carry + factor * le_value base ds
    \<and> length ds' = length ds \<and> (\<forall>d \<in> set ds'. d < base) \<and> i \<le> i'
    \<and> (\<forall>d \<in> set (drop (i' - i) ds'). d = 0)"
  using assms(2-)
proof (induction ds arbitrary: carry i ds' carry' i')
  case Nil
  then show ?case by simp
next
  case (Cons d ds)
  show ?case
  proof (cases "carry \<noteq> 0 \<or> i < len")
    case False
    then have "\<forall>x \<in> set (d # ds). x = 0" using Cons.prems(2) by simp
    moreover have "le_value base (d # ds) = 0" using le_value_zeros [OF calculation] .
    ultimately show ?thesis using False Cons.prems by auto
  next
    case True
    let ?c = "carry + factor * d"
    obtain es c1 i1 where r: "digits_round factor base len (?c div base) (i + 1) ds = (es, c1, i1)"
      by (metis prod_cases3)
    have z: "\<forall>x \<in> set (drop (len - (i + 1)) ds). x = 0"
    proof (cases "i < len")
      case True
      then have "len - i = Suc (len - (i + 1))" by simp
      with Cons.prems(2) show ?thesis by simp
    next
      case False
      with Cons.prems(2) show ?thesis by simp
    qed
    have IH: "le_value base es + c1 * base ^ length ds = ?c div base + factor * le_value base ds
      \<and> length es = length ds \<and> (\<forall>d \<in> set es. d < base) \<and> i + 1 \<le> i1
      \<and> (\<forall>d \<in> set (drop (i1 - (i + 1)) es). d = 0)"
      using Cons.IH [OF _ z r] Cons.prems(1) by simp
    have eq: "ds' = (?c mod base) # es" "carry' = c1" "i' = i1"
      using Cons.prems(3) True r by auto
    have "le_value base ds' + carry' * base ^ length (d # ds)
        = ?c mod base + base * (le_value base es + c1 * base ^ length ds)"
      by (simp add: eq algebra_simps)
    also have "\<dots> = ?c mod base + base * (?c div base) + base * (factor * le_value base ds)"
      using IH by (simp add: algebra_simps)
    also have "\<dots> = carry + factor * le_value base (d # ds)" by (simp add: algebra_simps)
    finally have val: "le_value base ds' + carry' * base ^ length (d # ds) = carry + factor * le_value base (d # ds)" .
    have "i' - i = Suc (i1 - (i + 1))" using IH eq by linarith
    then have "drop (i' - i) ds' = drop (i1 - (i + 1)) es" by (simp add: eq)
    with val show ?thesis using IH \<open>0 < base\<close> eq by auto
  qed
qed

definition digits_ok :: "nat \<Rightarrow> nat \<Rightarrow> nat \<Rightarrow> nat list \<Rightarrow> bool" where
  "digits_ok base sz len ds \<longleftrightarrow>
     length ds = sz \<and> list_all (\<lambda>d. d < base) ds \<and> list_all (\<lambda>d. d = 0) (drop len ds)"

lemma digits_ok_zeros: "0 < base \<Longrightarrow> digits_ok base sz 0 (replicate sz 0)"
  by (simp add: digits_ok_def list_all_iff)

lemma digits_round_ok:
  assumes "0 < base" and "digits_ok base sz len ds" and "(le_value base ds) * factor + x < base ^ sz"
  shows "\<exists>ds' i'. digits_round factor base len x 0 ds = (ds', 0, i') \<and> digits_ok base sz i' ds'
    \<and> le_value base ds' = le_value base ds * factor + x"
proof -
  obtain ds' c i' where r: "digits_round factor base len x 0 ds = (ds', c, i')" by (metis prod_cases3)
  have v: "le_value base ds' + c * base ^ length ds = x + factor * le_value base ds
    \<and> length ds' = length ds \<and> (\<forall>d \<in> set ds'. d < base) \<and> 0 \<le> i'
    \<and> (\<forall>d \<in> set (drop (i' - 0) ds'). d = 0)"
    using assms(2) by (intro digits_round_value [OF assms(1) _ _ r]) (auto simp: digits_ok_def list_all_iff)
  have "c = 0"
  proof (rule ccontr)
    assume "c \<noteq> 0"
    then have "base ^ sz \<le> c * base ^ sz" by simp
    moreover have "length ds = sz" using assms(2) by (simp add: digits_ok_def)
    then have "le_value base ds' + c * base ^ sz = x + factor * le_value base ds" using v by simp
    ultimately show False using assms(3) unfolding mult.commute [of _ factor] by linarith
  qed
  with v r assms(2) show ?thesis by (auto simp: digits_ok_def list_all_iff mult.commute)
qed

text \<open>Numbers are written most significant digit first in the byte string and in the text.\<close>

definition be_value :: "nat \<Rightarrow> nat \<Rightarrow> nat list \<Rightarrow> nat" where
  "be_value base = foldl (\<lambda>v x. v * base + x)"

lemma be_value_Cons [simp]: "be_value base v (x # xs) = be_value base (v * base + x) xs"
  by (simp add: be_value_def)

lemma be_value_Nil [simp]: "be_value base v [] = v"
  by (simp add: be_value_def)

lemma be_value_le_value: "be_value base v xs = v * base ^ length xs + le_value base (rev xs)"
  by (induction xs arbitrary: v) (auto simp: le_value_append algebra_simps)

lemma grows_within:
  assumes "(v + 1) * factor ^ Suc n \<le> bound" and "x < factor"
  shows "(v * factor + x + 1) * factor ^ n \<le> bound" and "v * factor + x < (bound :: nat)"
proof -
  have "v * factor + x + 1 \<le> (v + 1) * factor" using assms(2) by simp
  then have le: "(v * factor + x + 1) * factor ^ n \<le> (v + 1) * factor * factor ^ n"
    by (rule mult_le_mono1)
  also have "\<dots> \<le> bound" using assms(1) by (simp add: algebra_simps)
  finally show 1: "(v * factor + x + 1) * factor ^ n \<le> bound" .
  have "1 \<le> factor ^ n" using assms(2) by (cases factor) auto
  then have "(v * factor + x + 1) * 1 \<le> (v * factor + x + 1) * factor ^ n" by (rule mult_le_mono2)
  also note 1
  finally show "v * factor + x < bound" by simp
qed

lemma encode58_bytes_ok:
  assumes "digits_ok 58 sz len ds" and "(le_value 58 ds + 1) * 256 ^ length bs \<le> 58 ^ sz"
  shows "\<exists>ds' len'. encode58_bytes ds len bs = (ds', len') \<and> digits_ok 58 sz len' ds'
    \<and> le_value 58 ds' = be_value 256 (le_value 58 ds) (map unat bs)"
  using assms
proof (induction bs arbitrary: ds len)
  case (Cons b bs)
  note g = grows_within [of "le_value 58 ds" 256 "length bs" "58 ^ sz" "unat b"]
  obtain ds' i' where r: "digits_round 256 58 len (unat b) 0 ds = (ds', 0, i')"
      "digits_ok 58 sz i' ds'" "le_value 58 ds' = le_value 58 ds * 256 + unat b"
    using digits_round_ok [OF _ Cons.prems(1), of 256 "unat b"] g(2) Cons.prems(2) by auto
  from Cons.IH [OF r(2)] g(1) Cons.prems(2) r show ?case by simp
qed simp

lemma all_less_iff_upt: "(\<forall>d<n. P d) \<longleftrightarrow> list_all P [0..<n]"
  by (auto simp: list_all_iff)

lemma mapBase58_psz: "d < 58 \<Longrightarrow> mapBase58 ! of_char (pszBase58 ! d) = int d"
  and psz_not_space: "d < 58 \<Longrightarrow> \<not> isSpace (pszBase58 ! d)"
  and psz_not_NUL: "d < 58 \<Longrightarrow> pszBase58 ! d \<noteq> CHR 0x00"
  and psz_one_iff: "d < 58 \<Longrightarrow> pszBase58 ! d = CHR ''1'' \<longleftrightarrow> d = 0"
proof -
  have "\<forall>d<58. mapBase58 ! of_char (pszBase58 ! d) = int d \<and> \<not> isSpace (pszBase58 ! d)
      \<and> pszBase58 ! d \<noteq> CHR 0x00 \<and> (pszBase58 ! d = CHR ''1'' \<longleftrightarrow> d = 0)"
    by (simp add: all_less_iff_upt) code_simp
  then show "d < 58 \<Longrightarrow> mapBase58 ! of_char (pszBase58 ! d) = int d"
    "d < 58 \<Longrightarrow> \<not> isSpace (pszBase58 ! d)" "d < 58 \<Longrightarrow> pszBase58 ! d \<noteq> CHR 0x00"
    "d < 58 \<Longrightarrow> pszBase58 ! d = CHR ''1'' \<longleftrightarrow> d = 0" by blast+
qed

lemma decode58_chars_ok:
  assumes "digits_ok 256 sz len ds" and "(le_value 256 ds + 1) * 58 ^ length xs \<le> 256 ^ sz"
    and "\<forall>x \<in> set xs. x < 58"
  shows "\<exists>ds' len'. decode58_chars ds len (map ((!) pszBase58) xs) = Some (ds', len', [])
    \<and> digits_ok 256 sz len' ds' \<and> le_value 256 ds' = be_value 58 (le_value 256 ds) xs"
  using assms
proof (induction xs arbitrary: ds len)
  case (Cons x xs)
  then have x: "x < 58" by simp
  note g = grows_within [of "le_value 256 ds" 58 "length xs" "256 ^ sz" x]
  obtain ds' i' where r: "digits_round 58 256 len x 0 ds = (ds', 0, i')"
      "digits_ok 256 sz i' ds'" "le_value 256 ds' = le_value 256 ds * 58 + x"
    using digits_round_ok [OF _ Cons.prems(1), of 58 x] g(2) Cons.prems(2) x by auto
  from Cons.IH [OF r(2)] g(1) Cons.prems(2,3) r x show ?case
    by (simp add: mapBase58_psz psz_not_space)
qed simp

section \<open>The arrays are large enough\<close>

text \<open>
  \<open>138 / 100\<close> and \<open>733 / 1000\<close> are upper bounds of \<open>log 256 / log 58\<close> and
  \<open>log 58 / log 256\<close>, with one digit more for the rounding.
\<close>

lemma power_le_by_ratio:
  assumes "a ^ q \<le> b ^ p" and "0 < q" and "0 < a" and "1 < (b :: nat)"
  shows "a ^ n \<le> b ^ (n * p div q + 1)"
proof -
  have "(a ^ n) ^ q = (a ^ q) ^ n" by (simp add: power_mult [symmetric] mult.commute)
  also have "\<dots> \<le> (b ^ p) ^ n" by (rule power_mono [OF assms(1)]) simp
  also have "\<dots> = b ^ (n * p)" by (simp add: power_mult [symmetric] mult.commute)
  also have "\<dots> \<le> b ^ ((n * p div q + 1) * q)"
  proof (rule power_increasing)
    have "n * p = n * p div q * q + n * p mod q" by simp
    moreover have "n * p mod q < q" using assms(2) by simp
    moreover have "(n * p div q + 1) * q = n * p div q * q + q" by (simp add: algebra_simps)
    ultimately show "n * p \<le> (n * p div q + 1) * q" by linarith
  qed (use assms(4) in simp)
  also have "\<dots> = (b ^ (n * p div q + 1)) ^ q" by (simp only: power_mult)
  finally show ?thesis using assms(2) by (simp add: power_mono_iff)
qed

lemma encode58_size: "256 ^ n \<le> (58 :: nat) ^ (n * 138 div 100 + 1)"
  by (rule power_le_by_ratio) simp_all

lemma decode58_size: "58 ^ n \<le> (256 :: nat) ^ (n * 733 div 1000 + 1)"
proof (rule power_le_by_ratio)
  have "(58 :: nat) ^ 1000 = 58 ^ (71 * 14 + 6)" by (rule arg_cong [where f = "(^) 58"]) simp
  also have "\<dots> = (58 ^ 71) ^ 14 * 58 ^ 6" by (simp only: power_mult power_add)
  also have "\<dots> \<le> (256 ^ 52) ^ 14 * 256 ^ 5"
    by (intro mult_le_mono power_mono) simp_all
  also have "\<dots> = 256 ^ (52 * 14 + 5)" by (simp only: power_mult power_add)
  also have "\<dots> = (256 :: nat) ^ 733" by (rule arg_cong [where f = "(^) 256"]) simp
  finally show "(58 :: nat) ^ 1000 \<le> 256 ^ 733" .
qed simp_all

section \<open>Round trip\<close>

abbreviation trim :: "nat list \<Rightarrow> nat list" where
  "trim \<equiv> dropWhile (\<lambda>d. d = 0)"

lemma le_value_trim: "le_value base (rev (trim xs)) = le_value base (rev xs)"
  by (induction xs) (auto simp: le_value_append)

lemma le_value_digits_ok:
  assumes "digits_ok base sz len ds"
  shows "le_value base (rev (trim (rev (take len ds)))) = le_value base ds"
proof -
  have "le_value base (drop len ds) = 0"
    using assms by (intro le_value_zeros) (simp add: digits_ok_def list_all_iff)
  moreover have "le_value base ds = le_value base (take len ds @ drop len ds)" by simp
  ultimately have "le_value base ds = le_value base (take len ds)"
    unfolding le_value_append by simp
  then show ?thesis by (simp add: le_value_trim)
qed

lemma trim_digits_less:
  "digits_ok base sz len ds \<Longrightarrow> d \<in> set (trim (rev (take len ds))) \<Longrightarrow> d < base"
  by (auto simp: digits_ok_def list_all_iff dest!: set_dropWhileD in_set_takeD)

lemma trim_last: "rev (trim xs) \<noteq> [] \<longrightarrow> last (rev (trim xs)) \<noteq> 0"
  using hd_dropWhile [of "\<lambda>d. d = 0" xs] by (auto simp: last_rev)

lemma be_value_eq_trim:
  assumes "digits_ok base sz len ds" and "le_value base ds = be_value b2 0 xs"
  shows "le_value base (rev (trim (rev (take len ds)))) = le_value b2 (rev xs)"
  using assms by (simp add: le_value_digits_ok be_value_le_value)

lemma encodeImpl58_rest:
  obtains xs where "encodeImpl58 bs = replicate (length (takeWhile (\<lambda>b. b = 0) bs)) CHR ''1'' @ map ((!) pszBase58) xs"
    and "\<forall>x \<in> set xs. x < 58" and "xs \<noteq> [] \<longrightarrow> hd xs \<noteq> 0"
    and "le_value 58 (rev xs) = le_value 256 (rev (map unat (dropWhile (\<lambda>b. b = 0) bs)))"
proof -
  let ?rest = "dropWhile (\<lambda>b. b = 0) bs"
  let ?sz = "length ?rest * 138 div 100 + 1"
  obtain ds len where e: "encode58_bytes (replicate ?sz 0) 0 ?rest = (ds, len)"
      "digits_ok 58 ?sz len ds" "le_value 58 ds = be_value 256 0 (map unat ?rest)"
    using encode58_bytes_ok [of ?sz 0 "replicate ?sz 0" ?rest] encode58_size [of "length ?rest"]
    by (auto simp: digits_ok_zeros le_value_zeros simp del: replicate_Suc)
  show thesis
  proof (rule that [of "trim (rev (take len ds))"])
    show "encodeImpl58 bs = replicate (length (takeWhile (\<lambda>b. b = 0) bs)) CHR ''1''
        @ map ((!) pszBase58) (trim (rev (take len ds)))"
      using e(1) by (simp add: encodeImpl58_def Let_def)
    show "\<forall>x \<in> set (trim (rev (take len ds))). x < 58" using trim_digits_less [OF e(2)] by blast
    show "trim (rev (take len ds)) \<noteq> [] \<longrightarrow> hd (trim (rev (take len ds))) \<noteq> 0"
      using hd_dropWhile by blast
  qed (rule be_value_eq_trim [OF e(2,3)])
qed

lemma decodeImpl58_digits:
  assumes "\<forall>x \<in> set xs. x < 58" and "xs \<noteq> [] \<longrightarrow> hd xs \<noteq> 0"
  obtains ys where "decodeImpl58 (replicate z CHR ''1'' @ map ((!) pszBase58) xs) = Some (replicate z 0 @ map word_of_nat ys)"
    and "\<forall>y \<in> set ys. y < 256" and "ys \<noteq> [] \<longrightarrow> hd ys \<noteq> 0"
    and "le_value 256 (rev ys) = le_value 58 (rev xs)"
proof -
  let ?s = "replicate z CHR ''1'' @ map ((!) pszBase58) xs"
  let ?sz = "length xs * 733 div 1000 + 1"
  have nul: "c_str ?s = ?s" using assms(1) psz_not_NUL [THEN not_sym] by (intro c_str_id) (auto simp: eq_commute [of "CHR 0x00"] psz_not_NUL)
  have spc: "dropWhile (\<lambda>c. c \<noteq> CHR ''0'' \<and> isSpace c) ?s = ?s"
    using assms(1) psz_not_space by (cases z; cases xs) (auto simp: isSpace_def)
  have ones: "takeWhile (\<lambda>c. c = CHR ''1'') (map ((!) pszBase58) xs) = []"
    "dropWhile (\<lambda>c. c = CHR ''1'') (map ((!) pszBase58) xs) = map ((!) pszBase58) xs"
    using assms psz_one_iff by (cases xs; auto)+
  obtain ds len where d: "decode58_chars (replicate ?sz 0) 0 (map ((!) pszBase58) xs) = Some (ds, len, [])"
      "digits_ok 256 ?sz len ds" "le_value 256 ds = be_value 58 0 xs"
    using decode58_chars_ok [of ?sz 0 "replicate ?sz 0" xs] decode58_size [of "length xs"] assms(1)
    by (auto simp: digits_ok_zeros le_value_zeros simp del: replicate_Suc)
  have tw: "takeWhile (\<lambda>c. c = CHR ''1'') ?s = replicate z CHR ''1''"
    by (subst takeWhile_append2) (auto simp: ones)
  have dw: "dropWhile (\<lambda>c. c = CHR ''1'') ?s = map ((!) pszBase58) xs"
    by (subst dropWhile_append2) (auto simp: ones)
  show thesis
  proof (rule that [of "trim (rev (take len ds))"])
    show "decodeImpl58 ?s = Some (replicate z 0 @ map word_of_nat (trim (rev (take len ds))))"
      using d(1) by (simp add: decodeImpl58_def Let_def nul spc tw dw del: replicate_Suc)
    show "\<forall>x \<in> set (trim (rev (take len ds))). x < 256" using trim_digits_less [OF d(2)] by blast
    show "trim (rev (take len ds)) \<noteq> [] \<longrightarrow> hd (trim (rev (take len ds))) \<noteq> 0"
      using hd_dropWhile by blast
  qed (rule be_value_eq_trim [OF d(2,3)])
qed

lemma decode_encodeBase58: "decodeBase58 (encodeBase58 bs) = Inr bs"
proof -
  let ?z = "length (takeWhile (\<lambda>b. b = 0) bs)" and ?rest = "dropWhile (\<lambda>b. b = 0) bs"
  obtain xs where e: "encodeImpl58 bs = replicate ?z CHR ''1'' @ map ((!) pszBase58) xs"
      "\<forall>x \<in> set xs. x < 58" "xs \<noteq> [] \<longrightarrow> hd xs \<noteq> 0"
      "le_value 58 (rev xs) = le_value 256 (rev (map unat ?rest))"
    by (rule encodeImpl58_rest)
  obtain ys where d: "decodeImpl58 (encodeImpl58 bs) = Some (replicate ?z 0 @ map word_of_nat ys)"
      "\<forall>y \<in> set ys. y < 256" "ys \<noteq> [] \<longrightarrow> hd ys \<noteq> 0" "le_value 256 (rev ys) = le_value 58 (rev xs)"
    using decodeImpl58_digits [OF e(2,3), of ?z] e(1) by metis
  have "rev ys = rev (map unat ?rest)"
  proof (rule le_value_unique [of 256])
    show "rev (map unat ?rest) \<noteq> [] \<longrightarrow> last (rev (map unat ?rest)) \<noteq> 0"
      using hd_dropWhile [of "\<lambda>b. b = 0" bs] by (auto simp: last_rev hd_map unat_eq_0)
  qed (use d e in \<open>auto simp: last_rev\<close>)
  then have ys: "map word_of_nat ys = ?rest" by (simp add: o_def)
  have "replicate ?z 0 = takeWhile (\<lambda>b. b = 0) bs"
    by (rule sym, subst replicate_eqI [of "takeWhile (\<lambda>b. b = 0) bs" ?z 0])
       (auto dest: set_takeWhileD)
  with d(1) ys show ?thesis by (simp add: decodeBase58_def encodeBase58_def)
qed

text \<open>
  For every byte string the base58 text decodes back to it: leading
  zero bytes survive as leading \<open>1\<close> digits, no carry is lost in either of the
  pre-sized digit arrays, and no digit is rejected.
\<close>

theorem base58_roundtrip: "decodeBase58 (encodeBase58 bs) = Inr bs"
  by (rule decode_encodeBase58)

lemma decodeBase58_empty: "decodeBase58 [] = Inr []"
  by (simp add: decodeBase58_def decodeImpl58_def c_str_def)

interpretation b58: base_codec encodeBase58 "\<lambda>s. Returns (decodeBase58 s)"
  by unfold_locales (simp_all add: decode_encodeBase58 decodeBase58_empty)

end
