(* ===== verification/Base64.thy ===== *)
theory Base64
  imports Base32
begin

text \<open>
  The base64 codec of \<open>src/multi/multibase_codec/codecs/base64.cpp\<close>: the three-to-four
  regrouping with its padding, the validity test of the decoder (a regular expression
  applied to the C string), its table lookup and its pre-sized output buffer. The
  lemmas show that decoding inverts encoding and when the decoder throws.
\<close>

section \<open>Model\<close>

definition alphabet64 :: string where
  "alphabet64 = ''ABCDEFGHIJKLMNOPQRSTUVWXYZabcdefghijklmnopqrstuvwxyz0123456789+/''"

definition inverse_table :: "int list" where
  "inverse_table =
     [
      - 1, - 1, - 1, - 1, - 1, - 1, - 1, - 1, - 1, - 1, - 1, - 1, - 1, - 1, - 1, - 1,
      - 1, - 1, - 1, - 1, - 1, - 1, - 1, - 1, - 1, - 1, - 1, - 1, - 1, - 1, - 1, - 1,
      - 1, - 1, - 1, - 1, - 1, - 1, - 1, - 1, - 1, - 1, - 1, 62, - 1, - 1, - 1, 63,
      52, 53, 54, 55, 56, 57, 58, 59, 60, 61, - 1, - 1, - 1, - 1, - 1, - 1,
      - 1, 0, 1, 2, 3, 4, 5, 6, 7, 8, 9, 10, 11, 12, 13, 14,
      15, 16, 17, 18, 19, 20, 21, 22, 23, 24, 25, - 1, - 1, - 1, - 1, - 1,
      - 1, 26, 27, 28, 29, 30, 31, 32, 33, 34, 35, 36, 37, 38, 39, 40,
      41, 42, 43, 44, 45, 46, 47, 48, 49, 50, 51, - 1, - 1, - 1, - 1, - 1,
      - 1, - 1, - 1, - 1, - 1, - 1, - 1, - 1, - 1, - 1, - 1, - 1, - 1, - 1, - 1, - 1,
      - 1, - 1, - 1, - 1, - 1, - 1, - 1, - 1, - 1, - 1, - 1, - 1, - 1, - 1, - 1, - 1,
      - 1, - 1, - 1, - 1, - 1, - 1, - 1, - 1, - 1, - 1, - 1, - 1, - 1, - 1, - 1, - 1,
      - 1, - 1, - 1, - 1, - 1, - 1, - 1, - 1, - 1, - 1, - 1, - 1, - 1, - 1, - 1, - 1,
      - 1, - 1, - 1, - 1, - 1, - 1, - 1, - 1, - 1, - 1, - 1, - 1, - 1, - 1, - 1, - 1,
      - 1, - 1, - 1, - 1, - 1, - 1, - 1, - 1, - 1, - 1, - 1, - 1, - 1, - 1, - 1, - 1,
      - 1, - 1, - 1, - 1, - 1, - 1, - 1, - 1, - 1, - 1, - 1, - 1, - 1, - 1, - 1, - 1,
      - 1, - 1, - 1, - 1, - 1, - 1, - 1, - 1, - 1, - 1, - 1, - 1, - 1, - 1, - 1, - 1
     ]"

definition decodedSize :: "nat \<Rightarrow> nat" where
  "decodedSize n = n div 4 * 3"

text \<open>\<open>base64_regex\<close>: alphabet characters, then at most two \<open>=\<close>.\<close>

definition base64_regex_match :: "string \<Rightarrow> bool" where
  "base64_regex_match s \<longleftrightarrow> dropWhile (\<lambda>c. c \<in> set alphabet64) s \<in> {[], ''='', ''==''}"

definition isValidBase64 :: "string \<Rightarrow> bool" where
  "isValidBase64 str \<longleftrightarrow> length str mod 4 = 0 \<and> base64_regex_match (c_str str)"

definition tab :: "byte \<Rightarrow> char" where
  "tab w = alphabet64 ! unat w"

text \<open>The loop over \<open>len / 3\<close> groups and the \<open>switch\<close> on \<open>len % 3\<close>.\<close>

fun encodeImpl64 :: "bytes \<Rightarrow> string" where
  "encodeImpl64 (a # b # c # rest) =
     [tab (drop_bit 2 (a AND 0xfc)),
      tab (push_bit 4 (a AND 0x03) + drop_bit 4 (b AND 0xf0)),
      tab (drop_bit 6 (c AND 0xc0) + push_bit 2 (b AND 0x0f)),
      tab (c AND 0x3f)] @ encodeImpl64 rest"
| "encodeImpl64 [a, b] =
     [tab (drop_bit 2 (a AND 0xfc)),
      tab (push_bit 4 (a AND 0x03) + drop_bit 4 (b AND 0xf0)),
      tab (push_bit 2 (b AND 0x0f)),
      CHR ''='']"
| "encodeImpl64 [a] =
     [tab (drop_bit 2 (a AND 0xfc)),
      tab (push_bit 4 (a AND 0x03)),
      CHR ''='',
      CHR ''='']"
| "encodeImpl64 [] = []"

definition c3_of :: "bytes \<Rightarrow> bytes" where
  "c3_of c4 =
     [push_bit 2 (c4 ! 0) + drop_bit 4 (c4 ! 1 AND 0x30),
      push_bit 4 (c4 ! 1 AND 0xf) + drop_bit 2 (c4 ! 2 AND 0x3c),
      push_bit 6 (c4 ! 2 AND 0x3) + c4 ! 3]"

text \<open>The loops that copy bytes of \<open>c3\<close> to \<open>out\<close> at \<open>bytes_pos\<close>.\<close>

fun put_bytes :: "bytes \<Rightarrow> nat \<Rightarrow> bytes \<Rightarrow> bytes \<times> nat" where
  "put_bytes out bytes_pos [] = (out, bytes_pos)"
| "put_bytes out bytes_pos (x # xs) = put_bytes (out[bytes_pos := x]) (bytes_pos + 1) xs"

text \<open>
  The decoding loop: \<open>None\<close> for a character outside the table's range of values. The
  table is read with \<open>at\<close> on a signed character, which throws for the codes above 127.
\<close>

fun decode64_loop ::
  "string \<Rightarrow> bytes \<Rightarrow> nat \<Rightarrow> bytes \<Rightarrow> nat \<Rightarrow> (bytes \<times> nat \<times> bytes \<times> nat) option cxx" where
  "decode64_loop [] c4 i out bytes_pos = Returns (Some (c4, i, out, bytes_pos))"
| "decode64_loop (ch # src) c4 i out bytes_pos =
     (if ch = CHR ''='' then Returns (Some (c4, i, out, bytes_pos))
      else if (of_char ch :: nat) \<ge> 128 then Throws
      else
        (let v = inverse_table ! of_char ch
         in if v = - 1 then Returns None
            else
              (let c4' = c4[i := word_of_int v]
               in if i + 1 = 4 then
                    (let (out', bytes_pos') = put_bytes out bytes_pos (c3_of c4')
                     in decode64_loop src c4' 0 out' bytes_pos')
                  else decode64_loop src c4' (i + 1) out bytes_pos)))"

definition decode64_rest :: "bytes \<times> nat \<times> bytes \<times> nat \<Rightarrow> bytes" where
  "decode64_rest st =
     (case st of (c4, i, out, bytes_pos) \<Rightarrow>
        (let (out', bytes_pos') =
               (if i \<noteq> 0 then put_bytes out bytes_pos (take (i - 1) (c3_of c4)) else (out, bytes_pos))
         in take bytes_pos' out' @ replicate (bytes_pos' - length out') 0))"

definition decodeImpl64 :: "string \<Rightarrow> bytes option cxx" where
  "decodeImpl64 src =
     bind_cxx (decode64_loop src [0, 0, 0, 0] 0 (replicate (decodedSize (length src)) 0) 0)
       (\<lambda>r. Returns (map_option decode64_rest r))"

definition encodeBase64 :: "bytes \<Rightarrow> string" where
  "encodeBase64 bs = encodeImpl64 bs"

definition decodeBase64 :: "string \<Rightarrow> (BaseError, bytes) result cxx" where
  "decodeBase64 str =
     (if \<not> isValidBase64 str then Returns (Inl INVALID_BASE64_INPUT)
      else
        bind_cxx (decodeImpl64 str)
          (\<lambda>r. case r of None \<Rightarrow> Returns (Inl INVALID_BASE64_INPUT) | Some bs \<Rightarrow> Returns (Inr bs)))"

section \<open>The table\<close>

lemma length_alphabet64: "length alphabet64 = 64"
  by (simp add: alphabet64_def)

lemma inverse_table_alphabet64:
  assumes "n < 64"
  shows "inverse_table ! of_char (alphabet64 ! n) = int n" and "of_char (alphabet64 ! n) < (128 :: nat)"
    and "alphabet64 ! n \<noteq> CHR ''=''" and "alphabet64 ! n \<noteq> CHR 0x00" and "alphabet64 ! n \<in> set alphabet64"
proof -
  have "list_all (\<lambda>n. inverse_table ! of_char (alphabet64 ! n) = int n \<and> of_char (alphabet64 ! n) < (128 :: nat)
      \<and> alphabet64 ! n \<noteq> CHR ''='' \<and> alphabet64 ! n \<noteq> CHR 0x00) [0..<64]"
    by code_simp
  then have "\<forall>n<64. inverse_table ! of_char (alphabet64 ! n) = int n \<and> of_char (alphabet64 ! n) < (128 :: nat)
      \<and> alphabet64 ! n \<noteq> CHR ''='' \<and> alphabet64 ! n \<noteq> CHR 0x00"
    by (auto simp: list_all_iff)
  with assms show "inverse_table ! of_char (alphabet64 ! n) = int n" "of_char (alphabet64 ! n) < (128 :: nat)"
    "alphabet64 ! n \<noteq> CHR ''=''" "alphabet64 ! n \<noteq> CHR 0x00" by blast+
  show "alphabet64 ! n \<in> set alphabet64" using assms by (intro nth_mem) (simp add: length_alphabet64)
qed

lemma decode64_tab:
  assumes "unat w < 64"
  shows "decode64_loop (tab w # src) c4 i out pos =
    (if i + 1 = 4 then
       (let (out', pos') = put_bytes out pos (c3_of (c4[i := w])) in decode64_loop src (c4[i := w]) 0 out' pos')
     else decode64_loop src (c4[i := w]) (i + 1) out pos)"
proof -
  have "uint w \<noteq> - 1" using uint_ge_0 [of w] by linarith
  then show ?thesis using inverse_table_alphabet64 [OF assms] by (simp add: tab_def Let_def)
qed

lemma decode64_pad: "decode64_loop (CHR ''='' # src) c4 i out pos = Returns (Some (c4, i, out, pos))"
  by simp

section \<open>Sextets\<close>

lemma unat_and_mask [word_arith]:
  "unat (a AND 0x03) = unat a mod 4" "unat (a AND 0x0f) = unat a mod 16"
  "unat (a AND 0x3f) = unat a mod 64" for a :: byte
proof -
  have "unat (a AND mask n) = unat a mod 2 ^ n" for n
    by (simp only: take_bit_eq_mask [symmetric] unsigned_take_bit_eq) (simp add: take_bit_eq_mod)
  from this [of 2] this [of 4] this [of 6] show
    "unat (a AND 0x03) = unat a mod 4" "unat (a AND 0x0f) = unat a mod 16" "unat (a AND 0x3f) = unat a mod 64"
    by (simp_all add: mask_eq_exp_minus_1)
qed

lemma unat_field [word_arith]:
  "unat (drop_bit 2 (a AND 0xfc)) = unat a div 4"
  "unat (drop_bit 4 (a AND 0xf0)) = unat a div 16"
  "unat (drop_bit 6 (a AND 0xc0)) = unat a div 64"
  "unat (drop_bit 4 (a AND 0x30)) = unat a div 16 mod 4"
  "unat (drop_bit 2 (a AND 0x3c)) = unat a div 4 mod 16" for a :: byte
  using unat_byte_less [of a]
  by (simp_all add: unat_and_mask unat_drop_bit) (simp_all add: less_mult_imp_div_less)

lemma unat_push [word_arith]: "unat (push_bit n a) = unat a * 2 ^ n mod 256" for a :: byte
  by (simp only: unsigned_push_bit_eq) (simp add: push_bit_eq_mult take_bit_eq_mod)

lemma unat_plus [word_arith]: "unat a + unat b < 256 \<Longrightarrow> unat (a + b) = unat a + unat b" for a b :: byte
  by (simp add: unat_word_ariths)

text \<open>The sextets of a group, and the group got back from them.\<close>

lemmas fields_kept = drop_bit_and push_bit_and

lemma sextet_values:
  fixes a b c :: byte
  shows "unat (drop_bit 2 (a AND 0xfc)) = unat a div 4"
    and "unat (push_bit 4 (a AND 0x03)) = unat a mod 4 * 16"
    and "unat (push_bit 4 (a AND 0x03) + drop_bit 4 (b AND 0xf0)) = unat a mod 4 * 16 + unat b div 16"
    and "unat (push_bit 2 (b AND 0x0f)) = unat b mod 16 * 4"
    and "unat (drop_bit 6 (c AND 0xc0) + push_bit 2 (b AND 0x0f)) = unat c div 64 + unat b mod 16 * 4"
    and "unat (c AND 0x3f) = unat c mod 64"
proof -
  have 1: "unat (push_bit 4 (a AND 0x03)) = unat a mod 4 * 16" and 2: "unat (push_bit 2 (b AND 0x0f)) = unat b mod 16 * 4"
    using mod_less_divisor [of 4 "unat a"] mod_less_divisor [of 16 "unat b"]
    by (simp_all add: word_arith del: fields_kept)
  have "unat b div 16 < 16" "unat c div 64 < 4" using unat_byte_less [of b] unat_byte_less [of c] by linarith+
  then show "unat (push_bit 4 (a AND 0x03) + drop_bit 4 (b AND 0xf0)) = unat a mod 4 * 16 + unat b div 16"
    "unat (drop_bit 6 (c AND 0xc0) + push_bit 2 (b AND 0x0f)) = unat c div 64 + unat b mod 16 * 4"
    using mod_less_divisor [of 4 "unat a"] mod_less_divisor [of 16 "unat b"]
    by (simp_all add: 1 2 unat_field unat_plus del: fields_kept)
  show "unat (drop_bit 2 (a AND 0xfc)) = unat a div 4" "unat (c AND 0x3f) = unat c mod 64"
    by (simp_all only: unat_field unat_and_mask)
qed (simp_all add: word_arith del: fields_kept)

lemma sextets_less:
  fixes a b c :: byte
  shows "unat (drop_bit 2 (a AND 0xfc)) < 64"
    and "unat (push_bit 4 (a AND 0x03)) < 64"
    and "unat (push_bit 4 (a AND 0x03) + drop_bit 4 (b AND 0xf0)) < 64"
    and "unat (push_bit 2 (b AND 0x0f)) < 64"
    and "unat (drop_bit 6 (c AND 0xc0) + push_bit 2 (b AND 0x0f)) < 64"
    and "unat (c AND 0x3f) < 64"
  unfolding sextet_values
  using unat_byte_less [of a] unat_byte_less [of b] unat_byte_less [of c] 
  by linarith+

lemma c3_values:
  fixes v0 v1 v2 v3 :: byte
  assumes "unat v0 < 64" "unat v1 < 64" "unat v2 < 64" "unat v3 < 64"
  shows "map unat (c3_of [v0, v1, v2, v3]) =
    [unat v0 * 4 + unat v1 div 16, unat v1 mod 16 * 16 + unat v2 div 4, unat v2 mod 4 * 64 + unat v3]"
proof -
  have "unat (push_bit 2 v0) = unat v0 * 4" "unat (push_bit 4 (v1 AND 0xf)) = unat v1 mod 16 * 16"
    "unat (push_bit 6 (v2 AND 3)) = unat v2 mod 4 * 64"
    using assms mod_less_divisor [of 16 "unat v1"] mod_less_divisor [of 4 "unat v2"]
    by (simp_all add: word_arith del: fields_kept)
  moreover have "unat (drop_bit 4 (v1 AND 0x30)) = unat v1 div 16" "unat (drop_bit 2 (v2 AND 0x3c)) = unat v2 div 4"
    using assms by (simp_all add: unat_field del: fields_kept)
  moreover have "unat v1 mod 16 < 16" "unat v2 mod 4 < 4" "unat v1 div 16 < 4" "unat v2 div 4 < 16" using assms by simp_all
  ultimately show ?thesis using assms by (simp add: c3_of_def unat_plus del: fields_kept)
qed

lemma regroup64:
  fixes a b c :: byte
  shows "c3_of [drop_bit 2 (a AND 0xfc), push_bit 4 (a AND 0x03) + drop_bit 4 (b AND 0xf0),
      drop_bit 6 (c AND 0xc0) + push_bit 2 (b AND 0x0f), c AND 0x3f] = [a, b, c]"
    and "unat v < 64 \<Longrightarrow> take 2 (c3_of [drop_bit 2 (a AND 0xfc), push_bit 4 (a AND 0x03) + drop_bit 4 (b AND 0xf0),
      push_bit 2 (b AND 0x0f), v]) = [a, b]"
    and "unat u < 64 \<Longrightarrow> unat v < 64 \<Longrightarrow>
      take 1 (c3_of [drop_bit 2 (a AND 0xfc), push_bit 4 (a AND 0x03), u, v]) = [a]"
proof -
  have inj: "map unat xs = map unat ys \<Longrightarrow> xs = ys" for xs ys :: bytes
    by (metis inj_map_eq_map injI word_unat_eq_iff)
  have r: "unat b div 16 < 16" "unat c div 64 < 4"
    using unat_byte_less [of b] unat_byte_less [of c] by linarith+
  have d: "(unat a mod 4 * 16 + unat b div 16) div 16 = unat a mod 4"
    "(unat a mod 4 * 16 + unat b div 16) mod 16 = unat b div 16"
    "(unat c div 64 + unat b mod 16 * 4) div 4 = unat b mod 16"
    "(unat c div 64 + unat b mod 16 * 4) mod 4 = unat c div 64"
    "unat b div 16 mod 16 = unat b div 16" "unat c div 64 mod 4 = unat c div 64" using r by simp_all
  show "c3_of [drop_bit 2 (a AND 0xfc), push_bit 4 (a AND 0x03) + drop_bit 4 (b AND 0xf0),
      drop_bit 6 (c AND 0xc0) + push_bit 2 (b AND 0x0f), c AND 0x3f] = [a, b, c]"
    by (rule inj, subst c3_values, (rule sextets_less)+) (simp add: sextet_values d r del: fields_kept)
  show "take 2 (c3_of [drop_bit 2 (a AND 0xfc), push_bit 4 (a AND 0x03) + drop_bit 4 (b AND 0xf0),
      push_bit 2 (b AND 0x0f), v]) = [a, b]" if "unat v < 64"
    by (rule inj, unfold take_map [symmetric], subst c3_values, (rule sextets_less that)+)
       (simp add: sextet_values d del: fields_kept)
  show "take 1 (c3_of [drop_bit 2 (a AND 0xfc), push_bit 4 (a AND 0x03), u, v]) = [a]"
    if "unat u < 64" "unat v < 64"
    by (rule inj, unfold take_map [symmetric], subst c3_values, (rule sextets_less that)+)
       (simp add: sextet_values del: fields_kept)
qed

section \<open>Round trip\<close>

lemma put_bytes_fill:
  "length xs \<le> k \<Longrightarrow>
   put_bytes (ws @ replicate k 0) (length ws) xs = ((ws @ xs) @ replicate (k - length xs) 0, length (ws @ xs))"
proof (induction xs arbitrary: ws k)
  case (Cons x xs)
  then obtain k' where k: "k = Suc k'" by (cases k) auto
  with Cons.IH [of k' "ws @ [x]"] Cons.prems show ?case by (simp add: list_update_append)
qed simp

lemma length_encodeImpl64: "length (encodeImpl64 bs) = (length bs + 2) div 3 * 4"
proof (induction bs rule: encodeImpl64.induct)
  case (1 a b c rest)
  have "(length (a # b # c # rest) + 2) div 3 = (length rest + 2 + 3) div 3" by simp
  also have "\<dots> = (length rest + 2) div 3 + 1" by (rule div_add_self2) simp
  finally show ?case using 1 by simp
qed simp_all

lemma list4: "length c4 = 4 \<Longrightarrow> \<exists>x0 x1 x2 x3. c4 = [x0, x1, x2, x3]"
  by (auto simp: length_Suc_conv numeral_eq_Suc)

text \<open>From any group boundary on, with enough room left, the decoder appends the bytes encoded.\<close>

lemma decode64_loop_encodeImpl64:
  assumes "length c4 = 4" and "\<forall>v \<in> set c4. unat v < 64" and "decodedSize (length (encodeImpl64 bs)) \<le> k"
  shows "\<exists>st. decode64_loop (encodeImpl64 bs) c4 0 (ws @ replicate k 0) (length ws) = Returns (Some st)
    \<and> decode64_rest st = ws @ bs"
  using assms
proof (induction bs arbitrary: c4 k ws rule: encodeImpl64.induct)
  case (1 a b c rest)
  obtain x0 x1 x2 x3 where c4: "c4 = [x0, x1, x2, x3]" using list4 [OF 1(2)] by blast
  let ?c = "[drop_bit 2 (a AND 0xfc), push_bit 4 (a AND 0x03) + drop_bit 4 (b AND 0xf0),
      drop_bit 6 (c AND 0xc0) + push_bit 2 (b AND 0x0f), c AND 0x3f]"
  have k: "3 + decodedSize (length (encodeImpl64 rest)) \<le> k"
    using 1(4) by (simp add: decodedSize_def div_add_self1)
  have "\<exists>st. decode64_loop (encodeImpl64 rest) ?c 0 ((ws @ [a, b, c]) @ replicate (k - 3) 0) (length (ws @ [a, b, c]))
        = Returns (Some st) \<and> decode64_rest st = (ws @ [a, b, c]) @ rest"
    using k sextets_less by (intro 1(1)) (auto simp del: fields_kept)
  then show ?case
    using k put_bytes_fill [of "[a, b, c]" k ws]
    by (simp add: c4 decode64_tab sextets_less regroup64(1) numeral_3_eq_3 del: fields_kept decode64_loop.simps(2))
next
  case (2 a b)
  obtain x0 x1 x2 x3 where c4: "c4 = [x0, x1, x2, x3]" using list4 [OF 2(1)] by blast
  have k: "3 \<le> k" using 2(3) by (simp add: decodedSize_def)
  have t: "take (Suc (Suc 0)) (c3_of [drop_bit 2 (a AND 0xfc), push_bit 4 (a AND 0x03) + drop_bit 4 (b AND 0xf0),
      push_bit 2 (b AND 0x0f), x3]) = [a, b]"
    using regroup64(2) [of x3 a b] 2(2) by (simp only: numeral_2_eq_2 [symmetric]) (simp add: c4)
  show ?case
    using k put_bytes_fill [of "[a, b]" k ws] t
    by (simp add: c4 decode64_tab decode64_pad sextets_less decode64_rest_def del: fields_kept decode64_loop.simps(2))
next
  case (3 a)
  obtain x0 x1 x2 x3 where c4: "c4 = [x0, x1, x2, x3]" using list4 [OF 3(1)] by blast
  have k: "3 \<le> k" using 3(3) by (simp add: decodedSize_def)
  show ?case
    using k 3(2) put_bytes_fill [of "[a]" k ws] regroup64(3) [of x2 x3 a]
    by (simp add: c4 decode64_tab decode64_pad sextets_less decode64_rest_def del: fields_kept decode64_loop.simps(2))
qed (simp add: decode64_rest_def)

lemma base64_regex_encodeImpl64:
  "base64_regex_match (encodeImpl64 bs)" "c_str (encodeImpl64 bs) = encodeImpl64 bs"
proof -
  have t: "unat w < 64 \<Longrightarrow> tab w \<in> set alphabet64" "unat w < 64 \<Longrightarrow> tab w \<noteq> CHR 0x00" for w
    using inverse_table_alphabet64 [of "unat w"] by (simp_all add: tab_def)
  have e: "CHR ''='' \<notin> set alphabet64" by (simp add: alphabet64_def)
  show "base64_regex_match (encodeImpl64 bs)"
    by (induction bs rule: encodeImpl64.induct)
       (simp_all add: base64_regex_match_def t(1) sextets_less e del: fields_kept)
  show "c_str (encodeImpl64 bs) = encodeImpl64 bs"
    by (induction bs rule: encodeImpl64.induct)
       (simp_all add: c_str_def t(2) sextets_less del: fields_kept)
qed

lemma decode_encodeBase64: "decodeBase64 (encodeBase64 bs) = Returns (Inr bs)"
proof -
  let ?s = "encodeImpl64 bs"
  have "isValidBase64 ?s"
    by (simp add: isValidBase64_def base64_regex_encodeImpl64 length_encodeImpl64)
  moreover obtain st where
    "decode64_loop ?s [0, 0, 0, 0] 0 (replicate (decodedSize (length ?s)) 0) 0 = Returns (Some st)"
    "decode64_rest st = bs"
    using decode64_loop_encodeImpl64 [of "[0, 0, 0, 0]" bs "decodedSize (length ?s)" "[]"] by auto
  ultimately show ?thesis by (simp add: decodeBase64_def encodeBase64_def decodeImpl64_def)
qed

text \<open>
  For every byte string, decoding the base64 text with its padding
  gives the byte string back: the text passes the validity test, no lookup throws or
  fails, and the pre-sized output buffer holds all the bytes.
\<close>

theorem base64_roundtrip: "decodeBase64 (encodeBase64 bs) = Returns (Inr bs)"
  by (rule decode_encodeBase64)

section \<open>Inputs the validity test does not see\<close>

text \<open>
  The validity test matches the C string and the decoder reads the whole view, so
  characters after a NUL escape the test. The decoder stops at the NUL at the latest,
  whose entry in the table is \<open>-1\<close>.
\<close>

lemma decode64_loop_valid:
  "base64_regex_match (c_str str) \<Longrightarrow> decode64_loop str c4 i out pos \<noteq> Throws"
proof (induction str arbitrary: c4 i out pos)
  case (Cons ch str)
  have nul: "inverse_table ! 0 = - 1" by (simp add: inverse_table_def)
  show ?case
  proof (cases "ch \<in> set alphabet64")
    case True
    then obtain n where n: "n < 64" "ch = alphabet64 ! n" by (auto simp: in_set_conv_nth length_alphabet64)
    note inverse_table_alphabet64 [OF n(1), folded n(2)]
    then show ?thesis using Cons True
      by (auto simp: c_str_def base64_regex_match_def Let_def split: prod.splits)
  next
    case False
    then show ?thesis using Cons.prems nul
      by (auto simp: c_str_def base64_regex_match_def Let_def split: if_splits)
  qed
qed simp

lemma decodeBase64_returns: "decodeBase64 str \<noteq> Throws"
proof (cases "isValidBase64 str")
  case True
  then have "base64_regex_match (c_str str)" by (simp add: isValidBase64_def)
  from decode64_loop_valid [OF this] show ?thesis
    by (auto simp: decodeBase64_def decodeImpl64_def bind_cxx_def split: cxx.splits option.splits)
qed (simp add: decodeBase64_def)

text \<open>What follows the padding and a NUL is accepted and ignored.\<close>

lemma decodeBase64_ignores_tail: "decodeBase64 (''QQ=='' @ [CHR 0x00, CHR ''x'', CHR ''y'', CHR ''z'']) = Returns (Inr [0x41])"
  by code_simp

interpretation b64: base_codec encodeBase64 decodeBase64
proof unfold_locales
  show "decodeBase64 [] = Returns (Inr [])" using decode_encodeBase64 [of "[]"] by (simp add: encodeBase64_def)
qed (rule decode_encodeBase64)

end
