(* ===== verification/Multibase.thy ===== *)
theory Multibase
  imports Base32 Base58 Base64
begin

text \<open>
  The multibase layer: \<open>src/multi/multibase_codec/codecs/base16.cpp\<close> and
  \<open>src/multi/multibase_codec/multibase_codec_impl.cpp\<close>. Hexadecimal formatting and
  parsing come from the qtils library and are parameters (\<open>hex_upper\<close>, \<open>hex_lower\<close>,
  \<open>unhex\<close>) of the definitions that use them.
\<close>

section \<open>Base 16\<close>

definition isalpha :: "char \<Rightarrow> bool" where
  "isalpha c \<longleftrightarrow> (let n = of_char c :: nat in 65 \<le> n \<and> n \<le> 90 \<or> 97 \<le> n \<and> n \<le> 122)"

definition isupper :: "char \<Rightarrow> bool" where
  "isupper c \<longleftrightarrow> (let n = of_char c :: nat in 65 \<le> n \<and> n \<le> 90)"

definition encodingCaseIsUpper :: "string \<Rightarrow> bool" where
  "encodingCaseIsUpper str = list_all (\<lambda>c. \<not> isalpha c \<or> isupper c) str"

datatype 'u MultibaseError = UNSUPPORTED_BASE | INPUT_TOO_SHORT | Codec BaseError | Unhex 'u

definition encodeBase16Upper :: "(bytes \<Rightarrow> string) \<Rightarrow> bytes \<Rightarrow> string" where
  "encodeBase16Upper hex_upper bs = hex_upper bs"

definition encodeBase16Lower :: "(bytes \<Rightarrow> string) \<Rightarrow> bytes \<Rightarrow> string" where
  "encodeBase16Lower hex_lower bs = hex_lower bs"

definition decodeBase16Upper ::
  "(string \<Rightarrow> ('u, bytes) result) \<Rightarrow> string \<Rightarrow> ('u MultibaseError, bytes) result" where
  "decodeBase16Upper unhex str =
     (if \<not> encodingCaseIsUpper str then Inl (Codec NON_UPPERCASE_INPUT)
      else map_sum Unhex id (unhex str))"

definition decodeBase16Lower ::
  "(string \<Rightarrow> ('u, bytes) result) \<Rightarrow> string \<Rightarrow> ('u MultibaseError, bytes) result" where
  "decodeBase16Lower unhex str =
     (if encodingCaseIsUpper str then Inl (Codec NON_LOWERCASE_INPUT)
      else map_sum Unhex id (unhex str))"

section \<open>Prefixes\<close>

datatype Encoding = BASE16_LOWER | BASE16_UPPER | BASE32_LOWER | BASE32_UPPER | BASE58 | BASE64

text \<open>\<open>static_cast<char>(encoding)\<close>: the enumerators are characters.\<close>

fun encoding_char :: "Encoding \<Rightarrow> char" where
  "encoding_char BASE16_LOWER = CHR ''f''"
| "encoding_char BASE16_UPPER = CHR ''F''"
| "encoding_char BASE32_LOWER = CHR ''b''"
| "encoding_char BASE32_UPPER = CHR ''B''"
| "encoding_char BASE58 = CHR ''z''"
| "encoding_char BASE64 = CHR ''m''"

definition encodingByChar :: "char \<Rightarrow> Encoding option" where
  "encodingByChar ch =
     (if ch = CHR ''f'' then Some BASE16_LOWER
      else if ch = CHR ''F'' then Some BASE16_UPPER
      else if ch = CHR ''b'' then Some BASE32_LOWER
      else if ch = CHR ''B'' then Some BASE32_UPPER
      else if ch = CHR ''z'' then Some BASE58
      else if ch = CHR ''m'' then Some BASE64
      else None)"

text \<open>The table \<open>codecs\<close>: one pair of functions for each encoding.\<close>

fun codecs_encode :: "(bytes \<Rightarrow> string) \<Rightarrow> (bytes \<Rightarrow> string) \<Rightarrow> Encoding \<Rightarrow> bytes \<Rightarrow> string" where
  "codecs_encode hex_upper hex_lower BASE16_UPPER bs = encodeBase16Upper hex_upper bs"
| "codecs_encode hex_upper hex_lower BASE16_LOWER bs = encodeBase16Lower hex_lower bs"
| "codecs_encode hex_upper hex_lower BASE32_UPPER bs = encodeBase32Upper bs"
| "codecs_encode hex_upper hex_lower BASE32_LOWER bs = encodeBase32Lower bs"
| "codecs_encode hex_upper hex_lower BASE58 bs = encodeBase58 bs"
| "codecs_encode hex_upper hex_lower BASE64 bs = encodeBase64 bs"

definition codec_result :: "(BaseError, bytes) result \<Rightarrow> ('u MultibaseError, bytes) result" where
  "codec_result = map_sum Codec id"

fun codecs_decode ::
  "(string \<Rightarrow> ('u, bytes) result) \<Rightarrow> Encoding \<Rightarrow> string \<Rightarrow> ('u MultibaseError, bytes) result cxx" where
  "codecs_decode unhex BASE16_UPPER str = Returns (decodeBase16Upper unhex str)"
| "codecs_decode unhex BASE16_LOWER str = Returns (decodeBase16Lower unhex str)"
| "codecs_decode unhex BASE32_UPPER str = Returns (codec_result (decodeBase32Upper str))"
| "codecs_decode unhex BASE32_LOWER str = Returns (codec_result (decodeBase32Lower str))"
| "codecs_decode unhex BASE58 str = Returns (codec_result (decodeBase58 str))"
| "codecs_decode unhex BASE64 str = map_cxx codec_result (decodeBase64 str)"

definition multibase_encode ::
  "(bytes \<Rightarrow> string) \<Rightarrow> (bytes \<Rightarrow> string) \<Rightarrow> bytes \<Rightarrow> Encoding \<Rightarrow> string" where
  "multibase_encode hex_upper hex_lower bs encoding =
     (if bs = [] then [] else encoding_char encoding # codecs_encode hex_upper hex_lower encoding bs)"

definition multibase_decode ::
  "(string \<Rightarrow> ('u, bytes) result) \<Rightarrow> string \<Rightarrow> ('u MultibaseError, bytes) result cxx" where
  "multibase_decode unhex str =
     (if length str < 2 then Returns (Inl INPUT_TOO_SHORT)
      else
        (case encodingByChar (hd str) of
           None \<Rightarrow> Returns (Inl UNSUPPORTED_BASE)
         | Some encoding_base \<Rightarrow> codecs_decode unhex encoding_base (tl str)))"

section \<open>Round trips\<close>

lemma encodingByChar_encoding_char [simp]: "encodingByChar (encoding_char e) = Some e"
  by (cases e) (simp_all add: encodingByChar_def)

text \<open>The entry of the table for an encoding is a codec, the lower-case hexadecimal one apart.\<close>

lemma codecs_base_codec:
  fixes unhex :: "string \<Rightarrow> ('u, bytes) result"
  assumes "\<And>bs. unhex (hex_upper bs) = Inr bs" and "\<And>bs. encodingCaseIsUpper (hex_upper bs)"
    and "unhex [] = Inr []" and "e \<noteq> BASE16_LOWER"
  shows "base_codec (codecs_encode hex_upper hex_lower e) (codecs_decode unhex e)"
proof unfold_locales
  fix bs
  show "codecs_decode unhex e (codecs_encode hex_upper hex_lower e bs) = Returns (Inr bs)"
    using assms b32_upper.dec_enc [of bs] b32_lower.dec_enc [of bs] b58.dec_enc [of bs] b64.dec_enc [of bs]
    by (cases e) (simp_all add: decodeBase16Upper_def encodeBase16Upper_def codec_result_def)
  show "codecs_decode unhex e [] = Returns (Inr [])"
    using assms b32_upper.dec_empty b32_lower.dec_empty b58.dec_empty b64.dec_empty
    by (cases e) (simp_all add: decodeBase16Upper_def encodingCaseIsUpper_def codec_result_def)
qed

lemma codecs_base58_lower32:
  "base_codec (codecs_encode hex_upper hex_lower BASE58) (codecs_decode unhex BASE58)"
  "base_codec (codecs_encode hex_upper hex_lower BASE32_LOWER) (codecs_decode unhex BASE32_LOWER)"
  using b32_lower.dec_enc b58.dec_enc b32_lower.dec_empty b58.dec_empty
  by (unfold_locales; simp add: codec_result_def)+

text \<open>A conforming codec makes a conforming prefixed text.\<close>

lemma multibase_decode_prefixed:
  assumes "base_codec (codecs_encode hex_upper hex_lower e) (codecs_decode unhex e)" and "bs \<noteq> []"
  shows "multibase_decode unhex (multibase_encode hex_upper hex_lower bs e) = Returns (Inr bs)"
  using base_codec.dec_enc [OF assms(1), of bs] base_codec.enc_nonempty [OF assms] assms(2)
  by (cases "codecs_encode hex_upper hex_lower e bs") (auto simp: multibase_encode_def multibase_decode_def)

text \<open>
  With a hexadecimal library that parses what it prints in upper
  case, every non-empty byte string encoded by \<open>MultibaseCodecImpl::encode\<close> in a base
  other than lower-case base 16 is what \<open>MultibaseCodecImpl::decode\<close> returns for the
  text: the prefix selects the codec that wrote it.
\<close>

theorem multibase_roundtrip:
  fixes unhex :: "string \<Rightarrow> ('u, bytes) result"
  assumes "\<And>bs. unhex (hex_upper bs) = Inr bs" and "\<And>bs. encodingCaseIsUpper (hex_upper bs)"
    and "unhex [] = Inr []" and "e \<noteq> BASE16_LOWER" and "bs \<noteq> []"
  shows "multibase_decode unhex (multibase_encode hex_upper hex_lower bs e) = Returns (Inr bs)"
  by (rule multibase_decode_prefixed [OF codecs_base_codec [OF assms(1-4)] assms(5)])

text \<open>A hexadecimal library with the documented behaviour, for the witnesses.\<close>

definition hex_digits :: "string \<Rightarrow> bytes \<Rightarrow> string" where
  "hex_digits alphabet bs = concat (map (\<lambda>b. [alphabet ! (unat b div 16), alphabet ! (unat b mod 16)]) bs)"

definition hex_value :: "char \<Rightarrow> nat option" where
  "hex_value c =
     (let n = of_char c :: nat
      in if 48 \<le> n \<and> n \<le> 57 then Some (n - 48)
         else if 65 \<le> n \<and> n \<le> 70 then Some (n - 55)
         else if 97 \<le> n \<and> n \<le> 102 then Some (n - 87)
         else None)"

fun unhex_digits :: "string \<Rightarrow> (unit, bytes) result" where
  "unhex_digits [] = Inr []"
| "unhex_digits [c] = Inl ()"
| "unhex_digits (c # d # cs) =
     (case (hex_value c, hex_value d, unhex_digits cs) of
        (Some h, Some l, Inr bs) \<Rightarrow> Inr (word_of_nat (16 * h + l) # bs)
      | _ \<Rightarrow> Inl ())"

abbreviation upper16 :: string where
  "upper16 \<equiv> ''0123456789ABCDEF''"

abbreviation lower16 :: string where
  "lower16 \<equiv> ''0123456789abcdef''"

lemma hex_value_nth:
  assumes "n < 16"
  shows "hex_value (upper16 ! n) = Some n" and "hex_value (lower16 ! n) = Some n"
    and "\<not> isalpha (upper16 ! n) \<or> isupper (upper16 ! n)" and "\<not> isupper (lower16 ! n)"
proof -
  have "list_all (\<lambda>n. hex_value (upper16 ! n) = Some n \<and> hex_value (lower16 ! n) = Some n
      \<and> (\<not> isalpha (upper16 ! n) \<or> isupper (upper16 ! n)) \<and> \<not> isupper (lower16 ! n)) [0..<16]"
    by code_simp
  with assms show "hex_value (upper16 ! n) = Some n" "hex_value (lower16 ! n) = Some n"
    "\<not> isalpha (upper16 ! n) \<or> isupper (upper16 ! n)" "\<not> isupper (lower16 ! n)"
    by (simp_all add: list_all_iff del: upt_rec_numeral)
qed

lemma hex_digits_props:
  "unhex_digits (hex_digits upper16 bs) = Inr bs" "unhex_digits (hex_digits lower16 bs) = Inr bs"
  "encodingCaseIsUpper (hex_digits upper16 bs)"
  "bs \<noteq> [] \<Longrightarrow> hex_digits lower16 bs \<noteq> []" "c \<in> set (hex_digits lower16 bs) \<Longrightarrow> \<not> isupper c"
proof -
  have d: "unat b div 16 < 16" for b :: byte using unat_byte_less [of b] by linarith
  show "unhex_digits (hex_digits upper16 bs) = Inr bs" "unhex_digits (hex_digits lower16 bs) = Inr bs"
    by (induction bs) (simp_all add: hex_digits_def hex_value_nth d)
  show "encodingCaseIsUpper (hex_digits upper16 bs)"
    by (induction bs) (use hex_value_nth(3) d in \<open>simp_all add: hex_digits_def encodingCaseIsUpper_def\<close>)
  show "c \<in> set (hex_digits lower16 bs) \<Longrightarrow> \<not> isupper c"
    using hex_value_nth(4) d by (auto simp: hex_digits_def)
  show "bs \<noteq> [] \<Longrightarrow> hex_digits lower16 bs \<noteq> []" by (cases bs) (auto simp: hex_digits_def)
qed

theorem multibase_roundtrip_witness:
  "multibase_decode unhex_digits (multibase_encode (hex_digits upper16) (hex_digits lower16) [0, 1, 0xff] BASE58)
     = Returns (Inr [0, 1, 0xff])"
  by (rule multibase_roundtrip) (simp_all add: hex_digits_props)

section \<open>Where the round trip ends\<close>

text \<open>
  Lower-case base 16 decodes exactly the texts with a lower-case letter: a text of
  digits only counts as upper case.
\<close>

text \<open>
  With a library that prints and parses lower-case hexadecimal, the
  lower-case base 16 text of a non-empty byte string decodes to it if some of its
  digits is a letter, and is refused with \<open>NON_LOWERCASE_INPUT\<close> if its digits are all
  decimal.
\<close>

theorem multibase_base16_lower:
  fixes unhex :: "string \<Rightarrow> ('u, bytes) result"
  assumes "\<And>bs. unhex (hex_lower bs) = Inr bs" and "\<And>bs. bs \<noteq> [] \<Longrightarrow> hex_lower bs \<noteq> []"
    and "\<And>bs c. c \<in> set (hex_lower bs) \<Longrightarrow> \<not> isupper c" and "bs \<noteq> []"
  shows "multibase_decode unhex (multibase_encode hex_upper hex_lower bs BASE16_LOWER) =
    Returns (if list_ex isalpha (hex_lower bs) then Inr bs else Inl (Codec NON_LOWERCASE_INPUT))"
proof -
  have "encodingCaseIsUpper (hex_lower bs) \<longleftrightarrow> \<not> list_ex isalpha (hex_lower bs)"
    using assms(3) by (auto simp: encodingCaseIsUpper_def list_all_iff list_ex_iff)
  moreover have "\<not> length (CHR ''f'' # hex_lower bs) < 2"
    using assms(2) [OF assms(4)] by (cases "hex_lower bs") auto
  ultimately show ?thesis using assms(1,4)
    by (simp add: multibase_encode_def multibase_decode_def encodingByChar_def decodeBase16Lower_def
        encodeBase16Lower_def)
qed

theorem multibase_base16_lower_witness:
  "multibase_decode unhex_digits (multibase_encode (hex_digits upper16) (hex_digits lower16) [0x12] BASE16_LOWER)
     = Returns (Inl (Codec NON_LOWERCASE_INPUT))"
proof -
  have "\<not> list_ex isalpha (hex_digits lower16 [0x12])" by (simp add: hex_digits_def isalpha_def)
  then show ?thesis
    using multibase_base16_lower [of unhex_digits "hex_digits lower16" "[0x12]" "hex_digits upper16"]
    by (simp add: hex_digits_props)
qed

text \<open>The text of the empty byte string has no prefix and is refused.\<close>

lemma multibase_empty:
  "multibase_decode unhex (multibase_encode hex_upper hex_lower [] e) = Returns (Inl INPUT_TOO_SHORT)"
  by (simp add: multibase_encode_def multibase_decode_def)

end
