(* ===== verification/Cid.thy ===== *)
theory Cid
  imports Multihash Multibase
begin

text \<open>
  Content identifiers: \<open>src/multi/content_identifier.cpp\<close> and
  \<open>src/multi/content_identifier_codec.cpp\<close>, over the varint, multihash, base58 and
  multibase theories. A content type is kept at the width of the enumeration, a signed
  32-bit integer, so that the conversions to and from the 64-bit varint are those of
  the code. SHA-256 is a parameter.
\<close>

section \<open>Model\<close>

datatype Version = V0 | V1

type_synonym Code = "32 word"

definition DAG_PB :: Code where
  "DAG_PB = 0x70"

record ContentIdentifier =
  version :: Version
  content_type :: Code
  content_address :: Multihash

fun version_number :: "Version \<Rightarrow> nat" where
  "version_number V0 = 0"
| "version_number V1 = 1"

definition cid_eq :: "ContentIdentifier \<Rightarrow> ContentIdentifier \<Rightarrow> bool" where
  "cid_eq a c \<longleftrightarrow> version a = version c \<and> content_type a = content_type c
     \<and> Multihash_eq (content_address a) (content_address c)"

definition cid_less :: "ContentIdentifier \<Rightarrow> ContentIdentifier \<Rightarrow> bool" where
  "cid_less a c \<longleftrightarrow>
     version_number (version a) < version_number (version c)
     \<or> version a = version c
       \<and> (content_type a <s content_type c
          \<or> content_type a = content_type c \<and> Multihash_less (content_address a) (content_address c))"

datatype EncodeError =
    INVALID_CONTENT_TYPE
  | INVALID_HASH_TYPE
  | INVALID_HASH_LENGTH
  | VERSION_UNSUPPORTED
  | INVALID_BASE_ENCODING

datatype DecodeError = EMPTY_VERSION | EMPTY_MULTICODEC | MALFORMED_VERSION | RESERVED_VERSION | CID_TOO_SHORT

datatype 'u CidError =
    CidDecode DecodeError
  | CidMultihash MultihashError
  | CidBase58 BaseError
  | CidMultibase "'u MultibaseError"

text \<open>\<open>bytes.put(EncodeVarint\{v\})\<close>; the assertion of the encoder is an exception here.\<close>

definition put_varint :: "bytes \<Rightarrow> u64 \<Rightarrow> bytes cxx" where
  "put_varint buf v = (case encodeVarint v of None \<Rightarrow> Throws | Some e \<Rightarrow> Returns (buf @ encodeVarint_bytes e))"

definition cid_encode :: "ContentIdentifier \<Rightarrow> (EncodeError, bytes) result cxx" where
  "cid_encode cid =
     (case version cid of
        V1 \<Rightarrow>
          bind_cxx (put_varint [] 1) (\<lambda>b1.
          bind_cxx (put_varint b1 (scast (content_type cid))) (\<lambda>b2.
          Returns (Inr (b2 @ toBuffer (content_address cid)))))
      | V0 \<Rightarrow>
          Returns
            (if content_type cid \<noteq> DAG_PB then Inl INVALID_CONTENT_TYPE
             else if getType (content_address cid) \<noteq> sha256 then Inl INVALID_HASH_TYPE
             else if length (getHash (content_address cid)) \<noteq> 32 then Inl INVALID_HASH_LENGTH
             else Inr (toBuffer (content_address cid))))"

definition encodeCIDV0 :: "(bytes \<Rightarrow> ('h, bytes) result) \<Rightarrow> bytes \<Rightarrow> bytes cxx" where
  "encodeCIDV0 sha256_of byte_buffer =
     (case sha256_of byte_buffer of
        Inl e \<Rightarrow> Throws
      | Inr hash \<Rightarrow> Returns ([ucast sha256, word_of_nat (length hash)] @ hash))"

definition encodeCIDV1 :: "Code \<Rightarrow> Multihash \<Rightarrow> bytes" where
  "encodeCIDV1 type mhash = [1, ucast type] @ toBuffer mhash"

definition cid_decode :: "bytes \<Rightarrow> ('u CidError, ContentIdentifier) result" where
  "cid_decode bs =
     (if length bs = 34 \<and> bs ! 0 = 0x12 \<and> bs ! 1 = 0x20 then
        (case Multihash_createFromBytes bs of
           Inl e \<Rightarrow> Inl (CidMultihash e)
         | Inr hash \<Rightarrow> Inr \<lparr>version = V0, content_type = DAG_PB, content_address = hash\<rparr>)
      else
        (case UVarint_create bs of
           None \<Rightarrow> Inl (CidDecode EMPTY_VERSION)
         | Some version_opt \<Rightarrow>
             (let v = toUInt64 version_opt
              in if v = 1 then
                   (let version_length = calculateSize bs
                    in case UVarint_create (drop version_length bs) of
                         None \<Rightarrow> Inl (CidDecode EMPTY_MULTICODEC)
                       | Some multicodec_opt \<Rightarrow>
                           (let multicodec_length = calculateSize (drop version_length bs)
                            in case Multihash_createFromBytes (drop (version_length + multicodec_length) bs) of
                                 Inl e \<Rightarrow> Inl (CidMultihash e)
                               | Inr hash \<Rightarrow>
                                   Inr \<lparr>version = V1, content_type = ucast (toUInt64 multicodec_opt),
                                        content_address = hash\<rparr>))
                 else if v \<le> 0 then Inl (CidDecode MALFORMED_VERSION)
                 else Inl (CidDecode RESERVED_VERSION))))"

definition cid_toString ::
  "(bytes \<Rightarrow> string) \<Rightarrow> (bytes \<Rightarrow> string) \<Rightarrow> ContentIdentifier \<Rightarrow> (EncodeError, string) result cxx" where
  "cid_toString hex_upper hex_lower cid =
     bind_cxx (cid_encode cid) (\<lambda>r.
       case r of
         Inl e \<Rightarrow> Returns (Inl e)
       | Inr cid_bytes \<Rightarrow>
           (case version cid of
              V0 \<Rightarrow> Returns (Inr (encodeBase58 cid_bytes))
            | V1 \<Rightarrow> Returns (Inr (multibase_encode hex_upper hex_lower cid_bytes BASE32_LOWER))))"

definition cid_toStringOfBase ::
  "(bytes \<Rightarrow> string) \<Rightarrow> (bytes \<Rightarrow> string) \<Rightarrow> ContentIdentifier \<Rightarrow> Encoding
    \<Rightarrow> (EncodeError, string) result cxx" where
  "cid_toStringOfBase hex_upper hex_lower cid base =
     bind_cxx (cid_encode cid) (\<lambda>r.
       case r of
         Inl e \<Rightarrow> Returns (Inl e)
       | Inr cid_bytes \<Rightarrow>
           (case version cid of
              V0 \<Rightarrow> if base \<noteq> BASE58 then Returns (Inl INVALID_BASE_ENCODING)
                    else Returns (Inr (encodeBase58 cid_bytes))
            | V1 \<Rightarrow> Returns (Inr (multibase_encode hex_upper hex_lower cid_bytes base))))"

definition cid_fromString ::
  "(string \<Rightarrow> ('u, bytes) result) \<Rightarrow> string \<Rightarrow> ('u CidError, ContentIdentifier) result cxx" where
  "cid_fromString unhex str =
     (if length str < 2 then Returns (Inl (CidDecode CID_TOO_SHORT))
      else if length str = 46 \<and> take 2 str = ''Qm'' then
        (case decodeBase58 str of
           Inl e \<Rightarrow> Returns (Inl (CidBase58 e))
         | Inr hash \<Rightarrow> Returns (cid_decode hash))
      else
        bind_cxx (multibase_decode unhex str) (\<lambda>r.
          case r of
            Inl e \<Rightarrow> Returns (Inl (CidMultibase e))
          | Inr bs \<Rightarrow> Returns (cid_decode bs)))"

section \<open>Bytes\<close>

lemma put_varint_eq [simp]: "put_varint buf v = Returns (buf @ varint_bytes v)"
  using encodeVarint_bytes_eq [of v] by (auto simp: put_varint_def)

lemma varint_bytes_1: "varint_bytes 1 = [1]"
  by code_simp

lemma varint_bytes_sha256: "varint_bytes sha256 = [0x12]"
  by code_simp

lemma cid_encode_V1:
  "version cid = V1 \<Longrightarrow>
   cid_encode cid = Returns (Inr (1 # varint_bytes (scast (content_type cid)) @ toBuffer (content_address cid)))"
  by (simp add: cid_encode_def varint_bytes_1)

lemma cid_encode_V0:
  assumes "version cid = V0" and "cid_encode cid = Returns (Inr bs)" and "mh_inv (content_address cid)"
  shows "content_type cid = DAG_PB" and "mh_type (content_address cid) = sha256"
    and "length (getHash (content_address cid)) = 32"
    and "bs = mh_bytes (content_address cid)" and "bs = [0x12, 0x20] @ getHash (content_address cid)"
proof -
  show *: "content_type cid = DAG_PB" "mh_type (content_address cid) = sha256"
    "length (getHash (content_address cid)) = 32" "bs = mh_bytes (content_address cid)"
    using assms(1,2) by (auto simp: cid_encode_def toBuffer_def getType_def split: if_splits)
  have "mh_bytes (content_address cid) =
      varint_bytes (mh_type (content_address cid)) @ [word_of_nat (length (getHash (content_address cid)))]
        @ getHash (content_address cid)"
    using assms(3) by (simp add: mh_inv_def)
  then show "bs = [0x12, 0x20] @ getHash (content_address cid)" unfolding * varint_bytes_sha256 by simp
qed

lemma createFromBytes_toBuffer:
  assumes "mh_inv m" and "getHash m \<noteq> []"
  shows "Multihash_createFromBytes (mh_bytes m) = Inr m"
proof -
  have len: "length (getHash m) \<le> kMaxHashLength" using assms(1) by (simp add: mh_inv_def)
  have nz: "(word_of_nat (length (getHash m)) :: byte) \<noteq> 0"
    using unat_length_byte [OF len] assms(2) by (auto simp: word_unat_eq_iff)
  have "mh_bytes m = varint_bytes (mh_type m) @ word_of_nat (length (getHash m)) # getHash m"
    using assms(1) by (simp add: mh_inv_def)
  then have "Multihash_createFromBytes (mh_bytes m) = Multihash_create (mh_type m) (getHash m)"
    using nz unat_length_byte [OF len] by (simp add: createFromBytes_layout)
  also have "\<dots> = Inr m" using len mh_inv_Data [OF assms(1)] by (simp add: Multihash_create_def)
  finally show ?thesis .
qed

lemma ucast_scast_code: "ucast (scast c :: u64) = c" for c :: Code
  by (rule bit_word_eqI) (simp add: bit_simps)

lemma cid_decode_V1:
  assumes "mh_inv m" and "getHash m \<noteq> []"
  shows "cid_decode (1 # varint_bytes (scast c) @ mh_bytes m) =
    Inr \<lparr>version = V1, content_type = c, content_address = m\<rparr>"
proof -
  let ?rest = "varint_bytes (scast c) @ mh_bytes m"
  have "UVarint_create (1 # ?rest) = Some (UVarint_of_u64 1)" "calculateSize (1 # ?rest) = 1"
    using UVarint_create_varint [of 1 ?rest] calculateSize_varint [of 1 ?rest]
    by (simp_all add: varint_bytes_1)
  then show ?thesis
    using createFromBytes_toBuffer [OF assms]
    by (simp add: cid_decode_def UVarint_create_varint ucast_scast_code)
qed

lemma cid_decode_encode:
  assumes "cid_encode cid = Returns (Inr bs)" and "mh_inv (content_address cid)"
    and "getHash (content_address cid) \<noteq> []"
  shows "cid_decode bs = Inr cid"
proof (cases "version cid")
  case V0
  note e = cid_encode_V0 [OF V0 assms(1,2)]
  have "length bs = 34 \<and> bs ! 0 = 0x12 \<and> bs ! 1 = 0x20" using e(3,5) by simp
  then show ?thesis
    using createFromBytes_toBuffer [OF assms(2,3)] e(1,4) V0 by (simp add: cid_decode_def)
next
  case V1
  then have "bs = 1 # varint_bytes (scast (content_type cid)) @ mh_bytes (content_address cid)"
    using assms(1) cid_encode_V1 [OF V1] by (simp add: toBuffer_def)
  then show ?thesis using cid_decode_V1 [OF assms(2,3)] V1 by (cases cid) simp
qed

text \<open>
  Whatever content identifier \<open>ContentIdentifierCodec::encode\<close>
  accepts, with a well-formed multihash of at least one byte, is what \<open>decode\<close>
  returns for its bytes: the version 0 layout is never mistaken for version 1, and a
  content type survives the widening to 64 bits and the narrowing back.
\<close>

theorem cid_bytes_roundtrip:
  assumes "cid_encode cid = Returns (Inr bs)" and "mh_inv (content_address cid)"
    and "getHash (content_address cid) \<noteq> []"
  shows "cid_decode bs = Inr cid"
  by (rule cid_decode_encode [OF assms])

definition sample_cid :: "Version \<Rightarrow> ContentIdentifier" where
  "sample_cid v = \<lparr>version = v, content_type = DAG_PB, content_address = Multihash_Data sha256 (replicate 32 7)\<rparr>"

lemma sample_cid_ok:
  "mh_inv (content_address (sample_cid v))" "getHash (content_address (sample_cid v)) \<noteq> []"
  by (simp_all add: sample_cid_def mh_inv_def Multihash_Data_parts kMaxHashLength_def)

lemma sample_cid_encode:
  "cid_encode (sample_cid V0) = Returns (Inr ([0x12, 0x20] @ replicate 32 7))"
  "cid_encode (sample_cid V1) = Returns (Inr ([1, 0x70, 0x12, 0x20] @ replicate 32 7))"
  by code_simp+

theorem cid_bytes_roundtrip_witness:
  "cid_decode ([1, 0x70, 0x12, 0x20] @ replicate 32 7) = Inr (sample_cid V1)"
  using cid_bytes_roundtrip [OF sample_cid_encode(2) sample_cid_ok] .

section \<open>Text\<close>

text \<open>The base58 text of a version 0 identifier: 46 characters, the first two fixed.\<close>

lemma le_value_bytes: "le_value 256 (rev (map unat bs)) < 256 ^ length bs" for bs :: bytes
  using le_value_bound [of "rev (map unat bs)" 256] by simp

lemma V0_value:
  fixes h :: bytes
  assumes "length h = 32"
  shows "0x1220 * 256 ^ 32 \<le> le_value 256 (rev (map unat ([0x12, 0x20] @ h)))"
    and "le_value 256 (rev (map unat ([0x12, 0x20] @ h))) < 0x1221 * 256 ^ 32"
  using le_value_bytes [of h] assms by (simp_all add: le_value_append)

lemma leading_digits:
  assumes d: "\<forall>x \<in> set xs. x < 58" and nz: "xs \<noteq> [] \<longrightarrow> hd xs \<noteq> 0"
    and lo: "0x1220 * 256 ^ 32 \<le> le_value 58 (rev xs)" and hi: "le_value 58 (rev xs) < 0x1221 * 256 ^ 32"
  shows "length xs = 46" and "take 2 xs = [23, 44]"
proof -
  have "le_value 58 (rev xs) < 58 ^ length xs" using le_value_bound [of "rev xs" 58] d by simp
  moreover have "(58 :: nat) ^ 45 \<le> 0x1220 * 256 ^ 32" by simp
  ultimately have "(58 :: nat) ^ 45 < 58 ^ length xs" using lo by linarith
  then have gt: "45 < length xs" by (rule power_less_imp_less_exp [rotated]) simp
  then obtain x ys where xs: "xs = x # ys" by (cases xs) auto
  have "58 ^ length ys \<le> le_value 58 (rev xs)" using nz by (cases x) (simp_all add: xs le_value_append)
  moreover have "(0x1221 :: nat) * 256 ^ 32 \<le> 58 ^ 46" by simp
  ultimately have "(58 :: nat) ^ length ys < 58 ^ 46" using hi by linarith
  then have "length ys < 46" by (rule power_less_imp_less_exp [rotated]) simp
  with gt xs show len: "length xs = 46" by simp
  obtain y zs where ys: "ys = y # zs" using len xs by (cases ys) auto
  have v: "le_value 58 (rev xs) = le_value 58 (rev zs) + 58 ^ 44 * (y + 58 * x)"
    using len by (simp add: xs ys le_value_append algebra_simps)
  have r: "le_value 58 (rev zs) < 58 ^ 44" using le_value_bound [of "rev zs" 58] d len by (simp add: xs ys)
  have "1378 * 58 ^ 44 \<le> le_value 58 (rev xs)" "le_value 58 (rev xs) < 1379 * 58 ^ 44"
    using lo hi by simp_all
  with v r have "1378 < y + 58 * x + 1" "y + 58 * x < 1379" by simp_all
  moreover have "y < 58" using d by (simp add: xs ys)
  ultimately have "x = 23" "y = 44" by presburger+
  then show "take 2 xs = [23, 44]" by (simp add: xs ys)
qed

lemma V0_text:
  assumes "length h = 32"
  shows "length (encodeBase58 ([0x12, 0x20] @ h)) = 46" and "take 2 (encodeBase58 ([0x12, 0x20] @ h)) = ''Qm''"
proof -
  let ?bs = "[0x12, 0x20] @ h :: bytes"
  obtain xs where e: "encodeImpl58 ?bs = replicate (length (takeWhile (\<lambda>b. b = 0) ?bs)) CHR ''1'' @ map ((!) pszBase58) xs"
      "\<forall>x \<in> set xs. x < 58" "xs \<noteq> [] \<longrightarrow> hd xs \<noteq> 0"
      "le_value 58 (rev xs) = le_value 256 (rev (map unat (dropWhile (\<lambda>b. b = 0) ?bs)))"
    by (rule encodeImpl58_rest)
  have v: "le_value 58 (rev xs) = le_value 256 (rev (map unat ?bs))" using e(4) by simp
  have s: "encodeBase58 ?bs = map ((!) pszBase58) xs" using e(1) by (simp add: encodeBase58_def)
  note l = leading_digits [OF e(2,3) V0_value [OF assms, folded v]]
  show "length (encodeBase58 ?bs) = 46" using l(1) s by simp
  show "take 2 (encodeBase58 ?bs) = ''Qm''" unfolding s take_map l(2) by (simp add: pszBase58_def)
qed

lemma fromString_V0:
  assumes "length h = 32"
  shows "cid_fromString unhex (encodeBase58 ([0x12, 0x20] @ h)) = Returns (cid_decode ([0x12, 0x20] @ h))"
  using V0_text [OF assms] by (simp add: cid_fromString_def decode_encodeBase58)

lemma fromString_V1:
  assumes "base_codec (codecs_encode hex_upper hex_lower e) (codecs_decode unhex e)" and "bs \<noteq> []"
  shows "cid_fromString unhex (multibase_encode hex_upper hex_lower bs e) = Returns (cid_decode bs)"
proof -
  let ?s = "multibase_encode hex_upper hex_lower bs e"
  have len: "\<not> length ?s < 2" using base_codec.enc_nonempty [OF assms] assms(2)
    by (cases "codecs_encode hex_upper hex_lower e bs") (auto simp: multibase_encode_def)
  have "take 2 ?s \<noteq> ''Qm''" using assms(2) by (cases e) (simp_all add: multibase_encode_def)
  with len multibase_decode_prefixed [OF assms] show ?thesis by (simp add: cid_fromString_def)
qed

lemma fromString_toStringOfBase:
  assumes "cid_toStringOfBase hex_upper hex_lower cid e = Returns (Inr s)"
    and "mh_inv (content_address cid)" and "getHash (content_address cid) \<noteq> []"
    and "base_codec (codecs_encode hex_upper hex_lower e) (codecs_decode unhex e)"
  shows "cid_fromString unhex s = Returns (Inr cid)"
proof -
  obtain bs where bs: "cid_encode cid = Returns (Inr bs)"
    using assms(1) by (auto simp: cid_toStringOfBase_def bind_cxx_def split: cxx.splits sum.splits)
  note dec = cid_decode_encode [OF bs assms(2,3)]
  show ?thesis
  proof (cases "version cid")
    case V0
    have "s = encodeBase58 bs" using assms(1) bs V0 by (auto simp: cid_toStringOfBase_def split: if_splits)
    moreover note e = cid_encode_V0 [OF V0 bs assms(2)]
    ultimately show ?thesis using fromString_V0 [OF e(3)] dec e(5) by metis
  next
    case V1
    have "s = multibase_encode hex_upper hex_lower bs e" using assms(1) bs V1 by (simp add: cid_toStringOfBase_def)
    moreover have "bs \<noteq> []" using bs cid_encode_V1 [OF V1] by auto
    ultimately show ?thesis using fromString_V1 [OF assms(4)] dec by simp
  qed
qed

lemma toString_toStringOfBase:
  "cid_toString hex_upper hex_lower cid =
   cid_toStringOfBase hex_upper hex_lower cid (case version cid of V0 \<Rightarrow> BASE58 | V1 \<Rightarrow> BASE32_LOWER)"
  by (cases "version cid"; cases "cid_encode cid")
    (simp_all add: cid_toString_def cid_toStringOfBase_def split: sum.splits)

text \<open>
  The text of a content identifier, base58 for version 0 and
  prefixed base32 for version 1, is read back by \<open>fromString\<close> as the same identifier.
  For version 0 this rests on every such text having 46 characters and starting with
  \<open>Qm\<close>, which is how \<open>fromString\<close> recognises it.
\<close>

theorem cid_string_roundtrip:
  assumes "cid_toString hex_upper hex_lower cid = Returns (Inr s)"
    and "mh_inv (content_address cid)" and "getHash (content_address cid) \<noteq> []"
  shows "cid_fromString unhex s = Returns (Inr cid)"
proof (rule fromString_toStringOfBase [OF assms(1) [unfolded toString_toStringOfBase] assms(2,3)])
  show "base_codec (codecs_encode hex_upper hex_lower (case version cid of V0 \<Rightarrow> BASE58 | V1 \<Rightarrow> BASE32_LOWER))
      (codecs_decode unhex (case version cid of V0 \<Rightarrow> BASE58 | V1 \<Rightarrow> BASE32_LOWER))"
    using codecs_base58_lower32 [of hex_upper hex_lower unhex] by (cases "version cid") simp_all
qed

theorem cid_string_roundtrip_witness:
  "cid_fromString unhex_digits (encodeBase58 ([0x12, 0x20] @ replicate 32 7)) = Returns (Inr (sample_cid V0))"
proof (rule cid_string_roundtrip [OF _ sample_cid_ok])
  show "cid_toString (hex_digits upper16) (hex_digits lower16) (sample_cid V0)
      = Returns (Inr (encodeBase58 ([0x12, 0x20] @ replicate 32 7)))"
    unfolding cid_toString_def sample_cid_encode by (simp add: sample_cid_def)
qed

section \<open>The direct encoders\<close>

text \<open>
  \<open>encodeCIDV0\<close> writes what \<open>decode\<close> reads. \<open>encodeCIDV1\<close> writes the content type in
  one byte, which is its varint only below 128.
\<close>

lemma encodeCIDV0_decodes:
  assumes "sha256_of buf = Inr h" and "length h = 32"
  shows "\<exists>bs. encodeCIDV0 sha256_of buf = Returns bs \<and>
    cid_decode bs = Inr \<lparr>version = V0, content_type = DAG_PB, content_address = Multihash_Data sha256 h\<rparr>"
proof -
  let ?m = "Multihash_Data sha256 h"
  have m: "mh_inv ?m" "getHash ?m \<noteq> []" using assms(2) by (auto simp: mh_inv_def Multihash_Data_parts kMaxHashLength_def)
  have b: "mh_bytes ?m = [0x12, 0x20] @ h" using assms(2) by (simp add: Multihash_Data_parts varint_bytes_sha256)
  have "encodeCIDV0 sha256_of buf = Returns (mh_bytes ?m)"
    unfolding b using assms by (simp add: encodeCIDV0_def sha256_def)
  moreover have "cid_decode (mh_bytes ?m) = Inr \<lparr>version = V0, content_type = DAG_PB, content_address = ?m\<rparr>"
    using createFromBytes_toBuffer [OF m] assms(2) by (simp add: cid_decode_def b)
  ultimately show ?thesis by blast
qed

lemma encodeCIDV1_small:
  assumes "unat c < 128" and "mh_inv m" and "getHash m \<noteq> []"
  shows "cid_decode (encodeCIDV1 c m) = Inr \<lparr>version = V1, content_type = c, content_address = m\<rparr>"
proof -
  have s: "scast c = (ucast c :: u64)"
  proof (rule bit_word_eqI)
    fix n
    have "take_bit 7 c = c"
      using assms(1) by (simp add: word_eq_iff_unsigned [where ?'a = nat] unsigned_take_bit_eq take_bit_nat_eq_self)
    moreover have "\<not> bit (take_bit 7 c) 31" by (simp add: bit_simps)
    ultimately have "\<not> bit c 31" by simp
    then show "bit (scast c :: u64) n = bit (ucast c :: u64) n" if "n < LENGTH(64)"
      using that bit_imp_le_length [of c n] by (cases "n \<le> 31") (auto simp: bit_simps min_def)
  qed
  have u: "unat (ucast c :: u64) = unat c" "unat (ucast c :: byte) = unat c" using assms(1) by (simp_all add: unsigned_ucast_eq take_bit_nat_eq_self)
  have "varint_bytes (scast c) = [ucast (ucast c AND 0x7f :: u64)]"
    unfolding s by (rule varint_bytes_last) (simp add: drop_bit_7_eq_0_iff u assms(1))
  also have "ucast (ucast c AND 0x7f :: u64) = (ucast c :: byte)"
    using assms(1) u by (simp add: word_eq_iff_unsigned [where ?'a = nat] word_arith ucast_and_127)
  finally have "varint_bytes (scast c) = [ucast c]" .
  then have "encodeCIDV1 c m = 1 # varint_bytes (scast c) @ mh_bytes m" by (simp add: encodeCIDV1_def toBuffer_def)
  then show ?thesis using cid_decode_V1 [OF assms(2,3)] by simp
qed

lemma encodeCIDV1_filecoin:
  "(cid_decode (encodeCIDV1 0xf101 (Multihash_Data sha256 [7])) :: (unit CidError, ContentIdentifier) result)
     = Inr \<lparr>version = V1, content_type = 0x01, content_address = Multihash_Data sha256 [7]\<rparr>"
  by code_simp

end
