(* ===== verification/Multiaddr_Codec.thy ===== *)
theory Multiaddr_Codec
  imports Varint Multibase Byteutil
begin

text \<open>
  The two representations of a multiaddress and the conversions between them:
  \<open>include/libp2p/multi/multiaddress_protocol_list.hpp\<close> and
  \<open>src/multi/converters/\<close>. The IP address parser and printer of boost, the \<open>%02X\<close>
  formatting of fmt and the hexadecimal parser of qtils are fields of a record of library functions,
  an argument of the conversions.
\<close>

section \<open>Protocols\<close>

datatype Code =
    IP4 | TCP | UDP | DCCP | IP6
  | IP6_ZONE | DNS | DNS4 | DNS6 | DNS_ADDR
  | SCTP | UDT | UTP | UNIX | P2P
  | ONION | ONION3 | GARLIC64 | QUIC | QUIC_V1
  | HTTP | HTTPS | WS | WSS | P2P_WEBSOCKET_STAR
  | P2P_STARDUST | P2P_WEBRTC_STAR | P2P_WEBRTC_DIRECT | P2P_CIRCUIT | X_PARITY_WS
  | X_PARITY_WSS | DUMMY_PROTO_1 | DUMMY_PROTO_2 | DUMMY_PROTO_3 | DUMMY_PROTO_4

fun code_num :: "Code \<Rightarrow> u64" where
  "code_num IP4 = 4"
| "code_num TCP = 6"
| "code_num UDP = 273"
| "code_num DCCP = 33"
| "code_num IP6 = 41"
| "code_num IP6_ZONE = 42"
| "code_num DNS = 53"
| "code_num DNS4 = 54"
| "code_num DNS6 = 55"
| "code_num DNS_ADDR = 56"
| "code_num SCTP = 132"
| "code_num UDT = 301"
| "code_num UTP = 302"
| "code_num UNIX = 400"
| "code_num P2P = 421"
| "code_num ONION = 444"
| "code_num ONION3 = 445"
| "code_num GARLIC64 = 446"
| "code_num QUIC = 460"
| "code_num QUIC_V1 = 461"
| "code_num HTTP = 480"
| "code_num HTTPS = 443"
| "code_num WS = 477"
| "code_num WSS = 478"
| "code_num P2P_WEBSOCKET_STAR = 479"
| "code_num P2P_STARDUST = 277"
| "code_num P2P_WEBRTC_STAR = 275"
| "code_num P2P_WEBRTC_DIRECT = 276"
| "code_num P2P_CIRCUIT = 290"
| "code_num X_PARITY_WS = 4770"
| "code_num X_PARITY_WSS = 4780"
| "code_num DUMMY_PROTO_1 = 0x3DEAD1"
| "code_num DUMMY_PROTO_2 = 0x3DEAD2"
| "code_num DUMMY_PROTO_3 = 0x3DEAD3"
| "code_num DUMMY_PROTO_4 = 0x3DEAD4"

record Protocol =
  p_code :: Code
  p_size :: int
  p_name :: string

definition kVarLen :: int where
  "kVarLen = - 1"

definition protocols :: "Protocol list" where
  "protocols =
     [\<lparr>p_code = IP4, p_size = 32, p_name = ''ip4''\<rparr>,
      \<lparr>p_code = TCP, p_size = 16, p_name = ''tcp''\<rparr>,
      \<lparr>p_code = UDP, p_size = 16, p_name = ''udp''\<rparr>,
      \<lparr>p_code = DCCP, p_size = 16, p_name = ''dccp''\<rparr>,
      \<lparr>p_code = IP6, p_size = 128, p_name = ''ip6''\<rparr>,
      \<lparr>p_code = IP6_ZONE, p_size = kVarLen, p_name = ''ip6zone''\<rparr>,
      \<lparr>p_code = DNS, p_size = kVarLen, p_name = ''dns''\<rparr>,
      \<lparr>p_code = DNS4, p_size = kVarLen, p_name = ''dns4''\<rparr>,
      \<lparr>p_code = DNS6, p_size = kVarLen, p_name = ''dns6''\<rparr>,
      \<lparr>p_code = DNS_ADDR, p_size = kVarLen, p_name = ''dnsaddr''\<rparr>,
      \<lparr>p_code = SCTP, p_size = 16, p_name = ''sctp''\<rparr>,
      \<lparr>p_code = UDT, p_size = 0, p_name = ''udt''\<rparr>,
      \<lparr>p_code = UTP, p_size = 0, p_name = ''utp''\<rparr>,
      \<lparr>p_code = UNIX, p_size = kVarLen, p_name = ''unix''\<rparr>,
      \<lparr>p_code = P2P, p_size = kVarLen, p_name = ''p2p''\<rparr>,
      \<lparr>p_code = ONION, p_size = 96, p_name = ''onion''\<rparr>,
      \<lparr>p_code = ONION3, p_size = 296, p_name = ''onion3''\<rparr>,
      \<lparr>p_code = GARLIC64, p_size = kVarLen, p_name = ''garlic64''\<rparr>,
      \<lparr>p_code = QUIC, p_size = 0, p_name = ''quic''\<rparr>,
      \<lparr>p_code = QUIC_V1, p_size = 0, p_name = ''quic-v1''\<rparr>,
      \<lparr>p_code = HTTP, p_size = 0, p_name = ''http''\<rparr>,
      \<lparr>p_code = HTTPS, p_size = 0, p_name = ''https''\<rparr>,
      \<lparr>p_code = WS, p_size = 0, p_name = ''ws''\<rparr>,
      \<lparr>p_code = WSS, p_size = 0, p_name = ''wss''\<rparr>,
      \<lparr>p_code = P2P_WEBSOCKET_STAR, p_size = 0, p_name = ''p2p-websocket-star''\<rparr>,
      \<lparr>p_code = P2P_STARDUST, p_size = 0, p_name = ''p2p-stardust''\<rparr>,
      \<lparr>p_code = P2P_WEBRTC_STAR, p_size = 0, p_name = ''p2p-webrtc-star''\<rparr>,
      \<lparr>p_code = P2P_WEBRTC_DIRECT, p_size = 0, p_name = ''p2p-webrtc-direct''\<rparr>,
      \<lparr>p_code = P2P_CIRCUIT, p_size = 0, p_name = ''p2p-circuit''\<rparr>,
      \<lparr>p_code = X_PARITY_WS, p_size = kVarLen, p_name = ''x-parity-ws''\<rparr>,
      \<lparr>p_code = X_PARITY_WSS, p_size = kVarLen, p_name = ''x-parity-wss''\<rparr>,
      \<lparr>p_code = DUMMY_PROTO_1, p_size = 0, p_name = ''_dummy_proto_1''\<rparr>,
      \<lparr>p_code = DUMMY_PROTO_2, p_size = 0, p_name = ''_dummy_proto_2''\<rparr>,
      \<lparr>p_code = DUMMY_PROTO_3, p_size = kVarLen, p_name = ''_dummy_proto_3''\<rparr>,
      \<lparr>p_code = DUMMY_PROTO_4, p_size = kVarLen, p_name = ''_dummy_proto_4''\<rparr>]"

text \<open>The two overloads of \<open>ProtocolList::get\<close>.\<close>

definition get_by_name :: "string \<Rightarrow> Protocol option" where
  "get_by_name name =
     (let name' = (if name = ''ipfs'' then ''p2p'' else name)
      in find (\<lambda>protocol. p_name protocol = name') protocols)"

definition get_by_code :: "u64 \<Rightarrow> Protocol option" where
  "get_by_code code = find (\<lambda>protocol. code_num (p_code protocol) = code) protocols"

section \<open>Values\<close>

datatype ConversionError =
    ADDRESS_DOES_NOT_BEGIN_WITH_SLASH
  | EMPTY_PROTOCOL
  | NO_SUCH_PROTOCOL
  | NOT_IMPLEMENTED
  | EMPTY_ADDRESS
  | INVALID_ADDRESS

record address_lib =
  make_address_v4 :: "string \<Rightarrow> bytes option"
  v4_to_string :: "bytes \<Rightarrow> string"
  make_address_v6 :: "string \<Rightarrow> bytes option"
  v6_to_string :: "bytes \<Rightarrow> string"
  fmt_02X :: "char \<Rightarrow> string"
  lib_unhex :: "string \<Rightarrow> (unit, bytes) result"

definition percent_mask :: "u32 list" where
  "percent_mask = [0xffffffff, 0xd000802d, 0x00000000, 0xa8000001]"

fun percentEncode :: "address_lib \<Rightarrow> string \<Rightarrow> string" where
  "percentEncode lib [] = []"
| "percentEncode lib (c # str) =
     (let n = of_char c :: nat
      in if n > 0x7f \<or> percent_mask ! (n div 32) AND push_bit (n mod 32) 1 \<noteq> 0
         then CHR ''%'' # fmt_02X lib c @ percentEncode lib str
         else c # percentEncode lib str)"

definition percent_digit :: "char \<Rightarrow> nat option" where
  "percent_digit ch =
     (let c = of_char ch :: nat
      in if of_char CHR ''0'' \<le> c \<and> c \<le> of_char CHR ''9'' then Some (c - of_char CHR ''0'')
         else if of_char CHR ''A'' \<le> c \<and> c \<le> of_char CHR ''F'' then Some (c - of_char CHR ''A'' + 10)
         else if of_char CHR ''a'' \<le> c \<and> c \<le> of_char CHR ''f'' then Some (c - of_char CHR ''a'' + 10)
         else None)"

fun percentDecode :: "string \<Rightarrow> string" where
  "percentDecode [] = []"
| "percentDecode [c] = [c]"
| "percentDecode [c, d] = [c, d]"
| "percentDecode (c # d # e # str) =
     (if c = CHR ''%'' then
        (case (percent_digit d, percent_digit e) of
           (Some x1, Some x2) \<Rightarrow> char_of (x1 * 16 + x2) # percentDecode str
         | _ \<Rightarrow> c # percentDecode (d # e # str))
      else c # percentDecode (d # e # str))"

definition isdigit :: "char \<Rightarrow> bool" where
  "isdigit c \<longleftrightarrow> (let n = of_char c :: nat in 48 \<le> n \<and> n \<le> 57)"

text \<open>
  \<open>std::stoi\<close> of a string of digits: it throws, which the converters catch, for the
  empty string and beyond the range of \<open>int\<close>.
\<close>

definition stoi :: "string \<Rightarrow> int option" where
  "stoi s =
     (let v = foldl (\<lambda>v c. v * 10 + (of_char c - 48)) 0 s :: int
      in if s = [] \<or> v > 2147483647 then None else Some v)"

definition port_to_bytes :: "string \<Rightarrow> (ConversionError, bytes) result" where
  "port_to_bytes addr =
     (if \<not> list_all isdigit addr then Inl INVALID_ADDRESS
      else
        (case stoi addr of
           None \<Rightarrow> Inl INVALID_ADDRESS
         | Some port_int \<Rightarrow>
             if port_int \<ge> 0 \<and> port_int \<le> 65535 then Inr (putUint16BE [] (word_of_int port_int))
             else Inl INVALID_ADDRESS))"

definition TcpConverter_addressToBytes :: "string \<Rightarrow> (ConversionError, bytes) result" where
  "TcpConverter_addressToBytes addr = port_to_bytes addr"

definition UdpConverter_addressToBytes :: "string \<Rightarrow> (ConversionError, bytes) result" where
  "UdpConverter_addressToBytes addr = port_to_bytes addr"

definition DnsConverter_addressToBytes :: "string \<Rightarrow> (ConversionError, bytes) result" where
  "DnsConverter_addressToBytes addr =
     Inr (toBytes (UVarint_of_u64 (word_of_nat (length addr))) @ map byte_of_char addr)"

definition IPv4Converter_addressToBytes :: "address_lib \<Rightarrow> string \<Rightarrow> (ConversionError, bytes) result" where
  "IPv4Converter_addressToBytes lib addr =
     (case make_address_v4 lib addr of None \<Rightarrow> Inl INVALID_ADDRESS | Some ip_bytes \<Rightarrow> Inr ip_bytes)"

definition IPv6Converter_addressToBytes :: "address_lib \<Rightarrow> string \<Rightarrow> (ConversionError, bytes) result" where
  "IPv6Converter_addressToBytes lib addr =
     (case make_address_v6 lib addr of None \<Rightarrow> Inl INVALID_ADDRESS | Some ip_bytes \<Rightarrow> Inr ip_bytes)"

definition IpfsConverter_addressToBytes ::
  "address_lib \<Rightarrow> string \<Rightarrow> (ConversionError, bytes) result cxx" where
  "IpfsConverter_addressToBytes lib addr =
     bind_cxx (multibase_decode (lib_unhex lib) (encoding_char BASE58 # addr)) (\<lambda>r.
       case r of
         Inl e \<Rightarrow> Returns (Inl INVALID_ADDRESS)
       | Inr decoded \<Rightarrow>
           Returns (Inr (toBytes (UVarint_of_u64 (word_of_nat (length decoded))) @ decoded)))"

fun addressToBytes :: "address_lib \<Rightarrow> Code \<Rightarrow> string \<Rightarrow> (ConversionError, bytes) result cxx" where
  "addressToBytes lib IP4 addr = Returns (IPv4Converter_addressToBytes lib addr)"
| "addressToBytes lib IP6 addr = Returns (IPv6Converter_addressToBytes lib addr)"
| "addressToBytes lib TCP addr = Returns (TcpConverter_addressToBytes addr)"
| "addressToBytes lib UDP addr = Returns (UdpConverter_addressToBytes addr)"
| "addressToBytes lib P2P addr = IpfsConverter_addressToBytes lib addr"
| "addressToBytes lib DNS addr = Returns (DnsConverter_addressToBytes addr)"
| "addressToBytes lib DNS4 addr = Returns (DnsConverter_addressToBytes addr)"
| "addressToBytes lib DNS6 addr = Returns (DnsConverter_addressToBytes addr)"
| "addressToBytes lib DNS_ADDR addr = Returns (DnsConverter_addressToBytes addr)"
| "addressToBytes lib UNIX addr = Returns (DnsConverter_addressToBytes addr)"
| "addressToBytes lib X_PARITY_WS addr = Returns (DnsConverter_addressToBytes (percentDecode addr))"
| "addressToBytes lib X_PARITY_WSS addr = Returns (DnsConverter_addressToBytes (percentDecode addr))"
| "addressToBytes lib IP6_ZONE addr = Returns (Inl NOT_IMPLEMENTED)"
| "addressToBytes lib ONION3 addr = Returns (Inl NOT_IMPLEMENTED)"
| "addressToBytes lib GARLIC64 addr = Returns (Inl NOT_IMPLEMENTED)"
| "addressToBytes lib QUIC addr = Returns (Inl NOT_IMPLEMENTED)"
| "addressToBytes lib WS addr = Returns (Inl NOT_IMPLEMENTED)"
| "addressToBytes lib WSS addr = Returns (Inl NOT_IMPLEMENTED)"
| "addressToBytes lib P2P_WEBSOCKET_STAR addr = Returns (Inl NOT_IMPLEMENTED)"
| "addressToBytes lib P2P_STARDUST addr = Returns (Inl NOT_IMPLEMENTED)"
| "addressToBytes lib P2P_WEBRTC_DIRECT addr = Returns (Inl NOT_IMPLEMENTED)"
| "addressToBytes lib P2P_CIRCUIT addr = Returns (Inl NOT_IMPLEMENTED)"
| "addressToBytes lib _ addr = Returns (Inl NO_SUCH_PROTOCOL)"

section \<open>From text to bytes\<close>

text \<open>\<open>boost::algorithm::split\<close> at every slash, empty tokens included.\<close>

fun split_slash :: "string \<Rightarrow> string list" where
  "split_slash [] = [[]]"
| "split_slash (c # cs) =
     (if c = CHR ''/'' then [] # split_slash cs
      else (case split_slash cs of t # ts \<Rightarrow> (c # t) # ts | [] \<Rightarrow> [[c]]))"

text \<open>
  The loop over the tokens: \<open>protx\<close> is set while an address is expected
  (\<open>WordType::ADDRESS\<close>).
\<close>

fun tokens_to_bytes ::
  "address_lib \<Rightarrow> Protocol option \<Rightarrow> bytes \<Rightarrow> string list \<Rightarrow> (ConversionError, bytes) result cxx" where
  "tokens_to_bytes lib protx processed [] =
     (case protx of None \<Rightarrow> Returns (Inr processed) | Some p \<Rightarrow> Returns (Inl EMPTY_ADDRESS))"
| "tokens_to_bytes lib None processed (word # tokens) =
     (if word = [] then Returns (Inl EMPTY_PROTOCOL)
      else
        (case get_by_name word of
           None \<Rightarrow> Returns (Inl NO_SUCH_PROTOCOL)
         | Some p \<Rightarrow>
             (let processed' = processed @ toBytes (UVarint_of_u64 (code_num (p_code p)))
              in tokens_to_bytes lib (if p_size p \<noteq> 0 then Some p else None) processed' tokens)))"
| "tokens_to_bytes lib (Some p) processed (word # tokens) =
     (if word = [] then Returns (Inl EMPTY_ADDRESS)
      else
        (case addressToBytes lib (p_code p) word of
           Throws \<Rightarrow> Throws
         | Returns (Inl e) \<Rightarrow> Returns (Inl e)
         | Returns (Inr bs) \<Rightarrow> tokens_to_bytes lib None (processed @ bs) tokens))"

definition multiaddrToBytes :: "address_lib \<Rightarrow> string \<Rightarrow> (ConversionError, bytes) result cxx" where
  "multiaddrToBytes lib str =
     (if str = [] \<or> hd str \<noteq> CHR ''/'' then Returns (Inl ADDRESS_DOES_NOT_BEGIN_WITH_SLASH)
      else
        (let str1 = tl str
         in if str1 = [] then Returns (Inl EMPTY_PROTOCOL)
            else
              (let str2 = (if last str1 = CHR ''/'' then butlast str1 else str1)
               in tokens_to_bytes lib None [] (split_slash str2))))"

section \<open>From bytes to text\<close>

text \<open>The local functions \<open>read\<close>, \<open>uvar\<close> and \<open>read_uvar\<close>, returning the bytes left.\<close>

definition ma_read :: "bytes \<Rightarrow> nat \<Rightarrow> (ConversionError, bytes \<times> bytes) result" where
  "ma_read bs n = (if n > length bs then Inl INVALID_ADDRESS else Inr (take n bs, drop n bs))"

definition ma_uvar :: "bytes \<Rightarrow> (ConversionError, u64 \<times> bytes) result" where
  "ma_uvar bs =
     (case UVarint_create bs of
        None \<Rightarrow> Inl INVALID_ADDRESS
      | Some var \<Rightarrow> Inr (toUInt64 var, drop (uvarint_size var) bs))"

definition ma_read_uvar :: "bytes \<Rightarrow> (ConversionError, bytes \<times> bytes) result" where
  "ma_read_uvar bs = bind_result (ma_uvar bs) (\<lambda>(n, bs'). ma_read bs' (unat n))"

definition isalnum :: "char \<Rightarrow> bool" where
  "isalnum c \<longleftrightarrow> isalpha c \<or> isdigit c"

definition dns_char :: "char \<Rightarrow> bool" where
  "dns_char c \<longleftrightarrow> isalnum c \<or> c = CHR ''-'' \<or> c = CHR ''.''"

text \<open>\<open>std::to_string\<close> of an unsigned number.\<close>

fun to_string :: "nat \<Rightarrow> string" where
  "to_string n =
     (if n < 10 then [char_of (48 + n)] else to_string (n div 10) @ [char_of (48 + n mod 10)])"

declare to_string.simps [simp del]

definition read_dns_name :: "bytes \<Rightarrow> (ConversionError, string \<times> bytes) result" where
  "read_dns_name bs =
     bind_result (ma_read_uvar bs) (\<lambda>(data, bs').
       let name = map char_of_byte data
       in if list_all dns_char name then Inr (name, bs') else Inl INVALID_ADDRESS)"

definition read_port :: "bytes \<Rightarrow> (ConversionError, string \<times> bytes) result" where
  "read_port bs =
     bind_result (ma_read bs 2) (\<lambda>(data, bs'). Inr (to_string (load_big data), bs'))"

text \<open>The \<open>switch\<close> on the protocol: the text of its value, and the bytes left.\<close>

fun value_to_string :: "address_lib \<Rightarrow> Code \<Rightarrow> bytes \<Rightarrow> (ConversionError, string \<times> bytes) result" where
  "value_to_string lib P2P bs =
     bind_result (ma_read_uvar bs) (\<lambda>(data, bs'). Inr (encodeBase58 data, bs'))"
| "value_to_string lib DNS bs = read_dns_name bs"
| "value_to_string lib DNS4 bs = read_dns_name bs"
| "value_to_string lib DNS6 bs = read_dns_name bs"
| "value_to_string lib DNS_ADDR bs = read_dns_name bs"
| "value_to_string lib X_PARITY_WS bs =
     bind_result (ma_read_uvar bs) (\<lambda>(data, bs'). Inr (percentEncode lib (map char_of_byte data), bs'))"
| "value_to_string lib X_PARITY_WSS bs =
     bind_result (ma_read_uvar bs) (\<lambda>(data, bs'). Inr (percentEncode lib (map char_of_byte data), bs'))"
| "value_to_string lib IP4 bs =
     bind_result (ma_read bs 4) (\<lambda>(data, bs'). Inr (v4_to_string lib data, bs'))"
| "value_to_string lib IP6 bs =
     bind_result (ma_read bs 16) (\<lambda>(data, bs'). Inr (v6_to_string lib data, bs'))"
| "value_to_string lib TCP bs = read_port bs"
| "value_to_string lib UDP bs = read_port bs"
| "value_to_string lib _ bs = Inl NOT_IMPLEMENTED"

lemma ma_uvar_shorter: "ma_uvar bs = Inr (n, bs') \<Longrightarrow> bs \<noteq> [] \<Longrightarrow> length bs' < length bs"
  by (auto simp: ma_uvar_def UVarint_create_def uvarint_size_def Let_def split: option.splits if_splits)

lemma ma_read_shorter: "ma_read bs n = Inr (data, bs') \<Longrightarrow> length bs' \<le> length bs"
  by (auto simp: ma_read_def split: if_splits)

lemma ma_read_uvar_shorter: "ma_read_uvar bs = Inr (data, bs') \<Longrightarrow> length bs' \<le> length bs"
  by (auto simp: ma_read_uvar_def bind_result_eq_Inr ma_uvar_def dest!: ma_read_shorter split: option.splits)

lemma value_to_string_shorter: "value_to_string lib c bs = Inr (s, bs') \<Longrightarrow> length bs' \<le> length bs"
  by (cases c)
    (auto simp: bind_result_eq_Inr read_dns_name_def read_port_def Let_def
      dest!: ma_read_uvar_shorter ma_read_shorter split: if_splits)

function bytes_to_string :: "address_lib \<Rightarrow> string \<Rightarrow> bytes \<Rightarrow> (ConversionError, string) result" where
  "bytes_to_string lib results bs =
     (if bs = [] then Inr results
      else
        (case ma_uvar bs of
           Inl e \<Rightarrow> Inl e
         | Inr (protocol_num, bs1) \<Rightarrow>
             (case get_by_code protocol_num of
                None \<Rightarrow> Inl NO_SUCH_PROTOCOL
              | Some protocol \<Rightarrow>
                  (let results' = results @ ''/'' @ p_name protocol
                   in if p_size protocol = 0 then bytes_to_string lib results' bs1
                      else
                        (case value_to_string lib (p_code protocol) bs1 of
                           Inl e \<Rightarrow> Inl e
                         | Inr (value, bs2) \<Rightarrow> bytes_to_string lib (results' @ ''/'' @ value) bs2)))))"
  by pat_completeness auto
termination
  by (relation "measure (\<lambda>(lib, results, bs). length bs)")
    (auto dest!: ma_uvar_shorter value_to_string_shorter)

declare bytes_to_string.simps [simp del]

definition bytesToMultiaddrString :: "address_lib \<Rightarrow> bytes \<Rightarrow> (ConversionError, string) result" where
  "bytesToMultiaddrString lib bs = bytes_to_string lib [] bs"

section \<open>Specification: an address as a list of parts\<close>

text \<open>
  A multiaddress means a list of protocols, each with a value when the protocol has
  one. The text and the bytes are two encodings of that list. A value is canonical
  when it is the text its bytes are printed as.
\<close>

type_synonym part = "Protocol \<times> string"

fun value_ok :: "address_lib \<Rightarrow> Code \<Rightarrow> string \<Rightarrow> bool" where
  "value_ok lib IP4 v = (case make_address_v4 lib v of None \<Rightarrow> False | Some b \<Rightarrow> length b = 4 \<and> v4_to_string lib b = v)"
| "value_ok lib IP6 v = (case make_address_v6 lib v of None \<Rightarrow> False | Some b \<Rightarrow> length b = 16 \<and> v6_to_string lib b = v)"
| "value_ok lib TCP v = (list_all isdigit v \<and> (\<exists>n \<in> {0..65535}. stoi v = Some (int n) \<and> to_string n = v))"
| "value_ok lib UDP v = (list_all isdigit v \<and> (\<exists>n \<in> {0..65535}. stoi v = Some (int n) \<and> to_string n = v))"
| "value_ok lib P2P v = (case decodeBase58 v of Inl e \<Rightarrow> False | Inr b \<Rightarrow> length b < 2 ^ 64 \<and> encodeBase58 b = v)"
| "value_ok lib DNS v = (length v < 2 ^ 64 \<and> list_all dns_char v)"
| "value_ok lib DNS4 v = (length v < 2 ^ 64 \<and> list_all dns_char v)"
| "value_ok lib DNS6 v = (length v < 2 ^ 64 \<and> list_all dns_char v)"
| "value_ok lib DNS_ADDR v = (length v < 2 ^ 64 \<and> list_all dns_char v)"
| "value_ok lib X_PARITY_WS v = (length (percentDecode v) < 2 ^ 64 \<and> percentEncode lib (percentDecode v) = v)"
| "value_ok lib X_PARITY_WSS v = (length (percentDecode v) < 2 ^ 64 \<and> percentEncode lib (percentDecode v) = v)"
| "value_ok lib _ v = False"

definition part_ok :: "address_lib \<Rightarrow> part \<Rightarrow> bool" where
  "part_ok lib part =
     (case part of (p, v) \<Rightarrow>
        p \<in> set protocols \<and>
        (if p_size p = 0 then v = []
         else v \<noteq> [] \<and> CHR ''/'' \<notin> set v \<and> value_ok lib (p_code p) v))"

definition part_tokens :: "part \<Rightarrow> string list" where
  "part_tokens part = (case part of (p, v) \<Rightarrow> p_name p # (if p_size p = 0 then [] else [v]))"

definition ma_text :: "part list \<Rightarrow> string" where
  "ma_text ps = concat (map (\<lambda>t. CHR ''/'' # t) (concat (map part_tokens ps)))"

definition value_bytes :: "address_lib \<Rightarrow> Code \<Rightarrow> string \<Rightarrow> bytes" where
  "value_bytes lib c v = (case addressToBytes lib c v of Returns (Inr bs) \<Rightarrow> bs | _ \<Rightarrow> [])"

definition part_bytes :: "address_lib \<Rightarrow> part \<Rightarrow> bytes" where
  "part_bytes lib part =
     (case part of (p, v) \<Rightarrow>
        varint_bytes (code_num (p_code p)) @ (if p_size p = 0 then [] else value_bytes lib (p_code p) v))"

definition ma_wire :: "address_lib \<Rightarrow> part list \<Rightarrow> bytes" where
  "ma_wire lib ps = concat (map (part_bytes lib) ps)"

lemma ma_text_append: "ma_text (ps @ qs) = ma_text ps @ ma_text qs"
  by (simp add: ma_text_def)

lemma ma_wire_append: "ma_wire lib (ps @ qs) = ma_wire lib ps @ ma_wire lib qs"
  by (simp add: ma_wire_def)

section \<open>The protocol table\<close>

lemma protocols_table:
  "p \<in> set protocols \<Longrightarrow> get_by_name (p_name p) = Some p"
  "p \<in> set protocols \<Longrightarrow> get_by_code (code_num (p_code p)) = Some p"
  "p \<in> set protocols \<Longrightarrow> p_name p \<noteq> [] \<and> CHR ''/'' \<notin> set (p_name p)"
proof -
  have n: "list_all (\<lambda>p. get_by_name (p_name p) = Some p) protocols" by code_simp
  have c: "list_all (\<lambda>p. get_by_code (code_num (p_code p)) = Some p) protocols" by code_simp
  have s: "list_all (\<lambda>p. p_name p \<noteq> [] \<and> CHR ''/'' \<notin> set (p_name p)) protocols" by code_simp
  show "p \<in> set protocols \<Longrightarrow> get_by_name (p_name p) = Some p"
    "p \<in> set protocols \<Longrightarrow> get_by_code (code_num (p_code p)) = Some p"
    "p \<in> set protocols \<Longrightarrow> p_name p \<noteq> [] \<and> CHR ''/'' \<notin> set (p_name p)"
    using n c s by (simp_all add: list_all_iff)
qed

section \<open>Values\<close>

lemma toBytes_of_u64 [simp]: "toBytes (UVarint_of_u64 n) = varint_bytes n"
  by (simp add: toBytes_def UVarint_of_u64_def)

lemma ma_uvar_varint [simp]: "ma_uvar (varint_bytes n @ rest) = Inr (n, rest)"
  by (simp add: ma_uvar_def UVarint_create_varint uvarint_size_def)
    (simp add: UVarint_of_u64_def)

lemma ma_read_uvar_framed:
  "length data < 2 ^ 64 \<Longrightarrow>
   ma_read_uvar (varint_bytes (word_of_nat (length data)) @ data @ rest) = Inr (data, rest)"
  by (simp add: ma_read_uvar_def ma_read_def unat_of_nat)

lemma char_byte_inverse: "map char_of_byte (map byte_of_char v) = v"
  by (simp add: map_idI)

lemma read_port_put: "read_port (putUint16BE [] (word_of_nat n) @ rest) = Inr (to_string n, rest)" if "n \<le> 65535"
  using that load_big_octets [of 2 "word_of_nat n :: u16"]
  by (simp add: read_port_def ma_read_def puts_octets unat_of_nat) (simp add: octets_def)

lemma value_ok_addressToBytes:
  assumes "value_ok lib c v" and "v \<noteq> []"
  shows "addressToBytes lib c v = Returns (Inr (value_bytes lib c v))"
proof -
  have "\<exists>bs. addressToBytes lib c v = Returns (Inr bs)"
    using assms
    by (cases c)
      (auto simp: IPv4Converter_addressToBytes_def IPv6Converter_addressToBytes_def
        TcpConverter_addressToBytes_def UdpConverter_addressToBytes_def port_to_bytes_def
        DnsConverter_addressToBytes_def IpfsConverter_addressToBytes_def multibase_decode_def
        encodingByChar_def codec_result_def Suc_le_eq split: option.splits sum.splits)
  then show ?thesis by (auto simp: value_bytes_def)
qed

lemma value_to_string_bytes:
  assumes "value_ok lib c v" and "v \<noteq> []"
  shows "value_to_string lib c (value_bytes lib c v @ rest) = Inr (v, rest)"
  using assms
  by (cases c)
    (auto simp: value_bytes_def IPv4Converter_addressToBytes_def IPv6Converter_addressToBytes_def
      TcpConverter_addressToBytes_def UdpConverter_addressToBytes_def port_to_bytes_def
      DnsConverter_addressToBytes_def IpfsConverter_addressToBytes_def multibase_decode_def
      encodingByChar_def codec_result_def ma_read_def read_dns_name_def
      ma_read_uvar_framed [of "map byte_of_char s" for s, simplified] ma_read_uvar_framed
      char_byte_inverse [simplified] read_port_put
      split: option.splits sum.splits)

section \<open>Text\<close>

lemma split_slash_nonempty: "split_slash s \<noteq> []"
  by (induction s) (auto split: list.splits)

lemma split_slash_token: "CHR ''/'' \<notin> set t \<Longrightarrow> split_slash t = [t]"
  by (induction t) auto

lemma split_slash_join:
  "CHR ''/'' \<notin> set t \<Longrightarrow> split_slash (t @ CHR ''/'' # s) = t # split_slash s"
  by (induction t) auto

lemma split_slash_tokens:
  assumes "\<forall>t \<in> set ts. CHR ''/'' \<notin> set t" and "CHR ''/'' \<notin> set t"
  shows "split_slash (t @ concat (map (\<lambda>t. CHR ''/'' # t) ts)) = t # ts"
  using assms by (induction ts arbitrary: t) (simp_all add: split_slash_token split_slash_join)

lemma part_tokens_ok:
  assumes "list_all (part_ok lib) ps" and "t \<in> set (concat (map part_tokens ps))"
  shows "t \<noteq> [] \<and> CHR ''/'' \<notin> set t"
  using assms protocols_table(3)
  by (auto simp: list_all_iff part_ok_def part_tokens_def split: if_splits)

lemma concat_part_tokens_nonempty: "ps \<noteq> [] \<Longrightarrow> concat (map part_tokens ps) \<noteq> []"
  by (cases ps) (auto simp: part_tokens_def split: prod.splits)

lemma tokens_of_text:
  assumes "list_all (part_ok lib) ps" and "ps \<noteq> []"
  shows "hd (ma_text ps) = CHR ''/''" and "ma_text ps \<noteq> []" and "tl (ma_text ps) \<noteq> []"
    and "last (tl (ma_text ps)) \<noteq> CHR ''/''" and "split_slash (tl (ma_text ps)) = concat (map part_tokens ps)"
proof -
  let ?ts = "concat (map part_tokens ps)"
  note ok = part_tokens_ok [OF assms(1)]
  obtain t ts where ts: "?ts = t # ts" using concat_part_tokens_nonempty [OF assms(2)] by (cases ?ts) auto
  have t: "t \<noteq> []" "CHR ''/'' \<notin> set t" using ok [of t] ts by auto
  have ma_eq: "ma_text ps = CHR ''/'' # t @ concat (map (\<lambda>t. CHR ''/'' # t) ts)" by (simp add: ma_text_def ts)
  show "hd (ma_text ps) = CHR ''/''" "ma_text ps \<noteq> []" "tl (ma_text ps) \<noteq> []" using t by (simp_all add: ma_eq)
  show "split_slash (tl (ma_text ps)) = ?ts"
    unfolding ma_eq list.sel ts using t(2) ok ts by (intro split_slash_tokens) auto
  have l: "last x \<noteq> CHR ''/''" if "x \<noteq> []" "CHR ''/'' \<notin> set x" for x
    using that last_in_set [of x] by metis
  show "last (tl (ma_text ps)) \<noteq> CHR ''/''"
  proof (cases ts rule: rev_cases)
    case Nil
    with l [OF t] show ?thesis by (simp add: ma_eq)
  next
    case (snoc us u)
    then have "u \<noteq> []" "CHR ''/'' \<notin> set u" using ok [of u] ts by auto
    with snoc l [of u] show ?thesis by (simp add: ma_eq)
  qed
qed

lemma part_ok_sized:
  "part_ok lib (p, v) \<Longrightarrow> p_size p \<noteq> 0 \<Longrightarrow> v \<noteq> [] \<and> value_ok lib (p_code p) v"
  by (simp add: part_ok_def)

lemma tokens_to_bytes_parts:
  "list_all (part_ok lib) ps \<Longrightarrow>
   tokens_to_bytes lib None processed (concat (map part_tokens ps)) = Returns (Inr (processed @ ma_wire lib ps))"
proof (induction ps arbitrary: processed)
  case (Cons part ps)
  obtain p v where part: "part = (p, v)" by (cases part)
  with Cons.prems have ok: "part_ok lib (p, v)" "p \<in> set protocols" by (auto simp: part_ok_def)
  show ?case
    using Cons ok part_ok_sized [OF ok(1)] protocols_table [OF ok(2)]
    by (cases "p_size p = 0")
      (simp_all add: part part_tokens_def part_bytes_def ma_wire_def value_ok_addressToBytes)
qed (simp add: ma_wire_def)

lemma bytes_to_string_parts:
  "list_all (part_ok lib) ps \<Longrightarrow> bytes_to_string lib results (ma_wire lib ps) = Inr (results @ ma_text ps)"
proof (induction ps arbitrary: results)
  case Nil
  show ?case by (simp add: ma_wire_def ma_text_def bytes_to_string.simps)
next
  case (Cons part ps)
  obtain p v where part: "part = (p, v)" by (cases part)
  with Cons.prems have ok: "part_ok lib (p, v)" "p \<in> set protocols" by (auto simp: part_ok_def)
  have wire: "ma_wire lib (part # ps) = varint_bytes (code_num (p_code p)) @
      (if p_size p = 0 then [] else value_bytes lib (p_code p) v) @ ma_wire lib ps"
    by (simp add: ma_wire_def part part_bytes_def)
  show ?case
    using Cons part_ok_sized [OF ok(1)] protocols_table [OF ok(2)]
    by (subst bytes_to_string.simps, unfold wire)
      (simp add: part part_tokens_def ma_text_def value_to_string_bytes)
qed

lemma multiaddr_text_to_bytes:
  assumes "list_all (part_ok lib) ps" and "ps \<noteq> []"
  shows "multiaddrToBytes lib (ma_text ps) = Returns (Inr (ma_wire lib ps))"
  using tokens_of_text [OF assms] tokens_to_bytes_parts [OF assms(1), of "[]"]
  by (simp add: multiaddrToBytes_def Let_def)

lemma multiaddr_bytes_to_text:
  "list_all (part_ok lib) ps \<Longrightarrow> bytesToMultiaddrString lib (ma_wire lib ps) = Inr (ma_text ps)"
  by (simp add: bytesToMultiaddrString_def bytes_to_string_parts)

section \<open>Properties\<close>

text \<open>
  \<^bold>\<open>C36\<close> (refinement). The text and the bytes of a multiaddress are encodings of one
  list of parts: for every non-empty list of known protocols with canonical values,
  \<open>multiaddrToBytes\<close> takes the text to the bytes and \<open>bytesToMultiaddrString\<close> takes
  the bytes back to the text, for every protocol whose conversion is implemented.
\<close>

theorem multiaddr_conversions:
  assumes "list_all (part_ok lib) ps" and "ps \<noteq> []"
  shows "multiaddrToBytes lib (ma_text ps) = Returns (Inr (ma_wire lib ps))
    \<and> bytesToMultiaddrString lib (ma_wire lib ps) = Inr (ma_text ps)"
  using multiaddr_text_to_bytes [OF assms] multiaddr_bytes_to_text [OF assms(1)] by simp

text \<open>A library record for witnesses: one address of each family, and \<open>%02X\<close>.\<close>

definition sample_lib :: address_lib where
  "sample_lib =
     \<lparr>make_address_v4 = (\<lambda>s. if s = ''127.0.0.1'' then Some [127, 0, 0, 1] else None),
      v4_to_string = (\<lambda>b. if b = [127, 0, 0, 1] then ''127.0.0.1'' else ''0.0.0.0''),
      make_address_v6 = (\<lambda>s. if s = ''::1'' then Some (replicate 15 0 @ [1]) else None),
      v6_to_string = (\<lambda>b. if b = replicate 15 0 @ [1] then ''::1'' else ''::''),
      fmt_02X = (\<lambda>c. hex_digits upper16 [byte_of_char c]),
      lib_unhex = unhex_digits\<rparr>"

definition sample_parts :: "part list" where
  "sample_parts =
     [(\<lparr>p_code = IP4, p_size = 32, p_name = ''ip4''\<rparr>, ''127.0.0.1''),
      (\<lparr>p_code = UDP, p_size = 16, p_name = ''udp''\<rparr>, ''9''),
      (\<lparr>p_code = QUIC_V1, p_size = 0, p_name = ''quic-v1''\<rparr>, [])]"

lemma sample_parts_ok: "list_all (part_ok sample_lib) sample_parts"
proof -
  have "stoi ''9'' = Some (int 9)" "to_string 9 = ''9''" "isdigit CHR ''9''"
    by code_simp+
  moreover have "(9 :: nat) \<in> {0..65535}" by simp
  ultimately have "value_ok sample_lib UDP ''9''" unfolding value_ok.simps by auto
  then show ?thesis
    by (simp add: sample_parts_def part_ok_def sample_lib_def protocols_def kVarLen_def)
qed

theorem multiaddr_conversions_witness:
  "bytesToMultiaddrString sample_lib (ma_wire sample_lib sample_parts) = Inr ''/ip4/127.0.0.1/udp/9/quic-v1''"
proof -
  have "ma_text sample_parts = ''/ip4/127.0.0.1/udp/9/quic-v1''" by code_simp
  with multiaddr_conversions [OF sample_parts_ok] show ?thesis by (simp add: sample_parts_def)
qed

subsection \<open>Percent encoding\<close>

lemma percent_digit_hex: "n < 16 \<Longrightarrow> percent_digit (upper16 ! n) = Some n"
proof -
  have "list_all (\<lambda>n. percent_digit (upper16 ! n) = Some n) [0..<16]" by code_simp
  then show "n < 16 \<Longrightarrow> percent_digit (upper16 ! n) = Some n" by (simp add: list_all_iff del: upt_rec_numeral)
qed

lemma percent_is_masked: "percent_mask ! (of_char CHR ''%'' div 32) AND push_bit (of_char CHR ''%'' mod 32) 1 \<noteq> 0"
  by code_simp

lemma percentDecode_plain: "c \<noteq> CHR ''%'' \<Longrightarrow> percentDecode (c # s) = c # percentDecode s"
  by (cases s rule: percentDecode.cases) auto

lemma percentDecode_encode:
  assumes "\<And>c. fmt_02X lib c = [upper16 ! (of_char c div 16), upper16 ! (of_char c mod 16)]"
  shows "percentDecode (percentEncode lib s) = s"
proof (induction s)
  case (Cons c s)
  have "(of_char c :: nat) div 16 < 16" using of_char_less [of c] by linarith
  then have d: "percent_digit (upper16 ! (of_char c div 16)) = Some (of_char c div 16)"
    "percent_digit (upper16 ! (of_char c mod 16)) = Some (of_char c mod 16)"
    by (simp_all only: percent_digit_hex mod_less_divisor zero_less_numeral)
  show ?case
  proof (cases "(of_char c :: nat) > 0x7f \<or> percent_mask ! (of_char c div 32) AND push_bit (of_char c mod 32) 1 \<noteq> 0")
    case True
    then have "percentEncode lib (c # s) =
        CHR ''%'' # upper16 ! (of_char c div 16) # upper16 ! (of_char c mod 16) # percentEncode lib s"
      by (simp only: percentEncode.simps Let_def if_True assms append_Cons append_Nil)
    then show ?thesis using Cons d by (simp add: div_mult_mod_eq del: percentEncode.simps)
  next
    case False
    then have "c \<noteq> CHR ''%''" using percent_is_masked by blast
    moreover have "percentEncode lib (c # s) = c # percentEncode lib s"
      using False by (simp only: percentEncode.simps Let_def if_False)
    ultimately show ?thesis using Cons by (simp add: percentDecode_plain del: percentEncode.simps)
  qed
qed simp

text \<open>
  With a formatter that prints the code of a character as two
  upper-case hexadecimal digits, percent-decoding inverts percent-encoding on every
  string, the percent sign itself included.
\<close>

theorem percent_roundtrip:
  assumes "\<And>c. fmt_02X lib c = [upper16 ! (of_char c div 16), upper16 ! (of_char c mod 16)]"
  shows "percentDecode (percentEncode lib s) = s"
  by (rule percentDecode_encode [OF assms])

theorem percent_roundtrip_witness: "percentDecode (percentEncode sample_lib ''a%/b'') = ''a%/b''"
  by (rule percent_roundtrip) (simp add: sample_lib_def hex_digits_def byte_of_char_def unat_of_nat)

end
