(* ===== verification/Multiaddress.thy ===== *)
theory Multiaddress
  imports Multiaddr_Codec
begin

text \<open>
  The class \<open>Multiaddress\<close> of \<open>src/multi/multiaddress.cpp\<close>: an address kept both as
  text and as bytes, and the operations that edit and query the two. The abstract state
  of an address is the list of its parts; the lemmas show which operations implement
  their list counterpart.
\<close>

section \<open>Model\<close>

record Multiaddress =
  stringified_address :: string
  ma_bytes :: bytes

datatype MultiaddressError =
    INVALID_INPUT
  | PROTOCOL_NOT_FOUND
  | INVALID_PROTOCOL_VALUE
  | Conversion ConversionError

text \<open>\<open>find\<close> and \<open>rfind\<close> of strings, and \<open>std::find_end\<close>; \<open>None\<close> is \<open>npos\<close> or the end iterator.\<close>

definition matches_at :: "'a list \<Rightarrow> 'a list \<Rightarrow> nat \<Rightarrow> bool" where
  "matches_at s sub i \<longleftrightarrow> take (length sub) (drop i s) = sub"

definition str_find :: "'a list \<Rightarrow> 'a list \<Rightarrow> nat \<Rightarrow> nat option" where
  "str_find s sub pos = find (matches_at s sub) [pos..<Suc (length s)]"

definition str_rfind :: "'a list \<Rightarrow> 'a list \<Rightarrow> nat option" where
  "str_rfind s sub = find (matches_at s sub) (rev [0..<Suc (length s)])"

function occurrences_from :: "string \<Rightarrow> string \<Rightarrow> nat \<Rightarrow> nat list" where
  "occurrences_from s sub pos =
     (if sub = [] then []
      else
        (case str_find s sub pos of
           None \<Rightarrow> []
         | Some i \<Rightarrow> i # occurrences_from s sub (i + length sub)))"
  by pat_completeness auto
termination
proof (relation "measure (\<lambda>(s, sub, pos). Suc (length s) - pos)")
  fix s sub :: string and pos i
  assume sub: "\<not> sub = []" and "str_find s sub pos = Some i"
  then have "pos \<le> i" "i < Suc (length s)"
    unfolding str_find_def by (auto dest!: find_SomeD)
  then show "((s, sub, i + length sub), s, sub, pos) \<in> measure (\<lambda>(s, sub, pos). Suc (length s) - pos)"
    using sub by (cases sub) auto
qed simp

declare occurrences_from.simps [simp del]

definition findSubstringOccurrences :: "string \<Rightarrow> string \<Rightarrow> nat list" where
  "findSubstringOccurrences s sub = occurrences_from s sub 0"

text \<open>
  The assertion of \<open>create\<close> on the converted text, and the \<open>value()\<close> that follows it,
  leave by an exception when the conversion back fails.
\<close>

definition create_from_string ::
  "address_lib \<Rightarrow> string \<Rightarrow> (MultiaddressError, Multiaddress) result cxx" where
  "create_from_string lib address =
     (case multiaddrToBytes lib address of
        Throws \<Rightarrow> Throws
      | Returns (Inl e) \<Rightarrow> Returns (Inl (Conversion e))
      | Returns (Inr bs) \<Rightarrow>
          (case bytesToMultiaddrString lib bs of
             Inl e \<Rightarrow> Throws
           | Inr str \<Rightarrow> Returns (Inr \<lparr>stringified_address = str, ma_bytes = bs\<rparr>)))"

definition create_from_bytes :: "address_lib \<Rightarrow> bytes \<Rightarrow> (MultiaddressError, Multiaddress) result" where
  "create_from_bytes lib bs =
     (case bytesToMultiaddrString lib bs of
        Inl e \<Rightarrow> Inl INVALID_INPUT
      | Inr s \<Rightarrow> Inr \<lparr>stringified_address = s, ma_bytes = bs\<rparr>)"

definition encapsulate :: "Multiaddress \<Rightarrow> Multiaddress \<Rightarrow> Multiaddress" where
  "encapsulate this address =
     this\<lparr>stringified_address := stringified_address this @ stringified_address address,
          ma_bytes := ma_bytes this @ ma_bytes address\<rparr>"

definition decapsulateStringFromAddress :: "Multiaddress \<Rightarrow> string \<Rightarrow> bytes \<Rightarrow> bool \<times> Multiaddress" where
  "decapsulateStringFromAddress this proto bs =
     (case str_rfind (stringified_address this) proto of
        None \<Rightarrow> (False, this)
      | Some str_pos \<Rightarrow>
          (let bytes_pos = (case str_rfind (ma_bytes this) bs of None \<Rightarrow> length (ma_bytes this) | Some i \<Rightarrow> i)
           in (True,
               this\<lparr>stringified_address := take str_pos (stringified_address this),
                    ma_bytes := take bytes_pos (ma_bytes this)\<rparr>)))"

definition decapsulate :: "Multiaddress \<Rightarrow> Multiaddress \<Rightarrow> bool \<times> Multiaddress" where
  "decapsulate this address =
     decapsulateStringFromAddress this (stringified_address address) (ma_bytes address)"

definition decapsulate_protocol ::
  "address_lib \<Rightarrow> Multiaddress \<Rightarrow> u64 \<Rightarrow> string \<Rightarrow> (bool \<times> Multiaddress) cxx" where
  "decapsulate_protocol lib this proto address =
     (case get_by_code proto of
        None \<Rightarrow> Returns (False, this)
      | Some p \<Rightarrow>
          (let proto_str = ''/'' @ p_name p @ (if address \<noteq> [] then ''/'' @ address else [])
           in case multiaddrToBytes lib proto_str of
                Throws \<Rightarrow> Throws
              | Returns (Inl e) \<Rightarrow> Returns (False, this)
              | Returns (Inr proto_bytes) \<Rightarrow> Returns (decapsulateStringFromAddress this proto_str proto_bytes)))"

text \<open>\<open>create(...).value()\<close> throws when there is no value.\<close>

definition create_value :: "address_lib \<Rightarrow> string \<Rightarrow> Multiaddress cxx" where
  "create_value lib s =
     (case create_from_string lib s of
        Throws \<Rightarrow> Throws
      | Returns (Inl e) \<Rightarrow> Throws
      | Returns (Inr ma) \<Rightarrow> Returns ma)"

definition splitFirst :: "address_lib \<Rightarrow> Multiaddress \<Rightarrow> (Multiaddress \<times> Multiaddress option) cxx" where
  "splitFirst lib this =
     (let s = stringified_address this
      in case str_find s ''/'' 1 of
           None \<Rightarrow> Returns (this, None)
         | Some second_slash \<Rightarrow>
             (case str_find s ''/'' (second_slash + 1) of
                None \<Rightarrow> Returns (this, None)
              | Some third_slash \<Rightarrow>
                  bind_cxx (create_value lib (take third_slash s)) (\<lambda>a.
                  bind_cxx (create_value lib (drop third_slash s)) (\<lambda>b.
                  Returns (a, Some b)))))"

text \<open>
  The value that follows an occurrence: from behind the next slash up to the slash after
  it, or to the end. Without a next slash \<open>npos + 1\<close> is the position zero.
\<close>

definition value_at :: "string \<Rightarrow> nat \<Rightarrow> string" where
  "value_at s pos =
     (let value_pos = (case str_find s ''/'' (pos + 1) of None \<Rightarrow> 0 | Some i \<Rightarrow> i + 1)
      in case str_find s ''/'' value_pos of
           None \<Rightarrow> drop value_pos s
         | Some value_end \<Rightarrow> take (value_end - value_pos) (drop value_pos s))"

definition getValuesForProtocol :: "Multiaddress \<Rightarrow> u64 \<Rightarrow> string list" where
  "getValuesForProtocol this proto =
     (case get_by_code proto of
        None \<Rightarrow> []
      | Some protocol \<Rightarrow>
          (let s = stringified_address this;
               proto_str = ''/'' @ p_name protocol @ ''/'';
               proto_positions = findSubstringOccurrences s proto_str;
               positions = (if proto = code_num P2P
                            then proto_positions @ findSubstringOccurrences s ''/ipfs'' else proto_positions)
           in map (value_at s) positions))"

definition getPeerId :: "Multiaddress \<Rightarrow> string option" where
  "getPeerId this =
     (case getValuesForProtocol this (code_num P2P) of [] \<Rightarrow> None | peer_id # _ \<Rightarrow> Some peer_id)"

definition getFirstValueForProtocol :: "Multiaddress \<Rightarrow> u64 \<Rightarrow> (MultiaddressError, string) result" where
  "getFirstValueForProtocol this proto =
     (case getValuesForProtocol this proto of [] \<Rightarrow> Inl PROTOCOL_NOT_FOUND | v # _ \<Rightarrow> Inr v)"

text \<open>The overload with a caster: an exception of the caster (\<open>None\<close>) is an error value.\<close>

definition getFirstValueForProtocol_as ::
  "Multiaddress \<Rightarrow> u64 \<Rightarrow> (string \<Rightarrow> 't option) \<Rightarrow> (MultiaddressError, 't) result" where
  "getFirstValueForProtocol_as this protocol caster =
     bind_result (getFirstValueForProtocol this protocol) (\<lambda>val.
       case caster val of None \<Rightarrow> Inl INVALID_PROTOCOL_VALUE | Some t \<Rightarrow> Inr t)"

definition getProtocols :: "Multiaddress \<Rightarrow> Protocol list" where
  "getProtocols this =
     (if stringified_address this = [] then []
      else List.map_filter get_by_name (split_slash (tl (stringified_address this))))"

text \<open>
  The loop over the tokens: a protocol opens a pair, anything else is appended to the
  value of the last pair. Without one the code reads the back of an empty vector.
\<close>

fun tokens_with_values :: "(Protocol \<times> string) list \<Rightarrow> string list \<Rightarrow> (Protocol \<times> string) list cxx" where
  "tokens_with_values pvs [] = Returns pvs"
| "tokens_with_values pvs (token # tokens) =
     (case get_by_name token of
        Some p \<Rightarrow> tokens_with_values (pvs @ [(p, [])]) tokens
      | None \<Rightarrow>
          if pvs = [] then Throws
          else
            (let (p, s) = last pvs;
                 s' = (if s \<noteq> [] then s @ ''/'' else s) @ token
             in tokens_with_values (butlast pvs @ [(p, s')]) tokens))"

definition getProtocolsWithValues :: "Multiaddress \<Rightarrow> (Protocol \<times> string) list cxx" where
  "getProtocolsWithValues this =
     (if stringified_address this = [] then Returns []
      else
        (let addr = tl (stringified_address this)
         in if addr = [] then Throws
            else
              (let addr' = (if last addr = CHR ''/'' then butlast addr else addr)
               in tokens_with_values [] (split_slash addr'))))"

definition Multiaddress_eq :: "Multiaddress \<Rightarrow> Multiaddress \<Rightarrow> bool" where
  "Multiaddress_eq a b \<longleftrightarrow>
     stringified_address a = stringified_address b \<and> ma_bytes a = ma_bytes b"

fun string_less :: "string \<Rightarrow> string \<Rightarrow> bool" where
  "string_less xs [] \<longleftrightarrow> False"
| "string_less [] (y # ys) \<longleftrightarrow> True"
| "string_less (x # xs) (y # ys) \<longleftrightarrow>
     (of_char x :: nat) < of_char y \<or> \<not> (of_char y :: nat) < of_char x \<and> string_less xs ys"

definition Multiaddress_less :: "Multiaddress \<Rightarrow> Multiaddress \<Rightarrow> bool" where
  "Multiaddress_less a b = string_less (stringified_address a) (stringified_address b)"

definition ends_with :: "string \<Rightarrow> string \<Rightarrow> bool" where
  "ends_with s suffix \<longleftrightarrow> length suffix \<le> length s \<and> drop (length s - length suffix) s = suffix"

definition hasProtocol :: "Multiaddress \<Rightarrow> u64 \<Rightarrow> bool" where
  "hasProtocol this code =
     (case get_by_code code of
        None \<Rightarrow> False
      | Some p \<Rightarrow>
          (let s = stringified_address this;
               i = length (p_name p) + 1
           in if p_size p = 0 \<and> ends_with s (p_name p) \<and> i \<le> length s \<and> s ! (length s - i) \<noteq> CHR 0x00 then True
              else str_find s (''/'' @ p_name p @ ''/'') 0 \<noteq> None))"

section \<open>Searching\<close>

lemma matches_at_append: "matches_at (a @ b) b (length a)"
  by (simp add: matches_at_def)

text \<open>The last occurrence of a suffix is the suffix.\<close>

lemma upt_split_at: "i \<le> k \<Longrightarrow> k < j \<Longrightarrow> [i..<j] = [i..<k] @ k # [Suc k..<j]"
  using upt_add_eq_append [of i k "j - k"] upt_conv_Cons [of k j] by simp

lemma str_rfind_suffix: "str_rfind (a @ b) b = Some (length a)"
proof -
  let ?n = "length a" and ?m = "Suc (length (a @ b))"
  have "[0..<?m] = [0..<?n] @ ?n # [Suc ?n..<?m]"
    by (rule upt_split_at) simp_all
  then have r: "rev [0..<?m] = rev [Suc ?n..<?m] @ ?n # rev [0..<?n]" by (simp only: rev_append rev.simps append.simps append_assoc)
  have "List.find (matches_at (a @ b) b) (rev [Suc ?n..<?m]) = None"
  proof (rule find_NoneI)
    fix i
    assume i: "i \<in> set (rev [Suc ?n..<?m])"
    then have "length (take (length b) (drop i (a @ b))) < length b" by auto
    then show "\<not> matches_at (a @ b) b i" unfolding matches_at_def by (metis less_irrefl)
  qed
  then show ?thesis unfolding str_rfind_def r find_append by (simp add: matches_at_append)
qed

lemma matches_at_char: "matches_at s [c] i \<longleftrightarrow> i < length s \<and> s ! i = c"
  by (cases "i < length s") (simp_all add: matches_at_def take_Suc_conv_app_nth Cons_nth_drop_Suc [symmetric])

lemma str_find_char:
  assumes "c \<notin> set t"
  shows "str_find (pre @ t) [c] (length pre) = None"
    and "str_find (pre @ t @ c # r) [c] (length pre) = Some (length pre + length t)"
proof -
  have no: "(pre @ t @ u) ! i \<noteq> c" if "length pre \<le> i" "i < length pre + length t" for i u
    using that assms nth_mem [of "i - length pre" t] by (auto simp: nth_append)
  show "str_find (pre @ t) [c] (length pre) = None"
    unfolding str_find_def using no [of _ "[]"] by (intro find_NoneI) (auto simp: matches_at_char)
  let ?s = "pre @ t @ c # r" and ?k = "length pre + length t"
  have u: "[length pre..<Suc (length ?s)] = [length pre..<?k] @ ?k # [Suc ?k..<Suc (length ?s)]"
    by (rule upt_split_at) simp_all
  have "List.find (matches_at ?s [c]) [length pre..<?k] = None"
    using no [of _ "c # r"] by (intro find_NoneI) (auto simp: matches_at_char)
  moreover have "matches_at ?s [c] ?k" by (simp add: matches_at_char nth_append)
  ultimately show "str_find ?s [c] (length pre) = Some ?k" unfolding str_find_def u find_append by simp
qed

section \<open>Editing\<close>

text \<open>\<open>represents lib ma ps\<close>: both representations held in \<open>ma\<close> are those of \<open>ps\<close>.\<close>

definition represents :: "address_lib \<Rightarrow> Multiaddress \<Rightarrow> part list \<Rightarrow> bool" where
  "represents lib ma ps \<longleftrightarrow>
     list_all (part_ok lib) ps \<and> stringified_address ma = ma_text ps \<and> ma_bytes ma = ma_wire lib ps"

lemma create_represents:
  assumes "list_all (part_ok lib) ps" and "ps \<noteq> []"
  shows "create_from_string lib (ma_text ps) = Returns (Inr \<lparr>stringified_address = ma_text ps, ma_bytes = ma_wire lib ps\<rparr>)"
    and "create_from_bytes lib (ma_wire lib ps) = Inr \<lparr>stringified_address = ma_text ps, ma_bytes = ma_wire lib ps\<rparr>"
  using multiaddr_text_to_bytes [OF assms] multiaddr_bytes_to_text [OF assms(1)]
  by (simp_all add: create_from_string_def create_from_bytes_def)

text \<open>
  \<open>Multiaddress::create\<close> from the text and from the bytes of a
  list of parts give the same address, whose two representations are those of the list.
\<close>

theorem multiaddress_create:
  assumes "list_all (part_ok lib) ps" and "ps \<noteq> []"
  shows "\<exists>ma. create_from_string lib (ma_text ps) = Returns (Inr ma)
    \<and> create_from_bytes lib (ma_wire lib ps) = Inr ma \<and> represents lib ma ps"
  using create_represents [OF assms] assms(1) by (simp add: represents_def)

theorem multiaddress_create_witness:
  "\<exists>ma. create_from_string sample_lib (ma_text sample_parts) = Returns (Inr ma)
    \<and> create_from_bytes sample_lib (ma_wire sample_lib sample_parts) = Inr ma \<and> represents sample_lib ma sample_parts"
  using multiaddress_create [OF sample_parts_ok] by (simp add: sample_parts_def)

lemma decapsulate_encapsulate: "decapsulate (encapsulate a b) b = (True, a)"
  by (cases a)
    (simp add: decapsulate_def decapsulateStringFromAddress_def encapsulate_def str_rfind_suffix)

text \<open>
  \<open>encapsulate\<close> appends lists of parts, keeping text and bytes
  in agreement, and \<open>decapsulate\<close> of what was encapsulated last restores the address.
\<close>

theorem multiaddress_encapsulate:
  assumes "represents lib a ps" and "represents lib b qs"
  shows "represents lib (encapsulate a b) (ps @ qs) \<and> decapsulate (encapsulate a b) b = (True, a)"
  using assms decapsulate_encapsulate [of a b]
  by (simp add: represents_def encapsulate_def ma_text_append ma_wire_append)

definition sample_address :: "part list \<Rightarrow> Multiaddress" where
  "sample_address ps = \<lparr>stringified_address = ma_text ps, ma_bytes = ma_wire sample_lib ps\<rparr>"

lemma sample_represents:
  "represents sample_lib (sample_address (take n sample_parts)) (take n sample_parts)"
  "represents sample_lib (sample_address (drop n sample_parts)) (drop n sample_parts)"
  using sample_parts_ok
  by (auto simp: represents_def sample_address_def list_all_iff dest: in_set_takeD in_set_dropD)

theorem multiaddress_encapsulate_witness:
  "represents sample_lib (encapsulate (sample_address (take 1 sample_parts)) (sample_address (drop 1 sample_parts)))
     sample_parts"
  using multiaddress_encapsulate [OF sample_represents(1) [of 1] sample_represents(2) [of 1]] by simp

text \<open>
  Decapsulating something that was not encapsulated last may cut the text at a place
  that is no boundary of the bytes.
\<close>

lemma decapsulate_disagrees:
  "decapsulate (sample_address [(\<lparr>p_code = UDP, p_size = 16, p_name = ''udp''\<rparr>, ''1380'')])
     (sample_address [(\<lparr>p_code = UDP, p_size = 16, p_name = ''udp''\<rparr>, ''138'')]) =
   (True, \<lparr>stringified_address = [], ma_bytes = [0x91, 0x02, 0x05, 0x64]\<rparr>)"
  by code_simp

section \<open>Splitting\<close>

lemma ma_text_sized:
  "p_size p \<noteq> 0 \<Longrightarrow> ma_text ((p, v) # qs) = ''/'' @ p_name p @ ''/'' @ v @ ma_text qs"
  by (simp add: ma_text_def part_tokens_def)

lemma ma_text_Cons: "qs \<noteq> [] \<Longrightarrow> \<exists>r. ma_text qs = CHR ''/'' # r"
  using concat_part_tokens_nonempty [of qs] by (cases "concat (map part_tokens qs)") (auto simp: ma_text_def)

text \<open>
  On an address whose first protocol has a value, \<open>splitFirst\<close>
  returns the address of the first part and the address of the others, or the address
  itself and nothing when there is one part.
\<close>

theorem multiaddress_splitFirst:
  assumes "represents lib ma ((p, v) # qs)" and "p_size p \<noteq> 0"
  shows "\<exists>a b. splitFirst lib ma = Returns (a, b) \<and> represents lib a [(p, v)]
    \<and> (if qs = [] then b = None else \<exists>c. b = Some c \<and> represents lib c qs)"
proof -
  have ok: "list_all (part_ok lib) [(p, v)]" "list_all (part_ok lib) qs" "p \<in> set protocols" "CHR ''/'' \<notin> set v"
    and s: "stringified_address ma = ''/'' @ p_name p @ ''/'' @ v @ ma_text qs"
    using assms by (simp_all add: represents_def part_ok_def ma_text_sized)
  have name: "CHR ''/'' \<notin> set (p_name p)" using protocols_table(3) [OF ok(3)] by simp
  let ?pre = "''/'' @ p_name p @ ''/''"
  have second: "str_find (stringified_address ma) ''/'' 1 = Some (1 + length (p_name p))"
    using str_find_char(2) [OF name, of "''/''"] by (simp add: s)
  show ?thesis
  proof (cases "qs = []")
    case True
    have "str_find (stringified_address ma) ''/'' (1 + length (p_name p) + 1) = None"
      using str_find_char(1) [OF ok(4), of ?pre] True by (simp add: s ma_text_def)
    with second True assms(1) show ?thesis by (simp add: splitFirst_def)
  next
    case False
    then obtain r where r: "ma_text qs = CHR ''/'' # r" using ma_text_Cons by blast
    have third: "str_find (stringified_address ma) ''/'' (1 + length (p_name p) + 1) = Some (length (?pre @ v))"
      using str_find_char(2) [OF ok(4), of ?pre r] by (simp add: s r)
    have cut: "take (length (?pre @ v)) (stringified_address ma) = ma_text [(p, v)]"
      "drop (length (?pre @ v)) (stringified_address ma) = ma_text qs"
      using ma_text_sized [OF assms(2), of v "[]"] by (simp_all add: s ma_text_def)
    note c = create_represents(1) [OF ok(1)] create_represents(1) [OF ok(2) False]
    show ?thesis
      using second third cut c ok False
      by (simp add: splitFirst_def create_value_def represents_def)
  qed
qed

theorem multiaddress_splitFirst_witness:
  "\<exists>a b. splitFirst sample_lib (sample_address sample_parts) = Returns (a, Some b)"
proof -
  have "represents sample_lib (sample_address sample_parts) sample_parts"
    using sample_represents(1) [of "length sample_parts"] by simp
  then show ?thesis
    using multiaddress_splitFirst [of sample_lib "sample_address sample_parts"
        "\<lparr>p_code = IP4, p_size = 32, p_name = ''ip4''\<rparr>" "''127.0.0.1''"
        "tl sample_parts"]
    by (auto simp: sample_parts_def)
qed

text \<open>A first protocol without a value is split together with the name of the second one.\<close>

lemma splitFirst_zero_size_throws:
  "splitFirst sample_lib \<lparr>stringified_address = ''/quic-v1/udp/9'', ma_bytes = []\<rparr> = Throws"
  by code_simp

section \<open>Querying\<close>

text \<open>A value is not mistaken for a protocol when it is no protocol's name.\<close>

definition values_unnamed :: "part list \<Rightarrow> bool" where
  "values_unnamed ps = list_all (\<lambda>(p, v). p_size p = 0 \<or> get_by_name v = None) ps"

lemma tokens_with_values_parts:
  assumes "list_all (part_ok lib) ps" and "values_unnamed ps"
  shows "tokens_with_values pvs (concat (map part_tokens ps)) = Returns (pvs @ ps)"
  using assms
proof (induction ps arbitrary: pvs)
  case (Cons part ps)
  obtain p v where part: "part = (p, v)" by (cases part)
  with Cons.prems have ok: "p \<in> set protocols" "p_size p = 0 \<longrightarrow> v = []" "p_size p \<noteq> 0 \<longrightarrow> get_by_name v = None"
    by (auto simp: part_ok_def values_unnamed_def)
  have "values_unnamed ps" "list_all (part_ok lib) ps" using Cons.prems by (auto simp: values_unnamed_def)
  with Cons.IH [of "pvs @ [(p, v)]"] ok protocols_table(1) [OF ok(1)] show ?case
    by (cases "p_size p = 0") (simp_all add: part part_tokens_def)
qed simp

lemma map_filter_tokens:
  assumes "list_all (part_ok lib) ps" and "values_unnamed ps"
  shows "List.map_filter get_by_name (concat (map part_tokens ps)) = map fst ps"
  using assms
proof (induction ps)
  case (Cons part ps)
  obtain p v where part: "part = (p, v)" by (cases part)
  with Cons.prems have ok: "p \<in> set protocols" "p_size p \<noteq> 0 \<longrightarrow> get_by_name v = None"
    by (auto simp: part_ok_def values_unnamed_def)
  have "values_unnamed ps" "list_all (part_ok lib) ps" using Cons.prems by (auto simp: values_unnamed_def)
  with Cons.IH ok protocols_table(1) [OF ok(1)] show ?case
    by (simp add: part part_tokens_def map_filter_simps)
qed (simp add: map_filter_simps)

lemma getProtocols_parts:
  assumes "represents lib ma ps" and "values_unnamed ps"
  shows "getProtocolsWithValues ma = Returns ps \<and> getProtocols ma = map fst ps"
proof (cases "ps = []")
  case True
  with assms show ?thesis by (simp add: represents_def ma_text_def getProtocolsWithValues_def getProtocols_def)
next
  case False
  have ok: "list_all (part_ok lib) ps" and s: "stringified_address ma = ma_text ps"
    using assms(1) by (simp_all add: represents_def)
  note t = tokens_of_text [OF ok False]
  show ?thesis
    using t tokens_with_values_parts [OF ok assms(2), of "[]"] map_filter_tokens [OF ok assms(2)]
    by (simp add: getProtocolsWithValues_def getProtocols_def s)
qed

text \<open>
  On an address none of whose values is the name of a protocol,
  \<open>getProtocolsWithValues\<close> returns the list of its parts and \<open>getProtocols\<close> their
  protocols.
\<close>

theorem multiaddress_protocols:
  assumes "represents lib ma ps" and "values_unnamed ps"
  shows "getProtocolsWithValues ma = Returns ps \<and> getProtocols ma = map fst ps"
  using assms by (rule getProtocols_parts)

theorem multiaddress_protocols_witness:
  "getProtocolsWithValues (sample_address sample_parts) = Returns sample_parts"
proof -
  have "represents sample_lib (sample_address sample_parts) sample_parts"
    using sample_represents(1) [of "length sample_parts"] by simp
  moreover have "values_unnamed sample_parts" by code_simp
  ultimately show ?thesis using multiaddress_protocols by blast
qed

text \<open>
  Searching by text instead of by part: a host name that starts with \<open>ipfs\<close> passes for
  the legacy name of \<open>p2p\<close>, and a host name that ends with the name of a protocol
  without value passes for that protocol.
\<close>

lemma getPeerId_of_host_name:
  "getPeerId \<lparr>stringified_address = ''/dns4/ipfs.io/tcp/80'', ma_bytes = []\<rparr> = Some ''tcp''"
  by code_simp

lemma hasProtocol_of_host_name:
  "hasProtocol \<lparr>stringified_address = ''/dns4/news'', ma_bytes = []\<rparr> (code_num WS)"
  by code_simp

end
