(* ===== verification/Time_Cache.thy ===== *)
theory Time_Cache
  imports Prelude
begin

text \<open>
  The time-bounded caches of \<open>include/libp2p/protocol/gossip/time_cache.hpp\<close>:
  \<open>TimeCache\<close>, \<open>DuplicateCache\<close>, \<open>IDontWantCache\<close> and \<open>GossipPromises\<close>. Time points and
  durations are integers, in nanoseconds, and every reading of the clock is an argument. The queue of
  expirations holds iterators into the map; here it holds the keys they point to.
\<close>

section \<open>\<open>TimeCache\<close>\<close>

type_synonym time = int

record ('k, 'v) TimeCache =
  tc_ttl :: time
  tc_map :: "('k, 'v) alist"
  tc_expirations :: "(time \<times> 'k) list"

definition TimeCache_new :: "time \<Rightarrow> ('k, 'v) TimeCache" where
  "TimeCache_new ttl = \<lparr>tc_ttl = ttl, tc_map = [], tc_expirations = []\<rparr>"

definition tc_size :: "('k, 'v) TimeCache \<Rightarrow> nat" where
  "tc_size c = length (tc_map c)"

definition tc_contains :: "('k, 'v) TimeCache \<Rightarrow> 'k \<Rightarrow> bool" where
  "tc_contains c key \<longleftrightarrow> map_of (tc_map c) key \<noteq> None"

fun expire_loop :: "time \<Rightarrow> ('k, 'v) alist \<Rightarrow> (time \<times> 'k) list \<Rightarrow> ('k, 'v) alist \<times> (time \<times> 'k) list" where
  "expire_loop now m [] = (m, [])"
| "expire_loop now m ((t, k) # es) =
     (if t \<le> now then expire_loop now (AList.delete k m) es else (m, (t, k) # es))"

definition tc_clearExpired :: "('k, 'v) TimeCache \<Rightarrow> time \<Rightarrow> ('k, 'v) TimeCache" where
  "tc_clearExpired c now =
     (let (m, es) = expire_loop now (tc_map c) (tc_expirations c)
      in c\<lparr>tc_map := m, tc_expirations := es\<rparr>)"

text \<open>\<open>getOrDefault\<close> returns a reference; here the cache and the value it refers to.\<close>

definition tc_getOrDefault :: "'v \<Rightarrow> ('k, 'v) TimeCache \<Rightarrow> 'k \<Rightarrow> time \<Rightarrow> 'v \<times> ('k, 'v) TimeCache" where
  "tc_getOrDefault dflt c key now =
     (let c1 = tc_clearExpired c now
      in case map_of (tc_map c1) key of
           Some v \<Rightarrow> (v, c1)
         | None \<Rightarrow>
             (dflt,
              c1\<lparr>tc_map := tc_map c1 @ [(key, dflt)],
                 tc_expirations := tc_expirations c1 @ [(now + tc_ttl c1, key)]\<rparr>))"

text \<open>A write through the reference.\<close>

definition tc_set :: "('k, 'v) TimeCache \<Rightarrow> 'k \<Rightarrow> 'v \<Rightarrow> ('k, 'v) TimeCache" where
  "tc_set c key v = c\<lparr>tc_map := AList.update key v (tc_map c)\<rparr>"

definition tc_popFront :: "('k, 'v) TimeCache \<Rightarrow> ('k, 'v) TimeCache cxx" where
  "tc_popFront c =
     (case tc_expirations c of
        [] \<Rightarrow> Throws
      | (t, k) # es \<Rightarrow> Returns (c\<lparr>tc_map := AList.delete k (tc_map c), tc_expirations := es\<rparr>))"

section \<open>\<open>DuplicateCache\<close> and \<open>IDontWantCache\<close>\<close>

type_synonym 'k DuplicateCache = "('k, unit) TimeCache"

definition dc_contains :: "'k DuplicateCache \<Rightarrow> 'k \<Rightarrow> bool" where
  "dc_contains c key = tc_contains c key"

text \<open>\<open>clock\<close> is the reading of the clock that \<open>getOrDefault\<close> makes, after \<open>now\<close>.\<close>

definition dc_insert :: "'k DuplicateCache \<Rightarrow> 'k \<Rightarrow> time \<Rightarrow> time \<Rightarrow> bool \<times> 'k DuplicateCache" where
  "dc_insert c key now clock =
     (let c1 = tc_clearExpired c now
      in if tc_contains c1 key then (False, c1)
         else (True, snd (tc_getOrDefault () c1 key clock)))"

definition kCapacity :: nat where
  "kCapacity = 10000"

definition kTtl :: time where
  "kTtl = 3 * 10 ^ 9"

type_synonym 'k IDontWantCache = "('k, unit) TimeCache"

definition IDontWantCache_new :: "'k IDontWantCache" where
  "IDontWantCache_new = TimeCache_new kTtl"

definition iw_clearExpired :: "'k IDontWantCache \<Rightarrow> time \<Rightarrow> 'k IDontWantCache" where
  "iw_clearExpired c now = tc_clearExpired c now"

definition iw_contains :: "'k IDontWantCache \<Rightarrow> 'k \<Rightarrow> bool" where
  "iw_contains c key = tc_contains c key"

definition iw_insert :: "'k IDontWantCache \<Rightarrow> 'k \<Rightarrow> time \<Rightarrow> 'k IDontWantCache cxx" where
  "iw_insert c key clock =
     (if tc_contains c key then Returns c
      else
        bind_cxx (if tc_size c \<ge> kCapacity then tc_popFront c else Returns c)
          (\<lambda>c1. Returns (snd (tc_getOrDefault () c1 key clock))))"

section \<open>\<open>GossipPromises\<close>\<close>

record ('m, 'p) GossipPromises =
  gp_ttl :: time
  gp_map :: "('m, ('p, time) alist) alist"

definition GossipPromises_new :: "time \<Rightarrow> ('m, 'p) GossipPromises" where
  "GossipPromises_new ttl = \<lparr>gp_ttl = ttl, gp_map = []\<rparr>"

definition gp_contains :: "('m, 'p) GossipPromises \<Rightarrow> 'm \<Rightarrow> bool" where
  "gp_contains g m \<longleftrightarrow> map_of (gp_map g) m \<noteq> None"

text \<open>\<open>map_[message_id]\<close> creates the inner map if absent; \<open>emplace\<close> keeps an existing entry.\<close>

definition emplace :: "'k \<Rightarrow> 'v \<Rightarrow> ('k, 'v) alist \<Rightarrow> ('k, 'v) alist" where
  "emplace k v m = (case map_of m k of Some _ \<Rightarrow> m | None \<Rightarrow> m @ [(k, v)])"

definition gp_add :: "('m, 'p) GossipPromises \<Rightarrow> 'm \<Rightarrow> 'p \<Rightarrow> time \<Rightarrow> ('m, 'p) GossipPromises" where
  "gp_add g m peer now =
     (let inner = (case map_of (gp_map g) m of None \<Rightarrow> [] | Some i \<Rightarrow> i)
      in g\<lparr>gp_map := AList.update m (emplace peer (now + gp_ttl g) inner) (gp_map g)\<rparr>)"

definition gp_remove :: "('m, 'p) GossipPromises \<Rightarrow> 'm \<Rightarrow> ('m, 'p) GossipPromises" where
  "gp_remove g m = g\<lparr>gp_map := AList.delete m (gp_map g)\<rparr>"

text \<open>The peers \<open>peers(message_id, f)\<close> visits.\<close>

definition gp_peers :: "('m, 'p) GossipPromises \<Rightarrow> 'm \<Rightarrow> 'p list" where
  "gp_peers g m = (case map_of (gp_map g) m of None \<Rightarrow> [] | Some inner \<Rightarrow> map fst inner)"

definition bump :: "'p \<Rightarrow> ('p, nat) alist \<Rightarrow> ('p, nat) alist" where
  "bump p h = AList.update p ((case map_of h p of None \<Rightarrow> 0 | Some n \<Rightarrow> n) + 1) h"

fun expire_inner ::
  "time \<Rightarrow> ('p, nat) alist \<Rightarrow> ('p, time) alist \<Rightarrow> ('p, nat) alist \<times> ('p, time) alist" where
  "expire_inner now h [] = (h, [])"
| "expire_inner now h ((p, t) # rest) =
     (if t < now then expire_inner now (bump p h) rest
      else (let (h', rest') = expire_inner now h rest in (h', (p, t) # rest')))"

fun expire_outer ::
  "time \<Rightarrow> ('p, nat) alist \<Rightarrow> ('m, ('p, time) alist) alist
    \<Rightarrow> ('p, nat) alist \<times> ('m, ('p, time) alist) alist" where
  "expire_outer now h [] = (h, [])"
| "expire_outer now h ((m, inner) # rest) =
     (let (h1, inner') = expire_inner now h inner;
          (h2, rest') = expire_outer now h1 rest
      in (h2, if inner' = [] then rest' else (m, inner') # rest'))"

definition gp_clearExpired ::
  "('m, 'p) GossipPromises \<Rightarrow> time \<Rightarrow> ('p, nat) alist \<times> ('m, 'p) GossipPromises" where
  "gp_clearExpired g now =
     (let (h, m) = expire_outer now [] (gp_map g) in (h, g\<lparr>gp_map := m\<rparr>))"

section \<open>The queue agrees with the map\<close>

definition tc_inv :: "('k, 'v) TimeCache \<Rightarrow> bool" where
  "tc_inv c \<longleftrightarrow>
     distinct (map fst (tc_map c)) \<and> distinct (map snd (tc_expirations c)) \<and>
     set (map fst (tc_map c)) = set (map snd (tc_expirations c))"

lemma expire_loop_inv:
  assumes "expire_loop now m es = (m', es')"
    and "distinct (map fst m)" and "distinct (map snd es)" and "set (map fst m) = set (map snd es)"
  shows "distinct (map fst m') \<and> set (map fst m') = set (map snd es')
    \<and> es' = dropWhile (\<lambda>(t, k). t \<le> now) es
    \<and> (\<forall>k. map_of m' k = (if k \<in> set (map snd es') then map_of m k else None))"
  using assms
proof (induction es arbitrary: m)
  case Nil
  then show ?case by simp
next
  case (Cons e es)
  obtain t k where e: "e = (t, k)" by (cases e)
  show ?case
  proof (cases "t \<le> now")
    case True
    have d: "distinct (map fst (AList.delete k m))" "set (map fst (AList.delete k m)) = set (map snd es)"
      using Cons.prems e by (auto simp: delete_keys distinct_removeAll)
    have r: "expire_loop now (AList.delete k m) es = (m', es')" using Cons.prems(1) e True by simp
    note IH = Cons.IH [OF r d(1) _ d(2)]
    have dk: "distinct (map snd es)" "k \<notin> snd ` set es" using Cons.prems(3) e by auto
    then have "k \<notin> set (map snd es')" using IH by (auto dest!: set_dropWhileD)
    with IH dk e True show ?thesis by (auto simp: delete_conv')
  next
    case False
    have "x \<in> set (map fst m) \<or> map_of m x = None" for x by (auto simp: map_of_eq_None_iff)
    with Cons.prems e False show ?thesis by (auto simp: map_of_eq_None_iff)
  qed
qed

text \<open>\<open>tc_upto c T\<close>: well formed, and no operation has used a clock reading after \<open>T\<close>.\<close>

definition tc_upto :: "('k, 'v) TimeCache \<Rightarrow> time \<Rightarrow> bool" where
  "tc_upto c T \<longleftrightarrow>
     tc_inv c \<and> 0 \<le> tc_ttl c \<and> sorted (map fst (tc_expirations c)) \<and>
     (\<forall>(t, k) \<in> set (tc_expirations c). t \<le> T + tc_ttl c)"

text \<open>The entry for a key is still to be kept at time \<open>x\<close>.\<close>

definition tc_live :: "('k, 'v) TimeCache \<Rightarrow> 'k \<Rightarrow> time \<Rightarrow> bool" where
  "tc_live c k x \<longleftrightarrow> (\<exists>t. (t, k) \<in> set (tc_expirations c) \<and> x < t)"

lemma tc_contains_iff: "tc_inv c \<Longrightarrow> tc_contains c k \<longleftrightarrow> k \<in> snd ` set (tc_expirations c)"
  by (auto simp: tc_contains_def tc_inv_def map_of_eq_None_iff)

lemma sorted_dropWhile_filter:
  "sorted (map fst es) \<Longrightarrow> dropWhile (\<lambda>(t, k). t \<le> now) es = filter (\<lambda>(t, k). now < t) es" for now :: "'a::linorder"
proof (induction es)
  case (Cons e es)
  show ?case
  proof (cases "fst e \<le> now")
    case False
    then have "filter (\<lambda>(t, k). now < t) (e # es) = e # es"
      using Cons.prems by (intro filter_True) (auto simp: not_le intro: less_le_trans)
    with False show ?thesis by (cases e) (simp add: case_prod_unfold)
  qed (use Cons in \<open>auto simp: case_prod_beta not_le\<close>)
qed simp

lemma tc_clearExpired_upto:
  assumes "tc_upto c T"
  shows "tc_upto (tc_clearExpired c now) T" and "tc_ttl (tc_clearExpired c now) = tc_ttl c"
    and "tc_expirations (tc_clearExpired c now) = filter (\<lambda>(t, k). now < t) (tc_expirations c)"
    and "tc_contains (tc_clearExpired c now) k \<longleftrightarrow> tc_live c k now"
    and "k \<in> snd ` set (tc_expirations (tc_clearExpired c now)) \<Longrightarrow>
      map_of (tc_map (tc_clearExpired c now)) k = map_of (tc_map c) k"
proof -
  obtain m es where r: "expire_loop now (tc_map c) (tc_expirations c) = (m, es)" by (cases "expire_loop now (tc_map c) (tc_expirations c)")
  have inv: "tc_inv c" "sorted (map fst (tc_expirations c))" using assms by (simp_all add: tc_upto_def)
  have i: "distinct (map fst (tc_map c))" "distinct (map snd (tc_expirations c))"
    "set (map fst (tc_map c)) = set (map snd (tc_expirations c))" using inv(1) by (simp_all add: tc_inv_def)
  note L = expire_loop_inv [OF r i]
  have es: "es = filter (\<lambda>(t, k). now < t) (tc_expirations c)"
    using L sorted_dropWhile_filter [OF inv(2)] by simp
  have c': "tc_clearExpired c now = c\<lparr>tc_map := m, tc_expirations := es\<rparr>" by (simp add: tc_clearExpired_def r)
  have inv': "tc_inv (tc_clearExpired c now)"
  proof -
    have "distinct (map snd es)" unfolding es by (rule distinct_map_filter [OF i(2)])
    with L show ?thesis by (simp add: c' tc_inv_def)
  qed
  show "tc_upto (tc_clearExpired c now) T"
    using assms inv' by (auto simp: tc_upto_def c' es intro: sorted_filter)
  show "tc_ttl (tc_clearExpired c now) = tc_ttl c" by (simp add: c')
  show e: "tc_expirations (tc_clearExpired c now) = filter (\<lambda>(t, k). now < t) (tc_expirations c)"
    by (simp add: c' es)
  show "tc_contains (tc_clearExpired c now) k \<longleftrightarrow> tc_live c k now"
    unfolding tc_contains_iff [OF inv'] e by (force simp: tc_live_def)
  show "k \<in> snd ` set (tc_expirations (tc_clearExpired c now)) \<Longrightarrow>
      map_of (tc_map (tc_clearExpired c now)) k = map_of (tc_map c) k"
    using L by (simp add: c')
qed

lemma tc_getOrDefault_upto:
  assumes "tc_upto c T" and "T \<le> now"
  shows "tc_upto (snd (tc_getOrDefault d c key now)) now"
    and "tc_ttl (snd (tc_getOrDefault d c key now)) = tc_ttl c"
    and "tc_expirations (snd (tc_getOrDefault d c key now)) =
      filter (\<lambda>(t, k). now < t) (tc_expirations c) @ (if tc_live c key now then [] else [(now + tc_ttl c, key)])"
proof -
  let ?c = "tc_clearExpired c now"
  note C = tc_clearExpired_upto [OF assms(1), where now = now]
  have n: "map_of (tc_map ?c) key = None \<longleftrightarrow> \<not> tc_live c key now"
    using C(4) [of key] by (auto simp: tc_contains_def)
  have inv: "tc_inv ?c" using C(1) by (simp add: tc_upto_def)
  show "tc_ttl (snd (tc_getOrDefault d c key now)) = tc_ttl c"
    using C(2) by (simp add: tc_getOrDefault_def Let_def split: option.splits)
  show e: "tc_expirations (snd (tc_getOrDefault d c key now)) =
      filter (\<lambda>(t, k). now < t) (tc_expirations c) @ (if tc_live c key now then [] else [(now + tc_ttl c, key)])"
    using C(2,3) n by (auto simp: tc_getOrDefault_def Let_def split: option.splits)
  have b: "\<forall>(t, k) \<in> set (tc_expirations c). t \<le> now + tc_ttl c" "0 \<le> tc_ttl c"
    using assms by (auto simp: tc_upto_def)
  show "tc_upto (snd (tc_getOrDefault d c key now)) now"
  proof (cases "map_of (tc_map ?c) key")
    case None
    then have k: "key \<notin> set (map fst (tc_map ?c))" by (simp add: map_of_eq_None_iff)
    have "tc_inv (snd (tc_getOrDefault d c key now))"
      using inv k None by (auto simp: tc_getOrDefault_def Let_def tc_inv_def)
    moreover have "sorted (map fst (tc_expirations ?c))" using C(1) by (simp add: tc_upto_def)
    moreover have "tc_expirations (snd (tc_getOrDefault d c key now)) = tc_expirations ?c @ [(now + tc_ttl c, key)]"
      using e C(3) None n by simp
    ultimately show ?thesis using b C(2,3) None
      by (auto simp: tc_upto_def sorted_append tc_getOrDefault_def Let_def)
  next
    case (Some v)
    then have "snd (tc_getOrDefault d c key now) = ?c" by (simp add: tc_getOrDefault_def Let_def)
    with C(1-3) b show ?thesis by (auto simp: tc_upto_def)
  qed
qed

section \<open>Duplicate suppression\<close>

text \<open>
  The contract of a cache that suppresses duplicates for a time: \<open>add\<close> accepts a key
  exactly when it is not live, and an accepted key is live for \<open>ttl\<close> from the reading
  of the clock at its insertion.
\<close>

locale suppression =
  fixes upto :: "'c \<Rightarrow> time \<Rightarrow> bool"
    and live :: "'c \<Rightarrow> 'k \<Rightarrow> time \<Rightarrow> bool"
    and add :: "'c \<Rightarrow> 'k \<Rightarrow> time \<Rightarrow> time \<Rightarrow> bool \<times> 'c"
    and ttl :: "'c \<Rightarrow> time"
  assumes add_accepts: "upto c T \<Longrightarrow> T \<le> now \<Longrightarrow> now \<le> clock \<Longrightarrow> fst (add c k now clock) \<longleftrightarrow> \<not> live c k now"
    and add_upto: "upto c T \<Longrightarrow> T \<le> now \<Longrightarrow> now \<le> clock \<Longrightarrow> upto (snd (add c k now clock)) clock"
    and add_ttl: "upto c T \<Longrightarrow> T \<le> now \<Longrightarrow> now \<le> clock \<Longrightarrow> ttl (snd (add c k now clock)) = ttl c"
    and add_live: "upto c T \<Longrightarrow> T \<le> now \<Longrightarrow> now \<le> clock \<Longrightarrow> clock \<le> x \<Longrightarrow>
      live (snd (add c k now clock)) k' x \<longleftrightarrow>
        live c k' x \<or> fst (add c k now clock) \<and> k' = k \<and> x < clock + ttl c"
begin

primrec run :: "'c \<Rightarrow> ('k \<times> time \<times> time) list \<Rightarrow> bool list" where
  "run c [] = []"
| "run c (e # es) = (case e of (k, now, clock) \<Rightarrow> let (r, c') = add c k now clock in r # run c' es)"

end

text \<open>The reference: a key is accepted unless it was accepted less than \<open>ttl\<close> ago.\<close>

fun accept_ref :: "time \<Rightarrow> ('k \<times> time) list \<Rightarrow> ('k \<times> time \<times> time) list \<Rightarrow> bool list" where
  "accept_ref ttl accepted [] = []"
| "accept_ref ttl accepted ((k, now, clock) # es) =
     (let r = list_all (\<lambda>(k', t). k' = k \<longrightarrow> t + ttl \<le> now) accepted
      in r # accept_ref ttl (if r then (k, clock) # accepted else accepted) es)"

text \<open>The readings of the clock do not go back.\<close>

fun clocked :: "time \<Rightarrow> ('k \<times> time \<times> time) list \<Rightarrow> bool" where
  "clocked T [] \<longleftrightarrow> True"
| "clocked T ((k, now, clock) # es) \<longleftrightarrow> T \<le> now \<and> now \<le> clock \<and> clocked clock es"

context suppression
begin

lemma run_ref:
  assumes "upto c T" and "clocked T es"
    and "\<And>k x. T \<le> x \<Longrightarrow> live c k x \<longleftrightarrow> (\<exists>t. (k, t) \<in> set accepted \<and> x < t + ttl c)"
  shows "run c es = accept_ref (ttl c) accepted es"
  using assms
proof (induction es arbitrary: c T accepted)
  case (Cons e es)
  obtain k now clock where e: "e = (k, now, clock)" by (cases e)
  with Cons.prems(2) have t: "T \<le> now" "now \<le> clock" "clocked clock es" by auto
  let ?c = "snd (add c k now clock)" and ?r = "fst (add c k now clock)"
  let ?acc = "if ?r then (k, clock) # accepted else accepted"
  note U = Cons.prems(1) t(1,2)
  have r: "?r \<longleftrightarrow> list_all (\<lambda>(k', t). k' = k \<longrightarrow> t + ttl c \<le> now) accepted"
    unfolding add_accepts [OF U] Cons.prems(3) [OF t(1)] by (auto simp: list_all_iff not_less)
  have "live ?c k' x \<longleftrightarrow> (\<exists>t. (k', t) \<in> set ?acc \<and> x < t + ttl ?c)" if "clock \<le> x" for k' x
  proof -
    have "T \<le> x" using t that by linarith
    then show ?thesis
      unfolding add_live [OF U that] Cons.prems(3) [OF \<open>T \<le> x\<close>] add_ttl [OF U] by auto
  qed
  then have "run ?c es = accept_ref (ttl ?c) ?acc es"
    using t(3) add_upto [OF U] by (intro Cons.IH) auto
  then show ?case using r by (simp add: e case_prod_beta Let_def add_ttl [OF U])
qed simp

end

lemma dc_insert_fst: "tc_upto c T \<Longrightarrow> fst (dc_insert c k now clock) \<longleftrightarrow> \<not> tc_live c k now"
  using tc_clearExpired_upto(4) [of c T now k] by (simp add: dc_insert_def Let_def)

lemma dc_insert_snd:
  assumes "tc_upto c T" and "T \<le> now" and "now \<le> clock"
  shows "tc_upto (snd (dc_insert c k now clock)) clock" and "tc_ttl (snd (dc_insert c k now clock)) = tc_ttl c"
    and "clock \<le> x \<Longrightarrow> tc_live (snd (dc_insert c k now clock)) k' x \<longleftrightarrow>
      tc_live c k' x \<or> fst (dc_insert c k now clock) \<and> k' = k \<and> x < clock + tc_ttl c"
proof -
  note C = tc_clearExpired_upto [OF assms(1), where now = now]
  have T: "T \<le> clock" using assms by linarith
  note G = tc_getOrDefault_upto [OF C(1) T, of "()" k]
  show "tc_upto (snd (dc_insert c k now clock)) clock"
    using C(1,4) G(1) T by (auto simp: dc_insert_def Let_def tc_upto_def)
  show "tc_ttl (snd (dc_insert c k now clock)) = tc_ttl c"
    using C(2) G(2) by (simp add: dc_insert_def Let_def)
  assume x: "clock \<le> x"
  have l: "tc_live (tc_clearExpired c now) k' x \<longleftrightarrow> tc_live c k' x" for k'
    using x assms(3) by (auto simp: tc_live_def C(3))
  show "tc_live (snd (dc_insert c k now clock)) k' x \<longleftrightarrow>
      tc_live c k' x \<or> fst (dc_insert c k now clock) \<and> k' = k \<and> x < clock + tc_ttl c"
  proof (cases "tc_live c k now")
    case True
    then show ?thesis using C(4) [of k] l by (simp add: dc_insert_def Let_def)
  next
    case False
    then have n: "\<not> tc_live (tc_clearExpired c now) k clock"
      using assms(3) by (auto simp: tc_live_def C(3))
    have "tc_live (snd (tc_getOrDefault () (tc_clearExpired c now) k clock)) k' x \<longleftrightarrow>
        tc_live (tc_clearExpired c now) k' x \<or> k' = k \<and> x < clock + tc_ttl c"
      using x n by (auto simp: tc_live_def G(3) C(2))
    with False C(4) [of k] l show ?thesis by (simp add: dc_insert_def Let_def)
  qed
qed

interpretation dc: suppression tc_upto tc_live dc_insert tc_ttl
  by unfold_locales (simp_all add: dc_insert_fst dc_insert_snd)

primrec dc_run :: "'k DuplicateCache \<Rightarrow> ('k \<times> time \<times> time) list \<Rightarrow> bool list" where
  "dc_run c [] = []"
| "dc_run c (e # es) = (case e of (k, now, clock) \<Rightarrow> let (r, c') = dc_insert c k now clock in r # dc_run c' es)"

lemma dc_run_eq: "dc_run c es = dc.run c es"
  by (induction es arbitrary: c) (auto simp: case_prod_beta Let_def)

lemma tc_upto_new: "0 \<le> ttl \<Longrightarrow> tc_upto (TimeCache_new ttl) T"
  by (simp add: tc_upto_def tc_inv_def TimeCache_new_def)

text \<open>
  \<^bold>\<open>C37\<close> (equivalence). From an empty \<open>DuplicateCache\<close>, on any sequence of insertions
  with clock readings that do not go back, \<open>insert\<close> answers like the reference: a key is
  accepted exactly when it was not accepted within the last \<open>ttl\<close>. So no message id is
  accepted twice within the duplicate time, and none is suppressed longer.
\<close>

theorem duplicate_cache_window:
  assumes "0 \<le> ttl" and "clocked T es"
  shows "dc_run (TimeCache_new ttl) es = accept_ref ttl [] es"
proof -
  have "tc_ttl (TimeCache_new ttl :: ('a, unit) TimeCache) = ttl" by (simp add: TimeCache_new_def)
  then show ?thesis
    using dc.run_ref [OF tc_upto_new [OF assms(1)] assms(2), of "[]"]
    by (simp add: dc_run_eq tc_live_def TimeCache_new_def)
qed

theorem duplicate_cache_window_witness:
  "dc_run (TimeCache_new 60) [(CHR ''a'', 0, 0), (CHR ''b'', 10, 11), (CHR ''a'', 59, 59), (CHR ''a'', 60, 61)]
     = [True, True, False, True]"
  using duplicate_cache_window [of 60 0 "[(CHR ''a'', 0, 0), (CHR ''b'', 10, 11), (CHR ''a'', 59, 59), (CHR ''a'', 60, 61)]"]
  by simp

section \<open>The bounded set\<close>

lemma tc_size_expirations: "tc_inv c \<Longrightarrow> tc_size c = length (tc_expirations c)"
  unfolding tc_inv_def tc_size_def by (metis distinct_card length_map)

lemma tc_popFront_upto:
  assumes "tc_upto c T" and "tc_size c \<noteq> 0"
  obtains c' where "tc_popFront c = Returns c'" and "tc_upto c' T" and "tc_ttl c' = tc_ttl c"
    and "tc_expirations c' = tl (tc_expirations c)" and "tc_size c' = tc_size c - 1"
proof -
  have inv: "tc_inv c" using assms(1) by (simp add: tc_upto_def)
  obtain t k es where e: "tc_expirations c = (t, k) # es"
    using assms(2) tc_size_expirations [OF inv] by (cases "tc_expirations c") auto
  let ?c = "c\<lparr>tc_map := AList.delete k (tc_map c), tc_expirations := es\<rparr>"
  have inv': "tc_inv ?c" using inv e by (auto simp: tc_inv_def delete_keys distinct_removeAll)
  have "tc_upto ?c T" using assms(1) inv' e by (auto simp: tc_upto_def)
  moreover have "tc_size ?c = tc_size c - 1"
    using tc_size_expirations [OF inv] tc_size_expirations [OF inv'] e by simp
  ultimately show thesis using that [of ?c] e by (simp add: tc_popFront_def)
qed

lemma tc_getOrDefault_size:
  assumes "tc_upto c T" and "T \<le> now"
  shows "tc_size (snd (tc_getOrDefault d c key now)) \<le> Suc (tc_size c)"
    and "tc_contains (snd (tc_getOrDefault d c key now)) key"
proof -
  note G = tc_getOrDefault_upto [OF assms, of d key]
  have inv: "tc_inv c" "tc_inv (snd (tc_getOrDefault d c key now))"
    using assms(1) G(1) by (simp_all add: tc_upto_def)
  show "tc_size (snd (tc_getOrDefault d c key now)) \<le> Suc (tc_size c)"
    using tc_size_expirations [OF inv(1)] tc_size_expirations [OF inv(2)] G(3)
      length_filter_le [of "\<lambda>(t, k). now < t" "tc_expirations c"] by (auto intro: le_SucI)
  show "tc_contains (snd (tc_getOrDefault d c key now)) key"
    unfolding tc_contains_iff [OF inv(2)] G(3) by (force simp: tc_live_def)
qed

lemma iw_insert_ok:
  assumes "tc_upto c T" and "tc_size c \<le> kCapacity" and "T \<le> clock"
  shows "\<exists>c'. iw_insert c key clock = Returns c' \<and> tc_upto c' clock \<and> tc_size c' \<le> kCapacity \<and> iw_contains c' key"
proof (cases "tc_contains c key")
  case True
  then show ?thesis using assms by (auto simp: iw_insert_def iw_contains_def tc_upto_def)
next
  case False
  have k: "kCapacity \<noteq> 0" by (simp add: kCapacity_def)
  obtain c1 where c1: "(if tc_size c \<ge> kCapacity then tc_popFront c else Returns c) = Returns c1"
      "tc_upto c1 T" "tc_size c1 < kCapacity"
  proof (cases "tc_size c \<ge> kCapacity")
    case True
    with k have nz: "tc_size c \<noteq> 0" by simp
    show thesis
      by (rule tc_popFront_upto [OF assms(1) nz]) (use that True assms(2) nz in auto)
  qed (use that assms(1) in simp)
  note G = tc_getOrDefault_upto(1) [OF c1(2) assms(3), of "()" key] tc_getOrDefault_size [OF c1(2) assms(3), of "()" key]
  then show ?thesis using False c1 by (auto simp: iw_insert_def iw_contains_def)
qed

fun iw_run :: "'k IDontWantCache \<Rightarrow> ('k \<times> time) list \<Rightarrow> 'k IDontWantCache cxx" where
  "iw_run c [] = Returns c"
| "iw_run c ((k, clock) # es) = bind_cxx (iw_insert c k clock) (\<lambda>c'. iw_run c' es)"

lemma iw_run_ok:
  assumes "tc_upto c T" and "tc_size c \<le> kCapacity" and "sorted (T # map snd es)"
  shows "\<exists>c' T'. iw_run c es = Returns c' \<and> tc_upto c' T' \<and> tc_size c' \<le> kCapacity
    \<and> (es \<noteq> [] \<longrightarrow> iw_contains c' (fst (last es)))"
  using assms
proof (induction es arbitrary: c T)
  case (Cons e es)
  obtain k clock where e: "e = (k, clock)" by (cases e)
  from iw_insert_ok [OF Cons.prems(1,2), of clock k] Cons.prems(3) e obtain c1 where
    c1: "iw_insert c k clock = Returns c1" "tc_upto c1 clock" "tc_size c1 \<le> kCapacity" "iw_contains c1 k" by auto
  show ?case
  proof (cases "es = []")
    case True
    with c1 e show ?thesis by auto
  next
    case False
    have "sorted (clock # map snd es)" using Cons.prems(3) e by auto
    from Cons.IH [OF c1(2,3) this] c1(1) e False show ?thesis by auto
  qed
qed auto

text \<open>
  However many message ids are inserted into an \<open>IDontWantCache\<close>, it
  never holds more than its capacity, the eviction never throws, and the id inserted
  last is in the set.
\<close>

theorem idontwant_bounded:
  assumes "sorted (map snd es)" and "es \<noteq> []"
  shows "\<exists>c. iw_run IDontWantCache_new es = Returns c \<and> tc_size c \<le> kCapacity \<and> iw_contains c (fst (last es))"
proof -
  have "sorted (snd (hd es) # map snd es)" using assms by (cases es) auto
  moreover have "tc_upto IDontWantCache_new (snd (hd es))" "tc_size IDontWantCache_new \<le> kCapacity"
    by (simp_all add: IDontWantCache_new_def tc_upto_def tc_inv_def kTtl_def tc_size_def TimeCache_new_def)
  ultimately show ?thesis using iw_run_ok [of IDontWantCache_new "snd (hd es)" es] assms(2) by auto
qed

theorem idontwant_bounded_witness:
  "\<exists>c. iw_run IDontWantCache_new [(CHR ''a'', 1), (CHR ''b'', 2)] = Returns c
     \<and> tc_size c \<le> kCapacity \<and> iw_contains c CHR ''b''"
  using idontwant_bounded [of "[(CHR ''a'', 1), (CHR ''b'', 2)]"] by simp

section \<open>Promises\<close>

definition gp_inv :: "('m, 'p) GossipPromises \<Rightarrow> bool" where
  "gp_inv g \<longleftrightarrow>
     distinct (map fst (gp_map g)) \<and>
     (\<forall>(m, inner) \<in> set (gp_map g). inner \<noteq> [] \<and> distinct (map fst inner))"

text \<open>The deadline of the promise of a peer for a message.\<close>

definition deadline :: "('m, ('p, time) alist) alist \<Rightarrow> 'm \<Rightarrow> 'p \<Rightarrow> time option" where
  "deadline gm m p = (case map_of gm m of None \<Rightarrow> None | Some inner \<Rightarrow> map_of inner p)"

definition hist_count :: "('p, nat) alist \<Rightarrow> 'p \<Rightarrow> nat" where
  "hist_count h p = (case map_of h p of None \<Rightarrow> 0 | Some n \<Rightarrow> n)"

lemma hist_count_bump [simp]: "hist_count (bump p h) q = hist_count h q + (if p = q then 1 else 0)"
  by (auto simp: hist_count_def bump_def update_conv' split: option.splits)

lemma emplace_props:
  "map_of (emplace k v m) = (if map_of m k = None then (map_of m)(k \<mapsto> v) else map_of m)"
  "emplace k v m \<noteq> []" "distinct (map fst m) \<Longrightarrow> distinct (map fst (emplace k v m))"
proof -
  show "map_of (emplace k v m) = (if map_of m k = None then (map_of m)(k \<mapsto> v) else map_of m)"
    by (cases "map_of m k") (auto simp: emplace_def map_add_def fun_eq_iff split: option.splits)
  show "emplace k v m \<noteq> []" by (cases "map_of m k") (auto simp: emplace_def)
  show "distinct (map fst m) \<Longrightarrow> distinct (map fst (emplace k v m))"
    using map_of_eq_None_iff [of m k] by (cases "map_of m k") (auto simp: emplace_def)
qed

lemma gp_add_inv:
  assumes "gp_inv g"
  shows "gp_inv (gp_add g m p now)"
    and "deadline (gp_map (gp_add g m p now)) m' p' =
      (if m' = m \<and> p' = p \<and> deadline (gp_map g) m p = None then Some (now + gp_ttl g) else deadline (gp_map g) m' p')"
proof -
  let ?inner = "case map_of (gp_map g) m of None \<Rightarrow> [] | Some i \<Rightarrow> i"
  have d: "distinct (map fst ?inner)"
    using assms by (auto simp: gp_inv_def split: option.splits dest!: map_of_SomeD)
  let ?new = "emplace p (now + gp_ttl g) ?inner"
  have du: "distinct (map fst (AList.update m ?new (gp_map g)))"
    using assms by (simp add: gp_inv_def distinct_update)
  have "inner \<noteq> [] \<and> distinct (map fst inner)"
    if "(m', inner) \<in> set (AList.update m ?new (gp_map g))" for m' inner
  proof -
    have "map_of (AList.update m ?new (gp_map g)) m' = Some inner" using that du by simp
    then show ?thesis
      using assms emplace_props(2) [of p "now + gp_ttl g" ?inner] emplace_props(3) [OF d, of p "now + gp_ttl g"]
      by (cases "m' = m") (auto simp: gp_inv_def update_conv' dest!: map_of_SomeD)
  qed
  with du show "gp_inv (gp_add g m p now)" by (auto simp: gp_inv_def gp_add_def Let_def)
  show "deadline (gp_map (gp_add g m p now)) m' p' =
      (if m' = m \<and> p' = p \<and> deadline (gp_map g) m p = None then Some (now + gp_ttl g) else deadline (gp_map g) m' p')"
    by (auto simp: deadline_def gp_add_def Let_def update_conv' emplace_props(1) split: option.splits)
qed

lemma expire_inner_ok:
  "expire_inner now h inner = (h', inner') \<Longrightarrow> distinct (map fst inner) \<Longrightarrow>
   inner' = filter (\<lambda>(p, t). \<not> t < now) inner \<and>
   hist_count h' p = hist_count h p + (if \<exists>t. map_of inner p = Some t \<and> t < now then 1 else 0)"
proof (induction inner arbitrary: h h' inner')
  case (Cons a inner)
  obtain q t where a: "a = (q, t)" by (cases a)
  obtain h1 i1 where r: "expire_inner now (if t < now then bump q h else h) inner = (h1, i1)"
    by (cases "expire_inner now (if t < now then bump q h else h) inner")
  have "map_of inner q = None" using Cons.prems(2) a by (simp add: map_of_eq_None_iff)
  with Cons.IH [OF r] Cons.prems a r show ?case by (auto split: if_splits)
qed simp

lemma expire_outer_ok:
  assumes "expire_outer now h gm = (h', gm')" and "distinct (map fst gm)"
    and "\<forall>(m, inner) \<in> set gm. distinct (map fst inner)"
  shows "gm' = filter (\<lambda>(m, inner). inner \<noteq> []) (map (\<lambda>(m, inner). (m, filter (\<lambda>(p, t). \<not> t < now) inner)) gm)
    \<and> hist_count h' p = hist_count h p
        + length (filter (\<lambda>(m, inner). \<exists>t. map_of inner p = Some t \<and> t < now) gm)"
  using assms
proof (induction gm arbitrary: h h' gm')
  case (Cons a gm)
  obtain m inner where a: "a = (m, inner)" by (cases a)
  obtain h1 i1 where r1: "expire_inner now h inner = (h1, i1)" by (cases "expire_inner now h inner")
  obtain h2 g2 where r2: "expire_outer now h1 gm = (h2, g2)" by (cases "expire_outer now h1 gm")
  have "distinct (map fst inner)" using Cons.prems(3) a by simp
  note i = expire_inner_ok [OF r1 this, of p]
  have "h' = h2" "gm' = (if i1 = [] then g2 else (m, i1) # g2)" using Cons.prems(1) a r1 r2 by auto
  with Cons.IH [OF r2] Cons.prems(2,3) i show ?case by (auto simp: a)
qed simp

lemma map_of_nonempty_values:
  "distinct (map fst gm) \<Longrightarrow>
   map_of (filter (\<lambda>(m, inner). inner \<noteq> []) (map (\<lambda>(m, inner). (m, f inner)) gm)) m =
     (case map_of gm m of None \<Rightarrow> None | Some inner \<Rightarrow> if f inner = [] then None else Some (f inner))"
proof (induction gm)
  case (Cons a gm)
  obtain m' inner where a: "a = (m', inner)" by (cases a)
  then have "map_of gm m' = None" using Cons.prems by (simp add: map_of_eq_None_iff)
  with Cons a show ?case by auto
qed simp

lemma length_filter_values:
  assumes "distinct (map fst al)"
  shows "length (filter (\<lambda>(k, v). P v) al) = card {k. \<exists>v. map_of al k = Some v \<and> P v}"
proof -
  have "length (filter (\<lambda>(k, v). P v) al) = card (set (map fst (filter (\<lambda>(k, v). P v) al)))"
    using distinct_card [OF distinct_map_filter [OF assms]] by (metis length_map)
  also have "set (map fst (filter (\<lambda>(k, v). P v) al)) = {k. \<exists>v. map_of al k = Some v \<and> P v}"
    using assms by (force dest: map_of_SomeD)
  finally show ?thesis .
qed

text \<open>
  \<open>GossipPromises::clearExpired\<close> drops exactly the promises
  whose deadline has passed, keeps the others with their deadlines, counts for every peer
  how many of its promises it dropped, and keeps a message only while a promise for it
  remains.
\<close>

theorem promises_clearExpired:
  assumes "gp_inv g" and "gp_clearExpired g now = (h, g')"
  shows "gp_inv g'
    \<and> deadline (gp_map g') m p =
        (case deadline (gp_map g) m p of None \<Rightarrow> None | Some t \<Rightarrow> if t < now then None else Some t)
    \<and> hist_count h p = card {m. \<exists>t. deadline (gp_map g) m p = Some t \<and> t < now}
    \<and> (gp_contains g' m \<longleftrightarrow> (\<exists>q. deadline (gp_map g') m q \<noteq> None))"
proof -
  let ?live = "\<lambda>inner. filter (\<lambda>(p, t). \<not> t < now) inner"
  obtain gm' where r: "expire_outer now [] (gp_map g) = (h, gm')" and g': "g' = g\<lparr>gp_map := gm'\<rparr>"
    using assms(2) by (auto simp: gp_clearExpired_def split: prod.splits)
  have d: "distinct (map fst (gp_map g))" and di: "\<forall>(m, inner) \<in> set (gp_map g). distinct (map fst inner)"
    using assms(1) by (auto simp: gp_inv_def)
  from expire_outer_ok [OF r d di, of p] have
    gm': "gm' = filter (\<lambda>(m, inner). inner \<noteq> []) (map (\<lambda>(m, inner). (m, ?live inner)) (gp_map g))" and
    h: "hist_count h p = length (filter (\<lambda>(m, inner). \<exists>t. map_of inner p = Some t \<and> t < now) (gp_map g))"
    by (auto simp: hist_count_def)
  have dist': "distinct (map fst gm')"
    unfolding gm' by (intro distinct_map_filter) (use d in \<open>simp add: o_def case_prod_unfold\<close>)
  have inner': "inner \<noteq> [] \<and> distinct (map fst inner)" if "(m, inner) \<in> set gm'" for m inner
    using that di unfolding gm' by (auto simp: distinct_map_filter)
  have inv': "gp_inv g'" using dist' inner' by (auto simp: g' gp_inv_def)
  have mo: "map_of gm' m = (case map_of (gp_map g) m of None \<Rightarrow> None
      | Some inner \<Rightarrow> if ?live inner = [] then None else Some (?live inner))" for m
    unfolding gm' by (rule map_of_nonempty_values [OF d])
  have dl: "deadline gm' m q = (case deadline (gp_map g) m q of None \<Rightarrow> None | Some t \<Rightarrow> if t < now then None else Some t)"
    for m q
  proof (cases "map_of (gp_map g) m")
    case (Some inner)
    then have "distinct (map fst inner)" using di by (auto dest!: map_of_SomeD)
    note f = map_of_filter_distinct [OF this, of "\<lambda>t. \<not> t < now" q]
    show ?thesis using f by (cases "?live inner = []") (auto simp: deadline_def mo Some split: option.splits)
  qed (simp add: deadline_def mo)
  have "gp_contains g' m \<longleftrightarrow> (\<exists>q. deadline (gp_map g') m q \<noteq> None)"
  proof (cases "map_of gm' m")
    case (Some inner)
    then have "inner \<noteq> []" using inner' by (auto dest!: map_of_SomeD)
    then obtain q t where "(q, t) \<in> set inner" by (cases inner) auto
    then have "map_of inner q \<noteq> None" using map_of_eq_None_iff [of inner q] by force
    with Some show ?thesis by (auto simp: gp_contains_def deadline_def g')
  qed (simp add: gp_contains_def deadline_def g')
  moreover have "hist_count h p = card {m. \<exists>t. deadline (gp_map g) m p = Some t \<and> t < now}"
  proof -
    have "{m. \<exists>t. deadline (gp_map g) m p = Some t \<and> t < now} =
        {m. \<exists>inner. map_of (gp_map g) m = Some inner \<and> (\<exists>t. map_of inner p = Some t \<and> t < now)}"
      by (auto simp: deadline_def split: option.splits)
    then show ?thesis using h length_filter_values [OF d, of "\<lambda>inner. \<exists>t. map_of inner p = Some t \<and> t < now"] by simp
  qed
  ultimately show ?thesis using inv' dl by (simp add: g')
qed

theorem promises_clearExpired_witness:
  "gp_clearExpired (gp_add (GossipPromises_new 3) (1 :: nat) CHR ''p'' 0) 4 = ([(CHR ''p'', 1)], GossipPromises_new 3)
   \<and> card {m. \<exists>t. deadline (gp_map (gp_add (GossipPromises_new 3) (1 :: nat) CHR ''p'' 0)) m CHR ''p'' = Some t \<and> t < 4} = 1"
proof -
  let ?g = "gp_add (GossipPromises_new 3) (1 :: nat) CHR ''p'' 0"
  have inv: "gp_inv ?g" by (rule gp_add_inv) (simp add: gp_inv_def GossipPromises_new_def)
  have run: "gp_clearExpired ?g 4 = ([(CHR ''p'', 1)], GossipPromises_new 3)" by code_simp
  have "hist_count [(CHR ''p'', 1)] CHR ''p'' = 1" by code_simp
  with promises_clearExpired [OF inv run, of 1 "CHR ''p''"] run show ?thesis by simp
qed

end
