(* ===== verification/Backoff.thy ===== *)
theory Backoff
  imports Prelude
begin

text \<open>
  The small data structures of \<open>src/protocol/gossip/gossip.cpp\<close>: the subscription batch
  (\<open>Rpc::subscribe\<close>), the sliding window of message ids (\<open>History\<close>) and the circular
  buffer of backoffs (\<open>TopicBackoff\<close>). Sizes and slot numbers are natural numbers: the
  slot counter advances once a heartbeat and stays far below \<open>2 ^ 64\<close>.
\<close>

definition saturating_sub :: "nat \<Rightarrow> nat \<Rightarrow> nat" where
  "saturating_sub a b = (if a \<ge> b then a - b else 0)"

lemma saturating_sub_eq [simp]: "saturating_sub a b = a - b"
  by (simp add: saturating_sub_def)

section \<open>Subscriptions of a batch\<close>

text \<open>\<open>Rpc::subscribe\<close>: an opposite toggle cancels the one in the batch.\<close>

definition rpc_subscribe :: "('t, bool) alist \<Rightarrow> 't \<Rightarrow> bool \<Rightarrow> ('t, bool) alist" where
  "rpc_subscribe subs topic_hash subscribe =
     (case map_of subs topic_hash of
        None \<Rightarrow> subs @ [(topic_hash, subscribe)]
      | Some s \<Rightarrow> if s \<noteq> subscribe then AList.delete topic_hash subs else subs)"

section \<open>History\<close>

type_synonym 'm History = "'m list list"

definition History_new :: "nat \<Rightarrow> 'm History option" where
  "History_new slots = (if slots > 0 then Some (replicate slots []) else None)"

fun history_add :: "'m History \<Rightarrow> 'm \<Rightarrow> 'm History" where
  "history_add (slot # slots) m = (slot @ [m]) # slots"
| "history_add [] m = []"

definition history_shift :: "'m History \<Rightarrow> 'm list \<times> 'm History" where
  "history_shift h = (last h, [] # butlast h)"

fun history_collect :: "nat \<Rightarrow> nat \<Rightarrow> 'm list \<Rightarrow> 'm History \<Rightarrow> 'm list" where
  "history_collect slots i result [] = result"
| "history_collect slots i result (slot # rest) =
     (if i \<ge> slots then result else history_collect slots (i + 1) (result @ slot) rest)"

definition history_get :: "'m History \<Rightarrow> nat \<Rightarrow> 'm list" where
  "history_get h slots = history_collect slots 0 [] h"

lemma history_collect_eq: "history_collect slots i result h = result @ concat (take (slots - i) h)"
  by (induction h arbitrary: i result) (auto simp: take_Cons' Suc_diff_le)

lemma history_get_eq: "history_get h slots = concat (take slots h)"
  by (simp add: history_get_def history_collect_eq)

text \<open>The ids added between two advances of the window, for a sequence of advances.\<close>

fun history_run :: "'m History \<Rightarrow> 'm list list \<Rightarrow> 'm list list \<times> 'm History" where
  "history_run h [] = ([], h)"
| "history_run h (ms # rest) =
     (let h1 = foldl history_add h ms;
          (removed, h2) = history_shift h1;
          (out, h3) = history_run h2 rest
      in (removed # out, h3))"

lemma foldl_history_add: "foldl history_add (slot # slots) ms = (slot @ ms) # slots"
  by (induction ms arbitrary: slot) simp_all

text \<open>A window between two advances: an empty newest slot before the older ones.\<close>

lemma history_run_window:
  "h \<noteq> [] \<Longrightarrow>
   history_run ([] # h) mss =
     (map (\<lambda>i. (rev h @ mss) ! i) [0..<length mss],
      [] # rev (drop (length mss) (rev h @ mss)))"
proof (induction mss arbitrary: h)
  case (Cons ms mss)
  have step: "history_run ([] # h) (ms # mss) =
      (let (out, h3) = history_run ([] # ms # butlast h) mss in (last h # out, h3))"
    using Cons.prems by (simp add: foldl_history_add history_shift_def)
  have "rev h = last h # rev (butlast h)" using Cons.prems by (metis append_butlast_last_id rev_eq_Cons_iff rev_rev_ident)
  then have r: "rev h @ ms # mss = last h # rev (ms # butlast h) @ mss" by simp
  have "map (\<lambda>i. (rev h @ ms # mss) ! i) [0..<length (ms # mss)] =
      last h # map (\<lambda>i. (rev (ms # butlast h) @ mss) ! i) [0..<length mss]"
    unfolding r by (simp add: upt_conv_Cons map_Suc_upt [symmetric] del: upt_Suc)
  moreover have "drop (length (ms # mss)) (rev h @ ms # mss) = drop (length mss) (rev (ms # butlast h) @ mss)"
    unfolding r by simp
  ultimately show ?case
    unfolding step using Cons.IH [of "ms # butlast h"] by simp
qed simp

text \<open>
  A \<open>History\<close> of \<open>n\<close> slots keeps a message id for exactly \<open>n\<close>
  advances of the window: feeding it batches of ids, one before each advance, the
  \<open>k\<close>-th advance from the \<open>n\<close>-th on removes the batch added \<open>n - 1\<close> advances before,
  in order, and \<open>get\<close> returns the newest slots.
\<close>

theorem history_window:
  assumes "n > 1" and "History_new n = Some h" and "history_run h mss = (out, h')" and "k < length mss"
  shows "out ! k = (if k < n - 1 then [] else mss ! (k - (n - 1)))
    \<and> history_get h' slots = concat (take slots ([] # rev (drop (length mss) (replicate (n - 1) [] @ mss))))"
proof -
  have h: "h = [] # replicate (n - 1) []" using assms(1,2) by (cases n) (auto simp: History_new_def)
  have "replicate (n - 1) [] \<noteq> ([] :: 'a list list)" using assms(1) by simp
  note run = history_run_window [OF this, of mss, folded h, simplified]
  have out: "out = map (\<lambda>i. (replicate (n - 1) [] @ mss) ! i) [0..<length mss]"
    and h': "h' = [] # rev (drop (length mss) (replicate (n - 1) [] @ mss))"
    using run assms(3) by simp_all
  show ?thesis using assms(4) by (simp add: out h' nth_append history_get_eq)
qed

theorem history_window_witness:
  "fst (history_run (replicate 3 []) [[CHR ''a''], [CHR ''b''], [CHR ''c''], []]) ! 2 = [CHR ''a'']"
proof -
  obtain out h' where r: "history_run (replicate 3 []) [[CHR ''a''], [CHR ''b''], [CHR ''c''], []] = (out, h')"
    by (metis surj_pair)
  have "History_new 3 = Some (replicate 3 ([] :: char list))" by (simp add: History_new_def)
  from history_window [OF _ this r, of 2 0] r show ?thesis by simp
qed

section \<open>Backoff\<close>

text \<open>
  \<open>slots_\<close> is a circular buffer of lists of peers and \<open>peers_\<close> maps a peer to its
  absolute slot number and an iterator into the list of that slot; a peer occurs at most
  once in a list, so the iterator is the peer itself.
\<close>

record 'p TopicBackoff =
  tb_slots :: "'p list list"
  tb_slot :: nat
  tb_peers :: "('p, nat) alist"

definition TopicBackoff_new :: "nat \<Rightarrow> nat \<Rightarrow> nat \<Rightarrow> 'p TopicBackoff" where
  "TopicBackoff_new prune_backoff heartbeat_interval backoff_slack =
     \<lparr>tb_slots = replicate (prune_backoff div heartbeat_interval + backoff_slack + 1) [],
      tb_slot = 0, tb_peers = []\<rparr>"

definition tb_get :: "'p TopicBackoff \<Rightarrow> 'p \<Rightarrow> nat" where
  "tb_get b peer =
     (case map_of (tb_peers b) peer of None \<Rightarrow> 0 | Some first \<Rightarrow> saturating_sub first (tb_slot b))"

definition tb_update :: "'p TopicBackoff \<Rightarrow> 'p \<Rightarrow> nat \<Rightarrow> 'p TopicBackoff" where
  "tb_update b peer slots =
     (if slots = 0 then b
      else
        (let slots' = min slots (length (tb_slots b) - 1);
             slot = tb_slot b + slots';
             i = slot mod length (tb_slots b)
         in case map_of (tb_peers b) peer of
              Some first \<Rightarrow>
                if slot \<le> first then b
                else
                  (let j = first mod length (tb_slots b);
                       erased = (tb_slots b)[j := remove1 peer (tb_slots b ! j)]
                   in b\<lparr>tb_slots := erased[i := erased ! i @ [peer]],
                        tb_peers := AList.update peer slot (tb_peers b)\<rparr>)
            | None \<Rightarrow>
                b\<lparr>tb_slots := (tb_slots b)[i := tb_slots b ! i @ [peer]],
                  tb_peers := tb_peers b @ [(peer, slot)]\<rparr>))"

definition tb_shift :: "'p TopicBackoff \<Rightarrow> 'p TopicBackoff" where
  "tb_shift b =
     (let i = tb_slot b mod length (tb_slots b)
      in b\<lparr>tb_peers := foldl (\<lambda>m peer. AList.delete peer m) (tb_peers b) (tb_slots b ! i),
           tb_slots := (tb_slots b)[i := []],
           tb_slot := tb_slot b + 1\<rparr>)"

subsection \<open>Invariant\<close>

text \<open>
  The map and the lists agree: a peer is in the list of a slot exactly when the map sends
  it to a slot number of that residue, and slot numbers lie in one turn of the buffer.
\<close>

definition tb_inv :: "'p TopicBackoff \<Rightarrow> bool" where
  "tb_inv b \<longleftrightarrow>
     tb_slots b \<noteq> [] \<and>
     (\<forall>i < length (tb_slots b). distinct (tb_slots b ! i)) \<and>
     (\<forall>i < length (tb_slots b). \<forall>p. p \<in> set (tb_slots b ! i) \<longleftrightarrow>
        (\<exists>n. map_of (tb_peers b) p = Some n \<and> n mod length (tb_slots b) = i)) \<and>
     (\<forall>p n. map_of (tb_peers b) p = Some n \<longrightarrow> tb_slot b \<le> n \<and> n < tb_slot b + length (tb_slots b))"

lemma tb_inv_new: "tb_inv (TopicBackoff_new pb hb slack)"
  by (simp add: tb_inv_def TopicBackoff_new_def del: replicate_Suc)

lemma map_of_foldl_delete:
  "map_of (foldl (\<lambda>m peer. AList.delete peer m) m ps) p = (if p \<in> set ps then None else map_of m p)"
  by (induction ps arbitrary: m) (auto simp: delete_conv')

lemma tb_shift_peers:
  assumes "tb_inv b"
  shows "map_of (tb_peers (tb_shift b)) p =
    (if map_of (tb_peers b) p = Some (tb_slot b) then None else map_of (tb_peers b) p)"
proof -
  let ?N = "length (tb_slots b)" and ?i = "tb_slot b mod length (tb_slots b)"
  have "?i < ?N" using assms by (simp add: tb_inv_def)
  then have "p \<in> set (tb_slots b ! ?i) \<longleftrightarrow> (\<exists>n. map_of (tb_peers b) p = Some n \<and> n mod ?N = ?i)"
    using assms by (simp add: tb_inv_def)
  moreover have "n = tb_slot b"
    if "map_of (tb_peers b) p = Some n" "n mod ?N = ?i" for n
  proof -
    have r: "tb_slot b \<le> n" "n < tb_slot b + ?N" using assms that(1) by (auto simp: tb_inv_def)
    then have "(n - tb_slot b) mod ?N = 0" using that(2) by (simp add: mod_eq_dvd_iff_nat mod_eq_0_iff_dvd)
    with r show ?thesis by simp
  qed
  ultimately show ?thesis by (auto simp: tb_shift_def Let_def map_of_foldl_delete)
qed

lemma tb_inv_shift:
  assumes "tb_inv b"
  shows "tb_inv (tb_shift b)"
proof -
  let ?N = "length (tb_slots b)" and ?s = "tb_slot b" and ?b = "tb_shift b"
  have N: "0 < ?N" using assms by (simp add: tb_inv_def)
  have sl: "tb_slots ?b = (tb_slots b)[?s mod ?N := []]" and st: "tb_slot ?b = ?s + 1"
    by (simp_all add: tb_shift_def Let_def)
  note peers = tb_shift_peers [OF assms]
  have range: "?s \<le> n" "n < ?s + ?N" if "map_of (tb_peers b) p = Some n" for p n
    using assms that by (auto simp: tb_inv_def)
  have same: "n = ?s" if "map_of (tb_peers b) p = Some n" "n mod ?N = ?s mod ?N" for p n
  proof -
    have "(n - ?s) mod ?N = 0" using that range by (simp add: mod_eq_dvd_iff_nat mod_eq_0_iff_dvd)
    with range [OF that(1)] show ?thesis by simp
  qed
  have mem: "p \<in> set (tb_slots b ! i) \<longleftrightarrow> (\<exists>n. map_of (tb_peers b) p = Some n \<and> n mod ?N = i)" if "i < ?N" for i p
    using assms that by (simp add: tb_inv_def)
  have dist: "distinct (tb_slots b ! i)" if "i < ?N" for i
    using assms that by (simp add: tb_inv_def)
  show ?thesis
    unfolding tb_inv_def sl st
  proof (intro conjI allI impI)
    show "(tb_slots b)[?s mod ?N := []] \<noteq> []" using N by auto
  next
    fix i
    assume "i < length ((tb_slots b)[?s mod ?N := []])"
    then have i: "i < ?N" by simp
    show "distinct ((tb_slots b)[?s mod ?N := []] ! i)"
      using dist [OF i] i by (cases "i = ?s mod ?N") simp_all
  next
    fix i p
    assume "i < length ((tb_slots b)[?s mod ?N := []])"
    then have i: "i < ?N" by simp
    show "p \<in> set ((tb_slots b)[?s mod ?N := []] ! i) \<longleftrightarrow>
        (\<exists>n. map_of (tb_peers ?b) p = Some n \<and> n mod length ((tb_slots b)[?s mod ?N := []]) = i)"
    proof (cases "i = ?s mod ?N")
      case True
      then show ?thesis using i same [of p] by (auto simp: peers)
    next
      case False
      then show ?thesis using mem [OF i, of p] by (auto simp: peers)
    qed
  next
    fix p n
    assume "map_of (tb_peers ?b) p = Some n"
    then have p: "map_of (tb_peers b) p = Some n" "n \<noteq> ?s" by (auto simp: peers split: if_splits)
    then show "?s + 1 \<le> n" "n < ?s + 1 + length ((tb_slots b)[?s mod ?N := []])"
      using range [OF p(1)] by auto
  qed
qed

lemma tb_update_parts:
  assumes "tb_inv b" and "0 < slots"
  defines "slot \<equiv> tb_slot b + min slots (length (tb_slots b) - 1)"
  shows "map_of (tb_peers (tb_update b peer slots)) p =
      (if p = peer \<and> (\<forall>n. map_of (tb_peers b) peer = Some n \<longrightarrow> n < slot) then Some slot else map_of (tb_peers b) p)"
    and "tb_slot (tb_update b peer slots) = tb_slot b"
    and "length (tb_slots (tb_update b peer slots)) = length (tb_slots b)"
    and "\<forall>i < length (tb_slots b).
      set (tb_slots (tb_update b peer slots) ! i) =
        (if \<forall>n. map_of (tb_peers b) peer = Some n \<longrightarrow> n < slot
         then (if i = slot mod length (tb_slots b) then insert peer (set (tb_slots b ! i)) else set (tb_slots b ! i) - {peer})
         else set (tb_slots b ! i))
      \<and> distinct (tb_slots (tb_update b peer slots) ! i)"
proof -
  let ?N = "length (tb_slots b)"
  have N: "0 < ?N" using assms(1) by (simp add: tb_inv_def)
  have dist: "distinct (tb_slots b ! i)" if "i < ?N" for i using assms(1) that by (simp add: tb_inv_def)
  have mem: "p \<in> set (tb_slots b ! i) \<longleftrightarrow> (\<exists>n. map_of (tb_peers b) p = Some n \<and> n mod ?N = i)" if "i < ?N" for i p
    using assms(1) that by (simp add: tb_inv_def)
  show "map_of (tb_peers (tb_update b peer slots)) p =
      (if p = peer \<and> (\<forall>n. map_of (tb_peers b) peer = Some n \<longrightarrow> n < slot) then Some slot else map_of (tb_peers b) p)"
    using assms(2)
    by (auto simp: tb_update_def Let_def slot_def update_conv' map_add_def split: option.splits)
  show "tb_slot (tb_update b peer slots) = tb_slot b" "length (tb_slots (tb_update b peer slots)) = ?N"
    by (auto simp: tb_update_def Let_def split: option.splits)
  show "\<forall>i < ?N. set (tb_slots (tb_update b peer slots) ! i) =
        (if \<forall>n. map_of (tb_peers b) peer = Some n \<longrightarrow> n < slot
         then (if i = slot mod ?N then insert peer (set (tb_slots b ! i)) else set (tb_slots b ! i) - {peer})
         else set (tb_slots b ! i))
      \<and> distinct (tb_slots (tb_update b peer slots) ! i)"
  proof (intro allI impI)
    fix i
    assume i: "i < ?N"
    show "set (tb_slots (tb_update b peer slots) ! i) =
        (if \<forall>n. map_of (tb_peers b) peer = Some n \<longrightarrow> n < slot
         then (if i = slot mod ?N then insert peer (set (tb_slots b ! i)) else set (tb_slots b ! i) - {peer})
         else set (tb_slots b ! i))
      \<and> distinct (tb_slots (tb_update b peer slots) ! i)"
    proof (cases "map_of (tb_peers b) peer")
      case None
      then have "peer \<notin> set (tb_slots b ! j)" if "j < ?N" for j using mem that by auto
      with None i dist assms(2) N show ?thesis
        by (auto simp: tb_update_def Let_def slot_def nth_list_update)
    next
      case (Some first)
      have j: "first mod ?N < ?N" using N by simp
      have only: "peer \<in> set (tb_slots b ! k) \<longleftrightarrow> k = first mod ?N" if "k < ?N" for k
        using mem [OF that, of peer] Some by auto
      show ?thesis
      proof (cases "slot \<le> first")
        case True
        with Some i dist assms(2) show ?thesis by (auto simp: tb_update_def Let_def slot_def)
      next
        case False
        with Some i j dist assms(2) only N show ?thesis
          by (auto simp: tb_update_def Let_def slot_def nth_list_update)
      qed
    qed
  qed
qed

lemma tb_inv_update:
  assumes "tb_inv b"
  shows "tb_inv (tb_update b peer slots)"
proof (cases "slots = 0")
  case False
  let ?N = "length (tb_slots b)" and ?slot = "tb_slot b + min slots (length (tb_slots b) - 1)"
  let ?new = "\<forall>n. map_of (tb_peers b) peer = Some n \<longrightarrow> n < ?slot"
  have N: "0 < ?N" and ne: "tb_slots b \<noteq> []" using assms by (auto simp: tb_inv_def)
  from False have pos: "0 < slots" by simp
  note P = tb_update_parts [OF assms pos, of peer]
  have mem: "p \<in> set (tb_slots b ! i) \<longleftrightarrow> (\<exists>n. map_of (tb_peers b) p = Some n \<and> n mod ?N = i)" if "i < ?N" for i p
    using assms that by (simp add: tb_inv_def)
  show ?thesis
    unfolding tb_inv_def P(2,3)
  proof (intro conjI allI impI)
    show "tb_slots (tb_update b peer slots) \<noteq> []" using P(3) N by auto
  next
    fix i
    assume "i < ?N"
    then show "distinct (tb_slots (tb_update b peer slots) ! i)" using P(4) by simp
  next
    fix i p
    assume i: "i < ?N"
    show "p \<in> set (tb_slots (tb_update b peer slots) ! i) \<longleftrightarrow>
        (\<exists>n. map_of (tb_peers (tb_update b peer slots)) p = Some n \<and> n mod ?N = i)"
      using P(4) i mem [OF i, of p] by (cases "p = peer"; cases ?new) (simp_all add: P(1), auto)
  next
    fix p n
    assume n: "map_of (tb_peers (tb_update b peer slots)) p = Some n"
    have "min slots (?N - 1) \<le> ?N - 1" by simp
    then have "?slot < tb_slot b + ?N" using N by linarith
    moreover have "tb_slot b \<le> m \<and> m < tb_slot b + ?N" if "map_of (tb_peers b) p = Some m" for m
      using assms that by (auto simp: tb_inv_def)
    ultimately show "tb_slot b \<le> n" "n < tb_slot b + ?N" using n by (auto simp: P(1) split: if_splits)
  qed
qed (simp add: tb_update_def assms)

subsection \<open>Refinement\<close>

text \<open>
  The reference: every peer has a number of heartbeats left. An update raises it to the
  number given, at most one less than the number of slots; a shift takes one off.
\<close>

datatype 'p backoff_op = Update 'p nat | Shift

fun ref_step :: "nat \<Rightarrow> ('p \<Rightarrow> nat) \<Rightarrow> 'p backoff_op \<Rightarrow> ('p \<Rightarrow> nat)" where
  "ref_step N left (Update p slots) = left(p := max (left p) (min slots (N - 1)))"
| "ref_step N left Shift = (\<lambda>p. left p - 1)"

fun tb_step :: "'p TopicBackoff \<Rightarrow> 'p backoff_op \<Rightarrow> 'p TopicBackoff" where
  "tb_step b (Update p slots) = tb_update b p slots"
| "tb_step b Shift = tb_shift b"

lemma tb_step_inv: "tb_inv b \<Longrightarrow> tb_inv (tb_step b op)"
  by (cases op) (simp_all add: tb_inv_update tb_inv_shift)

lemma tb_step_length: "length (tb_slots (tb_step b op)) = length (tb_slots b)"
  by (cases op) (auto simp: tb_update_def tb_shift_def Let_def split: option.splits)

lemma tb_step_get:
  assumes "tb_inv b"
  shows "tb_get (tb_step b op) = ref_step (length (tb_slots b)) (tb_get b) op"
proof (cases op)
  case (Update q slots)
  show ?thesis
  proof (cases "slots = 0")
    case False
    then have pos: "0 < slots" by simp
    note P = tb_update_parts [OF assms pos, of q]
    have r: "tb_slot b \<le> n" if "map_of (tb_peers b) q = Some n" for n
      using assms that by (auto simp: tb_inv_def)
    show ?thesis
      using r by (auto simp: Update tb_get_def fun_eq_iff P(1,2) max_def split: option.splits)
  qed (simp add: Update tb_update_def fun_eq_iff)
next
  case Shift
  then show ?thesis
    by (auto simp: tb_get_def fun_eq_iff tb_shift_peers [OF assms] split: option.splits)
       (simp_all add: tb_shift_def Let_def)
qed

text \<open>
  The circular buffer of \<open>TopicBackoff\<close> implements countdown
  timers: after any sequence of \<open>update\<close> and \<open>shift\<close> from the initial state, \<open>get\<close>
  returns for every peer the heartbeats left in the reference, where an update never
  shortens a backoff and a shift takes one heartbeat off every peer.
\<close>

theorem topicbackoff_refines:
  "tb_get (foldl tb_step (TopicBackoff_new pb hb slack) ops) =
     foldl (ref_step (pb div hb + slack + 1)) (\<lambda>p. 0) ops"
proof -
  let ?b = "TopicBackoff_new pb hb slack :: 'a TopicBackoff" and ?N = "pb div hb + slack + 1"
  have run: "tb_inv b \<Longrightarrow> length (tb_slots b) = N \<Longrightarrow> tb_get (foldl tb_step b ops) = foldl (ref_step N) (tb_get b) ops"
    for N and b :: "'a TopicBackoff"
    by (induction ops arbitrary: b) (simp_all add: tb_step_inv tb_step_length tb_step_get)
  have len: "length (tb_slots ?b) = ?N"
    by (simp add: TopicBackoff_new_def del: replicate_Suc)
  have zero: "tb_get ?b = (\<lambda>p. 0)"
    by (simp add: TopicBackoff_new_def tb_get_def fun_eq_iff)
  show ?thesis using run [OF tb_inv_new len] unfolding zero .
qed

end
