(* ===== verification/Double.thy ===== *)
theory Double
  imports Complex_Main "HOL-Library.Log_Nat"
begin

text \<open>
  The C++ type \<open>double\<close> as the gossip score uses it: IEEE 754 binary64 with the rounding
  mode to nearest, ties to even. A finite value is the rational number it stands for, and
  an operation is the exact operation followed by rounding to 53 significant bits, with
  gradual underflow and overflow to infinity. The two zeros are one value: they compare
  equal, and the only divisions of the sources divide by a converted integer.
\<close>

datatype dbl = NaN | PInf | NInf | Fin rat

section \<open>Rounding\<close>

text \<open>The nearest integer, ties to even.\<close>

definition rne :: "rat \<Rightarrow> int" where
  "rne q =
     (let f = \<lfloor>q\<rfloor>; d = q - of_int f
      in if d < 1 / 2 then f else if d > 1 / 2 then f + 1 else if even f then f else f + 1)"

text \<open>The exponent of the leading bit of a positive number.\<close>

definition expo :: "rat \<Rightarrow> int" where
  "expo q =
     (let (n, d) = quotient_of q; e = int (floorlog 2 (nat n)) - int (floorlog 2 (nat d))
      in if 2 powi e \<le> q then e else e - 1)"

text \<open>The value of the last of 53 bits, not below the least subnormal number.\<close>

definition ulp :: "rat \<Rightarrow> rat" where
  "ulp q = 2 powi (max (expo q) (- 1022) - 52)"

definition round_pos :: "rat \<Rightarrow> rat" where
  "round_pos q = of_int (rne (q / ulp q)) * ulp q"

definition rnd :: "rat \<Rightarrow> dbl" where
  "rnd q =
     (if q = 0 then Fin 0
      else
        (let r = round_pos \<bar>q\<bar>
         in if r \<ge> 2 ^ 1024 then (if q > 0 then PInf else NInf)
            else Fin (if q > 0 then r else - r)))"

section \<open>Operations\<close>

fun d_neg :: "dbl \<Rightarrow> dbl" where
  "d_neg NaN = NaN"
| "d_neg PInf = NInf"
| "d_neg NInf = PInf"
| "d_neg (Fin a) = Fin (- a)"

fun d_add :: "dbl \<Rightarrow> dbl \<Rightarrow> dbl" where
  "d_add NaN y = NaN"
| "d_add x NaN = NaN"
| "d_add PInf NInf = NaN"
| "d_add NInf PInf = NaN"
| "d_add PInf y = PInf"
| "d_add NInf y = NInf"
| "d_add x PInf = PInf"
| "d_add x NInf = NInf"
| "d_add (Fin a) (Fin b) = rnd (a + b)"

definition d_sub :: "dbl \<Rightarrow> dbl \<Rightarrow> dbl" where
  "d_sub x y = d_add x (d_neg y)"

definition inf_sign :: "rat \<Rightarrow> dbl" where
  "inf_sign a = (if a = 0 then NaN else if a > 0 then PInf else NInf)"

fun d_mul :: "dbl \<Rightarrow> dbl \<Rightarrow> dbl" where
  "d_mul NaN y = NaN"
| "d_mul x NaN = NaN"
| "d_mul PInf PInf = PInf"
| "d_mul PInf NInf = NInf"
| "d_mul NInf PInf = NInf"
| "d_mul NInf NInf = PInf"
| "d_mul PInf (Fin b) = inf_sign b"
| "d_mul NInf (Fin b) = inf_sign (- b)"
| "d_mul (Fin a) PInf = inf_sign a"
| "d_mul (Fin a) NInf = inf_sign (- a)"
| "d_mul (Fin a) (Fin b) = rnd (a * b)"

text \<open>Division, where a divisor of zero is the positive zero.\<close>

fun d_div :: "dbl \<Rightarrow> dbl \<Rightarrow> dbl" where
  "d_div NaN y = NaN"
| "d_div x NaN = NaN"
| "d_div (Fin a) (Fin b) = (if b = 0 then inf_sign a else rnd (a / b))"
| "d_div (Fin a) y = Fin 0"
| "d_div PInf (Fin b) = (if b \<ge> 0 then PInf else NInf)"
| "d_div NInf (Fin b) = (if b \<ge> 0 then NInf else PInf)"
| "d_div x y = NaN"

fun d_less :: "dbl \<Rightarrow> dbl \<Rightarrow> bool" where
  "d_less (Fin a) (Fin b) \<longleftrightarrow> a < b"
| "d_less NInf (Fin b) \<longleftrightarrow> True"
| "d_less NInf PInf \<longleftrightarrow> True"
| "d_less (Fin a) PInf \<longleftrightarrow> True"
| "d_less x y \<longleftrightarrow> False"

text \<open>\<open>std::min\<close>, which returns its first argument unless the second is less.\<close>

definition std_min :: "dbl \<Rightarrow> dbl \<Rightarrow> dbl" where
  "std_min a b = (if d_less b a then b else a)"

text \<open>A conversion of an integer, and a literal.\<close>

definition d_of_int :: "int \<Rightarrow> dbl" where
  "d_of_int n = rnd (of_int n)"

definition lit :: "rat \<Rightarrow> dbl" where
  "lit q = rnd q"

section \<open>The order of the values that are not NaN\<close>

fun d_le :: "dbl \<Rightarrow> dbl \<Rightarrow> bool" where
  "d_le (Fin a) (Fin b) \<longleftrightarrow> a \<le> b"
| "d_le NInf y \<longleftrightarrow> y \<noteq> NaN"
| "d_le x PInf \<longleftrightarrow> x \<noteq> NaN"
| "d_le x y \<longleftrightarrow> False"

lemma d_le_refl [simp]: "d_le x x \<longleftrightarrow> x \<noteq> NaN"
  by (cases x) simp_all

lemma d_le_trans: "d_le x y \<Longrightarrow> d_le y z \<Longrightarrow> d_le x z"
  by (cases x; cases y; cases z) auto

lemma d_less_iff: "d_less x y \<longleftrightarrow> d_le x y \<and> \<not> d_le y x"
  by (cases x; cases y) auto

lemma d_le_total: "x \<noteq> NaN \<Longrightarrow> y \<noteq> NaN \<Longrightarrow> d_le x y \<or> d_le y x"
  by (cases x; cases y) auto

lemma d_le_NaN [simp]: "\<not> d_le NaN y" "\<not> d_le x NaN"
  by (cases y; simp) (cases x; simp)

lemma d_le_PInf [simp]: "d_le x PInf \<longleftrightarrow> x \<noteq> NaN"
  by (cases x) auto

section \<open>Rounding is monotone\<close>

lemma rne_mono: "x \<le> y \<Longrightarrow> rne x \<le> rne y"
proof -
  assume le: "x \<le> y"
  show ?thesis
  proof (cases "\<lfloor>x\<rfloor> = \<lfloor>y\<rfloor>")
    case True
    with le show ?thesis by (auto simp: rne_def Let_def)
  next
    case False
    with floor_mono [OF le] have "\<lfloor>x\<rfloor> + 1 \<le> \<lfloor>y\<rfloor>" by simp
    then show ?thesis by (auto simp: rne_def Let_def)
  qed
qed

lemma rne_of_int [simp]: "rne (of_int n) = n"
  by (simp add: rne_def)

lemma floorlog_nat_bounds:
  assumes "0 < n"
  shows "2 powi (int (floorlog 2 (nat n)) - 1) \<le> (of_int n :: rat)" and "(of_int n :: rat) < 2 powi int (floorlog 2 (nat n))"
proof -
  let ?k = "floorlog 2 (nat n)"
  have pos: "0 < ?k" using assms by (simp add: floorlog_def)
  have b: "2 ^ (?k - 1) \<le> nat n" "nat n < 2 ^ ?k" using floorlog_bounds [of "nat n" 2] assms by auto
  have "of_nat (2 ^ (?k - 1)) \<le> (of_nat (nat n) :: rat)" "(of_nat (nat n) :: rat) < of_nat (2 ^ ?k)"
    using b by (simp_all only: of_nat_le_iff of_nat_less_iff)
  then have r: "2 ^ (?k - 1) \<le> (of_int n :: rat)" "(of_int n :: rat) < 2 ^ ?k" using assms by simp_all
  have "int ?k - 1 = int (?k - 1)" using pos by simp
  then show "2 powi (int ?k - 1) \<le> (of_int n :: rat)" using r(1) by (simp only: power_int_of_nat)
  show "(of_int n :: rat) < 2 powi int ?k" using r(2) by simp
qed

lemma expo_bounds:
  assumes "0 < q"
  shows "2 powi expo q \<le> q" and "q < 2 powi (expo q + 1)"
proof -
  obtain n d where qd: "quotient_of q = (n, d)" by (cases "quotient_of q")
  have d: "0 < d" and q: "q = of_int n / of_int d" using quotient_of_denom_pos [OF qd] quotient_of_div [OF qd] by auto
  have n: "0 < n" using assms d unfolding q by (simp add: zero_less_divide_iff)
  let ?a = "int (floorlog 2 (nat n))" and ?b = "int (floorlog 2 (nat d))"
  let ?e = "?a - ?b"
  note bn = floorlog_nat_bounds [OF n] and bd = floorlog_nat_bounds [OF d]
  have "2 powi (?a - 1) \<le> q * of_int d" "q * of_int d < 2 powi ?a" using bn d unfolding q by simp_all
  moreover have "q * of_int d < q * 2 powi ?b" "q * 2 powi (?b - 1) \<le> q * of_int d" using bd assms by simp_all
  ultimately have "2 powi (?a - 1) < q * 2 powi ?b" "q * 2 powi (?b - 1) < 2 powi ?a" by linarith+
  then have "2 powi (?a - 1) / 2 powi ?b < q" "q < 2 powi ?a / 2 powi (?b - 1)"
    by (simp_all add: divide_less_eq less_divide_eq mult.commute)
  moreover have "(2 :: rat) powi (?e - 1) = 2 powi (?a - 1) / 2 powi ?b"
    and "(2 :: rat) powi (?e + 1) = 2 powi ?a / 2 powi (?b - 1)"
    by (simp_all flip: power_int_diff power_int_of_nat add: algebra_simps del: power_int_of_nat)
  ultimately have lo: "2 powi (?e - 1) < q" and hi: "q < 2 powi (?e + 1)" by simp_all
  have e: "expo q = (if 2 powi ?e \<le> q then ?e else ?e - 1)" by (simp add: expo_def qd Let_def)
  show "2 powi expo q \<le> q" "q < 2 powi (expo q + 1)" unfolding e using lo hi by auto
qed

lemma expo_mono:
  assumes "0 < x" "x \<le> y"
  shows "expo x \<le> expo y"
proof (rule ccontr)
  assume "\<not> expo x \<le> expo y"
  then have "(2 :: rat) powi (expo y + 1) \<le> 2 powi expo x" by (intro power_int_increasing) auto
  with expo_bounds(1) [of x] expo_bounds(2) [of y] assms show False by linarith
qed

lemma ulp_pos [simp]: "0 < ulp q"
  by (simp add: ulp_def)

text \<open>A power of two is a multiple of every smaller unit.\<close>

lemma power_multiple_of_ulp:
  assumes "max (expo x) (- 1022) - 52 \<le> e"
  shows "(2 :: rat) powi e = of_int (2 ^ nat (e - (max (expo x) (- 1022) - 52))) * ulp x"
proof -
  let ?u = "max (expo x) (- 1022) - 52"
  have "(2 :: rat) powi e = 2 powi (e - ?u) * 2 powi ?u" by (simp flip: power_int_add)
  also have "(2 :: rat) powi (e - ?u) = 2 ^ nat (e - ?u)" using assms by (simp add: power_int_def)
  finally show ?thesis by (simp add: ulp_def)
qed

lemma round_pos_multiple: "round_pos (of_int n * ulp x) = of_int n * ulp x" if "ulp (of_int n * ulp x) = ulp x"
  using that by (simp add: round_pos_def)

lemma rne_bounds:
  "of_int n \<le> x / u \<Longrightarrow> 0 < u \<Longrightarrow> of_int n * u \<le> of_int (rne (x / u)) * u"
  "x / u \<le> of_int n \<Longrightarrow> 0 < u \<Longrightarrow> of_int (rne (x / u)) * u \<le> of_int n * u"
proof -
  assume u: "0 < u"
  show "of_int n * u \<le> of_int (rne (x / u)) * u" if "of_int n \<le> x / u"
    using rne_mono [OF that] u by (intro mult_right_mono) (simp_all add: less_imp_le)
  show "of_int (rne (x / u)) * u \<le> of_int n * u" if "x / u \<le> of_int n"
    using rne_mono [OF that] u by (intro mult_right_mono) (simp_all add: less_imp_le)
qed

lemma round_pos_ge_power:
  assumes "2 powi e \<le> x" and "max (expo x) (- 1022) - 52 \<le> e"
  shows "2 powi e \<le> round_pos x"
  using assms(1) unfolding round_pos_def power_multiple_of_ulp [OF assms(2)]
  by (intro rne_bounds(1)) (simp_all add: le_divide_eq)

lemma round_pos_le_power:
  assumes "x \<le> 2 powi e" and "max (expo x) (- 1022) - 52 \<le> e"
  shows "round_pos x \<le> 2 powi e"
  using assms(1) unfolding round_pos_def power_multiple_of_ulp [OF assms(2)]
  by (intro rne_bounds(2)) (simp_all add: divide_le_eq)

lemma round_pos_mono:
  assumes "0 < x" "x \<le> y"
  shows "round_pos x \<le> round_pos y"
proof -
  let ?ex = "max (expo x) (- 1022)" and ?ey = "max (expo y) (- 1022)"
  have le: "?ex \<le> ?ey" using expo_mono [OF assms] by auto
  show ?thesis
  proof (cases "?ex = ?ey")
    case True
    then have u: "ulp x = ulp y" by (simp add: ulp_def)
    have "x / ulp y \<le> y / ulp y" using assms(2) by (simp add: divide_right_mono less_imp_le)
    from rne_mono [OF this] have "(of_int (rne (x / ulp y)) :: rat) \<le> of_int (rne (y / ulp y))" by simp
    then show ?thesis unfolding round_pos_def u by (intro mult_right_mono) (simp_all add: less_imp_le)
  next
    case False
    with le have lt: "?ex + 1 \<le> expo y" "?ey = expo y" by linarith+
    have "x \<le> 2 powi (expo x + 1)" using expo_bounds(2) [OF assms(1)] by simp
    also have "\<dots> \<le> 2 powi (?ex + 1)" by (intro power_int_increasing) auto
    also have "\<dots> \<le> 2 powi expo y" using lt by (intro power_int_increasing) auto
    finally have "round_pos x \<le> 2 powi expo y" using lt by (intro round_pos_le_power) auto
    also have "\<dots> \<le> round_pos y" using assms lt by (intro round_pos_ge_power expo_bounds) auto
    finally show ?thesis .
  qed
qed

lemma rne_nonneg: "0 \<le> x \<Longrightarrow> 0 \<le> rne x"
  using rne_mono [of 0 x] rne_of_int [of 0] by (simp del: rne_of_int)

lemma round_pos_nonneg: "0 \<le> x \<Longrightarrow> 0 \<le> round_pos x"
  unfolding round_pos_def
  by (intro mult_nonneg_nonneg) (simp_all add: rne_nonneg less_imp_le)

theorem rnd_mono: "x \<le> y \<Longrightarrow> d_le (rnd x) (rnd y)"
proof -
  assume le: "x \<le> y"
  consider "0 < x" | "x = 0" | "x < 0" "y = 0" | "x < 0" "0 < y" | "x < 0" "y < 0" by linarith
  then show ?thesis
  proof cases
    case 1
    with le round_pos_mono [OF 1 le] show ?thesis by (auto simp: rnd_def Let_def)
  next
    case 2
    with le round_pos_nonneg [of y] show ?thesis by (auto simp: rnd_def Let_def)
  next
    case 3
    with round_pos_nonneg [of "- x"] show ?thesis by (auto simp: rnd_def Let_def)
  next
    case 4
    with round_pos_nonneg [of "- x"] round_pos_nonneg [of y] show ?thesis by (auto simp: rnd_def Let_def)
  next
    case 5
    with le round_pos_mono [of "- y" "- x"] show ?thesis by (auto simp: rnd_def Let_def)
  qed
qed

lemma expo_eq:
  assumes "0 < x" "2 powi e \<le> x" "x < 2 powi (e + 1)"
  shows "expo x = e"
proof (rule ccontr)
  assume "expo x \<noteq> e"
  then consider "expo x + 1 \<le> e" | "e + 1 \<le> expo x" by linarith
  then show False
  proof cases
    case 1
    then have "(2 :: rat) powi (expo x + 1) \<le> 2 powi e" by (intro power_int_increasing) auto
    with expo_bounds(2) [OF assms(1)] assms(2) show False by linarith
  next
    case 2
    then have "(2 :: rat) powi (e + 1) \<le> 2 powi expo x" by (intro power_int_increasing) auto
    with expo_bounds(1) [OF assms(1)] assms(3) show False by linarith
  qed
qed

lemma expo_power [simp]: "expo (2 powi e) = e"
  by (rule expo_eq) (simp_all add: power_int_strict_increasing)

text \<open>Rounding is idempotent: its results are the values of the format.\<close>

lemma round_pos_power:
  assumes "- 1074 \<le> e"
  shows "round_pos (2 powi e) = 2 powi e"
proof -
  have "max (expo (2 powi e)) (- 1022) - 52 \<le> e" using assms by simp
  from round_pos_ge_power [OF _ this] round_pos_le_power [OF _ this] show ?thesis by (intro order_antisym) auto
qed

lemma round_pos_idem:
  assumes "0 < x"
  shows "round_pos (round_pos x) = round_pos x"
proof -
  let ?e = "max (expo x) (- 1022)" and ?r = "round_pos x"
  have "x \<le> 2 powi (expo x + 1)" using expo_bounds(2) [OF assms] by simp
  also have "\<dots> \<le> 2 powi (?e + 1)" by (intro power_int_increasing) auto
  finally have hi: "?r \<le> 2 powi (?e + 1)" by (intro round_pos_le_power) auto
  consider "?r = 2 powi (?e + 1)" | "?r = 0" | "0 < ?r" "?r < 2 powi (?e + 1)"
    using hi round_pos_nonneg [of x] assms by linarith
  then show ?thesis
  proof cases
    case 1
    then show ?thesis using round_pos_power [of "?e + 1"] by simp
  next
    case 2
    have "round_pos 0 = 0" using rne_of_int [of 0] by (simp add: round_pos_def del: rne_of_int)
    with 2 show ?thesis by simp
  next
    case 3
    have "max (expo ?r) (- 1022) = ?e"
    proof (cases "expo x \<ge> - 1022")
      case True
      then have "2 powi ?e \<le> ?r" using expo_bounds(1) [OF assms] by (intro round_pos_ge_power) auto
      with 3 have "expo ?r = ?e" by (intro expo_eq) auto
      then show ?thesis by simp
    next
      case False
      have "expo ?r < - 1021"
      proof (rule ccontr)
        assume "\<not> expo ?r < - 1021"
        then have "(2 :: rat) powi (?e + 1) \<le> 2 powi expo ?r" using False by (intro power_int_increasing) auto
        with expo_bounds(1) [OF 3(1)] 3(2) show False by linarith
      qed
      with False show ?thesis by simp
    qed
    then have "ulp ?r = ulp x" by (simp add: ulp_def)
    then show ?thesis using round_pos_multiple [of "rne (x / ulp x)" x] by (simp flip: round_pos_def)
  qed
qed

text \<open>The values of the format.\<close>

fun is_dbl :: "dbl \<Rightarrow> bool" where
  "is_dbl (Fin a) \<longleftrightarrow> rnd a = Fin a"
| "is_dbl x \<longleftrightarrow> True"

lemma is_dbl_rnd [simp]: "is_dbl (rnd q)"
proof (cases "q = 0")
  case False
  then have pos: "0 < \<bar>q\<bar>" by simp
  note idem = round_pos_idem [OF pos] and nn = round_pos_nonneg [of "\<bar>q\<bar>"]
  show ?thesis
    using False idem nn by (cases "round_pos \<bar>q\<bar> = 0") (auto simp: rnd_def Let_def)
qed (simp add: rnd_def)

lemma rnd_not_NaN [simp]: "rnd q \<noteq> NaN"
  by (simp add: rnd_def Let_def)

lemma rnd_0 [simp]: "rnd 0 = Fin 0"
  by (simp add: rnd_def)

lemma rnd_power:
  assumes "- 1074 \<le> e" "e < 1024"
  shows "rnd (2 powi e) = Fin (2 powi e)"
proof -
  have "(2 :: rat) powi e < 2 powi 1024" using assms(2) by (intro power_int_strict_increasing) auto
  then show ?thesis using round_pos_power [OF assms(1)] by (simp add: rnd_def Let_def)
qed

text \<open>Integers of at most 53 bits are exact.\<close>

lemma rnd_small_int:
  assumes "\<bar>n\<bar> < 2 ^ 53"
  shows "rnd (of_int n) = Fin (of_int n)"
proof (cases "n = 0")
  case False
  let ?x = "of_int \<bar>n\<bar> :: rat"
  have pos: "0 < ?x" using False by simp
  have e0: "0 \<le> expo ?x"
  proof (rule ccontr)
    assume "\<not> 0 \<le> expo ?x"
    then have "(2 :: rat) powi (expo ?x + 1) \<le> 2 powi 0" by (intro power_int_increasing) auto
    with expo_bounds(2) [OF pos] have "?x < 1" by simp
    with False show False by (simp flip: of_int_abs)
  qed
  have e1: "expo ?x < 53"
  proof (rule ccontr)
    assume "\<not> expo ?x < 53"
    then have "(2 :: rat) powi 53 \<le> 2 powi expo ?x" by (intro power_int_increasing) auto
    with expo_bounds(1) [OF pos] have "2 ^ 53 \<le> ?x" by simp
    moreover have "?x < of_int (2 ^ 53)" using assms by (simp only: of_int_less_iff)
    ultimately show False by simp
  qed
  have "?x / ulp ?x = of_int (\<bar>n\<bar> * 2 ^ nat (52 - expo ?x))"
  proof -
    have "ulp ?x = 2 powi - (52 - expo ?x)" using e0 by (simp add: ulp_def max_def)
    also have "\<dots> = inverse (2 ^ nat (52 - expo ?x))" using e1 by (subst power_int_minus) (simp add: power_int_def)
    finally show ?thesis by (simp add: divide_inverse)
  qed
  then have r: "round_pos ?x = ?x"
    unfolding round_pos_def by (metis less_irrefl nonzero_eq_divide_eq rne_of_int ulp_pos)
  have "?x < of_int (2 ^ 53)" using assms by (simp only: of_int_less_iff)
  also have "\<dots> < (2 :: rat) ^ 1024" by (simp add: power_strict_increasing)
  finally have "\<not> 2 ^ 1024 \<le> ?x" by simp
  with r False show ?thesis by (auto simp: rnd_def Let_def abs_if)
qed simp

lemma rnd_1 [simp]: "rnd 1 = Fin 1" and rnd_minus_1 [simp]: "rnd (- 1) = Fin (- 1)"
  using rnd_small_int [of 1] rnd_small_int [of "- 1"] by simp_all

lemma rnd_numeral [simp]:
  "(numeral n :: int) < 2 ^ 53 \<Longrightarrow> rnd (numeral n) = Fin (numeral n)"
  "(numeral n :: int) < 2 ^ 53 \<Longrightarrow> rnd (- numeral n) = Fin (- numeral n)"
  using rnd_small_int [of "numeral n"] rnd_small_int [of "- numeral n"] by simp_all

section \<open>Arithmetic and the order\<close>

lemma d_add_mono:
  assumes "d_le x x'" and "d_le y y'" and "d_add x y \<noteq> NaN" and "d_add x' y' \<noteq> NaN"
  shows "d_le (d_add x y) (d_add x' y')"
  using assms by (cases x; cases x'; cases y; cases y') (auto simp: rnd_mono)

lemma d_neg_antimono: "d_le (d_neg x) (d_neg y) \<longleftrightarrow> d_le y x"
  by (cases x; cases y) auto

lemma d_neg_NaN [simp]: "d_neg x = NaN \<longleftrightarrow> x = NaN"
  by (cases x) auto

lemma d_nonneg_cases:
  assumes "d_le (Fin 0) x"
  obtains a where "x = Fin a" "0 \<le> a" | "x = PInf"
  using assms by (cases x) auto

lemma rnd_nonneg: "0 \<le> q \<Longrightarrow> d_le (Fin 0) (rnd q)"
  using rnd_mono [of 0 q] by simp

lemma d_add_nonneg: "d_le (Fin 0) x \<Longrightarrow> d_le (Fin 0) y \<Longrightarrow> d_le (Fin 0) (d_add x y)"
  by (auto elim!: d_nonneg_cases simp: rnd_nonneg)

lemma d_mul_square_nonneg: "x \<noteq> NaN \<Longrightarrow> d_le (Fin 0) (d_mul x x)"
  by (cases x) (auto simp: rnd_nonneg)

lemma is_dbl_ops [simp]:
  "is_dbl (d_add x y)" "is_dbl (d_mul x y)" "is_dbl (inf_sign a)" "is_dbl (d_div x y)" "is_dbl (d_of_int n)" "is_dbl (lit q)"
  by (cases x; cases y; simp add: inf_sign_def)
    (cases x; cases y; simp add: inf_sign_def d_of_int_def lit_def)+

lemma std_min_le:
  "y \<noteq> NaN \<Longrightarrow> x \<noteq> NaN \<Longrightarrow> d_le (std_min x y) y" "x \<noteq> NaN \<Longrightarrow> y \<noteq> NaN \<Longrightarrow> d_le (std_min x y) x"
  by (cases x; cases y; auto simp: std_min_def)+

lemma std_min_ge: "d_le z x \<Longrightarrow> d_le z y \<Longrightarrow> d_le z (std_min x y)"
  by (simp add: std_min_def)

lemma is_dbl_std_min [simp]: "is_dbl x \<Longrightarrow> is_dbl y \<Longrightarrow> is_dbl (std_min x y)"
  by (simp add: std_min_def)

text \<open>Multiplying by a factor between 0 and 1 does not increase a non-negative value.\<close>

lemma d_mul_shrinks:
  assumes "d_le (Fin 0) x" and "is_dbl x" and "d = Fin c" "0 < c" "c \<le> 1"
  shows "d_le (Fin 0) (d_mul x d)" and "d_le (d_mul x d) x"
proof -
  show "d_le (Fin 0) (d_mul x d)"
    using assms(1,3,4) by (auto elim!: d_nonneg_cases simp: rnd_nonneg inf_sign_def)
  show "d_le (d_mul x d) x"
    using assms(1)
  proof (cases rule: d_nonneg_cases)
    case (1 a)
    then have "a * c \<le> a" using assms(4,5) by (simp add: mult_left_le)
    from rnd_mono [OF this] assms(2) 1 show ?thesis by (simp add: assms(3))
  qed (use assms(3,4) in \<open>simp add: inf_sign_def\<close>)
qed

text \<open>Multiplying by a factor of at most one half halves the power of two above a value.\<close>

lemma d_mul_halves:
  assumes "0 \<le> a" "a \<le> 2 powi e" and "0 \<le> c" "c \<le> 1 / 2" and "- 1073 \<le> e" "e \<le> 1024"
  shows "d_le (d_mul (Fin a) (Fin c)) (Fin (2 powi (e - 1)))"
proof -
  have "a * c \<le> 2 powi e * (1 / 2)" using assms by (intro mult_mono) auto
  also have "\<dots> = 2 powi (e - 1)" by (simp add: power_int_diff)
  finally show ?thesis using rnd_mono rnd_power [of "e - 1"] assms(5,6) by fastforce
qed

end
