(* ===== verification/Score.thy ===== *)
theory Score
  imports Double Time_Cache "HOL-Library.Signed_Division"
begin

text \<open>
  The peer score of the gossip protocol: the score parameters of
  \<open>include/libp2p/protocol/gossip/config.hpp\<close> and the class \<open>Score\<close> of
  \<open>include/libp2p/protocol/gossip/score.hpp\<close>. Peer ids, topic hashes and message ids are
  byte strings. A duration field keeps the unit of its type (milliseconds or seconds);
  readings of the clock are in nanoseconds, one for each operation. \<open>std::out_of_range\<close>
  of \<open>params_.topics.at\<close> is \<open>Throws\<close>.
\<close>

type_synonym TopicHash = bytes
type_synonym MessageId = bytes

section \<open>Parameters\<close>

record TopicScoreParams =
  topic_weight :: dbl
  time_in_mesh_weight :: dbl
  time_in_mesh_quantum :: int
  time_in_mesh_cap :: dbl
  first_message_deliveries_weight :: dbl
  first_message_deliveries_decay :: dbl
  first_message_deliveries_cap :: dbl
  mesh_message_deliveries_weight :: dbl
  mesh_message_deliveries_decay :: dbl
  mesh_message_deliveries_cap :: dbl
  mesh_message_deliveries_threshold :: dbl
  mesh_message_deliveries_window :: int
  mesh_message_deliveries_activation :: int
  mesh_failure_penalty_weight :: dbl
  mesh_failure_penalty_decay :: dbl
  invalid_message_deliveries_weight :: dbl
  invalid_message_deliveries_decay :: dbl

definition TopicScoreParams_new :: TopicScoreParams where
  "TopicScoreParams_new =
     \<lparr>topic_weight = lit (1 / 2), time_in_mesh_weight = lit 1, time_in_mesh_quantum = 1,
      time_in_mesh_cap = lit 3600, first_message_deliveries_weight = lit 1,
      first_message_deliveries_decay = lit (1 / 2), first_message_deliveries_cap = lit 2000,
      mesh_message_deliveries_weight = lit (- 1), mesh_message_deliveries_decay = lit (1 / 2),
      mesh_message_deliveries_cap = lit 100, mesh_message_deliveries_threshold = lit 20,
      mesh_message_deliveries_window = 10, mesh_message_deliveries_activation = 5,
      mesh_failure_penalty_weight = lit (- 1), mesh_failure_penalty_decay = lit (1 / 2),
      invalid_message_deliveries_weight = lit (- 1), invalid_message_deliveries_decay = lit (3 / 10)\<rparr>"

record ScoreConfig =
  zero :: dbl
  gossip_threshold :: dbl
  publish_threshold :: dbl
  graylist_threshold :: dbl
  opportunistic_graft_threshold :: dbl
  sc_topics :: "(TopicHash, TopicScoreParams) alist"
  topic_score_cap :: dbl
  app_specific_weight :: dbl
  behaviour_penalty_weight :: dbl
  behaviour_penalty_threshold :: dbl
  behaviour_penalty_decay :: dbl
  decay_interval :: int
  decay_to_zero :: dbl
  retain_score :: int
  slow_peer_weight :: dbl
  slow_peer_threshold :: dbl
  slow_peer_decay :: dbl

definition kDefaultDecayToZero :: dbl where
  "kDefaultDecayToZero = lit (1 / 10)"

definition ScoreConfig_new :: ScoreConfig where
  "ScoreConfig_new =
     \<lparr>zero = lit 0, gossip_threshold = lit (- 10), publish_threshold = lit (- 50),
      graylist_threshold = lit (- 80), opportunistic_graft_threshold = lit 20,
      sc_topics = [], topic_score_cap = lit 3600, app_specific_weight = lit 10,
      behaviour_penalty_weight = lit (- 10), behaviour_penalty_threshold = lit 0,
      behaviour_penalty_decay = lit (2 / 10), decay_interval = 1000,
      decay_to_zero = kDefaultDecayToZero, retain_score = 3600,
      slow_peer_weight = lit (- 2 / 10), slow_peer_threshold = lit 0, slow_peer_decay = lit (2 / 10)\<rparr>"

definition ScoreConfig_valid :: "ScoreConfig \<Rightarrow> bool" where
  "ScoreConfig_valid c =
     (if d_less (lit 0) (gossip_threshold c) then False
      else if d_less (lit 0) (publish_threshold c) \<or> d_less (gossip_threshold c) (publish_threshold c) then False
      else if d_less (lit 0) (graylist_threshold c) \<or> d_less (publish_threshold c) (graylist_threshold c) then False
      else if d_less (opportunistic_graft_threshold c) (lit 0) then False
      else True)"

section \<open>State\<close>

definition kTimeCacheDuration :: time where
  "kTimeCacheDuration = 120 * 10 ^ 9"

datatype DeliveryStatus =
  DeliveryStatusUnknown | DeliveryStatusValid time | DeliveryStatusInvalid | DeliveryStatusIgnored

record DeliveryRecord =
  dr_status :: DeliveryStatus
  dr_first_seen :: time
  dr_peers :: "PeerId list"

definition DeliveryRecord_new :: DeliveryRecord where
  "DeliveryRecord_new = \<lparr>dr_status = DeliveryStatusUnknown, dr_first_seen = 0, dr_peers = []\<rparr>"

record MeshActive =
  graft_time :: time
  mesh_time :: int

record TopicStats =
  mesh_active :: "MeshActive option"
  first_message_deliveries :: dbl
  mesh_message_deliveries_active :: bool
  mesh_message_deliveries :: dbl
  mesh_failure_penalty :: dbl
  invalid_message_deliveries :: dbl

definition TopicStats_new :: TopicStats where
  "TopicStats_new =
     \<lparr>mesh_active = None, first_message_deliveries = Fin 0, mesh_message_deliveries_active = False,
      mesh_message_deliveries = Fin 0, mesh_failure_penalty = Fin 0, invalid_message_deliveries = Fin 0\<rparr>"

record PeerStats =
  expires_at :: "time option"
  ps_topics :: "(TopicHash, TopicStats) alist"
  behaviour_penalty :: dbl
  application_score :: dbl
  slow_peer_penalty :: dbl

definition PeerStats_new :: PeerStats where
  "PeerStats_new =
     \<lparr>expires_at = None, ps_topics = [], behaviour_penalty = Fin 0, application_score = Fin 0,
      slow_peer_penalty = Fin 0\<rparr>"

record Score =
  params :: ScoreConfig
  peer_stats :: "(PeerId, PeerStats) alist"
  deliveries :: "(MessageId, DeliveryRecord) TimeCache"

definition Score_new :: "ScoreConfig \<Rightarrow> Score" where
  "Score_new p = \<lparr>params = p, peer_stats = [], deliveries = TimeCache_new kTimeCacheDuration\<rparr>"

section \<open>The score of a peer\<close>

text \<open>\<open>duration_cast<seconds>\<close> of a duration in milliseconds, converted.\<close>

definition as_secs_f64 :: "int \<Rightarrow> dbl" where
  "as_secs_f64 t = d_of_int (t sdiv 1000)"

definition topic_score :: "TopicScoreParams \<Rightarrow> TopicStats \<Rightarrow> dbl" where
  "topic_score tp ts =
     (let t0 = Fin 0;
          t1 = (case mesh_active ts of
                  None \<Rightarrow> t0
                | Some a \<Rightarrow>
                    (let p1 = std_min (d_div (as_secs_f64 (mesh_time a)) (as_secs_f64 (time_in_mesh_quantum tp)))
                                (time_in_mesh_cap tp)
                     in d_add t0 (d_mul p1 (time_in_mesh_weight tp))));
          p2 = std_min (first_message_deliveries ts) (first_message_deliveries_cap tp);
          t2 = d_add t1 (d_mul p2 (first_message_deliveries_weight tp));
          t3 = (if mesh_message_deliveries_active ts
                   \<and> d_less (mesh_message_deliveries ts) (mesh_message_deliveries_threshold tp)
                then
                  (let deficit = d_sub (mesh_message_deliveries_threshold tp) (mesh_message_deliveries ts);
                       p3 = d_mul deficit deficit
                   in d_add t2 (d_mul p3 (mesh_message_deliveries_weight tp)))
                else t2);
          p3b = mesh_failure_penalty ts;
          t4 = d_add t3 (d_mul p3b (mesh_failure_penalty_weight tp));
          p4 = d_mul (invalid_message_deliveries ts) (invalid_message_deliveries ts)
      in d_add t4 (d_mul p4 (invalid_message_deliveries_weight tp)))"

definition topics_score :: "ScoreConfig \<Rightarrow> (TopicHash, TopicStats) alist \<Rightarrow> dbl" where
  "topics_score p ts =
     foldl (\<lambda>score (topic, topic_stats).
        case map_of (sc_topics p) topic of
          None \<Rightarrow> score
        | Some tp \<Rightarrow> d_add score (d_mul (topic_score tp topic_stats) (topic_weight tp)))
       (Fin 0) ts"

definition stats_score :: "ScoreConfig \<Rightarrow> PeerStats \<Rightarrow> dbl" where
  "stats_score p ps =
     (let s0 = topics_score p (ps_topics ps);
          s1 = (if d_less (Fin 0) (topic_score_cap p) \<and> d_less (topic_score_cap p) s0
                then topic_score_cap p else s0);
          p5 = application_score ps;
          s2 = d_add s1 (d_mul p5 (app_specific_weight p));
          s3 = (if d_less (behaviour_penalty_threshold p) (behaviour_penalty ps)
                then
                  (let excess = d_sub (behaviour_penalty ps) (behaviour_penalty_threshold p);
                       p7 = d_mul excess excess
                   in d_add s2 (d_mul p7 (behaviour_penalty_weight p)))
                else s2)
      in if d_less (slow_peer_threshold p) (slow_peer_penalty ps)
         then d_add s3 (d_mul (d_sub (slow_peer_penalty ps) (slow_peer_threshold p)) (slow_peer_weight p))
         else s3)"

definition score :: "Score \<Rightarrow> PeerId \<Rightarrow> dbl" where
  "score s peer_id =
     (case map_of (peer_stats s) peer_id of None \<Rightarrow> Fin 0 | Some ps \<Rightarrow> stats_score (params s) ps)"

definition below :: "Score \<Rightarrow> PeerId \<Rightarrow> dbl \<Rightarrow> bool" where
  "below s peer_id threshold = d_less (score s peer_id) threshold"

section \<open>Operations\<close>

text \<open>Writes through the references \<open>it->second\<close> and \<open>topic_stats\<close>.\<close>

definition put_peer :: "PeerId \<Rightarrow> PeerStats \<Rightarrow> Score \<Rightarrow> Score" where
  "put_peer peer_id ps s = s\<lparr>peer_stats := AList.update peer_id ps (peer_stats s)\<rparr>"

definition put_topic :: "TopicHash \<Rightarrow> TopicStats \<Rightarrow> PeerStats \<Rightarrow> PeerStats" where
  "put_topic topic ts ps = ps\<lparr>ps_topics := AList.update topic ts (ps_topics ps)\<rparr>"

text \<open>\<open>statsOrDefault\<close>: the statistics of a topic, created when the topic has parameters.\<close>

definition statsOrDefault :: "ScoreConfig \<Rightarrow> PeerStats \<Rightarrow> TopicHash \<Rightarrow> TopicStats option" where
  "statsOrDefault p peer topic =
     (case map_of (ps_topics peer) topic of
        Some ts \<Rightarrow> Some ts
      | None \<Rightarrow> if map_of (sc_topics p) topic \<noteq> None then Some TopicStats_new else None)"

definition addPenalty :: "PeerId \<Rightarrow> nat \<Rightarrow> Score \<Rightarrow> Score" where
  "addPenalty peer_id count s =
     (case map_of (peer_stats s) peer_id of
        None \<Rightarrow> s
      | Some ps \<Rightarrow>
          put_peer peer_id (ps\<lparr>behaviour_penalty := d_add (behaviour_penalty ps) (d_of_int (int count))\<rparr>) s)"

definition score_graft :: "PeerId \<Rightarrow> TopicHash \<Rightarrow> time \<Rightarrow> Score \<Rightarrow> Score" where
  "score_graft peer_id topic now s =
     (case map_of (peer_stats s) peer_id of
        None \<Rightarrow> s
      | Some ps \<Rightarrow>
          (case statsOrDefault (params s) ps topic of
             None \<Rightarrow> s
           | Some ts \<Rightarrow>
               put_peer peer_id
                 (put_topic topic
                    (ts\<lparr>mesh_active := Some \<lparr>graft_time = now, mesh_time = 0\<rparr>,
                        mesh_message_deliveries_active := False\<rparr>) ps) s))"

text \<open>The deficit of mesh deliveries becomes a failure penalty.\<close>

definition add_deficit :: "dbl \<Rightarrow> TopicStats \<Rightarrow> TopicStats" where
  "add_deficit threshold ts =
     (let deficit = d_sub threshold (mesh_message_deliveries ts)
      in ts\<lparr>mesh_failure_penalty := d_add (mesh_failure_penalty ts) (d_mul deficit deficit)\<rparr>)"

definition score_prune :: "PeerId \<Rightarrow> TopicHash \<Rightarrow> Score \<Rightarrow> Score cxx" where
  "score_prune peer_id topic s =
     (case map_of (peer_stats s) peer_id of
        None \<Rightarrow> Returns s
      | Some ps \<Rightarrow>
          (case statsOrDefault (params s) ps topic of
             None \<Rightarrow> Returns s
           | Some ts \<Rightarrow>
               (case map_of (sc_topics (params s)) topic of
                  None \<Rightarrow> Throws
                | Some tp \<Rightarrow>
                    (let threshold = mesh_message_deliveries_threshold tp;
                         ts1 = (if mesh_message_deliveries_active ts \<and> d_less (mesh_message_deliveries ts) threshold
                                then add_deficit threshold ts else ts)
                     in Returns (put_peer peer_id
                          (put_topic topic (ts1\<lparr>mesh_message_deliveries_active := False, mesh_active := None\<rparr>) ps) s)))))"

definition mark_first_message_delivery :: "PeerId \<Rightarrow> TopicHash \<Rightarrow> Score \<Rightarrow> Score cxx" where
  "mark_first_message_delivery peer_id topic s =
     (case map_of (peer_stats s) peer_id of
        None \<Rightarrow> Returns s
      | Some ps \<Rightarrow>
          (case statsOrDefault (params s) ps topic of
             None \<Rightarrow> Returns s
           | Some ts \<Rightarrow>
               (case map_of (sc_topics (params s)) topic of
                  None \<Rightarrow> Throws
                | Some tp \<Rightarrow>
                    (let ts1 = ts\<lparr>first_message_deliveries :=
                           std_min (d_add (first_message_deliveries ts) (Fin 1)) (first_message_deliveries_cap tp)\<rparr>;
                         ts2 = (if mesh_active ts1 \<noteq> None
                                then ts1\<lparr>mesh_message_deliveries :=
                                  std_min (d_add (mesh_message_deliveries ts1) (Fin 1)) (mesh_message_deliveries_cap tp)\<rparr>
                                else ts1)
                     in Returns (put_peer peer_id (put_topic topic ts2 ps) s)))))"

definition mark_duplicate_message_delivery ::
    "PeerId \<Rightarrow> TopicHash \<Rightarrow> time option \<Rightarrow> time \<Rightarrow> Score \<Rightarrow> Score cxx" where
  "mark_duplicate_message_delivery peer_id topic validated_time now s =
     (case map_of (peer_stats s) peer_id of
        None \<Rightarrow> Returns s
      | Some ps \<Rightarrow>
          (case statsOrDefault (params s) ps topic of
             None \<Rightarrow> Returns s
           | Some ts \<Rightarrow>
               (let s1 = put_peer peer_id (put_topic topic ts ps) s
                in if mesh_active ts = None then Returns s1
                   else
                     (case map_of (sc_topics (params s)) topic of
                        None \<Rightarrow> Throws
                      | Some tp \<Rightarrow>
                          (case validated_time of
                             None \<Rightarrow> Returns s1
                           | Some t \<Rightarrow>
                               if now > t + mesh_message_deliveries_window tp * 10 ^ 6 then Returns s1
                               else
                                 Returns (put_peer peer_id
                                   (put_topic topic
                                      (ts\<lparr>mesh_message_deliveries :=
                                         std_min (d_add (mesh_message_deliveries ts) (Fin 1)) (mesh_message_deliveries_cap tp)\<rparr>)
                                      ps) s))))))"

definition markInvalidMessageDelivery :: "PeerId \<Rightarrow> TopicHash \<Rightarrow> Score \<Rightarrow> Score" where
  "markInvalidMessageDelivery peer_id topic s =
     (case map_of (peer_stats s) peer_id of
        None \<Rightarrow> s
      | Some ps \<Rightarrow>
          (case statsOrDefault (params s) ps topic of
             None \<Rightarrow> s
           | Some ts \<Rightarrow>
               put_peer peer_id
                 (put_topic topic
                    (ts\<lparr>invalid_message_deliveries := d_add (invalid_message_deliveries ts) (Fin 1)\<rparr>) ps) s))"

definition duplicateMessage :: "PeerId \<Rightarrow> MessageId \<Rightarrow> TopicHash \<Rightarrow> time \<Rightarrow> Score \<Rightarrow> Score cxx" where
  "duplicateMessage peer_id msg_id topic now s =
     (let (record, cache) = tc_getOrDefault DeliveryRecord_new (deliveries s) msg_id now;
          s1 = s\<lparr>deliveries := cache\<rparr>;
          s2 = s\<lparr>deliveries := tc_set cache msg_id (record\<lparr>dr_peers := dr_peers record @ [peer_id]\<rparr>)\<rparr>
      in if peer_id \<in> set (dr_peers record) then Returns s1
         else
           (case dr_status record of
              DeliveryStatusUnknown \<Rightarrow> Returns s2
            | DeliveryStatusValid t \<Rightarrow> mark_duplicate_message_delivery peer_id topic (Some t) now s2
            | DeliveryStatusInvalid \<Rightarrow> Returns (markInvalidMessageDelivery peer_id topic s1)
            | DeliveryStatusIgnored \<Rightarrow> Returns s1))"

definition validateMessage :: "PeerId \<Rightarrow> MessageId \<Rightarrow> TopicHash \<Rightarrow> time \<Rightarrow> Score \<Rightarrow> Score" where
  "validateMessage peer_id msg_id topic now s =
     s\<lparr>deliveries := snd (tc_getOrDefault DeliveryRecord_new (deliveries s) msg_id now)\<rparr>"

fun mark_duplicates :: "PeerId \<Rightarrow> TopicHash \<Rightarrow> time \<Rightarrow> PeerId list \<Rightarrow> Score \<Rightarrow> Score cxx" where
  "mark_duplicates from topic now [] s = Returns s"
| "mark_duplicates from topic now (peer # peers) s =
     bind_cxx (if peer \<noteq> from then mark_duplicate_message_delivery peer topic None now s else Returns s)
       (mark_duplicates from topic now peers)"

definition deliver_message :: "PeerId \<Rightarrow> MessageId \<Rightarrow> TopicHash \<Rightarrow> time \<Rightarrow> Score \<Rightarrow> Score cxx" where
  "deliver_message from msg_id topic_hash now s =
     bind_cxx (mark_first_message_delivery from topic_hash s)
       (\<lambda>s1.
          let (record, cache) = tc_getOrDefault DeliveryRecord_new (deliveries s1) msg_id now
          in if dr_status record \<noteq> DeliveryStatusUnknown then Returns (s1\<lparr>deliveries := cache\<rparr>)
             else
               mark_duplicates from topic_hash now (dr_peers record)
                 (s1\<lparr>deliveries := tc_set cache msg_id (record\<lparr>dr_status := DeliveryStatusValid now\<rparr>)\<rparr>))"

definition score_connect :: "PeerId \<Rightarrow> Score \<Rightarrow> Score" where
  "score_connect peer_id s =
     (let ps = (case map_of (peer_stats s) peer_id of None \<Rightarrow> PeerStats_new | Some ps \<Rightarrow> ps)
      in put_peer peer_id (ps\<lparr>expires_at := None\<rparr>) s)"

definition disconnect_topic :: "ScoreConfig \<Rightarrow> TopicHash \<times> TopicStats \<Rightarrow> TopicHash \<times> TopicStats" where
  "disconnect_topic p e =
     (let topic = fst e;
          ts = (snd e)\<lparr>first_message_deliveries := Fin 0\<rparr>;
          ts1 = (case map_of (sc_topics p) topic of
                   None \<Rightarrow> ts
                 | Some tp \<Rightarrow>
                     (let threshold = mesh_message_deliveries_threshold tp
                      in if mesh_active ts \<noteq> None \<and> mesh_message_deliveries_active ts
                            \<and> d_less (mesh_message_deliveries ts) threshold
                         then add_deficit threshold ts else ts))
      in (topic, ts1\<lparr>mesh_active := None, mesh_message_deliveries_active := False\<rparr>))"

definition score_disconnect :: "PeerId \<Rightarrow> time \<Rightarrow> Score \<Rightarrow> Score" where
  "score_disconnect peer_id now s =
     (case map_of (peer_stats s) peer_id of
        None \<Rightarrow> s
      | Some ps \<Rightarrow>
          if d_less (Fin 0) (score s peer_id) then s\<lparr>peer_stats := AList.delete peer_id (peer_stats s)\<rparr>
          else
            put_peer peer_id
              (ps\<lparr>ps_topics := map (disconnect_topic (params s)) (ps_topics ps),
                  expires_at := Some (now + retain_score (params s) * 10 ^ 9)\<rparr>) s)"

subsection \<open>Decay\<close>

definition decay_counter :: "ScoreConfig \<Rightarrow> dbl \<Rightarrow> dbl \<Rightarrow> dbl" where
  "decay_counter p decay x =
     (let y = d_mul x decay in if d_less y (decay_to_zero p) then Fin 0 else y)"

definition decay_topic :: "ScoreConfig \<Rightarrow> time \<Rightarrow> TopicHash \<times> TopicStats \<Rightarrow> TopicHash \<times> TopicStats" where
  "decay_topic p now e =
     (case map_of (sc_topics p) (fst e) of
        None \<Rightarrow> e
      | Some tp \<Rightarrow>
          (let ts = snd e;
               ts1 = ts\<lparr>first_message_deliveries :=
                          decay_counter p (first_message_deliveries_decay tp) (first_message_deliveries ts),
                        mesh_message_deliveries :=
                          decay_counter p (mesh_message_deliveries_decay tp) (mesh_message_deliveries ts),
                        mesh_failure_penalty :=
                          decay_counter p (mesh_failure_penalty_decay tp) (mesh_failure_penalty ts),
                        invalid_message_deliveries :=
                          decay_counter p (invalid_message_deliveries_decay tp) (invalid_message_deliveries ts)\<rparr>
           in (fst e,
               case mesh_active ts1 of
                 None \<Rightarrow> ts1
               | Some a \<Rightarrow>
                   (let t = (now - graft_time a) sdiv 10 ^ 6;
                        ts2 = ts1\<lparr>mesh_active := Some (a\<lparr>mesh_time := t\<rparr>)\<rparr>
                    in if t > mesh_message_deliveries_activation tp * 1000
                       then ts2\<lparr>mesh_message_deliveries_active := True\<rparr> else ts2))))"

definition decay_peer :: "ScoreConfig \<Rightarrow> time \<Rightarrow> PeerStats \<Rightarrow> PeerStats" where
  "decay_peer p now ps =
     ps\<lparr>ps_topics := map (decay_topic p now) (ps_topics ps),
        behaviour_penalty := decay_counter p (behaviour_penalty_decay p) (behaviour_penalty ps),
        slow_peer_penalty := decay_counter p (slow_peer_decay p) (slow_peer_penalty ps)\<rparr>"

fun decay_loop :: "ScoreConfig \<Rightarrow> time \<Rightarrow> (PeerId, PeerStats) alist \<Rightarrow> (PeerId, PeerStats) alist" where
  "decay_loop p now [] = []"
| "decay_loop p now ((peer_id, ps) # rest) =
     (case expires_at ps of
        Some t \<Rightarrow> if t < now then decay_loop p now rest else (peer_id, ps) # decay_loop p now rest
      | None \<Rightarrow> (peer_id, decay_peer p now ps) # decay_loop p now rest)"

definition onDecay :: "time \<Rightarrow> Score \<Rightarrow> Score" where
  "onDecay now s = s\<lparr>peer_stats := decay_loop (params s) now (peer_stats s)\<rparr>"

section \<open>Invariant\<close>

text \<open>
  What the parameters are meant to be: decay factors above zero and at most one, caps that
  are not negative, finite delivery thresholds.
\<close>

fun decay_ok :: "dbl \<Rightarrow> bool" where
  "decay_ok (Fin c) \<longleftrightarrow> 0 < c \<and> c \<le> 1"
| "decay_ok _ \<longleftrightarrow> False"

definition counter_ok :: "dbl \<Rightarrow> bool" where
  "counter_ok x \<longleftrightarrow> d_le (Fin 0) x \<and> is_dbl x"

fun is_fin :: "dbl \<Rightarrow> bool" where
  "is_fin (Fin _) \<longleftrightarrow> True"
| "is_fin _ \<longleftrightarrow> False"

definition topic_params_ok :: "TopicScoreParams \<Rightarrow> bool" where
  "topic_params_ok tp \<longleftrightarrow>
     decay_ok (first_message_deliveries_decay tp) \<and> decay_ok (mesh_message_deliveries_decay tp) \<and>
     decay_ok (mesh_failure_penalty_decay tp) \<and> decay_ok (invalid_message_deliveries_decay tp) \<and>
     counter_ok (first_message_deliveries_cap tp) \<and> counter_ok (mesh_message_deliveries_cap tp) \<and>
     is_fin (mesh_message_deliveries_threshold tp)"

definition params_ok :: "ScoreConfig \<Rightarrow> bool" where
  "params_ok p \<longleftrightarrow>
     (\<forall>(t, tp) \<in> set (sc_topics p). topic_params_ok tp) \<and>
     decay_ok (behaviour_penalty_decay p) \<and> decay_ok (slow_peer_decay p)"

text \<open>
  Every counter is a non-negative value of the format, the delivery counters are within
  their caps, and statistics are kept for topics with parameters only.
\<close>

definition topic_ok :: "TopicScoreParams \<Rightarrow> TopicStats \<Rightarrow> bool" where
  "topic_ok tp ts \<longleftrightarrow>
     counter_ok (first_message_deliveries ts) \<and> d_le (first_message_deliveries ts) (first_message_deliveries_cap tp) \<and>
     counter_ok (mesh_message_deliveries ts) \<and> d_le (mesh_message_deliveries ts) (mesh_message_deliveries_cap tp) \<and>
     counter_ok (mesh_failure_penalty ts) \<and> counter_ok (invalid_message_deliveries ts)"

definition topic_entry_ok :: "ScoreConfig \<Rightarrow> TopicHash \<Rightarrow> TopicStats \<Rightarrow> bool" where
  "topic_entry_ok p t ts \<longleftrightarrow> (case map_of (sc_topics p) t of None \<Rightarrow> False | Some tp \<Rightarrow> topic_ok tp ts)"

definition peer_ok :: "ScoreConfig \<Rightarrow> PeerStats \<Rightarrow> bool" where
  "peer_ok p ps \<longleftrightarrow>
     (\<forall>(t, ts) \<in> set (ps_topics ps). topic_entry_ok p t ts) \<and>
     counter_ok (behaviour_penalty ps) \<and> application_score ps = Fin 0 \<and> slow_peer_penalty ps = Fin 0"

definition score_ok :: "Score \<Rightarrow> bool" where
  "score_ok s \<longleftrightarrow>
     params_ok (params s) \<and> distinct (map fst (peer_stats s)) \<and> (\<forall>(q, ps) \<in> set (peer_stats s). peer_ok (params s) ps)"

lemma counter_ok_0 [simp]: "counter_ok (Fin 0)"
  by (simp add: counter_ok_def)

lemma counter_ok_add [simp]: "counter_ok x \<Longrightarrow> d_le (Fin 0) y \<Longrightarrow> counter_ok (d_add x y)"
  by (simp add: counter_ok_def d_add_nonneg)

lemma counter_ok_min:
  assumes "counter_ok x" and "counter_ok cap"
  shows "counter_ok (std_min x cap)" and "d_le (std_min x cap) cap"
proof -
  have "x \<noteq> NaN" "cap \<noteq> NaN" using assms by (auto simp: counter_ok_def)
  then show "d_le (std_min x cap) cap" by (intro std_min_le)
  show "counter_ok (std_min x cap)" using assms by (auto simp: counter_ok_def std_min_ge)
qed

lemma counter_ok_decay:
  assumes "counter_ok x" and "decay_ok d"
  shows "counter_ok (decay_counter p d x)" and "d_le x cap \<Longrightarrow> counter_ok cap \<Longrightarrow> d_le (decay_counter p d x) cap"
proof -
  obtain c where c: "d = Fin c" "0 < c" "c \<le> 1" using assms(2) by (cases d) auto
  have x: "d_le (Fin 0) x" "is_dbl x" using assms(1) by (auto simp: counter_ok_def)
  note m = d_mul_shrinks [OF x c]
  show "counter_ok (decay_counter p d x)" using m(1) by (simp add: decay_counter_def Let_def counter_ok_def)
  show "d_le (decay_counter p d x) cap" if "d_le x cap" "counter_ok cap"
    using d_le_trans [OF m(2) that(1)] that(2) by (simp add: decay_counter_def Let_def counter_ok_def)
qed

lemma topic_ok_new [simp]:
  assumes "params_ok p" and "map_of (sc_topics p) t = Some tp"
  shows "topic_ok tp TopicStats_new"
proof -
  have "topic_params_ok tp" using assms by (auto simp: params_ok_def dest: map_of_SomeD)
  then show ?thesis by (auto simp: topic_params_ok_def topic_ok_def TopicStats_new_def counter_ok_def)
qed

lemma topic_ok_deficit:
  assumes "topic_ok tp ts" and "topic_params_ok tp" and "d_less (mesh_message_deliveries ts) (mesh_message_deliveries_threshold tp)"
  shows "topic_ok tp (add_deficit (mesh_message_deliveries_threshold tp) ts)"
proof -
  obtain t where t: "mesh_message_deliveries_threshold tp = Fin t"
    using assms(2) by (cases "mesh_message_deliveries_threshold tp") (auto simp: topic_params_ok_def)
  obtain m where m: "mesh_message_deliveries ts = Fin m"
    using assms(1,3) t by (cases "mesh_message_deliveries ts") (auto simp: topic_ok_def counter_ok_def)
  have "d_le (Fin 0) (d_mul (rnd (t - m)) (rnd (t - m)))" by (rule d_mul_square_nonneg) simp
  then show ?thesis using assms(1) t m by (auto simp: topic_ok_def add_deficit_def Let_def d_sub_def)
qed

lemma statsOrDefault_ok:
  assumes "params_ok p" and "peer_ok p ps" and "statsOrDefault p ps t = Some ts"
  shows "\<exists>tp. map_of (sc_topics p) t = Some tp \<and> topic_params_ok tp \<and> topic_ok tp ts"
proof (cases "map_of (ps_topics ps) t")
  case (Some ts')
  then have "topic_entry_ok p t ts" using assms by (auto simp: statsOrDefault_def peer_ok_def dest!: map_of_SomeD)
  then obtain tp where tp: "map_of (sc_topics p) t = Some tp" "topic_ok tp ts"
    by (auto simp: topic_entry_ok_def split: option.splits)
  then show ?thesis using assms(1) by (auto simp: params_ok_def dest: map_of_SomeD)
next
  case None
  then obtain tp where tp: "map_of (sc_topics p) t = Some tp" "ts = TopicStats_new"
    using assms(3) by (auto simp: statsOrDefault_def split: if_splits)
  then show ?thesis using topic_ok_new [OF assms(1) tp(1)] assms(1) by (auto simp: params_ok_def dest: map_of_SomeD)
qed

lemma peer_ok_put:
  "peer_ok p ps \<Longrightarrow> map_of (sc_topics p) t = Some tp \<Longrightarrow> topic_ok tp ts \<Longrightarrow> peer_ok p (put_topic t ts ps)"
  using set_update_subset [of t ts "ps_topics ps"]
  by (fastforce simp: peer_ok_def put_topic_def topic_entry_ok_def)

lemma score_ok_put:
  "score_ok s \<Longrightarrow> peer_ok (params s) ps \<Longrightarrow> score_ok (put_peer q ps s)"
  using set_update_subset [of q ps "peer_stats s"]
  by (fastforce simp: score_ok_def put_peer_def distinct_update)

lemma put_params [simp]: "params (put_peer q ps s) = params s"
  by (simp add: put_peer_def)

lemma score_ok_peer:
  "score_ok s \<Longrightarrow> map_of (peer_stats s) q = Some ps \<Longrightarrow> peer_ok (params s) ps"
  by (auto simp: score_ok_def dest: map_of_SomeD)

lemma score_ok_deliveries [simp]: "score_ok (s\<lparr>deliveries := c\<rparr>) \<longleftrightarrow> score_ok s"
  by (simp add: score_ok_def)

text \<open>The two ways an operation writes the statistics of a peer in a topic.\<close>

lemma update_topic_ok:
  assumes "score_ok s" and "map_of (peer_stats s) q = Some ps" and "statsOrDefault (params s) ps t = Some ts"
    and "\<And>tp. map_of (sc_topics (params s)) t = Some tp \<Longrightarrow> topic_params_ok tp \<Longrightarrow> topic_ok tp ts \<Longrightarrow> topic_ok tp (f tp ts)"
  shows "\<exists>tp. map_of (sc_topics (params s)) t = Some tp \<and> score_ok (put_peer q (put_topic t (f tp ts) ps) s)"
proof -
  have p: "params_ok (params s)" "peer_ok (params s) ps" using assms(1,2) by (auto simp: score_ok_def dest: map_of_SomeD)
  from statsOrDefault_ok [OF p assms(3)] obtain tp
    where tp: "map_of (sc_topics (params s)) t = Some tp" "topic_params_ok tp" "topic_ok tp ts" by blast
  with assms(4) [OF tp] show ?thesis using score_ok_put [OF assms(1)] peer_ok_put [OF p(2)] by blast
qed

lemma score_graft_ok:
  assumes "score_ok s" shows "score_ok (score_graft q t now s)"
proof (cases "map_of (peer_stats s) q")
  case (Some ps)
  show ?thesis
  proof (cases "statsOrDefault (params s) ps t")
    case st: (Some ts)
    from update_topic_ok [OF assms Some st, of "\<lambda>_ ts. ts\<lparr>mesh_active := Some \<lparr>graft_time = now, mesh_time = 0\<rparr>,
        mesh_message_deliveries_active := False\<rparr>"]
    show ?thesis by (auto simp: score_graft_def Some st topic_ok_def)
  qed (simp add: score_graft_def Some assms)
qed (simp add: score_graft_def assms)

text \<open>Operations that may throw: they return, keep the parameters and the invariant.\<close>

definition returns_ok :: "Score \<Rightarrow> Score cxx \<Rightarrow> bool" where
  "returns_ok s r \<longleftrightarrow> (\<exists>s'. r = Returns s' \<and> score_ok s' \<and> params s' = params s)"

lemma returns_okI: "score_ok s' \<Longrightarrow> params s' = params s \<Longrightarrow> returns_ok s (Returns s')"
  by (simp add: returns_ok_def)

lemma returns_ok_bind:
  assumes "returns_ok s r" and "\<And>s'. score_ok s' \<Longrightarrow> params s' = params s \<Longrightarrow> returns_ok s' (f s')"
  shows "returns_ok s (bind_cxx r f)"
  using assms by (auto simp: returns_ok_def)

lemma score_prune_ok:
  assumes "score_ok s" shows "returns_ok s (score_prune q t s)"
proof (cases "map_of (peer_stats s) q")
  case (Some ps)
  show ?thesis
  proof (cases "statsOrDefault (params s) ps t")
    case st: (Some ts)
    let ?f = "\<lambda>tp ts. (if mesh_message_deliveries_active ts
        \<and> d_less (mesh_message_deliveries ts) (mesh_message_deliveries_threshold tp)
      then add_deficit (mesh_message_deliveries_threshold tp) ts else ts)
      \<lparr>mesh_message_deliveries_active := False, mesh_active := None\<rparr>"
    have "topic_ok tp (?f tp ts)" if "topic_params_ok tp" "topic_ok tp ts" for tp
      using topic_ok_deficit [OF that(2,1)] that(2) by (auto simp: topic_ok_def)
    from update_topic_ok [OF assms Some st, of ?f, OF this]
    show ?thesis by (auto simp: score_prune_def Some st Let_def returns_ok_def)
  qed (simp add: score_prune_def Some assms returns_ok_def)
qed (simp add: score_prune_def assms returns_ok_def)

lemma mark_first_ok:
  assumes "score_ok s" shows "returns_ok s (mark_first_message_delivery q t s)"
proof (cases "map_of (peer_stats s) q")
  case (Some ps)
  show ?thesis
  proof (cases "statsOrDefault (params s) ps t")
    case st: (Some ts)
    let ?f = "\<lambda>tp ts. (let ts1 = ts\<lparr>first_message_deliveries :=
           std_min (d_add (first_message_deliveries ts) (Fin 1)) (first_message_deliveries_cap tp)\<rparr>
        in if mesh_active ts1 \<noteq> None
           then ts1\<lparr>mesh_message_deliveries :=
             std_min (d_add (mesh_message_deliveries ts1) (Fin 1)) (mesh_message_deliveries_cap tp)\<rparr>
           else ts1)"
    have "topic_ok tp (?f tp ts)" if "topic_params_ok tp" "topic_ok tp ts" for tp
      using that counter_ok_min by (auto simp: topic_ok_def topic_params_ok_def Let_def)
    from update_topic_ok [OF assms Some st, of ?f, OF this]
    show ?thesis by (auto simp: mark_first_message_delivery_def Some st Let_def returns_ok_def)
  qed (simp add: mark_first_message_delivery_def Some assms returns_ok_def)
qed (simp add: mark_first_message_delivery_def assms returns_ok_def)

lemma mark_duplicate_ok:
  assumes "score_ok s" shows "returns_ok s (mark_duplicate_message_delivery q t v now s)"
proof (cases "map_of (peer_stats s) q")
  case (Some ps)
  show ?thesis
  proof (cases "statsOrDefault (params s) ps t")
    case st: (Some ts)
    let ?f = "\<lambda>tp ts. ts\<lparr>mesh_message_deliveries :=
        std_min (d_add (mesh_message_deliveries ts) (Fin 1)) (mesh_message_deliveries_cap tp)\<rparr>"
    have "topic_ok tp (?f tp ts)" if "topic_params_ok tp" "topic_ok tp ts" for tp
      using that counter_ok_min by (auto simp: topic_ok_def topic_params_ok_def Let_def)
    from update_topic_ok [OF assms Some st, of ?f, OF this] update_topic_ok [OF assms Some st, of "\<lambda>_ ts. ts"]
    show ?thesis
      by (auto simp: mark_duplicate_message_delivery_def Some st Let_def returns_ok_def split: option.splits)
  qed (simp add: mark_duplicate_message_delivery_def Some assms returns_ok_def)
qed (simp add: mark_duplicate_message_delivery_def assms returns_ok_def)

lemma markInvalid_ok:
  assumes "score_ok s" shows "score_ok (markInvalidMessageDelivery q t s)"
proof (cases "map_of (peer_stats s) q")
  case (Some ps)
  show ?thesis
  proof (cases "statsOrDefault (params s) ps t")
    case st: (Some ts)
    from update_topic_ok [OF assms Some st,
        of "\<lambda>_ ts. ts\<lparr>invalid_message_deliveries := d_add (invalid_message_deliveries ts) (Fin 1)\<rparr>"]
    show ?thesis by (auto simp: markInvalidMessageDelivery_def Some st topic_ok_def)
  qed (simp add: markInvalidMessageDelivery_def Some assms)
qed (simp add: markInvalidMessageDelivery_def assms)

lemma score_op_params [simp]:
  "params (score_graft q t now s) = params s" "params (markInvalidMessageDelivery q t s) = params s"
  "params (addPenalty q n s) = params s" "params (validateMessage q m t now s) = params s"
  "params (score_connect q s) = params s" "params (score_disconnect q now s) = params s"
  "params (onDecay now s) = params s"
  by (simp_all add: score_graft_def markInvalidMessageDelivery_def addPenalty_def validateMessage_def
      score_connect_def Let_def score_disconnect_def onDecay_def split: option.splits)

lemma duplicateMessage_ok:
  assumes "score_ok s" shows "returns_ok s (duplicateMessage q m t now s)"
proof -
  obtain rec cache where g: "tc_getOrDefault DeliveryRecord_new (deliveries s) m now = (rec, cache)" by fastforce
  have "returns_ok s r" if "returns_ok (s\<lparr>deliveries := c\<rparr>) r" for c r using that by (simp add: returns_ok_def)
  moreover have "returns_ok (s\<lparr>deliveries := c\<rparr>) (mark_duplicate_message_delivery q t v now (s\<lparr>deliveries := c\<rparr>))" for c v
    using assms by (intro mark_duplicate_ok) simp
  ultimately show ?thesis
    using assms markInvalid_ok [of "s\<lparr>deliveries := cache\<rparr>" q t]
    by (auto simp: duplicateMessage_def g Let_def split: DeliveryStatus.splits intro!: returns_okI)
qed

lemma mark_duplicates_ok: "score_ok s \<Longrightarrow> returns_ok s (mark_duplicates from t now peers s)"
proof (induction peers arbitrary: s)
  case Nil
  then show ?case by (simp add: returns_ok_def)
next
  case (Cons q peers)
  show ?case unfolding mark_duplicates.simps
    by (rule returns_ok_bind) (use Cons mark_duplicate_ok [OF Cons.prems] in \<open>auto intro: returns_okI\<close>)
qed

lemma deliver_message_ok:
  assumes "score_ok s" shows "returns_ok s (deliver_message src m t now s)"
  unfolding deliver_message_def
proof (rule returns_ok_bind [OF mark_first_ok [OF assms]])
  fix s1
  assume s1: "score_ok s1" "params s1 = params s"
  obtain rec cache where g: "tc_getOrDefault DeliveryRecord_new (deliveries s1) m now = (rec, cache)" by fastforce
  have "returns_ok s1 (mark_duplicates src t now (dr_peers rec) (s1\<lparr>deliveries := c\<rparr>))" for c
    using mark_duplicates_ok [of "s1\<lparr>deliveries := c\<rparr>" src t now "dr_peers rec"] s1(1) by (simp add: returns_ok_def)
  then show "returns_ok s1 (let (record, cache) = tc_getOrDefault DeliveryRecord_new (deliveries s1) m now
      in if dr_status record \<noteq> DeliveryStatusUnknown then Returns (s1\<lparr>deliveries := cache\<rparr>)
         else mark_duplicates src t now (dr_peers record)
           (s1\<lparr>deliveries := tc_set cache m (record\<lparr>dr_status := DeliveryStatusValid now\<rparr>)\<rparr>))"
    using s1(1) by (auto simp: g intro!: returns_okI)
qed

lemma addPenalty_ok: "score_ok s \<Longrightarrow> score_ok (addPenalty q n s)"
  using rnd_nonneg [of "of_nat n"] score_ok_peer [of s q]
  by (auto simp: addPenalty_def peer_ok_def d_of_int_def split: option.splits intro!: score_ok_put)

lemma validateMessage_ok: "score_ok s \<Longrightarrow> score_ok (validateMessage q m t now s)"
  by (simp add: validateMessage_def)

lemma score_connect_ok: "score_ok s \<Longrightarrow> score_ok (score_connect q s)"
  using score_ok_peer [of s q]
  by (auto simp: score_connect_def Let_def peer_ok_def PeerStats_new_def split: option.splits intro!: score_ok_put)

lemma disconnect_topic_ok:
  assumes "params_ok p" and "topic_entry_ok p t ts"
  shows "topic_entry_ok p (fst (disconnect_topic p (t, ts))) (snd (disconnect_topic p (t, ts)))"
proof -
  obtain tp where tp: "map_of (sc_topics p) t = Some tp" "topic_ok tp ts"
    using assms(2) by (auto simp: topic_entry_ok_def split: option.splits)
  have tpo: "topic_params_ok tp" using assms(1) tp(1) by (auto simp: params_ok_def dest: map_of_SomeD)
  let ?ts = "ts\<lparr>first_message_deliveries := Fin 0\<rparr>"
  have ok: "topic_ok tp ?ts" using tp(2) tpo by (auto simp: topic_ok_def topic_params_ok_def counter_ok_def)
  show ?thesis
    using topic_ok_deficit [OF ok tpo] ok by (auto simp: topic_entry_ok_def disconnect_topic_def Let_def tp topic_ok_def)
qed

lemma score_disconnect_ok:
  assumes "score_ok s" shows "score_ok (score_disconnect q now s)"
proof (cases "map_of (peer_stats s) q")
  case (Some ps)
  have p: "params_ok (params s)" "peer_ok (params s) ps" using assms Some by (auto simp: score_ok_def dest: map_of_SomeD)
  let ?ps = "ps\<lparr>ps_topics := map (disconnect_topic (params s)) (ps_topics ps),
                  expires_at := Some (now + retain_score (params s) * 10 ^ 9)\<rparr>"
  have "topic_entry_ok (params s) (fst (disconnect_topic (params s) e)) (snd (disconnect_topic (params s) e))"
    if "e \<in> set (ps_topics ps)" for e
    using that p disconnect_topic_ok [of "params s" "fst e" "snd e"] by (cases e) (auto simp: peer_ok_def)
  then have "peer_ok (params s) ?ps" using p by (force simp: peer_ok_def)
  moreover have "set (AList.delete q (peer_stats s)) \<subseteq> set (peer_stats s)" by (auto simp: AList.delete_eq)
  then have "score_ok (s\<lparr>peer_stats := AList.delete q (peer_stats s)\<rparr>)"
    using assms by (auto simp: score_ok_def distinct_delete)
  ultimately show ?thesis using score_ok_put [OF assms] by (auto simp: score_disconnect_def Some)
qed (simp add: score_disconnect_def assms)

lemma decay_topic_ok:
  assumes "params_ok p" and "topic_entry_ok p t ts"
  shows "topic_entry_ok p (fst (decay_topic p now (t, ts))) (snd (decay_topic p now (t, ts)))"
proof -
  obtain tp where tp: "map_of (sc_topics p) t = Some tp" "topic_ok tp ts"
    using assms(2) by (auto simp: topic_entry_ok_def split: option.splits)
  have tpo: "topic_params_ok tp" using assms(1) tp(1) by (auto simp: params_ok_def dest: map_of_SomeD)
  show ?thesis
    using tp tpo counter_ok_decay
    by (auto simp: topic_entry_ok_def decay_topic_def topic_params_ok_def topic_ok_def Let_def split: option.splits)
qed

lemma decay_peer_ok:
  assumes "params_ok p" and "peer_ok p ps"
  shows "peer_ok p (decay_peer p now ps)"
proof -
  have "topic_entry_ok p (fst (decay_topic p now e)) (snd (decay_topic p now e))" if "e \<in> set (ps_topics ps)" for e
    using that assms decay_topic_ok [of p "fst e" "snd e"] by (cases e) (auto simp: peer_ok_def)
  moreover obtain c where "slow_peer_decay p = Fin c" using assms(1) by (cases "slow_peer_decay p") (auto simp: params_ok_def)
  ultimately show ?thesis
    using assms counter_ok_decay(1) [of "behaviour_penalty ps" "behaviour_penalty_decay p" p]
    by (force simp: peer_ok_def decay_peer_def params_ok_def decay_counter_def Let_def)
qed

lemma decay_loop_keys: "set (map fst (decay_loop p now al)) \<subseteq> set (map fst al)"
  by (induction p now al rule: decay_loop.induct) (auto split: option.splits)

lemma decay_loop_ok:
  "params_ok p \<Longrightarrow> distinct (map fst al) \<Longrightarrow> \<forall>(q, ps) \<in> set al. peer_ok p ps \<Longrightarrow>
   distinct (map fst (decay_loop p now al)) \<and> (\<forall>(q, ps) \<in> set (decay_loop p now al). peer_ok p ps)"
proof (induction p now al rule: decay_loop.induct)
  case (2 p now q ps rest)
  then show ?case using decay_loop_keys [of p now rest] decay_peer_ok [of p ps now]
    by (auto split: option.splits)
qed simp

lemma onDecay_ok: "score_ok s \<Longrightarrow> score_ok (onDecay now s)"
  using decay_loop_ok [of "params s" "peer_stats s" now] by (auto simp: score_ok_def onDecay_def)

subsection \<open>Every sequence of operations\<close>

datatype score_op =
  AddPenalty PeerId nat
| Graft PeerId TopicHash time
| Prune PeerId TopicHash
| DuplicateMessage PeerId MessageId TopicHash time
| ValidateMessage PeerId MessageId TopicHash time
| DeliverMessage PeerId MessageId TopicHash time
| Connect PeerId
| Disconnect PeerId time
| OnDecay time

fun score_step :: "Score \<Rightarrow> score_op \<Rightarrow> Score cxx" where
  "score_step s (AddPenalty q n) = Returns (addPenalty q n s)"
| "score_step s (Graft q t now) = Returns (score_graft q t now s)"
| "score_step s (Prune q t) = score_prune q t s"
| "score_step s (DuplicateMessage q m t now) = duplicateMessage q m t now s"
| "score_step s (ValidateMessage q m t now) = Returns (validateMessage q m t now s)"
| "score_step s (DeliverMessage q m t now) = deliver_message q m t now s"
| "score_step s (Connect q) = Returns (score_connect q s)"
| "score_step s (Disconnect q now) = Returns (score_disconnect q now s)"
| "score_step s (OnDecay now) = Returns (onDecay now s)"

lemmas score_ops_ok =
  addPenalty_ok score_graft_ok score_prune_ok duplicateMessage_ok validateMessage_ok deliver_message_ok
  score_connect_ok score_disconnect_ok onDecay_ok

lemma score_step_ok: "score_ok s \<Longrightarrow> returns_ok s (score_step s op)"
  by (cases op) (simp_all add: score_ops_ok returns_okI)

interpretation score_machine: safe_machine "\<lambda>s. score_ok s \<and> params s = p" "\<lambda>_. True" score_step for p
  by unfold_locales (use score_step_ok in \<open>auto simp: returns_ok_def\<close>)

text \<open>
  \<^bold>\<open>C38\<close> (invariant). With decay factors in (0, 1], caps that are not negative and finite
  thresholds, no sequence of operations on a new \<open>Score\<close> makes the lookup
  \<open>params_.topics.at\<close> throw; afterwards every counter of every peer is a number (never NaN)
  that is not negative, and the delivery counters are within their caps, whatever rounding
  did.
\<close>

theorem score_counters_sound:
  assumes "params_ok p"
  shows "\<exists>s. run_cxx score_step (Score_new p) ops = Returns s \<and> params s = p \<and>
    (\<forall>q ps. map_of (peer_stats s) q = Some ps \<longrightarrow>
       d_le (Fin 0) (behaviour_penalty ps) \<and>
       (\<forall>t ts. map_of (ps_topics ps) t = Some ts \<longrightarrow>
          (\<exists>tp. map_of (sc_topics p) t = Some tp \<and>
             d_le (Fin 0) (first_message_deliveries ts) \<and>
             d_le (first_message_deliveries ts) (first_message_deliveries_cap tp) \<and>
             d_le (Fin 0) (mesh_message_deliveries ts) \<and>
             d_le (mesh_message_deliveries ts) (mesh_message_deliveries_cap tp) \<and>
             d_le (Fin 0) (mesh_failure_penalty ts) \<and> d_le (Fin 0) (invalid_message_deliveries ts))))"
proof -
  have "score_ok (Score_new p) \<and> params (Score_new p) = p" using assms by (simp add: score_ok_def Score_new_def)
  from score_machine.run_safe [OF this, of ops] obtain s
    where s: "run_cxx score_step (Score_new p) ops = Returns s" "score_ok s" "params s = p" by (auto simp: list_all_iff)
  have "d_le (Fin 0) (behaviour_penalty ps)" if "map_of (peer_stats s) q = Some ps" for q ps
    using score_ok_peer [OF s(2) that] by (simp add: peer_ok_def counter_ok_def)
  moreover have "\<exists>tp. map_of (sc_topics p) t = Some tp \<and> topic_ok tp ts"
    if "map_of (peer_stats s) q = Some ps" "map_of (ps_topics ps) t = Some ts" for q ps t ts
  proof -
    have "topic_entry_ok p t ts"
      using score_ok_peer [OF s(2) that(1)] that(2) s(3) by (auto simp: peer_ok_def dest!: map_of_SomeD)
    then show ?thesis by (auto simp: topic_entry_ok_def split: option.splits)
  qed
  ultimately show ?thesis using s unfolding topic_ok_def counter_ok_def by (intro exI [of _ s]) meson
qed

section \<open>Penalties\<close>

lemma d_mul_nonpos_antimono:
  assumes "d_le (Fin 0) x" "d_le x y" "d_le w (Fin 0)" "d_mul x w \<noteq> NaN" "d_mul y w \<noteq> NaN"
  shows "d_le (d_mul y w) (d_mul x w)"
  using assms
  by (cases x; cases y; cases w) (auto simp: inf_sign_def intro!: rnd_mono mult_right_mono_neg split: if_splits)

lemma d_square_mono:
  assumes "d_le (Fin 0) x" "d_le x y"
  shows "d_le (d_mul x x) (d_mul y y)"
  using assms by (cases x; cases y) (auto simp: inf_sign_def intro!: rnd_mono mult_mono split: if_splits)

lemma d_sub_mono_left:
  assumes "d_le x y" shows "d_le (d_sub x (Fin t)) (d_sub y (Fin t))"
  using assms by (cases x; cases y) (auto simp: d_sub_def intro!: rnd_mono)

lemma d_sub_nonneg: "d_less (Fin t) x \<Longrightarrow> d_le (Fin 0) (d_sub x (Fin t))"
  by (cases x) (auto simp: d_sub_def intro!: rnd_nonneg)

text \<open>The term of the behaviour penalty, which the score adds to the terms before it.\<close>

definition behaviour_term :: "ScoreConfig \<Rightarrow> dbl \<Rightarrow> dbl \<Rightarrow> dbl" where
  "behaviour_term p s2 b =
     (if d_less (behaviour_penalty_threshold p) b
      then
        (let excess = d_sub b (behaviour_penalty_threshold p); p7 = d_mul excess excess
         in d_add s2 (d_mul p7 (behaviour_penalty_weight p)))
      else s2)"

lemma behaviour_term_antimono:
  assumes "d_le b b'" and "behaviour_penalty_threshold p = Fin t" and "d_le (behaviour_penalty_weight p) (Fin 0)"
    and "behaviour_term p s2 b \<noteq> NaN" and "behaviour_term p s2 b' \<noteq> NaN" and "is_dbl s2"
  shows "d_le (behaviour_term p s2 b') (behaviour_term p s2 b)"
proof -
  let ?w = "behaviour_penalty_weight p" and ?sq = "\<lambda>b. d_mul (d_sub b (Fin t)) (d_sub b (Fin t))"
  have thr: "d_less (Fin t) b'" if "d_less (Fin t) b" using that assms(1) by (cases b; cases b') auto
  consider "\<not> d_less (Fin t) b'" | "d_less (Fin t) b'" "\<not> d_less (Fin t) b" | "d_less (Fin t) b" by blast
  then show ?thesis
  proof cases
    case 1
    with thr assms(2,4) show ?thesis by (auto simp: behaviour_term_def)
  next
    case 2
    have nn: "d_le (Fin 0) (?sq b')" using d_sub_nonneg [OF 2(1)] by (intro d_mul_square_nonneg) auto
    have s2: "s2 \<noteq> NaN" and r: "d_add s2 (d_mul (?sq b') ?w) \<noteq> NaN"
      using assms(2,4,5) 2 by (auto simp: behaviour_term_def Let_def)
    then have "d_mul (?sq b') ?w \<noteq> NaN" by (cases s2) auto
    then have "d_le (d_mul (?sq b') ?w) (Fin 0)"
      using nn assms(3) by (cases "?sq b'"; cases ?w) (auto simp: inf_sign_def mult_nonneg_nonpos
          intro!: rnd_mono [of _ 0, simplified] split: if_splits)
    moreover have "d_add s2 (Fin 0) = s2" using s2 assms(6) by (cases s2) auto
    ultimately have "d_le (d_add s2 (d_mul (?sq b') ?w)) s2"
      using d_add_mono [of s2 s2 "d_mul (?sq b') ?w" "Fin 0"] s2 r by simp
    with 2 assms(2) show ?thesis by (simp add: behaviour_term_def Let_def)
  next
    case 3
    note b' = thr [OF 3]
    have sq: "d_le (?sq b) (?sq b')" using d_sub_nonneg [OF 3] d_sub_mono_left [OF assms(1)] by (rule d_square_mono)
    have nn: "d_le (Fin 0) (?sq b)" using d_sub_nonneg [OF 3] by (intro d_mul_square_nonneg) auto
    have r: "d_add s2 (d_mul (?sq b) ?w) \<noteq> NaN" "d_add s2 (d_mul (?sq b') ?w) \<noteq> NaN"
      using assms(2,4,5) 3 b' by (auto simp: behaviour_term_def Let_def)
    then have m: "d_mul (?sq b) ?w \<noteq> NaN" "d_mul (?sq b') ?w \<noteq> NaN" "s2 \<noteq> NaN" by (cases s2; auto)+
    have "d_le (d_mul (?sq b') ?w) (d_mul (?sq b) ?w)" using nn sq assms(3) m(1,2) by (rule d_mul_nonpos_antimono)
    then show ?thesis
      using d_add_mono [of s2 s2] m(3) r 3 b' assms(2) by (simp add: behaviour_term_def Let_def)
  qed
qed

lemma stats_score_penalty:
  assumes "d_le (behaviour_penalty ps) b" and "behaviour_penalty_threshold p = Fin t"
    and "d_le (behaviour_penalty_weight p) (Fin 0)"
    and "stats_score p ps \<noteq> NaN" and "stats_score p (ps\<lparr>behaviour_penalty := b\<rparr>) \<noteq> NaN"
  shows "d_le (stats_score p (ps\<lparr>behaviour_penalty := b\<rparr>)) (stats_score p ps)"
proof -
  define s1 where "s1 = (let s0 = topics_score p (ps_topics ps) in
    if d_less (Fin 0) (topic_score_cap p) \<and> d_less (topic_score_cap p) s0 then topic_score_cap p else s0)"
  define s2 where "s2 = d_add s1 (d_mul (application_score ps) (app_specific_weight p))"
  define slow where "slow x = (if d_less (slow_peer_threshold p) (slow_peer_penalty ps)
    then d_add x (d_mul (d_sub (slow_peer_penalty ps) (slow_peer_threshold p)) (slow_peer_weight p)) else x)" for x
  have e: "stats_score p (ps\<lparr>behaviour_penalty := c\<rparr>) = slow (behaviour_term p s2 c)" for c
    by (simp add: stats_score_def slow_def behaviour_term_def s2_def s1_def Let_def)
  have e0: "stats_score p ps = slow (behaviour_term p s2 (behaviour_penalty ps))"
    using e [of "behaviour_penalty ps"] by simp
  have nan: "x \<noteq> NaN" if "slow x \<noteq> NaN" for x using that by (auto simp: slow_def split: if_splits)
  have "is_dbl s2" by (simp add: s2_def)
  then have le: "d_le (behaviour_term p s2 b) (behaviour_term p s2 (behaviour_penalty ps))"
    using assms e e0 nan by (intro behaviour_term_antimono [OF assms(1-3)]) metis+
  have "d_le (slow x) (slow y)" if "d_le x y" "slow x \<noteq> NaN" "slow y \<noteq> NaN" for x y
  proof (cases "d_less (slow_peer_threshold p) (slow_peer_penalty ps)")
    case True
    let ?c = "d_mul (d_sub (slow_peer_penalty ps) (slow_peer_threshold p)) (slow_peer_weight p)"
    have "?c \<noteq> NaN" using that(2) True by (cases x) (auto simp: slow_def)
    then show ?thesis using that True d_add_mono [of x y ?c ?c] by (simp add: slow_def)
  qed (use that in \<open>simp add: slow_def\<close>)
  then show ?thesis using le assms(4,5) e e0 by simp
qed

text \<open>
  With a penalty weight that is not positive, \<open>addPenalty\<close> never
  raises the score of the peer, and it leaves the score of every other peer alone. (A score
  that is NaN is excluded: it compares with nothing.)
\<close>

theorem penalty_lowers_score:
  assumes "score_ok s" and "behaviour_penalty_threshold (params s) = Fin t"
    and "d_le (behaviour_penalty_weight (params s)) (Fin 0)"
    and "score s q \<noteq> NaN" and "score (addPenalty q n s) q \<noteq> NaN"
  shows "d_le (score (addPenalty q n s) q) (score s q)
    \<and> (\<forall>q'. q' \<noteq> q \<longrightarrow> score (addPenalty q n s) q' = score s q')"
proof -
  have other: "score (addPenalty q n s) q' = score s q'" if "q' \<noteq> q" for q'
    using that by (auto simp: score_def addPenalty_def put_peer_def update_conv' split: option.splits)
  show ?thesis
  proof (cases "map_of (peer_stats s) q")
    case None
    then show ?thesis using other by (simp add: score_def addPenalty_def)
  next
    case (Some ps)
    have ps: "d_le (Fin 0) (behaviour_penalty ps)" "is_dbl (behaviour_penalty ps)"
      using score_ok_peer [OF assms(1) Some] by (auto simp: peer_ok_def counter_ok_def)
    have z: "d_add (behaviour_penalty ps) (Fin 0) = behaviour_penalty ps"
      using ps by (cases "behaviour_penalty ps") auto
    have n: "d_le (Fin 0) (d_of_int (int n))" by (simp add: d_of_int_def rnd_nonneg)
    let ?b = "d_add (behaviour_penalty ps) (d_of_int (int n))"
    have "?b \<noteq> NaN" "behaviour_penalty ps \<noteq> NaN" using d_add_nonneg [OF ps(1) n] ps(1) by auto
    then have "d_le (behaviour_penalty ps) ?b"
      using d_add_mono [of "behaviour_penalty ps" "behaviour_penalty ps" "Fin 0"] n z by simp
    from stats_score_penalty [OF this assms(2,3)] assms(4,5) Some other show ?thesis
      by (simp add: score_def addPenalty_def put_peer_def update_conv')
  qed
qed

lemma decay_ok_lit:
  assumes "2 powi (- 10) \<le> q" and "q \<le> 1"
  shows "decay_ok (lit q)"
proof -
  have "d_le (Fin (2 powi (- 10))) (rnd q)" "d_le (rnd q) (Fin 1)"
    using rnd_mono [OF assms(1)] rnd_power [of "- 10"] rnd_mono [OF assms(2)] by simp_all
  then show ?thesis by (cases "rnd q") (auto simp: lit_def power_int_minus)
qed

text \<open>The default parameters are sound, also for a topic with the default parameters.\<close>

lemma default_params_ok: "params_ok (ScoreConfig_new\<lparr>sc_topics := [(t, TopicScoreParams_new)]\<rparr>)"
proof -
  have "decay_ok (lit (1 / 2))" "decay_ok (lit (3 / 10))" "decay_ok (lit (1 / 5))"
    by (rule decay_ok_lit; simp add: power_int_minus)+
  then show ?thesis
    by (simp add: params_ok_def topic_params_ok_def ScoreConfig_new_def TopicScoreParams_new_def counter_ok_def lit_def)
qed

theorem score_counters_sound_witness:
  "\<exists>s. run_cxx score_step (Score_new (ScoreConfig_new\<lparr>sc_topics := [([1], TopicScoreParams_new)]\<rparr>))
         [Connect [7], Graft [7] [1] 0, DeliverMessage [7] [9] [1] 5, OnDecay 10, Prune [7] [1]] = Returns s"
  using score_counters_sound [OF default_params_ok [of "[1]"],
      of "[Connect [7], Graft [7] [1] 0, DeliverMessage [7] [9] [1] 5, OnDecay 10, Prune [7] [1]]"] by blast

theorem penalty_lowers_score_witness:
  "let s = score_connect [7] (Score_new (ScoreConfig_new\<lparr>sc_topics := [([1], TopicScoreParams_new)]\<rparr>))
   in score (addPenalty [7] 2 s) [7] = Fin (- 40) \<and> d_le (score (addPenalty [7] 2 s) [7]) (score s [7])"
proof -
  let ?p = "ScoreConfig_new\<lparr>sc_topics := [([1], TopicScoreParams_new)]\<rparr>"
  let ?s = "score_connect [7] (Score_new ?p)"
  have ok: "score_ok ?s"
    by (intro score_connect_ok) (use default_params_ok [of "[1]"] in \<open>simp add: score_ok_def Score_new_def\<close>)
  have a: "score (addPenalty [7] 2 ?s) [7] = Fin (- 40)" and b: "score ?s [7] = Fin 0"
    by (simp_all add: score_def addPenalty_def score_connect_def put_peer_def Score_new_def stats_score_def topics_score_def
        PeerStats_new_def ScoreConfig_new_def lit_def d_of_int_def d_sub_def)
  have "behaviour_penalty_threshold (params ?s) = Fin 0" "d_le (behaviour_penalty_weight (params ?s)) (Fin 0)"
    by (simp_all add: Score_new_def ScoreConfig_new_def lit_def)
  from penalty_lowers_score [OF ok this, of "[7]" 2] a b show ?thesis by (simp add: Let_def)
qed

subsection \<open>Penalties are forgotten\<close>








section \<open>Scores that are not numbers\<close>

lemma d_add_NaN [simp]: "d_add NaN x = NaN" "d_add x NaN = NaN" "d_mul NaN x = NaN" "d_mul x NaN = NaN"
  by (cases x; simp)+

lemma topics_score_NaN:
  assumes "(t, ts) \<in> set al" and "map_of (sc_topics p) t = Some tp" and "topic_score tp ts = NaN"
  shows "topics_score p al = NaN"
proof -
  let ?f = "\<lambda>score (topic, topic_stats). case map_of (sc_topics p) topic of
          None \<Rightarrow> score | Some tp \<Rightarrow> d_add score (d_mul (topic_score tp topic_stats) (topic_weight tp))"
  have nan: "foldl ?f NaN xs = NaN" for xs by (induction xs) (auto split: option.splits)
  have "foldl ?f x al = NaN" for x
    using assms(1)
  proof (induction al arbitrary: x)
    case (Cons e al)
    show ?case
    proof (cases "e = (t, ts)")
      case True
      then show ?thesis using nan assms(2,3) by simp
    next
      case False
      then show ?thesis using Cons by auto
    qed
  qed simp
  then show ?thesis by (simp add: topics_score_def)
qed

lemma stats_score_NaN: "topics_score p (ps_topics ps) = NaN \<Longrightarrow> stats_score p ps = NaN"
  by (simp add: stats_score_def Let_def)

text \<open>
  A time quantum below one second is converted to zero seconds, so that
  the score of a peer just grafted in that topic is 0 / 0 = NaN: until the next decay no
  threshold check finds it below, however many penalties it gets. The default quantum of
  \<open>TopicScoreParams\<close> is one millisecond.
\<close>

theorem fresh_mesh_peer_never_below:
  assumes "map_of (peer_stats s) q = Some ps" and "map_of (sc_topics (params s)) t = Some tp"
    and "0 \<le> time_in_mesh_quantum tp" and "time_in_mesh_quantum tp < 1000"
  shows "score (addPenalty q n (score_graft q t now s)) q = NaN
    \<and> \<not> below (addPenalty q n (score_graft q t now s)) q threshold"
proof -
  obtain ts where ts: "statsOrDefault (params s) ps t = Some ts"
    using assms(2) by (cases "map_of (ps_topics ps) t") (auto simp: statsOrDefault_def)
  let ?ts = "ts\<lparr>mesh_active := Some \<lparr>graft_time = now, mesh_time = 0\<rparr>, mesh_message_deliveries_active := False\<rparr>"
  have "time_in_mesh_quantum tp sdiv 1000 = 0" using assms(3,4) by (simp add: signed_divide_int_def)
  then have "topic_score tp ?ts = NaN"
    by (simp add: topic_score_def Let_def as_secs_f64_def d_of_int_def inf_sign_def std_min_def)
  moreover have "(t, ?ts) \<in> set (AList.update t ?ts (ps_topics ps))"
    by (meson map_of_SomeD update_Some_unfold)
  ultimately have "topics_score (params s) (ps_topics (put_topic t ?ts ps)) = NaN"
    unfolding put_topic_def using topics_score_NaN assms(2) by simp
  then have "score (addPenalty q n (score_graft q t now s)) q = NaN"
    using assms(1) ts
    by (auto simp: score_def score_graft_def addPenalty_def put_peer_def update_conv' intro!: stats_score_NaN)
  then show ?thesis by (simp add: below_def)
qed

theorem fresh_mesh_peer_never_below_witness:
  "\<not> below (addPenalty [7] 1000 (score_graft [7] [1] 5
     (score_connect [7] (Score_new (ScoreConfig_new\<lparr>sc_topics := [([1], TopicScoreParams_new)]\<rparr>))))) [7] (Fin 0)"
proof -
  let ?s = "score_connect [7] (Score_new (ScoreConfig_new\<lparr>sc_topics := [([1], TopicScoreParams_new)]\<rparr>))"
  have "map_of (peer_stats ?s) [7] = Some PeerStats_new"
    by (simp add: score_connect_def put_peer_def Score_new_def PeerStats_new_def)
  moreover have "map_of (sc_topics (params ?s)) [1] = Some TopicScoreParams_new" by (simp add: Score_new_def)
  ultimately show ?thesis
    using fresh_mesh_peer_never_below [of ?s "[7]" PeerStats_new "[1]" TopicScoreParams_new 1000 5]
    by (simp add: TopicScoreParams_new_def)
qed

section \<open>Thresholds\<close>

text \<open>
  In a configuration that \<open>ScoreConfig::valid\<close> accepts and whose
  thresholds are numbers the sanctions are nested: a peer that is graylisted is not
  published to, a peer that is not published to gets no gossip, and a peer below any of the
  three thresholds has a negative score.
\<close>

theorem thresholds_nested:
  assumes "ScoreConfig_valid p" and "gossip_threshold p \<noteq> NaN" and "publish_threshold p \<noteq> NaN" and "zero p = Fin 0"
  shows "(below s q (graylist_threshold p) \<longrightarrow> below s q (publish_threshold p))
    \<and> (below s q (publish_threshold p) \<longrightarrow> below s q (gossip_threshold p))
    \<and> (below s q (gossip_threshold p) \<longrightarrow> below s q (zero p))"
proof -
  have step: "d_less x b" if "d_less x a" "\<not> d_less b a" "b \<noteq> NaN" for x a b
    using that by (cases a; cases b; cases x) auto
  have v: "\<not> d_less (Fin 0) (gossip_threshold p)" "\<not> d_less (gossip_threshold p) (publish_threshold p)"
    "\<not> d_less (publish_threshold p) (graylist_threshold p)"
    using assms(1) by (auto simp: ScoreConfig_valid_def lit_def split: if_splits)
  show ?thesis unfolding below_def assms(4) using v assms(2,3) step by blast
qed

theorem thresholds_nested_witness:
  "below (addPenalty [7] 5 (score_connect [7] (Score_new ScoreConfig_new))) [7] (gossip_threshold ScoreConfig_new)"
proof -
  let ?s = "addPenalty [7] 5 (score_connect [7] (Score_new ScoreConfig_new))"
  have v: "ScoreConfig_valid ScoreConfig_new" by (simp add: ScoreConfig_valid_def ScoreConfig_new_def lit_def)
  have "score ?s [7] = Fin (- 250)"
    by (simp add: score_def addPenalty_def score_connect_def put_peer_def Score_new_def stats_score_def topics_score_def
        PeerStats_new_def ScoreConfig_new_def lit_def d_of_int_def d_sub_def)
  then have "below ?s [7] (graylist_threshold ScoreConfig_new)" by (simp add: below_def ScoreConfig_new_def lit_def)
  with thresholds_nested [OF v, of ?s "[7]"] show ?thesis by (simp add: ScoreConfig_new_def lit_def)
qed

end
