(* ===== verification/Peer_Id.thy ===== *)
theory Peer_Id
  imports Multihash Base58
begin

text \<open>
  Keys and peer ids: \<open>include/libp2p/crypto/key.hpp\<close>, the validator
  \<open>src/crypto/key_validator/key_validator_impl.cpp\<close>, the marshaller
  \<open>src/crypto/key_marshaller.cpp\<close> and \<open>src/peer/peer_id.cpp\<close>. The generated protobuf
  code of \<open>keys.proto\<close>, the RSA key parser of openssl, the key derivation and SHA-256 are
  arguments.
\<close>

section \<open>Keys\<close>

datatype Key_Type = UNSPECIFIED | RSA | Ed25519 | Secp256k1 | ECDSA

record Key =
  key_type :: Key_Type
  key_data :: bytes

type_synonym PublicKey = Key
type_synonym PrivateKey = Key

record KeyPair =
  publicKey :: PublicKey
  privateKey :: PrivateKey

datatype KeyValidatorError =
  WRONG_PUBLIC_KEY_SIZE | WRONG_PRIVATE_KEY_SIZE | INVALID_PUBLIC_KEY | INVALID_PRIVATE_KEY
| KEYS_DONT_MATCH | DIFFERENT_KEY_TYPES | UNSUPPORTED_CRYPTO_ALGORYTHM | UNKNOWN_CRYPTO_ALGORYTHM

datatype CryptoProviderError =
  INVALID_KEY_TYPE | UNKNOWN_KEY_TYPE | FAILED_UNMARSHAL_DATA
| SIGNATURE_GENERATION_FAILED | SIGNATURE_VERIFICATION_FAILED

datatype 'e KeyError = Validator KeyValidatorError | Provider CryptoProviderError | Other 'e

section \<open>Validation\<close>

definition kMinimumRSABitsCount :: int where "kMinimumRSABitsCount = 2048"
definition ED25519_PRIVATE_KEY_SIZE :: nat where "ED25519_PRIVATE_KEY_SIZE = 32"
definition ED25519_PUBLIC_KEY_SIZE :: nat where "ED25519_PUBLIC_KEY_SIZE = 32"
definition SECP256K1_PRIVATE_KEY_SIZE :: nat where "SECP256K1_PRIVATE_KEY_SIZE = 32"
definition SECP256K1_PUBLIC_KEY_SIZE :: nat where "SECP256K1_PUBLIC_KEY_SIZE = 33"
definition SECP256K1_PUBLIC_KEY_EVEN_PREFIX :: byte where "SECP256K1_PUBLIC_KEY_EVEN_PREFIX = 0x02"
definition SECP256K1_PUBLIC_KEY_ODD_PREFIX :: byte where "SECP256K1_PUBLIC_KEY_ODD_PREFIX = 0x03"

text \<open>\<open>rsa_bits\<close> is \<open>RSA_bits\<close> of the key that \<open>d2i_RSA...\<close> parses, if it does.\<close>

definition validateRsa_private :: "(bytes \<Rightarrow> int option) \<Rightarrow> PrivateKey \<Rightarrow> (KeyValidatorError, unit) result" where
  "validateRsa_private rsa_bits key =
     (case rsa_bits (key_data key) of
        None \<Rightarrow> Inl INVALID_PRIVATE_KEY
      | Some bits \<Rightarrow> if bits < kMinimumRSABitsCount then Inl INVALID_PRIVATE_KEY else Inr ())"

definition validateRsa_public :: "(bytes \<Rightarrow> int option) \<Rightarrow> PublicKey \<Rightarrow> (KeyValidatorError, unit) result" where
  "validateRsa_public rsa_bits key =
     (case rsa_bits (key_data key) of
        None \<Rightarrow> Inl INVALID_PUBLIC_KEY
      | Some bits \<Rightarrow> if bits < kMinimumRSABitsCount then Inl INVALID_PUBLIC_KEY else Inr ())"

definition validateEd25519_private :: "PrivateKey \<Rightarrow> (KeyValidatorError, unit) result" where
  "validateEd25519_private key =
     (if length (key_data key) \<noteq> ED25519_PRIVATE_KEY_SIZE then Inl WRONG_PRIVATE_KEY_SIZE else Inr ())"

definition validateEd25519_public :: "PublicKey \<Rightarrow> (KeyValidatorError, unit) result" where
  "validateEd25519_public key =
     (if length (key_data key) \<noteq> ED25519_PUBLIC_KEY_SIZE then Inl WRONG_PUBLIC_KEY_SIZE else Inr ())"

definition validateSecp256k1_private :: "PrivateKey \<Rightarrow> (KeyValidatorError, unit) result" where
  "validateSecp256k1_private key =
     (if length (key_data key) \<noteq> SECP256K1_PRIVATE_KEY_SIZE then Inl WRONG_PRIVATE_KEY_SIZE else Inr ())"

definition validateSecp256k1_public :: "PublicKey \<Rightarrow> (KeyValidatorError, unit) result" where
  "validateSecp256k1_public key =
     (if length (key_data key) \<noteq> SECP256K1_PUBLIC_KEY_SIZE then Inl WRONG_PUBLIC_KEY_SIZE
      else
        (let prefix = key_data key ! 0
         in if prefix \<noteq> SECP256K1_PUBLIC_KEY_EVEN_PREFIX \<and> prefix \<noteq> SECP256K1_PUBLIC_KEY_ODD_PREFIX
            then Inl INVALID_PUBLIC_KEY else Inr ()))"

definition validate_private :: "(bytes \<Rightarrow> int option) \<Rightarrow> PrivateKey \<Rightarrow> (KeyValidatorError, unit) result" where
  "validate_private rsa_bits key =
     (case key_type key of
        UNSPECIFIED \<Rightarrow> Inr ()
      | RSA \<Rightarrow> validateRsa_private rsa_bits key
      | Ed25519 \<Rightarrow> validateEd25519_private key
      | Secp256k1 \<Rightarrow> validateSecp256k1_private key
      | ECDSA \<Rightarrow> Inr ())"

definition validate_public :: "(bytes \<Rightarrow> int option) \<Rightarrow> PublicKey \<Rightarrow> (KeyValidatorError, unit) result" where
  "validate_public rsa_bits key =
     (case key_type key of
        UNSPECIFIED \<Rightarrow> Inr ()
      | RSA \<Rightarrow> validateRsa_public rsa_bits key
      | Ed25519 \<Rightarrow> validateEd25519_public key
      | Secp256k1 \<Rightarrow> validateSecp256k1_public key
      | ECDSA \<Rightarrow> Inr ())"

definition validate_pair ::
  "(bytes \<Rightarrow> int option) \<Rightarrow> (bytes \<Rightarrow> int option) \<Rightarrow> (PrivateKey \<Rightarrow> ('e, PublicKey) result) \<Rightarrow> KeyPair
    \<Rightarrow> ('e KeyError, unit) result" where
  "validate_pair rsa_bits_private rsa_bits_public derivePublicKey keys =
     (if key_type (privateKey keys) \<noteq> key_type (publicKey keys) then Inl (Validator DIFFERENT_KEY_TYPES)
      else if key_type (privateKey keys) = UNSPECIFIED then Inr ()
      else
        bind_result (map_sum Validator id (validate_private rsa_bits_private (privateKey keys))) (\<lambda>_.
        bind_result (map_sum Validator id (validate_public rsa_bits_public (publicKey keys))) (\<lambda>_.
        bind_result (map_sum Other id (derivePublicKey (privateKey keys))) (\<lambda>public_key.
          if public_key \<noteq> publicKey keys then Inl (Validator KEYS_DONT_MATCH) else Inr ()))))"

section \<open>Marshalling\<close>

text \<open>The enumeration of \<open>keys.proto\<close>.\<close>

datatype pb_KeyType = PbRSA | PbEd25519 | PbSecp256k1 | PbECDSA

fun marshalKeyType :: "Key_Type \<Rightarrow> (CryptoProviderError, pb_KeyType) result" where
  "marshalKeyType RSA = Inr PbRSA"
| "marshalKeyType Ed25519 = Inr PbEd25519"
| "marshalKeyType Secp256k1 = Inr PbSecp256k1"
| "marshalKeyType ECDSA = Inr PbECDSA"
| "marshalKeyType UNSPECIFIED = Inl INVALID_KEY_TYPE"

fun unmarshalKeyType :: "pb_KeyType \<Rightarrow> (CryptoProviderError, Key_Type) result" where
  "unmarshalKeyType PbRSA = Inr RSA"
| "unmarshalKeyType PbEd25519 = Inr Ed25519"
| "unmarshalKeyType PbSecp256k1 = Inr Secp256k1"
| "unmarshalKeyType PbECDSA = Inr ECDSA"

text \<open>The generated serializer and parser of the messages \<open>PublicKey\<close> and \<open>PrivateKey\<close>.\<close>

definition marshal :: "(pb_KeyType \<Rightarrow> bytes \<Rightarrow> bytes) \<Rightarrow> Key \<Rightarrow> (CryptoProviderError, bytes) result" where
  "marshal serialize key =
     bind_result (marshalKeyType (key_type key)) (\<lambda>type. Inr (serialize type (key_data key)))"

definition unmarshal_with ::
  "(Key \<Rightarrow> (KeyValidatorError, unit) result) \<Rightarrow> (bytes \<Rightarrow> (pb_KeyType \<times> bytes) option) \<Rightarrow> bytes
    \<Rightarrow> (unit KeyError, Key) result" where
  "unmarshal_with validate parse proto_key =
     (case parse proto_key of
        None \<Rightarrow> Inl (Provider FAILED_UNMARSHAL_DATA)
      | Some (pb_type, pb_data) \<Rightarrow>
          bind_result (map_sum Provider id (unmarshalKeyType pb_type)) (\<lambda>type.
            (let key = \<lparr>key_type = type, key_data = pb_data\<rparr>
             in bind_result (map_sum Validator id (validate key)) (\<lambda>_. Inr key))))"

definition unmarshalPublicKey ::
  "(bytes \<Rightarrow> int option) \<Rightarrow> (bytes \<Rightarrow> (pb_KeyType \<times> bytes) option) \<Rightarrow> bytes \<Rightarrow> (unit KeyError, PublicKey) result" where
  "unmarshalPublicKey rsa_bits parse proto_key = unmarshal_with (validate_public rsa_bits) parse proto_key"

definition unmarshalPrivateKey ::
  "(bytes \<Rightarrow> int option) \<Rightarrow> (bytes \<Rightarrow> (pb_KeyType \<times> bytes) option) \<Rightarrow> bytes \<Rightarrow> (unit KeyError, PrivateKey) result" where
  "unmarshalPrivateKey rsa_bits parse proto_key = unmarshal_with (validate_private rsa_bits) parse proto_key"

section \<open>Peer ids\<close>

text \<open>A \<open>PeerId\<close> is its multihash \<open>hash_\<close>.\<close>

datatype PeerIdError = SHA256_EXPECTED | Base BaseError | Hash MultihashError

definition kMaxInlineKeyLength :: nat where
  "kMaxInlineKeyLength = 42"

definition PeerId_fromPublicKey ::
  "(bytes \<Rightarrow> ('s, bytes) result) \<Rightarrow> bytes \<Rightarrow> ('s + MultihashError, Multihash) result" where
  "PeerId_fromPublicKey sha key =
     (if length key \<le> kMaxInlineKeyLength
      then map_sum Inr id (Multihash_create identity key)
      else
        bind_result (map_sum Inl id (sha key)) (\<lambda>shash. map_sum Inr id (Multihash_create sha256 shash)))"

definition PeerId_fromHash :: "Multihash \<Rightarrow> (PeerIdError, Multihash) result" where
  "PeerId_fromHash hash =
     (if getType hash \<noteq> sha256 \<and> length (toBuffer hash) > kMaxInlineKeyLength then Inl SHA256_EXPECTED
      else Inr hash)"

definition PeerId_fromBase58 :: "string \<Rightarrow> (PeerIdError, Multihash) result" where
  "PeerId_fromBase58 str =
     bind_result (map_sum Base id (decodeBase58 str)) (\<lambda>decoded_id.
     bind_result (map_sum Hash id (Multihash_createFromBytes decoded_id)) (\<lambda>hash.
       if getType hash \<noteq> sha256 \<and> length (toBuffer hash) > kMaxInlineKeyLength then Inl SHA256_EXPECTED
       else Inr hash))"

definition PeerId_fromBytes :: "bytes \<Rightarrow> (PeerIdError, Multihash) result" where
  "PeerId_fromBytes v =
     bind_result (map_sum Hash id (Multihash_createFromBytes v)) PeerId_fromHash"

definition PeerId_less :: "Multihash \<Rightarrow> Multihash \<Rightarrow> bool" where
  "PeerId_less a b = Multihash_less a b"

definition PeerId_eq :: "Multihash \<Rightarrow> Multihash \<Rightarrow> bool" where
  "PeerId_eq a b = Multihash_eq a b"

definition PeerId_neq :: "Multihash \<Rightarrow> Multihash \<Rightarrow> bool" where
  "PeerId_neq a b \<longleftrightarrow> \<not> PeerId_eq a b"

definition toBase58 :: "Multihash \<Rightarrow> string" where
  "toBase58 p = encodeBase58 (toBuffer p)"

definition toVector :: "Multihash \<Rightarrow> bytes" where
  "toVector p = toBuffer p"

definition PeerId_publicKey ::
  "(bytes \<Rightarrow> int option) \<Rightarrow> (bytes \<Rightarrow> (pb_KeyType \<times> bytes) option) \<Rightarrow> Multihash \<Rightarrow> PublicKey option" where
  "PeerId_publicKey rsa_bits parse p =
     (case unmarshalPublicKey rsa_bits parse (getHash p) of Inr key \<Rightarrow> Some key | Inl _ \<Rightarrow> None)"

section \<open>Keys are recovered\<close>

lemma unmarshal_marshalKeyType: "marshalKeyType t = Inr p \<Longrightarrow> unmarshalKeyType p = Inr t"
  by (cases t) auto

lemma unmarshal_marshal:
  assumes "\<And>t d. parse (serialize t d) = Some (t, d)" and "marshal serialize key = Inr pb"
  shows "unmarshal_with validate parse pb = bind_result (map_sum Validator id (validate key)) (\<lambda>_. Inr key)"
proof -
  obtain p where p: "marshalKeyType (key_type key) = Inr p" "pb = serialize p (key_data key)"
    using assms(2) by (auto simp: marshal_def bind_result_eq_Inr)
  show ?thesis using assms(1) unmarshal_marshalKeyType [OF p(1)] unfolding p(2) by (cases key) (simp add: unmarshal_with_def Let_def)
qed

text \<open>
  Over a protobuf codec that parses what it serializes, a key that
  marshals is unmarshalled to itself when the validator accepts it, and to the error of the
  validator when it does not, for public and for private keys; only a key of unspecified
  type does not marshal.
\<close>

theorem key_marshal_roundtrip:
  assumes "\<And>t d. parse (serialize t d) = Some (t, d)"
  shows "(marshal serialize key = Inl INVALID_KEY_TYPE \<longleftrightarrow> key_type key = UNSPECIFIED)
    \<and> (\<forall>pb. marshal serialize key = Inr pb \<longrightarrow>
         unmarshalPublicKey rsa parse pb = (case validate_public rsa key of Inr _ \<Rightarrow> Inr key | Inl e \<Rightarrow> Inl (Validator e))
         \<and> unmarshalPrivateKey rsa' parse pb = (case validate_private rsa' key of Inr _ \<Rightarrow> Inr key | Inl e \<Rightarrow> Inl (Validator e)))"
proof -
  have "marshal serialize key = Inl INVALID_KEY_TYPE \<longleftrightarrow> key_type key = UNSPECIFIED"
    by (cases "key_type key") (simp_all add: marshal_def)
  then show ?thesis
    using unmarshal_marshal [OF assms]
    by (auto simp: unmarshalPublicKey_def unmarshalPrivateKey_def split: sum.splits)
qed

text \<open>A codec for the witnesses: the type in one byte, then the data.\<close>

fun serialize_ex :: "pb_KeyType \<Rightarrow> bytes \<Rightarrow> bytes" where
  "serialize_ex PbRSA d = 0 # d"
| "serialize_ex PbEd25519 d = 1 # d"
| "serialize_ex PbSecp256k1 d = 2 # d"
| "serialize_ex PbECDSA d = 3 # d"

fun parse_ex :: "bytes \<Rightarrow> (pb_KeyType \<times> bytes) option" where
  "parse_ex [] = None"
| "parse_ex (b # d) =
     (if b = 0 then Some (PbRSA, d) else if b = 1 then Some (PbEd25519, d)
      else if b = 2 then Some (PbSecp256k1, d) else if b = 3 then Some (PbECDSA, d) else None)"

lemma parse_serialize_ex: "parse_ex (serialize_ex t d) = Some (t, d)"
  by (cases t) simp_all

theorem key_marshal_roundtrip_witness:
  "unmarshalPublicKey (\<lambda>_. None) parse_ex (1 # replicate 32 7) = Inr \<lparr>key_type = Ed25519, key_data = replicate 32 7\<rparr>"
  using key_marshal_roundtrip [OF parse_serialize_ex, of "\<lparr>key_type = Ed25519, key_data = replicate 32 7\<rparr>" "\<lambda>_. None" "\<lambda>_. None"]
  by (simp add: marshal_def validate_public_def validateEd25519_public_def ED25519_PUBLIC_KEY_SIZE_def)

section \<open>Peer ids are recovered\<close>

lemma createFromBytes_Data:
  assumes "length h \<le> kMaxHashLength"
  shows "Multihash_createFromBytes (toBuffer (Multihash_Data t h)) =
    (if h = [] then Inl ZERO_INPUT_LENGTH else Inr (Multihash_Data t h))"
proof -
  have "(word_of_nat (length h) :: byte) = 0 \<longleftrightarrow> h = []"
    using unat_length_byte [OF assms] by (auto simp: word_unat_eq_iff)
  then show ?thesis
    using unat_length_byte [OF assms] assms
    by (simp add: toBuffer_def Multihash_Data_parts createFromBytes_layout Multihash_create_def)
qed

lemma PeerId_fromBase58_eq: "PeerId_fromBase58 (toBase58 p) = PeerId_fromBytes (toVector p)"
  by (simp add: PeerId_fromBase58_def toBase58_def decode_encodeBase58 PeerId_fromBytes_def toVector_def
      PeerId_fromHash_def [abs_def])

text \<open>
  \<^bold>\<open>C40\<close> (round trip). The id of a public key parses back from its bytes and from its
  base58 text when the marshalled key has 1 to 40 bytes or more than 42 (with a SHA-256
  that returns 32 bytes). For keys of 41 and 42 bytes, which \<open>fromPublicKey\<close> still
  inlines, both parsers refuse the id with \<open>SHA256_EXPECTED\<close>: they compare the size of the
  whole multihash, not of the key, with the limit.
\<close>

theorem peer_id_roundtrip:
  assumes "PeerId_fromPublicKey sha key = Inr p" and "\<And>k h. sha k = Inr h \<Longrightarrow> length h = 32" and "key \<noteq> []"
  shows "PeerId_fromBytes (toVector p) = (if length key \<in> {41, 42} then Inl SHA256_EXPECTED else Inr p)
    \<and> PeerId_fromBase58 (toBase58 p) = (if length key \<in> {41, 42} then Inl SHA256_EXPECTED else Inr p)"
proof -
  have "PeerId_fromBytes (toVector p) = (if length key \<in> {41, 42} then Inl SHA256_EXPECTED else Inr p)"
  proof (cases "length key \<le> kMaxInlineKeyLength")
    case True
    then have len: "length key \<le> kMaxHashLength" by (simp add: kMaxInlineKeyLength_def kMaxHashLength_def)
    with assms(1) True have p: "p = Multihash_Data identity key"
      by (auto simp: PeerId_fromPublicKey_def Multihash_create_def)
    have "varint_bytes identity = [0]" by (simp add: identity_def) code_simp
    then have "length (toBuffer p) = length key + 2" by (simp add: p toBuffer_def Multihash_Data_parts)
    moreover have "getType p \<noteq> sha256" by (simp add: p getType_def Multihash_Data_parts identity_def sha256_def)
    ultimately show ?thesis
      using createFromBytes_Data [OF len, of identity] assms(3) True
      by (auto simp: p PeerId_fromBytes_def toVector_def PeerId_fromHash_def kMaxInlineKeyLength_def)
  next
    case False
    then obtain h where h: "sha key = Inr h" "p = Multihash_Data sha256 h" and len: "length h \<le> kMaxHashLength"
      using assms(1) by (cases "sha key") (auto simp: PeerId_fromPublicKey_def Multihash_create_def split: if_splits)
    have "h \<noteq> []" using assms(2) [OF h(1)] by auto
    then show ?thesis
      using createFromBytes_Data [OF len, of sha256] False
      by (auto simp: h PeerId_fromBytes_def toVector_def PeerId_fromHash_def getType_def Multihash_Data_parts
          kMaxInlineKeyLength_def)
  qed
  then show ?thesis by (simp add: PeerId_fromBase58_eq)
qed

theorem peer_id_roundtrip_witness:
  "PeerId_fromBytes (toVector (Multihash_Data identity (replicate 41 7))) = Inl SHA256_EXPECTED
   \<and> PeerId_fromBytes (toVector (Multihash_Data identity (replicate 36 7))) = Inr (Multihash_Data identity (replicate 36 7))"
proof -
  let ?sha = "\<lambda>_. Inl () :: (unit, bytes) result"
  have "PeerId_fromPublicKey ?sha (replicate n 7) = Inr (Multihash_Data identity (replicate n 7))" if "n \<le> 42" for n
    using that by (simp add: PeerId_fromPublicKey_def kMaxInlineKeyLength_def Multihash_create_def kMaxHashLength_def)
  note k = this [THEN peer_id_roundtrip]
  show ?thesis using k [of 41] k [of 36] by (simp del: One_nat_def)
qed

text \<open>
  A peer id made from a marshalled public key of at most 42 bytes
  holds the key: \<open>publicKey\<close> returns it when the validator accepts it. This is what the
  gossip layer relies on to check the signature of a message by the id of its author.
\<close>

theorem peer_id_holds_key:
  assumes "\<And>t d. parse (serialize t d) = Some (t, d)" and "marshal serialize key = Inr pb"
    and "length pb \<le> kMaxInlineKeyLength" and "PeerId_fromPublicKey sha pb = Inr p"
    and "validate_public rsa key = Inr ()"
  shows "PeerId_publicKey rsa parse p = Some key"
proof -
  have "p = Multihash_Data identity pb"
    using assms(3,4) by (auto simp: PeerId_fromPublicKey_def Multihash_create_def split: if_splits)
  then have "getHash p = pb" by (simp add: Multihash_Data_parts)
  then show ?thesis
    using unmarshal_marshal [OF assms(1,2), of "validate_public rsa"] assms(5)
    by (simp add: PeerId_publicKey_def unmarshalPublicKey_def)
qed

theorem peer_id_holds_key_witness:
  "PeerId_publicKey (\<lambda>_. None) parse_ex (Multihash_Data identity (1 # replicate 32 7))
     = Some \<lparr>key_type = Ed25519, key_data = replicate 32 7\<rparr>"
  by (rule peer_id_holds_key [OF parse_serialize_ex, where pb = "1 # replicate 32 7" and sha = "\<lambda>_. Inl ()"])
    (simp_all add: marshal_def kMaxInlineKeyLength_def PeerId_fromPublicKey_def Multihash_create_def kMaxHashLength_def
      validate_public_def validateEd25519_public_def ED25519_PUBLIC_KEY_SIZE_def)

text \<open>Peer ids are equal when their bytes are.\<close>

lemma PeerId_eq_toVector:
  assumes "mh_inv p" and "mh_inv q"
  shows "PeerId_eq p q \<longleftrightarrow> toVector p = toVector q"
proof
  assume e: "toVector p = toVector q"
  have b: "mh_bytes p = varint_bytes (mh_type p) @ word_of_nat (length (getHash p)) # getHash p"
    "mh_bytes q = varint_bytes (mh_type q) @ word_of_nat (length (getHash q)) # getHash q"
    using assms by (simp_all add: mh_inv_def)
  have "consume_buffer VarintPrefixReader_init (mh_bytes p) = consume_buffer VarintPrefixReader_init (mh_bytes q)"
    using e by (simp add: toVector_def toBuffer_def)
  then have "mh_type p = mh_type q"
    unfolding b using consume_buffer_varint by (metis Pair_inject)
  with e show "PeerId_eq p q" by (simp add: PeerId_eq_def Multihash_eq_def toVector_def toBuffer_def)
qed (simp add: PeerId_eq_def Multihash_eq_def toVector_def toBuffer_def)

end
