(* ===== verification/Gossip.thy ===== *)
theory Gossip
  imports Backoff Score Peer_Id
begin

text \<open>
  The gossip protocol: \<open>include/libp2p/protocol/gossip/gossip.hpp\<close> and
  \<open>src/protocol/gossip/gossip.cpp\<close>. A \<open>PeerPtr\<close> is an index into the list of all peer
  objects ever made (a shared pointer may outlive the entry of the peer in \<open>peers_\<close>), a
  \<open>MessagePtr\<close> the message, which no one changes once it is shared. Topics are found by
  their hash: the topics an application holds are subscribed ones, and only fanout topics
  are ever removed. Hash sets are lists without repetition and hash maps association lists,
  in some order of iteration. A handler takes the reading of the clock as an argument.

  \<open>Throws\<close> stands for an exception, a failed assertion or undefined behaviour.
\<close>

section \<open>Code outside the protocol\<close>

datatype PeerKind = NotSupported | Floodsub | Gossipsub | Gossipsubv1_1 | Gossipsubv1_2

text \<open>The comparison of the enumerators, which have type \<open>uint8_t\<close>.\<close>

fun PeerKind_value :: "PeerKind \<Rightarrow> nat" where
  "PeerKind_value NotSupported = 0"
| "PeerKind_value Floodsub = 1"
| "PeerKind_value Gossipsub = 2"
| "PeerKind_value Gossipsubv1_1 = 3"
| "PeerKind_value Gossipsubv1_2 = 4"

instantiation PeerKind :: linorder
begin

definition less_eq_PeerKind :: "PeerKind \<Rightarrow> PeerKind \<Rightarrow> bool" where
  "less_eq_PeerKind a b \<longleftrightarrow> PeerKind_value a \<le> PeerKind_value b"

definition less_PeerKind :: "PeerKind \<Rightarrow> PeerKind \<Rightarrow> bool" where
  "less_PeerKind a b \<longleftrightarrow> PeerKind_value a < PeerKind_value b"

instance
proof
  fix a b :: PeerKind
  assume "a \<le> b" "b \<le> a"
  then show "a = b" by (cases a; cases b; simp add: less_eq_PeerKind_def)
qed (auto simp: less_eq_PeerKind_def less_PeerKind_def)

end


definition kProtocolFloodsub :: ProtocolName where "kProtocolFloodsub = ''/floodsub/1.0.0''"
definition kProtocolGossipsub :: ProtocolName where "kProtocolGossipsub = ''/meshsub/1.0.0''"
definition kProtocolGossipsubv1_1 :: ProtocolName where "kProtocolGossipsubv1_1 = ''/meshsub/1.1.0''"
definition kProtocolGossipsubv1_2 :: ProtocolName where "kProtocolGossipsubv1_2 = ''/meshsub/1.2.0''"

datatype ValidationMode = Validate_Strict | Validate_Anonymous
datatype MessageAuthenticity = Authenticity_Signed | Authenticity_Anonymous

record Message =
  m_from :: "PeerId option"
  m_data :: bytes
  m_seqno :: "u64 option"
  m_topic :: TopicHash
  m_signature :: "bytes option"
  m_received_from :: "PeerId option"

text \<open>The messages of \<open>gossip.proto\<close>; an optional field that is absent reads as empty.\<close>

record pb_Message =
  pb_from :: "bytes option"
  pb_data :: "bytes option"
  pb_seqno :: "bytes option"
  pb_topic :: bytes
  pb_signature :: "bytes option"
  pb_key :: "bytes option"

record pb_SubOpts =
  so_subscribe :: bool
  so_topic_id :: bytes

record pb_ControlIHave =
  ih_topic_id :: bytes
  ih_message_ids :: "bytes list"

record pb_ControlPrune =
  pr_topic_id :: bytes
  pr_backoff :: "u64 option"

record pb_ControlMessage =
  co_ihave :: "pb_ControlIHave list"
  co_iwant :: "bytes list list"
  co_graft :: "bytes list"
  co_prune :: "pb_ControlPrune list"
  co_idontwant :: "bytes list list"

record pb_RPC =
  rpc_subscriptions :: "pb_SubOpts list"
  rpc_publish :: "pb_Message list"
  rpc_control :: pb_ControlMessage

definition field :: "bytes option \<Rightarrow> bytes" where
  "field f = (case f of None \<Rightarrow> [] | Some b \<Rightarrow> b)"

definition pb_RPC_empty :: pb_RPC where
  "pb_RPC_empty =
     \<lparr>rpc_subscriptions = [], rpc_publish = [],
      rpc_control = \<lparr>co_ihave = [], co_iwant = [], co_graft = [], co_prune = [], co_idontwant = []\<rparr>\<rparr>"

text \<open>
  What the protocol uses of other code: the message id function of the configuration, the
  random permutations (the argument is the state of the generator), the generated protobuf
  code, the keys of peers and the crypto provider.
\<close>

record Env =
  message_id_fn :: "Message \<Rightarrow> MessageId"
  shuffle_peers :: "nat \<Rightarrow> nat list \<Rightarrow> nat list"
  shuffle_ids :: "nat \<Rightarrow> MessageId list \<Rightarrow> MessageId list"
  parse_rpc :: "bytes \<Rightarrow> pb_RPC option"
  rpc_bytes :: "pb_RPC \<Rightarrow> bytes"
  message_bytes :: "pb_Message \<Rightarrow> bytes"
  rsa_bits :: "bytes \<Rightarrow> int option"
  parse_key :: "bytes \<Rightarrow> (pb_KeyType \<times> bytes) option"
  verify :: "bytes \<Rightarrow> bytes \<Rightarrow> PublicKey \<Rightarrow> bool option"
  sign :: "bytes \<Rightarrow> bytes option"
  host_id :: PeerId

section \<open>Configuration\<close>

record TopicMeshConfig =
  mesh_n :: nat
  mesh_n_low :: nat
  mesh_n_high :: nat
  mesh_outbound_min :: nat

definition TopicMeshConfig_new :: TopicMeshConfig where
  "TopicMeshConfig_new = \<lparr>mesh_n = 6, mesh_n_low = 5, mesh_n_high = 12, mesh_outbound_min = 2\<rparr>"

text \<open>Durations are in seconds.\<close>

record Config =
  validation_mode :: ValidationMode
  message_authenticity :: MessageAuthenticity
  protocol_versions :: "(ProtocolName, PeerKind) alist"
  duplicate_cache_time :: int
  default_mesh_params :: TopicMeshConfig
  prune_backoff :: int
  unsubscribe_backoff :: int
  backoff_slack :: nat
  graft_flood_threshold :: int
  heartbeat_interval :: int
  fanout_ttl :: int
  retain_scores :: nat
  history_length :: nat
  history_gossip :: nat
  gossip_retransimission :: nat
  gossip_lazy :: nat
  gossip_factor :: dbl
  max_ihave_length :: nat
  max_ihave_messages :: nat
  flood_publish :: bool
  idontwant_message_size_threshold :: nat
  idontwant_on_publish :: bool
  iwant_followup_time :: int
  opportunistic_graft_ticks :: nat
  opportunistic_graft_peers :: nat
  score_config :: ScoreConfig

definition Config_new :: Config where
  "Config_new =
     \<lparr>validation_mode = Validate_Strict, message_authenticity = Authenticity_Signed,
      protocol_versions =
        [(kProtocolFloodsub, Floodsub), (kProtocolGossipsub, Gossipsub),
         (kProtocolGossipsubv1_1, Gossipsubv1_1), (kProtocolGossipsubv1_2, Gossipsubv1_2)],
      duplicate_cache_time = 60, default_mesh_params = TopicMeshConfig_new, prune_backoff = 60,
      unsubscribe_backoff = 10, backoff_slack = 1, graft_flood_threshold = 10,
      heartbeat_interval = 1, fanout_ttl = 60, retain_scores = 4, history_length = 5,
      history_gossip = 3, gossip_retransimission = 3, gossip_lazy = 6, gossip_factor = lit (1 / 4),
      max_ihave_length = 5000, max_ihave_messages = 10, flood_publish = True,
      idontwant_message_size_threshold = 1000, idontwant_on_publish = False,
      iwant_followup_time = 3, opportunistic_graft_ticks = 60, opportunistic_graft_peers = 2,
      score_config = ScoreConfig_new\<rparr>"

definition mesh_n_for_topic :: "Config \<Rightarrow> TopicHash \<Rightarrow> nat" where
  "mesh_n_for_topic c topic_hash = mesh_n (default_mesh_params c)"

definition mesh_n_low_for_topic :: "Config \<Rightarrow> TopicHash \<Rightarrow> nat" where
  "mesh_n_low_for_topic c topic_hash = mesh_n_low (default_mesh_params c)"

definition mesh_n_high_for_topic :: "Config \<Rightarrow> TopicHash \<Rightarrow> nat" where
  "mesh_n_high_for_topic c topic_hash = mesh_n_high (default_mesh_params c)"

definition mesh_outbound_min_for_topic :: "Config \<Rightarrow> TopicHash \<Rightarrow> nat" where
  "mesh_outbound_min_for_topic c topic_hash = mesh_outbound_min (default_mesh_params c)"

section \<open>Messages on the wire\<close>

text \<open>\<open>boost::endian::store_big_u64\<close> and \<open>load_big_u64\<close>.\<close>

definition store_big_u64 :: "u64 \<Rightarrow> bytes" where
  "store_big_u64 v = map (\<lambda>i. ucast (drop_bit (8 * (7 - i)) v)) [0..<8]"

definition load_big_u64 :: "bytes \<Rightarrow> u64" where
  "load_big_u64 bs = foldl (\<lambda>acc b. push_bit 8 acc OR ucast b) 0 (take 8 bs)"

definition toProtobuf :: "Message \<Rightarrow> pb_Message" where
  "toProtobuf message =
     \<lparr>pb_from = m_from message, pb_data = Some (m_data message),
      pb_seqno = map_option store_big_u64 (m_seqno message), pb_topic = m_topic message,
      pb_signature = m_signature message, pb_key = None\<rparr>"

definition kSigningContext :: bytes where
  "kSigningContext = map byte_of_char ''libp2p-pubsub:''"

definition getSignable :: "Env \<Rightarrow> pb_Message \<Rightarrow> bytes" where
  "getSignable env pb_publish =
     kSigningContext @ message_bytes env (pb_publish\<lparr>pb_signature := None, pb_key := None\<rparr>)"

text \<open>\<open>std::to_string\<close> of an unsigned number.\<close>

fun decimal :: "nat \<Rightarrow> string" where
  "decimal n = (if n < 10 then [char_of (48 + n)] else decimal (n div 10) @ [char_of (48 + n mod 10)])"

declare decimal.simps [simp del]

text \<open>The id of an absent author is the multihash with the bytes 0, 1, 0.\<close>

definition defaultMessageIdFn :: "Message \<Rightarrow> MessageId" where
  "defaultMessageIdFn message =
     map byte_of_char
       (encodeBase58 (case m_from message of Some f \<Rightarrow> f | None \<Rightarrow> [0, 1, 0])
        @ decimal (unat (case m_seqno message of Some n \<Rightarrow> n | None \<Rightarrow> 0)))"

section \<open>State\<close>

type_synonym PeerPtr = nat
type_synonym StreamPtr = nat

record Rpc =
  subscriptions :: "(TopicHash, bool) alist"
  publish :: "Message list"
  graft :: "TopicHash list"
  prune :: "(TopicHash, int option) alist"
  ihave :: "(TopicHash, MessageId list) alist"
  iwant :: "MessageId list"
  idontwant :: "MessageId list"

definition Rpc_new :: Rpc where
  "Rpc_new = \<lparr>subscriptions = [], publish = [], graft = [], prune = [], ihave = [], iwant = [], idontwant = []\<rparr>"

record MessageCacheEntry =
  ce_message :: Message
  ce_iwant :: "(PeerId, nat) alist"

record Topic =
  t_publish_only :: bool
  t_receive_channel :: "Message list"
  t_history :: "MessageId History"
  t_backoff :: "PeerPtr TopicBackoff"
  t_peers :: "PeerPtr list"
  t_mesh_peers :: "PeerPtr list"
  t_last_publish :: time

record Peer =
  p_peer_id :: PeerId
  p_out :: bool
  p_peer_kind :: "PeerKind option"
  p_topics :: "TopicHash list"
  p_stream_out :: "StreamPtr option"
  p_streams_in :: "StreamPtr list"
  p_batch :: "Rpc option"
  p_writing :: bool
  p_is_connecting :: bool
  p_dont_send :: "MessageId IDontWantCache"

definition Peer_new :: "PeerId \<Rightarrow> bool \<Rightarrow> Peer" where
  "Peer_new peer_id out =
     \<lparr>p_peer_id = peer_id, p_out = out, p_peer_kind = None, p_topics = [], p_stream_out = None,
      p_streams_in = [], p_batch = None, p_writing = False, p_is_connecting = False,
      p_dont_send = IDontWantCache_new\<rparr>"

definition isFloodsub :: "Peer \<Rightarrow> bool" where
  "isFloodsub p \<longleftrightarrow> p_peer_kind p = None \<or> p_peer_kind p = Some Floodsub"

definition isGossipsub :: "Peer \<Rightarrow> bool" where
  "isGossipsub p = (case p_peer_kind p of None \<Rightarrow> False | Some k \<Rightarrow> k \<ge> Gossipsub)"

definition isGossipsubv1_1 :: "Peer \<Rightarrow> bool" where
  "isGossipsubv1_1 p = (case p_peer_kind p of None \<Rightarrow> False | Some k \<Rightarrow> k \<ge> Gossipsubv1_1)"

definition isGossipsubv1_2 :: "Peer \<Rightarrow> bool" where
  "isGossipsubv1_2 p = (case p_peer_kind p of None \<Rightarrow> False | Some k \<Rightarrow> k \<ge> Gossipsubv1_2)"

record Gossip =
  config :: Config
  heap :: "Peer list"
  topics :: "(TopicHash, Topic) alist"
  peers :: "(PeerId, PeerPtr) alist"
  last_seq_no :: u64
  duplicate_cache :: "MessageId DuplicateCache"
  random :: nat
  message_cache :: "(MessageId, MessageCacheEntry) alist"
  gossip_promises :: "(MessageId, PeerPtr) GossipPromises"
  scores :: Score
  heartbeat_ticks :: nat
  count_received_ihave :: "(PeerPtr, nat) alist"
  count_sent_iwant :: "(PeerPtr, nat) alist"

definition Gossip_new :: "Config \<Rightarrow> u64 \<Rightarrow> Gossip" where
  "Gossip_new c nanoseconds =
     \<lparr>config = c, heap = [], topics = [], peers = [], last_seq_no = nanoseconds,
      duplicate_cache = TimeCache_new (duplicate_cache_time c * 10 ^ 9), random = 0,
      message_cache = [], gossip_promises = GossipPromises_new (iwant_followup_time c * 10 ^ 9),
      scores = Score_new (score_config c), heartbeat_ticks = 0, count_received_ihave = [],
      count_sent_iwant = []\<rparr>"

text \<open>The protocols of the configuration, the newest first.\<close>

definition getProtocolIds :: "Config \<Rightarrow> ProtocolName list" where
  "getProtocolIds c =
     sort_key (\<lambda>l. 4 - (case map_of (protocol_versions c) l of Some k \<Rightarrow> PeerKind_value k | None \<Rightarrow> 0))
       (map fst (protocol_versions c))"

subsection \<open>Reading and writing through pointers\<close>

definition set_insert :: "'a \<Rightarrow> 'a list \<Rightarrow> 'a list" where
  "set_insert x xs = (if x \<in> set xs then xs else xs @ [x])"

definition set_erase :: "'a \<Rightarrow> 'a list \<Rightarrow> 'a list" where
  "set_erase x xs = filter (\<lambda>y. y \<noteq> x) xs"

definition peer_at :: "Gossip \<Rightarrow> PeerPtr \<Rightarrow> Peer" where
  "peer_at g pp = heap g ! pp"

definition upd_peer :: "PeerPtr \<Rightarrow> (Peer \<Rightarrow> Peer) \<Rightarrow> Gossip \<Rightarrow> Gossip" where
  "upd_peer pp f g = g\<lparr>heap := (heap g)[pp := f (heap g ! pp)]\<rparr>"

definition topic_at :: "Gossip \<Rightarrow> TopicHash \<Rightarrow> Topic" where
  "topic_at g topic_hash = the (map_of (topics g) topic_hash)"

definition upd_topic :: "TopicHash \<Rightarrow> (Topic \<Rightarrow> Topic) \<Rightarrow> Gossip \<Rightarrow> Gossip" where
  "upd_topic topic_hash f g = g\<lparr>topics := AList.map_entry topic_hash f (topics g)\<rparr>"

definition upd_score :: "(Score \<Rightarrow> Score) \<Rightarrow> Gossip \<Rightarrow> Gossip" where
  "upd_score f g = g\<lparr>scores := f (scores g)\<rparr>"

definition upd_score_cxx :: "(Score \<Rightarrow> Score cxx) \<Rightarrow> Gossip \<Rightarrow> Gossip cxx" where
  "upd_score_cxx f g = bind_cxx (f (scores g)) (\<lambda>s. Returns (g\<lparr>scores := s\<rparr>))"

definition peer_below :: "Gossip \<Rightarrow> PeerPtr \<Rightarrow> (ScoreConfig \<Rightarrow> dbl) \<Rightarrow> bool" where
  "peer_below g pp threshold = below (scores g) (p_peer_id (peer_at g pp)) (threshold (score_config (config g)))"

definition meshOutCount :: "Gossip \<Rightarrow> TopicHash \<Rightarrow> nat" where
  "meshOutCount g topic_hash = length (filter (\<lambda>pp. p_out (peer_at g pp)) (t_mesh_peers (topic_at g topic_hash)))"

subsection \<open>Choosing peers\<close>

definition choose_peers ::
  "Env \<Rightarrow> PeerPtr list \<Rightarrow> (PeerPtr \<Rightarrow> bool) \<Rightarrow> (nat \<Rightarrow> nat) \<Rightarrow> Gossip \<Rightarrow> PeerPtr list \<times> Gossip" where
  "choose_peers env all predicate get_count g =
     (let chosen = filter (\<lambda>pp. isGossipsub (peer_at g pp) \<and> predicate pp) all;
          shuffled = shuffle_peers env (random g) chosen;
          count = get_count (length shuffled)
      in (if length shuffled > count then take count shuffled else shuffled, g\<lparr>random := random g + 1\<rparr>))"

section \<open>Batches\<close>

text \<open>\<open>checkWrite\<close>: a writer is started by setting \<open>writing_\<close>; its steps are below.\<close>

definition checkWrite :: "PeerPtr \<Rightarrow> Gossip \<Rightarrow> Gossip" where
  "checkWrite pp g =
     (let peer = peer_at g pp
      in if p_writing peer then g
         else if p_stream_out peer = None then g
         else if p_batch peer = None then g
         else upd_peer pp (\<lambda>p. p\<lparr>p_writing := True\<rparr>) g)"

definition getBatch :: "PeerPtr \<Rightarrow> Gossip \<Rightarrow> Gossip" where
  "getBatch pp g =
     checkWrite pp
       (if p_batch (peer_at g pp) = None then upd_peer pp (\<lambda>p. p\<lparr>p_batch := Some Rpc_new\<rparr>) g else g)"

text \<open>A write through the reference \<open>getBatch\<close> returns.\<close>

definition upd_batch :: "PeerPtr \<Rightarrow> (Rpc \<Rightarrow> Rpc) \<Rightarrow> Gossip \<Rightarrow> Gossip" where
  "upd_batch pp f g = upd_peer pp (\<lambda>p. p\<lparr>p_batch := map_option f (p_batch p)\<rparr>) (getBatch pp g)"

definition splitBatch :: "Env \<Rightarrow> Rpc \<Rightarrow> bytes list" where
  "splitBatch env message =
     (if subscriptions message \<noteq> [] \<or> graft message \<noteq> [] \<or> prune message \<noteq> [] \<or> ihave message \<noteq> []
         \<or> iwant message \<noteq> [] \<or> idontwant message \<noteq> []
      then
        [rpc_bytes env
           (pb_RPC_empty
              \<lparr>rpc_subscriptions := map (\<lambda>(t, s). \<lparr>so_subscribe = s, so_topic_id = t\<rparr>) (subscriptions message),
               rpc_control :=
                 \<lparr>co_ihave = map (\<lambda>(t, ms). \<lparr>ih_topic_id = t, ih_message_ids = ms\<rparr>) (ihave message),
                  co_iwant = (if iwant message \<noteq> [] then [iwant message] else []),
                  co_graft = graft message,
                  co_prune = map (\<lambda>(t, b). \<lparr>pr_topic_id = t, pr_backoff = map_option word_of_int b\<rparr>) (prune message),
                  co_idontwant = (if idontwant message \<noteq> [] then [idontwant message] else [])\<rparr>\<rparr>)]
      else [])
     @ map (\<lambda>m. rpc_bytes env (pb_RPC_empty\<lparr>rpc_publish := [toProtobuf m]\<rparr>)) (publish message)"

text \<open>
  One turn of the writer: it takes the batch and writes its frames; \<open>ok\<close> frames are
  written before a write fails. Without a batch the writer ends. The result is the frames
  written.
\<close>

definition writer_turn :: "Env \<Rightarrow> PeerPtr \<Rightarrow> nat \<Rightarrow> Gossip \<Rightarrow> (bytes list \<times> Gossip) cxx" where
  "writer_turn env pp ok g =
     (let peer = peer_at g pp
      in if \<not> p_writing peer \<or> p_stream_out peer = None then Throws
         else
           (case p_batch peer of
              None \<Rightarrow> Returns ([], upd_peer pp (\<lambda>p. p\<lparr>p_writing := False\<rparr>) g)
            | Some message \<Rightarrow>
                (let frames = splitBatch env message;
                     g1 = upd_peer pp (\<lambda>p. p\<lparr>p_batch := None\<rparr>) g
                 in if ok < length frames
                    then Returns (take ok frames, upd_peer pp (\<lambda>p. p\<lparr>p_stream_out := None, p_writing := False\<rparr>) g1)
                    else Returns (frames, g1))))"

section \<open>Mesh\<close>

text \<open>
  \<open>update_backoff\<close>: the quotient of two durations is a signed 64-bit number, which the
  addition of the unsigned slack converts.
\<close>

definition backoff_slots :: "Config \<Rightarrow> int \<Rightarrow> nat" where
  "backoff_slots c backoff =
     nat ((backoff sdiv heartbeat_interval c + int (backoff_slack c)) mod 2 ^ 64)"

definition update_backoff :: "TopicHash \<Rightarrow> PeerPtr \<Rightarrow> int \<Rightarrow> Gossip \<Rightarrow> Gossip" where
  "update_backoff topic_hash pp backoff g =
     upd_topic topic_hash
       (\<lambda>t. t\<lparr>t_backoff := tb_update (t_backoff t) pp (backoff_slots (config g) backoff)\<rparr>) g"

definition get_backoff_time :: "Gossip \<Rightarrow> TopicHash \<Rightarrow> PeerPtr \<Rightarrow> int" where
  "get_backoff_time g topic_hash pp =
     int (saturating_sub (tb_get (t_backoff (topic_at g topic_hash)) pp) (backoff_slack (config g)))
       * heartbeat_interval (config g)"

definition is_backoff_with_slack :: "Gossip \<Rightarrow> TopicHash \<Rightarrow> PeerPtr \<Rightarrow> bool" where
  "is_backoff_with_slack g topic_hash pp \<longleftrightarrow> tb_get (t_backoff (topic_at g topic_hash)) pp > 0"

definition mesh_emplace :: "TopicHash \<Rightarrow> PeerPtr \<Rightarrow> Gossip \<Rightarrow> Gossip" where
  "mesh_emplace topic_hash pp g = upd_topic topic_hash (\<lambda>t. t\<lparr>t_mesh_peers := set_insert pp (t_mesh_peers t)\<rparr>) g"

definition mesh_erase :: "TopicHash \<Rightarrow> PeerPtr \<Rightarrow> Gossip \<Rightarrow> Gossip" where
  "mesh_erase topic_hash pp g = upd_topic topic_hash (\<lambda>t. t\<lparr>t_mesh_peers := set_erase pp (t_mesh_peers t)\<rparr>) g"

definition graft_peer :: "TopicHash \<Rightarrow> time \<Rightarrow> PeerPtr \<Rightarrow> Gossip \<Rightarrow> Gossip cxx" where
  "graft_peer topic_hash now pp g =
     (if pp \<in> set (t_mesh_peers (topic_at g topic_hash)) then Throws
      else
        (let g1 = mesh_emplace topic_hash pp g;
             g2 = upd_score (score_graft (p_peer_id (peer_at g pp)) topic_hash now) g1
         in Returns (upd_batch pp (\<lambda>b. b\<lparr>graft := set_insert topic_hash (graft b)\<rparr>) g2)))"

definition make_prune :: "TopicHash \<Rightarrow> PeerPtr \<Rightarrow> Gossip \<Rightarrow> Gossip cxx" where
  "make_prune topic_hash pp g =
     (let peer = peer_at g pp
      in if \<not> isGossipsub peer then Returns g
         else
           bind_cxx (upd_score_cxx (score_prune (p_peer_id peer) topic_hash) g) (\<lambda>g1.
             let backoff = (if isGossipsubv1_1 peer then Some (prune_backoff (config g)) else None);
                 g2 = (case backoff of None \<Rightarrow> g1 | Some b \<Rightarrow> update_backoff topic_hash pp b g1)
             in Returns (upd_batch pp (\<lambda>b. b\<lparr>prune := emplace topic_hash backoff (prune b)\<rparr>) g2)))"

definition remove_peer_from_mesh :: "TopicHash \<Rightarrow> PeerPtr \<Rightarrow> int option \<Rightarrow> bool \<Rightarrow> Gossip \<Rightarrow> Gossip cxx" where
  "remove_peer_from_mesh topic_hash pp backoff always_update_backoff g =
     (case map_of (topics g) topic_hash of
        None \<Rightarrow> Returns g
      | Some topic \<Rightarrow>
          (let peer_removed = (pp \<in> set (t_mesh_peers topic));
               g1 = mesh_erase topic_hash pp g
           in bind_cxx
                (if peer_removed then upd_score_cxx (score_prune (p_peer_id (peer_at g pp)) topic_hash) g1
                 else Returns g1)
                (\<lambda>g2.
                   if always_update_backoff \<or> peer_removed
                   then Returns (update_backoff topic_hash pp
                          (case backoff of Some b \<Rightarrow> b | None \<Rightarrow> prune_backoff (config g)) g2)
                   else Returns g2)))"

section \<open>Publishing\<close>

definition add_peer :: "PeerId option \<Rightarrow> bool \<Rightarrow> MessageId \<Rightarrow> Message \<Rightarrow> PeerPtr \<Rightarrow> Gossip \<Rightarrow> Gossip" where
  "add_peer src send_idontwant message_id message pp g =
     (let peer_id = p_peer_id (peer_at g pp)
      in if src = Some peer_id then g
         else if m_from message = Some peer_id then g
         else if peer_below g pp publish_threshold then g
         else
           upd_batch pp
             (\<lambda>b. (if send_idontwant then b\<lparr>idontwant := set_insert message_id (idontwant b)\<rparr> else b)
                  \<lparr>publish := publish b @ [message]\<rparr>) g)"

definition broadcast :: "Env \<Rightarrow> TopicHash \<Rightarrow> PeerId option \<Rightarrow> MessageId \<Rightarrow> Message \<Rightarrow> time \<Rightarrow> Gossip \<Rightarrow> Gossip" where
  "broadcast env topic_hash src message_id message now g =
     (let g1 = g\<lparr>message_cache := emplace message_id \<lparr>ce_message = message, ce_iwant = []\<rparr> (message_cache g)\<rparr>;
          g2 = upd_topic topic_hash (\<lambda>t. t\<lparr>t_history := history_add (t_history t) message_id\<rparr>) g1;
          g3 = g2\<lparr>gossip_promises := gp_remove (gossip_promises g2) message_id\<rparr>;
          publishing = (src = None);
          send = ((\<not> publishing \<or> idontwant_on_publish (config g))
                  \<and> \<not> length (message_bytes env (toProtobuf message)) \<le> idontwant_message_size_threshold (config g));
          g4 = (if \<not> publishing \<and> send
                then foldl (\<lambda>g pp. upd_batch pp (\<lambda>b. b\<lparr>idontwant := set_insert message_id (idontwant b)\<rparr>) g) g3
                       (gp_peers (gossip_promises g3) message_id)
                else g3);
          add = add_peer src send message_id message;
          topic = topic_at g4 topic_hash
      in if publishing \<and> flood_publish (config g) then fold add (t_peers topic) g4
         else
           (let g5 = fold (\<lambda>pp g. if isFloodsub (peer_at g pp) then add pp g else g) (t_peers topic) g4;
                g6 = fold add (t_mesh_peers topic) g5
            in if \<not> publishing then g6
               else
                 (let more = saturating_sub (mesh_n_for_topic (config g) topic_hash) (length (t_mesh_peers topic));
                      g7 = (if more = 0 then g6
                            else
                              (let (chosen, g') =
                                 choose_peers env (t_peers topic)
                                   (\<lambda>pp. pp \<notin> set (t_mesh_peers topic) \<and> \<not> peer_below g6 pp publish_threshold)
                                   (\<lambda>_. more) g6
                               in fold (\<lambda>pp g.
                                    if t_publish_only topic then mesh_emplace topic_hash pp (add pp g) else add pp g)
                                    chosen g'))
                  in upd_topic topic_hash (\<lambda>t. t\<lparr>t_last_publish := now\<rparr>) g7)))"

text \<open>\<open>getOrCreateTopic\<close>; the assertion of \<open>History\<close> fails for a history of no slots.\<close>

definition create_topic :: "TopicHash \<Rightarrow> bool \<Rightarrow> Gossip \<Rightarrow> Gossip cxx" where
  "create_topic topic_hash publish_only g =
     (case History_new (history_length (config g)) of
        None \<Rightarrow> Throws
      | Some h \<Rightarrow>
          Returns (g\<lparr>topics := topics g @
            [(topic_hash,
              \<lparr>t_publish_only = publish_only, t_receive_channel = [], t_history = h,
               t_backoff = TopicBackoff_new (nat (prune_backoff (config g))) (nat (heartbeat_interval (config g)))
                             (backoff_slack (config g)),
               t_peers = filter (\<lambda>pp. topic_hash \<in> set (p_topics (peer_at g pp))) (map snd (peers g)),
               t_mesh_peers = [], t_last_publish = 0\<rparr>)]\<rparr>))"

definition graft_ok :: "TopicHash \<Rightarrow> Gossip \<Rightarrow> PeerPtr \<Rightarrow> bool" where
  "graft_ok topic_hash g pp \<longleftrightarrow>
     pp \<notin> set (t_mesh_peers (topic_at g topic_hash)) \<and> \<not> is_backoff_with_slack g topic_hash pp
     \<and> \<not> peer_below g pp zero"

definition upgrade_topic :: "Env \<Rightarrow> TopicHash \<Rightarrow> time \<Rightarrow> Gossip \<Rightarrow> Gossip cxx" where
  "upgrade_topic env topic_hash now g =
     (let g1 = upd_topic topic_hash (\<lambda>t. t\<lparr>t_publish_only := False\<rparr>) g;
          g2 = fold (\<lambda>pp. upd_batch pp (\<lambda>b. b\<lparr>subscriptions := rpc_subscribe (subscriptions b) topic_hash True\<rparr>))
                 (t_peers (topic_at g1 topic_hash)) g1;
          fanout = t_mesh_peers (topic_at g2 topic_hash);
          g3 = upd_topic topic_hash (\<lambda>t. t\<lparr>t_mesh_peers := []\<rparr>) g2;
          n = mesh_n_for_topic (config g) topic_hash
      in bind_cxx
           (fold_cxx (\<lambda>pp g. if length (t_mesh_peers (topic_at g topic_hash)) \<ge> n then Returns g
                             else if \<not> graft_ok topic_hash g pp then Returns g
                             else graft_peer topic_hash now pp g) fanout g3)
           (\<lambda>g4.
              let more = saturating_sub n (length (t_mesh_peers (topic_at g4 topic_hash)))
              in if more = 0 then Returns g4
                 else
                   (let (chosen, g5) = choose_peers env (t_peers (topic_at g4 topic_hash)) (graft_ok topic_hash g4) (\<lambda>_. more) g4
                    in fold_cxx (graft_peer topic_hash now) chosen g5)))"

definition getOrCreateTopic :: "Env \<Rightarrow> TopicHash \<Rightarrow> bool \<Rightarrow> time \<Rightarrow> Gossip \<Rightarrow> Gossip cxx" where
  "getOrCreateTopic env topic_hash publish_only now g =
     bind_cxx (if map_of (topics g) topic_hash = None then create_topic topic_hash publish_only g else Returns g)
       (\<lambda>g1. if \<not> publish_only \<and> t_publish_only (topic_at g1 topic_hash)
             then upgrade_topic env topic_hash now g1 else Returns g1)"

definition subscribe :: "Env \<Rightarrow> TopicHash \<Rightarrow> time \<Rightarrow> Gossip \<Rightarrow> Gossip cxx" where
  "subscribe env topic_hash now g = getOrCreateTopic env topic_hash False now g"

text \<open>\<open>sign(...).value()\<close> throws when signing fails.\<close>

definition publish_topic :: "Env \<Rightarrow> TopicHash \<Rightarrow> bytes \<Rightarrow> time \<Rightarrow> Gossip \<Rightarrow> Gossip cxx" where
  "publish_topic env topic_hash data now g =
     (let m0 = \<lparr>m_from = None, m_data = data, m_seqno = None, m_topic = topic_hash, m_signature = None,
                m_received_from = None\<rparr>
      in bind_cxx
           (case message_authenticity (config g) of
              Authenticity_Anonymous \<Rightarrow> Returns (m0, g)
            | Authenticity_Signed \<Rightarrow>
                (let m1 = m0\<lparr>m_from := Some (host_id env), m_seqno := Some (last_seq_no g)\<rparr>
                 in case sign env (getSignable env (toProtobuf m1)) of
                      None \<Rightarrow> Throws
                    | Some s \<Rightarrow> Returns (m1\<lparr>m_signature := Some s\<rparr>, g\<lparr>last_seq_no := last_seq_no g + 1\<rparr>)))
           (\<lambda>(message, g1).
              let message_id = message_id_fn env message
              in if dc_contains (duplicate_cache g1) message_id then Returns g1
                 else
                   Returns (broadcast env topic_hash None message_id message now
                     (g1\<lparr>duplicate_cache := snd (dc_insert (duplicate_cache g1) message_id now now)\<rparr>))))"

definition publish_data :: "Env \<Rightarrow> TopicHash \<Rightarrow> bytes \<Rightarrow> time \<Rightarrow> Gossip \<Rightarrow> Gossip cxx" where
  "publish_data env topic_hash data now g =
     bind_cxx (getOrCreateTopic env topic_hash True now g) (publish_topic env topic_hash data now)"


text \<open>The next message of a topic; without one the caller waits.\<close>

definition receiveMessage :: "TopicHash \<Rightarrow> Gossip \<Rightarrow> (Message \<times> Gossip) option" where
  "receiveMessage topic_hash g =
     (case t_receive_channel (topic_at g topic_hash) of
        [] \<Rightarrow> None
      | m # ms \<Rightarrow> Some (m, upd_topic topic_hash (\<lambda>t. t\<lparr>t_receive_channel := ms\<rparr>) g))"

definition receive :: "TopicHash \<Rightarrow> Gossip \<Rightarrow> (bytes \<times> Gossip) option" where
  "receive topic_hash g = map_option (\<lambda>(m, g'). (m_data m, g')) (receiveMessage topic_hash g)"

section \<open>Inbound messages\<close>

definition on_subscription :: "PeerPtr \<Rightarrow> time \<Rightarrow> pb_SubOpts \<Rightarrow> Gossip \<Rightarrow> Gossip cxx" where
  "on_subscription pp now sub g =
     (let topic_hash = so_topic_id sub
      in if so_subscribe sub
         then
           (let g1 = upd_peer pp (\<lambda>p. p\<lparr>p_topics := set_insert topic_hash (p_topics p)\<rparr>) g
            in if map_of (topics g) topic_hash = None then Returns g1
               else
                 (let g2 = upd_topic topic_hash (\<lambda>t. t\<lparr>t_peers := set_insert pp (t_peers t)\<rparr>) g1;
                      topic = topic_at g2 topic_hash
                  in if \<not> t_publish_only topic \<and> isGossipsub (peer_at g2 pp)
                        \<and> length (t_mesh_peers topic) < mesh_n_low_for_topic (config g) topic_hash
                        \<and> pp \<notin> set (t_mesh_peers topic) \<and> \<not> is_backoff_with_slack g2 topic_hash pp
                        \<and> \<not> peer_below g2 pp zero
                     then graft_peer topic_hash now pp g2
                     else Returns g2))
         else
           (let g1 = upd_peer pp (\<lambda>p. p\<lparr>p_topics := set_erase topic_hash (p_topics p)\<rparr>) g;
                g2 = upd_topic topic_hash (\<lambda>t. t\<lparr>t_peers := set_erase pp (t_peers t)\<rparr>) g1
            in remove_peer_from_mesh topic_hash pp None False g2))"

text \<open>
  The checks of a published message: its author, sequence number and signature, or in the
  anonymous mode their absence. \<open>None\<close> is \<open>continue\<close>.
\<close>

definition validate_publish :: "Env \<Rightarrow> ValidationMode \<Rightarrow> pb_Message \<Rightarrow> Message option" where
  "validate_publish env mode pb =
     (let m0 = \<lparr>m_from = None, m_data = [], m_seqno = None, m_topic = [], m_signature = None, m_received_from = None\<rparr>
      in case mode of
           Validate_Strict \<Rightarrow>
             (case PeerId_fromBytes (field (pb_from pb)) of
                Inl _ \<Rightarrow> None
              | Inr src \<Rightarrow>
                  if length (field (pb_seqno pb)) \<noteq> 8 then None
                  else
                    (let signable = getSignable env pb;
                         signature = field (pb_signature pb)
                     in case PeerId_publicKey (rsa_bits env) (parse_key env) src of
                          None \<Rightarrow> None
                        | Some public_key \<Rightarrow>
                            if verify env signable signature public_key = Some True
                            then Some (m0\<lparr>m_from := Some (toVector src),
                                          m_seqno := Some (load_big_u64 (field (pb_seqno pb))),
                                          m_signature := Some signature\<rparr>)
                            else None))
         | Validate_Anonymous \<Rightarrow>
             if field (pb_from pb) \<noteq> [] then None
             else if field (pb_seqno pb) \<noteq> [] then None
             else if field (pb_signature pb) \<noteq> [] then None
             else Some m0)"

definition on_publish :: "Env \<Rightarrow> PeerPtr \<Rightarrow> time \<Rightarrow> pb_Message \<Rightarrow> Gossip \<Rightarrow> Gossip cxx" where
  "on_publish env pp now pb g =
     (case validate_publish env (validation_mode (config g)) pb of
        None \<Rightarrow> Returns g
      | Some m \<Rightarrow>
          (let peer_id = p_peer_id (peer_at g pp);
               message = m\<lparr>m_data := field (pb_data pb), m_topic := pb_topic pb, m_received_from := Some peer_id\<rparr>;
               topic_hash = m_topic message
           in if map_of (topics g) topic_hash = None then Returns g
              else
                (let message_id = message_id_fn env message;
                     (inserted, cache) = dc_insert (duplicate_cache g) message_id now now;
                     g1 = g\<lparr>duplicate_cache := cache\<rparr>
                 in if \<not> inserted then upd_score_cxx (duplicateMessage peer_id message_id topic_hash now) g1
                    else
                      (let g2 = upd_score (validateMessage peer_id message_id topic_hash now) g1;
                           g3 = upd_topic topic_hash (\<lambda>t. t\<lparr>t_receive_channel := t_receive_channel t @ [message]\<rparr>) g2
                       in bind_cxx (upd_score_cxx (deliver_message peer_id message_id topic_hash now) g3)
                            (\<lambda>g4. Returns (broadcast env topic_hash (Some peer_id) message_id message now g4))))))"

text \<open>The lambda \<open>accept\<close> of the GRAFT handler.\<close>

definition accept_graft :: "PeerPtr \<Rightarrow> TopicHash \<Rightarrow> Gossip \<Rightarrow> bool \<times> Gossip" where
  "accept_graft pp topic_hash g =
     (let backoff = get_backoff_time g topic_hash pp;
          peer = peer_at g pp
      in if backoff > 0
         then
           (let g1 = upd_score (addPenalty (p_peer_id peer) 1) g
            in (False,
                if backoff + graft_flood_threshold (config g) > prune_backoff (config g)
                then upd_score (addPenalty (p_peer_id peer) 1) g1 else g1))
         else if \<not> p_out peer
                 \<and> length (t_mesh_peers (topic_at g topic_hash)) > mesh_n_high_for_topic (config g) topic_hash
         then (False, g)
         else if peer_below g pp zero then (False, g)
         else (True, g))"

definition on_graft :: "PeerPtr \<Rightarrow> time \<Rightarrow> TopicHash \<Rightarrow> Gossip \<Rightarrow> (bool \<times> Gossip) cxx" where
  "on_graft pp now topic_hash g =
     (if \<not> isGossipsub (peer_at g pp) then Returns (False, g)
      else
        (let g1 = upd_peer pp (\<lambda>p. p\<lparr>p_topics := set_insert topic_hash (p_topics p)\<rparr>) g
         in if map_of (topics g) topic_hash = None then Returns (True, g1)
            else
              (let g2 = upd_topic topic_hash (\<lambda>t. t\<lparr>t_peers := set_insert pp (t_peers t)\<rparr>) g1;
                   topic = topic_at g2 topic_hash
               in if t_publish_only topic then Returns (True, g2)
                  else if pp \<in> set (t_mesh_peers topic) then Returns (True, g2)
                  else
                    (let (accept, g3) = accept_graft pp topic_hash g2
                     in if accept
                        then Returns (True, upd_score (score_graft (p_peer_id (peer_at g3 pp)) topic_hash now)
                               (mesh_emplace topic_hash pp g3))
                        else bind_cxx (make_prune topic_hash pp g3) (\<lambda>g4. Returns (True, g4))))))"

text \<open>\<open>Backoff{pb_prune.backoff()}\<close> reads the unsigned number as a signed one.\<close>

definition on_prune :: "PeerPtr \<Rightarrow> pb_ControlPrune \<Rightarrow> Gossip \<Rightarrow> (bool \<times> Gossip) cxx" where
  "on_prune pp pb g =
     (if \<not> isGossipsub (peer_at g pp) then Returns (False, g)
      else
        bind_cxx (remove_peer_from_mesh (pr_topic_id pb) pp (map_option sint (pr_backoff pb)) True g)
          (\<lambda>g1. Returns (True, g1)))"

definition ihave_wanted :: "Gossip \<Rightarrow> PeerPtr \<Rightarrow> pb_ControlIHave list \<Rightarrow> MessageId list" where
  "ihave_wanted g pp pb_ihaves =
     foldl (\<lambda>want_set pb.
        if peer_below g pp gossip_threshold then want_set
        else if map_of (topics g) (ih_topic_id pb) = None then want_set
        else
          foldl (\<lambda>want_set message_id.
             if dc_contains (duplicate_cache g) message_id then want_set
             else if gp_contains (gossip_promises g) message_id then want_set
             else set_insert message_id want_set) want_set (ih_message_ids pb))
       [] pb_ihaves"

definition count_of :: "('k, nat) alist \<Rightarrow> 'k \<Rightarrow> nat" where
  "count_of m k = (case map_of m k of None \<Rightarrow> 0 | Some n \<Rightarrow> n)"

definition handle_ihave :: "Env \<Rightarrow> PeerPtr \<Rightarrow> time \<Rightarrow> pb_ControlIHave list \<Rightarrow> Gossip \<Rightarrow> bool \<times> Gossip" where
  "handle_ihave env pp now pb_ihaves g =
     (if pb_ihaves = [] then (True, g)
      else if \<not> isGossipsub (peer_at g pp) then (False, g)
      else
        (let peer_have = count_of (count_received_ihave g) pp + 1;
             g1 = g\<lparr>count_received_ihave := AList.update pp peer_have (count_received_ihave g)\<rparr>
         in if peer_have > max_ihave_messages (config g) then (True, g1)
            else if map_of (count_sent_iwant g1) pp \<noteq> None
                    \<and> count_of (count_sent_iwant g1) pp \<ge> max_ihave_length (config g)
            then (True, g1)
            else
              (let want_set = ihave_wanted g1 pp pb_ihaves
               in if want_set = [] then (True, g1)
                  else
                    (let g2 = g1\<lparr>count_sent_iwant := emplace pp 0 (count_sent_iwant g1)\<rparr>;
                         sent = count_of (count_sent_iwant g2) pp;
                         count = min (length want_set) (saturating_sub (max_ihave_length (config g)) sent);
                         shuffled = shuffle_ids env (random g2) want_set;
                         want = (if length shuffled > count then take count shuffled else shuffled);
                         g3 = g2\<lparr>random := random g2 + 1,
                                 count_sent_iwant := AList.update pp (sent + count) (count_sent_iwant g2)\<rparr>;
                         g4 = getBatch pp g3
                     in (True,
                         fold (\<lambda>message_id g.
                            upd_peer pp (\<lambda>p. p\<lparr>p_batch := map_option (\<lambda>b. b\<lparr>iwant := set_insert message_id (iwant b)\<rparr>) (p_batch p)\<rparr>)
                              (g\<lparr>gossip_promises := gp_add (gossip_promises g) message_id pp now\<rparr>))
                          want g4)))))"

definition iwant_one :: "PeerPtr \<Rightarrow> MessageId \<Rightarrow> Gossip \<Rightarrow> Gossip" where
  "iwant_one pp message_id g =
     (case map_of (message_cache g) message_id of
        None \<Rightarrow> g
      | Some entry \<Rightarrow>
          (let peer = peer_at g pp;
               count = count_of (ce_iwant entry) (p_peer_id peer) + 1;
               g1 = g\<lparr>message_cache := AList.update message_id
                        (entry\<lparr>ce_iwant := AList.update (p_peer_id peer) count (ce_iwant entry)\<rparr>) (message_cache g)\<rparr>
           in if count > gossip_retransimission (config g) then g1
              else if iw_contains (p_dont_send peer) message_id then g1
              else upd_batch pp (\<lambda>b. b\<lparr>publish := publish b @ [ce_message entry]\<rparr>) g1))"

definition on_iwant :: "PeerPtr \<Rightarrow> MessageId list \<Rightarrow> Gossip \<Rightarrow> (bool \<times> Gossip) cxx" where
  "on_iwant pp message_ids g =
     (if \<not> isGossipsub (peer_at g pp) then Returns (False, g)
      else if peer_below g pp gossip_threshold then Returns (True, g)
      else Returns (True, fold (iwant_one pp) message_ids g))"

definition idontwant_one :: "PeerPtr \<Rightarrow> time \<Rightarrow> MessageId \<Rightarrow> Gossip \<Rightarrow> Gossip cxx" where
  "idontwant_one pp now message_id g =
     bind_cxx (iw_insert (p_dont_send (peer_at g pp)) message_id now)
       (\<lambda>c. Returns (upd_peer pp (\<lambda>p. p\<lparr>p_dont_send := c\<rparr>) g))"

definition on_idontwant :: "PeerPtr \<Rightarrow> time \<Rightarrow> MessageId list \<Rightarrow> Gossip \<Rightarrow> (bool \<times> Gossip) cxx" where
  "on_idontwant pp now message_ids g =
     (if \<not> isGossipsub (peer_at g pp) then Returns (False, g)
      else bind_cxx (fold_cxx (idontwant_one pp now) message_ids g) (\<lambda>g1. Returns (True, g1)))"

text \<open>Continue with the next part of the handler unless it returned \<open>false\<close>.\<close>

definition and_then :: "(bool \<times> Gossip) cxx \<Rightarrow> (Gossip \<Rightarrow> (bool \<times> Gossip) cxx) \<Rightarrow> (bool \<times> Gossip) cxx" where
  "and_then r f = bind_cxx r (\<lambda>(go, g). if go then f g else Returns (False, g))"

definition onMessage :: "Env \<Rightarrow> PeerPtr \<Rightarrow> time \<Rightarrow> bytes \<Rightarrow> Gossip \<Rightarrow> (bool \<times> Gossip) cxx" where
  "onMessage env pp now encoded g =
     (case parse_rpc env encoded of
        None \<Rightarrow> Returns (False, g)
      | Some rpc \<Rightarrow>
          if peer_below g pp graylist_threshold then Returns (True, g)
          else
            bind_cxx (fold_cxx (on_subscription pp now) (rpc_subscriptions rpc) g) (\<lambda>g1.
            bind_cxx (fold_cxx (on_publish env pp now) (rpc_publish rpc) g1) (\<lambda>g2.
            and_then (loop_cxx (on_graft pp now) (co_graft (rpc_control rpc)) g2) (\<lambda>g3.
            and_then (loop_cxx (on_prune pp) (co_prune (rpc_control rpc)) g3) (\<lambda>g4.
            and_then (Returns (handle_ihave env pp now (co_ihave (rpc_control rpc)) g4)) (\<lambda>g5.
            and_then (loop_cxx (on_iwant pp) (co_iwant (rpc_control rpc)) g5)
              (loop_cxx (on_idontwant pp now) (co_idontwant (rpc_control rpc)))))))))"

section \<open>Connections\<close>

definition updatePeerKind :: "PeerPtr \<Rightarrow> ProtocolName \<Rightarrow> Gossip \<Rightarrow> Gossip cxx" where
  "updatePeerKind pp protocol g =
     (if p_peer_kind (peer_at g pp) \<noteq> None then Returns g
      else
        (case map_of (protocol_versions (config g)) protocol of
           None \<Rightarrow> Throws
         | Some k \<Rightarrow> Returns (upd_peer pp (\<lambda>p. p\<lparr>p_peer_kind := Some k\<rparr>) g)))"

text \<open>The peer object of an id, made when there is none.\<close>

definition find_or_make_peer :: "PeerId \<Rightarrow> bool \<Rightarrow> Gossip \<Rightarrow> PeerPtr \<times> Gossip" where
  "find_or_make_peer peer_id out g =
     (case map_of (peers g) peer_id of
        Some pp \<Rightarrow> (pp, g)
      | None \<Rightarrow>
          (length (heap g),
           upd_score (score_connect peer_id)
             (g\<lparr>heap := heap g @ [Peer_new peer_id out], peers := peers g @ [(peer_id, length (heap g))]\<rparr>)))"

text \<open>An inbound stream, up to the start of the read loop, and the end of that loop.\<close>

definition handle_stream :: "PeerId \<Rightarrow> StreamPtr \<Rightarrow> ProtocolName \<Rightarrow> Gossip \<Rightarrow> Gossip cxx" where
  "handle_stream peer_id stream protocol g =
     (let (pp, g1) = find_or_make_peer peer_id False g
      in bind_cxx (updatePeerKind pp protocol g1)
           (\<lambda>g2. Returns (upd_peer pp (\<lambda>p. p\<lparr>p_streams_in := set_insert stream (p_streams_in p)\<rparr>) g2)))"

definition read_loop_end :: "PeerPtr \<Rightarrow> StreamPtr \<Rightarrow> Gossip \<Rightarrow> Gossip" where
  "read_loop_end pp stream g = upd_peer pp (\<lambda>p. p\<lparr>p_streams_in := set_erase stream (p_streams_in p)\<rparr>) g"

definition on_peer_connected :: "PeerId \<Rightarrow> bool \<Rightarrow> Gossip \<Rightarrow> Gossip" where
  "on_peer_connected peer_id out g =
     (let (pp, g1) = find_or_make_peer peer_id out g;
          peer = peer_at g1 pp
      in if p_stream_out peer = None \<and> \<not> p_is_connecting peer
         then upd_peer pp (\<lambda>p. p\<lparr>p_is_connecting := True\<rparr>) g1 else g1)"

text \<open>What \<open>newStream\<close> returned: nothing, or a stream and its negotiated protocol.\<close>

definition out_stream_opened :: "PeerPtr \<Rightarrow> (StreamPtr \<times> ProtocolName) option \<Rightarrow> Gossip \<Rightarrow> Gossip cxx" where
  "out_stream_opened pp stream_result g =
     (let g1 = upd_peer pp (\<lambda>p. p\<lparr>p_is_connecting := False\<rparr>) g
      in case stream_result of
           None \<Rightarrow> Returns g1
         | Some (stream, protocol) \<Rightarrow>
             bind_cxx (updatePeerKind pp protocol (upd_peer pp (\<lambda>p. p\<lparr>p_stream_out := None\<rparr>) g1)) (\<lambda>g2.
               let g3 = upd_peer pp (\<lambda>p. p\<lparr>p_stream_out := Some stream\<rparr>) g2
               in if topics g3 = [] then Returns g3
                  else
                    Returns (upd_batch pp
                      (\<lambda>b. b\<lparr>subscriptions :=
                         fold (\<lambda>(topic_hash, topic) subs.
                           if t_publish_only topic then subs else rpc_subscribe subs topic_hash True)
                         (topics g3) (subscriptions b)\<rparr>) g3)))"

definition on_peer_disconnected :: "PeerId \<Rightarrow> time \<Rightarrow> Gossip \<Rightarrow> Gossip" where
  "on_peer_disconnected peer_id now g =
     (let g1 = upd_score (score_disconnect peer_id now) g
      in case map_of (peers g1) peer_id of
           None \<Rightarrow> g1
         | Some pp \<Rightarrow>
             (let g2 = fold (\<lambda>topic_hash.
                        upd_topic topic_hash
                          (\<lambda>t. t\<lparr>t_peers := set_erase pp (t_peers t), t_mesh_peers := set_erase pp (t_mesh_peers t)\<rparr>))
                        (p_topics (peer_at g1 pp)) g1
              in g2\<lparr>peers := AList.delete peer_id (peers g2)\<rparr>))"

section \<open>Heartbeat\<close>

definition apply_iwant_penalties :: "time \<Rightarrow> Gossip \<Rightarrow> Gossip" where
  "apply_iwant_penalties now g =
     (let (expired, promises) = gp_clearExpired (gossip_promises g) now
      in fold (\<lambda>(pp, count) g. upd_score (addPenalty (p_peer_id (peer_at g pp)) count) g) expired
           (g\<lparr>gossip_promises := promises\<rparr>))"

definition hb_fanout :: "Env \<Rightarrow> TopicHash \<Rightarrow> Gossip \<Rightarrow> Gossip" where
  "hb_fanout env topic_hash g =
     (let g1 = upd_topic topic_hash
                 (\<lambda>t. t\<lparr>t_mesh_peers := filter (\<lambda>pp. \<not> peer_below g pp publish_threshold) (t_mesh_peers t)\<rparr>) g;
          topic = topic_at g1 topic_hash;
          more = saturating_sub (mesh_n_for_topic (config g) topic_hash) (length (t_mesh_peers topic))
      in if more = 0 then g1
         else
           (let (chosen, g2) =
              choose_peers env (t_peers topic)
                (\<lambda>pp. pp \<notin> set (t_mesh_peers topic) \<and> \<not> peer_below g1 pp publish_threshold) (\<lambda>_. more) g1
            in fold (mesh_emplace topic_hash) chosen g2))"

definition hb_drop_bad :: "TopicHash \<Rightarrow> Gossip \<Rightarrow> Gossip cxx" where
  "hb_drop_bad topic_hash g =
     fold_cxx (\<lambda>pp g.
        if peer_below g pp zero
        then bind_cxx (make_prune topic_hash pp g) (\<lambda>g1. Returns (mesh_erase topic_hash pp g1))
        else Returns g)
       (t_mesh_peers (topic_at g topic_hash)) g"

text \<open>\<open>std::ranges::sort\<close> with a comparison; elements that are not less keep their order.\<close>

fun insert_by :: "('a \<Rightarrow> 'a \<Rightarrow> bool) \<Rightarrow> 'a \<Rightarrow> 'a list \<Rightarrow> 'a list" where
  "insert_by lt x [] = [x]"
| "insert_by lt x (y # ys) = (if lt y x then y # insert_by lt x ys else x # y # ys)"

definition sort_by :: "('a \<Rightarrow> 'a \<Rightarrow> bool) \<Rightarrow> 'a list \<Rightarrow> 'a list" where
  "sort_by lt xs = foldr (insert_by lt) xs []"

definition peer_score :: "Gossip \<Rightarrow> PeerPtr \<Rightarrow> dbl" where
  "peer_score g pp = score (scores g) (p_peer_id (peer_at g pp))"

text \<open>The peers of a mesh that is too large, in the order in which they may be pruned.\<close>

definition prune_order :: "Env \<Rightarrow> TopicHash \<Rightarrow> Gossip \<Rightarrow> PeerPtr list \<times> Gossip" where
  "prune_order env topic_hash g =
     (let shuffled = shuffle_peers env (random g) (t_mesh_peers (topic_at g topic_hash));
          sorted = sort_by (\<lambda>l r. d_less (peer_score g r) (peer_score g l)) shuffled;
          k = saturating_sub (length sorted) (retain_scores (config g))
      in (shuffle_peers env (random g + 1) (take k sorted) @ drop k sorted, g\<lparr>random := random g + 2\<rparr>))"

fun hb_prune_loop :: "TopicHash \<Rightarrow> nat \<Rightarrow> PeerPtr list \<Rightarrow> Gossip \<Rightarrow> Gossip cxx" where
  "hb_prune_loop topic_hash outbound [] g = Returns g"
| "hb_prune_loop topic_hash outbound (pp # pps) g =
     (if length (t_mesh_peers (topic_at g topic_hash)) \<le> mesh_n_for_topic (config g) topic_hash then Returns g
      else if p_out (peer_at g pp) \<and> outbound \<le> mesh_outbound_min_for_topic (config g) topic_hash
      then hb_prune_loop topic_hash outbound pps g
      else
        bind_cxx (make_prune topic_hash pp (mesh_erase topic_hash pp g))
          (hb_prune_loop topic_hash (if p_out (peer_at g pp) then outbound - 1 else outbound) pps))"

definition hb_size :: "Env \<Rightarrow> TopicHash \<Rightarrow> time \<Rightarrow> Gossip \<Rightarrow> Gossip cxx" where
  "hb_size env topic_hash now g =
     (let mesh = t_mesh_peers (topic_at g topic_hash)
      in if length mesh < mesh_n_low_for_topic (config g) topic_hash
         then
           (let (chosen, g1) =
              choose_peers env (t_peers (topic_at g topic_hash)) (graft_ok topic_hash g)
                (\<lambda>_. saturating_sub (mesh_n_for_topic (config g) topic_hash) (length mesh)) g
            in fold_cxx (graft_peer topic_hash now) chosen g1)
         else if length mesh > mesh_n_high_for_topic (config g) topic_hash
         then
           (let (shuffled, g1) = prune_order env topic_hash g
            in hb_prune_loop topic_hash (meshOutCount g1 topic_hash) shuffled g1)
         else Returns g)"

definition hb_outbound :: "Env \<Rightarrow> TopicHash \<Rightarrow> time \<Rightarrow> Gossip \<Rightarrow> Gossip cxx" where
  "hb_outbound env topic_hash now g =
     (if length (t_mesh_peers (topic_at g topic_hash)) \<ge> mesh_n_low_for_topic (config g) topic_hash
      then
        (let more = saturating_sub (mesh_outbound_min_for_topic (config g) topic_hash) (meshOutCount g topic_hash)
         in if more = 0 then Returns g
            else
              (let (chosen, g1) =
                 choose_peers env (t_peers (topic_at g topic_hash))
                   (\<lambda>pp. p_out (peer_at g pp) \<and> graft_ok topic_hash g pp) (\<lambda>_. more) g
               in fold_cxx (graft_peer topic_hash now) chosen g1))
      else Returns g)"

text \<open>The median of the scores of the mesh; reading past the end of the vector is undefined.\<close>

definition mesh_median :: "dbl list \<Rightarrow> dbl cxx" where
  "mesh_median xs =
     (let sorted = sort_by d_less xs; middle = length sorted div 2
      in if length sorted mod 2 = 0
         then
           (if middle + 1 < length sorted
            then Returns (d_div (d_add (sorted ! (middle - 1)) (sorted ! (middle + 1))) (Fin 2))
            else Throws)
         else Returns (sorted ! middle))"

definition hb_opportunistic :: "Env \<Rightarrow> TopicHash \<Rightarrow> time \<Rightarrow> Gossip \<Rightarrow> Gossip cxx" where
  "hb_opportunistic env topic_hash now g =
     (if opportunistic_graft_ticks (config g) = 0 then Throws
      else if heartbeat_ticks g mod opportunistic_graft_ticks (config g) = 0
              \<and> length (t_mesh_peers (topic_at g topic_hash)) > 1
      then
        bind_cxx (mesh_median (map (peer_score g) (t_mesh_peers (topic_at g topic_hash)))) (\<lambda>median.
          if d_less median (opportunistic_graft_threshold (score_config (config g)))
          then
            (let (chosen, g1) =
               choose_peers env (t_peers (topic_at g topic_hash))
                 (\<lambda>pp. pp \<notin> set (t_mesh_peers (topic_at g topic_hash)) \<and> \<not> is_backoff_with_slack g topic_hash pp
                       \<and> d_less median (peer_score g pp))
                 (\<lambda>_. opportunistic_graft_peers (config g)) g
             in fold_cxx (graft_peer topic_hash now) chosen g1)
          else Returns g)
      else Returns g)"

definition hb_topic :: "Env \<Rightarrow> time \<Rightarrow> TopicHash \<Rightarrow> Gossip \<Rightarrow> Gossip cxx" where
  "hb_topic env now topic_hash g =
     (if t_publish_only (topic_at g topic_hash) then Returns (hb_fanout env topic_hash g)
      else
        bind_cxx (hb_drop_bad topic_hash g) (\<lambda>g1.
        bind_cxx (hb_size env topic_hash now g1) (\<lambda>g2.
        bind_cxx (hb_outbound env topic_hash now g2) (hb_opportunistic env topic_hash now))))"

text \<open>
  \<open>std::max<size_t>(gossip_lazy, gossip_factor * n)\<close>; a conversion of a number outside the
  range of \<open>size_t\<close> is undefined, here zero.
\<close>

fun d_to_size :: "dbl \<Rightarrow> nat" where
  "d_to_size (Fin a) = (if 0 \<le> a \<and> a < 2 ^ 64 then nat \<lfloor>a\<rfloor> else 0)"
| "d_to_size _ = 0"

definition emit_topic :: "Env \<Rightarrow> TopicHash \<Rightarrow> Gossip \<Rightarrow> Gossip" where
  "emit_topic env topic_hash g =
     (let topic = topic_at g topic_hash;
          message_ids = history_get (t_history topic) (history_gossip (config g))
      in if message_ids = [] then g
         else
           (let (chosen, g1) =
              choose_peers env (t_peers topic)
                (\<lambda>pp. pp \<notin> set (t_mesh_peers topic) \<and> \<not> peer_below g pp gossip_threshold)
                (\<lambda>n. max (gossip_lazy (config g)) (d_to_size (d_mul (gossip_factor (config g)) (d_of_int (int n))))) g
            in fold (\<lambda>pp g.
                 let ids = shuffle_ids env (random g) message_ids;
                     ids' = (if length ids > max_ihave_length (config g) then take (max_ihave_length (config g)) ids else ids)
                 in upd_batch pp (\<lambda>b. b\<lparr>ihave := AList.update topic_hash ids' (ihave b)\<rparr>) (g\<lparr>random := random g + 1\<rparr>))
               chosen g1))"

definition emit_gossip :: "Env \<Rightarrow> Gossip \<Rightarrow> Gossip" where
  "emit_gossip env g = fold (emit_topic env) (map fst (topics g)) g"

definition shift_history :: "TopicHash \<Rightarrow> Gossip \<Rightarrow> Gossip" where
  "shift_history topic_hash g =
     (let (removed, h) = history_shift (t_history (topic_at g topic_hash));
          g1 = upd_topic topic_hash (\<lambda>t. t\<lparr>t_history := h\<rparr>) g
      in g1\<lparr>message_cache := fold AList.delete removed (message_cache g1)\<rparr>)"

definition heartbeat :: "Env \<Rightarrow> time \<Rightarrow> Gossip \<Rightarrow> Gossip cxx" where
  "heartbeat env now g =
     (let g1 = g\<lparr>heartbeat_ticks := heartbeat_ticks g + 1,
                 topics := map (\<lambda>(th, t). (th, t\<lparr>t_backoff := tb_shift (t_backoff t)\<rparr>)) (topics g),
                 count_received_ihave := [], count_sent_iwant := []\<rparr>;
          g2 = apply_iwant_penalties now g1;
          g3 = g2\<lparr>topics := filter (\<lambda>(th, t). \<not> t_publish_only t
                     \<or> now - t_last_publish t < fanout_ttl (config g) * 10 ^ 9) (topics g2)\<rparr>
      in bind_cxx (fold_cxx (hb_topic env now) (map fst (topics g3)) g3) (\<lambda>g4.
           let g5 = emit_gossip env g4;
               g6 = fold shift_history (map fst (topics g5)) g5
           in Returns (fold (\<lambda>pp. upd_peer pp (\<lambda>p. p\<lparr>p_dont_send := iw_clearExpired (p_dont_send p) now\<rparr>))
                (map snd (peers g6)) g6)))"

text \<open>The timer of the scores.\<close>

definition on_decay :: "time \<Rightarrow> Gossip \<Rightarrow> Gossip" where
  "on_decay now g = upd_score (onDecay now) g"

end
