(* ===== verification/Gossip_Inv.thy ===== *)
theory Gossip_Inv
  imports Gossip "HOL-Library.Multiset"
begin

text \<open>
  The invariant of the gossip protocol: pointers are valid, the peers of a mesh are
  subscribed peers that speak gossipsub, subscriptions agree on both sides, the caches and
  backoffs are well formed, the requests sent to a peer are within their cap. Every handler
  keeps it and, but for the opportunistic grafting of the heartbeat, none throws.
\<close>

section \<open>The invariant\<close>

text \<open>
  A message whose author signed it: the message was published as \<open>pb\<close>, the id of the author
  holds a public key, and the signature of \<open>pb\<close> verifies with it.
\<close>

definition authentic :: "Env \<Rightarrow> Message \<Rightarrow> bool" where
  "authentic env m \<longleftrightarrow>
     (\<exists>pb author key.
        PeerId_fromBytes (field (pb_from pb)) = Inr author \<and> m_from m = Some (toVector author) \<and>
        m_topic m = pb_topic pb \<and> m_data m = field (pb_data pb) \<and>
        length (field (pb_seqno pb)) = 8 \<and> m_seqno m = Some (load_big_u64 (field (pb_seqno pb))) \<and>
        PeerId_publicKey (rsa_bits env) (parse_key env) author = Some key \<and>
        verify env (getSignable env pb) (field (pb_signature pb)) key = Some True)"

text \<open>What the validation mode lets through to the application.\<close>

definition deliverable :: "Env \<Rightarrow> Config \<Rightarrow> Message \<Rightarrow> bool" where
  "deliverable env c m =
     (case validation_mode c of
        Validate_Strict \<Rightarrow> authentic env m
      | Validate_Anonymous \<Rightarrow> m_from m = None \<and> m_seqno m = None \<and> m_signature m = None)"

definition topic_wf :: "(Message \<Rightarrow> bool) \<Rightarrow> Peer list \<Rightarrow> TopicHash \<Rightarrow> Topic \<Rightarrow> bool" where
  "topic_wf ok h th t \<longleftrightarrow>
     (\<forall>m \<in> set (t_receive_channel t). ok m) \<and>
     distinct (t_peers t) \<and> distinct (t_mesh_peers t) \<and> set (t_mesh_peers t) \<subseteq> set (t_peers t) \<and>
     (\<forall>pp \<in> set (t_peers t). pp < length h \<and> th \<in> set (p_topics (h ! pp))) \<and>
     (\<forall>pp \<in> set (t_mesh_peers t). isGossipsub (h ! pp)) \<and>
     t_history t \<noteq> [] \<and> tb_inv (t_backoff t)"

definition peer_wf :: "time \<Rightarrow> Peer \<Rightarrow> bool" where
  "peer_wf T p \<longleftrightarrow>
     tc_upto (p_dont_send p) T \<and> tc_size (p_dont_send p) \<le> kCapacity \<and>
     (p_writing p \<longrightarrow> p_stream_out p \<noteq> None) \<and> (p_is_connecting p \<longrightarrow> p_stream_out p = None)"

definition promises_wf :: "nat \<Rightarrow> (MessageId, PeerPtr) GossipPromises \<Rightarrow> bool" where
  "promises_wf n gp \<longleftrightarrow> (\<forall>(m, inner) \<in> set (gp_map gp). \<forall>(pp, t) \<in> set inner. pp < n)"

definition ginv :: "Env \<Rightarrow> time \<Rightarrow> Gossip \<Rightarrow> bool" where
  "ginv env T g \<longleftrightarrow>
     score_ok (scores g) \<and> 0 < history_length (config g) \<and>
     distinct (map fst (topics g)) \<and>
     (\<forall>th t. map_of (topics g) th = Some t \<longrightarrow> topic_wf (deliverable env (config g)) (heap g) th t) \<and>
     distinct (map fst (peers g)) \<and>
     (\<forall>pid pp. map_of (peers g) pid = Some pp \<longrightarrow> pp < length (heap g) \<and> p_peer_id (heap g ! pp) = pid) \<and>
     (\<forall>p \<in> set (heap g). peer_wf T p) \<and>
     promises_wf (length (heap g)) (gossip_promises g) \<and>
     (\<forall>pp n. map_of (count_sent_iwant g) pp = Some n \<longrightarrow> n \<le> max_ihave_length (config g)) \<and>
     tc_upto (duplicate_cache g) T"

lemma ginvD:
  assumes "ginv env T g"
  shows "score_ok (scores g)" "0 < history_length (config g)" "distinct (map fst (topics g))"
    "\<And>th t. map_of (topics g) th = Some t \<Longrightarrow> topic_wf (deliverable env (config g)) (heap g) th t"
    "distinct (map fst (peers g))"
    "\<And>pid pp. map_of (peers g) pid = Some pp \<Longrightarrow> pp < length (heap g) \<and> p_peer_id (heap g ! pp) = pid"
    "\<And>p. p \<in> set (heap g) \<Longrightarrow> peer_wf T p" "promises_wf (length (heap g)) (gossip_promises g)"
    "\<And>pp n. map_of (count_sent_iwant g) pp = Some n \<Longrightarrow> n \<le> max_ihave_length (config g)"
    "tc_upto (duplicate_cache g) T"
  using assms by (simp_all add: ginv_def)

subsection \<open>Updates that keep it\<close>

lemma ginv_frame [simp]:
  "ginv env T (g\<lparr>message_cache := mc\<rparr>) \<longleftrightarrow> ginv env T g"
  "ginv env T (g\<lparr>random := r\<rparr>) \<longleftrightarrow> ginv env T g"
  "ginv env T (g\<lparr>last_seq_no := n\<rparr>) \<longleftrightarrow> ginv env T g"
  "ginv env T (g\<lparr>heartbeat_ticks := k\<rparr>) \<longleftrightarrow> ginv env T g"
  "ginv env T (g\<lparr>count_received_ihave := c\<rparr>) \<longleftrightarrow> ginv env T g"
  by (simp_all add: ginv_def)

lemma ginv_dup: "ginv env T g \<Longrightarrow> tc_upto dc T \<Longrightarrow> ginv env T (g\<lparr>duplicate_cache := dc\<rparr>)"
  by (simp add: ginv_def)

lemma ginv_dc_insert:
  assumes "ginv env now g"
  shows "ginv env now (g\<lparr>duplicate_cache := snd (dc_insert (duplicate_cache g) k now now)\<rparr>)"
  using dc_insert_snd(1) [OF ginvD(10) [OF assms] order_refl order_refl] by (rule ginv_dup [OF assms])

lemma ginv_score: "ginv env T g \<Longrightarrow> score_ok s \<Longrightarrow> ginv env T (g\<lparr>scores := s\<rparr>)"
  by (simp add: ginv_def)

lemma ginv_later: "ginv env T g \<Longrightarrow> T \<le> T' \<Longrightarrow> ginv env T' g"
  by (fastforce simp: ginv_def peer_wf_def tc_upto_def)

lemma topic_wf_heap:
  assumes "topic_wf ok h th t" and "length h \<le> length h'"
    and "\<And>i. i < length h \<Longrightarrow> th \<in> set (p_topics (h ! i)) \<Longrightarrow> th \<in> set (p_topics (h' ! i))"
    and "\<And>i. i < length h \<Longrightarrow> isGossipsub (h ! i) \<Longrightarrow> isGossipsub (h' ! i)"
  shows "topic_wf ok h' th t"
  using assms by (auto simp: topic_wf_def less_le_trans subset_iff)

lemma promises_wf_le: "promises_wf n gp \<Longrightarrow> n \<le> n' \<Longrightarrow> promises_wf n' gp"
  by (fastforce simp: promises_wf_def)

lemma ginv_heap:
  assumes "ginv env T g" and "length (heap g) \<le> length h'" and "\<forall>p \<in> set h'. peer_wf T p"
    and "\<And>i. i < length (heap g) \<Longrightarrow> p_peer_id (h' ! i) = p_peer_id (heap g ! i)
        \<and> set (p_topics (heap g ! i)) \<subseteq> set (p_topics (h' ! i)) \<and> (isGossipsub (heap g ! i) \<longrightarrow> isGossipsub (h' ! i))"
  shows "ginv env T (g\<lparr>heap := h'\<rparr>)"
proof -
  have "topic_wf (deliverable env (config g)) h' th t" if "map_of (topics g) th = Some t" for th t
    using ginvD(4) [OF assms(1) that] by (rule topic_wf_heap) (use assms(2,4) in auto)
  moreover have "pp < length h' \<and> p_peer_id (h' ! pp) = pid" if "map_of (peers g) pid = Some pp" for pid pp
    using ginvD(6) [OF assms(1) that] assms(2,4) by auto
  ultimately show ?thesis
    using assms(1,3) promises_wf_le [OF ginvD(8) [OF assms(1)] assms(2)] by (simp add: ginv_def)
qed

lemma ginv_upd_peer:
  assumes "ginv env T g"
    and "pp < length (heap g) \<Longrightarrow> peer_wf T (heap g ! pp) \<Longrightarrow> peer_wf T (f (heap g ! pp))"
    and "p_peer_id (f (heap g ! pp)) = p_peer_id (heap g ! pp)"
    and "set (p_topics (heap g ! pp)) \<subseteq> set (p_topics (f (heap g ! pp)))"
    and "isGossipsub (heap g ! pp) \<Longrightarrow> isGossipsub (f (heap g ! pp))"
  shows "ginv env T (upd_peer pp f g)"
proof -
  let ?h = "(heap g)[pp := f (heap g ! pp)]"
  have "peer_wf T p" if "p \<in> set ?h" for p
  proof (cases "pp < length (heap g)")
    case True
    then show ?thesis
      using that ginvD(7) [OF assms(1)] assms(2) set_update_subset_insert [of "heap g" pp "f (heap g ! pp)"] by auto
  next
    case False
    then show ?thesis using that ginvD(7) [OF assms(1)] by (simp add: list_update_beyond)
  qed
  moreover have "p_peer_id (?h ! i) = p_peer_id (heap g ! i) \<and> set (p_topics (heap g ! i)) \<subseteq> set (p_topics (?h ! i))
      \<and> (isGossipsub (heap g ! i) \<longrightarrow> isGossipsub (?h ! i))" if "i < length (heap g)" for i
    using that assms(3-5) by (cases "i = pp") auto
  ultimately show ?thesis unfolding upd_peer_def by (intro ginv_heap [OF assms(1)]) auto
qed

lemma ginv_upd_topic:
  assumes "ginv env T g" and "\<And>t. map_of (topics g) th = Some t \<Longrightarrow> topic_wf (deliverable env (config g)) (heap g) th t \<Longrightarrow> topic_wf (deliverable env (config g)) (heap g) th (f t)"
  shows "ginv env T (upd_topic th f g)"
  using assms
  by (auto simp: ginv_def upd_topic_def map_of_map_entry distinct_map_entry split: option.splits if_splits)

text \<open>What an update of a peer or a topic leaves alone.\<close>

lemma upd_frame [simp]:
  "topics (upd_peer pp f g) = topics g" "config (upd_peer pp f g) = config g" "peers (upd_peer pp f g) = peers g"
  "scores (upd_peer pp f g) = scores g" "length (heap (upd_peer pp f g)) = length (heap g)"
  "random (upd_peer pp f g) = random g" "heartbeat_ticks (upd_peer pp f g) = heartbeat_ticks g"
  "message_cache (upd_peer pp f g) = message_cache g" "duplicate_cache (upd_peer pp f g) = duplicate_cache g"
  "gossip_promises (upd_peer pp f g) = gossip_promises g" "count_sent_iwant (upd_peer pp f g) = count_sent_iwant g"
  "heap (upd_topic th tf g) = heap g" "config (upd_topic th tf g) = config g" "peers (upd_topic th tf g) = peers g"
  "scores (upd_topic th tf g) = scores g" "random (upd_topic th tf g) = random g"
  "heartbeat_ticks (upd_topic th tf g) = heartbeat_ticks g" "message_cache (upd_topic th tf g) = message_cache g"
  "gossip_promises (upd_topic th tf g) = gossip_promises g" "duplicate_cache (upd_topic th tf g) = duplicate_cache g"
  "map fst (topics (upd_topic th tf g)) = map fst (topics g)"
  by (simp_all add: upd_peer_def upd_topic_def map_fst_map_entry)

lemma topic_at_upd:
  "topic_at (upd_topic th f g) th' = (if th' = th \<and> map_of (topics g) th \<noteq> None then f (topic_at g th) else topic_at g th')"
  by (auto simp: topic_at_def upd_topic_def map_of_map_entry split: option.splits)

lemma topic_at_cong: "topics g' = topics g \<Longrightarrow> topic_at g' th = topic_at g th"
  by (simp add: topic_at_def)

lemma ginv_topic: "ginv env T g \<Longrightarrow> map_of (topics g) th \<noteq> None \<Longrightarrow> topic_wf (deliverable env (config g)) (heap g) th (topic_at g th)"
  by (auto simp: topic_at_def dest: ginvD(4))


section \<open>Batches\<close>

text \<open>The part of a peer that batches do not touch.\<close>

definition core :: "Peer \<Rightarrow> PeerId \<times> bool \<times> PeerKind option \<times> TopicHash list" where
  "core p = (p_peer_id p, p_out p, p_peer_kind p, p_topics p)"

lemma core_eqD:
  assumes "core p = core q"
  shows "p_peer_id p = p_peer_id q" "p_out p = p_out q" "p_peer_kind p = p_peer_kind q" "p_topics p = p_topics q"
    "isGossipsub p = isGossipsub q" "isFloodsub p = isFloodsub q" "isGossipsubv1_1 p = isGossipsubv1_1 q"
  using assms by (simp_all add: core_def isGossipsub_def isFloodsub_def isGossipsubv1_1_def)

text \<open>States that differ in batches, writers and the random generator only.\<close>

definition same :: "Gossip \<Rightarrow> Gossip \<Rightarrow> bool" where
  "same g g' \<longleftrightarrow> config g' = config g \<and> map core (heap g') = map core (heap g) \<and> topics g' = topics g
     \<and> peers g' = peers g \<and> scores g' = scores g \<and> heartbeat_ticks g' = heartbeat_ticks g
     \<and> message_cache g' = message_cache g \<and> gossip_promises g' = gossip_promises g
     \<and> duplicate_cache g' = duplicate_cache g \<and> count_sent_iwant g' = count_sent_iwant g"

lemma same_refl [simp]: "same g g"
  by (simp add: same_def)

lemma same_trans: "same g g' \<Longrightarrow> same g' g'' \<Longrightarrow> same g g''"
  by (simp add: same_def)

lemma sameD:
  assumes "same g g'"
  shows "config g' = config g" "topics g' = topics g" "peers g' = peers g" "scores g' = scores g"
    "heartbeat_ticks g' = heartbeat_ticks g" "length (heap g') = length (heap g)" "topic_at g' th = topic_at g th"
  using assms map_eq_imp_length_eq by (auto simp: same_def topic_at_def)

lemma same_core:
  assumes "same g g'" and "pp < length (heap g)"
  shows "core (heap g' ! pp) = core (heap g ! pp)"
proof -
  have "map core (heap g') ! pp = map core (heap g) ! pp" using assms(1) by (simp add: same_def)
  with assms sameD(6) [OF assms(1)] show ?thesis by simp
qed

lemma same_upd_peer:
  assumes "pp < length (heap g) \<Longrightarrow> core (f (heap g ! pp)) = core (heap g ! pp)"
  shows "same g (upd_peer pp f g)"
proof -
  have "map core ((heap g)[pp := f (heap g ! pp)]) = map core (heap g)"
  proof (cases "pp < length (heap g)")
    case True
    then show ?thesis using assms by (simp add: map_update list_update_same_conv)
  qed (simp add: list_update_beyond)
  then show ?thesis by (simp add: same_def upd_peer_def)
qed

lemma same_checkWrite: "same g (checkWrite pp g)"
  by (auto simp: checkWrite_def Let_def core_def intro!: same_upd_peer)

lemma same_getBatch: "same g (getBatch pp g)"
  unfolding getBatch_def
  by (rule same_trans [OF _ same_checkWrite]) (auto simp: core_def intro!: same_upd_peer)

lemma same_upd_batch: "same g (upd_batch pp f g)"
  unfolding upd_batch_def
  by (rule same_trans [OF same_getBatch]) (auto simp: core_def intro!: same_upd_peer)

lemma ginv_checkWrite: "ginv env T g \<Longrightarrow> ginv env T (checkWrite pp g)"
  by (auto simp: checkWrite_def Let_def peer_wf_def peer_at_def isGossipsub_def intro!: ginv_upd_peer)

lemma ginv_getBatch: "ginv env T g \<Longrightarrow> ginv env T (getBatch pp g)"
  unfolding getBatch_def
  by (rule ginv_checkWrite) (auto simp: peer_wf_def isGossipsub_def intro!: ginv_upd_peer)

lemma ginv_upd_batch: "ginv env T g \<Longrightarrow> ginv env T (upd_batch pp f g)"
  unfolding upd_batch_def
  by (rule ginv_upd_peer) (auto simp: peer_wf_def isGossipsub_def intro: ginv_getBatch)

lemma topics_upd_batch [simp]: "topics (upd_batch pp f g) = topics g" "config (upd_batch pp f g) = config g"
  "length (heap (upd_batch pp f g)) = length (heap g)" "peers (upd_batch pp f g) = peers g"
  "scores (upd_batch pp f g) = scores g" "topic_at (upd_batch pp f g) th = topic_at g th"
  using sameD [OF same_upd_batch] by auto

section \<open>Mesh\<close>

lemma set_insert_simps [simp]: "set (set_insert x xs) = insert x (set xs)" "distinct (set_insert x xs) \<longleftrightarrow> distinct xs"
  by (auto simp: set_insert_def)

lemma set_erase_simps [simp]: "set (set_erase x xs) = set xs - {x}" "distinct xs \<Longrightarrow> distinct (set_erase x xs)"
  by (auto simp: set_erase_def)

lemma ginv_mesh_emplace:
  assumes "ginv env T g" and "pp \<in> set (t_peers (topic_at g th))" and "isGossipsub (heap g ! pp)"
  shows "ginv env T (mesh_emplace th pp g)"
  unfolding mesh_emplace_def using assms(2,3)
  by (intro ginv_upd_topic [OF assms(1)]) (auto simp: topic_wf_def topic_at_def)

lemma ginv_mesh_erase: "ginv env T g \<Longrightarrow> ginv env T (mesh_erase th pp g)"
  unfolding mesh_erase_def by (erule ginv_upd_topic) (auto simp: topic_wf_def)

lemma ginv_update_backoff: "ginv env T g \<Longrightarrow> ginv env T (update_backoff th pp b g)"
  unfolding update_backoff_def by (erule ginv_upd_topic) (auto simp: topic_wf_def tb_inv_update)

lemma ginv_upd_score: "ginv env T g \<Longrightarrow> (score_ok (scores g) \<Longrightarrow> score_ok (f (scores g))) \<Longrightarrow> ginv env T (upd_score f g)"
  by (simp add: upd_score_def ginv_score ginvD(1))

lemma wp_upd_score_cxx:
  assumes "ginv env T g" and "score_ok (scores g) \<Longrightarrow> returns_ok (scores g) (f (scores g))"
  shows "wp b (upd_score_cxx f g) (\<lambda>g'. ginv env T g' \<and> (\<exists>s. g' = g\<lparr>scores := s\<rparr>))"
  using assms(2) [OF ginvD(1) [OF assms(1)]] assms(1)
  by (auto simp: upd_score_cxx_def returns_ok_def ginv_score)

lemma wp_score_ops:
  assumes "ginv env T g"
  shows "wp b (upd_score_cxx (score_prune q th) g) (\<lambda>g'. ginv env T g' \<and> (\<exists>s. g' = g\<lparr>scores := s\<rparr>))"
    and "wp b (upd_score_cxx (duplicateMessage q m th now) g) (\<lambda>g'. ginv env T g' \<and> (\<exists>s. g' = g\<lparr>scores := s\<rparr>))"
    and "wp b (upd_score_cxx (deliver_message q m th now) g) (\<lambda>g'. ginv env T g' \<and> (\<exists>s. g' = g\<lparr>scores := s\<rparr>))"
  by (rule wp_upd_score_cxx [OF assms]; simp add: score_ops_ok)+

text \<open>
  A change of the mesh: topics keep their peers and their kind, peers keep their core, and
  only the mesh of the topic changes.
\<close>

definition mesh_step :: "TopicHash \<Rightarrow> Gossip \<Rightarrow> Gossip \<Rightarrow> bool" where
  "mesh_step th g g' \<longleftrightarrow> config g' = config g \<and> map core (heap g') = map core (heap g)
     \<and> map fst (topics g') = map fst (topics g) \<and> peers g' = peers g \<and> heartbeat_ticks g' = heartbeat_ticks g
     \<and> (\<forall>th'. t_peers (topic_at g' th') = t_peers (topic_at g th')
          \<and> t_publish_only (topic_at g' th') = t_publish_only (topic_at g th')
          \<and> (th' \<noteq> th \<longrightarrow> t_mesh_peers (topic_at g' th') = t_mesh_peers (topic_at g th')))"

lemma mesh_step_refl [simp]: "mesh_step th g g"
  by (simp add: mesh_step_def)

lemma mesh_step_trans: "mesh_step th g g' \<Longrightarrow> mesh_step th g' g'' \<Longrightarrow> mesh_step th g g''"
  by (simp add: mesh_step_def)

lemma mesh_step_same: "same g g' \<Longrightarrow> mesh_step th g g'"
  by (simp add: mesh_step_def same_def topic_at_def)

lemma mesh_step_score: "mesh_step th g (g\<lparr>scores := s\<rparr>)" "mesh_step th g (upd_score f g)"
  by (simp_all add: mesh_step_def topic_at_def upd_score_def)

lemma mesh_step_random: "mesh_step th g (g\<lparr>random := r\<rparr>)"
  by (simp add: mesh_step_def topic_at_def)

lemma mesh_step_upd_topic:
  assumes "\<And>t. t_peers (f t) = t_peers t \<and> t_publish_only (f t) = t_publish_only t"
  shows "mesh_step th g (upd_topic th f g)"
  using assms by (simp add: mesh_step_def topic_at_upd)

lemma mesh_stepD:
  assumes "mesh_step th g g'"
  shows "config g' = config g" "length (heap g') = length (heap g)" "peers g' = peers g"
    "map_of (topics g') th' = None \<longleftrightarrow> map_of (topics g) th' = None"
    "t_peers (topic_at g' th') = t_peers (topic_at g th')"
    "t_publish_only (topic_at g' th') = t_publish_only (topic_at g th')"
    "map fst (topics g') = map fst (topics g)" "heartbeat_ticks g' = heartbeat_ticks g"
proof -
  have "set (map fst (topics g')) = set (map fst (topics g))" using assms by (simp add: mesh_step_def)
  then show "map_of (topics g') th' = None \<longleftrightarrow> map_of (topics g) th' = None" by (simp add: map_of_eq_None_iff)
qed (use assms map_eq_imp_length_eq in \<open>auto simp: mesh_step_def\<close>)

lemma mesh_step_core:
  assumes "mesh_step th g g'" and "pp < length (heap g)"
  shows "core (heap g' ! pp) = core (heap g ! pp)"
proof -
  have "map core (heap g') ! pp = map core (heap g) ! pp" using assms(1) by (simp add: mesh_step_def)
  with assms mesh_stepD(2) [OF assms(1)] show ?thesis by simp
qed

lemma graft_peer_spec:
  assumes "ginv env T g" and "map_of (topics g) th \<noteq> None" and "pp \<in> set (t_peers (topic_at g th))"
    and "isGossipsub (heap g ! pp)" and "pp \<notin> set (t_mesh_peers (topic_at g th))"
  shows "\<exists>g'. graft_peer th now pp g = Returns g' \<and> ginv env T g' \<and> mesh_step th g g'
    \<and> t_mesh_peers (topic_at g' th) = t_mesh_peers (topic_at g th) @ [pp]"
proof -
  let ?g1 = "mesh_emplace th pp g"
  let ?g2 = "upd_score (score_graft (p_peer_id (peer_at g pp)) th now) ?g1"
  let ?g3 = "upd_batch pp (\<lambda>b. b\<lparr>graft := set_insert th (graft b)\<rparr>) ?g2"
  have "ginv env T ?g3"
    by (intro ginv_upd_batch ginv_upd_score ginv_mesh_emplace assms score_graft_ok)
  moreover have "mesh_step th g ?g3"
    by (rule mesh_step_trans [OF mesh_step_trans [OF _ mesh_step_score(2)] mesh_step_same [OF same_upd_batch]])
      (auto simp: mesh_emplace_def intro!: mesh_step_upd_topic)
  moreover have "topic_at ?g2 th = topic_at ?g1 th" by (rule topic_at_cong) (simp add: upd_score_def)
  then have "t_mesh_peers (topic_at ?g3 th) = t_mesh_peers (topic_at g th) @ [pp]"
    using assms(2,5) by (simp add: mesh_emplace_def topic_at_upd set_insert_def)
  ultimately show ?thesis using assms(5) by (simp add: graft_peer_def)
qed

text \<open>Grafting a list of peers that are not in the mesh.\<close>

lemma graft_all_spec:
  assumes "ginv env T g" and "map_of (topics g) th \<noteq> None" and "distinct pps"
    and "\<forall>pp \<in> set pps. pp \<in> set (t_peers (topic_at g th)) \<and> isGossipsub (heap g ! pp) \<and> pp \<notin> set (t_mesh_peers (topic_at g th))"
  shows "\<exists>g'. fold_cxx (graft_peer th now) pps g = Returns g' \<and> ginv env T g' \<and> mesh_step th g g'
    \<and> t_mesh_peers (topic_at g' th) = t_mesh_peers (topic_at g th) @ pps"
  using assms
proof (induction pps arbitrary: g)
  case (Cons pp pps)
  from graft_peer_spec [OF Cons.prems(1,2), of pp now] Cons.prems(4) obtain g1 where
    g1: "graft_peer th now pp g = Returns g1" "ginv env T g1" "mesh_step th g g1"
      "t_mesh_peers (topic_at g1 th) = t_mesh_peers (topic_at g th) @ [pp]" by auto
  have t1: "map_of (topics g1) th \<noteq> None" using Cons.prems(2) mesh_stepD(4) [OF g1(3)] by simp
  have wf: "topic_wf (deliverable env (config g)) (heap g) th (topic_at g th)" by (rule ginv_topic [OF Cons.prems(1,2)])
  have "\<forall>q \<in> set pps. q \<in> set (t_peers (topic_at g1 th)) \<and> isGossipsub (heap g1 ! q) \<and> q \<notin> set (t_mesh_peers (topic_at g1 th))"
  proof
    fix q
    assume q: "q \<in> set pps"
    then have "q \<in> set (t_peers (topic_at g th))" using Cons.prems(4) by simp
    moreover from this have "q < length (heap g)" using wf by (simp add: topic_wf_def)
    ultimately show "q \<in> set (t_peers (topic_at g1 th)) \<and> isGossipsub (heap g1 ! q) \<and> q \<notin> set (t_mesh_peers (topic_at g1 th))"
      using q Cons.prems(3,4) mesh_stepD(5) [OF g1(3)] core_eqD(5) [OF mesh_step_core [OF g1(3)]] g1(4) by auto
  qed
  from Cons.IH [OF g1(2) t1 _ this] Cons.prems(3) g1 show ?case
    using mesh_step_trans [OF g1(3)] by fastforce
qed simp


text \<open>Queueing a PRUNE, with a backoff or without.\<close>

definition queue_prune :: "TopicHash \<Rightarrow> PeerPtr \<Rightarrow> int option \<Rightarrow> Gossip \<Rightarrow> Gossip" where
  "queue_prune th pp backoff g =
     upd_batch pp (\<lambda>b. b\<lparr>prune := emplace th backoff (prune b)\<rparr>)
       (case backoff of None \<Rightarrow> g | Some b \<Rightarrow> update_backoff th pp b g)"

lemma queue_prune_spec:
  assumes "ginv env T g"
  shows "ginv env T (queue_prune th pp bo g)" and "mesh_step th g (queue_prune th pp bo g)"
    and "t_mesh_peers (topic_at (queue_prune th pp bo g) th) = t_mesh_peers (topic_at g th)"
proof -
  show "ginv env T (queue_prune th pp bo g)"
    unfolding queue_prune_def using assms by (cases bo) (simp_all add: ginv_upd_batch ginv_update_backoff)
  show "mesh_step th g (queue_prune th pp bo g)"
    unfolding queue_prune_def
    by (rule mesh_step_trans [OF _ mesh_step_same [OF same_upd_batch]])
      (cases bo, auto simp: update_backoff_def intro!: mesh_step_upd_topic)
  show "t_mesh_peers (topic_at (queue_prune th pp bo g) th) = t_mesh_peers (topic_at g th)"
    unfolding queue_prune_def by (cases bo) (simp_all add: update_backoff_def topic_at_upd)
qed

lemma make_prune_eq:
  "make_prune th pp g =
     (if \<not> isGossipsub (peer_at g pp) then Returns g
      else bind_cxx (upd_score_cxx (score_prune (p_peer_id (peer_at g pp)) th) g) (\<lambda>g1. Returns
        (queue_prune th pp (if isGossipsubv1_1 (peer_at g pp) then Some (prune_backoff (config g)) else None) g1)))"
  by (simp add: make_prune_def queue_prune_def Let_def)

lemma make_prune_spec:
  assumes "ginv env T g"
  shows "wp b (make_prune th pp g) (\<lambda>g'. ginv env T g' \<and> mesh_step th g g'
    \<and> t_mesh_peers (topic_at g' th) = t_mesh_peers (topic_at g th))"
proof (cases "isGossipsub (peer_at g pp)")
  case True
  have q: "wp b (Returns (queue_prune th pp bo g1)) (\<lambda>g'. ginv env T g' \<and> mesh_step th g g'
      \<and> t_mesh_peers (topic_at g' th) = t_mesh_peers (topic_at g th))"
    if h: "ginv env T g1 \<and> (\<exists>s. g1 = g\<lparr>scores := s\<rparr>)" for g1 bo
  proof -
    obtain s where s: "g1 = g\<lparr>scores := s\<rparr>" and "ginv env T g1" using h by blast
    moreover have "topic_at g1 th = topic_at g th" by (simp add: s topic_at_def)
    moreover have "mesh_step th g g1" unfolding s by (rule mesh_step_score)
    ultimately show ?thesis using queue_prune_spec [of env T g1 th pp bo] mesh_step_trans by auto
  qed
  have "wp b (bind_cxx (upd_score_cxx (score_prune (p_peer_id (peer_at g pp)) th) g) (\<lambda>g1. Returns (queue_prune th pp bo g1)))
      (\<lambda>g'. ginv env T g' \<and> mesh_step th g g' \<and> t_mesh_peers (topic_at g' th) = t_mesh_peers (topic_at g th))" for bo
    by (rule wp_bindI [OF wp_score_ops(1) [OF assms]]) (rule q)
  then show ?thesis unfolding make_prune_eq using True by (simp del: if_split)
qed (simp add: make_prune_eq assms)

section \<open>Choosing peers\<close>

text \<open>What the protocol relies on: shuffling permutes.\<close>

definition env_ok :: "Env \<Rightarrow> bool" where
  "env_ok env \<longleftrightarrow> (\<forall>n xs. mset (shuffle_peers env n xs) = mset xs) \<and> (\<forall>n xs. mset (shuffle_ids env n xs) = mset xs)"

lemma choose_peers_spec:
  assumes "env_ok env" and "distinct all" and "choose_peers env all P cnt g = (xs, g')"
  shows "distinct xs" and "\<And>pp. pp \<in> set xs \<Longrightarrow> pp \<in> set all \<and> isGossipsub (heap g ! pp) \<and> P pp"
    and "g' = g\<lparr>random := random g + 1\<rparr>"
    and "length xs = min (cnt (length (filter (\<lambda>pp. isGossipsub (peer_at g pp) \<and> P pp) all)))
           (length (filter (\<lambda>pp. isGossipsub (peer_at g pp) \<and> P pp) all))"
proof -
  let ?c = "filter (\<lambda>pp. isGossipsub (peer_at g pp) \<and> P pp) all"
  let ?s = "shuffle_peers env (random g) ?c"
  have m: "mset ?s = mset ?c" using assms(1) by (simp add: env_ok_def)
  then have len: "length ?s = length ?c" and set: "set ?s = set ?c" by (metis size_mset) (metis set_mset_mset m)
  have d: "distinct ?s" using m assms(2) by (metis distinct_filter mset_eq_imp_distinct_iff)
  have xs: "xs = (if length ?s > cnt (length ?s) then take (cnt (length ?s)) ?s else ?s)"
    and g': "g' = g\<lparr>random := random g + 1\<rparr>"
    using assms(3) by (auto simp: choose_peers_def Let_def)
  show "distinct xs" using d by (simp add: xs)
  have "set xs \<subseteq> set ?c" using set by (auto simp: xs dest: in_set_takeD)
  then show "\<And>pp. pp \<in> set xs \<Longrightarrow> pp \<in> set all \<and> isGossipsub (heap g ! pp) \<and> P pp" by (auto simp: peer_at_def)
  show "g' = g\<lparr>random := random g + 1\<rparr>" by (rule g')
  show "length xs = min (cnt (length ?c)) (length ?c)" by (simp add: xs len)
qed

text \<open>Choosing subscribed peers outside the mesh and grafting them.\<close>

lemma choose_graft_spec:
  assumes "env_ok env" and "ginv env T g" and "map_of (topics g) th \<noteq> None"
    and "\<And>pp. P pp \<Longrightarrow> pp \<notin> set (t_mesh_peers (topic_at g th))"
  shows "\<exists>g'. (let (chosen, g1) = choose_peers env (t_peers (topic_at g th)) P cnt g in fold_cxx (graft_peer th now) chosen g1)
      = Returns g' \<and> ginv env T g' \<and> mesh_step th g g'
    \<and> length (t_mesh_peers (topic_at g' th)) \<le> length (t_mesh_peers (topic_at g th))
        + cnt (length (filter (\<lambda>pp. isGossipsub (peer_at g pp) \<and> P pp) (t_peers (topic_at g th))))"
proof -
  obtain chosen g1 where c: "choose_peers env (t_peers (topic_at g th)) P cnt g = (chosen, g1)" by fastforce
  have wf: "topic_wf (deliverable env (config g)) (heap g) th (topic_at g th)" by (rule ginv_topic [OF assms(2,3)])
  then have d: "distinct (t_peers (topic_at g th))" by (simp add: topic_wf_def)
  note s = choose_peers_spec [OF assms(1) d c]
  have "topic_at g1 th = topic_at g th" "map_of (topics g1) th \<noteq> None" "ginv env T g1" "heap g1 = heap g"
    using s(3) assms(2,3) by (simp_all add: topic_at_def)
  with graft_all_spec [of env T g1 th chosen now] s(1,2) assms(4) obtain g' where
    g': "fold_cxx (graft_peer th now) chosen g1 = Returns g'" "ginv env T g'" "mesh_step th g1 g'"
      "t_mesh_peers (topic_at g' th) = t_mesh_peers (topic_at g th) @ chosen" by auto
  have "mesh_step th g g'" using mesh_step_trans [OF mesh_step_random g'(3) [unfolded s(3)]] .
  then show ?thesis using g' s(4) by (simp add: c)
qed

section \<open>Publishing\<close>

lemma same_add_peer: "same g (add_peer src send mid m pp g)"
  by (simp add: add_peer_def Let_def same_upd_batch)

lemma ginv_add_peer: "ginv env T g \<Longrightarrow> ginv env T (add_peer src send mid m pp g)"
  by (simp add: add_peer_def Let_def ginv_upd_batch)

lemma fold_same:
  assumes "\<And>x g. same g (f x g)"
  shows "same g (fold f xs g)"
  using assms same_trans by (induction xs arbitrary: g) fastforce+

lemma fold_ginv:
  assumes "\<And>x g. ginv env T g \<Longrightarrow> ginv env T (f x g)" and "ginv env T g"
  shows "ginv env T (fold f xs g)"
  using assms by (induction xs arbitrary: g) simp_all

lemma foldl_ginv:
  assumes "\<And>x g. ginv env T g \<Longrightarrow> ginv env T (f g x)" and "ginv env T g"
  shows "ginv env T (foldl f g xs)"
  using assms by (induction xs arbitrary: g) simp_all

lemma history_add_nonempty [simp]: "history_add h m = [] \<longleftrightarrow> h = []"
  by (cases h) simp_all

lemma promises_wf_remove: "promises_wf n gp \<Longrightarrow> promises_wf n (gp_remove gp m)"
  by (auto simp: promises_wf_def gp_remove_def AList.delete_eq)

lemma ginv_promises: "ginv env T g \<Longrightarrow> promises_wf (length (heap g)) gp \<Longrightarrow> ginv env T (g\<lparr>gossip_promises := gp\<rparr>)"
  by (simp add: ginv_def)

text \<open>A loop over subscribed peers that changes at most the mesh.\<close>

lemma fold_mesh_spec:
  assumes "ginv env T g" and "map_of (topics g) th \<noteq> None"
    and "\<forall>pp \<in> set pps. pp \<in> set (t_peers (topic_at g th)) \<and> isGossipsub (heap g ! pp)"
    and "\<And>pp g. ginv env T g \<Longrightarrow> pp < length (heap g) \<Longrightarrow> pp \<in> set (t_peers (topic_at g th)) \<Longrightarrow> isGossipsub (heap g ! pp)
      \<Longrightarrow> ginv env T (f pp g) \<and> mesh_step th g (f pp g)"
  shows "ginv env T (fold f pps g) \<and> mesh_step th g (fold f pps g)"
  using assms(1-3)
proof (induction pps arbitrary: g)
  case (Cons pp pps)
  have v: "q < length (heap g)" if "q \<in> set (t_peers (topic_at g th))" for q
    using ginv_topic [OF Cons.prems(1,2)] that by (simp add: topic_wf_def)
  have s: "ginv env T (f pp g)" "mesh_step th g (f pp g)" using assms(4) [OF Cons.prems(1)] Cons.prems(3) v by auto
  with v have "\<forall>q \<in> set pps. q \<in> set (t_peers (topic_at (f pp g) th)) \<and> isGossipsub (heap (f pp g) ! q)"
    using Cons.prems(3) mesh_stepD(5) [OF s(2)] core_eqD(5) [OF mesh_step_core [OF s(2)]] by auto
  with Cons.IH [OF s(1)] Cons.prems(2) mesh_stepD(4) [OF s(2)] mesh_step_trans [OF s(2)] show ?case by simp
qed simp

lemma mesh_emplace_spec:
  assumes "ginv env T g" "pp \<in> set (t_peers (topic_at g th))" "isGossipsub (heap g ! pp)"
  shows "ginv env T (mesh_emplace th pp g) \<and> mesh_step th g (mesh_emplace th pp g)"
  using ginv_mesh_emplace [OF assms] by (auto simp: mesh_emplace_def intro: mesh_step_upd_topic)

text \<open>What a handler that neither subscribes nor connects leaves alone.\<close>

definition keeps :: "Gossip \<Rightarrow> Gossip \<Rightarrow> bool" where
  "keeps g g' \<longleftrightarrow> config g' = config g \<and> length (heap g') = length (heap g) \<and> map fst (topics g') = map fst (topics g)"

lemma keeps_trans: "keeps g g' \<Longrightarrow> keeps g' g'' \<Longrightarrow> keeps g g''"
  by (simp add: keeps_def)

lemma keepsI:
  "keeps g g" "same g g' \<Longrightarrow> keeps g g'" "mesh_step th g g' \<Longrightarrow> keeps g g'" "keeps g (upd_topic th f g)" "keeps g (upd_peer pp pf g)"
  using sameD mesh_stepD by (auto simp: keeps_def)

lemma keeps_update_backoff [simp]: "keeps g (update_backoff th pp bo g') \<longleftrightarrow> keeps g g'"
  by (simp add: keeps_def update_backoff_def)

lemma broadcast_ginv:
  assumes "env_ok env" and "ginv env T g" and "map_of (topics g) th \<noteq> None"
  shows "ginv env T (broadcast env th src mid m now g) \<and> keeps g (broadcast env th src mid m now g)"
proof -
  define g1 where "g1 = g\<lparr>message_cache := emplace mid \<lparr>ce_message = m, ce_iwant = []\<rparr> (message_cache g)\<rparr>"
  define g2 where "g2 = upd_topic th (\<lambda>t. t\<lparr>t_history := history_add (t_history t) mid\<rparr>) g1"
  define g3 where "g3 = g2\<lparr>gossip_promises := gp_remove (gossip_promises g2) mid\<rparr>"
  define send where "send = ((src \<noteq> None \<or> idontwant_on_publish (config g))
    \<and> \<not> length (message_bytes env (toProtobuf m)) \<le> idontwant_message_size_threshold (config g))"
  define g4 where "g4 = (if src \<noteq> None \<and> send
    then foldl (\<lambda>g pp. upd_batch pp (\<lambda>b. b\<lparr>idontwant := set_insert mid (idontwant b)\<rparr>) g) g3
           (gp_peers (gossip_promises g3) mid) else g3)"
  let ?add = "add_peer src send mid m" and ?topic = "topic_at g4 th"
  have "ginv env T g2" unfolding g2_def g1_def
    by (intro ginv_upd_topic) (use assms(2) in \<open>auto simp: topic_wf_def\<close>)
  then have g3: "ginv env T g3" unfolding g3_def by (intro ginv_promises promises_wf_remove) (auto dest: ginvD(8))
  have k3: "keeps g g3" by (auto simp: keeps_def g3_def g2_def g1_def)
  have "ginv env T g4 \<and> same g3 g4"
  proof -
    have "same g (foldl (\<lambda>g pp. upd_batch pp f g) g pps)" for g f and pps
      using same_trans [OF same_upd_batch] by (induction pps arbitrary: g) fastforce+
    then show ?thesis using g3 by (auto simp: g4_def intro!: foldl_ginv ginv_upd_batch)
  qed
  then have g4: "ginv env T g4" and k4: "keeps g g4" using keeps_trans [OF k3 keepsI(2)] by blast+
  have th4: "map_of (topics g4) th \<noteq> None"
    using k4 assms(3) unfolding keeps_def by (metis map_of_eq_None_iff list.set_map)
  define g6 where "g6 = fold ?add (t_mesh_peers ?topic)
    (fold (\<lambda>pp g. if isFloodsub (peer_at g pp) then ?add pp g else g) (t_peers ?topic) g4)"
  have s46: "same g4 g6" unfolding g6_def
    by (rule same_trans [OF fold_same fold_same]) (auto simp: same_add_peer)
  have g6: "ginv env T g6" unfolding g6_def by (intro fold_ginv) (auto simp: ginv_add_peer g4)
  have th6: "map_of (topics g6) th \<noteq> None" "topic_at g6 th = ?topic" using th4 sameD(2,7) [OF s46] by auto
  define g7 where "g7 = (if saturating_sub (mesh_n_for_topic (config g) th) (length (t_mesh_peers ?topic)) = 0 then g6
    else (let (chosen, g') = choose_peers env (t_peers ?topic)
              (\<lambda>pp. pp \<notin> set (t_mesh_peers ?topic) \<and> \<not> peer_below g6 pp publish_threshold)
              (\<lambda>_. saturating_sub (mesh_n_for_topic (config g) th) (length (t_mesh_peers ?topic))) g6
          in fold (\<lambda>pp g. if t_publish_only ?topic then mesh_emplace th pp (?add pp g) else ?add pp g) chosen g'))"
  have g7: "ginv env T g7 \<and> keeps g6 g7"
  proof (cases "saturating_sub (mesh_n_for_topic (config g) th) (length (t_mesh_peers ?topic)) = 0")
    case False
    obtain chosen g' where c: "choose_peers env (t_peers ?topic)
        (\<lambda>pp. pp \<notin> set (t_mesh_peers ?topic) \<and> \<not> peer_below g6 pp publish_threshold)
        (\<lambda>_. saturating_sub (mesh_n_for_topic (config g) th) (length (t_mesh_peers ?topic))) g6 = (chosen, g')" by fastforce
    have "distinct (t_peers ?topic)" using ginv_topic [OF g4 th4] by (simp add: topic_wf_def)
    note cs = choose_peers_spec [OF assms(1) this c]
    have g': "ginv env T g'" "map_of (topics g') th \<noteq> None" "topic_at g' th = ?topic" "heap g' = heap g6"
      using cs(3) g6 th6 by (simp_all add: topic_at_def)
    let ?f = "\<lambda>pp g. if t_publish_only ?topic then mesh_emplace th pp (?add pp g) else ?add pp g"
    have "ginv env T (?f pp g) \<and> mesh_step th g (?f pp g)"
      if "ginv env T g" "pp < length (heap g)" "pp \<in> set (t_peers (topic_at g th))" "isGossipsub (heap g ! pp)" for pp g
    proof -
      have s: "same g (?add pp g)" and i: "ginv env T (?add pp g)" by (simp_all add: same_add_peer ginv_add_peer that(1))
      have "ginv env T (mesh_emplace th pp (?add pp g)) \<and> mesh_step th (?add pp g) (mesh_emplace th pp (?add pp g))"
        using that(3,4) sameD(7) [OF s] core_eqD(5) [OF same_core [OF s that(2)]] by (intro mesh_emplace_spec i) auto
      then show ?thesis using i mesh_step_same [OF s] by (auto intro: mesh_step_trans [OF mesh_step_same [OF s]])
    qed
    from fold_mesh_spec [OF g'(1,2), of chosen ?f, OF _ this] cs(2) g'(3,4)
    have "ginv env T (fold ?f chosen g') \<and> mesh_step th g' (fold ?f chosen g')" by auto
    moreover have "keeps g6 g'" using cs(3) by (simp add: keeps_def)
    ultimately show ?thesis using False by (auto simp: g7_def c [unfolded saturating_sub_eq] intro: keeps_trans keepsI(3))
  qed (simp add: g7_def g6 keepsI(1))
  have flood: "ginv env T (fold ?add (t_peers ?topic) g4)" "same g4 (fold ?add (t_peers ?topic) g4)"
    by (auto intro!: fold_ginv fold_same ginv_add_peer same_add_peer g4)
  have k: "keeps g g6" "keeps g g7" "keeps g (fold ?add (t_peers ?topic) g4)"
    using keeps_trans [OF k4 keepsI(2)] s46 flood(2) g7 keeps_trans by blast+
  have last: "ginv env T (upd_topic th (\<lambda>t. t\<lparr>t_last_publish := now\<rparr>) g7)"
    using g7 by (intro ginv_upd_topic) (auto simp: topic_wf_def)
  have "broadcast env th src mid m now g =
      (if src = None \<and> flood_publish (config g) then fold ?add (t_peers ?topic) g4
       else if src \<noteq> None then g6 else upd_topic th (\<lambda>t. t\<lparr>t_last_publish := now\<rparr>) g7)"
    unfolding broadcast_def g7_def g6_def g4_def g3_def g2_def g1_def send_def Let_def by simp
  then show ?thesis using flood(1) g6 last k keeps_trans [OF k(2) keepsI(4)] by auto
qed


subsection \<open>Topics\<close>

lemma distinct_peer_pointers:
  assumes "ginv env T g"
  shows "distinct (map snd (peers g))"
proof -
  have inj: "x = y" if "x \<in> set (peers g)" "y \<in> set (peers g)" "snd x = snd y" for x y
  proof -
    have "map_of (peers g) (fst z) = Some (snd z)" if "z \<in> set (peers g)" for z
      using that ginvD(5) [OF assms] by (simp add: map_of_is_SomeI)
    with that ginvD(6) [OF assms] show ?thesis by (metis prod_eqI)
  qed
  have "distinct (peers g)" using ginvD(5) [OF assms] by (simp add: distinct_map)
  with inj show ?thesis by (auto simp: distinct_map inj_on_def)
qed

lemma create_topic_spec:
  assumes "ginv env T g" and "map_of (topics g) th = None"
  shows "wp b (create_topic th po g) (\<lambda>g'. ginv env T g' \<and> map_of (topics g') th \<noteq> None \<and> heap g' = heap g
    \<and> config g' = config g \<and> t_publish_only (topic_at g' th) = po)"
proof -
  let ?h = "replicate (history_length (config g)) [] :: MessageId History"
  let ?t = "\<lparr>t_publish_only = po, t_receive_channel = [], t_history = ?h,
     t_backoff = TopicBackoff_new (nat (prune_backoff (config g))) (nat (heartbeat_interval (config g))) (backoff_slack (config g)),
     t_peers = filter (\<lambda>pp. th \<in> set (p_topics (peer_at g pp))) (map snd (peers g)), t_mesh_peers = [], t_last_publish = 0\<rparr>"
  have h: "History_new (history_length (config g)) = Some ?h" using ginvD(2) [OF assms(1)] by (simp add: History_new_def)
  have "pp < length (heap g)" if "(q, pp) \<in> set (peers g)" for q pp
    using that ginvD(5,6) [OF assms(1)] by (metis map_of_eq_Some_iff)
  then have "topic_wf (deliverable env (config g)) (heap g) th ?t"
    using distinct_peer_pointers [OF assms(1)] ginvD(2) [OF assms(1)]
    by (auto simp: topic_wf_def tb_inv_new peer_at_def)
  then have "ginv env T (g\<lparr>topics := topics g @ [(th, ?t)]\<rparr>)"
    using assms by (auto simp: ginv_def map_add_def map_of_eq_None_iff split: option.splits if_splits)
  moreover have "map_of (topics g @ [(th, ?t)]) th = Some ?t" using assms(2) by (simp add: map_add_def)
  ultimately show ?thesis by (simp add: create_topic_def h topic_at_def)
qed

lemma ginv_subscribe_batches: "ginv env T g \<Longrightarrow> ginv env T (fold (\<lambda>pp. upd_batch pp (f pp)) pps g)"
  by (induction pps arbitrary: g) (simp_all add: ginv_upd_batch)

lemma same_subscribe_batches: "same g (fold (\<lambda>pp. upd_batch pp (f pp)) pps g)"
  by (rule fold_same) (rule same_upd_batch)

lemma upgrade_topic_spec:
  assumes "env_ok env" and "ginv env T g" and "map_of (topics g) th \<noteq> None"
  shows "wp b (upgrade_topic env th now g) (\<lambda>g'. ginv env T g' \<and> map_of (topics g') th \<noteq> None \<and> keeps g g')"
proof -
  define g1 where "g1 = upd_topic th (\<lambda>t. t\<lparr>t_publish_only := False\<rparr>) g"
  define g2 where "g2 = fold (\<lambda>pp. upd_batch pp (\<lambda>b. b\<lparr>subscriptions := rpc_subscribe (subscriptions b) th True\<rparr>))
                 (t_peers (topic_at g1 th)) g1"
  define g3 where "g3 = upd_topic th (\<lambda>t. t\<lparr>t_mesh_peers := []\<rparr>) g2"
  let ?fanout = "t_mesh_peers (topic_at g2 th)"
  have g1: "ginv env T g1" unfolding g1_def by (rule ginv_upd_topic [OF assms(2)]) (auto simp: topic_wf_def)
  have g2: "ginv env T g2" unfolding g2_def using g1 by (rule ginv_subscribe_batches)
  have s12: "same g1 g2" unfolding g2_def by (rule same_subscribe_batches)
  have g3: "ginv env T g3" unfolding g3_def by (rule ginv_upd_topic [OF g2]) (auto simp: topic_wf_def)
  have k: "keeps g g3" unfolding g3_def
    using keeps_trans [OF keeps_trans [OF keepsI(4) keepsI(2) [OF s12 [unfolded g1_def]]] keepsI(4)] .
  have th: "map_of (topics g2) th \<noteq> None" "map_of (topics g3) th \<noteq> None"
    using k assms(3) unfolding keeps_def g3_def by (metis map_of_eq_None_iff list.set_map upd_frame(21))+
  have wf2: "topic_wf (deliverable env (config g2)) (heap g2) th (topic_at g2 th)" by (rule ginv_topic [OF g2 th(1)])
  have fan: "pp \<in> set (t_peers (topic_at g3 th)) \<and> pp < length (heap g3) \<and> isGossipsub (heap g3 ! pp)" if "pp \<in> set ?fanout" for pp
    using that wf2 th(1) by (auto simp: topic_wf_def g3_def topic_at_upd)
  let ?n = "mesh_n_for_topic (config g) th"
  let ?body = "\<lambda>pp g. if length (t_mesh_peers (topic_at g th)) \<ge> ?n then Returns g
      else if \<not> graft_ok th g pp then Returns g else graft_peer th now pp g"
  have loop: "wp b (fold_cxx ?body ?fanout g3) (\<lambda>g'. ginv env T g' \<and> mesh_step th g3 g')"
  proof (rule wp_fold)
    fix pp g'
    assume pp: "pp \<in> set ?fanout" and g': "ginv env T g' \<and> mesh_step th g3 g'"
    have th': "map_of (topics g') th \<noteq> None" using mesh_stepD(4) [of th g3 g'] g' th(2) by simp
    have sub: "pp \<in> set (t_peers (topic_at g' th))" "isGossipsub (heap g' ! pp)"
      using fan [OF pp] mesh_stepD(5) [of th g3 g'] core_eqD(5) [OF mesh_step_core [of th g3 g' pp]] g' by auto
    show "wp b (?body pp g') (\<lambda>g'. ginv env T g' \<and> mesh_step th g3 g')"
      using g' graft_peer_spec [OF conjunct1 [OF g'] th' sub, of now] mesh_step_trans [OF conjunct2 [OF g']]
      by (auto simp: graft_ok_def)
  qed (simp add: g3)
  have rest: "wp b (let more = saturating_sub ?n (length (t_mesh_peers (topic_at g4 th)))
      in if more = 0 then Returns g4
         else (let (chosen, g5) = choose_peers env (t_peers (topic_at g4 th)) (graft_ok th g4) (\<lambda>_. more) g4
               in fold_cxx (graft_peer th now) chosen g5))
      (\<lambda>g'. ginv env T g' \<and> map_of (topics g') th \<noteq> None \<and> keeps g g')"
    if g4: "ginv env T g4 \<and> mesh_step th g3 g4" for g4
  proof -
    have th4: "map_of (topics g4) th \<noteq> None" using mesh_stepD(4) [of th g3 g4] g4 th(2) by simp
    have k4: "keeps g g4" using keeps_trans [OF k keepsI(3)] g4 by blast
    from choose_graft_spec [OF assms(1) conjunct1 [OF g4] th4, of "graft_ok th g4" "\<lambda>_. saturating_sub ?n (length (t_mesh_peers (topic_at g4 th)))" now]
    obtain g5 where g5: "(let (chosen, g5) = choose_peers env (t_peers (topic_at g4 th)) (graft_ok th g4)
          (\<lambda>_. saturating_sub ?n (length (t_mesh_peers (topic_at g4 th)))) g4
        in fold_cxx (graft_peer th now) chosen g5) = Returns g5" "ginv env T g5" "mesh_step th g4 g5"
      by (auto simp: graft_ok_def)
    have "map_of (topics g5) th \<noteq> None" using mesh_stepD(4) [OF g5(3)] th4 by simp
    with g5 g4 th4 k4 show ?thesis unfolding Let_def using keeps_trans [OF k4 keepsI(3) [OF g5(3)]] by simp
  qed
  show ?thesis
    unfolding upgrade_topic_def Let_def g1_def [symmetric] g2_def [symmetric] g3_def [symmetric]
    by (rule wp_bindI [OF loop]) (rule rest [unfolded Let_def])
qed


lemma getOrCreateTopic_spec:
  assumes "env_ok env" and "ginv env T g"
  shows "wp b (getOrCreateTopic env th po now g) (\<lambda>g'. ginv env T g' \<and> map_of (topics g') th \<noteq> None \<and> length (heap g') = length (heap g)
    \<and> config g' = config g)"
proof -
  let ?Q = "\<lambda>g'. ginv env T g' \<and> map_of (topics g') th \<noteq> None \<and> length (heap g') = length (heap g) \<and> config g' = config g"
  have "wp b (if map_of (topics g) th = None then create_topic th po g else Returns g) ?Q"
  proof (cases "map_of (topics g) th = None")
    case True
    show ?thesis using wp_mono [OF create_topic_spec [OF assms(2) True, of b po], of ?Q] True by auto
  qed (auto simp: assms(2))
  then show ?thesis unfolding getOrCreateTopic_def
  proof (rule wp_bindI)
    fix g1
    assume g1: "?Q g1"
    have "wp b (upgrade_topic env th now g1) ?Q"
      using g1 by (intro wp_mono [OF upgrade_topic_spec [OF assms(1)]]) (auto simp: keeps_def)
    with g1 show "wp b (if \<not> po \<and> t_publish_only (topic_at g1 th) then upgrade_topic env th now g1 else Returns g1) ?Q"
      by simp
  qed
qed

text \<open>Publishing needs a signature when the configuration asks for signed messages.\<close>

definition can_sign :: "Env \<Rightarrow> Gossip \<Rightarrow> bool" where
  "can_sign env g \<longleftrightarrow> message_authenticity (config g) = Authenticity_Anonymous \<or> (\<forall>bs. sign env bs \<noteq> None)"

lemma publish_topic_spec:
  assumes "env_ok env" and "ginv env now g" and "map_of (topics g) th \<noteq> None" and "\<not> b \<Longrightarrow> can_sign env g"
  shows "wp b (publish_topic env th data now g) (\<lambda>g'. ginv env now g' \<and> keeps g g')"
proof -
  have r: "ginv env now (broadcast env th None mid m now (g1\<lparr>duplicate_cache := snd (dc_insert (duplicate_cache g1) mid now now)\<rparr>))
      \<and> keeps g (broadcast env th None mid m now (g1\<lparr>duplicate_cache := snd (dc_insert (duplicate_cache g1) mid now now)\<rparr>))"
    if h: "ginv env now g1" "topics g1 = topics g" "keeps g g1" for g1 mid m
  proof -
    let ?g2 = "g1\<lparr>duplicate_cache := snd (dc_insert (duplicate_cache g1) mid now now)\<rparr>"
    have "keeps g ?g2" using h(3) by (simp add: keeps_def)
    then show ?thesis
      using broadcast_ginv [OF assms(1) ginv_dc_insert [OF h(1)], of mid th] h assms(3) keeps_trans by fastforce
  qed
  show ?thesis unfolding publish_topic_def Let_def
  proof (rule wp_bindI [where P = "\<lambda>(m, g1). ginv env now g1 \<and> topics g1 = topics g \<and> keeps g g1"])
    fix x :: "Message \<times> Gossip"
    assume x: "case x of (m, g1) \<Rightarrow> ginv env now g1 \<and> topics g1 = topics g \<and> keeps g g1"
    show "wp b (case x of (message, g1) \<Rightarrow> if dc_contains (duplicate_cache g1) (message_id_fn env message) then Returns g1
        else Returns (broadcast env th None (message_id_fn env message) message now
          (g1\<lparr>duplicate_cache := snd (dc_insert (duplicate_cache g1) (message_id_fn env message) now now)\<rparr>)))
        (\<lambda>g'. ginv env now g' \<and> keeps g g')"
      using x r by (cases x) simp
  qed (cases b, use assms(2,4) in \<open>auto simp: can_sign_def keeps_def not_None_eq [symmetric] simp del: not_None_eq
      split: MessageAuthenticity.splits option.splits\<close>)
qed

lemma publish_data_spec:
  assumes "env_ok env" and "ginv env now g" and "\<not> b \<Longrightarrow> can_sign env g"
  shows "wp b (publish_data env th data now g) (ginv env now)"
  unfolding publish_data_def
  by (rule wp_bindI [OF getOrCreateTopic_spec [OF assms(1,2)]])
    (use wp_mono [OF publish_topic_spec [OF assms(1)]] assms(3) in \<open>auto simp: can_sign_def\<close>)

lemma receiveMessage_spec:
  assumes "ginv env T g" and "receiveMessage th g = Some (m, g')"
  shows "ginv env T g'"
proof -
  obtain ms where c: "t_receive_channel (topic_at g th) = m # ms" and g': "g' = upd_topic th (\<lambda>t. t\<lparr>t_receive_channel := ms\<rparr>) g"
    using assms(2) by (auto simp: receiveMessage_def split: list.splits)
  show ?thesis unfolding g' using c by (intro ginv_upd_topic [OF assms(1)]) (auto simp: topic_wf_def topic_at_def)
qed

section \<open>Inbound messages\<close>

text \<open>Adding a topic to a peer and the peer to the topic.\<close>

definition add_subscription :: "TopicHash \<Rightarrow> PeerPtr \<Rightarrow> Gossip \<Rightarrow> Gossip" where
  "add_subscription th pp g =
     upd_topic th (\<lambda>t. t\<lparr>t_peers := set_insert pp (t_peers t)\<rparr>)
       (upd_peer pp (\<lambda>p. p\<lparr>p_topics := set_insert th (p_topics p)\<rparr>) g)"

lemma ginv_topic_of_peer: "ginv env T g \<Longrightarrow> ginv env T (upd_peer pp (\<lambda>p. p\<lparr>p_topics := set_insert th (p_topics p)\<rparr>) g)"
  by (erule ginv_upd_peer) (auto simp: peer_wf_def isGossipsub_def)

lemma add_subscription_spec:
  assumes "ginv env T g" and "pp < length (heap g)"
  shows "ginv env T (add_subscription th pp g)" and "keeps g (add_subscription th pp g)"
    and "map_of (topics g) th \<noteq> None \<Longrightarrow> pp \<in> set (t_peers (topic_at (add_subscription th pp g) th))"
    and "isGossipsub (heap (add_subscription th pp g) ! pp) = isGossipsub (heap g ! pp)"
proof -
  let ?g1 = "upd_peer pp (\<lambda>p. p\<lparr>p_topics := set_insert th (p_topics p)\<rparr>) g"
  have "ginv env T ?g1" by (rule ginv_topic_of_peer [OF assms(1)])
  then show "ginv env T (add_subscription th pp g)" unfolding add_subscription_def
    by (rule ginv_upd_topic) (use assms(2) in \<open>auto simp: topic_wf_def upd_peer_def\<close>)
  show "keeps g (add_subscription th pp g)" unfolding add_subscription_def
    by (rule keeps_trans [OF keepsI(5) keepsI(4)])
  show "pp \<in> set (t_peers (topic_at (add_subscription th pp g) th))" if "map_of (topics g) th \<noteq> None"
    using that by (simp add: add_subscription_def topic_at_upd)
  show "isGossipsub (heap (add_subscription th pp g) ! pp) = isGossipsub (heap g ! pp)"
    using assms(2) by (simp add: add_subscription_def upd_peer_def isGossipsub_def)
qed


text \<open>Removing them: first from the mesh and the topic, then from the peer.\<close>

lemma ginv_remove_topic:
  assumes "ginv env T g" and "\<And>t. map_of (topics g) th = Some t \<Longrightarrow> pp \<notin> set (t_peers t)"
  shows "ginv env T (upd_peer pp (\<lambda>p. p\<lparr>p_topics := set_erase th (p_topics p)\<rparr>) g)"
proof (cases "pp < length (heap g)")
  case True
  let ?h = "(heap g)[pp := (heap g ! pp)\<lparr>p_topics := set_erase th (p_topics (heap g ! pp))\<rparr>]"
  have "topic_wf (deliverable env (config g)) ?h th' t" if "map_of (topics g) th' = Some t" for th' t
  proof -
    have "pp \<notin> set (t_peers t)" if "th' = th" using assms(2) that \<open>map_of (topics g) th' = Some t\<close> by simp
    then show ?thesis using ginvD(4) [OF assms(1) that] True
      by (auto simp: topic_wf_def nth_list_update isGossipsub_def)
  qed
  moreover have "p \<in> set ?h \<Longrightarrow> peer_wf T p" for p
    using True ginvD(7) [OF assms(1)] set_update_subset_insert [of "heap g" pp]
    by (fastforce simp: peer_wf_def)
  ultimately show ?thesis using assms(1) True by (auto simp: ginv_def upd_peer_def nth_list_update)
qed (simp add: upd_peer_def list_update_beyond assms(1))

lemma upd_peer_upd_topic: "upd_peer pp f (upd_topic th tf g) = upd_topic th tf (upd_peer pp f g)"
  by (simp add: upd_peer_def upd_topic_def)

text \<open>
  \<open>remove_peer_from_mesh\<close> erases first, so it suffices that the invariant holds after the
  erasure: between the two updates of an unsubscription the mesh may still hold the peer.
\<close>

lemma remove_after_erase:
  assumes "ginv env T (mesh_erase th pp g)"
  shows "wp b (remove_peer_from_mesh th pp bo always g) (\<lambda>g'. ginv env T g' \<and> keeps g g')"
proof (cases "map_of (topics g) th")
  case None
  then have "mesh_erase th pp g = g" by (simp add: mesh_erase_def upd_topic_def map_entry_none)
  then show ?thesis using None assms by (simp add: remove_peer_from_mesh_def keeps_def)
next
  case (Some t)
  let ?Q = "\<lambda>g'. ginv env T g' \<and> keeps g g'"
  let ?q = "p_peer_id (peer_at g pp)"
  have k: "keeps g (mesh_erase th pp g)" by (simp add: keeps_def mesh_erase_def)
  have "wp b (upd_score_cxx (score_prune ?q th) (mesh_erase th pp g)) ?Q"
    by (rule wp_mono [OF wp_score_ops(1) [OF assms]]) (use k in \<open>auto simp: keeps_def\<close>)
  with k assms have "wp b (if pp \<in> set (t_mesh_peers t) then upd_score_cxx (score_prune ?q th) (mesh_erase th pp g)
      else Returns (mesh_erase th pp g)) ?Q" by simp
  then show ?thesis unfolding remove_peer_from_mesh_def Some Let_def option.case
    by (rule wp_bindI) (auto simp: ginv_update_backoff keeps_update_backoff)
qed

lemma remove_peer_from_mesh_spec:
  "ginv env T g \<Longrightarrow> wp b (remove_peer_from_mesh th pp bo always g) (\<lambda>g'. ginv env T g' \<and> keeps g g')"
  by (rule remove_after_erase) (rule ginv_mesh_erase)

lemma unsubscribe_spec:
  assumes "ginv env T g"
  shows "wp b (remove_peer_from_mesh th pp bo always (upd_topic th (\<lambda>t. t\<lparr>t_peers := set_erase pp (t_peers t)\<rparr>)
    (upd_peer pp (\<lambda>p. p\<lparr>p_topics := set_erase th (p_topics p)\<rparr>) g))) (\<lambda>g'. ginv env T g' \<and> keeps g g')"
proof -
  let ?g1 = "upd_peer pp (\<lambda>p. p\<lparr>p_topics := set_erase th (p_topics p)\<rparr>) g"
  let ?g2 = "upd_topic th (\<lambda>t. t\<lparr>t_peers := set_erase pp (t_peers t)\<rparr>) ?g1"
  let ?e = "upd_topic th (\<lambda>t. t\<lparr>t_peers := set_erase pp (t_peers t), t_mesh_peers := set_erase pp (t_mesh_peers t)\<rparr>) g"
  have "ginv env T ?e" by (rule ginv_upd_topic [OF assms]) (auto simp: topic_wf_def)
  then have "ginv env T (upd_peer pp (\<lambda>p. p\<lparr>p_topics := set_erase th (p_topics p)\<rparr>) ?e)"
    by (rule ginv_remove_topic) (auto simp: upd_topic_def map_of_map_entry split: option.splits)
  also have "upd_peer pp (\<lambda>p. p\<lparr>p_topics := set_erase th (p_topics p)\<rparr>) ?e = mesh_erase th pp ?g2"
    by (simp add: mesh_erase_def upd_peer_upd_topic) (simp add: upd_topic_def upd_peer_def map_entry_twice)
  finally have "ginv env T (mesh_erase th pp ?g2)" .
  moreover have "keeps g ?g2" by (simp add: keeps_def)
  ultimately show ?thesis by (intro wp_mono [OF remove_after_erase]) (auto intro: keeps_trans)
qed


lemma on_subscription_spec:
  assumes "ginv env T g" and "pp < length (heap g)"
  shows "wp b (on_subscription pp now sub g) (\<lambda>g'. ginv env T g' \<and> keeps g g')"
proof -
  let ?th = "so_topic_id sub"
  let ?g2 = "add_subscription ?th pp g"
  note s = add_subscription_spec [OF assms, of ?th]
  have graft: "wp b (graft_peer ?th now pp ?g2) (\<lambda>g'. ginv env T g' \<and> keeps g g')"
    if "map_of (topics g) ?th \<noteq> None" "isGossipsub (peer_at ?g2 pp)" "pp \<notin> set (t_mesh_peers (topic_at ?g2 ?th))"
  proof -
    have "map_of (topics ?g2) ?th \<noteq> None" using that(1) s(2) by (metis keeps_def map_of_eq_None_iff list.set_map)
    from graft_peer_spec [OF s(1) this s(3) [OF that(1)], of now] that(2,3)
    show ?thesis using keeps_trans [OF s(2) keepsI(3)] by (auto simp: peer_at_def)
  qed
  have "keeps g (upd_peer pp f g)" for f by (rule keepsI(5))
  then show ?thesis
    using unsubscribe_spec [OF assms(1), of b ?th pp None False] s(1,2) graft ginv_topic_of_peer [OF assms(1)]
    unfolding on_subscription_def Let_def add_subscription_def [symmetric] by simp
qed

lemma accept_graft_spec:
  assumes "accept_graft pp th g = (a, g')"
  shows "\<exists>s. g' = g\<lparr>scores := s\<rparr> \<and> (score_ok (scores g) \<longrightarrow> score_ok s)"
proof (cases "get_backoff_time g th pp > 0")
  case True
  then show ?thesis using assms by (auto simp: accept_graft_def Let_def upd_score_def intro!: addPenalty_ok split: if_splits)
next
  case False
  then have "g' = g" using assms by (auto simp: accept_graft_def Let_def split: if_splits)
  then show ?thesis by (intro exI [of _ "scores g"]) simp
qed

lemma on_graft_spec:
  assumes "ginv env T g" and "pp < length (heap g)"
  shows "wp b (on_graft pp now th g) (\<lambda>(go, g'). ginv env T g' \<and> keeps g g')"
proof -
  let ?g2 = "add_subscription th pp g"
  note s = add_subscription_spec [OF assms, of th]
  let ?Q = "\<lambda>(go::bool, g'). ginv env T g' \<and> keeps g g'"
  have rest: "wp b (let (accept, g3) = accept_graft pp th ?g2
      in if accept then Returns (True, upd_score (score_graft (p_peer_id (peer_at g3 pp)) th now) (mesh_emplace th pp g3))
         else bind_cxx (make_prune th pp g3) (\<lambda>g4. Returns (True, g4))) ?Q"
    if h: "map_of (topics g) th \<noteq> None" "isGossipsub (heap g ! pp)"
  proof -
    obtain a g3 where a: "accept_graft pp th ?g2 = (a, g3)" by fastforce
    from accept_graft_spec [OF this] s(1) obtain sc where g3: "g3 = ?g2\<lparr>scores := sc\<rparr>" "ginv env T g3"
      by (auto dest: ginvD(1) intro: ginv_score)
    have k3: "keeps g g3" using s(2) g3(1) by (simp add: keeps_def)
    have "topic_at g3 th = topic_at ?g2 th" "heap g3 = heap ?g2" by (simp_all add: g3(1) topic_at_def)
    then have "ginv env T (mesh_emplace th pp g3)" using s(3) [OF h(1)] s(4) h(2) by (intro ginv_mesh_emplace g3) auto
    then have acc: "ginv env T (upd_score (score_graft q th now) (mesh_emplace th pp g3))" for q
      by (intro ginv_upd_score score_graft_ok)
    have k: "keeps g (upd_score f (mesh_emplace th pp g3))" for f
      using k3 by (simp add: keeps_def upd_score_def mesh_emplace_def)
    have "wp b (make_prune th pp g3) (\<lambda>g4. ginv env T g4 \<and> keeps g g4)"
      using keeps_trans [OF k3 keepsI(3)] by (intro wp_mono [OF make_prune_spec [OF g3(2)]]) auto
    then show ?thesis using acc k by (simp add: a wp_bind)
  qed
  show ?thesis
    using rest s(1,2) assms(1) ginv_topic_of_peer [OF assms(1)] keepsI(1,5)
    unfolding on_graft_def Let_def add_subscription_def [symmetric] peer_at_def by simp
qed

lemma on_prune_spec:
  "ginv env T g \<Longrightarrow> wp b (on_prune pp pb g) (\<lambda>(go, g'). ginv env T g' \<and> keeps g g')"
  using remove_peer_from_mesh_spec [of env T g b] by (auto simp: on_prune_def wp_bind keepsI(1))

lemma validate_publish_deliverable:
  assumes "validate_publish env (validation_mode c) pb = Some m"
  shows "deliverable env c (m\<lparr>m_data := field (pb_data pb), m_topic := pb_topic pb, m_received_from := r\<rparr>)"
proof (cases "validation_mode c")
  case Validate_Strict
  then obtain author key where "PeerId_fromBytes (field (pb_from pb)) = Inr author" "length (field (pb_seqno pb)) = 8"
      "PeerId_publicKey (rsa_bits env) (parse_key env) author = Some key"
      "verify env (getSignable env pb) (field (pb_signature pb)) key = Some True"
      "m_from m = Some (toVector author)" "m_seqno m = Some (load_big_u64 (field (pb_seqno pb)))"
    using assms by (auto simp: validate_publish_def Let_def split: sum.splits option.splits if_splits)
  then show ?thesis using Validate_Strict by (auto simp: deliverable_def authentic_def)
qed (use assms in \<open>auto simp: validate_publish_def deliverable_def Let_def split: if_splits\<close>)

lemma on_publish_spec:
  assumes "env_ok env" and "ginv env now g"
  shows "wp b (on_publish env pp now pb g) (\<lambda>g'. ginv env now g' \<and> keeps g g')"
proof (cases "validate_publish env (validation_mode (config g)) pb")
  case (Some m)
  let ?q = "p_peer_id (peer_at g pp)"
  let ?m = "m\<lparr>m_data := field (pb_data pb), m_topic := pb_topic pb, m_received_from := Some ?q\<rparr>"
  let ?th = "m_topic ?m" and ?id = "message_id_fn env ?m"
  obtain ins cache where d: "dc_insert (duplicate_cache g) ?id now now = (ins, cache)" by fastforce
  let ?g1 = "g\<lparr>duplicate_cache := cache\<rparr>"
  let ?g3 = "upd_topic ?th (\<lambda>t. t\<lparr>t_receive_channel := t_receive_channel t @ [?m]\<rparr>)
    (upd_score (validateMessage ?q ?id ?th now) ?g1)"
  let ?Q = "\<lambda>g'. ginv env now g' \<and> keeps g g'"
  have g1: "ginv env now ?g1" using ginv_dc_insert [OF assms(2), of ?id] by (simp add: d)
  have ok: "deliverable env (config g) ?m" by (rule validate_publish_deliverable [OF Some])
  have dup: "wp b (upd_score_cxx (duplicateMessage ?q ?id ?th now) ?g1) ?Q"
    by (rule wp_mono [OF wp_score_ops(2) [OF g1]]) (auto simp: keeps_def)
  have "ginv env now ?g3"
    by (intro ginv_upd_topic ginv_upd_score g1) (use ok in \<open>auto simp: topic_wf_def upd_score_def score_ops_ok\<close>)
  note del = wp_score_ops(3) [OF this, of b ?q ?id ?th now]
  have new: "wp b (bind_cxx (upd_score_cxx (deliver_message ?q ?id ?th now) ?g3)
      (\<lambda>g4. Returns (broadcast env ?th (Some ?q) ?id ?m now g4))) ?Q" if "map_of (topics g) ?th \<noteq> None"
  proof (rule wp_bindI [OF del])
    fix g4
    assume g4: "ginv env now g4 \<and> (\<exists>s. g4 = ?g3\<lparr>scores := s\<rparr>)"
    then have k: "keeps g g4" by (auto simp: keeps_def upd_score_def)
    then have "map_of (topics g4) ?th \<noteq> None" using that by (metis keeps_def map_of_eq_None_iff list.set_map)
    with broadcast_ginv [OF assms(1)] g4 keeps_trans [OF k]
    show "wp b (Returns (broadcast env ?th (Some ?q) ?id ?m now g4)) ?Q" by auto
  qed
  show ?thesis using dup new assms(2) keepsI(1) by (simp add: on_publish_def Some Let_def d)
qed (simp add: on_publish_def assms(2) keepsI(1))

end
