(* ===== verification/Gossip_Steps.thy ===== *)
theory Gossip_Steps
  imports Gossip_Inv
begin

text \<open>
  Every handler of the gossip protocol keeps the invariant. The handlers of one message are
  composed as \<open>onMessage\<close> composes them, those of the connections and the timers follow, and
  the protocol as a whole is a step relation whose reachable states satisfy the invariant.
\<close>

section \<open>Requests for messages\<close>

lemma promises_wf_add:
  assumes "promises_wf n gp" and "pp < n"
  shows "promises_wf n (gp_add gp m pp now)"
proof -
  let ?inner = "case map_of (gp_map gp) m of None \<Rightarrow> [] | Some i \<Rightarrow> i"
  have "\<forall>(q, t) \<in> set ?inner. q < n"
    using assms(1) by (cases "map_of (gp_map gp) m") (auto simp: promises_wf_def dest!: map_of_SomeD)
  then have "\<forall>(q, t) \<in> set (emplace pp (now + gp_ttl gp) ?inner). q < n"
    using assms(2) by (auto simp: emplace_def split: option.splits)
  then show ?thesis
    using assms(1) set_update_subset [of m "emplace pp (now + gp_ttl gp) ?inner" "gp_map gp"]
    by (fastforce simp: promises_wf_def gp_add_def Let_def)
qed

lemma iwant_promise_ginv:
  assumes "ginv env T g" and "pp < length (heap g)"
  shows "ginv env T (upd_peer pp (\<lambda>p. p\<lparr>p_batch := map_option f (p_batch p)\<rparr>)
    (g\<lparr>gossip_promises := gp_add (gossip_promises g) m pp now\<rparr>))"
  by (rule ginv_upd_peer [OF ginv_promises [OF assms(1) promises_wf_add]])
    (use assms in \<open>auto simp: peer_wf_def isGossipsub_def dest: ginvD(8)\<close>)

lemma iwant_promises_spec:
  fixes now :: time
  assumes "ginv env T g" and "pp < length (heap g)"
  defines "f \<equiv> \<lambda>message_id g. upd_peer pp (\<lambda>p. p\<lparr>p_batch := map_option (\<lambda>b. b\<lparr>iwant := set_insert message_id (iwant b)\<rparr>) (p_batch p)\<rparr>)
      (g\<lparr>gossip_promises := gp_add (gossip_promises g) message_id pp now\<rparr>)"
  shows "ginv env T (fold f ids g) \<and> keeps g (fold f ids g)"
  using assms(1,2)
proof (induction ids arbitrary: g)
  case (Cons m ids)
  have "keeps g (f m g)" by (simp add: f_def keeps_def)
  with Cons iwant_promise_ginv [OF Cons.prems] show ?case
    using keeps_trans [of g "f m g"] by (simp add: f_def keeps_def)
qed (simp add: keepsI)

lemma handle_ihave_spec:
  assumes "ginv env T g" and "pp < length (heap g)"
  shows "ginv env T (snd (handle_ihave env pp now hs g)) \<and> keeps g (snd (handle_ihave env pp now hs g))"
proof -
  let ?g1 = "g\<lparr>count_received_ihave := AList.update pp (count_of (count_received_ihave g) pp + 1) (count_received_ihave g)\<rparr>"
  let ?g2 = "?g1\<lparr>count_sent_iwant := emplace pp 0 (count_sent_iwant ?g1)\<rparr>"
  let ?want = "ihave_wanted ?g1 pp hs"
  let ?sent = "count_of (count_sent_iwant ?g2) pp"
  let ?count = "min (length ?want) (saturating_sub (max_ihave_length (config g)) ?sent)"
  let ?g3 = "?g2\<lparr>random := random ?g2 + 1, count_sent_iwant := AList.update pp (?sent + ?count) (count_sent_iwant ?g2)\<rparr>"
  have cap2: "n \<le> max_ihave_length (config g)" if "map_of (count_sent_iwant ?g2) q = Some n" for q n
    using that ginvD(9) [OF assms(1)] by (auto simp: emplace_props(1) split: if_splits)
  then have "?sent \<le> max_ihave_length (config g)" by (auto simp: count_of_def split: option.splits)
  then have "?sent + ?count \<le> max_ihave_length (config g)" by simp
  then have "n \<le> max_ihave_length (config g)" if "map_of (count_sent_iwant ?g3) q = Some n" for q n
    using that cap2 by (auto simp: update_conv' split: if_splits)
  with assms(1) have g3: "ginv env T ?g3" by (simp add: ginv_def)
  have k1: "keeps g (g\<lparr>count_received_ihave := c\<rparr>)" for c by (simp add: keeps_def)
  have k3: "keeps g (getBatch pp ?g3)"
    by (rule keeps_trans [OF _ keepsI(2) [OF same_getBatch]]) (simp add: keeps_def)
  have "pp < length (heap (getBatch pp ?g3))" using k3 assms(2) by (simp add: keeps_def)
  note f = iwant_promises_spec [OF ginv_getBatch [OF g3] this, of now]
  show ?thesis
    using f keeps_trans [OF k3] assms(1) k1
    by (simp add: handle_ihave_def Let_def keepsI(1) del: saturating_sub_eq)
qed

lemma iwant_one_spec:
  assumes "ginv env T g"
  shows "ginv env T (iwant_one pp m g) \<and> keeps g (iwant_one pp m g)"
proof -
  have "ginv env T (upd_batch pp f (g\<lparr>message_cache := c\<rparr>)) \<and> keeps g (upd_batch pp f (g\<lparr>message_cache := c\<rparr>))" for f c
    using assms by (simp add: ginv_upd_batch keeps_def)
  then show ?thesis using assms by (auto simp: iwant_one_def Let_def keeps_def split: option.splits)
qed

lemma on_iwant_spec:
  assumes "ginv env T g"
  shows "wp b (on_iwant pp ids g) (\<lambda>(go, g'). ginv env T g' \<and> keeps g g')"
proof -
  have "ginv env T (fold (iwant_one pp) ids g) \<and> keeps g (fold (iwant_one pp) ids g)"
    using assms
  proof (induction ids arbitrary: g)
    case (Cons m ids)
    from iwant_one_spec [OF Cons.prems, of pp m] Cons.IH [of "iwant_one pp m g"] show ?case
      using keeps_trans by fastforce
  qed (simp add: keepsI)
  with assms show ?thesis by (simp add: on_iwant_def keepsI)
qed

lemma idontwant_one_spec:
  assumes "ginv env T g" and "pp < length (heap g)" and "T \<le> now"
  shows "wp b (idontwant_one pp now m g) (\<lambda>g'. ginv env now g' \<and> keeps g g')"
proof -
  let ?c = "p_dont_send (heap g ! pp)"
  have w: "peer_wf T (heap g ! pp)" using assms by (simp add: ginvD(7))
  then obtain c' where c': "iw_insert ?c m now = Returns c'" "tc_upto c' now" "tc_size c' \<le> kCapacity"
    using iw_insert_ok [of ?c T now m] assms(3) by (auto simp: peer_wf_def)
  have "ginv env now (upd_peer pp (\<lambda>p. p\<lparr>p_dont_send := c'\<rparr>) g)"
    by (rule ginv_upd_peer [OF ginv_later [OF assms(1,3)]]) (use c' in \<open>auto simp: peer_wf_def isGossipsub_def\<close>)
  then show ?thesis by (simp add: idontwant_one_def peer_at_def c' keepsI)
qed

lemma on_idontwant_spec:
  assumes "ginv env now g" and "pp < length (heap g)"
  shows "wp b (on_idontwant pp now ids g) (\<lambda>(go, g'). ginv env now g' \<and> keeps g g')"
proof -
  have "wp b (fold_cxx (idontwant_one pp now) ids g) (\<lambda>g'. ginv env now g' \<and> keeps g g')"
  proof (rule wp_fold)
    fix m g'
    assume "ginv env now g' \<and> keeps g g'"
    then show "wp b (idontwant_one pp now m g') (\<lambda>g'. ginv env now g' \<and> keeps g g')"
      using assms(2) by (intro wp_mono [OF idontwant_one_spec]) (auto simp: keeps_def)
  qed (simp add: assms keepsI)
  with assms(1) show ?thesis by (simp add: on_idontwant_def wp_bind keepsI)
qed

text \<open>A whole message.\<close>

lemma loop_keeps:
  assumes "\<And>x g'. ginv env T g' \<Longrightarrow> keeps g g' \<Longrightarrow> wp b (f x g') (\<lambda>(go, g''). ginv env T g'' \<and> keeps g' g'')"
    and "ginv env T g1" and "keeps g g1"
  shows "wp b (loop_cxx f xs g1) (\<lambda>(go, g'). ginv env T g' \<and> keeps g g')"
proof -
  have "wp b (loop_cxx f xs g1) (\<lambda>r. ginv env T (snd r) \<and> keeps g (snd r))"
  proof (rule wp_loop [where I = "\<lambda>g'. ginv env T g' \<and> keeps g g'"])
    fix x g'
    assume "ginv env T g' \<and> keeps g g'"
    with assms(1) [of g' x] show "wp b (f x g') (\<lambda>r. ginv env T (snd r) \<and> keeps g (snd r))"
      by (auto elim!: wp_mono intro: keeps_trans)
  qed (use assms(2,3) in simp)
  then show ?thesis by (simp add: case_prod_unfold)
qed

lemma wp_and_then:
  assumes "wp b r (\<lambda>(go, g'). ginv env T g' \<and> keeps g g')"
    and "\<And>g'. ginv env T g' \<Longrightarrow> keeps g g' \<Longrightarrow> wp b (f g') (\<lambda>(go, g'). ginv env T g' \<and> keeps g g')"
  shows "wp b (and_then r f) (\<lambda>(go, g'). ginv env T g' \<and> keeps g g')"
  unfolding and_then_def by (rule wp_bindI [OF assms(1)]) (auto simp: assms(2))

lemma onMessage_spec:
  assumes "env_ok env" and "ginv env T g" and "pp < length (heap g)" and "T \<le> now"
  shows "wp b (onMessage env pp now encoded g) (\<lambda>(go, g'). ginv env now g' \<and> keeps g g')"
proof -
  have g: "ginv env now g" by (rule ginv_later [OF assms(2,4)])
  have v: "pp < length (heap g')" if "keeps g g'" for g' using that assms(3) by (simp add: keeps_def)
  let ?I = "\<lambda>g'. ginv env now g' \<and> keeps g g'"
  have 1: "wp b (fold_cxx (on_subscription pp now) xs g) ?I" for xs
    by (rule wp_fold) (auto intro!: wp_mono [OF on_subscription_spec] intro: keeps_trans v simp: g keepsI)
  have 2: "wp b (fold_cxx (on_publish env pp now) xs g1) ?I" if "?I g1" for xs g1
    using that by (intro wp_fold) (auto intro!: wp_mono [OF on_publish_spec [OF assms(1)]] intro: keeps_trans)
  show ?thesis
  proof (cases "parse_rpc env encoded")
    case (Some rpc)
    have "wp b (bind_cxx (fold_cxx (on_subscription pp now) (rpc_subscriptions rpc) g) (\<lambda>g1.
            bind_cxx (fold_cxx (on_publish env pp now) (rpc_publish rpc) g1) (\<lambda>g2.
            and_then (loop_cxx (on_graft pp now) (co_graft (rpc_control rpc)) g2) (\<lambda>g3.
            and_then (loop_cxx (on_prune pp) (co_prune (rpc_control rpc)) g3) (\<lambda>g4.
            and_then (Returns (handle_ihave env pp now (co_ihave (rpc_control rpc)) g4)) (\<lambda>g5.
            and_then (loop_cxx (on_iwant pp) (co_iwant (rpc_control rpc)) g5)
              (loop_cxx (on_idontwant pp now) (co_idontwant (rpc_control rpc)))))))))
        (\<lambda>(go, g'). ginv env now g' \<and> keeps g g')"
    proof (intro wp_bindI [OF 1] wp_bindI [OF 2] wp_and_then)
      fix g' assume "ginv env now g'" "keeps g g'"
      with handle_ihave_spec [OF this(1) v [OF this(2)]]
      show "wp b (Returns (handle_ihave env pp now (co_ihave (rpc_control rpc)) g')) (\<lambda>(go, g'). ginv env now g' \<and> keeps g g')"
        by (auto simp: case_prod_unfold intro: keeps_trans)
    qed (auto intro!: loop_keeps on_graft_spec on_prune_spec on_iwant_spec on_idontwant_spec intro: v)
    then show ?thesis using g keepsI by (simp add: onMessage_def Some)
  qed (use g keepsI in \<open>simp add: onMessage_def\<close>)
qed


section \<open>Connections\<close>

text \<open>Streams are opened with the protocols of the configuration only.\<close>

lemma updatePeerKind_spec:
  assumes "ginv env T g" and "map_of (protocol_versions (config g)) protocol \<noteq> None"
  shows "wp b (updatePeerKind pp protocol g) (\<lambda>g'. ginv env T g' \<and> keeps g g')"
proof -
  have "ginv env T (upd_peer pp (\<lambda>p. p\<lparr>p_peer_kind := Some k\<rparr>) g)" if "p_peer_kind (heap g ! pp) = None" for k
    by (rule ginv_upd_peer [OF assms(1)]) (use that in \<open>auto simp: peer_wf_def isGossipsub_def\<close>)
  then show ?thesis using assms by (auto simp: updatePeerKind_def peer_at_def keepsI)
qed

lemma peer_wf_new: "peer_wf T (Peer_new q out)"
proof -
  have "tc_upto IDontWantCache_new T" by (simp add: IDontWantCache_new_def tc_upto_new kTtl_def)
  moreover have "tc_size IDontWantCache_new \<le> kCapacity" by (simp add: IDontWantCache_new_def tc_size_def TimeCache_new_def)
  ultimately show ?thesis by (simp add: peer_wf_def Peer_new_def)
qed

lemma find_or_make_peer_spec:
  assumes "ginv env T g" and "find_or_make_peer q out g = (pp, g')"
  shows "ginv env T g'" and "config g' = config g" and "pp < length (heap g')" and "length (heap g) \<le> length (heap g')"
    and "topics g' = topics g"
proof -
  have "ginv env T g' \<and> config g' = config g \<and> pp < length (heap g') \<and> length (heap g) \<le> length (heap g') \<and> topics g' = topics g"
  proof (cases "map_of (peers g) q")
    case None
    let ?h = "heap g @ [Peer_new q out]"
    have "ginv env T (g\<lparr>heap := ?h\<rparr>)"
      by (rule ginv_heap [OF assms(1)]) (auto simp: nth_append peer_wf_new dest: ginvD(7) [OF assms(1)])
    then have "ginv env T (g\<lparr>heap := ?h, peers := peers g @ [(q, length (heap g))]\<rparr>)"
      using None by (auto simp: ginv_def map_of_append_new Peer_new_def map_of_eq_None_iff split: if_splits)
    then have "ginv env T (upd_score (score_connect q) (g\<lparr>heap := ?h, peers := peers g @ [(q, length (heap g))]\<rparr>))"
      by (rule ginv_upd_score) (rule score_connect_ok)
    moreover have "g' = upd_score (score_connect q) (g\<lparr>heap := ?h, peers := peers g @ [(q, length (heap g))]\<rparr>)" "pp = length (heap g)"
      using assms(2) None by (auto simp: find_or_make_peer_def)
    ultimately show ?thesis by (simp add: upd_score_def)
  next
    case (Some pp')
    then show ?thesis using assms ginvD(6) [OF assms(1) Some] by (simp add: find_or_make_peer_def)
  qed
  then show "ginv env T g'" "config g' = config g" "pp < length (heap g')" "length (heap g) \<le> length (heap g')" "topics g' = topics g"
    by simp_all
qed

lemma handle_stream_spec:
  assumes "ginv env T g" and "map_of (protocol_versions (config g)) protocol \<noteq> None"
  shows "wp b (handle_stream q stream protocol g) (ginv env T)"
proof -
  obtain pp g1 where f: "find_or_make_peer q False g = (pp, g1)" by fastforce
  note F = find_or_make_peer_spec [OF assms(1) f]
  have s: "ginv env T (upd_peer pp (\<lambda>p. p\<lparr>p_streams_in := set_insert stream (p_streams_in p)\<rparr>) g2)" if "ginv env T g2" for g2
    by (rule ginv_upd_peer [OF that]) (auto simp: peer_wf_def isGossipsub_def)
  have "map_of (protocol_versions (config g1)) protocol \<noteq> None" using F(2) assms(2) by simp
  then show ?thesis unfolding handle_stream_def f Let_def prod.case
    by (rule wp_bindI [OF updatePeerKind_spec [OF F(1)]]) (simp add: s)
qed

lemma read_loop_end_spec: "ginv env T g \<Longrightarrow> ginv env T (read_loop_end pp stream g)"
  unfolding read_loop_end_def by (erule ginv_upd_peer) (auto simp: peer_wf_def isGossipsub_def)

lemma on_peer_connected_spec:
  assumes "ginv env T g"
  shows "ginv env T (on_peer_connected q out g)"
proof -
  obtain pp g1 where f: "find_or_make_peer q out g = (pp, g1)" by fastforce
  note F = find_or_make_peer_spec [OF assms f]
  have "ginv env T (upd_peer pp (\<lambda>p. p\<lparr>p_is_connecting := True\<rparr>) g1)" if "p_stream_out (peer_at g1 pp) = None"
    by (rule ginv_upd_peer [OF F(1)]) (use that in \<open>auto simp: peer_wf_def isGossipsub_def peer_at_def\<close>)
  with F(1) show ?thesis by (simp add: on_peer_connected_def f Let_def)
qed

text \<open>
  The outbound stream is replaced while no writer runs: a new stream is only asked for when
  there is none, and the writer ends when it loses its stream.
\<close>

lemma out_stream_opened_spec:
  assumes "ginv env T g" and "p_is_connecting (peer_at g pp)" and "pp < length (heap g)"
    and "\<And>stream protocol. r = Some (stream, protocol) \<Longrightarrow> map_of (protocol_versions (config g)) protocol \<noteq> None"
  shows "wp b (out_stream_opened pp r g) (ginv env T)"
proof -
  let ?g1 = "upd_peer pp (\<lambda>p. p\<lparr>p_is_connecting := False\<rparr>) g"
  have g1: "ginv env T ?g1" by (rule ginv_upd_peer [OF assms(1)]) (auto simp: peer_wf_def isGossipsub_def)
  have nw: "\<not> p_writing (heap g ! pp)"
    using ginvD(7) [OF assms(1) nth_mem [OF assms(3)]] assms(2) by (auto simp: peer_wf_def peer_at_def)
  have nc: "\<not> p_is_connecting (heap ?g1 ! pp)" using assms(3) by (simp add: upd_peer_def)
  show ?thesis
  proof (cases r)
    case (Some sp)
    obtain stream protocol where sp: "sp = (stream, protocol)" by (cases sp)
    let ?g2 = "upd_peer pp (\<lambda>p. p\<lparr>p_stream_out := None\<rparr>) ?g1"
    have g2: "ginv env T ?g2"
      by (intro ginv_upd_peer [OF g1]) (use nw assms(3) in \<open>auto simp: peer_wf_def isGossipsub_def upd_peer_def\<close>)
    have g3: "ginv env T (upd_peer pp (\<lambda>p. p\<lparr>p_stream_out := Some stream\<rparr>) g')" if "ginv env T g'" "\<not> p_is_connecting (heap g' ! pp)" for g'
      by (rule ginv_upd_peer [OF that(1)]) (use that(2) in \<open>auto simp: peer_wf_def isGossipsub_def\<close>)
    have "wp b (updatePeerKind pp protocol ?g2) (\<lambda>g'. ginv env T g' \<and> \<not> p_is_connecting (heap g' ! pp))"
      using assms(4) [of stream protocol] Some sp updatePeerKind_spec [OF g2, of protocol b pp] assms(3)
      by (auto simp: updatePeerKind_def wp_def upd_peer_def split: cxx.splits)
    then show ?thesis unfolding out_stream_opened_def Let_def Some sp option.case prod.case
      by (rule wp_bindI) (simp add: g3 ginv_upd_batch)
  qed (simp add: out_stream_opened_def g1)
qed

lemma on_peer_disconnected_spec:
  assumes "ginv env T g"
  shows "ginv env T (on_peer_disconnected q now g)"
proof -
  let ?g1 = "upd_score (score_disconnect q now) g"
  have g1: "ginv env T ?g1" by (rule ginv_upd_score [OF assms]) (rule score_disconnect_ok)
  have g2: "ginv env T (fold (\<lambda>th. upd_topic th (\<lambda>t. t\<lparr>t_peers := set_erase pp (t_peers t), t_mesh_peers := set_erase pp (t_mesh_peers t)\<rparr>)) ths ?g1)"
    for pp ths
    by (rule fold_ginv [OF ginv_upd_topic g1]) (auto simp: topic_wf_def)
  have "ginv env T (g'\<lparr>peers := AList.delete q (peers g')\<rparr>)" if "ginv env T g'" for g'
    using that by (auto simp: ginv_def delete_conv' distinct_delete split: if_splits)
  with g1 g2 show ?thesis by (simp add: on_peer_disconnected_def Let_def split: option.split)
qed

lemma writer_turn_spec:
  assumes "ginv env T g" and "pp < length (heap g)" and "p_writing (peer_at g pp)"
  shows "wp b (writer_turn env pp ok g) (\<lambda>(frames, g'). ginv env T g')"
proof -
  have "peer_wf T (heap g ! pp)" using assms(1,2) by (simp add: ginvD(7))
  then have s: "p_stream_out (peer_at g pp) \<noteq> None" using assms(3) by (simp add: peer_wf_def peer_at_def)
  have u: "ginv env T (upd_peer pp f g)" if "\<And>p. peer_wf T p \<Longrightarrow> peer_wf T (f p)" "\<And>p. core (f p) = core p" "ginv env T g" for f g
    using that core_eqD(1,4,5) [OF that(2)] by (intro ginv_upd_peer) auto
  then show ?thesis using assms s
    by (auto simp: writer_turn_def Let_def peer_wf_def core_def split: option.split intro!: u)
qed


section \<open>Heartbeat\<close>

lemma expire_inner_subset: "expire_inner now h inner = (h', inner') \<Longrightarrow> set inner' \<subseteq> set inner"
  by (induction now h inner arbitrary: h' inner' rule: expire_inner.induct) (fastforce split: if_splits prod.splits)+

lemma expire_outer_subset:
  "expire_outer now h gm = (h', gm') \<Longrightarrow> (m, inner') \<in> set gm' \<Longrightarrow> \<exists>inner. (m, inner) \<in> set gm \<and> set inner' \<subseteq> set inner"
proof (induction now h gm arbitrary: h' gm' rule: expire_outer.induct)
  case (2 now h m0 inner0 rest)
  obtain h1 i1 where 1: "expire_inner now h inner0 = (h1, i1)" by fastforce
  obtain h2 r2 where 2: "expire_outer now h1 rest = (h2, r2)" by fastforce
  have "(m, inner') = (m0, i1) \<or> (m, inner') \<in> set r2" using "2.prems" 1 2 by (auto split: if_splits)
  then show ?case using "2.IH" [OF 1 [symmetric] refl 2] expire_inner_subset [OF 1] by fastforce
qed simp

lemma promises_wf_expire:
  assumes "promises_wf n gp"
  shows "promises_wf n (snd (gp_clearExpired gp now))"
proof -
  obtain h gm where r: "expire_outer now [] (gp_map gp) = (h, gm)" by fastforce
  have "pp < n" if i: "(m, inner') \<in> set gm" and e: "(pp, t) \<in> set inner'" for m inner' pp t
    using expire_outer_subset [OF r i] e assms by (fastforce simp: promises_wf_def)
  then show ?thesis by (auto simp: promises_wf_def gp_clearExpired_def r)
qed

lemma apply_iwant_penalties_spec:
  assumes "ginv env T g"
  shows "ginv env T (apply_iwant_penalties now g) \<and> (\<exists>gp s. apply_iwant_penalties now g = g\<lparr>gossip_promises := gp, scores := s\<rparr>)"
proof -
  obtain ex gp where e: "gp_clearExpired (gossip_promises g) now = (ex, gp)" by fastforce
  let ?f = "\<lambda>(pp, count) g. upd_score (addPenalty (p_peer_id (peer_at g pp)) count) g"
  have "ginv env T (g\<lparr>gossip_promises := gp\<rparr>)"
    using ginv_promises [OF assms promises_wf_expire [OF ginvD(8) [OF assms], of now]] by (simp add: e)
  then have "ginv env T (fold ?f ex (g\<lparr>gossip_promises := gp\<rparr>))"
    by (rule fold_ginv [rotated]) (auto intro!: ginv_upd_score addPenalty_ok)
  moreover have "\<exists>s. fold ?f ex g = g\<lparr>scores := s\<rparr>" for g
  proof (induction ex arbitrary: g)
    case Nil
    show ?case by (intro exI [of _ "scores g"]) simp
  next
    case (Cons x ex)
    obtain s where "?f x g = g\<lparr>scores := s\<rparr>" by (cases x) (auto simp: upd_score_def)
    with Cons.IH [of "g\<lparr>scores := s\<rparr>"] show ?case by auto
  qed
  ultimately show ?thesis by (fastforce simp: apply_iwant_penalties_def e)
qed

lemma hb_fanout_spec:
  assumes "env_ok env" and "ginv env T g" and "map_of (topics g) th \<noteq> None"
  shows "ginv env T (hb_fanout env th g) \<and> mesh_step th g (hb_fanout env th g)"
proof -
  let ?g1 = "upd_topic th (\<lambda>t. t\<lparr>t_mesh_peers := filter (\<lambda>pp. \<not> peer_below g pp publish_threshold) (t_mesh_peers t)\<rparr>) g"
  have g1: "ginv env T ?g1" by (rule ginv_upd_topic [OF assms(2)]) (auto simp: topic_wf_def)
  have m1: "mesh_step th g ?g1" by (rule mesh_step_upd_topic) simp
  have th1: "map_of (topics ?g1) th \<noteq> None" using mesh_stepD(4) [OF m1] assms(3) by simp
  let ?P = "\<lambda>pp. pp \<notin> set (t_mesh_peers (topic_at ?g1 th)) \<and> \<not> peer_below ?g1 pp publish_threshold"
  have "ginv env T (fold (mesh_emplace th) chosen g2) \<and> mesh_step th g (fold (mesh_emplace th) chosen g2)"
    if c: "choose_peers env (t_peers (topic_at ?g1 th)) ?P cnt ?g1 = (chosen, g2)" for cnt chosen g2
  proof -
    have "distinct (t_peers (topic_at ?g1 th))" using ginv_topic [OF g1 th1] by (simp add: topic_wf_def)
    note s = choose_peers_spec [OF assms(1) this c]
    have g2: "ginv env T g2" "map_of (topics g2) th \<noteq> None" "mesh_step th g g2"
      and "\<forall>pp \<in> set chosen. pp \<in> set (t_peers (topic_at g2 th)) \<and> isGossipsub (heap g2 ! pp)"
      using s g1 th1 mesh_step_trans [OF m1 mesh_step_random] by (simp_all add: topic_at_def)
    from fold_mesh_spec [OF g2(1,2) this(4), of "mesh_emplace th"] mesh_emplace_spec mesh_step_trans [OF g2(3)]
    show ?thesis by auto
  qed
  then show ?thesis using g1 m1 by (auto simp: hb_fanout_def Let_def split: prod.split)
qed

lemma hb_drop_bad_spec:
  assumes "ginv env T g" and "map_of (topics g) th \<noteq> None"
  shows "wp b (hb_drop_bad th g) (\<lambda>g'. ginv env T g' \<and> mesh_step th g g')"
  unfolding hb_drop_bad_def
proof (rule wp_fold)
  fix pp g'
  assume g': "ginv env T g' \<and> mesh_step th g g'"
  have e: "mesh_step th h (mesh_erase th pp h)" for h
    unfolding mesh_erase_def by (rule mesh_step_upd_topic) simp
  have "wp b (make_prune th pp g') (\<lambda>g1. ginv env T (mesh_erase th pp g1) \<and> mesh_step th g (mesh_erase th pp g1))"
    using g' by (intro wp_mono [OF make_prune_spec]) (auto intro: ginv_mesh_erase mesh_step_trans e)
  with g' show "wp b (if peer_below g' pp zero then bind_cxx (make_prune th pp g') (\<lambda>g1. Returns (mesh_erase th pp g1))
      else Returns g') (\<lambda>g'. ginv env T g' \<and> mesh_step th g g')" by (simp add: wp_bind)
qed (simp add: assms)

lemma hb_prune_loop_spec:
  assumes "ginv env T g"
  shows "wp b (hb_prune_loop th outbound pps g) (\<lambda>g'. ginv env T g' \<and> mesh_step th g g')"
  using assms
proof (induction th outbound pps g rule: hb_prune_loop.induct)
  case (2 th outbound pp pps g)
  let ?o = "if p_out (peer_at g pp) then outbound - 1 else outbound"
  have m: "mesh_step th g (mesh_erase th pp g)" unfolding mesh_erase_def by (rule mesh_step_upd_topic) simp
  show ?case
  proof (cases "length (t_mesh_peers (topic_at g th)) \<le> mesh_n_for_topic (config g) th
      \<or> p_out (peer_at g pp) \<and> outbound \<le> mesh_outbound_min_for_topic (config g) th")
    case False
    have "wp b (bind_cxx (make_prune th pp (mesh_erase th pp g)) (hb_prune_loop th ?o pps)) (\<lambda>g'. ginv env T g' \<and> mesh_step th g g')"
    proof (rule wp_bindI [OF make_prune_spec [OF ginv_mesh_erase [OF "2.prems"]]])
      fix g1
      assume g1: "ginv env T g1 \<and> mesh_step th (mesh_erase th pp g) g1
        \<and> t_mesh_peers (topic_at g1 th) = t_mesh_peers (topic_at (mesh_erase th pp g) th)"
      with False show "wp b (hb_prune_loop th ?o pps g1) (\<lambda>g'. ginv env T g' \<and> mesh_step th g g')"
        by (intro wp_mono [OF "2.IH"(2)]) (auto intro: mesh_step_trans [OF mesh_step_trans [OF m]])
    qed
    with False show ?thesis by auto
  qed (use "2.IH"(1) "2.prems" in auto)
qed simp


lemma choose_graft_wp:
  assumes "env_ok env" and "ginv env T g" and "map_of (topics g) th \<noteq> None"
    and "\<And>pp. P pp \<Longrightarrow> pp \<notin> set (t_mesh_peers (topic_at g th))"
  shows "wp b (let (chosen, g1) = choose_peers env (t_peers (topic_at g th)) P cnt g in fold_cxx (graft_peer th now) chosen g1)
    (\<lambda>g'. ginv env T g' \<and> mesh_step th g g')"
  using choose_graft_spec [where P = P, OF assms, where cnt = cnt and now = now] by auto

lemma hb_size_spec:
  assumes "env_ok env" and "ginv env T g" and "map_of (topics g) th \<noteq> None"
  shows "wp b (hb_size env th now g) (\<lambda>g'. ginv env T g' \<and> mesh_step th g g')"
proof -
  obtain pps g1 where p: "prune_order env th g = (pps, g1)" by fastforce
  then have g1: "g1 = g\<lparr>random := random g + 2\<rparr>" by (simp add: prune_order_def Let_def)
  have "wp b (hb_prune_loop th o' pps g1) (\<lambda>g'. ginv env T g' \<and> mesh_step th g g')" for o'
    by (rule wp_mono [OF hb_prune_loop_spec]) (use assms(2) mesh_step_trans [OF mesh_step_random] in \<open>auto simp: g1\<close>)
  moreover have "wp b (let (chosen, g1) = choose_peers env (t_peers (topic_at g th)) (graft_ok th g) cnt g
      in fold_cxx (graft_peer th now) chosen g1) (\<lambda>g'. ginv env T g' \<and> mesh_step th g g')" for cnt
    by (rule choose_graft_wp [OF assms]) (simp add: graft_ok_def)
  ultimately show ?thesis using assms(2) unfolding hb_size_def Let_def p by simp
qed

lemma hb_outbound_spec:
  assumes "env_ok env" and "ginv env T g" and "map_of (topics g) th \<noteq> None"
  shows "wp b (hb_outbound env th now g) (\<lambda>g'. ginv env T g' \<and> mesh_step th g g')"
proof -
  have "wp b (let (chosen, g1) = choose_peers env (t_peers (topic_at g th)) (\<lambda>pp. p_out (peer_at g pp) \<and> graft_ok th g pp) cnt g
      in fold_cxx (graft_peer th now) chosen g1) (\<lambda>g'. ginv env T g' \<and> mesh_step th g g')" for cnt
    by (rule choose_graft_wp [OF assms]) (simp add: graft_ok_def)
  then show ?thesis using assms(2) unfolding hb_outbound_def Let_def by simp
qed

text \<open>The ticks at which the heartbeat grafts opportunistically, the only ones at which it may throw.\<close>

definition opportunistic_tick :: "Gossip \<Rightarrow> bool" where
  "opportunistic_tick g \<longleftrightarrow>
     opportunistic_graft_ticks (config g) = 0 \<or> heartbeat_ticks g mod opportunistic_graft_ticks (config g) = 0"

lemma hb_opportunistic_spec:
  assumes "env_ok env" and "ginv env T g" and "map_of (topics g) th \<noteq> None" and "opportunistic_tick g \<Longrightarrow> b"
  shows "wp b (hb_opportunistic env th now g) (\<lambda>g'. ginv env T g' \<and> mesh_step th g g')"
proof (cases "opportunistic_tick g")
  case True
  have "wp b (let (chosen, g1) = choose_peers env (t_peers (topic_at g th))
        (\<lambda>pp. pp \<notin> set (t_mesh_peers (topic_at g th)) \<and> \<not> is_backoff_with_slack g th pp \<and> d_less m (peer_score g pp)) cnt g
      in fold_cxx (graft_peer th now) chosen g1) (\<lambda>g'. ginv env T g' \<and> mesh_step th g g')" for m cnt
    by (rule choose_graft_wp [OF assms(1-3)]) simp
  then show ?thesis using assms(2,4) True
    by (cases "mesh_median (map (peer_score g) (t_mesh_peers (topic_at g th)))") (auto simp: hb_opportunistic_def)
qed (use assms(2) in \<open>auto simp: hb_opportunistic_def opportunistic_tick_def\<close>)

lemma hb_topic_spec:
  assumes "env_ok env" and "ginv env T g" and "map_of (topics g) th \<noteq> None" and "opportunistic_tick g \<Longrightarrow> b"
  shows "wp b (hb_topic env now th g) (\<lambda>g'. ginv env T g' \<and> mesh_step th g g')"
proof -
  let ?I = "\<lambda>g'. ginv env T g' \<and> mesh_step th g g'"
  have th: "map_of (topics g') th \<noteq> None" and tick: "opportunistic_tick g' \<longleftrightarrow> opportunistic_tick g" if "?I g'" for g'
    using that mesh_stepD(1,4,8) [of th g g'] assms(3) by (auto simp: opportunistic_tick_def)
  have next_step: "wp b (f g') ?I" if "?I g'" "wp b (f g') (\<lambda>g''. ginv env T g'' \<and> mesh_step th g' g'')" for f g'
    using that by (auto elim!: wp_mono intro: mesh_step_trans)
  have "wp b (bind_cxx (hb_drop_bad th g) (\<lambda>g1. bind_cxx (hb_size env th now g1) (\<lambda>g2.
      bind_cxx (hb_outbound env th now g2) (hb_opportunistic env th now)))) ?I"
  proof (intro wp_bindI [OF hb_drop_bad_spec [OF assms(2,3)]] wp_bindI [of b _ ?I])
    show "wp b (hb_size env th now g') ?I" if "?I g'" for g'
      using that by (intro next_step hb_size_spec [OF assms(1) _ th]) auto
    show "wp b (hb_outbound env th now g') ?I" if "?I g'" for g'
      using that by (intro next_step hb_outbound_spec [OF assms(1) _ th]) auto
    show "wp b (hb_opportunistic env th now g') ?I" if "?I g'" for g'
      using that assms(4) tick [OF that] by (intro next_step hb_opportunistic_spec [OF assms(1) _ th]) auto
  qed
  then show ?thesis using hb_fanout_spec [OF assms(1-3)] by (simp add: hb_topic_def)
qed

lemma emit_topic_spec:
  assumes "ginv env T g"
  shows "ginv env T (emit_topic env th g) \<and> same g (emit_topic env th g)"
proof -
  have r: "ginv env T (h\<lparr>random := n\<rparr>)" "same h (h\<lparr>random := n\<rparr>)" if "ginv env T h" for h n using that by (simp_all add: same_def)
  let ?f = "\<lambda>ids pp g. upd_batch pp (\<lambda>b. b\<lparr>ihave := AList.update th (ids g) (ihave b)\<rparr>) (g\<lparr>random := random g + 1\<rparr>)"
  have "ginv env T (fold (?f ids) pps h) \<and> same h (fold (?f ids) pps h)" if "ginv env T h" for ids pps h
    using that
  proof (induction pps arbitrary: h)
    case (Cons pp pps)
    have s: "ginv env T (?f ids pp h)" "same h (?f ids pp h)"
      using Cons.prems same_trans [OF r(2) same_upd_batch] by (auto intro!: ginv_upd_batch)
    with Cons.IH [OF s(1)] same_trans [OF s(2)] show ?case by simp
  qed simp
  note f = this [OF r(1) [OF assms]]
  let ?m = "history_get (t_history (topic_at g th)) (history_gossip (config g))"
  let ?ids = "\<lambda>g. if length (shuffle_ids env (random g) ?m) > max_ihave_length (config g)
    then take (max_ihave_length (config g)) (shuffle_ids env (random g) ?m) else shuffle_ids env (random g) ?m"
  have "emit_topic env th g = g \<or> (\<exists>pps. emit_topic env th g = fold (?f ?ids) pps (g\<lparr>random := random g + 1\<rparr>))"
    unfolding emit_topic_def Let_def choose_peers_def prod.case by (cases "?m = []") (auto simp del: One_nat_def)
  then show ?thesis using assms f same_trans [OF r(2) [OF assms]] by fastforce
qed

lemma emit_gossip_spec:
  assumes "ginv env T g"
  shows "ginv env T (emit_gossip env g)"
  unfolding emit_gossip_def by (rule fold_ginv [OF _ assms]) (simp add: emit_topic_spec)

lemma history_shift_nonempty: "h \<noteq> [] \<Longrightarrow> snd (history_shift h) \<noteq> []"
  by (simp add: history_shift_def Let_def)

lemma shift_history_spec:
  assumes "ginv env T g"
  shows "ginv env T (shift_history th g)"
proof -
  let ?h = "snd (history_shift (t_history (topic_at g th)))"
  have "ginv env T (upd_topic th (\<lambda>t. t\<lparr>t_history := ?h\<rparr>) g)"
    by (rule ginv_upd_topic [OF assms]) (auto simp: topic_wf_def topic_at_def history_shift_nonempty)
  then show ?thesis by (simp add: shift_history_def Let_def case_prod_unfold)
qed

lemma ginv_topics:
  assumes "ginv env T g" and "distinct (map fst ts)" and "\<And>th t. map_of ts th = Some t \<Longrightarrow> topic_wf (deliverable env (config g)) (heap g) th t"
  shows "ginv env T (g\<lparr>topics := ts\<rparr>)"
  using assms by (simp add: ginv_def)

lemma hb_topics_spec:
  assumes "env_ok env" and "ginv env T g" and "opportunistic_tick g \<Longrightarrow> b"
  shows "wp b (fold_cxx (hb_topic env now) (map fst (topics g)) g) (ginv env T)"
proof -
  let ?I = "\<lambda>g'. ginv env T g' \<and> map fst (topics g') = map fst (topics g) \<and> config g' = config g
    \<and> heartbeat_ticks g' = heartbeat_ticks g"
  have "wp b (fold_cxx (hb_topic env now) (map fst (topics g)) g) ?I"
  proof (rule wp_fold)
    fix th g'
    assume th: "th \<in> set (map fst (topics g))" and g': "?I g'"
    then have "map_of (topics g') th \<noteq> None" by (metis map_of_eq_None_iff list.set_map)
    moreover have "opportunistic_tick g' \<Longrightarrow> b" using g' assms(3) by (simp add: opportunistic_tick_def)
    ultimately have "wp b (hb_topic env now th g') (\<lambda>g''. ginv env T g'' \<and> mesh_step th g' g'')"
      using g' by (intro hb_topic_spec [OF assms(1)]) auto
    then show "wp b (hb_topic env now th g') ?I"
    proof (rule wp_mono)
      fix g''
      assume "ginv env T g'' \<and> mesh_step th g' g''"
      then show "?I g''" using g' mesh_stepD(1,7,8) [of th g' g''] by simp
    qed
  qed (simp add: assms(2))
  then show ?thesis by (rule wp_mono) simp
qed

lemma heartbeat_spec:
  assumes "env_ok env" and "ginv env T g" and "opportunistic_tick (g\<lparr>heartbeat_ticks := heartbeat_ticks g + 1\<rparr>) \<Longrightarrow> b"
  shows "wp b (heartbeat env now g) (ginv env T)"
proof -
  let ?g1 = "g\<lparr>heartbeat_ticks := heartbeat_ticks g + 1, topics := map (\<lambda>(th, t). (th, t\<lparr>t_backoff := tb_shift (t_backoff t)\<rparr>)) (topics g),
    count_received_ihave := [], count_sent_iwant := []\<rparr>"
  have "ginv env T (g\<lparr>topics := topics ?g1\<rparr>)"
  proof (rule ginv_topics [OF assms(2)])
    show "distinct (map fst (topics ?g1))" using ginvD(3) [OF assms(2)] by (simp add: comp_def case_prod_unfold)
    show "topic_wf (deliverable env (config g)) (heap g) th t" if "map_of (topics ?g1) th = Some t" for th t
      using that ginvD(4) [OF assms(2), of th] by (auto simp: map_of_map topic_wf_def tb_inv_shift)
  qed
  then have g1: "ginv env T ?g1" by (simp add: ginv_def)
  let ?g2 = "apply_iwant_penalties now ?g1"
  obtain gp s where g2: "ginv env T ?g2" "?g2 = ?g1\<lparr>gossip_promises := gp, scores := s\<rparr>"
    using apply_iwant_penalties_spec [OF g1] by blast
  have cfg: "config ?g2 = config g" "heartbeat_ticks ?g2 = heartbeat_ticks g + 1" unfolding g2(2) by simp_all
  let ?keep = "\<lambda>(th::TopicHash, t). \<not> t_publish_only t \<or> now - t_last_publish t < fanout_ttl (config g) * 10 ^ 9"
  let ?g3 = "?g2\<lparr>topics := filter ?keep (topics ?g2)\<rparr>"
  have g3: "ginv env T ?g3"
  proof (rule ginv_topics [OF g2(1)])
    show "distinct (map fst (filter ?keep (topics ?g2)))" by (rule distinct_map_filter [OF ginvD(3) [OF g2(1)]])
    show "topic_wf (deliverable env (config ?g2)) (heap ?g2) th t" if "map_of (filter ?keep (topics ?g2)) th = Some t" for th t
      using map_of_SomeD [OF that] ginvD(3,4) [OF g2(1)] by simp
  qed
  have tick: "opportunistic_tick ?g3 \<Longrightarrow> b"
    using cfg assms(3) by (simp add: opportunistic_tick_def)
  have loop: "wp b (fold_cxx (hb_topic env now) (map fst (topics ?g3)) ?g3) (ginv env T)"
    by (rule hb_topics_spec [OF assms(1) g3]) (erule tick)
  have c: "ginv env T (upd_peer pp (\<lambda>p. p\<lparr>p_dont_send := iw_clearExpired (p_dont_send p) now\<rparr>) h)" if "ginv env T h" for pp h
  proof (rule ginv_upd_peer [OF that])
    assume "peer_wf T (heap h ! pp)"
    then have u: "tc_upto (p_dont_send (heap h ! pp)) T" "tc_size (p_dont_send (heap h ! pp)) \<le> kCapacity"
      by (simp_all add: peer_wf_def)
    note C = tc_clearExpired_upto [OF u(1), where now = now]
    have "tc_size (tc_clearExpired (p_dont_send (heap h ! pp)) now) \<le> tc_size (p_dont_send (heap h ! pp))"
      using C(1,3) u(1) by (simp add: tc_upto_def tc_size_expirations)
    with \<open>peer_wf T (heap h ! pp)\<close> C(1) u show "peer_wf T ((heap h ! pp)\<lparr>p_dont_send := iw_clearExpired (p_dont_send (heap h ! pp)) now\<rparr>)"
      by (simp add: peer_wf_def iw_clearExpired_def)
  qed (auto simp: isGossipsub_def)
  show ?thesis unfolding heartbeat_def Let_def
    by (rule wp_bindI [OF loop])
      (simp, intro fold_ginv c shift_history_spec emit_gossip_spec, simp_all)
qed

lemma on_decay_spec: "ginv env T g \<Longrightarrow> ginv env T (on_decay now g)"
  unfolding on_decay_def by (rule ginv_upd_score) (simp_all add: onDecay_ok)


section \<open>The protocol as a state machine\<close>

text \<open>What the scheduler runs: one handler, up to its next suspension.\<close>

datatype Event =
    Subscribe TopicHash
  | Publish TopicHash bytes
  | Receive TopicHash
  | Inbound PeerPtr bytes
  | Stream_Accepted PeerId StreamPtr ProtocolName
  | Read_Ended PeerPtr StreamPtr
  | Connected PeerId bool
  | Stream_Opened PeerPtr "(StreamPtr \<times> ProtocolName) option"
  | Disconnected PeerId
  | Write PeerPtr nat
  | Heartbeat
  | Decay

definition exec :: "Env \<Rightarrow> time \<Rightarrow> Event \<Rightarrow> Gossip \<Rightarrow> Gossip cxx" where
  "exec env now e g =
     (case e of
        Subscribe th \<Rightarrow> subscribe env th now g
      | Publish th data \<Rightarrow> publish_data env th data now g
      | Receive th \<Rightarrow> Returns (case receiveMessage th g of None \<Rightarrow> g | Some (m, g') \<Rightarrow> g')
      | Inbound pp encoded \<Rightarrow> bind_cxx (onMessage env pp now encoded g) (\<lambda>(go, g'). Returns g')
      | Stream_Accepted q stream protocol \<Rightarrow> handle_stream q stream protocol g
      | Read_Ended pp stream \<Rightarrow> Returns (read_loop_end pp stream g)
      | Connected q out \<Rightarrow> Returns (on_peer_connected q out g)
      | Stream_Opened pp r \<Rightarrow> out_stream_opened pp r g
      | Disconnected q \<Rightarrow> Returns (on_peer_disconnected q now g)
      | Write pp ok \<Rightarrow> bind_cxx (writer_turn env pp ok g) (\<lambda>(frames, g'). Returns g')
      | Heartbeat \<Rightarrow> heartbeat env now g
      | Decay \<Rightarrow> Returns (on_decay now g))"

text \<open>
  When it runs it: pointers are to peers that exist, a stream speaks a protocol of the
  configuration, the outbound stream was asked for, the writer was started.
\<close>

definition enabled :: "Event \<Rightarrow> Gossip \<Rightarrow> bool" where
  "enabled e g =
     (case e of
        Inbound pp encoded \<Rightarrow> pp < length (heap g)
      | Stream_Accepted q stream protocol \<Rightarrow> protocol \<in> set (getProtocolIds (config g))
      | Stream_Opened pp r \<Rightarrow> pp < length (heap g) \<and> p_is_connecting (peer_at g pp)
          \<and> (case r of None \<Rightarrow> True | Some (stream, protocol) \<Rightarrow> protocol \<in> set (getProtocolIds (config g)))
      | Write pp ok \<Rightarrow> pp < length (heap g) \<and> p_writing (peer_at g pp)
      | _ \<Rightarrow> True)"

inductive gossip_step :: "Env \<Rightarrow> time \<times> Gossip \<Rightarrow> time \<times> Gossip \<Rightarrow> bool" for env where
  run: "t \<le> now \<Longrightarrow> enabled e g \<Longrightarrow> exec env now e g = Returns g' \<Longrightarrow> gossip_step env (t, g) (now, g')"

inductive_cases gossip_stepE: "gossip_step env (t, g) s"

inductive reachable :: "Env \<Rightarrow> Config \<Rightarrow> time \<Rightarrow> Gossip \<Rightarrow> bool" for env c where
  start: "reachable env c t (Gossip_new c n)"
| step: "reachable env c t g \<Longrightarrow> gossip_step env (t, g) (t', g') \<Longrightarrow> reachable env c t' g'"

definition config_ok :: "Config \<Rightarrow> bool" where
  "config_ok c \<longleftrightarrow> params_ok (score_config c) \<and> 0 < history_length c \<and> 0 \<le> duplicate_cache_time c"

lemma ginv_new: "config_ok c \<Longrightarrow> ginv env t (Gossip_new c n)"
  by (simp add: config_ok_def ginv_def Gossip_new_def score_ok_def Score_new_def promises_wf_def GossipPromises_new_def tc_upto_new)

lemma set_getProtocolIds: "protocol \<in> set (getProtocolIds c) \<longleftrightarrow> map_of (protocol_versions c) protocol \<noteq> None"
  by (simp add: getProtocolIds_def map_of_eq_None_iff)

text \<open>Every handler keeps the invariant, and throws only where the first argument allows it.\<close>

definition may_throw :: "Env \<Rightarrow> Event \<Rightarrow> Gossip \<Rightarrow> bool" where
  "may_throw env e g =
     (case e of
        Publish th data \<Rightarrow> \<not> can_sign env g
      | Heartbeat \<Rightarrow> opportunistic_tick (g\<lparr>heartbeat_ticks := heartbeat_ticks g + 1\<rparr>)
      | _ \<Rightarrow> False)"

lemma exec_spec:
  assumes "env_ok env" and "ginv env t g" and "t \<le> now" and "enabled e g" and "may_throw env e g \<Longrightarrow> b"
  shows "wp b (exec env now e g) (ginv env now)"
proof -
  have g: "ginv env now g" by (rule ginv_later [OF assms(2,3)])
  show ?thesis
  proof (cases e)
    case (Subscribe th)
    have "wp b (getOrCreateTopic env th False now g) (ginv env now)"
      by (rule wp_mono [OF getOrCreateTopic_spec [OF assms(1) g]]) simp
    with Subscribe show ?thesis by (simp add: exec_def subscribe_def)
  next
    case (Publish th data)
    have "wp b (publish_data env th data now g) (ginv env now)"
      by (rule publish_data_spec [OF assms(1) g]) (use Publish assms(5) in \<open>auto simp: may_throw_def\<close>)
    with Publish show ?thesis by (simp add: exec_def)
  next
    case (Receive th)
    then show ?thesis using g receiveMessage_spec [OF g] by (auto simp: exec_def split: option.split)
  next
    case (Inbound pp encoded)
    then have "pp < length (heap g)" using assms(4) by (simp add: enabled_def)
    then have "wp b (onMessage env pp now encoded g) (\<lambda>r. ginv env now (snd r))"
      by (rule wp_mono [OF onMessage_spec [OF assms(1) g _ order_refl]]) auto
    with Inbound show ?thesis by (simp add: exec_def wp_bind case_prod_unfold)
  next
    case (Stream_Accepted q stream protocol)
    then show ?thesis using assms(4) handle_stream_spec [OF g] by (simp add: exec_def enabled_def set_getProtocolIds)
  next
    case (Stream_Opened pp r)
    have "wp b (out_stream_opened pp r g) (ginv env now)"
      by (rule out_stream_opened_spec [OF g]) (use Stream_Opened assms(4) in \<open>auto simp: enabled_def set_getProtocolIds\<close>)
    with Stream_Opened show ?thesis by (simp add: exec_def)
  next
    case (Write pp ok)
    then have "wp b (writer_turn env pp ok g) (\<lambda>(frames, g'). ginv env now g')"
      using assms(4) by (intro writer_turn_spec [OF g]) (auto simp: enabled_def)
    with Write show ?thesis by (simp add: exec_def wp_bind case_prod_unfold)
  next
    case Heartbeat
    then show ?thesis using heartbeat_spec [OF assms(1) g] assms(5) by (simp add: exec_def may_throw_def)
  qed (use g in \<open>simp_all add: exec_def read_loop_end_spec on_peer_connected_spec on_peer_disconnected_spec on_decay_spec\<close>)
qed

lemma reachable_ginv:
  assumes "env_ok env" and "config_ok c" and "reachable env c t g"
  shows "ginv env t g"
  using assms(3)
proof (induction rule: reachable.induct)
  case (start t n)
  show ?case by (rule ginv_new [OF assms(2)])
next
  case (step t g t' g')
  from step.hyps(2) obtain e where "t \<le> t'" "enabled e g" "exec env t' e g = Returns g'"
    by (auto elim: gossip_stepE)
  with exec_spec [OF assms(1) step.IH, of t' e True] show ?case by simp
qed

end
