(* ===== verification/Gossip_Props.thy ===== *)
theory Gossip_Props
  imports Gossip_Steps
begin

text \<open>
  What the gossip protocol guarantees: in every reachable state, of every handler, and of
  the whole on the way from a message that arrives to the batches it leaves in.
\<close>

section \<open>A small instance\<close>

text \<open>
  Concrete code outside the protocol, for the witnesses: the id of a message is its data,
  shuffling keeps the order, every signature verifies, and a frame is a subscription to the
  topic of one byte and a GRAFT for it, or a message for that topic published by an author
  whose id holds an Ed25519 key.
\<close>

definition demo_author :: PeerId where
  "demo_author = toVector (Multihash_Data identity (1 # replicate 32 7))"

definition demo_publish :: "bytes \<Rightarrow> bytes \<Rightarrow> pb_Message" where
  "demo_publish topic data =
     \<lparr>pb_from = Some demo_author, pb_data = Some data, pb_seqno = Some (replicate 8 0), pb_topic = topic,
      pb_signature = Some [9], pb_key = None\<rparr>"

lemma demo_publish_simps [simp]: "pb_data (demo_publish t d) = Some d" "pb_topic (demo_publish t d) = t"
  by (simp_all add: demo_publish_def)

definition demo_parse :: "bytes \<Rightarrow> pb_RPC option" where
  "demo_parse bs =
     (case bs of
        [th] \<Rightarrow> Some (pb_RPC_empty\<lparr>rpc_subscriptions := [\<lparr>so_subscribe = True, so_topic_id = [th]\<rparr>],
                   rpc_control := (rpc_control pb_RPC_empty)\<lparr>co_graft := [[th]]\<rparr>\<rparr>)
      | th # data \<Rightarrow> Some (pb_RPC_empty\<lparr>rpc_publish := [demo_publish [th] data]\<rparr>)
      | [] \<Rightarrow> None)"

definition demo_env :: Env where
  "demo_env =
     \<lparr>message_id_fn = m_data, shuffle_peers = (\<lambda>n xs. xs), shuffle_ids = (\<lambda>n xs. xs), parse_rpc = demo_parse,
      rpc_bytes = (\<lambda>_. []), message_bytes = (\<lambda>m. pb_topic m @ field (pb_data m)), rsa_bits = (\<lambda>_. None),
      parse_key = parse_ex, verify = (\<lambda>_ _ _. Some True), sign = (\<lambda>_. Some [1]), host_id = [0, 1, 7]\<rparr>"

lemma demo_env_simps [simp]:
  "message_id_fn demo_env = m_data" "parse_rpc demo_env = demo_parse" "verify demo_env = (\<lambda>_ _ _. Some True)"
  "message_bytes demo_env = (\<lambda>m. pb_topic m @ field (pb_data m))" "rsa_bits demo_env = (\<lambda>_. None)"
  "parse_key demo_env = parse_ex" "shuffle_peers demo_env = (\<lambda>n xs. xs)"
  by (simp_all add: demo_env_def)

lemma demo_env_ok: "env_ok demo_env"
  by (simp add: env_ok_def demo_env_def)

text \<open>The default configuration, with thresholds and weights of the score that are integers.\<close>

definition demo_config :: Config where
  "demo_config = Config_new\<lparr>score_config := ScoreConfig_new
     \<lparr>topic_score_cap := Fin 0, app_specific_weight := Fin 1, behaviour_penalty_threshold := Fin 0, slow_peer_threshold := Fin 0,
      zero := Fin 0, gossip_threshold := Fin (- 1), publish_threshold := Fin (- 2), graylist_threshold := Fin (- 3)\<rparr>\<rparr>"

lemma demo_config_simps [simp]:
  "history_length demo_config = 5" "prune_backoff demo_config = 60" "heartbeat_interval demo_config = 1"
  "backoff_slack demo_config = 1" "validation_mode demo_config = Validate_Strict" "gossip_retransimission demo_config = 3"
  "idontwant_message_size_threshold demo_config = 1000" "duplicate_cache_time demo_config = 60" "flood_publish demo_config"
  "protocol_versions demo_config = [(kProtocolFloodsub, Floodsub), (kProtocolGossipsub, Gossipsub),
     (kProtocolGossipsubv1_1, Gossipsubv1_1), (kProtocolGossipsubv1_2, Gossipsubv1_2)]"
  "zero (score_config demo_config) = Fin 0" "graylist_threshold (score_config demo_config) = Fin (- 3)"
  "publish_threshold (score_config demo_config) = Fin (- 2)" "sc_topics (score_config demo_config) = []"
  "mesh_n_for_topic demo_config th = 6" "mesh_n_low_for_topic demo_config th = 5" "mesh_n_high_for_topic demo_config th = 12"
  "mesh_outbound_min_for_topic demo_config th = 2" "opportunistic_graft_ticks demo_config = 60"
  by (simp_all add: demo_config_def Config_new_def ScoreConfig_new_def mesh_n_for_topic_def mesh_n_low_for_topic_def
      mesh_n_high_for_topic_def mesh_outbound_min_for_topic_def TopicMeshConfig_new_def)

lemma demo_config_ok: "config_ok demo_config"
  using default_params_ok [of "[]"] by (simp add: config_ok_def params_ok_def demo_config_def Config_new_def ScoreConfig_new_def)

lemma demo_score:
  assumes "map_of (peer_stats s) q = Some (PeerStats_new\<lparr>expires_at := None\<rparr>)" and "params s = score_config demo_config"
  shows "score s q = Fin 0"
  unfolding score_def assms by (simp add: stats_score_def PeerStats_new_def topics_score_def demo_config_def Let_def)

text \<open>The states of a run: a subscription, an inbound stream, and the subscription and GRAFT of the peer.\<close>

definition demo_topic :: "PeerPtr list \<Rightarrow> Topic" where
  "demo_topic pps =
     \<lparr>t_publish_only = False, t_receive_channel = [], t_history = replicate 5 [], t_backoff = TopicBackoff_new 60 1 1,
      t_peers = pps, t_mesh_peers = pps, t_last_publish = 0\<rparr>"

definition demo_peer :: Peer where
  "demo_peer = (Peer_new [0, 1, 5] False)\<lparr>p_peer_kind := Some Gossipsubv1_1, p_streams_in := [0]\<rparr>"

definition demo_state1 :: Gossip where
  "demo_state1 = (Gossip_new demo_config 0)\<lparr>topics := [([1], demo_topic [])]\<rparr>"

definition demo_state2 :: Gossip where
  "demo_state2 = demo_state1\<lparr>heap := [demo_peer], peers := [([0, 1, 5], 0)],
     scores := (Score_new (score_config demo_config))\<lparr>peer_stats := [([0, 1, 5], PeerStats_new\<lparr>expires_at := None\<rparr>)]\<rparr>\<rparr>"

definition demo_state3 :: Gossip where
  "demo_state3 = demo_state2\<lparr>heap := [demo_peer\<lparr>p_topics := [[1]], p_batch := Some (Rpc_new\<lparr>graft := [[1]]\<rparr>)\<rparr>],
     topics := [([1], demo_topic [0])]\<rparr>"

lemmas demo_state_defs = demo_state1_def demo_state2_def demo_state3_def demo_topic_def demo_peer_def Gossip_new_def Peer_new_def
lemmas access_defs = peer_at_def upd_peer_def upd_topic_def topic_at_def upd_score_def upd_score_cxx_def set_insert_def Let_def

lemma demo_step1: "exec demo_env 1 (Subscribe [1]) (Gossip_new demo_config 0) = Returns demo_state1"
  by (simp add: exec_def subscribe_def getOrCreateTopic_def create_topic_def History_new_def access_defs demo_state_defs)

lemma demo_step2: "exec demo_env 2 (Stream_Accepted [0, 1, 5] 0 kProtocolGossipsubv1_1) demo_state1 = Returns demo_state2"
  by (simp add: exec_def handle_stream_def find_or_make_peer_def updatePeerKind_def access_defs score_connect_def
      Score_new_def put_peer_def demo_state_defs kProtocolFloodsub_def kProtocolGossipsub_def kProtocolGossipsubv1_1_def)

lemma demo_step3: "exec demo_env 3 (Inbound 0 [1]) demo_state2 = Returns demo_state3"
  by (simp add: exec_def onMessage_def peer_below_def below_def demo_parse_def pb_RPC_empty_def on_subscription_def
      access_defs demo_state_defs Score_new_def demo_score isGossipsub_def less_eq_PeerKind_def is_backoff_with_slack_def
      tb_get_def TopicBackoff_new_def graft_peer_def mesh_emplace_def upd_batch_def getBatch_def checkWrite_def
      and_then_def on_graft_def handle_ihave_def score_graft_def statsOrDefault_def PeerStats_new_def Rpc_new_def)

lemma demo_reachable:
  "reachable demo_env demo_config 1 demo_state1" "reachable demo_env demo_config 2 demo_state2"
  "reachable demo_env demo_config 3 demo_state3"
proof -
  show 1: "reachable demo_env demo_config 1 demo_state1"
    by (rule reachable.step [OF reachable.start [of _ _ 0 0] gossip_step.run [OF _ _ demo_step1]]) (simp_all add: enabled_def)
  have "config demo_state1 = demo_config" by (simp add: demo_state_defs)
  then show 2: "reachable demo_env demo_config 2 demo_state2"
    by (intro reachable.step [OF 1 gossip_step.run [OF _ _ demo_step2]]) (simp_all add: enabled_def set_getProtocolIds)
  show "reachable demo_env demo_config 3 demo_state3"
    by (rule reachable.step [OF 2 gossip_step.run [OF _ _ demo_step3]]) (simp_all add: enabled_def demo_state_defs)
qed

lemmas demo_ginv = demo_reachable [THEN reachable_ginv [OF demo_env_ok demo_config_ok]]

text \<open>A message of the author, which the peer relays.\<close>

definition demo_message :: Message where
  "demo_message =
     \<lparr>m_from = Some demo_author, m_data = [42], m_seqno = Some (load_big_u64 (replicate 8 0)), m_topic = [1],
      m_signature = Some [9], m_received_from = Some [0, 1, 5]\<rparr>"

lemma demo_author_parses: "PeerId_fromBytes demo_author = Inr (Multihash_Data identity (1 # replicate 32 7))"
proof -
  let ?p = "Multihash_Data identity (1 # replicate 32 7)"
  have "Multihash_createFromBytes (toBuffer ?p) = Inr ?p" by (simp add: createFromBytes_Data kMaxHashLength_def)
  moreover have "varint_bytes identity = [0]" by (simp add: identity_def) code_simp
  then have "length (toBuffer ?p) = 35" by (simp add: toBuffer_def Multihash_Data_parts)
  ultimately show ?thesis
    by (simp add: demo_author_def PeerId_fromBytes_def toVector_def PeerId_fromHash_def kMaxInlineKeyLength_def)
qed

lemma demo_author_key:
  "PeerId_publicKey (\<lambda>_. None) parse_ex (Multihash_Data identity (1 # replicate 32 7))
     = Some \<lparr>key_type = Ed25519, key_data = replicate 32 7\<rparr>"
  by (simp add: PeerId_publicKey_def unmarshalPublicKey_def unmarshal_with_def getHash_def Multihash_Data_parts
      validate_public_def validateEd25519_public_def ED25519_PUBLIC_KEY_SIZE_def)

lemma demo_validate:
  "validate_publish demo_env Validate_Strict (demo_publish [1] [42])
     = Some (demo_message\<lparr>m_data := [], m_topic := [], m_received_from := None\<rparr>)"
  by (simp add: validate_publish_def demo_publish_def field_def demo_author_parses demo_author_key demo_message_def Let_def)
    (simp add: demo_author_def)

lemma demo_delivers:
  "\<exists>g. on_publish demo_env 0 3 (demo_publish [1] [42]) demo_state2 = Returns g
     \<and> map_of (topics g) [1] = Some ((demo_topic [])\<lparr>t_receive_channel := [demo_message], t_history := [[42]] # replicate 4 []\<rparr>)
     \<and> config g = demo_config"
  by (simp add: on_publish_def demo_validate demo_state_defs access_defs field_def dc_insert_def TimeCache_new_def
      tc_clearExpired_def tc_contains_def tc_getOrDefault_def broadcast_def deliver_message_def validateMessage_def
      mark_first_message_delivery_def statsOrDefault_def PeerStats_new_def tc_set_def DeliveryRecord_new_def
      toProtobuf_def Score_new_def demo_message_def eval_nat_numeral)

section \<open>Reachable states\<close>





text \<open>
  \<^bold>\<open>C3\<close> (safety). In the strict validation mode every message that waits for the
  application in any reachable state was published by the author it names: the author's id
  holds a public key and the signature of the published message verifies with it.
\<close>

theorem strict_delivers_authentic:
  assumes "env_ok env" and "config_ok c" and "reachable env c t g"
    and "validation_mode (config g) = Validate_Strict"
    and "map_of (topics g) th = Some topic" and "m \<in> set (t_receive_channel topic)"
  shows "authentic env m"
proof -
  have "topic_wf (deliverable env (config g)) (heap g) th topic"
    using ginvD(4) [OF reachable_ginv [OF assms(1-3)] assms(5)] .
  with assms(4,6) show ?thesis by (simp add: topic_wf_def deliverable_def)
qed

theorem strict_delivers_authentic_witness:
  "authentic demo_env demo_message"
proof -
  obtain g where g: "on_publish demo_env 0 3 (demo_publish [1] [42]) demo_state2 = Returns g" "config g = demo_config"
      "map_of (topics g) [1] = Some ((demo_topic [])\<lparr>t_receive_channel := [demo_message], t_history := [[42]] # replicate 4 []\<rparr>)"
    using demo_delivers by blast
  have "exec demo_env 3 (Inbound 0 [1, 42]) demo_state2 = Returns g"
    using g(1) by (simp add: exec_def onMessage_def demo_parse_def pb_RPC_empty_def peer_below_def below_def demo_score
        demo_state_defs Score_new_def peer_at_def and_then_def handle_ihave_def)
  then have "reachable demo_env demo_config 3 g"
    by (intro reachable.step [OF demo_reachable(2) gossip_step.run [where e = "Inbound 0 [1, 42]"]])
      (simp_all add: enabled_def demo_state_defs)
  from strict_delivers_authentic [OF demo_env_ok demo_config_ok this _ g(3)] g(2) show ?thesis by simp
qed

section \<open>Who gets a message\<close>

text \<open>The messages waiting in the batch of a peer.\<close>

definition published :: "Gossip \<Rightarrow> PeerPtr \<Rightarrow> Message list" where
  "published g pp = (case p_batch (peer_at g pp) of None \<Rightarrow> [] | Some b \<Rightarrow> publish b)"

text \<open>The checks of \<open>add_peer\<close>: neither the origin nor the author, and not below the threshold.\<close>

definition eligible :: "Gossip \<Rightarrow> PeerId option \<Rightarrow> Message \<Rightarrow> PeerPtr \<Rightarrow> bool" where
  "eligible g src m pp \<longleftrightarrow>
     src \<noteq> Some (p_peer_id (peer_at g pp)) \<and> m_from m \<noteq> Some (p_peer_id (peer_at g pp)) \<and> \<not> peer_below g pp publish_threshold"

lemma published_upd_batch:
  assumes "pp < length (heap g)"
  shows "published (upd_batch pp f g) q =
    (if q = pp then publish (f (case p_batch (peer_at g pp) of None \<Rightarrow> Rpc_new | Some b \<Rightarrow> b)) else published g q)"
  using assms
  by (auto simp: published_def upd_batch_def getBatch_def checkWrite_def upd_peer_def peer_at_def Let_def nth_list_update split: option.splits)

lemma published_batch: "publish (case p_batch (peer_at g pp) of None \<Rightarrow> Rpc_new | Some b \<Rightarrow> b) = published g pp"
  by (simp add: published_def Rpc_new_def split: option.split)

lemma published_upd_batch_id:
  assumes "\<And>b. publish (f b) = publish b"
  shows "published (upd_batch pp f g) q = published g q"
proof (cases "pp < length (heap g)")
  case True
  then show ?thesis using assms by (simp add: published_upd_batch) (simp add: published_def Rpc_new_def split: option.split)
next
  case False
  then show ?thesis
    by (simp add: published_def upd_batch_def getBatch_def checkWrite_def upd_peer_def peer_at_def Let_def list_update_beyond)
qed

lemma eligible_same:
  assumes "same g g'" and "pp < length (heap g)"
  shows "eligible g' src m pp = eligible g src m pp"
  using core_eqD(1) [OF same_core [OF assms]] sameD(1,4) [OF assms(1)]
  by (simp add: eligible_def peer_at_def peer_below_def)

lemma published_add_peer:
  assumes "pp < length (heap g)"
  shows "published (add_peer src send mid m pp g) q = published g q @ (if q = pp \<and> eligible g src m pp then [m] else [])"
  using assms by (simp add: add_peer_def eligible_def Let_def published_upd_batch published_batch)

lemma published_fold:
  assumes "distinct pps" and "\<forall>pp \<in> set pps. pp < length (heap g)"
  shows "published (fold (add_peer src send mid m) pps g) q = published g q @ (if q \<in> set pps \<and> eligible g src m q then [m] else [])"
  using assms
proof (induction pps arbitrary: g)
  case (Cons pp pps)
  let ?g1 = "add_peer src send mid m pp g"
  have s: "same g ?g1" by (rule same_add_peer)
  have "published (fold (add_peer src send mid m) pps ?g1) q = published ?g1 q @ (if q \<in> set pps \<and> eligible ?g1 src m q then [m] else [])"
    using Cons.prems sameD(6) [OF s] by (intro Cons.IH) auto
  moreover have "eligible ?g1 src m q = eligible g src m q" if "q \<in> set pps"
    using that Cons.prems(2) by (intro eligible_same [OF s]) auto
  ultimately show ?case using Cons.prems by (auto simp: published_add_peer)
qed simp

lemma fold_floodsub:
  assumes "\<forall>pp \<in> set pps. pp < length (heap g)"
  shows "fold (\<lambda>pp g. if isFloodsub (peer_at g pp) then add_peer src send mid m pp g else g) pps g
    = fold (add_peer src send mid m) (filter (\<lambda>pp. isFloodsub (peer_at g pp)) pps) g"
  using assms
proof (induction pps arbitrary: g)
  case (Cons pp pps)
  let ?g1 = "if isFloodsub (peer_at g pp) then add_peer src send mid m pp g else g"
  have s: "same g ?g1" by (simp add: same_add_peer)
  have "filter (\<lambda>pp. isFloodsub (peer_at ?g1 pp)) pps = filter (\<lambda>pp. isFloodsub (peer_at g pp)) pps"
    using Cons.prems core_eqD(6) [OF same_core [OF s]] by (intro filter_cong) (auto simp: peer_at_def)
  with Cons.IH [of ?g1] Cons.prems sameD(6) [OF s] show ?case by auto
qed simp

lemma isFloodsub_not_Gossipsub: "isGossipsub p \<Longrightarrow> \<not> isFloodsub p"
  by (cases "p_peer_kind p") (auto simp: isGossipsub_def isFloodsub_def less_eq_PeerKind_def)

text \<open>
  \<^bold>\<open>C4\<close> (functional). A message that is relayed, or published with flooding, is put
  exactly once into the batch of each peer that may get it and into no other batch: when it
  is relayed, of the subscribed peers that speak floodsub and those of the mesh, when it is
  flooded, of all subscribed peers, in each case but for the peer it came from, its author
  and the peers whose score is below the publish threshold.
\<close>

theorem broadcast_targets:
  assumes "ginv env T g" and "map_of (topics g) th = Some topic" and "q < length (heap g)"
    and "src \<noteq> None \<or> flood_publish (config g)"
  shows "published (broadcast env th src mid m now g) q = published g q @
    (if q \<in> set (t_peers topic) \<and> (src = None \<or> isFloodsub (peer_at g q) \<or> q \<in> set (t_mesh_peers topic)) \<and> eligible g src m q
     then [m] else [])"
proof -
  define g3 where "g3 = upd_topic th (\<lambda>t. t\<lparr>t_history := history_add (t_history t) mid\<rparr>)
    (g\<lparr>message_cache := emplace mid \<lparr>ce_message = m, ce_iwant = []\<rparr> (message_cache g)\<rparr>)
    \<lparr>gossip_promises := gp_remove (gossip_promises g) mid\<rparr>"
  define send where "send = ((src \<noteq> None \<or> idontwant_on_publish (config g))
    \<and> \<not> length (message_bytes env (toProtobuf m)) \<le> idontwant_message_size_threshold (config g))"
  define idw where "idw = foldl (\<lambda>g pp. upd_batch pp (\<lambda>b. b\<lparr>idontwant := set_insert mid (idontwant b)\<rparr>) g)"
  define g4 where "g4 = (if src \<noteq> None \<and> send then idw g3 (gp_peers (gossip_promises g3) mid) else g3)"
  have idw: "same h (idw h pps) \<and> published (idw h pps) q = published h q" for h pps
  proof (induction pps arbitrary: h)
    case (Cons pp pps)
    let ?h = "upd_batch pp (\<lambda>b. b\<lparr>idontwant := set_insert mid (idontwant b)\<rparr>) h"
    have "same h ?h" "published ?h q = published h q" by (simp_all add: same_upd_batch published_upd_batch_id)
    with Cons.IH [of ?h] same_trans [of h ?h] show ?case by (simp add: idw_def)
  qed (simp add: idw_def)
  have s4: "same g3 g4" "published g4 q = published g3 q" using idw by (simp_all add: g4_def)
  have g3: "heap g3 = heap g" "config g3 = config g" "scores g3 = scores g" by (simp_all add: g3_def)
  have t3: "t_peers (topic_at g3 th) = t_peers topic" "t_mesh_peers (topic_at g3 th) = t_mesh_peers topic"
    using assms(2) by (simp_all add: g3_def topic_at_def upd_topic_def map_of_map_entry)
  have t4: "t_peers (topic_at g4 th) = t_peers topic" "t_mesh_peers (topic_at g4 th) = t_mesh_peers topic"
    using sameD(7) [OF s4(1)] t3 by simp_all
  have wf: "topic_wf (deliverable env (config g)) (heap g) th topic" using ginvD(4) [OF assms(1,2)] .
  have v: "\<forall>pp \<in> set (t_peers topic). pp < length (heap g4)" "distinct (t_peers topic)" "distinct (t_mesh_peers topic)"
    "set (t_mesh_peers topic) \<subseteq> set (t_peers topic)"
    using wf sameD(6) [OF s4(1)] g3(1) by (auto simp: topic_wf_def)
  have q4: "core (heap g4 ! q) = core (heap g ! q)" using same_core [OF s4(1)] g3(1) assms(3) by simp
  have e4: "eligible g4 src m q = eligible g src m q"
    using eligible_same [OF s4(1), of q src m] g3 assms(3) by (simp add: eligible_def peer_at_def peer_below_def)
  have p4: "published g4 q = published g q" using s4(2) g3(1) by (simp add: published_def peer_at_def)
  let ?add = "add_peer src send mid m"
  let ?g5 = "fold ?add (filter (\<lambda>pp. isFloodsub (peer_at g4 pp)) (t_peers topic)) g4"
  have s5: "same g4 ?g5" by (rule fold_same) (rule same_add_peer)
  have p5: "published ?g5 q = published g4 q @ (if q \<in> set (t_peers topic) \<and> isFloodsub (peer_at g q) \<and> eligible g src m q then [m] else [])"
    using published_fold [of "filter (\<lambda>pp. isFloodsub (peer_at g4 pp)) (t_peers topic)" g4 src send mid m q] v e4
      core_eqD(6) [OF q4] by (auto simp: peer_at_def)
  have p6: "published (fold ?add (t_mesh_peers topic) ?g5) q = published ?g5 q @ (if q \<in> set (t_mesh_peers topic) \<and> eligible g src m q then [m] else [])"
    using published_fold [of "t_mesh_peers topic" ?g5 src send mid m q] v sameD(6) [OF s5] e4
      eligible_same [OF s5, of q src m] by (auto simp: subset_iff)
  have excl: "\<not> (q \<in> set (t_mesh_peers topic) \<and> isFloodsub (peer_at g q))"
    using wf isFloodsub_not_Gossipsub by (auto simp: topic_wf_def peer_at_def)
  have "broadcast env th src mid m now g =
      (if src = None then fold ?add (t_peers topic) g4
       else fold ?add (t_mesh_peers topic) (fold (\<lambda>pp g. if isFloodsub (peer_at g pp) then ?add pp g else g) (t_peers topic) g4))"
    using assms(4) t4
    unfolding broadcast_def send_def g4_def idw_def g3_def Let_def by (auto simp: upd_topic_def)
  moreover have "published (fold ?add (t_peers topic) g4) q = published g q @ (if q \<in> set (t_peers topic) \<and> eligible g src m q then [m] else [])"
    using published_fold [of "t_peers topic" g4 src send mid m q] v e4 p4 by simp
  ultimately show ?thesis
    using p4 p5 p6 excl v(4) fold_floodsub [OF v(1), of src send mid m] by auto
qed

theorem broadcast_targets_witness:
  "published (broadcast demo_env [1] (Some [0, 1, 9]) [42] demo_message 4 demo_state3) 0 = [demo_message]"
proof -
  have t: "map_of (topics demo_state3) [1] = Some (demo_topic [0])" by (simp add: demo_state_defs)
  have "demo_author \<noteq> [0, 1, 5]"
  proof
    assume "demo_author = [0, 1, 5]"
    with demo_author_parses have "length (field (Some [0, 1, 5])) = length (toVector (Multihash_Data identity (1 # replicate 32 7)))"
      by (simp add: demo_author_def field_def)
    then show False by (simp add: field_def toVector_def toBuffer_def Multihash_Data_parts)
  qed
  then have "eligible demo_state3 (Some [0, 1, 9]) demo_message 0"
    by (simp add: eligible_def peer_below_def below_def peer_at_def demo_state_defs demo_score Score_new_def demo_message_def)
  with broadcast_targets [OF demo_ginv(3) t, of 0 "Some [0, 1, 9]" "[42]" demo_message 4] show ?thesis
    by (simp add: demo_topic_def published_def peer_at_def demo_state_defs Rpc_new_def)
qed

section \<open>Handlers\<close>

lemma fold_erase_topics:
  "map_of (topics (fold (\<lambda>th. upd_topic th f) ths g)) th =
     (if th \<in> set ths then map_option (f ^^ count_list ths th) (map_of (topics g) th) else map_of (topics g) th)"
proof (induction ths arbitrary: g)
  case (Cons a ths)
  show ?case unfolding fold_Cons comp_apply Cons.IH
    by (cases "map_of (topics g) th") (auto simp: upd_topic_def map_of_map_entry funpow_swap1 count_list_0_iff)
qed simp

text \<open>
  \<^bold>\<open>C9\<close> (functional). A peer that disconnects is forgotten: its id is no longer connected
  and its peer object is in no topic and no mesh, whatever it had subscribed to.
\<close>

theorem disconnect_forgets:
  assumes "ginv env T g" and "map_of (peers g) q = Some pp"
    and "map_of (topics (on_peer_disconnected q now g)) th = Some t"
  shows "map_of (peers (on_peer_disconnected q now g)) q = None \<and> pp \<notin> set (t_peers t) \<and> pp \<notin> set (t_mesh_peers t)"
proof -
  let ?f = "\<lambda>t. t\<lparr>t_peers := set_erase pp (t_peers t), t_mesh_peers := set_erase pp (t_mesh_peers t)\<rparr>"
  let ?g1 = "upd_score (score_disconnect q now) g"
  let ?ths = "p_topics (peer_at g pp)"
  let ?g2 = "fold (\<lambda>th. upd_topic th ?f) ?ths ?g1"
  have g': "on_peer_disconnected q now g = ?g2\<lparr>peers := AList.delete q (peers ?g2)\<rparr>"
    using assms(2) by (simp add: on_peer_disconnected_def Let_def upd_score_def peer_at_def)
  then have t: "map_of (topics ?g2) th = Some t" using assms(3) by simp
  have "pp \<notin> set (t_peers t)"
  proof (cases "th \<in> set ?ths")
    case True
    then obtain n where "count_list ?ths th = Suc n" using count_list_0_iff [of ?ths th] not0_implies_Suc by blast
    with t True obtain t0 where "t = ?f t0" by (auto simp: fold_erase_topics)
    then show ?thesis by simp
  next
    case False
    then have "map_of (topics g) th = Some t" using t by (simp add: fold_erase_topics upd_score_def)
    from ginvD(4) [OF assms(1) this] False show ?thesis by (auto simp: topic_wf_def peer_at_def)
  qed
  moreover have "set (t_mesh_peers t) \<subseteq> set (t_peers t)"
    using ginvD(4) [OF on_peer_disconnected_spec [OF assms(1)] assms(3)] by (simp add: topic_wf_def)
  ultimately show ?thesis by (auto simp: g' delete_conv')
qed

theorem disconnect_forgets_witness:
  "map_of (peers (on_peer_disconnected [0, 1, 5] 4 demo_state3)) [0, 1, 5] = None"
proof -
  have "\<exists>t. map_of (topics (on_peer_disconnected [0, 1, 5] 4 demo_state3)) [1] = Some t"
    by (simp add: on_peer_disconnected_def access_defs demo_state_defs)
  moreover have "map_of (peers demo_state3) [0, 1, 5] = Some 0" by (simp add: demo_state_defs)
  ultimately show ?thesis using disconnect_forgets [OF demo_ginv(3)] by blast
qed

text \<open>
  \<^bold>\<open>C7\<close> (functional). A GRAFT from a peer in backoff is refused: the mesh stays as it is, the peer
  is penalised, and a PRUNE for the topic is queued for it.
\<close>

theorem graft_in_backoff_refused:
  assumes "ginv env T g" and "pp < length (heap g)" and "isGossipsub (peer_at g pp)"
    and "map_of (topics g) th = Some topic" and "\<not> t_publish_only topic" and "pp \<notin> set (t_mesh_peers topic)"
    and "get_backoff_time g th pp > 0"
  shows "\<exists>g'. on_graft pp now th g = Returns (True, g') \<and> t_mesh_peers (topic_at g' th) = t_mesh_peers topic
    \<and> (\<exists>b. p_batch (peer_at g' pp) = Some b \<and> map_of (prune b) th \<noteq> None)
    \<and> (\<exists>n \<in> {1, 2}. \<exists>s. score_prune (p_peer_id (peer_at g pp)) th ((addPenalty (p_peer_id (peer_at g pp)) 1 ^^ n) (scores g)) = Returns s
         \<and> scores g' = s)"
proof -
  let ?g2 = "add_subscription th pp g"
  note s = add_subscription_spec [OF assms(1,2), of th]
  let ?q = "p_peer_id (peer_at g pp)"
  have g2: "scores ?g2 = scores g" "config ?g2 = config g" "get_backoff_time ?g2 th pp = get_backoff_time g th pp"
    "t_mesh_peers (topic_at ?g2 th) = t_mesh_peers topic" "t_publish_only (topic_at ?g2 th) = t_publish_only topic"
    "p_peer_id (peer_at ?g2 pp) = ?q" "isGossipsub (peer_at ?g2 pp)"
    using assms(2-4) s(4) unfolding add_subscription_def
    by (simp_all add: get_backoff_time_def topic_at_upd topic_at_def [of g th] peer_at_def)
      (simp_all add: topic_at_def upd_peer_def)
  define n :: nat where "n = (if get_backoff_time g th pp + graft_flood_threshold (config g) > prune_backoff (config g) then 2 else 1)"
  let ?sc = "(addPenalty ?q 1 ^^ n) (scores g)"
  let ?g3 = "?g2\<lparr>scores := ?sc\<rparr>"
  have acc: "accept_graft pp th ?g2 = (False, ?g3)"
    using assms(7) g2 by (simp add: accept_graft_def Let_def upd_score_def n_def numeral_2_eq_2)
  have "score_ok ?sc" using ginvD(1) [OF assms(1)] by (induction n) (auto intro: addPenalty_ok)
  then have g3: "ginv env T ?g3" by (rule ginv_score [OF s(1)])
  have th3: "topic_at ?g3 th = topic_at ?g2 th" by (simp add: topic_at_def)
  from score_ops_ok(3) [OF \<open>score_ok ?sc\<close>, of ?q th] obtain sc' where sc': "score_prune ?q th ?sc = Returns sc'" "score_ok sc'"
    by (auto simp: returns_ok_def)
  let ?bo = "if isGossipsubv1_1 (peer_at ?g3 pp) then Some (prune_backoff (config ?g3)) else None"
  let ?g4 = "queue_prune th pp ?bo (?g3\<lparr>scores := sc'\<rparr>)"
  have mp: "make_prune th pp ?g3 = Returns ?g4"
    using g2(6,7) sc' by (simp add: make_prune_eq upd_score_cxx_def peer_at_def)
  have m4: "t_mesh_peers (topic_at ?g4 th) = t_mesh_peers topic"
    using queue_prune_spec(3) [OF ginv_score [OF g3 sc'(2)], of th pp ?bo] g2(4) by (simp add: topic_at_def)
  have "pp < length (heap (?g3\<lparr>scores := sc'\<rparr>))" using s(2) assms(2) by (simp add: keeps_def)
  then have b4: "\<exists>b. p_batch (peer_at ?g4 pp) = Some b \<and> map_of (prune b) th \<noteq> None"
    unfolding queue_prune_def
    by (auto simp: upd_batch_def getBatch_def checkWrite_def upd_peer_def peer_at_def update_backoff_def upd_topic_def Let_def
        emplace_props(1) split: option.split)
  have s4: "scores ?g4 = sc'" by (simp add: queue_prune_def update_backoff_def split: option.split)
  have "on_graft pp now th g = Returns (True, ?g4)"
    using assms(3-6) g2(4,5) acc mp unfolding on_graft_def Let_def add_subscription_def [symmetric] by simp
  moreover have "n \<in> {1, 2}" by (simp add: n_def)
  ultimately show ?thesis using m4 b4 s4 sc'(1) by blast
qed

theorem graft_in_backoff_refused_witness:
  "\<exists>g. on_graft 0 5 [1] (update_backoff [1] 0 60 demo_state2) = Returns (True, g) \<and> t_mesh_peers (topic_at g [1]) = []"
proof -
  let ?g = "update_backoff [1] 0 60 demo_state2"
  let ?b = "tb_update (TopicBackoff_new 60 1 1) (0 :: PeerPtr) 61"
  have t: "map_of (topics ?g) [1] = Some ((demo_topic [])\<lparr>t_backoff := ?b\<rparr>)"
    by (simp add: update_backoff_def upd_topic_def demo_state2_def demo_state1_def demo_topic_def backoff_slots_def Gossip_new_def)
  have b: "tb_get ?b 0 = 61" by code_simp
  have h: "heap ?g = [demo_peer]" "config ?g = demo_config" by (simp_all add: update_backoff_def demo_state_defs)
  have "get_backoff_time ?g [1] 0 > 0" using b by (simp add: get_backoff_time_def topic_at_def t h)
  from graft_in_backoff_refused [OF ginv_update_backoff [OF demo_ginv(2)] _ _ t _ _ this, of 5] show ?thesis
    by (auto simp: h peer_at_def demo_peer_def Peer_new_def isGossipsub_def less_eq_PeerKind_def demo_topic_def)
qed

lemma length_sort_by [simp]: "length (sort_by lt xs) = length xs"
proof -
  have "length (insert_by lt x ys) = Suc (length ys)" for x ys by (induction ys) auto
  then show ?thesis by (induction xs) (auto simp: sort_by_def)
qed


section \<open>The size of the mesh\<close>

lemma mset_insert_by: "mset (insert_by lt x ys) = add_mset x (mset ys)"
  by (induction ys) auto

lemma mset_sort_by: "mset (sort_by lt xs) = mset xs"
  by (induction xs) (simp_all add: sort_by_def mset_insert_by)

lemma prune_order_perm:
  assumes "env_ok env" and "prune_order env th g = (pps, g')"
  shows "mset pps = mset (t_mesh_peers (topic_at g th))" and "g' = g\<lparr>random := random g + 2\<rparr>"
proof -
  let ?s = "sort_by (\<lambda>l r. d_less (peer_score g r) (peer_score g l)) (shuffle_peers env (random g) (t_mesh_peers (topic_at g th)))"
  let ?k = "length ?s - retain_scores (config g)"
  have "mset pps = mset (take ?k ?s) + mset (drop ?k ?s)"
    using assms by (auto simp: prune_order_def Let_def env_ok_def)
  also have "\<dots> = mset ?s" by (metis append_take_drop_id mset_append)
  finally show "mset pps = mset (t_mesh_peers (topic_at g th))" using assms(1) by (simp add: mset_sort_by env_ok_def)
  show "g' = g\<lparr>random := random g + 2\<rparr>" using assms(2) by (simp add: prune_order_def Let_def)
qed

lemma set_erase_remove1: "distinct xs \<Longrightarrow> set_erase x xs = remove1 x xs"
  by (induction xs) (auto simp: set_erase_def filter_id_conv)

text \<open>A step of the mesh as seen by the pruning loop.\<close>

lemma prune_one:
  assumes "ginv env T g" and "map_of (topics g) th \<noteq> None" and "pp \<in> set (t_mesh_peers (topic_at g th))"
  shows "\<exists>g1. make_prune th pp (mesh_erase th pp g) = Returns g1 \<and> ginv env T g1 \<and> mesh_step th g g1
    \<and> t_mesh_peers (topic_at g1 th) = set_erase pp (t_mesh_peers (topic_at g th))
    \<and> meshOutCount g1 th = meshOutCount g th - (if p_out (peer_at g pp) then 1 else 0)"
proof -
  let ?e = "mesh_erase th pp g" and ?M = "t_mesh_peers (topic_at g th)"
  have e: "ginv env T ?e" by (rule ginv_mesh_erase [OF assms(1)])
  have me: "mesh_step th g ?e" unfolding mesh_erase_def by (rule mesh_step_upd_topic) simp
  have te: "t_mesh_peers (topic_at ?e th) = set_erase pp ?M" using assms(2) by (simp add: mesh_erase_def topic_at_upd)
  from make_prune_spec [OF e, of False th pp] obtain g1 where g1: "make_prune th pp ?e = Returns g1" "ginv env T g1"
      "mesh_step th ?e g1" "t_mesh_peers (topic_at g1 th) = set_erase pp ?M"
    using te by (auto simp: wp_False)
  have m1: "mesh_step th g g1" by (rule mesh_step_trans [OF me g1(3)])
  have wf: "topic_wf (deliverable env (config g)) (heap g) th (topic_at g th)" by (rule ginv_topic [OF assms(1,2)])
  have out: "p_out (peer_at g1 q) = p_out (peer_at g q)" if "q \<in> set ?M" for q
    using wf that core_eqD(2) [OF mesh_step_core [OF m1, of q]] by (auto simp: topic_wf_def peer_at_def)
  have "distinct ?M" using wf by (simp add: topic_wf_def)
  have "meshOutCount g1 th = length (filter (\<lambda>q. p_out (peer_at g q)) (set_erase pp ?M))"
    unfolding meshOutCount_def g1(4) using out by (intro arg_cong [where f = length] filter_cong) auto
  also have "\<dots> = meshOutCount g th - (if p_out (peer_at g pp) then 1 else 0)"
    using \<open>distinct ?M\<close> assms(3) by (simp add: meshOutCount_def set_erase_remove1 filter_remove1 length_remove1)
  finally show ?thesis using g1 m1 by blast
qed

lemma hb_prune_loop_mesh:
  assumes "ginv env T g" and "map_of (topics g) th \<noteq> None" and "distinct pps" and "set pps \<subseteq> set (t_mesh_peers (topic_at g th))"
    and "outbound = meshOutCount g th"
    and "\<forall>pp \<in> set (t_mesh_peers (topic_at g th)) - set pps. p_out (peer_at g pp)"
    and "set (t_mesh_peers (topic_at g th)) \<noteq> set pps \<Longrightarrow> outbound \<le> mesh_outbound_min_for_topic (config g) th"
    and "mesh_outbound_min_for_topic (config g) th \<le> mesh_n_for_topic (config g) th"
    and "mesh_n_for_topic (config g) th \<le> length (t_mesh_peers (topic_at g th))"
  shows "\<exists>g'. hb_prune_loop th outbound pps g = Returns g' \<and> length (t_mesh_peers (topic_at g' th)) = mesh_n_for_topic (config g) th
    \<and> set (t_mesh_peers (topic_at g' th)) \<subseteq> set (t_mesh_peers (topic_at g th))
    \<and> min outbound (mesh_outbound_min_for_topic (config g) th) \<le> meshOutCount g' th"
  using assms
proof (induction pps arbitrary: outbound g)
  case Nil
  let ?M = "t_mesh_peers (topic_at g th)"
  have "filter (\<lambda>pp. p_out (peer_at g pp)) ?M = ?M" using Nil.prems(6) by (simp add: filter_id_conv)
  then have "outbound = length ?M" using Nil.prems(5) by (simp add: meshOutCount_def)
  then have "length ?M \<le> mesh_n_for_topic (config g) th"
    using Nil.prems(7,8) by (cases "?M = []") auto
  then show ?case using Nil.prems(5,9) by simp
next
  case (Cons pp pps)
  let ?M = "t_mesh_peers (topic_at g th)" and ?o = "mesh_outbound_min_for_topic (config g) th"
  consider (stop) "length ?M \<le> mesh_n_for_topic (config g) th"
    | (skip) "\<not> length ?M \<le> mesh_n_for_topic (config g) th" "p_out (peer_at g pp)" "outbound \<le> ?o"
    | (drop) "\<not> length ?M \<le> mesh_n_for_topic (config g) th" "\<not> (p_out (peer_at g pp) \<and> outbound \<le> ?o)" by blast
  then show ?case
  proof cases
    case stop
    then show ?thesis using Cons.prems(5,9) by simp
  next
    case skip
    have "\<exists>g'. hb_prune_loop th outbound pps g = Returns g' \<and> length (t_mesh_peers (topic_at g' th)) = mesh_n_for_topic (config g) th
      \<and> set (t_mesh_peers (topic_at g' th)) \<subseteq> set ?M \<and> min outbound ?o \<le> meshOutCount g' th"
      by (rule Cons.IH) (use Cons.prems skip in auto)
    then show ?thesis using skip by simp
  next
    case drop
    have ppM: "pp \<in> set ?M" using Cons.prems(4) by simp
    from prune_one [OF Cons.prems(1,2) this] obtain g1 where
      g1: "make_prune th pp (mesh_erase th pp g) = Returns g1" "ginv env T g1" "mesh_step th g g1"
        "t_mesh_peers (topic_at g1 th) = set_erase pp ?M"
        "meshOutCount g1 th = meshOutCount g th - (if p_out (peer_at g pp) then 1 else 0)" by blast
    have wf: "topic_wf (deliverable env (config g)) (heap g) th (topic_at g th)" by (rule ginv_topic [OF Cons.prems(1,2)])
    have out: "p_out (peer_at g1 q) = p_out (peer_at g q)" if "q \<in> set ?M" for q
      using wf that core_eqD(2) [OF mesh_step_core [OF g1(3), of q]] by (auto simp: topic_wf_def peer_at_def)
    have c1: "config g1 = config g" using mesh_stepD(1) [OF g1(3)] .
    have len: "length (set_erase pp ?M) = length ?M - 1"
      using wf ppM by (simp add: topic_wf_def set_erase_remove1 length_remove1)
    let ?o1 = "if p_out (peer_at g pp) then outbound - 1 else outbound"
    have "\<exists>g'. hb_prune_loop th ?o1 pps g1 = Returns g' \<and> length (t_mesh_peers (topic_at g' th)) = mesh_n_for_topic (config g1) th
      \<and> set (t_mesh_peers (topic_at g' th)) \<subseteq> set (t_mesh_peers (topic_at g1 th))
      \<and> min ?o1 (mesh_outbound_min_for_topic (config g1) th) \<le> meshOutCount g' th"
    proof (rule Cons.IH [OF g1(2)])
      show "map_of (topics g1) th \<noteq> None" using mesh_stepD(4) [OF g1(3)] Cons.prems(2) by simp
      assume "set (t_mesh_peers (topic_at g1 th)) \<noteq> set pps"
      then have "set ?M \<noteq> set (pp # pps)" using Cons.prems(3) by (auto simp: g1(4))
      then have "outbound \<le> ?o" by (rule Cons.prems(7))
      then show "?o1 \<le> mesh_outbound_min_for_topic (config g1) th" unfolding c1 by (auto intro: order_trans [OF diff_le_self])
    qed (use Cons.prems drop g1(4,5) out len in \<open>auto simp: c1\<close>)
    with drop g1(1,4) show ?thesis by (auto simp: c1 split: if_splits)
  qed
qed

text \<open>
  \<^bold>\<open>C6\<close> (bounds). The mesh maintenance of the heartbeat bounds the mesh: it never ends with more than
  \<open>mesh_n_high\<close> peers, and a mesh that had more is cut to exactly \<open>mesh_n\<close> of its peers, keeping
  \<open>mesh_outbound_min\<close> outbound ones if it had so many.
\<close>

theorem mesh_size_bounded:
  assumes "env_ok env" and "ginv env T g" and "map_of (topics g) th = Some topic"
    and "mesh_outbound_min_for_topic (config g) th \<le> mesh_n_for_topic (config g) th"
    and "mesh_n_for_topic (config g) th \<le> mesh_n_high_for_topic (config g) th"
    and "mesh_n_low_for_topic (config g) th \<le> mesh_n_for_topic (config g) th"
  shows "\<exists>g'. hb_size env th now g = Returns g'
    \<and> length (t_mesh_peers (topic_at g' th)) \<le> mesh_n_high_for_topic (config g) th
    \<and> (length (t_mesh_peers topic) \<le> mesh_n_high_for_topic (config g) th
       \<or> length (t_mesh_peers (topic_at g' th)) = mesh_n_for_topic (config g) th
         \<and> set (t_mesh_peers (topic_at g' th)) \<subseteq> set (t_mesh_peers topic)
         \<and> min (meshOutCount g th) (mesh_outbound_min_for_topic (config g) th) \<le> meshOutCount g' th)"
proof -
  have t: "topic_at g th = topic" "map_of (topics g) th \<noteq> None" using assms(3) by (simp_all add: topic_at_def)
  consider (low) "length (t_mesh_peers topic) < mesh_n_low_for_topic (config g) th"
    | (high) "\<not> length (t_mesh_peers topic) < mesh_n_low_for_topic (config g) th" "length (t_mesh_peers topic) > mesh_n_high_for_topic (config g) th"
    | (fine) "\<not> length (t_mesh_peers topic) < mesh_n_low_for_topic (config g) th" "\<not> length (t_mesh_peers topic) > mesh_n_high_for_topic (config g) th" by blast
  then show ?thesis
  proof cases
    case low
    from choose_graft_spec [OF assms(1,2) t(2), of "graft_ok th g" "\<lambda>_. mesh_n_for_topic (config g) th - length (t_mesh_peers topic)" now]
    obtain g' where g': "(let (chosen, g1) = choose_peers env (t_peers topic) (graft_ok th g)
          (\<lambda>_. mesh_n_for_topic (config g) th - length (t_mesh_peers topic)) g in fold_cxx (graft_peer th now) chosen g1) = Returns g'"
        "length (t_mesh_peers (topic_at g' th)) \<le> length (t_mesh_peers topic) + (mesh_n_for_topic (config g) th - length (t_mesh_peers topic))"
      by (auto simp: t(1) graft_ok_def)
    have "hb_size env th now g = Returns g'" using g'(1) low by (simp add: hb_size_def t(1) Let_def)
    with g'(2) low assms(5,6) show ?thesis by auto
  next
    case high
    obtain pps g1 where p: "prune_order env th g = (pps, g1)" by fastforce
    note P = prune_order_perm [OF assms(1) p]
    have s: "set pps = set (t_mesh_peers topic)" using P(1) t(1) by (metis set_mset_mset)
    have d: "distinct pps" using P(1) t(1) ginv_topic [OF assms(2) t(2)] by (metis mset_eq_imp_distinct_iff topic_wf_def)
    have g1: "ginv env T g1" "topic_at g1 th = topic" "map_of (topics g1) th \<noteq> None" "config g1 = config g"
        "meshOutCount g1 th = meshOutCount g th"
      using P(2) assms(2) t by (simp_all add: topic_at_def meshOutCount_def peer_at_def)
    from hb_prune_loop_mesh [OF g1(1,3) d, of "meshOutCount g1 th"] s high assms(4,5) g1 obtain g' where
      g': "hb_prune_loop th (meshOutCount g1 th) pps g1 = Returns g'" "length (t_mesh_peers (topic_at g' th)) = mesh_n_for_topic (config g) th"
        "set (t_mesh_peers (topic_at g' th)) \<subseteq> set (t_mesh_peers topic)"
        "min (meshOutCount g th) (mesh_outbound_min_for_topic (config g) th) \<le> meshOutCount g' th" by auto
    have "hb_size env th now g = Returns g'" using high g'(1) by (simp add: hb_size_def Let_def t p)
    with g' assms(5) show ?thesis by auto
  qed (use t in \<open>simp add: hb_size_def Let_def\<close>)
qed

theorem mesh_size_bounded_witness:
  "\<exists>g. hb_size demo_env [1] 4 demo_state3 = Returns g \<and> length (t_mesh_peers (topic_at g [1])) \<le> 12"
proof -
  have "map_of (topics demo_state3) [1] = Some (demo_topic [0])" "config demo_state3 = demo_config" by (simp_all add: demo_state_defs)
  with mesh_size_bounded [OF demo_env_ok demo_ginv(3), of "[1]" "demo_topic [0]" 4] show ?thesis by auto
qed

section \<open>Requests\<close>




section \<open>Duplicates\<close>



lemma dup_upd_batch [simp]: "duplicate_cache (upd_batch pp f g) = duplicate_cache g"
  using same_upd_batch [of g pp f] by (simp add: same_def)




end
