(* ===== verification/Multiselect.thy ===== *)
theory Multiselect
  imports Varint
begin

text \<open>
  Protocol negotiation: \<open>src/protocol_muxer/multiselect.cpp\<close> and
  \<open>include/libp2p/protocol_muxer/multiselect/serializing.hpp\<close>. A connection is the state of
  a stream with \<open>readSome\<close> and \<open>writeSome\<close>, as in \<open>Varint\<close>. The responder waits for proposals
  until one is acceptable, so it need not return; \<open>None\<close> is a negotiation that goes on
  forever. The lemmas show what the two sides send and agree on over streams that do not
  fail, that the responder returns on every stream that ends, and that the initiator never
  gets past its first proposal.
\<close>

section \<open>Messages\<close>

definition kProtocolId :: ProtocolName where "kProtocolId = ''/multistream/1.0.0''"
definition kMaxMessageSize :: nat where "kMaxMessageSize = 65535"
definition kMaxVarintSize :: nat where "kMaxVarintSize = 3"
definition kNewLine :: byte where "kNewLine = 0x0A"
definition kNA :: ProtocolName where "kNA = ''na''"

datatype MuxError = NEGOTIATION_FAILED | INTERNAL_ERROR | PROTOCOL_VIOLATION

text \<open>
  The buffers: \<open>MsgBuf\<close> grows as needed, the static \<open>TmpMsgBuf\<close> throws \<open>std::bad_alloc\<close>
  beyond its capacity.
\<close>

definition push :: "nat option \<Rightarrow> bytes \<Rightarrow> bytes \<Rightarrow> bytes cxx" where
  "push capacity buffer bs =
     (case capacity of
        None \<Rightarrow> Returns (buffer @ bs)
      | Some c \<Rightarrow> if length buffer + length bs > c then Throws else Returns (buffer @ bs))"

function appendVarint :: "nat option \<Rightarrow> bytes \<Rightarrow> u64 \<Rightarrow> bytes cxx" where
  "appendVarint capacity buffer sz =
     (let byte = ucast (sz AND 0x7f) :: byte;
          sz' = drop_bit 7 sz;
          byte' = (if sz' \<noteq> 0 then byte OR 0x80 else byte)
      in bind_cxx (push capacity buffer [byte'])
           (\<lambda>buffer'. if sz' \<noteq> 0 then appendVarint capacity buffer' sz' else Returns buffer'))"
  by pat_completeness auto
termination
  by (relation "measure (\<lambda>(c, b, v). unat v)") (auto simp: drop_bit_7_less)

declare appendVarint.simps [simp del]

definition appendProtocol :: "nat option \<Rightarrow> bytes \<Rightarrow> ProtocolName \<Rightarrow> (MuxError, bytes) result cxx" where
  "appendProtocol capacity buffer protocol =
     (let msg_size = length protocol + 1
      in if msg_size > kMaxMessageSize - kMaxVarintSize then Returns (Inl INTERNAL_ERROR)
         else
           bind_cxx (appendVarint capacity buffer (word_of_nat msg_size)) (\<lambda>b1.
           bind_cxx (push capacity b1 (map byte_of_char protocol)) (\<lambda>b2.
           bind_cxx (push capacity b2 [kNewLine]) (\<lambda>b3.
             Returns (if length b3 \<le> kMaxMessageSize then Inr b3 else Inl INTERNAL_ERROR)))))"

definition createMessage :: "ProtocolName \<Rightarrow> (MuxError, bytes) result cxx" where
  "createMessage protocol = appendProtocol None [] protocol"

text \<open>The body of the \<open>try\<close> block, then its handler.\<close>

fun appendProtocolList_loop :: "nat option \<Rightarrow> bytes \<Rightarrow> ProtocolName list \<Rightarrow> (MuxError, bytes) result cxx" where
  "appendProtocolList_loop capacity buffer [] = Returns (Inr buffer)"
| "appendProtocolList_loop capacity buffer (p # ps) =
     bind_cxx (appendProtocol capacity buffer p)
       (\<lambda>r. case r of Inl e \<Rightarrow> Returns (Inl e) | Inr buffer' \<Rightarrow> appendProtocolList_loop capacity buffer' ps)"

definition appendProtocolList :: "nat option \<Rightarrow> bytes \<Rightarrow> ProtocolName list \<Rightarrow> bool \<Rightarrow> (MuxError, bytes) result" where
  "appendProtocolList capacity buffer protocols append_final_new_line =
     (case bind_cxx (appendProtocolList_loop capacity buffer protocols)
             (\<lambda>r. case r of
                    Inl e \<Rightarrow> Returns (Inl e)
                  | Inr b \<Rightarrow> if append_final_new_line then bind_cxx (push capacity b [kNewLine]) (\<lambda>b'. Returns (Inr b'))
                             else Returns (Inr b)) of
        Throws \<Rightarrow> Inl INTERNAL_ERROR
      | Returns r \<Rightarrow> r)"

definition createMessage_list :: "ProtocolName list \<Rightarrow> bool \<Rightarrow> (MuxError, bytes) result cxx" where
  "createMessage_list protocols nested =
     (if nested
      then
        (case appendProtocolList (Some (kMaxMessageSize + kMaxVarintSize)) [] protocols True of
           Inl e \<Rightarrow> Returns (Inl e)
         | Inr tmp_buf \<Rightarrow>
             bind_cxx (appendVarint None [] (word_of_nat (length tmp_buf)))
               (\<lambda>ret_buf. bind_cxx (push None ret_buf tmp_buf) (\<lambda>b. Returns (Inr b))))
      else Returns (appendProtocolList None [] protocols False))"

section \<open>Negotiation\<close>

datatype 'e select_error = IoFailed "'e io_error" | MuxFailed MuxError

definition read1 :: "('s, 'e) reader \<Rightarrow> 's \<Rightarrow> ('e select_error, ProtocolName) result \<times> 's" where
  "read1 readSome s =
     (case readVarintMessage readSome s kMaxMessageSize of
        (Inl e, s') \<Rightarrow> (Inl (IoFailed e), s')
      | (Inr message, s') \<Rightarrow>
          if message = [] \<or> last message \<noteq> kNewLine then (Inl (MuxFailed PROTOCOL_VIOLATION), s')
          else (Inr (map char_of_byte (butlast message)), s'))"

text \<open>\<open>createMessage(protocol).value()\<close> throws for a name that is too long.\<close>

definition write1 :: "('s, 'e) writer \<Rightarrow> 's \<Rightarrow> ProtocolName \<Rightarrow> (('e select_error, unit) result \<times> 's) cxx" where
  "write1 writeSome s protocol =
     bind_cxx (createMessage protocol)
       (\<lambda>r. case r of
              Inl e \<Rightarrow> Throws
            | Inr message \<Rightarrow>
                (case write_all writeSome s message of
                   (Inl e, s') \<Rightarrow> Returns (Inl (IoFailed e), s')
                 | (Inr u, s') \<Rightarrow> Returns (Inr u, s')))"

text \<open>\<open>BOOST_OUTCOME_CO_TRY\<close>.\<close>

definition try_cxx ::
  "(('e, 'a) result \<times> 's) cxx \<Rightarrow> ('a \<Rightarrow> 's \<Rightarrow> (('e, 'b) result \<times> 's) cxx) \<Rightarrow> (('e, 'b) result \<times> 's) cxx" where
  "try_cxx r f = bind_cxx r (\<lambda>(x, s). case x of Inl e \<Rightarrow> Returns (Inl e, s) | Inr a \<Rightarrow> f a s)"

text \<open>
  The proposals of the initiator from the answer of the responder on. Every branch of the
  body of \<open>while (true)\<close> returns.
\<close>

definition initiator_turn ::
  "('s, 'e) reader \<Rightarrow> ('s, 'e) writer \<Rightarrow> ProtocolName list \<Rightarrow> nat \<Rightarrow> 's \<Rightarrow> (('e select_error, ProtocolName) result \<times> 's) cxx" where
  "initiator_turn readSome writeSome protocols i s =
     try_cxx (Returns (read1 readSome s)) (\<lambda>protocol s1.
       try_cxx
         (if protocol = kNA
          then
            (if i + 1 \<ge> length protocols then Returns (Inl (MuxFailed NEGOTIATION_FAILED), s1)
             else try_cxx (write1 writeSome s1 (protocols ! (i + 1))) (\<lambda>_ s2. Returns (Inr (i + 1), s2)))
          else Returns (Inr i, s1))
         (\<lambda>i' s2.
            if protocol \<noteq> protocols ! i' then Returns (Inl (MuxFailed PROTOCOL_VIOLATION), s2)
            else Returns (Inr protocol, s2)))"

text \<open>One round of the responder: \<open>None\<close> asks for another proposal.\<close>

definition responder_turn ::
  "('s, 'e) reader \<Rightarrow> ('s, 'e) writer \<Rightarrow> ProtocolName list \<Rightarrow> 's
     \<Rightarrow> (('e select_error, ProtocolName) result \<times> 's) cxx option \<times> 's" where
  "responder_turn readSome writeSome protocols s =
     (case read1 readSome s of
        (Inl e, s1) \<Rightarrow> (Some (Returns (Inl e, s1)), s1)
      | (Inr protocol, s1) \<Rightarrow>
          if protocol \<in> set protocols
          then (Some (try_cxx (write1 writeSome s1 protocol) (\<lambda>_ s2. Returns (Inr protocol, s2))), s1)
          else
            (case write1 writeSome s1 kNA of
               Throws \<Rightarrow> (Some Throws, s1)
             | Returns (Inl e, s2) \<Rightarrow> (Some (Returns (Inl e, s2)), s2)
             | Returns (Inr u, s2) \<Rightarrow> (None, s2)))"

partial_function (option) responder_loop ::
  "('s, 'e) reader \<Rightarrow> ('s, 'e) writer \<Rightarrow> ProtocolName list \<Rightarrow> 's
     \<Rightarrow> (('e select_error, ProtocolName) result \<times> 's) cxx option" where
  "responder_loop readSome writeSome protocols s =
     (let (out, s') = responder_turn readSome writeSome protocols s
      in case out of Some r \<Rightarrow> Some r | None \<Rightarrow> responder_loop readSome writeSome protocols s')"

text \<open>What both sides do first: the handshake and the first proposal.\<close>

definition select_start ::
  "('s, 'e) reader \<Rightarrow> ('s, 'e) writer \<Rightarrow> ProtocolName list \<Rightarrow> bool \<Rightarrow> bool \<Rightarrow> 's \<Rightarrow> (('e select_error, unit) result \<times> 's) cxx" where
  "select_start readSome writeSome protocols is_initiator negotiate_multistream s =
     (if protocols = [] then Returns (Inl (MuxFailed NEGOTIATION_FAILED), s)
      else
        try_cxx (if negotiate_multistream then write1 writeSome s kProtocolId else Returns (Inr (), s)) (\<lambda>_ s1.
        try_cxx (if is_initiator then write1 writeSome s1 (protocols ! 0) else Returns (Inr (), s1)) (\<lambda>_ s2.
          if negotiate_multistream
          then try_cxx (Returns (read1 readSome s2)) (\<lambda>protocol s3.
                 if protocol \<noteq> kProtocolId then Returns (Inl (MuxFailed PROTOCOL_VIOLATION), s3) else Returns (Inr (), s3))
          else Returns (Inr (), s2))))"

definition selectOneOf ::
  "('s, 'e) reader \<Rightarrow> ('s, 'e) writer \<Rightarrow> ProtocolName list \<Rightarrow> bool \<Rightarrow> bool \<Rightarrow> 's
     \<Rightarrow> (('e select_error, ProtocolName) result \<times> 's) cxx option" where
  "selectOneOf readSome writeSome protocols is_initiator negotiate_multistream s =
     (case select_start readSome writeSome protocols is_initiator negotiate_multistream s of
        Throws \<Rightarrow> Some Throws
      | Returns (Inl e, s') \<Rightarrow> Some (Returns (Inl e, s'))
      | Returns (Inr u, s') \<Rightarrow>
          if is_initiator then Some (initiator_turn readSome writeSome protocols 0 s')
          else responder_loop readSome writeSome protocols s')"

section \<open>Frames\<close>

text \<open>A name that fits a message, and its message on the wire.\<close>

definition name_ok :: "ProtocolName \<Rightarrow> bool" where
  "name_ok p \<longleftrightarrow> length p + 1 \<le> kMaxMessageSize - kMaxVarintSize"

definition frame :: "ProtocolName \<Rightarrow> bytes" where
  "frame p = varint_bytes (word_of_nat (length p + 1)) @ map byte_of_char p @ [kNewLine]"

lemma appendVarint_None: "appendVarint None buffer v = Returns (buffer @ varint_bytes v)"
proof (induction v arbitrary: buffer rule: varint_induct)
  case (last v)
  then show ?case by (subst appendVarint.simps) (simp add: push_def Let_def drop_bit_7_eq_0_iff varint_bytes_last)
next
  case (step v)
  then show ?case
    by (subst appendVarint.simps) (simp add: push_def Let_def drop_bit_7_eq_0_iff varint_bytes_step)
qed

lemma frame_length:
  assumes "name_ok p"
  shows "length (frame p) \<le> kMaxMessageSize" and "unat (word_of_nat (length p + 1) :: u64) = length p + 1"
proof -
  have n: "length p + 1 \<le> 65532" using assms by (simp add: name_ok_def kMaxMessageSize_def kMaxVarintSize_def)
  then show u: "unat (word_of_nat (length p + 1) :: u64) = length p + 1"
    using unat_of_nat [of "length p + 1", where ?'a = 64] by (simp only: mod_less)  (simp add: mod_less)
  have "length (varint_bytes (word_of_nat (length p + 1))) \<le> Suc 2" using n u by (intro varint_bytes_length) simp
  with n show "length (frame p) \<le> kMaxMessageSize" by (simp add: frame_def kMaxMessageSize_def)
qed

lemma createMessage_frame: "name_ok p \<Longrightarrow> createMessage p = Returns (Inr (frame p))"
  using frame_length [of p]
  by (simp add: createMessage_def appendProtocol_def appendVarint_None push_def name_ok_def frame_def Let_def not_less)

section \<open>Connections\<close>

text \<open>
  A connection that does not fail: what is read is taken from the pending bytes, what is
  written is added to the bytes sent, in any portions, and neither disturbs the other.
\<close>

definition duplex_ok :: "('s, 'e) reader \<Rightarrow> ('s, 'e) writer \<Rightarrow> ('s \<Rightarrow> bytes) \<Rightarrow> ('s \<Rightarrow> bytes) \<Rightarrow> bool" where
  "duplex_ok readSome writeSome pending sent \<longleftrightarrow>
     reader_ok readSome pending \<and> writer_ok writeSome sent \<and>
     (\<forall>s n. sent (snd (readSome s n)) = sent s) \<and> (\<forall>s bs. pending (snd (writeSome s bs)) = pending s)"

lemma read_exact_keeps:
  assumes "\<And>s n. P (snd (readSome s n)) = P s"
  shows "P (snd (read_exact readSome s n)) = P s"
proof (induction n arbitrary: s rule: less_induct)
  case (less n)
  obtain r s' where r: "readSome s n = (r, s')" by fastforce
  have s': "P s' = P s" using assms [of s n] r by simp
  show ?case
  proof (cases r)
    case (Inl e)
    then show ?thesis using r s' by (subst read_exact.simps) simp
  next
    case (Inr bs)
    have "P (snd (read_exact readSome s' (n - length bs))) = P s'" if "0 < length bs" "n \<noteq> 0"
      using that by (intro less) simp
    then show ?thesis using r s' Inr
      by (subst read_exact.simps) (auto split: prod.split sum.split)
  qed
qed

lemma write_all_keeps:
  assumes "\<And>s bs. P (snd (writeSome s bs)) = P s"
  shows "P (snd (write_all writeSome s bs)) = P s"
proof (induction bs arbitrary: s rule: length_induct)
  case (1 bs)
  obtain r s' where r: "writeSome s bs = (r, s')" by fastforce
  have s': "P s' = P s" using assms [of s bs] r by simp
  show ?case
  proof (cases r)
    case (Inl e)
    then show ?thesis using r s' by (subst write_all.simps) simp
  next
    case (Inr n)
    have "P (snd (write_all writeSome s' (drop n bs))) = P s'" if "0 < n" "bs \<noteq> []" using that 1 by simp
    then show ?thesis using r s' Inr by (subst write_all.simps) auto
  qed
qed

lemma readVarint_keeps:
  assumes "\<And>s n. P (snd (readSome s n)) = P s"
  shows "P (snd (readVarint readSome s)) = P s"
proof -
  note e = read_exact_keeps [of P readSome, OF assms]
  have "P (snd (readVarint_loop readSome s r)) = P s" for r
  proof (induction "reader_fuel r" arbitrary: s r rule: less_induct)
    case less
    obtain x s' where x: "read_exact readSome s 1 = (x, s')" by fastforce
    have "P s' = P s" using e [of s 1] x by simp
    with less x show ?case
      by (subst readVarint_loop.simps) (auto simp: reader_fuel_decreases split: sum.split)
  qed
  then have "P s' = P s" if "readVarint_loop readSome s VarintPrefixReader_init = (x, s')" for x s'
    using that by (metis snd_conv)
  then show ?thesis unfolding readVarint_def by (auto split: prod.split sum.split)
qed

lemma readVarintMessage_keeps:
  assumes "\<And>s n. P (snd (readSome s n)) = P s"
  shows "P (snd (readVarintMessage readSome s m)) = P s"
proof -
  obtain x s' where x: "readVarint readSome s = (x, s')" by fastforce
  have "P s' = P s" using readVarint_keeps [of P readSome s, OF assms] x by simp
  then show ?thesis
    using read_exact_keeps [of P readSome, OF assms] x by (auto simp: readVarintMessage_def split: sum.split)
qed

lemma read1_keeps:
  assumes "\<And>s n. P (snd (readSome s n)) = P s"
  shows "P (snd (read1 readSome s)) = P s"
proof -
  obtain x s' where x: "readVarintMessage readSome s kMaxMessageSize = (x, s')" by fastforce
  then have "P s' = P s" using readVarintMessage_keeps [of P readSome s, OF assms] by (metis snd_conv)
  then show ?thesis using x by (auto simp: read1_def split: sum.split)
qed

text \<open>Reading a frame, and writing one.\<close>

lemma read1_frame:
  assumes "duplex_ok readSome writeSome pending sent" and "name_ok p" and "pending s = frame p @ rest"
  shows "\<exists>s'. read1 readSome s = (Inr p, s') \<and> pending s' = rest \<and> sent s' = sent s"
proof -
  have ok: "reader_ok readSome pending" and k: "\<And>s n. sent (snd (readSome s n)) = sent s"
    using assms(1) by (simp_all add: duplex_ok_def)
  let ?m = "map byte_of_char p @ [kNewLine]" and ?v = "word_of_nat (length p + 1) :: u64"
  note len = frame_length [OF assms(2)]
  obtain t where t: "readVarint readSome s = (Inr ?v, t)" "pending t = ?m @ rest"
    using readVarint_ok [OF ok, of s ?v "?m @ rest"] assms(3) by (auto simp: frame_def)
  obtain s' where s': "read_exact readSome t (length p + 1) = (Inr ?m, s')" "pending s' = rest"
    using read_exact_ok [OF ok, of "length p + 1" t] t(2) by auto
  have "length p + 1 \<le> kMaxMessageSize" using len(1) by (simp add: frame_def)
  then have "readVarintMessage readSome s kMaxMessageSize = (Inr ?m, s')"
    using t(1) s'(1) len(2) by (simp add: readVarintMessage_def)
  then have "read1 readSome s = (Inr p, s')" by (simp add: read1_def comp_def)
  then show ?thesis using s'(2) read1_keeps [of sent readSome s, OF k] by simp
qed

lemma write1_frame:
  assumes "duplex_ok readSome writeSome pending sent" and "name_ok p"
  shows "\<exists>s'. write1 writeSome s p = Returns (Inr (), s') \<and> sent s' = sent s @ frame p \<and> pending s' = pending s"
proof -
  have ok: "writer_ok writeSome sent" and k: "\<And>s bs. pending (snd (writeSome s bs)) = pending s"
    using assms(1) by (simp_all add: duplex_ok_def)
  obtain s' where s': "write_all writeSome s (frame p) = (Inr (), s')" "sent s' = sent s @ frame p"
    using write_all_ok [OF ok] by blast
  then have "pending s' = pending s" using write_all_keeps [of pending writeSome s "frame p", OF k] by simp
  then show ?thesis using s' by (simp add: write1_def createMessage_frame [OF assms(2)])
qed

section \<open>The responder\<close>

lemma name_ok_constants [simp]: "name_ok kNA" "name_ok kProtocolId"
  by (simp_all add: name_ok_def kNA_def kProtocolId_def kMaxMessageSize_def kMaxVarintSize_def)

lemma try_cxx_simps [simp]:
  "try_cxx Throws f = Throws" "try_cxx (Returns (Inl e, s)) f = Returns (Inl e, s)" "try_cxx (Returns (Inr a, s)) f = f a s"
  by (simp_all add: try_cxx_def)

lemma responder_loop_frames:
  assumes "duplex_ok readSome writeSome pending sent" and "p \<in> set protocols" and "name_ok p"
    and "\<forall>q \<in> set ps. name_ok q \<and> q \<notin> set protocols"
    and "pending s = concat (map frame ps) @ frame p @ rest"
  shows "\<exists>s'. responder_loop readSome writeSome protocols s = Some (Returns (Inr p, s')) \<and> pending s' = rest
    \<and> sent s' = sent s @ concat (replicate (length ps) (frame kNA)) @ frame p"
  using assms(4,5)
proof (induction ps arbitrary: s)
  case Nil
  obtain s1 where s1: "read1 readSome s = (Inr p, s1)" "pending s1 = rest" "sent s1 = sent s"
    using read1_frame [OF assms(1,3)] Nil.prems(2) by fastforce
  obtain s2 where s2: "write1 writeSome s1 p = Returns (Inr (), s2)" "sent s2 = sent s1 @ frame p" "pending s2 = pending s1"
    using write1_frame [OF assms(1,3)] by blast
  show ?case using s1 s2 assms(2) by (subst responder_loop.simps) (simp add: responder_turn_def)
next
  case (Cons q ps)
  have q: "name_ok q" "q \<notin> set protocols" using Cons.prems(1) by simp_all
  obtain s1 where s1: "read1 readSome s = (Inr q, s1)" "pending s1 = concat (map frame ps) @ frame p @ rest" "sent s1 = sent s"
    using read1_frame [OF assms(1) q(1)] Cons.prems(2) by fastforce
  obtain s2 where s2: "write1 writeSome s1 kNA = Returns (Inr (), s2)" "sent s2 = sent s1 @ frame kNA" "pending s2 = pending s1"
    using write1_frame [OF assms(1)] name_ok_constants(1) by blast
  have "responder_loop readSome writeSome protocols s = responder_loop readSome writeSome protocols s2"
    using s1 s2 q(2) by (subst responder_loop.simps) (simp add: responder_turn_def)
  with Cons.IH [of s2] Cons.prems(1) s1 s2 show ?case by simp
qed

lemma selectOneOf_responder:
  assumes "duplex_ok readSome writeSome pending sent" and "p \<in> set protocols" and "name_ok p"
    and "\<forall>q \<in> set ps. name_ok q \<and> q \<notin> set protocols"
    and "pending s = frame kProtocolId @ concat (map frame ps) @ frame p @ rest"
  shows "\<exists>s'. selectOneOf readSome writeSome protocols False True s = Some (Returns (Inr p, s')) \<and> pending s' = rest
    \<and> sent s' = sent s @ frame kProtocolId @ concat (replicate (length ps) (frame kNA)) @ frame p"
proof -
  have ne: "protocols \<noteq> []" using assms(2) by auto
  obtain s1 where s1: "write1 writeSome s kProtocolId = Returns (Inr (), s1)" "sent s1 = sent s @ frame kProtocolId" "pending s1 = pending s"
    using write1_frame [OF assms(1)] name_ok_constants(2) by blast
  obtain s2 where s2: "read1 readSome s1 = (Inr kProtocolId, s2)" "pending s2 = concat (map frame ps) @ frame p @ rest" "sent s2 = sent s1"
    using read1_frame [OF assms(1) name_ok_constants(2)] s1(3) assms(5) by fastforce
  have "select_start readSome writeSome protocols False True s = Returns (Inr (), s2)"
    using ne s1 s2 by (simp add: select_start_def)
  then show ?thesis using responder_loop_frames [OF assms(1-4) s2(2)] s1 s2 by (simp add: selectOneOf_def)
qed

lemma selectOneOf_initiator:
  assumes "duplex_ok readSome writeSome pending sent" and "name_ok p" and "p \<noteq> kNA"
    and "pending i = frame kProtocolId @ frame p @ rest"
  shows "\<exists>i'. selectOneOf readSome writeSome (p # ps) True True i = Some (Returns (Inr p, i')) \<and> pending i' = rest
    \<and> sent i' = sent i @ frame kProtocolId @ frame p"
proof -
  obtain i1 where i1: "write1 writeSome i kProtocolId = Returns (Inr (), i1)" "sent i1 = sent i @ frame kProtocolId" "pending i1 = pending i"
    using write1_frame [OF assms(1)] name_ok_constants(2) by blast
  obtain i2 where i2: "write1 writeSome i1 p = Returns (Inr (), i2)" "sent i2 = sent i1 @ frame p" "pending i2 = pending i1"
    using write1_frame [OF assms(1,2)] by blast
  obtain i3 where i3: "read1 readSome i2 = (Inr kProtocolId, i3)" "pending i3 = frame p @ rest" "sent i3 = sent i2"
    using read1_frame [OF assms(1) name_ok_constants(2)] i1(3) i2(3) assms(4) by fastforce
  obtain i4 where i4: "read1 readSome i3 = (Inr p, i4)" "pending i4 = rest" "sent i4 = sent i3"
    using read1_frame [OF assms(1,2), of i3 rest] i3(2) by auto
  have "selectOneOf readSome writeSome (p # ps) True True i = Some (Returns (Inr p, i4))"
    using i1 i2 i3 i4 assms(3) by (simp add: selectOneOf_def select_start_def initiator_turn_def)
  then show ?thesis using i1 i2 i3 i4 by auto
qed

text \<open>
  \<^bold>\<open>C28\<close> (functional). Over a connection that does not fail, a responder that supports
  some of the proposals it gets answers the handshake, refuses every proposal before the
  first one it supports with \<open>na\<close>, accepts that one by echoing it, and returns it, leaving
  what follows unread.
\<close>

theorem multiselect_responder:
  assumes "duplex_ok readSome writeSome pending sent" and "p \<in> set protocols" and "name_ok p"
    and "\<forall>q \<in> set ps. name_ok q \<and> q \<notin> set protocols"
    and "pending s = frame kProtocolId @ concat (map frame ps) @ frame p @ rest"
  shows "\<exists>s'. selectOneOf readSome writeSome protocols False True s = Some (Returns (Inr p, s')) \<and> pending s' = rest
    \<and> sent s' = sent s @ frame kProtocolId @ concat (replicate (length ps) (frame kNA)) @ frame p"
  using assms by (rule selectOneOf_responder)

section \<open>The initiator\<close>

text \<open>
  \<^bold>\<open>C29\<close> (functional). The two sides agree: an initiator whose first protocol the responder
  supports proposes it, and on the responder's answer returns it; the responder, given what
  the initiator sent, sends exactly that answer and returns the same protocol.
\<close>

theorem multiselect_agree:
  assumes "duplex_ok readSome writeSome pending sent" and "p \<in> set supported" and "name_ok p" and "p \<noteq> kNA"
    and "pending r = frame kProtocolId @ frame p" and "pending i = frame kProtocolId @ frame p"
  shows "\<exists>r' i'. selectOneOf readSome writeSome supported False True r = Some (Returns (Inr p, r'))
      \<and> sent r' = sent r @ pending i
    \<and> selectOneOf readSome writeSome (p # ps) True True i = Some (Returns (Inr p, i'))
      \<and> sent i' = sent i @ pending r"
  using selectOneOf_responder [OF assms(1-3), of "[]" r "[]"] selectOneOf_initiator [OF assms(1,3,4), of i "[]" ps] assms(5,6)
  by auto

text \<open>
  \<^bold>\<open>C31\<close> (error). The initiator never gets past its first proposal. Whatever the other side
  answers, over any stream, the only protocol it can return is the first of its list; and
  when a proposal is refused with \<open>na\<close> and there is a next one, it sends that proposal and
  then reports a protocol violation, because the answer \<open>na\<close> is compared with the new proposal.
\<close>

theorem initiator_never_falls_back:
  "(kNA \<notin> set protocols \<longrightarrow> selectOneOf readSome writeSome protocols True negotiate s = Some (Returns (Inr p, s')) \<longrightarrow> p = hd protocols)
   \<and> (read1 readSome t = (Inr kNA, t1) \<longrightarrow> kNA \<notin> set protocols \<longrightarrow> i + 1 < length protocols
      \<longrightarrow> write1 writeSome t1 (protocols ! (i + 1)) = Returns (Inr (), t2)
      \<longrightarrow> initiator_turn readSome writeSome protocols i t = Returns (Inl (MuxFailed PROTOCOL_VIOLATION), t2))"
proof -
  have turn: "p = protocols ! 0" if na: "kNA \<notin> set protocols" and ne: "protocols \<noteq> []"
    and t: "initiator_turn readSome writeSome protocols 0 u = Returns (Inr p, u')" for u u'
  proof -
    obtain x u1 where r: "read1 readSome u = (x, u1)" by fastforce
    show ?thesis
    proof (cases x)
      case (Inl e)
      with t r show ?thesis by (simp add: initiator_turn_def)
    next
      case (Inr q)
      have "q \<noteq> kNA"
      proof
        assume q: "q = kNA"
        obtain y where y: "write1 writeSome u1 (protocols ! 1) = y" by simp
        have "1 < length protocols \<Longrightarrow> protocols ! 1 \<noteq> kNA" using na by (metis nth_mem)
        then show False using t r Inr q y
          by (cases y) (auto simp: initiator_turn_def try_cxx_def split: if_splits sum.splits)
      qed
      then show ?thesis using t r Inr by (auto simp: initiator_turn_def split: if_splits)
    qed
  qed
  have "p = hd protocols" if na: "kNA \<notin> set protocols"
    and sel: "selectOneOf readSome writeSome protocols True negotiate s = Some (Returns (Inr p, s'))"
  proof -
    obtain u where u: "initiator_turn readSome writeSome protocols 0 u = Returns (Inr p, s')"
      using sel by (auto simp: selectOneOf_def split: cxx.splits prod.splits sum.splits)
    have "protocols \<noteq> []" using sel by (auto simp: selectOneOf_def select_start_def)
    with turn [OF na _ u] show ?thesis by (simp add: hd_conv_nth)
  qed
  moreover have "initiator_turn readSome writeSome protocols i t = Returns (Inl (MuxFailed PROTOCOL_VIOLATION), t2)"
    if "read1 readSome t = (Inr kNA, t1)" "kNA \<notin> set protocols" "i + 1 < length protocols"
      "write1 writeSome t1 (protocols ! (i + 1)) = Returns (Inr (), t2)"
  proof -
    have "kNA \<noteq> protocols ! (i + 1)" using that(2,3) by (metis nth_mem)
    with that show ?thesis by (simp add: initiator_turn_def)
  qed
  ultimately show ?thesis by blast
qed

section \<open>Termination\<close>

text \<open>
  A stream that ends: once nothing is pending, reading fails, and writing brings no new
  input.
\<close>

definition stream_ends :: "('s, 'e) reader \<Rightarrow> ('s, 'e) writer \<Rightarrow> ('s \<Rightarrow> bytes) \<Rightarrow> bool" where
  "stream_ends readSome writeSome pending \<longleftrightarrow>
     reader_ok readSome pending \<and> (\<forall>s n. pending s = [] \<longrightarrow> 0 < n \<longrightarrow> (\<exists>e s'. readSome s n = (Inl e, s')))
     \<and> (\<forall>s bs. pending (snd (writeSome s bs)) = pending s)"

lemma read_exact_consumes:
  assumes "stream_ends readSome writeSome pending" and "read_exact readSome s n = (Inr bs, s')"
  shows "length (pending s') + n = length (pending s)"
  using assms(2)
proof (induction n arbitrary: s bs rule: less_induct)
  case (less n)
  show ?case
  proof (cases "n = 0")
    case True
    then show ?thesis using less.prems by (simp add: read_exact.simps)
  next
    case False
    have ne: "pending s \<noteq> []"
    proof
      assume "pending s = []"
      then obtain e s1 where "readSome s n = (Inl e, s1)"
        using assms(1) False unfolding stream_ends_def by (metis neq0_conv)
      then show False using less.prems False by (simp add: read_exact.simps)
    qed
    then obtain k s1 where k: "1 \<le> k" "k \<le> n" "k \<le> length (pending s)"
      "readSome s n = (Inr (take k (pending s)), s1)" "pending s1 = drop k (pending s)"
      using assms(1) False unfolding stream_ends_def reader_ok_def by (metis neq0_conv)
    have "length (take k (pending s)) = k" using k(3) by simp
    then obtain bs' where "read_exact readSome s1 (n - k) = (Inr bs', s')"
      using less.prems False k by (subst (asm) read_exact.simps) (auto split: prod.splits sum.splits if_splits)
    from less.IH [OF _ this] k show ?thesis by simp
  qed
qed

lemma readVarint_consumes:
  assumes "stream_ends readSome writeSome pending" and "readVarint readSome s = (Inr v, s')"
  shows "length (pending s') < length (pending s)"
proof -
  have loop: "length (pending s') \<le> length (pending s) \<and> (vr_state r = kUnderflow \<longrightarrow> length (pending s') < length (pending s))"
    if "readVarint_loop readSome s r = (Inr r', s')" for r r' s s'
    using that
  proof (induction "reader_fuel r" arbitrary: r s rule: less_induct)
    case less
    show ?case
    proof (cases "vr_state r = kUnderflow")
      case True
      then obtain bs s1 where 1: "read_exact readSome s 1 = (Inr bs, s1)" "readVarint_loop readSome s1 (snd (consume_byte r (bs ! 0))) = (Inr r', s')"
        using less.prems by (subst (asm) readVarint_loop.simps) (auto split: prod.splits sum.splits)
      from less.hyps [OF reader_fuel_decreases [OF True] 1(2)] read_exact_consumes [OF assms(1) 1(1)] show ?thesis by simp
    next
      case False
      then show ?thesis using less.prems by (subst (asm) readVarint_loop.simps) simp
    qed
  qed
  obtain r' where "readVarint_loop readSome s VarintPrefixReader_init = (Inr r', s')"
    using assms(2) by (auto simp: readVarint_def split: prod.splits sum.splits if_splits)
  from loop [OF this] show ?thesis by (simp add: VarintPrefixReader_init_def)
qed

lemma read1_consumes:
  assumes "stream_ends readSome writeSome pending" and "read1 readSome s = (Inr p, s')"
  shows "length (pending s') < length (pending s)"
proof -
  obtain m where "readVarintMessage readSome s kMaxMessageSize = (Inr m, s')"
    using assms(2) by (auto simp: read1_def split: prod.splits sum.splits if_splits)
  then obtain v t where "readVarint readSome s = (Inr v, t)" "read_exact readSome t (unat v) = (Inr m, s')"
    by (auto simp: readVarintMessage_def split: prod.splits sum.splits if_splits)
  from readVarint_consumes [OF assms(1) this(1)] read_exact_consumes [OF assms(1) this(2)] show ?thesis by simp
qed

text \<open>
  \<^bold>\<open>C30\<close> (termination). Negotiation returns on every stream that ends, whichever side we are,
  whatever bytes the other side sends and however writing fares: the responder cannot be
  kept in its loop by a peer that sends finitely many bytes.
\<close>

theorem multiselect_terminates:
  assumes "stream_ends readSome writeSome pending"
  shows "\<exists>r. selectOneOf readSome writeSome protocols is_initiator negotiate s = Some r"
proof -
  have loop: "\<exists>r. responder_loop readSome writeSome protocols t = Some r" for t
  proof (induction "length (pending t)" arbitrary: t rule: less_induct)
    case less
    obtain out t' where turn: "responder_turn readSome writeSome protocols t = (out, t')" by fastforce
    show ?case
    proof (cases out)
      case None
      obtain x t1 where r: "read1 readSome t = (x, t1)" by fastforce
      then obtain p where p: "x = Inr p" using turn None by (cases x) (auto simp: responder_turn_def)
      obtain u where w: "write1 writeSome t1 kNA = Returns (Inr u, t')"
        using turn None r p by (auto simp: responder_turn_def split: if_splits cxx.splits prod.splits sum.splits)
      have "pending t' = pending t1"
      proof -
        obtain y where "write_all writeSome t1 (frame kNA) = (y, t')"
          using w by (auto simp: write1_def createMessage_frame split: prod.splits sum.splits)
        then show ?thesis using write_all_keeps [of pending writeSome t1 "frame kNA"] assms by (simp add: stream_ends_def)
      qed
      then have "length (pending t') < length (pending t)" using read1_consumes [OF assms r [unfolded p]] by simp
      from less [OF this] turn None show ?thesis by (subst responder_loop.simps) simp
    qed (use turn in \<open>simp add: responder_loop.simps\<close>)
  qed
  then show ?thesis unfolding selectOneOf_def by (auto split: cxx.split prod.split sum.split)
qed

section \<open>Witnesses\<close>

text \<open>A connection over two byte lists that moves at most two bytes a call.\<close>

definition demo_read :: "(bytes \<times> bytes, unit) reader" where
  "demo_read s n = (let (r, inp) = slow_read (fst s) n in (r, (inp, snd s)))"

definition demo_write :: "(bytes \<times> bytes, unit) writer" where
  "demo_write s bs = (let (r, outp) = slow_write (snd s) bs in (r, (fst s, outp)))"

lemma demo_reader_ok: "reader_ok demo_read fst"
  unfolding reader_ok_def
proof (intro allI impI)
  fix s :: "bytes \<times> bytes" and n :: nat
  assume "0 < n" "fst s \<noteq> []"
  with slow_read_ok obtain k s' where "1 \<le> k" "k \<le> n" "k \<le> length (fst s)"
      "slow_read (fst s) n = (Inr (take k (fst s)), s')" "s' = drop k (fst s)"
    unfolding reader_ok_def by (metis id_apply)
  then show "\<exists>k s'. 1 \<le> k \<and> k \<le> n \<and> k \<le> length (fst s)
      \<and> demo_read s n = (Inr (take k (fst s)), s') \<and> fst s' = drop k (fst s)"
    by (intro exI [of _ k] exI [of _ "(s', snd s)"]) (simp add: demo_read_def)
qed

lemma demo_writer_ok: "writer_ok demo_write snd"
  unfolding writer_ok_def
proof (intro allI impI)
  fix s :: "bytes \<times> bytes" and bs :: bytes
  assume "bs \<noteq> []"
  with slow_write_ok obtain k s' where "1 \<le> k" "k \<le> length bs" "slow_write (snd s) bs = (Inr k, s')" "s' = snd s @ take k bs"
    unfolding writer_ok_def by (metis id_apply)
  then show "\<exists>k s'. 1 \<le> k \<and> k \<le> length bs \<and> demo_write s bs = (Inr k, s') \<and> snd s' = snd s @ take k bs"
    by (intro exI [of _ k] exI [of _ "(fst s, s')"]) (simp add: demo_write_def)
qed

lemma demo_duplex: "duplex_ok demo_read demo_write fst snd"
  using demo_reader_ok demo_writer_ok
  by (simp add: duplex_ok_def demo_read_def demo_write_def case_prod_unfold Let_def)

lemma name_ok_short: "length p \<le> 100 \<Longrightarrow> name_ok p"
  by (simp add: name_ok_def kMaxMessageSize_def kMaxVarintSize_def)

theorem multiselect_responder_witness:
  "\<exists>s'. selectOneOf demo_read demo_write [''/b'', ''/c''] False True
       (frame kProtocolId @ concat (map frame [''/a'', ''/z'']) @ frame ''/c'' @ [7], []) = Some (Returns (Inr ''/c'', s')) \<and> fst s' = [7]"
  using multiselect_responder [OF demo_duplex, of "''/c''" "[''/b'', ''/c'']" "[''/a'', ''/z'']"
      "(frame kProtocolId @ concat (map frame [''/a'', ''/z'']) @ frame ''/c'' @ [7], [])" "[7]"]
  by (auto simp: name_ok_short)

theorem multiselect_agree_witness:
  "\<exists>i'. selectOneOf demo_read demo_write [''/a'', ''/b''] True True (frame kProtocolId @ frame ''/a'', []) = Some (Returns (Inr ''/a'', i'))
     \<and> snd i' = frame kProtocolId @ frame ''/a''"
  using multiselect_agree [OF demo_duplex, of "''/a''" "[''/a'']" "(frame kProtocolId @ frame ''/a'', [])"
      "(frame kProtocolId @ frame ''/a'', [])" "[''/b'']"]
  by (auto simp: name_ok_short kNA_def)

theorem initiator_never_falls_back_witness:
  "\<exists>t2. initiator_turn demo_read demo_write [''/a'', ''/b''] 0 (frame kNA, []) = Returns (Inl (MuxFailed PROTOCOL_VIOLATION), t2)
     \<and> snd t2 = frame ''/b''"
proof -
  obtain t1 where t1: "read1 demo_read (frame kNA, []) = (Inr kNA, t1)" "snd t1 = []"
    using read1_frame [OF demo_duplex name_ok_constants(1), of "(frame kNA, [])" "[]"] by auto
  obtain t2 where t2: "write1 demo_write t1 ''/b'' = Returns (Inr (), t2)" "snd t2 = frame ''/b''"
    using write1_frame [OF demo_duplex name_ok_short, of "''/b''" t1] t1(2) by auto
  have "kNA \<notin> set [''/a'', ''/b'']" by (simp add: kNA_def)
  with initiator_never_falls_back [where protocols = "[''/a'', ''/b'']" and readSome = demo_read and writeSome = demo_write
      and i = 0 and t = "(frame kNA, [])" and ?t1.0 = t1 and ?t2.0 = t2] t1(1) t2 show ?thesis by auto
qed

theorem multiselect_terminates_witness:
  "\<exists>r. selectOneOf demo_read demo_write [''/a''] False True (frame kProtocolId @ frame ''/b'', []) = Some r"
  by (rule multiselect_terminates [of _ _ fst])
    (use demo_reader_ok in \<open>simp add: stream_ends_def demo_read_def demo_write_def slow_read_def case_prod_unfold Let_def\<close>)

end
