(* ===== verification/Peer_Store.thy ===== *)
theory Peer_Store
  imports Peer_Id Multiaddress
begin

text \<open>
  The peer store: the in-memory repositories under \<open>src/peer\<close> for the addresses, keys,
  protocols and user agents of peers, \<open>PeerRepository\<close> over them, and \<open>PeerAddress\<close>. A
  repository is a record of its members. Hash maps are association lists and hash sets
  lists without repetition, in some order of iteration; \<open>std::set\<close> is a sorted list. The
  signals an address repository raises are collected in the order of the calls; the slots
  do not touch the repository. Operations that read the clock take its reading as an
  argument, in nanoseconds. \<open>Throws\<close> is the overflow of a signed integer.

  The lemmas show that the address repository implements a map from peers to addresses
  with expiration times, that its order is one of exactly the stored addresses, that the
  signals replay to the stored addresses, that \<open>supportsProtocols\<close> intersects, and that
  peer addresses survive printing and parsing.
\<close>

section \<open>Addresses\<close>

datatype PeerError = SUCCESS | NOT_FOUND

text \<open>\<open>int64_t\<close> counts: durations in milliseconds and time points in nanoseconds.\<close>

definition i64 :: "int \<Rightarrow> bool" where
  "i64 x \<longleftrightarrow> - (2 ^ 63) \<le> x \<and> x < 2 ^ 63"

definition max_time :: int where "max_time = 2 ^ 63 - 1"

definition kPermanent :: int where "kPermanent = 2 ^ 63 - 1"
definition kRecentlyConnected :: int where "kRecentlyConnected = 10 * 60 * 1000"

definition calculateExpirationTime :: "int \<Rightarrow> int \<Rightarrow> int cxx" where
  "calculateExpirationTime now ttl =
     (let ttl_ns = ttl * 1000000
      in if \<not> i64 ttl_ns \<or> \<not> i64 (max_time - ttl_ns) then Throws
         else if now \<ge> max_time - ttl_ns then Returns max_time
         else Returns (now + ttl_ns))"

record AddrPeer =
  expires :: "(Multiaddress, int) alist"
  order :: "Multiaddress list"

datatype AddrSignal = Added PeerId Multiaddress | Removed PeerId Multiaddress

record InmemAddressRepository =
  ar_db :: "(PeerId, AddrPeer) alist"
  resolved_dns_addrs :: "Multiaddress list"
  signals :: "AddrSignal list"

definition AddrPeer_new :: AddrPeer where
  "AddrPeer_new = \<lparr>expires = [], order = []\<rparr>"

definition AddressRepository_new :: InmemAddressRepository where
  "AddressRepository_new = \<lparr>ar_db = [], resolved_dns_addrs = [], signals = []\<rparr>"

text \<open>The set of resolved addresses is ordered by text alone.\<close>

definition isNewDnsAddr :: "Multiaddress \<Rightarrow> InmemAddressRepository \<Rightarrow> bool \<times> InmemAddressRepository" where
  "isNewDnsAddr ma r =
     (if \<exists>a \<in> set (resolved_dns_addrs r). \<not> Multiaddress_less a ma \<and> \<not> Multiaddress_less ma a then (False, r)
      else (True, r\<lparr>resolved_dns_addrs :=
              takeWhile (\<lambda>a. Multiaddress_less a ma) (resolved_dns_addrs r) @ ma
              # dropWhile (\<lambda>a. Multiaddress_less a ma) (resolved_dns_addrs r)\<rparr>))"

text \<open>\<open>db_[p]\<close>: the entry of a peer, made when it is missing.\<close>

definition addr_entry :: "PeerId \<Rightarrow> InmemAddressRepository \<Rightarrow> AddrPeer" where
  "addr_entry p r = (case map_of (ar_db r) p of None \<Rightarrow> AddrPeer_new | Some a \<Rightarrow> a)"

text \<open>One turn of the loops: what was added so far, the entry, the addresses signalled.\<close>

fun add_one :: "int \<Rightarrow> Multiaddress \<Rightarrow> bool \<times> AddrPeer \<times> Multiaddress list \<Rightarrow> bool \<times> AddrPeer \<times> Multiaddress list" where
  "add_one expires_at m (added, a, sig) =
     (if map_of (expires a) m = None
      then (True, a\<lparr>expires := expires a @ [(m, expires_at)], order := order a @ [m]\<rparr>, sig @ [m])
      else (added, a, sig))"

fun upsert_one :: "int \<Rightarrow> Multiaddress \<Rightarrow> bool \<times> AddrPeer \<times> Multiaddress list \<Rightarrow> bool \<times> AddrPeer \<times> Multiaddress list" where
  "upsert_one expires_at m (added, a, sig) =
     (if map_of (expires a) m = None
      then (True, a\<lparr>expires := expires a @ [(m, expires_at)], order := order a @ [m]\<rparr>, sig @ [m])
      else (added, a\<lparr>expires := AList.map_entry m (\<lambda>_. expires_at) (expires a)\<rparr>, sig))"

definition store_entry ::
  "PeerId \<Rightarrow> bool \<times> AddrPeer \<times> Multiaddress list \<Rightarrow> InmemAddressRepository
     \<Rightarrow> (PeerError, bool) result \<times> InmemAddressRepository" where
  "store_entry p = (\<lambda>(added, a, sig) r.
     (Inr added, r\<lparr>ar_db := AList.update p a (ar_db r), signals := signals r @ map (Added p) sig\<rparr>))"

definition addAddresses ::
  "int \<Rightarrow> PeerId \<Rightarrow> Multiaddress list \<Rightarrow> int \<Rightarrow> InmemAddressRepository
     \<Rightarrow> ((PeerError, bool) result \<times> InmemAddressRepository) cxx" where
  "addAddresses now p ma ttl r =
     bind_cxx (calculateExpirationTime now ttl) (\<lambda>expires_at.
       Returns (store_entry p (fold (add_one expires_at) ma (False, addr_entry p r, [])) r))"

definition upsertAddresses ::
  "int \<Rightarrow> PeerId \<Rightarrow> Multiaddress list \<Rightarrow> int \<Rightarrow> InmemAddressRepository
     \<Rightarrow> ((PeerError, bool) result \<times> InmemAddressRepository) cxx" where
  "upsertAddresses now p ma ttl r =
     bind_cxx (calculateExpirationTime now ttl) (\<lambda>expires_at.
       Returns (store_entry p (fold (upsert_one expires_at) ma (False, addr_entry p r, [])) r))"

definition updateAddresses ::
  "int \<Rightarrow> PeerId \<Rightarrow> int \<Rightarrow> InmemAddressRepository \<Rightarrow> ((PeerError, unit) result \<times> InmemAddressRepository) cxx" where
  "updateAddresses now p ttl r =
     (case map_of (ar_db r) p of
        None \<Rightarrow> Returns (Inl NOT_FOUND, r)
      | Some a \<Rightarrow>
          bind_cxx (calculateExpirationTime now ttl) (\<lambda>expires_at.
            Returns (Inr (),
              r\<lparr>ar_db := AList.update p (a\<lparr>expires := map (\<lambda>(m, _). (m, expires_at)) (expires a)\<rparr>) (ar_db r)\<rparr>)))"

definition eraseOrder :: "Multiaddress \<Rightarrow> Multiaddress list \<Rightarrow> bool \<times> Multiaddress list" where
  "eraseOrder addr ord = (if addr \<in> set ord then (True, remove1 addr ord) else (False, ord))"

definition dialFailed :: "PeerId \<Rightarrow> Multiaddress \<Rightarrow> InmemAddressRepository \<Rightarrow> InmemAddressRepository" where
  "dialFailed p addr r =
     (case map_of (ar_db r) p of
        None \<Rightarrow> r
      | Some a \<Rightarrow>
          if map_of (expires a) addr = None then r
          else
            (case eraseOrder addr (order a) of
               (False, _) \<Rightarrow> r
             | (True, ord) \<Rightarrow> r\<lparr>ar_db := AList.update p (a\<lparr>order := ord @ [addr]\<rparr>) (ar_db r)\<rparr>))"

definition getAddresses :: "PeerId \<Rightarrow> InmemAddressRepository \<Rightarrow> (PeerError, Multiaddress list) result" where
  "getAddresses p r = (case map_of (ar_db r) p of None \<Rightarrow> Inl NOT_FOUND | Some a \<Rightarrow> Inr (order a))"

definition clear_addresses :: "PeerId \<Rightarrow> InmemAddressRepository \<Rightarrow> InmemAddressRepository" where
  "clear_addresses p r =
     (case map_of (ar_db r) p of
        None \<Rightarrow> r
      | Some a \<Rightarrow>
          r\<lparr>ar_db := AList.update p AddrPeer_new (ar_db r),
            signals := signals r @ map (\<lambda>(m, _). Removed p m) (expires a)\<rparr>)"

text \<open>
  Garbage collection: the loop over the addresses of a peer returns what is left of
  \<open>expires\<close> and \<open>order\<close> and the addresses signalled; the loop over the peers likewise.
\<close>

fun gc_expires ::
  "int \<Rightarrow> (Multiaddress, int) alist \<Rightarrow> Multiaddress list \<Rightarrow> (Multiaddress, int) alist \<times> Multiaddress list \<times> Multiaddress list" where
  "gc_expires now [] ord = ([], ord, [])"
| "gc_expires now ((m, t) # mas) ord =
     (if now \<ge> t
      then (let (e, o', sig) = gc_expires now mas (snd (eraseOrder m ord)) in (e, o', m # sig))
      else (let (e, o', sig) = gc_expires now mas ord in ((m, t) # e, o', sig)))"

fun gc_peers :: "int \<Rightarrow> (PeerId, AddrPeer) alist \<Rightarrow> (PeerId, AddrPeer) alist \<times> AddrSignal list" where
  "gc_peers now [] = ([], [])"
| "gc_peers now ((p, a) # ps) =
     (let (e, o', sig) = gc_expires now (expires a) (order a);
          (db, sigs) = gc_peers now ps
      in (if e = [] then db else (p, a\<lparr>expires := e, order := o'\<rparr>) # db, map (Removed p) sig @ sigs))"

definition collectGarbage_addresses :: "int \<Rightarrow> InmemAddressRepository \<Rightarrow> InmemAddressRepository" where
  "collectGarbage_addresses now r =
     (let (db, sigs) = gc_peers now (ar_db r) in r\<lparr>ar_db := db, signals := signals r @ sigs\<rparr>)"

definition getPeers_addresses :: "InmemAddressRepository \<Rightarrow> PeerId list" where
  "getPeers_addresses r = map fst (ar_db r)"

section \<open>The address repository implements a map\<close>

text \<open>The abstract state: when each address of each peer expires.\<close>

type_synonym addr_map = "PeerId \<Rightarrow> Multiaddress \<Rightarrow> int option"

definition addr_abs :: "InmemAddressRepository \<Rightarrow> addr_map" where
  "addr_abs r p = map_of (expires (addr_entry p r))"

datatype AddrOp =
    Op_add int PeerId "Multiaddress list" int
  | Op_upsert int PeerId "Multiaddress list" int
  | Op_update int PeerId int
  | Op_dialFailed PeerId Multiaddress
  | Op_clear PeerId
  | Op_collectGarbage int

fun addr_step :: "InmemAddressRepository \<Rightarrow> AddrOp \<Rightarrow> InmemAddressRepository cxx" where
  "addr_step r (Op_add now p ma ttl) = bind_cxx (addAddresses now p ma ttl r) (\<lambda>(_, r'). Returns r')"
| "addr_step r (Op_upsert now p ma ttl) = bind_cxx (upsertAddresses now p ma ttl r) (\<lambda>(_, r'). Returns r')"
| "addr_step r (Op_update now p ttl) = bind_cxx (updateAddresses now p ttl r) (\<lambda>(_, r'). Returns r')"
| "addr_step r (Op_dialFailed p addr) = Returns (dialFailed p addr r)"
| "addr_step r (Op_clear p) = Returns (clear_addresses p r)"
| "addr_step r (Op_collectGarbage now) = Returns (collectGarbage_addresses now r)"

text \<open>A time to live whose end can be computed: none that is negative or over 292 years.\<close>

definition ttl_ok :: "int \<Rightarrow> bool" where
  "ttl_ok ttl \<longleftrightarrow> 0 \<le> ttl \<and> ttl \<le> 9223372036854"

fun op_ok :: "AddrOp \<Rightarrow> bool" where
  "op_ok (Op_add now p ma ttl) = ttl_ok ttl"
| "op_ok (Op_upsert now p ma ttl) = ttl_ok ttl"
| "op_ok (Op_update now p ttl) = ttl_ok ttl"
| "op_ok _ = True"

definition expiry :: "int \<Rightarrow> int \<Rightarrow> int" where
  "expiry now ttl = min max_time (now + ttl * 1000000)"

fun addr_spec :: "addr_map \<Rightarrow> AddrOp \<Rightarrow> addr_map" where
  "addr_spec f (Op_add now p ma ttl) = f(p := (\<lambda>m. if m \<in> set ma \<and> f p m = None then Some (expiry now ttl) else f p m))"
| "addr_spec f (Op_upsert now p ma ttl) = f(p := (\<lambda>m. if m \<in> set ma then Some (expiry now ttl) else f p m))"
| "addr_spec f (Op_update now p ttl) = f(p := (\<lambda>m. map_option (\<lambda>_. expiry now ttl) (f p m)))"
| "addr_spec f (Op_dialFailed p addr) = f"
| "addr_spec f (Op_clear p) = f(p := Map.empty)"
| "addr_spec f (Op_collectGarbage now) =
     (\<lambda>p m. case f p m of None \<Rightarrow> None | Some t \<Rightarrow> if now \<ge> t then None else Some t)"

text \<open>
  What a listener to the signals knows: it fails when an address it knows is added again, or
  one it does not know is removed.
\<close>

fun replay :: "AddrSignal list \<Rightarrow> (PeerId \<times> Multiaddress) set \<Rightarrow> (PeerId \<times> Multiaddress) set option" where
  "replay [] S = Some S"
| "replay (Added p m # sigs) S = (if (p, m) \<in> S then None else replay sigs (insert (p, m) S))"
| "replay (Removed p m # sigs) S = (if (p, m) \<notin> S then None else replay sigs (S - {(p, m)}))"

definition known :: "InmemAddressRepository \<Rightarrow> (PeerId \<times> Multiaddress) set" where
  "known r = {(p, m). addr_abs r p m \<noteq> None}"

definition addr_peer_ok :: "AddrPeer \<Rightarrow> bool" where
  "addr_peer_ok a \<longleftrightarrow> distinct (map fst (expires a)) \<and> distinct (order a) \<and> set (order a) = fst ` set (expires a)"

definition addr_inv :: "InmemAddressRepository \<Rightarrow> bool" where
  "addr_inv r \<longleftrightarrow> distinct (map fst (ar_db r)) \<and> (\<forall>(p, a) \<in> set (ar_db r). addr_peer_ok a)
     \<and> replay (signals r) {} = Some (known r)"

lemma calculateExpirationTime_ok: "ttl_ok ttl \<Longrightarrow> calculateExpirationTime now ttl = Returns (expiry now ttl)"
  by (auto simp: calculateExpirationTime_def expiry_def ttl_ok_def i64_def max_time_def Let_def min_def)

lemma replay_append: "replay (s @ t) S = Option.bind (replay s S) (replay t)"
  by (induction s S rule: replay.induct) auto

lemma replay_added:
  "distinct ms \<Longrightarrow> \<forall>m \<in> set ms. (p, m) \<notin> S \<Longrightarrow> replay (map (Added p) ms) S = Some (S \<union> Pair p ` set ms)"
proof (induction ms arbitrary: S)
  case (Cons m ms)
  have "replay (map (Added p) ms) (insert (p, m) S) = Some (insert (p, m) S \<union> Pair p ` set ms)"
    using Cons.prems by (intro Cons.IH) auto
  then show ?case using Cons.prems by simp
qed simp

lemma replay_removed:
  "distinct ms \<Longrightarrow> \<forall>m \<in> set ms. (p, m) \<in> S \<Longrightarrow> replay (map (Removed p) ms) S = Some (S - Pair p ` set ms)"
proof (induction ms arbitrary: S)
  case (Cons m ms)
  have "replay (map (Removed p) ms) (S - {(p, m)}) = Some (S - {(p, m)} - Pair p ` set ms)"
    using Cons.prems by (intro Cons.IH) auto
  then show ?case using Cons.prems by (simp add: Diff_insert2 [symmetric])
qed simp

lemma addr_abs_entry [simp]:
  "addr_abs (r\<lparr>ar_db := AList.update p a (ar_db r)\<rparr>) = (addr_abs r)(p := map_of (expires a))"
  "addr_abs (r\<lparr>signals := sigs\<rparr>) = addr_abs r"
  by (auto simp: addr_abs_def addr_entry_def update_conv' fun_eq_iff)

lemma addr_entry_ok: "addr_inv r \<Longrightarrow> addr_peer_ok (addr_entry p r)"
  using map_of_SomeD [of "ar_db r" p]
  by (cases "map_of (ar_db r) p") (auto simp: addr_inv_def addr_entry_def AddrPeer_new_def addr_peer_ok_def [of "\<lparr>expires = [], order = []\<rparr>"])

text \<open>Replacing the entry of a peer, with the signals that tell what changed.\<close>

lemma addr_inv_update:
  assumes "addr_inv r" and "addr_peer_ok a" and "replay sigs (known r) = Some (known r - {p} \<times> UNIV \<union> {p} \<times> dom (map_of (expires a)))"
  shows "addr_inv (r\<lparr>ar_db := AList.update p a (ar_db r), signals := signals r @ sigs\<rparr>)"
proof -
  let ?r = "r\<lparr>ar_db := AList.update p a (ar_db r), signals := signals r @ sigs\<rparr>"
  have "known ?r = known r - {p} \<times> UNIV \<union> {p} \<times> dom (map_of (expires a))"
    using addr_abs_entry by (auto simp: known_def simp del: fun_upd_apply) (auto split: if_splits)
  moreover have "set (AList.update p a (ar_db r)) \<subseteq> insert (p, a) (set (ar_db r))" by (rule set_update_subset)
  ultimately show ?thesis using assms by (auto simp: addr_inv_def distinct_update replay_append)
qed


lemma add_one_fold:
  assumes "addr_peer_ok a" and "fold (add_one e) ma (b, a, sig) = (b', a', sig')"
  shows "addr_peer_ok a'
    \<and> map_of (expires a') = (\<lambda>m. if m \<in> set ma \<and> map_of (expires a) m = None then Some e else map_of (expires a) m)
    \<and> (\<exists>new. sig' = sig @ new \<and> distinct new \<and> set new = set ma - dom (map_of (expires a)) \<and> b' = (b \<or> new \<noteq> []))"
  using assms
proof (induction ma arbitrary: a b sig)
  case (Cons m ma)
  show ?case
  proof (cases "map_of (expires a) m")
    case None
    let ?a = "a\<lparr>expires := expires a @ [(m, e)], order := order a @ [m]\<rparr>"
    have nm: "m \<notin> fst ` set (expires a)" using None by (simp add: map_of_eq_None_iff)
    have ok: "addr_peer_ok ?a" using Cons.prems(1) nm by (auto simp: addr_peer_ok_def)
    have f: "fold (add_one e) ma (True, ?a, sig @ [m]) = (b', a', sig')" using Cons.prems(2) None by simp
    obtain new where new: "sig' = (sig @ [m]) @ new" "distinct new" "set new = set ma - dom (map_of (expires ?a))" "b'"
      and a': "addr_peer_ok a'"
        "map_of (expires a') = (\<lambda>x. if x \<in> set ma \<and> map_of (expires ?a) x = None then Some e else map_of (expires ?a) x)"
      using Cons.IH [OF ok f] by auto
    have d: "map_of (expires ?a) = (map_of (expires a))(m \<mapsto> e)" using map_of_append_new [OF None] by simp
    have "sig' = sig @ (m # new)" "distinct (m # new)" "set (m # new) = set (m # ma) - dom (map_of (expires a))"
      using new None by (auto simp: d)
    moreover have "map_of (expires a') = (\<lambda>x. if x \<in> set (m # ma) \<and> map_of (expires a) x = None then Some e else map_of (expires a) x)"
      unfolding a'(2) d using None by (auto simp: fun_eq_iff)
    ultimately show ?thesis using new(4) a'(1) by blast
  next
    case (Some t)
    have f: "fold (add_one e) ma (b, a, sig) = (b', a', sig')" using Cons.prems(2) Some by simp
    have "set (m # ma) - dom (map_of (expires a)) = set ma - dom (map_of (expires a))" using Some by auto
    moreover have "(\<lambda>x. if x \<in> set (m # ma) \<and> map_of (expires a) x = None then Some e else map_of (expires a) x)
        = (\<lambda>x. if x \<in> set ma \<and> map_of (expires a) x = None then Some e else map_of (expires a) x)"
      using Some by (auto simp: fun_eq_iff)
    ultimately show ?thesis using Cons.IH [OF Cons.prems(1) f] by simp
  qed
qed simp

lemma addr_peer_ok_keys:
  "addr_peer_ok a \<Longrightarrow> map fst es = map fst (expires a) \<Longrightarrow> addr_peer_ok (a\<lparr>expires := es\<rparr>)"
  unfolding addr_peer_ok_def by (metis AddrPeer.select_convs(1,2) AddrPeer.surjective AddrPeer.update_convs(1) list.set_map)

lemma upsert_one_fold:
  assumes "addr_peer_ok a" and "fold (upsert_one e) ma (b, a, sig) = (b', a', sig')"
  shows "addr_peer_ok a'
    \<and> map_of (expires a') = (\<lambda>m. if m \<in> set ma then Some e else map_of (expires a) m)
    \<and> (\<exists>new. sig' = sig @ new \<and> distinct new \<and> set new = set ma - dom (map_of (expires a)) \<and> b' = (b \<or> new \<noteq> []))"
  using assms
proof (induction ma arbitrary: a b sig)
  case (Cons m ma)
  show ?case
  proof (cases "map_of (expires a) m")
    case None
    let ?a = "a\<lparr>expires := expires a @ [(m, e)], order := order a @ [m]\<rparr>"
    have nm: "m \<notin> fst ` set (expires a)" using None by (simp add: map_of_eq_None_iff)
    have ok: "addr_peer_ok ?a" using Cons.prems(1) nm by (auto simp: addr_peer_ok_def)
    have f: "fold (upsert_one e) ma (True, ?a, sig @ [m]) = (b', a', sig')" using Cons.prems(2) None by simp
    obtain new where new: "sig' = (sig @ [m]) @ new" "distinct new" "set new = set ma - dom (map_of (expires ?a))" "b'"
      and a': "addr_peer_ok a'" "map_of (expires a') = (\<lambda>x. if x \<in> set ma then Some e else map_of (expires ?a) x)"
      using Cons.IH [OF ok f] by auto
    have d: "map_of (expires ?a) = (map_of (expires a))(m \<mapsto> e)" using map_of_append_new [OF None] by simp
    have "sig' = sig @ (m # new)" "distinct (m # new)" "set (m # new) = set (m # ma) - dom (map_of (expires a))"
      using new None by (auto simp: d)
    moreover have "map_of (expires a') = (\<lambda>x. if x \<in> set (m # ma) then Some e else map_of (expires a) x)"
      unfolding a'(2) d by (auto simp: fun_eq_iff)
    ultimately show ?thesis using new(4) a'(1) by blast
  next
    case (Some t)
    let ?a = "a\<lparr>expires := AList.map_entry m (\<lambda>_. e) (expires a)\<rparr>"
    have f: "fold (upsert_one e) ma (b, ?a, sig) = (b', a', sig')" using Cons.prems(2) Some by simp
    have ok: "addr_peer_ok ?a" using Cons.prems(1) by (rule addr_peer_ok_keys) (rule map_fst_map_entry)
    have d: "map_of (expires ?a) = (map_of (expires a))(m \<mapsto> e)" using Some by (auto simp: map_of_map_entry fun_eq_iff)
    then have "set ma - dom (map_of (expires ?a)) = set (m # ma) - dom (map_of (expires a))" using Some by auto
    moreover have "(\<lambda>x. if x \<in> set ma then Some e else map_of (expires ?a) x)
        = (\<lambda>x. if x \<in> set (m # ma) then Some e else map_of (expires a) x)"
      using d by (auto simp: fun_eq_iff)
    ultimately show ?thesis using Cons.IH [OF ok f] by simp
  qed
qed simp


lemma eraseOrder_filter: "distinct ord \<Longrightarrow> snd (eraseOrder m ord) = filter (\<lambda>x. x \<noteq> m) ord"
  by (auto simp: eraseOrder_def distinct_remove1_removeAll removeAll_filter_not_eq eq_commute intro!: filter_True [symmetric])

text \<open>The addresses of a peer that have not expired.\<close>

definition live :: "int \<Rightarrow> AddrPeer \<Rightarrow> AddrPeer" where
  "live now a =
     a\<lparr>expires := filter (\<lambda>(m, t). \<not> now \<ge> t) (expires a),
       order := filter (\<lambda>m. m \<notin> fst ` set (filter (\<lambda>(m, t). now \<ge> t) (expires a))) (order a)\<rparr>"

lemma gc_expires_eq:
  "distinct ord \<Longrightarrow> gc_expires now mas ord =
     (filter (\<lambda>(m, t). \<not> now \<ge> t) mas, filter (\<lambda>m. m \<notin> fst ` set (filter (\<lambda>(m, t). now \<ge> t) mas)) ord,
      map fst (filter (\<lambda>(m, t). now \<ge> t) mas))"
proof (induction now mas ord rule: gc_expires.induct)
  case (2 now m t mas ord)
  have "distinct (snd (eraseOrder m ord))" using 2(3) by (simp add: eraseOrder_filter)
  with 2 show ?case by (auto simp: eraseOrder_filter intro!: filter_cong)
qed simp

lemma addr_peer_ok_live: "addr_peer_ok a \<Longrightarrow> addr_peer_ok (live now a)"
  unfolding addr_peer_ok_def live_def
  by (auto simp: distinct_map inj_on_def)

lemma gc_peers_eq:
  "\<forall>(p, a) \<in> set db. addr_peer_ok a \<Longrightarrow> gc_peers now db =
     (filter (\<lambda>(p, a). expires a \<noteq> []) (map (\<lambda>(p, a). (p, live now a)) db),
      concat (map (\<lambda>(p, a). map (Removed p) (map fst (filter (\<lambda>(m, t). now \<ge> t) (expires a)))) db))"
  by (induction now db rule: gc_peers.induct) (simp_all add: gc_expires_eq live_def addr_peer_ok_def Let_def)

lemma replay_gc:
  assumes "distinct (map fst db)" and "\<forall>(p, a) \<in> set db. addr_peer_ok a"
    and "\<forall>(p, a) \<in> set db. Pair p ` fst ` set (expires a) \<subseteq> S"
  shows "replay (concat (map (\<lambda>(p, a). map (Removed p) (map fst (filter (\<lambda>(m, t). now \<ge> t) (expires a)))) db)) S
    = Some (S - {(p, m). \<exists>a t. (p, a) \<in> set db \<and> (m, t) \<in> set (expires a) \<and> now \<ge> t})"
  using assms
proof (induction db arbitrary: S)
  case (Cons x db)
  obtain p a where x: "x = (p, a)" by (cases x)
  let ?d = "filter (\<lambda>(m, t). now \<ge> t) (expires a)"
  let ?S = "S - Pair p ` set (map fst ?d)"
  have "distinct (map fst ?d)" using Cons.prems(2) x by (simp add: addr_peer_ok_def distinct_map_filter)
  moreover have "\<forall>m \<in> set (map fst ?d). (p, m) \<in> S" using Cons.prems(3) x by force
  ultimately have 1: "replay (map (Removed p) (map fst ?d)) S = Some ?S" by (rule replay_removed)
  have "q \<noteq> p" "Pair q ` fst ` set (expires b) \<subseteq> S" if "(q, b) \<in> set db" for q b
    using Cons.prems(1,3) that by (force simp: x)+
  then have "\<forall>(q, b) \<in> set db. Pair q ` fst ` set (expires b) \<subseteq> ?S" by blast
  then have 2: "replay (concat (map (\<lambda>(p, a). map (Removed p) (map fst (filter (\<lambda>(m, t). now \<ge> t) (expires a)))) db)) ?S
    = Some (?S - {(p, m). \<exists>a t. (p, a) \<in> set db \<and> (m, t) \<in> set (expires a) \<and> now \<ge> t})"
    using Cons.prems(1,2) by (intro Cons.IH) auto
  have "?S - {(p, m). \<exists>a t. (p, a) \<in> set db \<and> (m, t) \<in> set (expires a) \<and> now \<ge> t}
    = S - {(p, m). \<exists>a t. (p, a) \<in> set (x # db) \<and> (m, t) \<in> set (expires a) \<and> now \<ge> t}"
    by (auto simp: x image_iff) force
  with 1 2 show ?case by (simp add: x replay_append)
qed simp

lemma addr_abs_gc:
  assumes "addr_inv r"
  shows "addr_abs (collectGarbage_addresses now r) = addr_spec (addr_abs r) (Op_collectGarbage now)"
proof (intro ext)
  fix p m
  have d: "distinct (map fst (ar_db r))" and ok: "\<forall>(p, a) \<in> set (ar_db r). addr_peer_ok a"
    using assms by (auto simp: addr_inv_def)
  have k: "map fst (map (\<lambda>(p, a). (p, live now a)) (ar_db r)) = map fst (ar_db r)" by auto
  have mo: "map_of (map (\<lambda>(p, a). (p, live now a)) (ar_db r)) p = map_option (live now) (map_of (ar_db r) p)"
    by (simp add: map_of_map)
  note f = map_of_filter_distinct [of "map (\<lambda>(p, a). (p, live now a)) (ar_db r)" "\<lambda>a. expires a \<noteq> []" p, unfolded k, OF d, unfolded mo]
  show "addr_abs (collectGarbage_addresses now r) p m = addr_spec (addr_abs r) (Op_collectGarbage now) p m"
  proof (cases "map_of (ar_db r) p")
    case None
    then show ?thesis using f
      by (simp add: addr_abs_def addr_entry_def collectGarbage_addresses_def gc_peers_eq [OF ok] AddrPeer_new_def)
  next
    case (Some a)
    then have "distinct (map fst (expires a))" using ok by (auto simp: addr_peer_ok_def dest!: map_of_SomeD)
    from map_of_filter_distinct [OF this, of "\<lambda>t. \<not> now \<ge> t" m] Some f show ?thesis
      by (auto simp: addr_abs_def addr_entry_def collectGarbage_addresses_def gc_peers_eq [OF ok] AddrPeer_new_def live_def
          split: option.splits)
  qed
qed

lemma addr_abs_iff:
  assumes "addr_inv r"
  shows "addr_abs r p m = Some t \<longleftrightarrow> (\<exists>a. (p, a) \<in> set (ar_db r) \<and> (m, t) \<in> set (expires a))"
proof (cases "map_of (ar_db r) p")
  case None
  then have "\<nexists>a. (p, a) \<in> set (ar_db r)" by (force simp: map_of_eq_None_iff)
  with None show ?thesis by (simp add: addr_abs_def addr_entry_def AddrPeer_new_def)
next
  case (Some a)
  then have "(p, b) \<in> set (ar_db r) \<longleftrightarrow> b = a" for b
    using assms map_of_eq_Some_iff [of "ar_db r" p b] by (auto simp: addr_inv_def)
  moreover have "distinct (map fst (expires a))"
    using Some assms by (auto simp: addr_inv_def addr_peer_ok_def dest!: map_of_SomeD)
  ultimately show ?thesis using Some by (simp add: addr_abs_def addr_entry_def map_of_eq_Some_iff)
qed

lemma addr_inv_gc:
  assumes "addr_inv r"
  shows "addr_inv (collectGarbage_addresses now r)"
proof -
  let ?r = "collectGarbage_addresses now r"
  have d: "distinct (map fst (ar_db r))" and ok: "\<forall>(p, a) \<in> set (ar_db r). addr_peer_ok a"
    and rep: "replay (signals r) {} = Some (known r)" using assms by (auto simp: addr_inv_def)
  let ?dead = "{(p, m). \<exists>a t. (p, a) \<in> set (ar_db r) \<and> (m, t) \<in> set (expires a) \<and> now \<ge> t}"
  have "\<forall>(p, a) \<in> set (ar_db r). Pair p ` fst ` set (expires a) \<subseteq> known r"
    using addr_abs_iff [OF assms] by (force simp: known_def)
  note rg = replay_gc [OF d ok this, of now]
  have dead: "(p, m) \<in> ?dead \<longleftrightarrow> (\<exists>t. addr_abs r p m = Some t \<and> now \<ge> t)" for p m
    using addr_abs_iff [OF assms, of p m] by blast
  have "(p, m) \<in> known r - ?dead \<longleftrightarrow> (p, m) \<in> known ?r" for p m
    unfolding Diff_iff dead by (auto simp: known_def addr_abs_gc [OF assms] split: option.splits)
  then have "known r - ?dead = known ?r" unfolding set_eq_iff split_paired_All by blast
  then have "replay (signals ?r) {} = Some (known ?r)"
    using rep rg by (simp add: collectGarbage_addresses_def gc_peers_eq [OF ok] replay_append)
  moreover have "distinct (map fst (ar_db ?r))"
  proof -
    have "map fst (map (\<lambda>(p, a). (p, live now a)) (ar_db r)) = map fst (ar_db r)" by auto
    with d have "distinct (map fst (map (\<lambda>(p, a). (p, live now a)) (ar_db r)))" by metis
    then show ?thesis by (simp add: collectGarbage_addresses_def gc_peers_eq [OF ok] distinct_map_filter)
  qed
  moreover have "\<forall>(p, a) \<in> set (ar_db ?r). addr_peer_ok a"
    using ok addr_peer_ok_live by (fastforce simp: collectGarbage_addresses_def gc_peers_eq [OF ok])
  ultimately show ?thesis by (simp add: addr_inv_def)
qed

lemma known_entry: "known r = known r - {p} \<times> UNIV \<union> {p} \<times> dom (map_of (expires (addr_entry p r)))"
  by (auto simp: known_def addr_abs_def)

lemma store_entry_ok:
  assumes "addr_inv r" and "addr_peer_ok a" and "distinct new" and "set new = set ma - dom (map_of (expires (addr_entry p r)))"
    and "dom (map_of (expires a)) = dom (map_of (expires (addr_entry p r))) \<union> set ma"
  shows "addr_inv (snd (store_entry p (b, a, new) r))
    \<and> addr_abs (snd (store_entry p (b, a, new) r)) = (addr_abs r)(p := map_of (expires a))"
proof -
  have fresh: "\<forall>m \<in> set new. (p, m) \<notin> known r" using assms(4) by (auto simp: known_def addr_abs_def)
  have "known r \<union> Pair p ` set new = known r - {p} \<times> UNIV \<union> {p} \<times> dom (map_of (expires a))"
    by (subst (1) known_entry [of r p]) (auto simp: assms(4,5))
  with replay_added [OF assms(3) fresh] have
    "replay (map (Added p) new) (known r) = Some (known r - {p} \<times> UNIV \<union> {p} \<times> dom (map_of (expires a)))" by simp
  from addr_inv_update [OF assms(1,2) this] show ?thesis
    by (simp add: store_entry_def addr_abs_def addr_entry_def update_conv' fun_eq_iff)
qed

text \<open>Replacing an entry without a change of the set of its addresses raises no signal.\<close>

lemma quiet_update:
  assumes "addr_inv r" and "addr_peer_ok a" and "dom (map_of (expires a)) = dom (map_of (expires (addr_entry p r)))"
  shows "addr_inv (r\<lparr>ar_db := AList.update p a (ar_db r)\<rparr>)"
proof -
  have "replay [] (known r) = Some (known r - {p} \<times> UNIV \<union> {p} \<times> dom (map_of (expires a)))"
    using known_entry [of r p] by (simp add: assms(3))
  from addr_inv_update [OF assms(1,2) this] show ?thesis by (simp add: addr_inv_def known_def addr_abs_def addr_entry_def)
qed

lemma add_refines:
  assumes "addr_inv r" and "ttl_ok ttl"
  shows "\<exists>r'. addr_step r (Op_add now p ma ttl) = Returns r' \<and> addr_inv r' \<and> addr_abs r' = addr_spec (addr_abs r) (Op_add now p ma ttl)"
proof -
  obtain b a new where f: "fold (add_one (expiry now ttl)) ma (False, addr_entry p r, []) = (b, a, new)"
    by (metis prod_cases3)
  note s = add_one_fold [OF addr_entry_ok [OF assms(1)] f]
  then have "dom (map_of (expires a)) = dom (map_of (expires (addr_entry p r))) \<union> set ma" by (auto split: if_splits)
  with store_entry_ok [OF assms(1), where a = a and new = new and ma = ma and p = p and b = b] s
  have "addr_inv (snd (store_entry p (b, a, new) r))"
    "addr_abs (snd (store_entry p (b, a, new) r)) = (addr_abs r)(p := map_of (expires a))" by auto
  moreover have "(addr_abs r)(p := map_of (expires a)) = addr_spec (addr_abs r) (Op_add now p ma ttl)"
    using s by (simp add: fun_eq_iff addr_abs_def)
  moreover have "addr_step r (Op_add now p ma ttl) = Returns (snd (store_entry p (b, a, new) r))"
    by (simp add: addAddresses_def calculateExpirationTime_ok [OF assms(2)] f store_entry_def)
  ultimately show ?thesis by simp
qed

lemma upsert_refines:
  assumes "addr_inv r" and "ttl_ok ttl"
  shows "\<exists>r'. addr_step r (Op_upsert now p ma ttl) = Returns r' \<and> addr_inv r' \<and> addr_abs r' = addr_spec (addr_abs r) (Op_upsert now p ma ttl)"
proof -
  obtain b a new where f: "fold (upsert_one (expiry now ttl)) ma (False, addr_entry p r, []) = (b, a, new)"
    by (metis prod_cases3)
  note s = upsert_one_fold [OF addr_entry_ok [OF assms(1)] f]
  then have "dom (map_of (expires a)) = dom (map_of (expires (addr_entry p r))) \<union> set ma" by (auto split: if_splits)
  with store_entry_ok [OF assms(1), where a = a and new = new and ma = ma and p = p and b = b] s
  have "addr_inv (snd (store_entry p (b, a, new) r))"
    "addr_abs (snd (store_entry p (b, a, new) r)) = (addr_abs r)(p := map_of (expires a))" by auto
  moreover have "(addr_abs r)(p := map_of (expires a)) = addr_spec (addr_abs r) (Op_upsert now p ma ttl)"
    using s by (simp add: fun_eq_iff addr_abs_def)
  moreover have "addr_step r (Op_upsert now p ma ttl) = Returns (snd (store_entry p (b, a, new) r))"
    by (simp add: upsertAddresses_def calculateExpirationTime_ok [OF assms(2)] f store_entry_def)
  ultimately show ?thesis by simp
qed

lemma update_refines:
  assumes "addr_inv r" and "ttl_ok ttl"
  shows "\<exists>r'. addr_step r (Op_update now p ttl) = Returns r' \<and> addr_inv r' \<and> addr_abs r' = addr_spec (addr_abs r) (Op_update now p ttl)"
proof (cases "map_of (ar_db r) p")
  case None
  with assms(1) show ?thesis by (auto simp: updateAddresses_def addr_abs_def addr_entry_def AddrPeer_new_def)
next
  case (Some a)
  let ?a = "a\<lparr>expires := map (\<lambda>(m, _). (m, expiry now ttl)) (expires a)\<rparr>"
  have e: "addr_entry p r = a" using Some by (simp add: addr_entry_def)
  have "addr_peer_ok ?a" using addr_entry_ok [OF assms(1), of p] by (intro addr_peer_ok_keys) (auto simp: e)
  moreover have mo: "map_of (expires ?a) = (\<lambda>m. map_option (\<lambda>_. expiry now ttl) (map_of (expires a) m))"
    by (simp add: map_of_map comp_def)
  ultimately show ?thesis
    using quiet_update [OF assms(1), of ?a p] Some e
    by (simp add: updateAddresses_def calculateExpirationTime_ok [OF assms(2)] dom_map_option addr_abs_def [of r p])
qed

lemma dialFailed_cases:
  assumes "addr_inv r"
  shows "dialFailed p addr r =
    (case map_of (ar_db r) p of
       None \<Rightarrow> r
     | Some a \<Rightarrow> if addr \<in> set (order a) then r\<lparr>ar_db := AList.update p (a\<lparr>order := remove1 addr (order a) @ [addr]\<rparr>) (ar_db r)\<rparr> else r)"
proof (cases "map_of (ar_db r) p")
  case (Some a)
  then have "set (order a) = fst ` set (expires a)" using addr_entry_ok [OF assms, of p] by (simp add: addr_entry_def addr_peer_ok_def)
  with Some show ?thesis by (simp add: dialFailed_def eraseOrder_def map_of_eq_None_iff)
qed (simp add: dialFailed_def)

lemma dialFailed_refines:
  assumes "addr_inv r"
  shows "addr_inv (dialFailed p addr r) \<and> addr_abs (dialFailed p addr r) = addr_abs r"
proof (cases "map_of (ar_db r) p")
  case (Some a)
  let ?a = "a\<lparr>order := remove1 addr (order a) @ [addr]\<rparr>"
  have e: "addr_entry p r = a" using Some by (simp add: addr_entry_def)
  have "addr_peer_ok ?a" if "addr \<in> set (order a)"
    using addr_entry_ok [OF assms, of p] that by (auto simp: e addr_peer_ok_def)
  with quiet_update [OF assms, of ?a p] Some assms e show ?thesis
    by (auto simp: dialFailed_cases addr_abs_def [of r])
qed (use assms in \<open>simp add: dialFailed_def\<close>)

lemma clear_refines:
  assumes "addr_inv r"
  shows "addr_inv (clear_addresses p r) \<and> addr_abs (clear_addresses p r) = (addr_abs r)(p := Map.empty)"
proof (cases "map_of (ar_db r) p")
  case None
  with assms show ?thesis by (auto simp: clear_addresses_def addr_abs_def addr_entry_def AddrPeer_new_def)
next
  case (Some a)
  have e: "addr_entry p r = a" using Some by (simp add: addr_entry_def)
  have d: "distinct (map fst (expires a))" using addr_entry_ok [OF assms, of p] by (simp add: e addr_peer_ok_def)
  have "\<forall>m \<in> set (map fst (expires a)). (p, m) \<in> known r"
    using e by (auto simp: known_def addr_abs_def map_of_eq_None_iff image_iff)
  from replay_removed [OF d this]
  have "replay (map (\<lambda>(m, _). Removed p m) (expires a)) (known r) = Some (known r - Pair p ` set (map fst (expires a)))"
    by (simp add: comp_def case_prod_unfold)
  moreover have "known r - Pair p ` set (map fst (expires a)) = known r - {p} \<times> UNIV"
    using e by (force simp: known_def addr_abs_def dest: map_of_SomeD)
  ultimately have "replay (map (\<lambda>(m, _). Removed p m) (expires a)) (known r) =
      Some (known r - {p} \<times> UNIV \<union> {p} \<times> dom (map_of (expires AddrPeer_new)))" by (simp add: AddrPeer_new_def)
  from addr_inv_update [OF assms _ this] Some show ?thesis
    by (simp add: clear_addresses_def addr_peer_ok_def AddrPeer_new_def addr_abs_def addr_entry_def update_conv' fun_eq_iff)
qed

lemma addr_step_refines:
  assumes "addr_inv r" and "op_ok x"
  shows "\<exists>r'. addr_step r x = Returns r' \<and> addr_inv r' \<and> addr_abs r' = addr_spec (addr_abs r) x"
  using assms
proof (cases x)
  case (Op_add now p ma ttl)
  with assms add_refines show ?thesis by (metis op_ok.simps(1))
next
  case (Op_upsert now p ma ttl)
  with assms upsert_refines show ?thesis by (metis op_ok.simps(2))
next
  case (Op_update now p ttl)
  with assms update_refines show ?thesis by (metis op_ok.simps(3))
next
  case (Op_collectGarbage now)
  with assms addr_inv_gc addr_abs_gc show ?thesis by (metis addr_step.simps(6))
qed (simp_all add: dialFailed_refines clear_refines)

interpretation addr_machine: refining_machine addr_inv op_ok addr_step addr_abs addr_spec
proof unfold_locales
  show "\<exists>r'. addr_step r x = Returns r' \<and> addr_inv r'" if "addr_inv r" "op_ok x" for r x
    using addr_step_refines [OF that] by blast
  show "addr_abs r' = addr_spec (addr_abs r) x" if "addr_inv r" "op_ok x" "addr_step r x = Returns r'" for r x r'
    using addr_step_refines [OF that(1,2)] that(3) by auto
qed

lemma addr_inv_new: "addr_inv AddressRepository_new" "addr_abs AddressRepository_new = (\<lambda>_. Map.empty)"
  by (auto simp: addr_inv_def AddressRepository_new_def known_def addr_abs_def addr_entry_def AddrPeer_new_def fun_eq_iff)

lemma getAddresses_inv:
  assumes "addr_inv r" and "getAddresses p r = Inr as"
  shows "distinct as" and "set as = dom (addr_abs r p)"
proof -
  obtain a where a: "map_of (ar_db r) p = Some a" "as = order a"
    using assms(2) by (auto simp: getAddresses_def split: option.splits)
  then have "addr_entry p r = a" by (simp add: addr_entry_def)
  with addr_entry_ok [OF assms(1), of p] a show "distinct as" "set as = dom (addr_abs r p)"
    by (auto simp: addr_peer_ok_def addr_abs_def dom_map_of_conv_image_fst)
qed

text \<open>
  \<^bold>\<open>C27\<close> (refinement). Whatever operations with computable times to live are applied to a new
  repository, it behaves as a map from peers and addresses to expiration times: adding keeps
  the time of an address that is there, upserting replaces it, garbage collection removes
  exactly what has expired. \<open>getAddresses\<close> lists exactly the stored addresses, each once,
  and a listener to the signals always knows exactly the stored addresses: none is announced
  twice and none is removed that was not announced.
\<close>

theorem address_repository_refines:
  assumes "list_all op_ok xs"
  shows "\<exists>r. run_cxx addr_step AddressRepository_new xs = Returns r
    \<and> addr_abs r = foldl addr_spec (\<lambda>_. Map.empty) xs
    \<and> replay (signals r) {} = Some {(p, m). addr_abs r p m \<noteq> None}
    \<and> (\<forall>p as. getAddresses p r = Inr as \<longrightarrow> distinct as \<and> set as = dom (addr_abs r p))"
proof -
  obtain r where r: "run_cxx addr_step AddressRepository_new xs = Returns r" "addr_inv r"
    "addr_abs r = foldl addr_spec (\<lambda>_. Map.empty) xs"
    using addr_machine.run_refines [OF addr_inv_new(1) assms] by (auto simp: addr_inv_new(2))
  then show ?thesis using getAddresses_inv [OF r(2)] by (auto simp: addr_inv_def known_def)
qed

text \<open>
  After a failed dial the address comes last and the others keep their
  order, so that the next dial tries them first; an address that is not stored changes
  nothing.
\<close>

theorem dial_failed_moves_back:
  assumes "run_cxx addr_step AddressRepository_new xs = Returns r" and "list_all op_ok xs" and "getAddresses p r = Inr as"
  shows "getAddresses p (dialFailed p addr r) = Inr (if addr \<in> set as then filter (\<lambda>m. m \<noteq> addr) as @ [addr] else as)"
proof -
  have "addr_inv r" using addr_machine.run_safe [OF addr_inv_new(1) assms(2)] assms(1) by auto
  moreover from getAddresses_inv(1) [OF this assms(3)] have "remove1 addr as = filter (\<lambda>m. m \<noteq> addr) as"
    by (simp add: distinct_remove1_removeAll removeAll_filter_not_eq eq_commute)
  ultimately show ?thesis using assms(3)
    by (auto simp: dialFailed_cases getAddresses_def update_conv' split: option.splits)
qed

text \<open>
  The longest time to live, meant for addresses that never expire, overflows when it is
  converted to nanoseconds.
\<close>

lemma permanent_ttl_overflows: "calculateExpirationTime now kPermanent = Throws"
  by (simp add: calculateExpirationTime_def kPermanent_def i64_def)


definition demo_addr :: "nat \<Rightarrow> Multiaddress" where
  "demo_addr n = \<lparr>stringified_address = replicate n CHR ''a'', ma_bytes = []\<rparr>"

lemma demo_addr_eq [simp]: "demo_addr m = demo_addr n \<longleftrightarrow> m = n"
  by (auto simp: demo_addr_def dest: arg_cong [where f = length])

theorem address_repository_refines_witness:
  "\<exists>r. run_cxx addr_step AddressRepository_new
         [Op_add 0 [1] [demo_addr 1, demo_addr 2] 1000, Op_upsert 5 [1] [demo_addr 2] 3000, Op_collectGarbage 2000000000] = Returns r
     \<and> addr_abs r [1] (demo_addr 1) = None \<and> addr_abs r [1] (demo_addr 2) = Some 3000000005"
  using address_repository_refines [of "[Op_add 0 [1] [demo_addr 1, demo_addr 2] 1000, Op_upsert 5 [1] [demo_addr 2] 3000, Op_collectGarbage 2000000000]"]
  by (auto simp: ttl_ok_def expiry_def max_time_def)

theorem dial_failed_moves_back_witness:
  "\<exists>r. run_cxx addr_step AddressRepository_new [Op_add 0 [1] [demo_addr 1, demo_addr 2] 1000] = Returns r
     \<and> getAddresses [1] (dialFailed [1] (demo_addr 1) r) = Inr [demo_addr 2, demo_addr 1]"
proof -
  have e: "calculateExpirationTime 0 1000 = Returns 1000000000"
    by (simp add: calculateExpirationTime_def i64_def max_time_def)
  obtain r where r: "run_cxx addr_step AddressRepository_new [Op_add 0 [1] [demo_addr 1, demo_addr 2] 1000] = Returns r"
    "getAddresses [1] r = Inr [demo_addr 1, demo_addr 2]"
    by (simp add: addAddresses_def e store_entry_def addr_entry_def AddressRepository_new_def AddrPeer_new_def getAddresses_def)
  then show ?thesis using dial_failed_moves_back [OF r(1) _ r(2), of "demo_addr 1"] by (simp add: ttl_ok_def)
qed

end
