(* ===== verification/Peer_Repository.thy ===== *)
theory Peer_Repository
  imports Peer_Store
begin

text \<open>
  The other repositories of \<open>src/peer\<close> (protocols, keys, user agents), \<open>PeerRepository\<close>
  over all of them, \<open>IdentityManager\<close> and \<open>PeerAddress\<close>. A set of protocols, a
  \<open>std::set<std::string>\<close> behind a pointer that does not leave the repository, is the list
  of its elements in increasing order; a set of keys is a list without repetition.

  The lemmas show that the protocol repository implements a map from peers to sets whose
  queries return the set and its intersections in order, and that \<open>PeerAddress\<close> parses what
  it prints.
\<close>

section \<open>Protocols\<close>

text \<open>\<open>insert\<close> and \<open>erase\<close> of an ordered set, and \<open>std::set_intersection\<close>.\<close>

fun std_set_insert :: "string \<Rightarrow> string list \<Rightarrow> string list" where
  "std_set_insert x [] = [x]"
| "std_set_insert x (y # ys) =
     (if string_less x y then x # y # ys else if string_less y x then y # std_set_insert x ys else y # ys)"

fun std_set_erase :: "string \<Rightarrow> string list \<Rightarrow> string list" where
  "std_set_erase x [] = []"
| "std_set_erase x (y # ys) = (if string_less x y \<or> string_less y x then y # std_set_erase x ys else ys)"

fun set_intersection :: "string list \<Rightarrow> string list \<Rightarrow> string list" where
  "set_intersection (x # xs) (y # ys) =
     (if string_less x y then set_intersection xs (y # ys)
      else if string_less y x then set_intersection (x # xs) ys
      else x # set_intersection xs ys)"
| "set_intersection _ _ = []"

record InmemProtocolRepository =
  pr_db :: "(PeerId, ProtocolName list) alist"

definition ProtocolRepository_new :: InmemProtocolRepository where
  "ProtocolRepository_new = \<lparr>pr_db = []\<rparr>"

definition getProtocolSet :: "PeerId \<Rightarrow> InmemProtocolRepository \<Rightarrow> (PeerError, ProtocolName list) result" where
  "getProtocolSet p r = (case map_of (pr_db r) p of None \<Rightarrow> Inl NOT_FOUND | Some s \<Rightarrow> Inr s)"

definition getOrAllocateProtocolSet :: "PeerId \<Rightarrow> InmemProtocolRepository \<Rightarrow> ProtocolName list \<times> InmemProtocolRepository" where
  "getOrAllocateProtocolSet p r =
     (case map_of (pr_db r) p of None \<Rightarrow> ([], r\<lparr>pr_db := AList.update p [] (pr_db r)\<rparr>) | Some s \<Rightarrow> (s, r))"

definition addProtocols ::
  "PeerId \<Rightarrow> ProtocolName list \<Rightarrow> InmemProtocolRepository \<Rightarrow> (PeerError, unit) result \<times> InmemProtocolRepository" where
  "addProtocols p ms r =
     (let (s, r1) = getOrAllocateProtocolSet p r
      in (Inr (), r1\<lparr>pr_db := AList.update p (fold std_set_insert ms s) (pr_db r1)\<rparr>))"

definition removeProtocols ::
  "PeerId \<Rightarrow> ProtocolName list \<Rightarrow> InmemProtocolRepository \<Rightarrow> (PeerError, unit) result \<times> InmemProtocolRepository" where
  "removeProtocols p ms r =
     (case getProtocolSet p r of
        Inl e \<Rightarrow> (Inl e, r)
      | Inr s \<Rightarrow> (Inr (), r\<lparr>pr_db := AList.update p (fold std_set_erase ms s) (pr_db r)\<rparr>))"

definition getProtocols_of :: "PeerId \<Rightarrow> InmemProtocolRepository \<Rightarrow> (PeerError, ProtocolName list) result" where
  "getProtocols_of p r = getProtocolSet p r"

definition supportsProtocols ::
  "PeerId \<Rightarrow> ProtocolName list \<Rightarrow> InmemProtocolRepository \<Rightarrow> (PeerError, ProtocolName list) result" where
  "supportsProtocols p protos r = bind_result (getProtocolSet p r) (\<lambda>s. Inr (set_intersection protos s))"

definition clear_protocols :: "PeerId \<Rightarrow> InmemProtocolRepository \<Rightarrow> InmemProtocolRepository" where
  "clear_protocols p r =
     (case getProtocolSet p r of Inl e \<Rightarrow> r | Inr s \<Rightarrow> r\<lparr>pr_db := AList.update p [] (pr_db r)\<rparr>)"

definition collectGarbage_protocols :: "InmemProtocolRepository \<Rightarrow> InmemProtocolRepository" where
  "collectGarbage_protocols r = r\<lparr>pr_db := filter (\<lambda>(p, s). s \<noteq> []) (pr_db r)\<rparr>"

definition getPeers_protocols :: "InmemProtocolRepository \<Rightarrow> PeerId list" where
  "getPeers_protocols r = map fst (pr_db r)"

section \<open>Keys and user agents\<close>

record InmemKeyRepository =
  kr_pub :: "(PeerId, PublicKey list) alist"
  kr_kp :: "KeyPair list"

definition KeyRepository_new :: InmemKeyRepository where
  "KeyRepository_new = \<lparr>kr_pub = [], kr_kp = []\<rparr>"

definition clear_keys :: "PeerId \<Rightarrow> InmemKeyRepository \<Rightarrow> InmemKeyRepository" where
  "clear_keys p r = r\<lparr>kr_pub := AList.map_entry p (\<lambda>_. []) (kr_pub r), kr_kp := []\<rparr>"

definition getPublicKeys :: "PeerId \<Rightarrow> InmemKeyRepository \<Rightarrow> (PeerError, PublicKey list) result" where
  "getPublicKeys p r = (case map_of (kr_pub r) p of None \<Rightarrow> Inl NOT_FOUND | Some ks \<Rightarrow> Inr ks)"

definition addPublicKey :: "PeerId \<Rightarrow> PublicKey \<Rightarrow> InmemKeyRepository \<Rightarrow> InmemKeyRepository" where
  "addPublicKey p k r =
     (case map_of (kr_pub r) p of
        Some ks \<Rightarrow> r\<lparr>kr_pub := AList.update p (List.insert k ks) (kr_pub r)\<rparr>
      | None \<Rightarrow> r\<lparr>kr_pub := kr_pub r @ [(p, [k])]\<rparr>)"

definition getKeyPairs :: "InmemKeyRepository \<Rightarrow> KeyPair list" where
  "getKeyPairs r = kr_kp r"

definition addKeyPair :: "KeyPair \<Rightarrow> InmemKeyRepository \<Rightarrow> InmemKeyRepository" where
  "addKeyPair k r = r\<lparr>kr_kp := List.insert k (kr_kp r)\<rparr>"

definition getPeers_keys :: "InmemKeyRepository \<Rightarrow> PeerId list" where
  "getPeers_keys r = map fst (kr_pub r)"

type_synonym InmemUserAgentRepository = "(PeerId, string \<times> int) alist"

definition updateUserAgent :: "int \<Rightarrow> PeerId \<Rightarrow> string \<Rightarrow> int \<Rightarrow> InmemUserAgentRepository \<Rightarrow> InmemUserAgentRepository cxx" where
  "updateUserAgent now p ua ttl db =
     bind_cxx (calculateExpirationTime now ttl) (\<lambda>t. Returns (AList.update p (ua, t) db))"

definition updateTtl :: "int \<Rightarrow> PeerId \<Rightarrow> int \<Rightarrow> InmemUserAgentRepository \<Rightarrow> InmemUserAgentRepository cxx" where
  "updateTtl now p ttl db =
     (if ttl > 0
      then
        (case map_of db p of
           None \<Rightarrow> Returns db
         | Some _ \<Rightarrow>
             bind_cxx (calculateExpirationTime now ttl) (\<lambda>t. Returns (AList.map_entry p (\<lambda>(ua, _). (ua, t)) db)))
      else Returns (AList.delete p db))"

definition getUserAgent :: "PeerId \<Rightarrow> InmemUserAgentRepository \<Rightarrow> string option" where
  "getUserAgent p db = map_option fst (map_of db p)"

definition collectGarbage_user_agents :: "int \<Rightarrow> InmemUserAgentRepository \<Rightarrow> InmemUserAgentRepository" where
  "collectGarbage_user_agents now db = filter (\<lambda>(p, ua, t). \<not> now \<ge> t) db"

section \<open>All repositories of a peer\<close>

record PeerRepository =
  repo_addr :: InmemAddressRepository
  repo_key :: InmemKeyRepository
  repo_proto :: InmemProtocolRepository
  repo_uagent :: InmemUserAgentRepository

definition PeerRepository_new :: PeerRepository where
  "PeerRepository_new =
     \<lparr>repo_addr = AddressRepository_new, repo_key = KeyRepository_new, repo_proto = ProtocolRepository_new, repo_uagent = []\<rparr>"

definition merge_sets :: "'a list \<Rightarrow> 'a list \<Rightarrow> 'a list" where
  "merge_sets out xs = fold List.insert xs out"

definition getPeers :: "PeerRepository \<Rightarrow> PeerId list" where
  "getPeers r =
     merge_sets (merge_sets (merge_sets [] (getPeers_addresses (repo_addr r))) (getPeers_keys (repo_key r)))
       (getPeers_protocols (repo_proto r))"

record PeerInfo =
  pi_id :: PeerId
  pi_addresses :: "Multiaddress list"

definition getPeerInfo :: "PeerId \<Rightarrow> PeerRepository \<Rightarrow> PeerInfo" where
  "getPeerInfo p r =
     (case getAddresses p (repo_addr r) of
        Inl e \<Rightarrow> \<lparr>pi_id = p, pi_addresses = []\<rparr>
      | Inr addrs \<Rightarrow> \<lparr>pi_id = p, pi_addresses = addrs\<rparr>)"

text \<open>
  The identity of the host: the assertion on the key and \<open>value()\<close> of a failed result are
  \<open>Throws\<close>.
\<close>

record IdentityManager =
  im_id :: Multihash
  im_keyPair :: KeyPair

definition IdentityManager_new ::
  "(pb_KeyType \<Rightarrow> bytes \<Rightarrow> bytes) \<Rightarrow> (bytes \<Rightarrow> ('s, bytes) result) \<Rightarrow> KeyPair \<Rightarrow> IdentityManager cxx" where
  "IdentityManager_new serialize sha kp =
     (if key_data (publicKey kp) = [] then Throws
      else
        (case marshal serialize (publicKey kp) of
           Inl e \<Rightarrow> Throws
         | Inr pb \<Rightarrow>
             (case PeerId_fromPublicKey sha pb of
                Inl e \<Rightarrow> Throws
              | Inr i \<Rightarrow> Returns \<lparr>im_id = i, im_keyPair = kp\<rparr>)))"

section \<open>Addresses with a peer id\<close>

datatype PeerAddressError =
    NO_ADDRESSES
  | AddressError MultiaddressError
  | IdError PeerIdError

record PeerAddress =
  pa_id :: Multihash
  pa_address :: Multiaddress

definition kP2PSubstr :: string where
  "kP2PSubstr = ''/'' @ p_name (the (get_by_code (code_num P2P))) @ ''/''"

definition PeerAddress_create :: "address_lib \<Rightarrow> string \<Rightarrow> (PeerAddressError, PeerAddress) result cxx" where
  "PeerAddress_create lib address =
     bind_cxx (create_from_string lib address) (\<lambda>r.
       case r of
         Inl e \<Rightarrow> Returns (Inl (AddressError e))
       | Inr multiaddress \<Rightarrow>
           (case getFirstValueForProtocol multiaddress (code_num P2P) of
              Inl e \<Rightarrow> Returns (Inl (AddressError e))
            | Inr id_b58_str \<Rightarrow>
                (case PeerId_fromBase58 id_b58_str of
                   Inl e \<Rightarrow> Returns (Inl (IdError e))
                 | Inr i \<Rightarrow>
                     bind_cxx (decapsulate_protocol lib multiaddress (code_num P2P) id_b58_str) (\<lambda>(_, ma).
                       Returns (Inr \<lparr>pa_id = i, pa_address = ma\<rparr>)))))"

definition PeerAddress_create_info :: "Multihash \<Rightarrow> Multiaddress list \<Rightarrow> (PeerAddressError, PeerAddress) result" where
  "PeerAddress_create_info i addresses =
     (case addresses of [] \<Rightarrow> Inl NO_ADDRESSES | a # _ \<Rightarrow> Inr \<lparr>pa_id = i, pa_address = a\<rparr>)"

definition PeerAddress_create_pair :: "Multihash \<Rightarrow> Multiaddress \<Rightarrow> (PeerAddressError, PeerAddress) result" where
  "PeerAddress_create_pair i address = Inr \<lparr>pa_id = i, pa_address = address\<rparr>"

definition PeerAddress_toString :: "PeerAddress \<Rightarrow> string" where
  "PeerAddress_toString a = stringified_address (pa_address a) @ kP2PSubstr @ toBase58 (pa_id a)"

section \<open>Ordered sets of names\<close>

lemma string_less_irrefl [simp]: "\<not> string_less x x"
  by (induction x) auto

lemma string_less_trans: "string_less x y \<Longrightarrow> string_less y z \<Longrightarrow> string_less x z"
proof (induction x y arbitrary: z rule: string_less.induct)
  case (2 y ys)
  then show ?case by (cases z) auto
next
  case (3 x xs y ys)
  then show ?case by (cases z) auto
qed simp

lemma string_less_total: "\<not> string_less x y \<Longrightarrow> \<not> string_less y x \<Longrightarrow> x = y"
proof (induction x y rule: string_less.induct)
  case (1 xs)
  then show ?case by (cases xs) auto
next
  case (3 x xs y ys)
  then have "(of_char x :: nat) = of_char y" by (auto simp: not_less_iff_gr_or_eq)
  with 3 show ?case by (auto simp: of_char_eq_iff)
qed simp

lemma string_less_asym: "string_less x y \<Longrightarrow> \<not> string_less y x"
  using string_less_trans string_less_irrefl by blast

lemma std_set_insert_ok:
  "sorted_wrt string_less s \<Longrightarrow> sorted_wrt string_less (std_set_insert x s) \<and> set (std_set_insert x s) = insert x (set s)"
proof (induction x s rule: std_set_insert.induct)
  case (2 x y ys)
  then show ?case using string_less_trans string_less_total [of x y] by auto
qed simp

lemma std_set_erase_ok:
  "sorted_wrt string_less s \<Longrightarrow> sorted_wrt string_less (std_set_erase x s) \<and> set (std_set_erase x s) = set s - {x}"
proof (induction x s rule: std_set_erase.induct)
  case (2 x y ys)
  then show ?case using string_less_total [of x y] by auto
qed simp

lemma set_intersection_ok:
  assumes "sorted_wrt string_less xs" and "sorted_wrt string_less ys"
  shows "sorted_wrt string_less (set_intersection xs ys) \<and> set (set_intersection xs ys) = set xs \<inter> set ys"
  using assms
proof (induction xs ys rule: set_intersection.induct)
  case (1 x xs y ys)
  show ?case
  proof (cases "string_less x y")
    case True
    with 1 have "x \<notin> set (y # ys)" using string_less_trans string_less_irrefl by (metis sorted_wrt.simps(2) set_ConsD)
    with 1 True show ?thesis by auto
  next
    case F: False
    show ?thesis
    proof (cases "string_less y x")
      case True
      with 1 have "y \<notin> set (x # xs)" using string_less_trans string_less_irrefl by (metis sorted_wrt.simps(2) set_ConsD)
      with 1 True F show ?thesis by auto
    next
      case False
      with F have xy: "x = y" using string_less_total by blast
      with 1 have "x \<notin> set xs" "x \<notin> set ys" by auto
      with 1 False F xy show ?thesis by auto
    qed
  qed
qed auto

lemma fold_std_set_ok:
  assumes "sorted_wrt string_less s"
  shows "sorted_wrt string_less (fold std_set_insert ms s) \<and> set (fold std_set_insert ms s) = set s \<union> set ms"
    and "sorted_wrt string_less (fold std_set_erase ms s) \<and> set (fold std_set_erase ms s) = set s - set ms"
  using assms by (induction ms arbitrary: s) (auto simp: std_set_insert_ok std_set_erase_ok)


section \<open>The protocol repository implements a map to sets\<close>

type_synonym proto_map = "PeerId \<Rightarrow> ProtocolName set option"

definition proto_abs :: "InmemProtocolRepository \<Rightarrow> proto_map" where
  "proto_abs r p = map_option set (map_of (pr_db r) p)"

definition proto_inv :: "InmemProtocolRepository \<Rightarrow> bool" where
  "proto_inv r \<longleftrightarrow> distinct (map fst (pr_db r)) \<and> (\<forall>(p, s) \<in> set (pr_db r). sorted_wrt string_less s)"

datatype ProtoOp =
    Proto_add PeerId "ProtocolName list"
  | Proto_remove PeerId "ProtocolName list"
  | Proto_clear PeerId
  | Proto_collectGarbage

fun proto_step :: "InmemProtocolRepository \<Rightarrow> ProtoOp \<Rightarrow> InmemProtocolRepository cxx" where
  "proto_step r (Proto_add p ms) = Returns (snd (addProtocols p ms r))"
| "proto_step r (Proto_remove p ms) = Returns (snd (removeProtocols p ms r))"
| "proto_step r (Proto_clear p) = Returns (clear_protocols p r)"
| "proto_step r Proto_collectGarbage = Returns (collectGarbage_protocols r)"

fun proto_spec :: "proto_map \<Rightarrow> ProtoOp \<Rightarrow> proto_map" where
  "proto_spec f (Proto_add p ms) = f(p \<mapsto> (case f p of None \<Rightarrow> {} | Some s \<Rightarrow> s) \<union> set ms)"
| "proto_spec f (Proto_remove p ms) = f(p := map_option (\<lambda>s. s - set ms) (f p))"
| "proto_spec f (Proto_clear p) = f(p := map_option (\<lambda>_. {}) (f p))"
| "proto_spec f Proto_collectGarbage = (\<lambda>p. if f p = Some {} then None else f p)"

lemma proto_inv_sorted: "proto_inv r \<Longrightarrow> map_of (pr_db r) p = Some s \<Longrightarrow> sorted_wrt string_less s"
  by (auto simp: proto_inv_def dest!: map_of_SomeD)

text \<open>Replacing the set of a peer.\<close>

lemma proto_update:
  assumes "proto_inv r" and "sorted_wrt string_less s"
  shows "proto_inv (r\<lparr>pr_db := AList.update p s (pr_db r)\<rparr>)"
    and "proto_abs (r\<lparr>pr_db := AList.update p s (pr_db r)\<rparr>) = (proto_abs r)(p \<mapsto> set s)"
  using assms set_update_subset [of p s "pr_db r"]
  by (auto simp: proto_inv_def distinct_update proto_abs_def update_conv' fun_eq_iff)

lemma proto_step_refines:
  assumes "proto_inv r"
  shows "\<exists>r'. proto_step r x = Returns r' \<and> proto_inv r' \<and> proto_abs r' = proto_spec (proto_abs r) x"
proof (cases x)
  case (Proto_add p ms)
  show ?thesis
  proof (cases "map_of (pr_db r) p")
    case None
    have s: "sorted_wrt string_less ([] :: string list)" by simp
    from proto_update [OF proto_update(1) [OF assms s] conjunct1 [OF fold_std_set_ok(1) [OF s, of ms]], of p p]
      proto_update(2) [OF assms s, of p] None fold_std_set_ok(1) [OF s, of ms] Proto_add
    show ?thesis by (simp add: addProtocols_def getOrAllocateProtocolSet_def proto_abs_def [of r p])
  next
    case (Some s)
    note s = proto_inv_sorted [OF assms Some]
    from proto_update [OF assms conjunct1 [OF fold_std_set_ok(1) [OF s, of ms]], of p] Some fold_std_set_ok(1) [OF s, of ms] Proto_add
    show ?thesis by (simp add: addProtocols_def getOrAllocateProtocolSet_def proto_abs_def [of r p])
  qed
next
  case (Proto_remove p ms)
  show ?thesis
  proof (cases "map_of (pr_db r) p")
    case None
    with Proto_remove assms show ?thesis by (simp add: removeProtocols_def getProtocolSet_def proto_abs_def fun_eq_iff)
  next
    case (Some s)
    note s = proto_inv_sorted [OF assms Some]
    from proto_update [OF assms conjunct1 [OF fold_std_set_ok(2) [OF s, of ms]], of p] Some fold_std_set_ok(2) [OF s, of ms] Proto_remove
    show ?thesis by (simp add: removeProtocols_def getProtocolSet_def proto_abs_def [of r p])
  qed
next
  case (Proto_clear p)
  with assms proto_update [OF assms, of "[]" p] show ?thesis
    by (cases "map_of (pr_db r) p") (auto simp: clear_protocols_def getProtocolSet_def proto_abs_def fun_eq_iff)
next
  case Proto_collectGarbage
  have d: "distinct (map fst (pr_db r))" using assms by (simp add: proto_inv_def)
  have "proto_abs (collectGarbage_protocols r) = proto_spec (proto_abs r) x"
    using map_of_filter_distinct [OF d, of "\<lambda>s. s \<noteq> []"] Proto_collectGarbage
    by (auto simp: proto_abs_def collectGarbage_protocols_def fun_eq_iff split: option.splits)
  moreover have "proto_inv (collectGarbage_protocols r)"
    using assms by (auto simp: proto_inv_def collectGarbage_protocols_def distinct_map_filter)
  ultimately show ?thesis using Proto_collectGarbage by simp
qed

interpretation proto_machine: refining_machine proto_inv "\<lambda>_. True" proto_step proto_abs proto_spec
proof unfold_locales
  show "\<exists>r'. proto_step r x = Returns r' \<and> proto_inv r'" if "proto_inv r" for r x
    using proto_step_refines [OF that] by blast
  show "proto_abs r' = proto_spec (proto_abs r) x" if "proto_inv r" "proto_step r x = Returns r'" for r x r'
    using proto_step_refines [OF that(1), of x] that(2) by auto
qed

text \<open>
  The protocol repository behaves as a map from peers to sets of names:
  whatever operations are applied to a new one, \<open>getProtocols\<close> lists the set of a peer in
  order and without repetition, \<open>supportsProtocols\<close> lists its intersection with the names
  asked for, and both report \<open>NOT_FOUND\<close> exactly for the peers without a set.
\<close>

theorem protocol_repository_refines:
  "\<exists>r. run_cxx proto_step ProtocolRepository_new xs = Returns r
    \<and> (case foldl proto_spec (\<lambda>_. None) xs p of
         None \<Rightarrow> getProtocols_of p r = Inl NOT_FOUND \<and> supportsProtocols p names r = Inl NOT_FOUND
       | Some s \<Rightarrow>
           (\<exists>stored. getProtocols_of p r = Inr stored \<and> sorted_wrt string_less stored \<and> set stored = s)
           \<and> (sorted_wrt string_less names \<longrightarrow>
                (\<exists>common. supportsProtocols p names r = Inr common \<and> sorted_wrt string_less common \<and> set common = set names \<inter> s)))"
proof -
  have n: "proto_inv ProtocolRepository_new" "proto_abs ProtocolRepository_new = (\<lambda>_. None)"
    by (auto simp: proto_inv_def proto_abs_def ProtocolRepository_new_def fun_eq_iff)
  obtain r where r: "run_cxx proto_step ProtocolRepository_new xs = Returns r" "proto_inv r"
    "proto_abs r = foldl proto_spec (\<lambda>_. None) xs"
    using proto_machine.run_refines [OF n(1), of xs] by (auto simp: n(2) list_all_iff)
  show ?thesis
  proof (cases "map_of (pr_db r) p")
    case None
    with r show ?thesis
      by (auto simp: r(3) [symmetric] proto_abs_def getProtocols_of_def supportsProtocols_def getProtocolSet_def)
  next
    case (Some s)
    note s = proto_inv_sorted [OF r(2) Some]
    with Some r(1) set_intersection_ok [OF _ s, of names] show ?thesis
      by (simp add: r(3) [symmetric] proto_abs_def getProtocols_of_def supportsProtocols_def getProtocolSet_def)
  qed
qed

theorem protocol_repository_refines_witness:
  "\<exists>r common. run_cxx proto_step ProtocolRepository_new [Proto_add [1] [''/b'', ''/a'', ''/c''], Proto_remove [1] [''/b'']] = Returns r
    \<and> supportsProtocols [1] [''/a'', ''/b''] r = Inr common \<and> set common = {''/a''}"
  using protocol_repository_refines [of "[Proto_add [1] [''/b'', ''/a'', ''/c''], Proto_remove [1] [''/b'']]" "[1]" "[''/a'', ''/b'']"]
  by (auto simp: insert_commute)

section \<open>Peer addresses\<close>

lemma slash_free_prefix:
  assumes "w @ c # a = t @ c # b" and "c \<notin> set w" and "c \<notin> set t"
  shows "w = t"
proof -
  have "takeWhile (\<lambda>x. x \<noteq> c) (w @ c # a) = w" "takeWhile (\<lambda>x. x \<noteq> c) (t @ c # b) = t"
    using assms(2,3) by (auto simp: takeWhile_tail takeWhile_eq_all_conv)
  with assms(1) show ?thesis by simp
qed

text \<open>
  In a text made of tokens, a name between slashes is found only where it is one of the
  tokens.
\<close>

lemma matches_token:
  assumes "matches_at (concat (map (\<lambda>t. CHR ''/'' # t) ts) @ CHR ''/'' # rest) (''/'' @ w @ ''/'') i"
    and "i < length (concat (map (\<lambda>t. CHR ''/'' # t) ts))" and "\<forall>t \<in> set ts. CHR ''/'' \<notin> set t" and "CHR ''/'' \<notin> set w"
  shows "w \<in> set ts"
  using assms
proof (induction ts arbitrary: i)
  case (Cons t ts)
  let ?more = "concat (map (\<lambda>t. CHR ''/'' # t) ts) @ CHR ''/'' # rest"
  have t: "CHR ''/'' \<notin> set t" using Cons.prems by simp
  obtain m where m: "?more = CHR ''/'' # m" by (cases ts) auto
  have M: "take (length w + 2) (drop i (CHR ''/'' # t @ ?more)) = CHR ''/'' # w @ ''/''"
    using Cons.prems(1) by (simp add: matches_at_def)
  consider "i = 0" | "0 < i" "i \<le> length t" | "length t < i" by linarith
  then show ?case
  proof cases
    case 1
    then have "take (length w + 1) (t @ CHR ''/'' # m) = w @ ''/''" using M m by simp
    then have "w @ CHR ''/'' # drop (length w + 1) (t @ CHR ''/'' # m) = t @ CHR ''/'' # m"
      using append_take_drop_id [of "length w + 1" "t @ CHR ''/'' # m"] by simp
    from slash_free_prefix [OF this Cons.prems(4) t] show ?thesis by simp
  next
    case 2
    have "take (length w + 2) (drop i (CHR ''/'' # t @ ?more)) ! 0 = CHR ''/''" unfolding M by simp
    then have "(CHR ''/'' # t @ ?more) ! i = CHR ''/''" using 2 by (subst (asm) nth_take) (auto simp: nth_drop)
    moreover have "(CHR ''/'' # t @ ?more) ! i = t ! (i - 1)" using 2 by (cases i) (simp_all add: nth_append)
    ultimately show ?thesis using t 2 by (metis One_nat_def Suc_pred less_eq_Suc_le nth_mem)
  next
    case 3
    then have "drop i (CHR ''/'' # t @ ?more) = drop (i - Suc (length t)) ?more" by (simp add: drop_Cons')
    with M have "matches_at ?more (''/'' @ w @ ''/'') (i - Suc (length t))" by (simp add: matches_at_def)
    from Cons.IH [OF this] Cons.prems 3 show ?thesis by simp
  qed
qed simp


lemma str_find_token:
  assumes "w \<notin> set ts" and "\<forall>t \<in> set ts. CHR ''/'' \<notin> set t" and "CHR ''/'' \<notin> set w"
  shows "str_find (concat (map (\<lambda>t. CHR ''/'' # t) ts) @ ''/'' @ w @ ''/'' @ rest) (''/'' @ w @ ''/'') 0
    = Some (length (concat (map (\<lambda>t. CHR ''/'' # t) ts)))"
proof -
  let ?a = "concat (map (\<lambda>t. CHR ''/'' # t) ts)" and ?b = "''/'' @ w @ ''/''"
  let ?s = "?a @ CHR ''/'' # (w @ ''/'' @ rest)"
  have "List.find (matches_at ?s ?b) [0..<length ?a] = None"
    using matches_token [of ts "w @ ''/'' @ rest" w] assms by (intro find_NoneI) auto
  moreover have "matches_at ?s ?b (length ?a)" by (simp add: matches_at_def)
  moreover have "[0..<Suc (length ?s)] = [0..<length ?a] @ length ?a # [Suc (length ?a)..<Suc (length ?s)]"
    by (rule upt_split_at) simp_all
  ultimately have "str_find ?s ?b 0 = Some (length ?a)" unfolding str_find_def by (simp only: find_append) simp
  then show ?thesis by simp
qed

definition p2p_protocol :: Protocol where
  "p2p_protocol = \<lparr>p_code = P2P, p_size = kVarLen, p_name = ''p2p''\<rparr>"

lemma p2p_protocol_simps [simp]:
  "p_name p2p_protocol = ''p2p''" "p_size p2p_protocol = kVarLen" "p2p_protocol \<in> set protocols"
  "get_by_code 421 = Some p2p_protocol"
proof -
  show p: "p2p_protocol \<in> set protocols" by (simp add: p2p_protocol_def protocols_def)
  from protocols_table(2) [OF p] show "get_by_code 421 = Some p2p_protocol" by (simp add: p2p_protocol_def)
qed (simp_all add: p2p_protocol_def)

lemma first_p2p_value:
  assumes "stringified_address ma = ma_text ps @ ''/p2p/'' @ v" and "list_all (part_ok lib) ps"
    and "''p2p'' \<notin> set (concat (map part_tokens ps))" and "CHR ''/'' \<notin> set v"
  shows "getFirstValueForProtocol ma (code_num P2P) = Inr v"
proof -
  let ?s = "ma_text ps @ ''/p2p/'' @ v"
  have free: "\<forall>t \<in> set (concat (map part_tokens ps)). CHR ''/'' \<notin> set t" using part_tokens_ok [OF assms(2)] by blast
  have "str_find ?s ''/p2p/'' 0 = Some (length (ma_text ps))"
    using str_find_token [OF assms(3) free, of v] by (simp add: ma_text_def)
  then have "hd (findSubstringOccurrences ?s ''/p2p/'') = length (ma_text ps)" "findSubstringOccurrences ?s ''/p2p/'' \<noteq> []"
    unfolding findSubstringOccurrences_def by (simp_all add: occurrences_from.simps [of _ _ 0])
  moreover have "value_at ?s (length (ma_text ps)) = v"
  proof -
    have 1: "str_find ?s ''/'' (length (ma_text ps) + 1) = Some (length (ma_text ps) + 4)"
      using str_find_char(2) [of "CHR ''/''" "''p2p''" "ma_text ps @ ''/''" v] by simp
    have 2: "str_find ?s ''/'' (5 + length (ma_text ps)) = None"
      using str_find_char(1) [OF assms(4), of "ma_text ps @ ''/p2p/''"] by (simp add: eval_nat_numeral)
    show ?thesis unfolding value_at_def using 1 2 by (simp add: Let_def)
  qed
  ultimately show ?thesis
    by (cases "findSubstringOccurrences ?s ''/p2p/''")
      (simp_all add: getFirstValueForProtocol_def getValuesForProtocol_def assms(1) Let_def)
qed

lemma toBase58_part_ok:
  assumes "PeerId_fromBase58 (toBase58 i) = Inr i" and "length (toBuffer i) < 2 ^ 64"
  shows "part_ok lib (p2p_protocol, toBase58 i)"
proof -
  obtain xs where xs: "encodeImpl58 (toBuffer i) = replicate (length (takeWhile (\<lambda>b. b = 0) (toBuffer i))) CHR ''1'' @ map ((!) pszBase58) xs"
    and less: "\<forall>x \<in> set xs. x < 58" by (rule encodeImpl58_rest)
  have "CHR ''/'' \<notin> set pszBase58" "length pszBase58 = 58" by (simp_all add: pszBase58_def)
  with less have "CHR ''/'' \<notin> set (toBase58 i)" by (auto simp: toBase58_def encodeBase58_def xs)
  moreover have "toBase58 i \<noteq> []"
  proof
    assume "toBase58 i = []"
    moreover have "decodeBase58 [] = Inr []" using b58.dec_empty by simp
    moreover have "Multihash_createFromBytes [] = Inl MULTIHASH_TOO_SHORT" by code_simp
    ultimately show False using assms(1) by (simp add: PeerId_fromBase58_def)
  qed
  ultimately show ?thesis using assms(2)
    by (simp add: part_ok_def kVarLen_def toBase58_def) (simp add: p2p_protocol_def decode_encodeBase58)
qed

text \<open>
  The text of a peer address, whose multiaddress has no \<open>p2p\<close> among its
  protocols and values, is parsed back to the same id and the same multiaddress, text and
  bytes, for every id that itself survives printing and parsing.
\<close>

theorem peer_address_roundtrip:
  assumes "represents lib ma ps" and "''p2p'' \<notin> set (concat (map part_tokens ps))"
    and "PeerId_fromBase58 (toBase58 i) = Inr i" and "length (toBuffer i) < 2 ^ 64"
  shows "PeerAddress_create lib (PeerAddress_toString \<lparr>pa_id = i, pa_address = ma\<rparr>) = Returns (Inr \<lparr>pa_id = i, pa_address = ma\<rparr>)"
proof -
  let ?v = "toBase58 i" and ?last = "[(p2p_protocol, toBase58 i)]"
  have ok: "list_all (part_ok lib) ps" "list_all (part_ok lib) (ps @ ?last)" "list_all (part_ok lib) ?last"
    using assms(1) toBase58_part_ok [OF assms(3,4)] by (simp_all add: represents_def)
  then have v: "?v \<noteq> []" "CHR ''/'' \<notin> set ?v" by (simp_all add: part_ok_def kVarLen_def)
  have t: "ma_text ?last = ''/p2p/'' @ ?v" by (simp add: ma_text_def part_tokens_def kVarLen_def)
  have s: "stringified_address ma = ma_text ps" "ma_bytes ma = ma_wire lib ps" using assms(1) by (simp_all add: represents_def)
  have str: "PeerAddress_toString \<lparr>pa_id = i, pa_address = ma\<rparr> = ma_text (ps @ ?last)"
    by (simp add: PeerAddress_toString_def kP2PSubstr_def s ma_text_append t)
  let ?full = "\<lparr>stringified_address = ma_text (ps @ ?last), ma_bytes = ma_wire lib (ps @ ?last)\<rparr>"
  have full: "create_from_string lib (ma_text (ps @ ?last)) = Returns (Inr ?full)" by (rule create_represents(1) [OF ok(2)]) simp
  have fv: "getFirstValueForProtocol ?full (code_num P2P) = Inr ?v"
    using first_p2p_value [OF _ ok(1) assms(2) v(2)] by (simp add: ma_text_append t)
  have "multiaddrToBytes lib (''/p2p/'' @ ?v) = Returns (Inr (ma_wire lib ?last))"
    using multiaddr_text_to_bytes [OF ok(3)] by (simp add: t)
  then have "decapsulate_protocol lib ?full (code_num P2P) ?v
      = Returns (decapsulateStringFromAddress ?full (''/p2p/'' @ ?v) (ma_wire lib ?last))"
    using v(1) by (simp add: decapsulate_protocol_def)
  also have "decapsulateStringFromAddress ?full (''/p2p/'' @ ?v) (ma_wire lib ?last) = (True, ma)"
    using str_rfind_suffix [of "ma_text ps" "''/p2p/'' @ ?v"] str_rfind_suffix [of "ma_wire lib ps" "ma_wire lib ?last"] s
    by (simp add: decapsulateStringFromAddress_def ma_text_append ma_wire_append t)
  finally show ?thesis using full fv assms(3) by (simp add: PeerAddress_create_def str)
qed

theorem peer_address_roundtrip_witness:
  "PeerAddress_create sample_lib
     (PeerAddress_toString \<lparr>pa_id = Multihash_Data identity [7, 7], pa_address = sample_address sample_parts\<rparr>)
   = Returns (Inr \<lparr>pa_id = Multihash_Data identity [7, 7], pa_address = sample_address sample_parts\<rparr>)"
proof (rule peer_address_roundtrip)
  show "represents sample_lib (sample_address sample_parts) sample_parts"
    using sample_represents(1) [of "length sample_parts"] by simp
  show "''p2p'' \<notin> set (concat (map part_tokens sample_parts))" by (simp add: sample_parts_def part_tokens_def)
  show "PeerId_fromBase58 (toBase58 (Multihash_Data identity [7, 7])) = Inr (Multihash_Data identity [7, 7])"
    using createFromBytes_Data [of "[7, 7]" identity]
    by (simp add: PeerId_fromBase58_eq PeerId_fromBytes_def toVector_def kMaxHashLength_def PeerId_fromHash_def) code_simp
  have "length (toBuffer (Multihash_Data identity [7, 7])) = 4" by code_simp
  then show "length (toBuffer (Multihash_Data identity [7, 7])) < 2 ^ 64" by simp
qed

section \<open>Further lemmas\<close>

text \<open>The peers of the repository are those of the addresses, the keys and the protocols.\<close>

lemma set_merge_sets: "set (merge_sets out xs) = set out \<union> set xs"
  unfolding merge_sets_def by (induction xs arbitrary: out) auto

lemma set_getPeers:
  "set (getPeers r) = dom (map_of (ar_db (repo_addr r))) \<union> dom (map_of (kr_pub (repo_key r))) \<union> dom (map_of (pr_db (repo_proto r)))"
  by (simp add: getPeers_def set_merge_sets getPeers_addresses_def getPeers_keys_def getPeers_protocols_def dom_map_of_conv_image_fst)

text \<open>Removing the keys of one peer removes the key pairs of all.\<close>

lemma clear_keys_drops_all_pairs: "getKeyPairs (clear_keys p (addKeyPair k r)) = []"
  by (simp add: clear_keys_def getKeyPairs_def)

end
