(* ===== verification/Connections.thy ===== *)
theory Connections
  imports Prelude
begin

text \<open>
  The connection manager \<open>src/network/connection_manager.cpp\<close>, with what
  \<open>src/transport/quic/connection.cpp\<close> and the accept loop of
  \<open>src/network/listener_manager.cpp\<close> do to connections. A \<open>ConnectionSPtr\<close> is an index into
  the list of all connection objects, of which only the remote peer and whether it is closed
  matter here. The events published on the bus are collected in the order of publication;
  their subscribers do not call back into the manager.

  \<open>QuicConnection::close\<close> asks lsquic to close the connection, which reports the end to
  \<open>QuicConnection::onClose\<close>, in the same call or later: both are possible here. After it,
  the accept loop of the connection ends and reports to \<open>onConnectionClosed\<close>.

  The lemmas show that the connections stored are consistent in every reachable state, and
  that what the events tell is exactly what is stored, so that a peer is reported to have
  disconnected once, after its last connection has gone.
\<close>

section \<open>Model\<close>

record Conn =
  c_remote :: PeerId
  c_closed :: bool
  c_close_asked :: bool

datatype NetEvent = OnNewConnection nat | OnConnectionClosed nat | OnPeerDisconnected PeerId

record Net =
  conns :: "Conn list"
  connections :: "(PeerId, nat list) alist"
  closing_connections_to_peer :: "PeerId option"
  net_events :: "NetEvent list"
  serving :: "nat list"

definition Net_new :: Net where
  "Net_new = \<lparr>conns = [], connections = [], closing_connections_to_peer = None, net_events = [], serving = []\<rparr>"

definition isClosed :: "nat \<Rightarrow> Net \<Rightarrow> bool" where
  "isClosed c n = c_closed (conns n ! c)"

definition remotePeer :: "nat \<Rightarrow> Net \<Rightarrow> PeerId" where
  "remotePeer c n = c_remote (conns n ! c)"

definition publish :: "NetEvent \<Rightarrow> Net \<Rightarrow> Net" where
  "publish e n = n\<lparr>net_events := net_events n @ [e]\<rparr>"

definition getConnectionsToPeer :: "PeerId \<Rightarrow> Net \<Rightarrow> nat list" where
  "getConnectionsToPeer p n =
     (case map_of (connections n) p of None \<Rightarrow> [] | Some cs \<Rightarrow> filter (\<lambda>c. \<not> isClosed c n) cs)"

definition getBestConnectionForPeer :: "PeerId \<Rightarrow> Net \<Rightarrow> nat option" where
  "getBestConnectionForPeer p n =
     (case map_of (connections n) p of None \<Rightarrow> None | Some cs \<Rightarrow> List.find (\<lambda>c. \<not> isClosed c n) cs)"

text \<open>\<open>None\<close> is the null pointer.\<close>

definition addConnectionToPeer :: "PeerId \<Rightarrow> nat option \<Rightarrow> Net \<Rightarrow> Net" where
  "addConnectionToPeer p conn n =
     (case conn of
        None \<Rightarrow> n
      | Some c \<Rightarrow>
          publish (OnNewConnection c)
            (case map_of (connections n) p of
               None \<Rightarrow> n\<lparr>connections := AList.update p [c] (connections n)\<rparr>
             | Some cs \<Rightarrow> n\<lparr>connections := AList.update p (List.insert c cs) (connections n)\<rparr>))"

definition getConnections :: "Net \<Rightarrow> nat list" where
  "getConnections n = concat (map (\<lambda>(p, cs). filter (\<lambda>c. \<not> isClosed c n) cs) (connections n))"

definition collectGarbage_connections :: "Net \<Rightarrow> Net" where
  "collectGarbage_connections n =
     n\<lparr>connections := filter (\<lambda>(p, cs). cs \<noteq> []) (map (\<lambda>(p, cs). (p, filter (\<lambda>c. \<not> isClosed c n) cs)) (connections n))\<rparr>"

definition onConnectionClosed :: "PeerId \<Rightarrow> nat \<Rightarrow> Net \<Rightarrow> Net" where
  "onConnectionClosed p c n =
     (if closing_connections_to_peer n = Some p then n
      else
        (case map_of (connections n) p of
           None \<Rightarrow> n
         | Some cs \<Rightarrow>
             (let n1 = (if c \<in> set cs
                        then publish (OnConnectionClosed c) (n\<lparr>connections := AList.update p (remove1 c cs) (connections n)\<rparr>)
                        else n)
              in if remove1 c cs = []
                 then publish (OnPeerDisconnected p) (n1\<lparr>connections := AList.delete p (connections n1)\<rparr>)
                 else n1)))"

text \<open>\<open>QuicConnection::onClose\<close>, and the end of the accept loop of a closed connection.\<close>

definition conn_onClose :: "nat \<Rightarrow> Net \<Rightarrow> Net" where
  "conn_onClose c n = n\<lparr>conns := (conns n)[c := (conns n ! c)\<lparr>c_closed := True\<rparr>]\<rparr>"

definition serve_end :: "nat \<Rightarrow> Net \<Rightarrow> Net" where
  "serve_end c n =
     (if c \<in> set (serving n) \<and> isClosed c n
      then onConnectionClosed (remotePeer c n) c (n\<lparr>serving := remove1 c (serving n)\<rparr>)
      else n)"

text \<open>
  \<open>close\<close> of a connection; \<open>at_once\<close> lists the connections whose end is reported before
  the call returns.
\<close>

definition conn_close :: "nat list \<Rightarrow> nat \<Rightarrow> Net \<Rightarrow> Net" where
  "conn_close at_once c n =
     (if c \<in> set at_once then serve_end c (conn_onClose c n)
      else n\<lparr>conns := (conns n)[c := (conns n ! c)\<lparr>c_close_asked := True\<rparr>]\<rparr>)"

definition close_one :: "nat list \<Rightarrow> nat \<Rightarrow> Net \<Rightarrow> Net" where
  "close_one at_once c n = publish (OnConnectionClosed c) (if isClosed c n then n else conn_close at_once c n)"

definition closeConnectionsToPeer :: "nat list \<Rightarrow> PeerId \<Rightarrow> Net \<Rightarrow> Net" where
  "closeConnectionsToPeer at_once p n =
     (case map_of (connections n) p of
        None \<Rightarrow> n
      | Some cs \<Rightarrow>
          (let n1 = n\<lparr>connections := AList.delete p (connections n)\<rparr>
           in if cs = [] then n1
              else
                (let n2 = n1\<lparr>closing_connections_to_peer := Some p\<rparr>;
                     n3 = fold (close_one at_once) cs n2;
                     n4 = n3\<lparr>closing_connections_to_peer := None\<rparr>
                 in if map_of (connections n4) p = None then publish (OnPeerDisconnected p) n4 else n4)))"

definition getConnectedPeers :: "Net \<Rightarrow> PeerId list" where
  "getConnectedPeers n = map fst (connections n)"

definition getConnectedPeerCount :: "Net \<Rightarrow> nat" where
  "getConnectedPeerCount n = length (connections n)"

text \<open>
  \<open>ListenerManager::onConnection\<close> for a connection that was made: the accept loop runs
  until it waits for a stream, or ends at once when the connection is already closed; then
  the connection is stored.
\<close>

definition onConnection :: "nat \<Rightarrow> Net \<Rightarrow> Net" where
  "onConnection c n =
     addConnectionToPeer (remotePeer c n) (Some c)
       (if isClosed c n then onConnectionClosed (remotePeer c n) c n else n\<lparr>serving := serving n @ [c]\<rparr>)"

section \<open>Steps\<close>

text \<open>
  What happens to the manager: a connection to a peer is made, which may already be closed;
  lsquic reports the end of a connection; an accept loop notices it; the host disconnects
  from a peer.
\<close>

datatype NetOp =
    Op_connected PeerId bool
  | Op_conn_closed nat
  | Op_serve_end nat
  | Op_disconnect PeerId "nat list"

fun net_step :: "Net \<Rightarrow> NetOp \<Rightarrow> Net cxx" where
  "net_step n (Op_connected p closed) =
     Returns (onConnection (length (conns n)) (n\<lparr>conns := conns n @ [\<lparr>c_remote = p, c_closed = closed, c_close_asked = False\<rparr>]\<rparr>))"
| "net_step n (Op_conn_closed c) = (if c < length (conns n) then Returns (conn_onClose c n) else Returns n)"
| "net_step n (Op_serve_end c) = Returns (serve_end c n)"
| "net_step n (Op_disconnect p at_once) = Returns (closeConnectionsToPeer at_once p n)"

section \<open>The invariant\<close>

text \<open>
  What a subscriber knows: the connections and the peers it was told of. It fails when it
  is told of a connection twice, of the end of one it does not know, or that a peer has
  disconnected which has a connection left or was not connected.
\<close>

fun net_replay :: "(nat \<Rightarrow> PeerId) \<Rightarrow> NetEvent list \<Rightarrow> nat set \<times> PeerId set \<Rightarrow> (nat set \<times> PeerId set) option" where
  "net_replay r [] S = Some S"
| "net_replay r (OnNewConnection c # es) (C, P) =
     (if c \<in> C then None else net_replay r es (insert c C, insert (r c) P))"
| "net_replay r (OnConnectionClosed c # es) (C, P) =
     (if c \<notin> C then None else net_replay r es (C - {c}, P))"
| "net_replay r (OnPeerDisconnected p # es) (C, P) =
     (if p \<notin> P \<or> p \<in> r ` C then None else net_replay r es (C, P - {p}))"

fun event_conns :: "NetEvent \<Rightarrow> nat set" where
  "event_conns (OnNewConnection c) = {c}"
| "event_conns (OnConnectionClosed c) = {c}"
| "event_conns (OnPeerDisconnected p) = {}"

definition stored :: "Net \<Rightarrow> nat set" where
  "stored n = {c. \<exists>p cs. map_of (connections n) p = Some cs \<and> c \<in> set cs}"

definition told :: "Net \<Rightarrow> (nat set \<times> PeerId set) option" where
  "told n = net_replay (\<lambda>c. remotePeer c n) (net_events n) ({}, {})"

text \<open>The part of the invariant that also holds while the connections to a peer are being closed.\<close>

definition net_wf :: "Net \<Rightarrow> bool" where
  "net_wf n \<longleftrightarrow>
     distinct (map fst (connections n))
     \<and> (\<forall>p cs. map_of (connections n) p = Some cs \<longrightarrow>
          cs \<noteq> [] \<and> distinct cs \<and> (\<forall>c \<in> set cs. c < length (conns n) \<and> remotePeer c n = p))
     \<and> distinct (serving n) \<and> (\<forall>c \<in> set (serving n). c < length (conns n))
     \<and> (\<forall>e \<in> set (net_events n). \<forall>c \<in> event_conns e. c < length (conns n))"

definition net_ok :: "Net \<Rightarrow> bool" where
  "net_ok n \<longleftrightarrow> net_wf n \<and> closing_connections_to_peer n = None
     \<and> (\<forall>c \<in> stored n. \<not> isClosed c n \<longrightarrow> c \<in> set (serving n))
     \<and> told n = Some (stored n, dom (map_of (connections n)))"

lemma net_replay_append: "net_replay r (es @ fs) S = Option.bind (net_replay r es S) (net_replay r fs)"
  by (induction r es S rule: net_replay.induct) auto

lemma net_replay_cong:
  assumes "\<forall>e \<in> set es. \<forall>c \<in> event_conns e. r c = r' c" and "\<forall>c \<in> fst S. r c = r' c"
  shows "net_replay r es S = net_replay r' es S"
  using assms
proof (induction r es S rule: net_replay.induct)
  case (4 r p es C P)
  then have "r ` C = r' ` C" by auto
  with 4 show ?case by auto
qed auto


lemma publish_simps [simp]:
  "conns (publish e n) = conns n" "connections (publish e n) = connections n" "serving (publish e n) = serving n"
  "closing_connections_to_peer (publish e n) = closing_connections_to_peer n" "net_events (publish e n) = net_events n @ [e]"
  "remotePeer c (publish e n) = remotePeer c n" "isClosed c (publish e n) = isClosed c n" "stored (publish e n) = stored n"
  by (simp_all add: publish_def remotePeer_def isClosed_def stored_def)

lemma told_publish [simp]:
  "told (publish e n) = Option.bind (told n) (net_replay (\<lambda>c. remotePeer c n) [e])"
  by (simp add: told_def net_replay_append)

lemma net_okD:
  assumes "net_ok n"
  shows "net_wf n" and "closing_connections_to_peer n = None" and "told n = Some (stored n, dom (map_of (connections n)))"
    and "\<And>c. c \<in> stored n \<Longrightarrow> \<not> isClosed c n \<Longrightarrow> c \<in> set (serving n)"
  using assms by (auto simp: net_ok_def)

lemma net_wf_entry:
  assumes "net_wf n" and "map_of (connections n) p = Some cs"
  shows "cs \<noteq> []" and "distinct cs" and "\<And>c. c \<in> set cs \<Longrightarrow> c < length (conns n)" and "\<And>c. c \<in> set cs \<Longrightarrow> remotePeer c n = p"
  using assms unfolding net_wf_def by blast+

lemma stored_iff: "net_wf n \<Longrightarrow> c \<in> stored n \<longleftrightarrow> (\<exists>cs. map_of (connections n) (remotePeer c n) = Some cs \<and> c \<in> set cs)"
  unfolding stored_def using net_wf_entry(4) by blast

lemma stored_to_peer:
  assumes "net_wf n"
  shows "{c \<in> stored n. remotePeer c n = p} = (case map_of (connections n) p of None \<Rightarrow> {} | Some cs \<Rightarrow> set cs)"
proof (cases "map_of (connections n) p")
  case None
  have "c \<notin> stored n" if "remotePeer c n = p" for c using None that by (simp add: stored_iff [OF assms])
  with None show ?thesis by auto
next
  case (Some cs)
  have "c \<in> stored n \<longleftrightarrow> c \<in> set cs" if "remotePeer c n = p" for c using Some that by (simp add: stored_iff [OF assms])
  with Some net_wf_entry(4) [OF assms Some] show ?thesis by auto
qed

lemma stored_less: "net_wf n \<Longrightarrow> c \<in> stored n \<Longrightarrow> c < length (conns n)"
  unfolding stored_def using net_wf_entry(3) by blast

text \<open>A step that leaves the stored connections, the events and the peers of the connections alone.\<close>

lemma net_wf_frame:
  assumes "net_wf n" and "connections m = connections n" and "net_events m = net_events n" and "length (conns m) = length (conns n)"
    and "\<And>c. remotePeer c m = remotePeer c n" and "distinct (serving m)" and "set (serving m) \<subseteq> set (serving n)"
  shows "net_wf m"
  using assms unfolding net_wf_def by auto

lemma told_frame: "(\<And>c. remotePeer c m = remotePeer c n) \<Longrightarrow> net_events m = net_events n \<Longrightarrow> told m = told n"
  by (simp add: told_def)

lemma stored_frame: "connections m = connections n \<Longrightarrow> stored m = stored n"
  by (simp add: stored_def)

text \<open>Closing marks.\<close>

lemma nth_update_same: "f y = f (xs ! c) \<Longrightarrow> f (xs[c := y] ! x) = f (xs ! x)"
  by (cases "c < length xs"; cases "x = c") (simp_all add: list_update_beyond)

lemma conn_onClose_simps [simp]:
  "connections (conn_onClose c n) = connections n" "serving (conn_onClose c n) = serving n"
  "closing_connections_to_peer (conn_onClose c n) = closing_connections_to_peer n" "net_events (conn_onClose c n) = net_events n"
  "length (conns (conn_onClose c n)) = length (conns n)" "remotePeer x (conn_onClose c n) = remotePeer x n"
  by (simp_all add: conn_onClose_def remotePeer_def nth_update_same)

lemma isClosed_conn_onClose: "c < length (conns n) \<Longrightarrow> isClosed x (conn_onClose c n) \<longleftrightarrow> x = c \<or> isClosed x n"
  by (auto simp: conn_onClose_def isClosed_def nth_list_update)

lemma conn_onClose_ok:
  assumes "net_ok n" and "c < length (conns n)"
  shows "net_ok (conn_onClose c n)"
proof -
  note d = net_okD [OF assms(1)]
  have "net_wf (conn_onClose c n)" using d(1) by (rule net_wf_frame) (use d(1) in \<open>simp_all add: net_wf_def\<close>)
  moreover have "told (conn_onClose c n) = told n" by (rule told_frame) simp_all
  ultimately show ?thesis using d isClosed_conn_onClose [OF assms(2)] stored_frame [of "conn_onClose c n" n]
    by (simp add: net_ok_def)
qed

text \<open>A connection that is not stored is ignored.\<close>

lemma onConnectionClosed_unknown:
  assumes "net_wf n" and "c \<notin> stored n" and "remotePeer c n = p"
  shows "onConnectionClosed p c n = n"
  using assms net_wf_entry(1) [OF assms(1)]
  by (auto simp: onConnectionClosed_def stored_def remove1_idem Let_def split: option.splits)

text \<open>Replacing the connections to one peer.\<close>

lemma stored_update:
  assumes "net_wf n" and "connections m = AList.update p cs (connections n)" and "cs \<noteq> []"
  shows "stored m = {c \<in> stored n. remotePeer c n \<noteq> p} \<union> set cs" and "dom (map_of (connections m)) = insert p (dom (map_of (connections n)))"
proof -
  show "stored m = {c \<in> stored n. remotePeer c n \<noteq> p} \<union> set cs"
    using net_wf_entry(4) [OF assms(1)] by (force simp: stored_def assms(2) update_conv')
qed (simp add: assms(2) update_conv' dom_fun_upd)

lemma stored_delete:
  assumes "net_wf n" and "connections m = AList.delete p (connections n)"
  shows "stored m = {c \<in> stored n. remotePeer c n \<noteq> p}" and "dom (map_of (connections m)) = dom (map_of (connections n)) - {p}"
proof -
  show "stored m = {c \<in> stored n. remotePeer c n \<noteq> p}"
    using net_wf_entry(4) [OF assms(1)] by (force simp: stored_def assms(2) delete_conv')
qed (simp add: assms(2) delete_conv' dom_fun_upd)

lemma net_wf_update:
  assumes "net_wf n" and "cs \<noteq> []" and "distinct cs" and "\<And>c. c \<in> set cs \<Longrightarrow> c < length (conns n) \<and> remotePeer c n = p"
  shows "net_wf (n\<lparr>connections := AList.update p cs (connections n)\<rparr>)"
  using assms by (auto simp: net_wf_def distinct_update update_conv' remotePeer_def)

lemma net_wf_delete: "net_wf n \<Longrightarrow> net_wf (n\<lparr>connections := AList.delete p (connections n)\<rparr>)"
  by (auto simp: net_wf_def distinct_delete delete_conv' remotePeer_def split: if_splits)

lemma net_wf_publish: "net_wf n \<Longrightarrow> \<forall>c \<in> event_conns e. c < length (conns n) \<Longrightarrow> net_wf (publish e n)"
  by (auto simp: net_wf_def)


section \<open>Every step keeps it\<close>

lemma net_ok_new: "net_ok Net_new"
  by (auto simp: net_ok_def net_wf_def Net_new_def told_def stored_def)

lemma net_ok_extend:
  assumes "net_ok n"
  shows "net_ok (n\<lparr>conns := conns n @ [x]\<rparr>)" and "length (conns n) \<notin> stored (n\<lparr>conns := conns n @ [x]\<rparr>)"
proof -
  let ?m = "n\<lparr>conns := conns n @ [x]\<rparr>"
  note d = net_okD [OF assms]
  have r: "remotePeer c ?m = remotePeer c n" "isClosed c ?m = isClosed c n" if "c < length (conns n)" for c
    using that by (simp_all add: remotePeer_def isClosed_def nth_append)
  have wf: "net_wf ?m" unfolding net_wf_def using d(1) r net_wf_entry [OF d(1)] by (auto simp: net_wf_def less_SucI)
  have "told ?m = told n"
    unfolding told_def using d(1) r by (simp add: net_wf_def) (rule net_replay_cong; auto)
  moreover have st: "stored ?m = stored n" by (simp add: stored_def)
  moreover have "c \<in> set (serving n)" if "c \<in> stored n" "\<not> isClosed c ?m" for c
    using that d(4) r(2) [OF stored_less [OF d(1) that(1)]] by simp
  ultimately show "net_ok ?m" using d wf by (simp add: net_ok_def)
  show "length (conns n) \<notin> stored ?m" using st stored_less [OF d(1)] by blast
qed

lemma net_ok_serving:
  assumes "net_ok n" and "c < length (conns n)" and "c \<notin> set (serving n)"
  shows "net_ok (n\<lparr>serving := serving n @ [c]\<rparr>)"
proof -
  note d = net_okD [OF assms(1)]
  have "told (n\<lparr>serving := serving n @ [c]\<rparr>) = told n" by (rule told_frame) (simp_all add: remotePeer_def)
  then show ?thesis using d assms(2,3) by (auto simp: net_ok_def net_wf_def stored_def isClosed_def remotePeer_def)
qed

lemma addConnectionToPeer_ok:
  assumes "net_ok n" and "c < length (conns n)" and "c \<notin> stored n" and "isClosed c n \<or> c \<in> set (serving n)"
  shows "net_ok (addConnectionToPeer (remotePeer c n) (Some c) n)"
proof -
  note d = net_okD [OF assms(1)]
  let ?p = "remotePeer c n"
  let ?cs = "case map_of (connections n) ?p of None \<Rightarrow> [c] | Some cs \<Rightarrow> List.insert c cs"
  let ?m = "n\<lparr>connections := AList.update ?p ?cs (connections n)\<rparr>"
  have old: "set ?cs = insert c {x \<in> stored n. remotePeer x n = ?p}"
    unfolding stored_to_peer [OF d(1)] by (simp split: option.split)
  then have cs: "?cs \<noteq> []" by auto
  have dist: "distinct ?cs" using net_wf_entry(2) [OF d(1)] by (simp split: option.split)
  have "x < length (conns n) \<and> remotePeer x n = ?p" if "x \<in> set ?cs" for x
    using that assms(2) stored_less [OF d(1)] unfolding old by auto
  with d(1) cs dist have wf: "net_wf ?m" by (intro net_wf_update) auto
  have st: "stored ?m = insert c (stored n)" "dom (map_of (connections ?m)) = insert ?p (dom (map_of (connections n)))"
    using stored_update [OF d(1) _ cs, of ?m ?p] old by auto
  have t: "told ?m = told n" by (rule told_frame) (simp_all add: remotePeer_def)
  have e: "addConnectionToPeer ?p (Some c) n = publish (OnNewConnection c) ?m"
    by (simp add: addConnectionToPeer_def split: option.split)
  have "remotePeer c ?m = ?p" by (simp add: remotePeer_def)
  then show ?thesis unfolding e using d wf st t assms(2-4)
    by (auto simp: net_ok_def isClosed_def intro!: net_wf_publish)
qed

lemma onConnection_ok:
  assumes "net_ok n" and "c < length (conns n)" and "c \<notin> stored n" and "c \<notin> set (serving n)"
  shows "net_ok (onConnection c n)"
proof (cases "isClosed c n")
  case True
  with onConnectionClosed_unknown [OF net_okD(1) [OF assms(1)] assms(3) refl] addConnectionToPeer_ok [OF assms(1-3)]
  show ?thesis by (simp add: onConnection_def)
next
  case False
  let ?m = "n\<lparr>serving := serving n @ [c]\<rparr>"
  have s: "stored ?m = stored n" "remotePeer c ?m = remotePeer c n" by (simp_all add: stored_def remotePeer_def)
  from addConnectionToPeer_ok [OF net_ok_serving [OF assms(1,2,4)], of c] assms(2,3) False show ?thesis
    by (simp add: onConnection_def s)
qed

text \<open>The end of a connection, when the host is not closing the connections to its peer itself.\<close>

lemma onConnectionClosed_ok:
  assumes "net_wf n" and "closing_connections_to_peer n = None" and "told n = Some (stored n, dom (map_of (connections n)))"
    and "\<forall>x \<in> stored n. x \<noteq> c \<longrightarrow> \<not> isClosed x n \<longrightarrow> x \<in> set (serving n)" and "isClosed c n"
  shows "net_ok (onConnectionClosed (remotePeer c n) c n)"
proof (cases "c \<in> stored n")
  case False
  with onConnectionClosed_unknown [OF assms(1) False refl] assms show ?thesis by (auto simp: net_ok_def)
next
  case True
  let ?p = "remotePeer c n"
  obtain cs where cs: "map_of (connections n) ?p = Some cs" "c \<in> set cs" using True stored_iff [OF assms(1)] by blast
  note w = net_wf_entry [OF assms(1) cs(1)]
  have all: "set cs = {x \<in> stored n. remotePeer x n = ?p}"
    using stored_to_peer [OF assms(1), of ?p] cs(1) by simp
  have less: "c < length (conns n)" using w(3) cs(2) .
  show ?thesis
  proof (cases "remove1 c cs = []")
    case True
    let ?m = "n\<lparr>connections := AList.delete ?p (connections n)\<rparr>"
    have "set cs = {c}" using True w(2) cs(2) by (metis Diff_eq_empty_iff empty_set set_remove1_eq subset_singletonD insert_not_empty empty_iff)
    then have st: "stored ?m = stored n - {c}" "dom (map_of (connections ?m)) = dom (map_of (connections n)) - {?p}"
      using stored_delete [OF assms(1), of ?m ?p] all by auto
    have "AList.delete ?p (AList.update ?p [] (connections n)) = AList.delete ?p (connections n)"
      by (rule delete_update_same)
    then have e: "onConnectionClosed ?p c n = publish (OnPeerDisconnected ?p) (publish (OnConnectionClosed c) ?m)"
      using cs assms(2) True by (simp add: onConnectionClosed_def Let_def publish_def)
    have t: "told ?m = told n" by (rule told_frame) (simp_all add: remotePeer_def)
    have r: "remotePeer x ?m = remotePeer x n" for x by (simp add: remotePeer_def)
    have np: "?p \<notin> (\<lambda>x. remotePeer x n) ` (stored n - {c})"
    proof
      assume "?p \<in> (\<lambda>x. remotePeer x n) ` (stored n - {c})"
      then obtain x where "x \<in> stored n" "x \<noteq> c" "remotePeer x n = ?p" unfolding image_iff by (metis DiffE singletonI)
      then have "x \<in> set cs" unfolding all by simp
      with \<open>set cs = {c}\<close> \<open>x \<noteq> c\<close> show False by simp
    qed
    have "told (onConnectionClosed ?p c n)
      = net_replay (\<lambda>x. remotePeer x n) [OnConnectionClosed c, OnPeerDisconnected ?p] (stored n, dom (map_of (connections n)))"
      unfolding e told_publish t assms(3) by (simp add: r)
    also have "\<dots> = Some (stored n - {c}, dom (map_of (connections n)) - {?p})"
      using np \<open>c \<in> stored n\<close> cs(1) by (simp add: domI)
    finally have "told (onConnectionClosed ?p c n) = Some (stored ?m, dom (map_of (connections ?m)))" by (simp only: st)
    then show ?thesis using assms(1,2,4) st less net_wf_delete [OF assms(1), of ?p]
      unfolding e by (auto simp: net_ok_def isClosed_def intro!: net_wf_publish)
  next
    case False
    let ?m = "n\<lparr>connections := AList.update ?p (remove1 c cs) (connections n)\<rparr>"
    have st: "stored ?m = stored n - {c}" "dom (map_of (connections ?m)) = dom (map_of (connections n))"
      using stored_update [OF assms(1) _ False, of ?m ?p] all w(2) cs(1) by auto
    have e: "onConnectionClosed ?p c n = publish (OnConnectionClosed c) ?m"
      using cs assms(2) False by (simp add: onConnectionClosed_def Let_def)
    have wf: "net_wf ?m" using assms(1) False w by (intro net_wf_update) (auto dest: notin_set_remove1)
    have t: "told ?m = told n" by (rule told_frame) (simp_all add: remotePeer_def)
    show ?thesis unfolding e using t wf assms(2,3,4) st less \<open>c \<in> stored n\<close>
      by (auto simp: net_ok_def isClosed_def intro!: net_wf_publish)
  qed
qed

lemma serve_end_ok:
  assumes "net_ok n"
  shows "net_ok (serve_end c n)"
proof (cases "c \<in> set (serving n) \<and> isClosed c n")
  case True
  note d = net_okD [OF assms]
  let ?m = "n\<lparr>serving := remove1 c (serving n)\<rparr>"
  have f: "remotePeer x ?m = remotePeer x n" "isClosed x ?m = isClosed x n" "stored ?m = stored n" for x
    by (simp_all add: remotePeer_def isClosed_def stored_def)
  have "net_wf ?m" using d(1) by (rule net_wf_frame) (use d(1) f in \<open>auto simp: net_wf_def dest: notin_set_remove1\<close>)
  moreover have "told ?m = told n" by (rule told_frame) (simp_all add: f)
  ultimately have "net_ok (onConnectionClosed (remotePeer c ?m) c ?m)"
    using d True by (intro onConnectionClosed_ok) (auto simp: f)
  with True show ?thesis by (simp add: serve_end_def f)
qed (use assms in \<open>auto simp: serve_end_def\<close>)


text \<open>Closing one connection while the host closes all connections to its peer.\<close>

lemma close_one_frame:
  assumes "closing_connections_to_peer n = Some (remotePeer c n)" and "c < length (conns n)" and "distinct (serving n)"
  shows "connections (close_one at_once c n) = connections n"
    and "closing_connections_to_peer (close_one at_once c n) = closing_connections_to_peer n"
    and "net_events (close_one at_once c n) = net_events n @ [OnConnectionClosed c]"
    and "length (conns (close_one at_once c n)) = length (conns n)"
    and "remotePeer x (close_one at_once c n) = remotePeer x n"
    and "isClosed x n \<Longrightarrow> isClosed x (close_one at_once c n)"
    and "x \<noteq> c \<Longrightarrow> isClosed x (close_one at_once c n) = isClosed x n"
    and "distinct (serving (close_one at_once c n))"
    and "set (serving (close_one at_once c n)) \<subseteq> set (serving n)"
    and "x \<noteq> c \<Longrightarrow> x \<in> set (serving (close_one at_once c n)) \<longleftrightarrow> x \<in> set (serving n)"
proof -
  let ?asked = "n\<lparr>conns := (conns n)[c := (conns n ! c)\<lparr>c_close_asked := True\<rparr>]\<rparr>"
  have a: "remotePeer x ?asked = remotePeer x n" "isClosed x ?asked = isClosed x n" for x
    by (simp_all add: remotePeer_def isClosed_def nth_update_same)
  have o: "serve_end c (conn_onClose c n) =
      (if c \<in> set (serving n) then (conn_onClose c n)\<lparr>serving := remove1 c (serving n)\<rparr> else conn_onClose c n)"
    using assms(1) isClosed_conn_onClose [OF assms(2), of c] by (simp add: serve_end_def onConnectionClosed_def)
  have s: "remotePeer x (m\<lparr>serving := ss\<rparr>) = remotePeer x m" "isClosed x (m\<lparr>serving := ss\<rparr>) = isClosed x m" for x m ss
    by (simp_all add: remotePeer_def isClosed_def)
  note c = isClosed_conn_onClose [OF assms(2)]
  show "connections (close_one at_once c n) = connections n"
    "closing_connections_to_peer (close_one at_once c n) = closing_connections_to_peer n"
    "net_events (close_one at_once c n) = net_events n @ [OnConnectionClosed c]"
    "length (conns (close_one at_once c n)) = length (conns n)"
    "remotePeer x (close_one at_once c n) = remotePeer x n"
    "isClosed x n \<Longrightarrow> isClosed x (close_one at_once c n)"
    "x \<noteq> c \<Longrightarrow> isClosed x (close_one at_once c n) = isClosed x n"
    "distinct (serving (close_one at_once c n))"
    "set (serving (close_one at_once c n)) \<subseteq> set (serving n)"
    "x \<noteq> c \<Longrightarrow> x \<in> set (serving (close_one at_once c n)) \<longleftrightarrow> x \<in> set (serving n)"
    using assms(3) set_remove1_subset [of c "serving n"]
    by (simp_all add: close_one_def conn_close_def o s c a)
qed

lemma close_all:
  assumes "closing_connections_to_peer n = Some p" and "\<forall>c \<in> set cs. c < length (conns n) \<and> remotePeer c n = p"
    and "distinct (serving n)" and "m = fold (close_one at_once) cs n"
  shows "connections m = connections n \<and> closing_connections_to_peer m = Some p
    \<and> net_events m = net_events n @ map OnConnectionClosed cs \<and> length (conns m) = length (conns n)
    \<and> (\<forall>x. remotePeer x m = remotePeer x n) \<and> (\<forall>x. x \<notin> set cs \<longrightarrow> isClosed x m = isClosed x n)
    \<and> distinct (serving m) \<and> set (serving m) \<subseteq> set (serving n)
    \<and> (\<forall>x. x \<notin> set cs \<longrightarrow> (x \<in> set (serving m) \<longleftrightarrow> x \<in> set (serving n)))"
  using assms
proof (induction cs arbitrary: n)
  case (Cons c cs)
  let ?n = "close_one at_once c n"
  have cl: "closing_connections_to_peer n = Some (remotePeer c n)" "c < length (conns n)" using Cons.prems by auto
  note f = close_one_frame [OF cl Cons.prems(3), where at_once = at_once]
  have "closing_connections_to_peer ?n = Some p" "\<forall>c \<in> set cs. c < length (conns ?n) \<and> remotePeer c ?n = p"
    using Cons.prems f by auto
  from Cons.IH [OF this f(8)] Cons.prems(4) f show ?case by auto
qed simp


lemma net_replay_closings:
  "distinct cs \<Longrightarrow> set cs \<subseteq> C \<Longrightarrow> net_replay r (map OnConnectionClosed cs) (C, P) = Some (C - set cs, P)"
proof (induction cs arbitrary: C)
  case (Cons c cs)
  then have "net_replay r (map OnConnectionClosed cs) (C - {c}, P) = Some (C - {c} - set cs, P)" by (intro Cons.IH) auto
  with Cons.prems show ?case by (simp add: Diff_insert2 [symmetric])
qed simp

lemma closeConnectionsToPeer_ok:
  assumes "net_ok n"
  shows "net_ok (closeConnectionsToPeer at_once p n)"
proof (cases "map_of (connections n) p")
  case None
  with assms show ?thesis by (simp add: closeConnectionsToPeer_def)
next
  case (Some cs)
  note d = net_okD [OF assms]
  note w = net_wf_entry [OF d(1) Some]
  let ?n2 = "n\<lparr>connections := AList.delete p (connections n), closing_connections_to_peer := Some p\<rparr>"
  let ?n3 = "fold (close_one at_once) cs ?n2"
  let ?n4 = "?n3\<lparr>closing_connections_to_peer := None\<rparr>"
  have r2: "remotePeer x ?n2 = remotePeer x n" "isClosed x ?n2 = isClosed x n" for x by (simp_all add: remotePeer_def isClosed_def)
  have n3: "connections ?n3 = AList.delete p (connections n)"
    "net_events ?n3 = net_events n @ map OnConnectionClosed cs" "length (conns ?n3) = length (conns n)"
    "\<forall>x. remotePeer x ?n3 = remotePeer x n" "\<forall>x. x \<notin> set cs \<longrightarrow> isClosed x ?n3 = isClosed x n"
    "distinct (serving ?n3)" "set (serving ?n3) \<subseteq> set (serving n)"
    "\<forall>x. x \<notin> set cs \<longrightarrow> (x \<in> set (serving ?n3) \<longleftrightarrow> x \<in> set (serving n))"
    using close_all [of ?n2 p cs ?n3 at_once] w d(1) r2 by (simp_all add: net_wf_def)
  have r4: "remotePeer x ?n4 = remotePeer x n" "isClosed x ?n4 = isClosed x ?n3" for x
    using n3(4) by (simp_all add: remotePeer_def isClosed_def)
  let ?m = "publish (OnPeerDisconnected p) ?n4"
  have e: "closeConnectionsToPeer at_once p n = ?m"
    using Some w(1) n3(1) by (simp add: closeConnectionsToPeer_def Let_def delete_conv')
  have st: "stored ?n4 = stored n - set cs" "dom (map_of (connections ?n4)) = dom (map_of (connections n)) - {p}"
    using stored_delete [OF d(1), of ?n4 p] stored_to_peer [OF d(1), of p] Some n3(1) by auto
  have np: "p \<notin> (\<lambda>x. remotePeer x n) ` (stored n - set cs)"
    using stored_to_peer [OF d(1), of p] Some by auto
  have "told ?m = net_replay (\<lambda>x. remotePeer x n) (net_events n @ map OnConnectionClosed cs @ [OnPeerDisconnected p]) ({}, {})"
    using n3(2) by (simp add: told_def r4)
  also have "\<dots> = Some (stored n - set cs, dom (map_of (connections n)) - {p})"
  proof -
    have sub: "set cs \<subseteq> stored n" using stored_to_peer [OF d(1), of p] Some by auto
    have "p \<in> dom (map_of (connections n))" using Some by blast
    with d(3) [unfolded told_def] net_replay_closings [OF w(2) sub] np show ?thesis
      by (simp add: net_replay_append)
  qed
  finally have t: "told ?m = Some (stored ?m, dom (map_of (connections ?m)))" using st by simp
  have "net_wf (n\<lparr>connections := AList.delete p (connections n)\<rparr>)" using d(1) by (rule net_wf_delete)
  then have "net_wf ?m" using n3 w(3) r4 unfolding net_wf_def by (auto simp: remotePeer_def)
  moreover have "x \<in> set (serving ?m)" if "x \<in> stored ?m" "\<not> isClosed x ?m" for x
  proof -
    have "x \<in> stored n" "x \<notin> set cs" using that(1) st by auto
    with that(2) d(4) [of x] n3(5,8) r4(2) [of x] show ?thesis by simp
  qed
  ultimately show ?thesis using t by (simp add: e net_ok_def)
qed

lemma net_step_ok:
  assumes "net_ok n"
  shows "\<exists>n'. net_step n x = Returns n' \<and> net_ok n'"
proof (cases x)
  case (Op_connected p closed)
  let ?n = "n\<lparr>conns := conns n @ [\<lparr>c_remote = p, c_closed = closed, c_close_asked = False\<rparr>]\<rparr>"
  have "length (conns n) \<notin> set (serving ?n)" using net_okD(1) [OF assms] by (auto simp: net_wf_def)
  with net_ok_extend [OF assms] Op_connected show ?thesis by (simp add: onConnection_ok)
next
  case (Op_conn_closed c)
  with assms conn_onClose_ok show ?thesis by auto
qed (use assms in \<open>simp_all add: serve_end_ok closeConnectionsToPeer_ok\<close>)

interpretation net_machine: safe_machine net_ok "\<lambda>_. True" net_step
  by unfold_locales (use net_step_ok in blast)

text \<open>
  \<^bold>\<open>C14\<close> (invariant). Whatever connections are made, end, and are closed by the host, in every
  state the connections stored for a peer are connections to that peer, not none and without
  repetition, an open connection is being served, and the events published so far tell
  exactly the stored connections and the connected peers: a peer is reported to have
  disconnected only when its last connection has gone, and then once.
\<close>

theorem connection_events_exact:
  "\<exists>n. run_cxx net_step Net_new xs = Returns n
    \<and> told n = Some (stored n, set (getConnectedPeers n))
    \<and> (\<forall>p. distinct (getConnectionsToPeer p n)
         \<and> set (getConnectionsToPeer p n) = {c \<in> stored n. remotePeer c n = p \<and> \<not> isClosed c n})
    \<and> {c \<in> stored n. \<not> isClosed c n} \<subseteq> set (serving n)"
proof -
  obtain n where n: "run_cxx net_step Net_new xs = Returns n" "net_ok n"
    using net_machine.run_safe [OF net_ok_new, of xs] by (auto simp: list_all_iff)
  note d = net_okD [OF n(2)]
  have "distinct (getConnectionsToPeer p n)
      \<and> set (getConnectionsToPeer p n) = {c \<in> stored n. remotePeer c n = p \<and> \<not> isClosed c n}" for p
    using stored_to_peer [OF d(1), of p] net_wf_entry(2) [OF d(1), of p]
    by (cases "map_of (connections n) p") (auto simp: getConnectionsToPeer_def)
  moreover have "dom (map_of (connections n)) = set (getConnectedPeers n)"
    by (simp add: getConnectedPeers_def dom_map_of_conv_image_fst)
  ultimately show ?thesis using n(1) d(3,4) by auto
qed

text \<open>
  A connection that is already closed when it is reported is stored after its accept loop
  has ended, and stays until it is collected; the collector publishes nothing.
\<close>

lemma closed_on_arrival_stays:
  "run_cxx net_step Net_new [Op_connected [1] True, Op_serve_end 0, Op_conn_closed 0, Op_serve_end 0] = Returns n
   \<Longrightarrow> getConnectedPeers n = [[1]] \<and> getConnectionsToPeer [1] n = []"
  by (auto simp: Net_new_def onConnection_def isClosed_def remotePeer_def addConnectionToPeer_def onConnectionClosed_def
      publish_def serve_end_def conn_onClose_def getConnectedPeers_def getConnectionsToPeer_def)

lemma collectGarbage_silent: "net_events (collectGarbage_connections n) = net_events n"
  by (simp add: collectGarbage_connections_def)

section \<open>Connection objects\<close>

text \<open>No step changes the peer of a connection.\<close>

definition remotes :: "Net \<Rightarrow> PeerId list" where
  "remotes n = map c_remote (conns n)"

lemma map_update_same: "f y = f (xs ! c) \<Longrightarrow> map f (xs[c := y]) = map f xs"
  by (rule nth_equalityI) (simp_all add: nth_update_same)

lemma remotes_simps [simp]:
  "remotes (publish e n) = remotes n" "remotes (n\<lparr>serving := s\<rparr>) = remotes n" "remotes (n\<lparr>connections := cs\<rparr>) = remotes n"
  "remotes (n\<lparr>closing_connections_to_peer := x\<rparr>) = remotes n" "remotes (conn_onClose c n) = remotes n"
  by (simp_all add: remotes_def conn_onClose_def map_update_same)

lemma remotes_onConnectionClosed [simp]: "remotes (onConnectionClosed p c n) = remotes n"
  by (simp add: onConnectionClosed_def Let_def split: option.split)

lemma remotes_onConnection [simp]: "remotes (onConnection c n) = remotes n"
  by (simp add: onConnection_def addConnectionToPeer_def split: option.split)

lemma remotes_serve_end [simp]: "remotes (serve_end c n) = remotes n"
  by (simp add: serve_end_def)

lemma remotes_conn_close [simp]: "remotes (conn_close at_once c n) = remotes n"
  by (simp add: conn_close_def) (simp add: remotes_def map_update_same)

lemma remotes_close_fold: "remotes (fold (close_one at_once) cs n) = remotes n"
  by (induction cs arbitrary: n) (simp_all add: close_one_def)

lemma net_step_remotes:
  "net_step n x = Returns n' \<Longrightarrow> \<exists>ps. remotes n' = remotes n @ ps"
proof (cases x)
  case (Op_connected p closed)
  assume "net_step n x = Returns n'"
  with Op_connected have "remotes n' = remotes n @ [p]" by auto (simp add: remotes_def)
  then show ?thesis by blast
qed (auto simp: closeConnectionsToPeer_def remotes_close_fold Let_def split: option.splits if_splits)

lemma nth_remotes: "c < length (remotes n) \<Longrightarrow> remotes n ! c = remotePeer c n"
  by (simp add: remotes_def remotePeer_def)

lemma length_remotes [simp]: "length (remotes n) = length (conns n)"
  by (simp add: remotes_def)

end
