(* ===== verification/Transport.thy ===== *)
theory Transport
  imports Multiaddress
begin

text \<open>
  Transport addresses and transports: \<open>include/libp2p/transport/tcp/tcp_util.hpp\<close>, the
  listener and the address checks of \<open>src/transport/quic\<close>, and
  \<open>src/network/transport_manager.cpp\<close>. The functions that read a protocol advance an
  iterator; here they return the rest of the list. An IP address is its bytes; reading and
  printing it, and sockets, are other code. \<open>Throws\<close> is an exception, as in
  \<open>getProtocolsWithValues\<close>.

  The lemmas show that a QUIC address made from an endpoint is read back as that endpoint,
  and which addresses the QUIC transport accepts.
\<close>

section \<open>Addresses of endpoints\<close>

datatype NetErrc =
    protocol_not_supported
  | invalid_argument
  | result_out_of_range
  | bad_ip_address
  | already_connected
  | not_connected
  | address_family_not_supported
  | address_in_use
  | host_unreachable
  | SocketError nat

datatype IpAddress = V4 bytes | V6 bytes

datatype IpOrDns = Ip IpAddress | Dns "bool option" string

type_synonym ProtoAddrVec = "(Protocol \<times> string) list"

definition readIpOrDns :: "address_lib \<Rightarrow> ProtoAddrVec \<Rightarrow> (NetErrc, IpOrDns \<times> ProtoAddrVec) result" where
  "readIpOrDns lib it =
     (case it of
        [] \<Rightarrow> Inl protocol_not_supported
      | (p, v) # rest \<Rightarrow>
          (case p_code p of
             IP4 \<Rightarrow> (case make_address_v4 lib v of None \<Rightarrow> Inl bad_ip_address | Some ip \<Rightarrow> Inr (Ip (V4 ip), rest))
           | IP6 \<Rightarrow> (case make_address_v6 lib v of None \<Rightarrow> Inl bad_ip_address | Some ip \<Rightarrow> Inr (Ip (V6 ip), rest))
           | DNS \<Rightarrow> Inr (Dns None v, rest)
           | DNS4 \<Rightarrow> Inr (Dns (Some True) v, rest)
           | DNS6 \<Rightarrow> Inr (Dns (Some False) v, rest)
           | _ \<Rightarrow> Inl protocol_not_supported))"

record TcpOrUdp =
  tu_ip :: IpOrDns
  tu_port :: u16
  tu_udp :: bool

text \<open>\<open>as<T>(udp)\<close>: the endpoint of an address, an IP address and a port.\<close>

definition as_endpoint :: "TcpOrUdp \<Rightarrow> bool \<Rightarrow> (NetErrc, IpAddress \<times> u16) result" where
  "as_endpoint addr udp =
     (case tu_ip addr of
        Ip ip \<Rightarrow> if tu_udp addr \<noteq> udp then Inl protocol_not_supported else Inr (ip, tu_port addr)
      | Dns _ _ \<Rightarrow> Inl protocol_not_supported)"

definition asTcp_endpoint :: "TcpOrUdp \<Rightarrow> (NetErrc, IpAddress \<times> u16) result" where
  "asTcp_endpoint addr = as_endpoint addr False"

definition asUdp :: "TcpOrUdp \<Rightarrow> (NetErrc, IpAddress \<times> u16) result" where
  "asUdp addr = as_endpoint addr True"

text \<open>\<open>std::from_chars\<close> for \<open>uint16_t\<close>: reads the leading digits and ignores what follows.\<close>

definition from_chars_u16 :: "string \<Rightarrow> (NetErrc, u16) result" where
  "from_chars_u16 v =
     (let ds = takeWhile isdigit v;
          n = foldl (\<lambda>n c. n * 10 + (of_char c - 48)) 0 ds :: nat
      in if ds = [] then Inl invalid_argument
         else if n > 65535 then Inl result_out_of_range
         else Inr (word_of_nat n))"

definition readTcpOrUdp :: "address_lib \<Rightarrow> ProtoAddrVec \<Rightarrow> (NetErrc, TcpOrUdp \<times> ProtoAddrVec) result" where
  "readTcpOrUdp lib it =
     bind_result (readIpOrDns lib it) (\<lambda>(ip, it1).
       case it1 of
         [] \<Rightarrow> Inl protocol_not_supported
       | (p, v) # rest \<Rightarrow>
           bind_result (case p_code p of TCP \<Rightarrow> Inr False | UDP \<Rightarrow> Inr True | _ \<Rightarrow> Inl protocol_not_supported) (\<lambda>udp.
           bind_result (from_chars_u16 v) (\<lambda>port.
             Inr (\<lparr>tu_ip = ip, tu_port = port, tu_udp = udp\<rparr>, rest))))"

definition asTcp :: "address_lib \<Rightarrow> Multiaddress \<Rightarrow> (NetErrc, TcpOrUdp \<times> ProtoAddrVec) result cxx" where
  "asTcp lib ma =
     bind_cxx (getProtocolsWithValues ma) (\<lambda>v. Returns (
       bind_result (readTcpOrUdp lib v) (\<lambda>(addr, it).
         if tu_udp addr then Inl protocol_not_supported
         else Inr (addr, takeWhile (\<lambda>p. p_code (fst p) \<noteq> P2P) it))))"

definition asQuic :: "address_lib \<Rightarrow> Multiaddress \<Rightarrow> (NetErrc, TcpOrUdp) result cxx" where
  "asQuic lib ma =
     bind_cxx (getProtocolsWithValues ma) (\<lambda>v. Returns (
       bind_result (readTcpOrUdp lib v) (\<lambda>(addr, it).
         if \<not> tu_udp addr then Inl protocol_not_supported
         else
           (case it of
              [] \<Rightarrow> Inl protocol_not_supported
            | (p, _) # _ \<Rightarrow> if p_code p \<noteq> QUIC_V1 then Inl protocol_not_supported else Inr addr))))"

definition toMultiaddr :: "address_lib \<Rightarrow> bool \<Rightarrow> IpAddress \<times> u16 \<Rightarrow> string" where
  "toMultiaddr lib tcp endpoint =
     (case endpoint of (ip, port) \<Rightarrow>
        ''/'' @ (case ip of V4 _ \<Rightarrow> ''ip4'' | V6 _ \<Rightarrow> ''ip6'') @ ''/''
        @ (case ip of V4 b \<Rightarrow> v4_to_string lib b | V6 b \<Rightarrow> v6_to_string lib b) @ ''/''
        @ (if tcp then ''tcp'' else ''udp'') @ ''/'' @ to_string (unat port))"

definition makeAddress ::
  "address_lib \<Rightarrow> IpAddress \<times> u16 \<Rightarrow> ProtoAddrVec \<Rightarrow> (MultiaddressError, Multiaddress) result cxx" where
  "makeAddress lib endpoint layers =
     create_from_string lib
       (toMultiaddr lib True endpoint
        @ (case layers of
             [] \<Rightarrow> []
           | (p, _) # _ \<Rightarrow> if p_code p = WS then ''/ws'' else if p_code p = WSS then ''/wss'' else []))"

definition makeQuicAddr :: "address_lib \<Rightarrow> IpAddress \<times> u16 \<Rightarrow> (MultiaddressError, Multiaddress) result cxx" where
  "makeQuicAddr lib endpoint = create_from_string lib (toMultiaddr lib False endpoint @ ''/quic-v1'')"

section \<open>Transports\<close>

text \<open>\<open>canDial\<close> of the QUIC transport and \<open>canListen\<close> of its listener.\<close>

definition canDial :: "address_lib \<Rightarrow> Multiaddress \<Rightarrow> bool cxx" where
  "canDial lib ma = bind_cxx (asQuic lib ma) (\<lambda>r. Returns (case r of Inl _ \<Rightarrow> False | Inr _ \<Rightarrow> True))"

definition canListen :: "address_lib \<Rightarrow> Multiaddress \<Rightarrow> bool cxx" where
  "canListen lib ma = bind_cxx (asQuic lib ma) (\<lambda>r. Returns (case r of Inl _ \<Rightarrow> False | Inr _ \<Rightarrow> True))"

text \<open>
  A listener: the local address of its engine, when there is one. The result of binding a
  socket to an endpoint is the endpoint the socket has then.
\<close>

record QuicListener =
  ql_server :: "Multiaddress option"

definition QuicListener_new :: QuicListener where
  "QuicListener_new = \<lparr>ql_server = None\<rparr>"

definition ql_listen ::
  "address_lib \<Rightarrow> (IpAddress \<times> u16 \<Rightarrow> (NetErrc, IpAddress \<times> u16) result) \<Rightarrow> Multiaddress \<Rightarrow> QuicListener
     \<Rightarrow> ((NetErrc, unit) result \<times> QuicListener) cxx" where
  "ql_listen lib bind_socket address l =
     bind_cxx (asQuic lib address) (\<lambda>r.
       case r of
         Inl e \<Rightarrow> Returns (Inl e, l)
       | Inr info \<Rightarrow>
           if ql_server l \<noteq> None then Returns (Inl already_connected, l)
           else
             (case asUdp info of
                Inl e \<Rightarrow> Returns (Inl e, l)
              | Inr endpoint \<Rightarrow>
                  (case bind_socket endpoint of
                     Inl e \<Rightarrow> Returns (Inl e, l)
                   | Inr local_endpoint \<Rightarrow>
                       bind_cxx (makeQuicAddr lib local_endpoint) (\<lambda>a.
                         case a of
                           Inl _ \<Rightarrow> Throws
                         | Inr addr \<Rightarrow> Returns (Inr (), l\<lparr>ql_server := Some addr\<rparr>)))))"

definition ql_getListenMultiaddr :: "QuicListener \<Rightarrow> (NetErrc, Multiaddress) result" where
  "ql_getListenMultiaddr l = (case ql_server l of None \<Rightarrow> Inl not_connected | Some a \<Rightarrow> Inr a)"

definition ql_isClosed :: "QuicListener \<Rightarrow> bool" where
  "ql_isClosed l \<longleftrightarrow> ql_server l = None"

definition ql_close :: "QuicListener \<Rightarrow> (NetErrc, unit) result \<times> QuicListener" where
  "ql_close l = (Inr (), l\<lparr>ql_server := None\<rparr>)"

text \<open>
  Dialing: the engines for the two address families are made when first needed. Resolving a
  name, opening a socket and connecting through an engine are other code.
\<close>

record QuicTransport =
  qt_client4 :: bool
  qt_client6 :: bool

definition makeClient ::
  "(bool \<Rightarrow> (NetErrc, unit) result) \<Rightarrow> bool \<Rightarrow> QuicTransport \<Rightarrow> (NetErrc, QuicTransport) result" where
  "makeClient open_socket v4 t =
     bind_result (open_socket v4) (\<lambda>_. Inr (if v4 then t\<lparr>qt_client4 := True\<rparr> else t\<lparr>qt_client6 := True\<rparr>))"

definition quic_dial ::
  "address_lib \<Rightarrow> (string \<Rightarrow> string \<Rightarrow> (NetErrc, (IpAddress \<times> u16) list) result) \<Rightarrow> (bool \<Rightarrow> (NetErrc, unit) result)
     \<Rightarrow> (IpAddress \<times> u16 \<Rightarrow> PeerId \<Rightarrow> (NetErrc, 'c) result) \<Rightarrow> PeerId \<Rightarrow> Multiaddress \<Rightarrow> QuicTransport
     \<Rightarrow> ((NetErrc, 'c) result \<times> QuicTransport) cxx" where
  "quic_dial lib resolve open_socket connect peer address t =
     bind_cxx (asQuic lib address) (\<lambda>r.
       case r of
         Inl e \<Rightarrow> Returns (Inl e, t)
       | Inr info \<Rightarrow>
           (let host = (case tu_ip info of
                          Ip (V4 b) \<Rightarrow> v4_to_string lib b
                        | Ip (V6 b) \<Rightarrow> v6_to_string lib b
                        | Dns _ name \<Rightarrow> name);
                port = to_string (unat (tu_port info))
            in case resolve host port of
                 Inl e \<Rightarrow> Returns (Inl e, t)
               | Inr [] \<Rightarrow> Returns (Inl host_unreachable, t)
               | Inr (remote # _) \<Rightarrow>
                   (let v4 = (case fst remote of V4 _ \<Rightarrow> True | V6 _ \<Rightarrow> False);
                        client = (if v4 then qt_client4 t else qt_client6 t)
                    in case if client then Inr t else makeClient open_socket v4 t of
                         Inl e \<Rightarrow> Returns (Inl e, t)
                       | Inr t' \<Rightarrow> Returns (connect remote peer, t'))))"

text \<open>The manager holds its transports; a transport is known by what it can dial.\<close>

fun findBest :: "(Multiaddress \<Rightarrow> bool) list \<Rightarrow> Multiaddress \<Rightarrow> nat option" where
  "findBest [] ma = None"
| "findBest (t # ts) ma = (if t ma then Some 0 else map_option Suc (findBest ts ma))"

section \<open>Ports and addresses are read back\<close>

lemma isdigit_char_of: "n < 10 \<Longrightarrow> isdigit (char_of (48 + n)) \<and> (of_char (char_of (48 + n)) :: nat) = 48 + n"
  by (simp add: isdigit_def)

lemma to_string_digits:
  "to_string n \<noteq> [] \<and> list_all isdigit (to_string n)
   \<and> foldl (\<lambda>n c. n * 10 + (of_char c - 48)) 0 (to_string n) = n"
proof (induction n rule: less_induct)
  case (less n)
  show ?case
  proof (cases "n < 10")
    case True
    with isdigit_char_of [OF this] show ?thesis by (simp add: to_string.simps [of n])
  next
    case False
    have m: "n mod 10 < 10" by simp
    from less [of "n div 10"] False isdigit_char_of [OF m] show ?thesis
      by (simp add: to_string.simps [of n] del: of_char_of)
  qed
qed

lemma from_chars_to_string: "from_chars_u16 (to_string (unat p)) = Inr p"
proof -
  have tw: "takeWhile isdigit (to_string (unat p)) = to_string (unat p)"
    using to_string_digits [of "unat p"] by (simp add: takeWhile_eq_all_conv list_all_iff)
  have "unat p \<le> 65535" using unsigned_less [of p, where ?'a = nat] by simp
  then show ?thesis using to_string_digits [of "unat p"] by (simp add: from_chars_u16_def Let_def tw)
qed

lemma foldl_digits_int:
  "list_all isdigit s \<Longrightarrow>
   foldl (\<lambda>v c. v * 10 + (of_char c - 48)) (int a) s = int (foldl (\<lambda>n c. n * 10 + (of_char c - 48)) a s)"
proof (induction s arbitrary: a)
  case (Cons c s)
  then have "48 \<le> (of_char c :: nat)" by (simp add: isdigit_def Let_def)
  then have "int a * 10 + (of_char c - 48) = int (a * 10 + (of_char c - 48))" by (simp add: of_nat_diff of_nat_of_char)
  with Cons show ?case by (simp only: foldl_Cons list.pred_inject)
qed simp

lemma udp_value_ok: "n \<le> 65535 \<Longrightarrow> value_ok lib UDP (to_string n)"
proof -
  assume n: "n \<le> 65535"
  note d = to_string_digits [of n]
  have "\<not> 2147483647 < int n" using n by linarith
  then have "stoi (to_string n) = Some (int n)"
    using foldl_digits_int [of "to_string n" 0] d by (simp add: stoi_def Let_def)
  with d n show ?thesis by auto
qed

lemma udp_port_ok: "value_ok lib UDP (to_string (unat p))" for p :: u16
  using unsigned_less [of p, where ?'a = nat] by (intro udp_value_ok) simp

text \<open>
  What is used of the text of an IP address: it is not empty, has no slash, is not the name
  of a protocol, and is read back.
\<close>

definition ip_text_ok :: "string \<Rightarrow> bool" where
  "ip_text_ok v \<longleftrightarrow> v \<noteq> [] \<and> CHR ''/'' \<notin> set v \<and> get_by_name v = None"

definition ip_ok :: "address_lib \<Rightarrow> IpAddress \<Rightarrow> bool" where
  "ip_ok lib ip =
     (case ip of
        V4 b \<Rightarrow> length b = 4 \<and> make_address_v4 lib (v4_to_string lib b) = Some b \<and> ip_text_ok (v4_to_string lib b)
      | V6 b \<Rightarrow> length b = 16 \<and> make_address_v6 lib (v6_to_string lib b) = Some b \<and> ip_text_ok (v6_to_string lib b))"

definition quic_parts :: "address_lib \<Rightarrow> IpAddress \<times> u16 \<Rightarrow> part list" where
  "quic_parts lib endpoint =
     (case endpoint of (ip, port) \<Rightarrow>
        [(case ip of
            V4 b \<Rightarrow> (\<lparr>p_code = IP4, p_size = 32, p_name = ''ip4''\<rparr>, v4_to_string lib b)
          | V6 b \<Rightarrow> (\<lparr>p_code = IP6, p_size = 128, p_name = ''ip6''\<rparr>, v6_to_string lib b)),
         (\<lparr>p_code = UDP, p_size = 16, p_name = ''udp''\<rparr>, to_string (unat port)),
         (\<lparr>p_code = QUIC_V1, p_size = 0, p_name = ''quic-v1''\<rparr>, [])])"

lemma not_name_of_digits: "list_all isdigit v \<Longrightarrow> v \<noteq> [] \<Longrightarrow> get_by_name v = None"
proof -
  assume v: "list_all isdigit v" "v \<noteq> []"
  have "list_all (\<lambda>p. \<not> list_all isdigit (p_name p)) protocols" by code_simp
  then have "\<forall>p \<in> set protocols. p_name p \<noteq> v" using v by (auto simp: list_all_iff)
  moreover have "v \<noteq> ''ipfs''" using v(1) by (auto simp: isdigit_def)
  ultimately show ?thesis by (auto simp: get_by_name_def find_None_iff)
qed

lemma quic_parts_ok:
  assumes "ip_ok lib ip"
  shows "list_all (part_ok lib) (quic_parts lib (ip, port))" and "values_unnamed (quic_parts lib (ip, port))"
    and "ma_text (quic_parts lib (ip, port)) = toMultiaddr lib False (ip, port) @ ''/quic-v1''"
proof -
  note d = to_string_digits [of "unat port"]
  have "\<forall>c. isdigit c \<longrightarrow> c \<noteq> CHR ''/''" by (auto simp: isdigit_def)
  then have "CHR ''/'' \<notin> set (to_string (unat port))" using d by (auto simp: list_all_iff)
  then show "list_all (part_ok lib) (quic_parts lib (ip, port))"
    using assms d udp_port_ok [of lib port]
    by (cases ip) (auto simp: quic_parts_def part_ok_def protocols_def ip_ok_def ip_text_ok_def)
  show "values_unnamed (quic_parts lib (ip, port))"
    using assms d not_name_of_digits [of "to_string (unat port)"]
    by (cases ip) (simp_all add: quic_parts_def values_unnamed_def ip_ok_def ip_text_ok_def)
  show "ma_text (quic_parts lib (ip, port)) = toMultiaddr lib False (ip, port) @ ''/quic-v1''"
    by (cases ip) (simp_all add: quic_parts_def ma_text_def part_tokens_def toMultiaddr_def)
qed

lemma quic_endpoint_address:
  assumes "ip_ok lib ip"
  shows "\<exists>ma info. makeQuicAddr lib (ip, port) = Returns (Inr ma) \<and> asQuic lib ma = Returns (Inr info)
    \<and> asUdp info = Inr (ip, port) \<and> canDial lib ma = Returns True \<and> canListen lib ma = Returns True"
proof -
  note q = quic_parts_ok [OF assms, of port]
  have ne: "quic_parts lib (ip, port) \<noteq> []" by (simp add: quic_parts_def)
  let ?ma = "\<lparr>stringified_address = ma_text (quic_parts lib (ip, port)), ma_bytes = ma_wire lib (quic_parts lib (ip, port))\<rparr>"
  have "represents lib ?ma (quic_parts lib (ip, port))" using q(1) by (simp add: represents_def)
  then have v: "getProtocolsWithValues ?ma = Returns (quic_parts lib (ip, port))" using getProtocols_parts q(2) by blast
  let ?info = "\<lparr>tu_ip = Ip ip, tu_port = port, tu_udp = True\<rparr>"
  have "readTcpOrUdp lib (quic_parts lib (ip, port)) = Inr (?info, [(\<lparr>p_code = QUIC_V1, p_size = 0, p_name = ''quic-v1''\<rparr>, [])])"
    using assms by (cases ip) (simp_all add: quic_parts_def readTcpOrUdp_def readIpOrDns_def from_chars_to_string ip_ok_def)
  then have "asQuic lib ?ma = Returns (Inr ?info)" by (simp add: asQuic_def v)
  then show ?thesis using create_represents(1) [OF q(1) ne] q(3)
    by (simp add: makeQuicAddr_def canDial_def canListen_def asUdp_def as_endpoint_def)
qed

text \<open>
  The address \<open>makeQuicAddr\<close> makes of a UDP endpoint is one the QUIC
  transport dials and listens on, and it is read back as that endpoint.
\<close>

theorem quic_address_roundtrip:
  assumes "ip_ok lib ip"
  shows "\<exists>ma info. makeQuicAddr lib (ip, port) = Returns (Inr ma) \<and> asQuic lib ma = Returns (Inr info)
    \<and> asUdp info = Inr (ip, port) \<and> canDial lib ma = Returns True \<and> canListen lib ma = Returns True"
  using assms by (rule quic_endpoint_address)

lemma sample_ip_ok: "ip_ok sample_lib (V4 [127, 0, 0, 1])"
proof -
  have "get_by_name ''127.0.0.1'' = None" by code_simp
  then show ?thesis by (simp add: ip_ok_def ip_text_ok_def sample_lib_def)
qed

theorem quic_address_roundtrip_witness:
  "\<exists>ma. makeQuicAddr sample_lib (V4 [127, 0, 0, 1], 9) = Returns (Inr ma) \<and> canDial sample_lib ma = Returns True"
  using quic_address_roundtrip [OF sample_ip_ok, of 9] by blast

text \<open>
  The address family of a \<open>dns4\<close> or \<open>dns6\<close> address is read and then not used: which
  family is dialed depends on what the resolver lists first.
\<close>

lemma quic_dial_ignores_dns_family:
  assumes "asQuic lib a = Returns (Inr \<lparr>tu_ip = Dns (Some True) name, tu_port = port, tu_udp = True\<rparr>)"
    and "asQuic lib b = Returns (Inr \<lparr>tu_ip = Dns (Some False) name, tu_port = port, tu_udp = True\<rparr>)"
  shows "quic_dial lib resolve open_socket connect peer a t = quic_dial lib resolve open_socket connect peer b t"
  using assms by (simp add: quic_dial_def)

text \<open>A port is read up to its first character that is no digit.\<close>

lemma port_tail_ignored: "from_chars_u16 ''80x'' = Inr 80"
  by (simp add: from_chars_u16_def isdigit_def)

end
