(* ===== verification/Dialer.thy ===== *)
theory Dialer
  imports Connections Peer_Store Transport Multiselect
begin

text \<open>
  The dialer \<open>src/network/dialer.cpp\<close>. Its members are the record \<open>Dialer\<close>, with the
  connection manager and the address repository it calls. A coroutine runs until it returns
  or waits for \<open>tr->dial\<close>: a function that may wait returns either the result of the
  coroutine or the address it waits for, and \<open>rotate_dialed\<close> is what follows the wait. The
  steps are the calls of \<open>dial\<close>, the results of the transports, and whatever happens to the
  connections meanwhile, in any order.

  The lemmas show that for every peer at most one dial is under way and is always answered,
  that the errors which the code calls inconsistent never occur, and which address the
  connection comes from.
\<close>

section \<open>Model\<close>

datatype DialError =
    ANOTHER_DIAL_IN_PROGRESS
  | STATE_INCONSISTENCY
  | NO_DESTINATION_ADDRESS
  | ADDRESS_FAMILY_NOT_SUPPORTED
  | HOST_UNREACHABLE
  | Transport_error NetErrc

record DialCtx =
  addr_queue :: "Multiaddress list"
  addr_seen :: "Multiaddress list"
  dial_result :: "(DialError, nat) result option"
  dialled :: bool

record Dialer =
  cmgr :: Net
  addr_repo :: InmemAddressRepository
  dialing_peers :: "(PeerId, DialCtx) alist"

datatype Dialing = Finished "(DialError, nat) result" | Awaits Multiaddress

definition put_ctx :: "PeerId \<Rightarrow> DialCtx \<Rightarrow> Dialer \<Rightarrow> Dialer" where
  "put_ctx p ctx d = d\<lparr>dialing_peers := AList.update p ctx (dialing_peers d)\<rparr>"

definition completeDial :: "PeerId \<Rightarrow> Dialer \<Rightarrow> Dialer" where
  "completeDial p d = d\<lparr>dialing_peers := AList.delete p (dialing_peers d)\<rparr>"

lemma put_ctx_simps [simp]:
  "cmgr (put_ctx p ctx d) = cmgr d" "addr_repo (put_ctx p ctx d) = addr_repo d"
  "map_of (dialing_peers (put_ctx p ctx d)) = (map_of (dialing_peers d))(p \<mapsto> ctx)"
  by (simp_all add: put_ctx_def update_conv')

text \<open>\<open>rotate\<close> up to its wait for the transport, and what it does with the result.\<close>

function rotate :: "(Multiaddress \<Rightarrow> bool) list \<Rightarrow> PeerId \<Rightarrow> Dialer \<Rightarrow> Dialing \<times> Dialer" where
  "rotate tmgr peer_id d =
     (case map_of (dialing_peers d) peer_id of
        None \<Rightarrow> (Finished (Inl STATE_INCONSISTENCY), d)
      | Some ctx \<Rightarrow>
          (case addr_queue ctx of
             [] \<Rightarrow>
               if \<not> dialled ctx then (Finished (Inl ADDRESS_FAMILY_NOT_SUPPORTED), completeDial peer_id d)
               else
                 (case dial_result ctx of
                    Some result \<Rightarrow> (Finished result, completeDial peer_id d)
                  | None \<Rightarrow> (Finished (Inl HOST_UNREACHABLE), completeDial peer_id d))
           | addr # queue \<Rightarrow>
               (case findBest tmgr addr of
                  Some tr \<Rightarrow> (Awaits addr, put_ctx peer_id (ctx\<lparr>addr_queue := queue, dialled := True\<rparr>) d)
                | None \<Rightarrow> rotate tmgr peer_id (put_ctx peer_id (ctx\<lparr>addr_queue := queue\<rparr>) d))))"
  by pat_completeness auto
termination
  by (relation "measure (\<lambda>(_, p, d). case map_of (dialing_peers d) p of None \<Rightarrow> 0 | Some ctx \<Rightarrow> length (addr_queue ctx))") auto

declare rotate.simps [simp del]

definition rotate_dialed ::
  "(Multiaddress \<Rightarrow> bool) list \<Rightarrow> PeerId \<Rightarrow> Multiaddress \<Rightarrow> (NetErrc, nat) result \<Rightarrow> Dialer \<Rightarrow> Dialing \<times> Dialer" where
  "rotate_dialed tmgr peer_id addr result d =
     (case map_of (dialing_peers d) peer_id of
        None \<Rightarrow>
          (Finished (Inl STATE_INCONSISTENCY),
           (case result of
              Inl _ \<Rightarrow> d
            | Inr c \<Rightarrow> if isClosed c (cmgr d) then d else d\<lparr>cmgr := conn_close [] c (cmgr d)\<rparr>))
      | Some ctx \<Rightarrow>
          (case result of
             Inr c \<Rightarrow> (Finished (Inr c), completeDial peer_id (d\<lparr>cmgr := onConnection c (cmgr d)\<rparr>))
           | Inl e \<Rightarrow>
               rotate tmgr peer_id
                 (put_ctx peer_id (ctx\<lparr>dial_result := Some (Inl (Transport_error e))\<rparr>)
                   (d\<lparr>addr_repo := dialFailed peer_id addr (addr_repo d)\<rparr>))))"

definition see_addr :: "Multiaddress \<Rightarrow> DialCtx \<Rightarrow> DialCtx" where
  "see_addr addr ctx =
     (if addr \<in> set (addr_seen ctx) then ctx
      else ctx\<lparr>addr_seen := addr # addr_seen ctx, addr_queue := addr_queue ctx @ [addr]\<rparr>)"

definition dial :: "(Multiaddress \<Rightarrow> bool) list \<Rightarrow> PeerId \<Rightarrow> Multiaddress list \<Rightarrow> Dialer \<Rightarrow> Dialing \<times> Dialer" where
  "dial tmgr p addresses d =
     (case getBestConnectionForPeer p (cmgr d) of
        Some c \<Rightarrow> (Finished (Inr c), d)
      | None \<Rightarrow>
          (case map_of (dialing_peers d) p of
             Some ctx \<Rightarrow> (Finished (Inl ANOTHER_DIAL_IN_PROGRESS), put_ctx p (fold see_addr addresses ctx) d)
           | None \<Rightarrow>
               if addresses = [] then (Finished (Inl NO_DESTINATION_ADDRESS), d)
               else
                 rotate tmgr p
                   (put_ctx p \<lparr>addr_queue = addresses, addr_seen = remdups addresses, dial_result = None, dialled = False\<rparr> d)))"

text \<open>
  Opening a stream on a connection, given what \<open>conn->newStream()\<close> returned, and on a peer,
  given what \<open>dial\<close> returned.
\<close>

datatype 'e stream_error = Dial_failed DialError | Open_failed 'e | Select_failed "'e select_error"

definition newStream_on ::
  "('s, 'e) reader \<Rightarrow> ('s, 'e) writer \<Rightarrow> ProtocolName list \<Rightarrow> ('e, 's) result
     \<Rightarrow> ('e stream_error, ProtocolName \<times> 's) result cxx option" where
  "newStream_on readSome writeSome protos opened =
     (case opened of
        Inl e \<Rightarrow> Some (Returns (Inl (Open_failed e)))
      | Inr stream \<Rightarrow>
          map_option
            (\<lambda>r. bind_cxx r (\<lambda>(selected, stream').
               Returns (case selected of Inl e \<Rightarrow> Inl (Select_failed e) | Inr protocol \<Rightarrow> Inr (protocol, stream'))))
            (selectOneOf readSome writeSome protos True True stream))"

definition newStream_to ::
  "('s, 'e) reader \<Rightarrow> ('s, 'e) writer \<Rightarrow> (nat \<Rightarrow> ('e, 's) result) \<Rightarrow> ProtocolName list \<Rightarrow> (DialError, nat) result
     \<Rightarrow> ('e stream_error, ProtocolName \<times> 's) result cxx option" where
  "newStream_to readSome writeSome open_stream protos dial_res =
     (case dial_res of
        Inl e \<Rightarrow> Some (Returns (Inl (Dial_failed e)))
      | Inr c \<Rightarrow> newStream_on readSome writeSome protos (open_stream c))"

section \<open>Steps\<close>

text \<open>
  The coroutines waiting for a transport, with the peer and the address they dial, and the
  results of the calls of \<open>dial\<close> that have returned. A transport answers with an error or with
  a connection to a peer, which may already be closed again.
\<close>

record DialMachine =
  dialer :: Dialer
  awaiting :: "(PeerId \<times> Multiaddress) list"
  answers :: "(PeerId \<times> (DialError, nat) result) list"

definition DialMachine_new :: "InmemAddressRepository \<Rightarrow> DialMachine" where
  "DialMachine_new repo =
     \<lparr>dialer = \<lparr>cmgr = Net_new, addr_repo = repo, dialing_peers = []\<rparr>, awaiting = [], answers = []\<rparr>"

datatype DialOp =
    Op_dial PeerId "Multiaddress list"
  | Op_dialed PeerId "(NetErrc, PeerId \<times> bool) result"
  | Op_network NetOp

definition settle :: "PeerId \<Rightarrow> Dialing \<times> Dialer \<Rightarrow> DialMachine \<Rightarrow> DialMachine" where
  "settle p r m =
     (case r of
        (Finished x, d) \<Rightarrow> m\<lparr>dialer := d, answers := answers m @ [(p, x)]\<rparr>
      | (Awaits a, d) \<Rightarrow> m\<lparr>dialer := d, awaiting := awaiting m @ [(p, a)]\<rparr>)"

definition connected :: "PeerId \<times> bool \<Rightarrow> Dialer \<Rightarrow> Dialer" where
  "connected q d = d\<lparr>cmgr := (cmgr d)\<lparr>conns := conns (cmgr d) @ [\<lparr>c_remote = fst q, c_closed = snd q, c_close_asked = False\<rparr>]\<rparr>\<rparr>"

fun dial_step :: "(Multiaddress \<Rightarrow> bool) list \<Rightarrow> DialMachine \<Rightarrow> DialOp \<Rightarrow> DialMachine cxx" where
  "dial_step tmgr m (Op_dial p addresses) = Returns (settle p (dial tmgr p addresses (dialer m)) m)"
| "dial_step tmgr m (Op_dialed p r) =
     (case map_of (awaiting m) p of
        None \<Rightarrow> Returns m
      | Some a \<Rightarrow>
          (let m1 = m\<lparr>awaiting := remove1 (p, a) (awaiting m)\<rparr>
           in Returns (settle p
                (case r of
                   Inl e \<Rightarrow> rotate_dialed tmgr p a (Inl e) (dialer m)
                 | Inr q \<Rightarrow> rotate_dialed tmgr p a (Inr (length (conns (cmgr (dialer m))))) (connected q (dialer m))) m1)))"
| "dial_step tmgr m (Op_network x) =
     bind_cxx (net_step (cmgr (dialer m)) x) (\<lambda>n. Returns (m\<lparr>dialer := (dialer m)\<lparr>cmgr := n\<rparr>\<rparr>))"

section \<open>One rotation\<close>

lemma update_update [simp]: "AList.update k v (AList.update k w al) = AList.update k v al"
  by (induction al) auto

lemma put_ctx_put_ctx [simp]: "put_ctx p x (put_ctx p y d) = put_ctx p x d"
  by (simp add: put_ctx_def)

lemma completeDial_put_ctx [simp]: "completeDial p (put_ctx p x d) = completeDial p d"
  by (simp add: put_ctx_def completeDial_def delete_update_same)

abbreviation supported :: "(Multiaddress \<Rightarrow> bool) list \<Rightarrow> Multiaddress \<Rightarrow> bool" where
  "supported tmgr a \<equiv> findBest tmgr a \<noteq> None"

declare dropWhile_eq_Nil_conv [simp del]

text \<open>A rotation skips the addresses no transport can dial.\<close>

lemma rotate_eq:
  "map_of (dialing_peers d) p = Some ctx \<Longrightarrow>
   rotate tmgr p d =
     (case dropWhile (\<lambda>a. \<not> supported tmgr a) (addr_queue ctx) of
        [] \<Rightarrow>
          (Finished
             (if \<not> dialled ctx then Inl ADDRESS_FAMILY_NOT_SUPPORTED
              else case dial_result ctx of Some r \<Rightarrow> r | None \<Rightarrow> Inl HOST_UNREACHABLE), completeDial p d)
      | a # queue \<Rightarrow> (Awaits a, put_ctx p (ctx\<lparr>addr_queue := queue, dialled := True\<rparr>) d))"
proof (induction "addr_queue ctx" arbitrary: ctx d)
  case Nil
  then show ?case by (simp add: rotate.simps split: option.split)
next
  case (Cons a queue)
  show ?case
  proof (cases "findBest tmgr a")
    case None
    let ?ctx = "ctx\<lparr>addr_queue := queue\<rparr>"
    have "rotate tmgr p d = rotate tmgr p (put_ctx p ?ctx d)"
      using Cons.prems Cons.hyps(2) [symmetric] None by (subst rotate.simps) simp
    also have "\<dots> = (case dropWhile (\<lambda>a. \<not> supported tmgr a) queue of
        [] \<Rightarrow>
          (Finished
             (if \<not> dialled ctx then Inl ADDRESS_FAMILY_NOT_SUPPORTED
              else case dial_result ctx of Some r \<Rightarrow> r | None \<Rightarrow> Inl HOST_UNREACHABLE), completeDial p d)
      | a # queue \<Rightarrow> (Awaits a, put_ctx p (ctx\<lparr>addr_queue := queue, dialled := True\<rparr>) d))"
      using Cons.hyps(1) [of ?ctx "put_ctx p ?ctx d"]
      by (cases "dropWhile (\<lambda>a. \<not> supported tmgr a) queue") simp_all
    finally show ?thesis using Cons.hyps(2) [symmetric] None by simp
  next
    case (Some t)
    then show ?thesis using Cons.prems Cons.hyps(2) [symmetric] by (subst rotate.simps) simp
  qed
qed

section \<open>The invariant\<close>

definition never_answered :: "(DialError, nat) result set" where
  "never_answered = {Inl STATE_INCONSISTENCY, Inl HOST_UNREACHABLE}"

definition answer_ok :: "Net \<Rightarrow> PeerId \<times> (DialError, nat) result \<Rightarrow> bool" where
  "answer_ok n x \<longleftrightarrow> snd x \<notin> never_answered \<and> (\<forall>c. snd x = Inr c \<longrightarrow> c < length (conns n) \<and> remotePeer c n = fst x)"

text \<open>\<open>w\<close> is the peer whose coroutine is running, if one is.\<close>

definition dial_inv_but :: "PeerId set \<Rightarrow> DialMachine \<Rightarrow> bool" where
  "dial_inv_but w m \<longleftrightarrow>
     net_ok (cmgr (dialer m)) \<and> distinct (map fst (awaiting m)) \<and> distinct (map fst (dialing_peers (dialer m)))
     \<and> w \<inter> fst ` set (awaiting m) = {}
     \<and> dom (map_of (dialing_peers (dialer m))) = w \<union> fst ` set (awaiting m)
     \<and> (\<forall>p ctx. map_of (dialing_peers (dialer m)) p = Some ctx \<longrightarrow> p \<notin> w \<longrightarrow> dialled ctx)
     \<and> (\<forall>x \<in> set (answers m). answer_ok (cmgr (dialer m)) x)"

abbreviation dial_inv :: "DialMachine \<Rightarrow> bool" where
  "dial_inv \<equiv> dial_inv_but {}"

text \<open>The transport only reports connections to the peer that was dialed.\<close>

fun dial_op_ok :: "DialOp \<Rightarrow> bool" where
  "dial_op_ok (Op_dialed p (Inr q)) \<longleftrightarrow> fst q = p"
| "dial_op_ok _ \<longleftrightarrow> True"

lemma distinct_keys_put: "distinct (map fst (dialing_peers d)) \<Longrightarrow> distinct (map fst (dialing_peers (put_ctx p c d)))"
  by (simp add: put_ctx_def distinct_update)

lemma distinct_keys_complete: "distinct (map fst (dialing_peers d)) \<Longrightarrow> distinct (map fst (dialing_peers (completeDial p d)))"
  by (simp add: completeDial_def distinct_delete)

lemma completeDial_simps [simp]:
  "cmgr (completeDial p d) = cmgr d" "addr_repo (completeDial p d) = addr_repo d"
  "map_of (dialing_peers (completeDial p d)) = (map_of (dialing_peers d))(p := None)"
  by (simp_all add: completeDial_def delete_conv')

text \<open>A rotation of the running coroutine settles it.\<close>

lemma settle_rotate_ok:
  assumes m: "dial_inv_but {p} m" and ctx: "map_of (dialing_peers (dialer m)) p = Some ctx"
    and r: "dialled ctx \<Longrightarrow> \<exists>e. dial_result ctx = Some (Inl (Transport_error e))"
  shows "dial_inv (settle p (rotate tmgr p (dialer m)) m)"
proof (cases "dropWhile (\<lambda>a. \<not> supported tmgr a) (addr_queue ctx)")
  case Nil
  have "answer_ok (cmgr (dialer m))
      (p, if \<not> dialled ctx then Inl ADDRESS_FAMILY_NOT_SUPPORTED
          else case dial_result ctx of Some r \<Rightarrow> r | None \<Rightarrow> Inl HOST_UNREACHABLE)"
    using r by (auto simp: answer_ok_def never_answered_def)
  with Nil m show ?thesis
    by (auto simp: rotate_eq [OF ctx] settle_def dial_inv_but_def distinct_keys_complete)
next
  case (Cons a queue)
  with m show ?thesis
    by (auto simp: rotate_eq [OF ctx] settle_def dial_inv_but_def distinct_keys_put)
qed

lemma settle_finished_ok:
  "dial_inv m \<Longrightarrow> answer_ok (cmgr (dialer m)) (p, r) \<Longrightarrow> dial_inv (settle p (Finished r, dialer m) m)"
  by (auto simp: settle_def dial_inv_but_def)

lemma getBest_answer_ok:
  assumes "net_ok n" and "getBestConnectionForPeer p n = Some c"
  shows "answer_ok n (p, Inr c)"
proof -
  obtain cs where cs: "map_of (connections n) p = Some cs" "c \<in> set cs"
    using assms(2) by (auto simp: getBestConnectionForPeer_def split: option.splits dest: find_SomeD)
  then show ?thesis
    using net_wf_entry [OF net_okD(1) [OF assms(1)] cs(1)] by (auto simp: answer_ok_def never_answered_def)
qed

lemma see_addr_dialled: "dialled (fold see_addr as ctx) = dialled ctx"
  by (induction as arbitrary: ctx) (auto simp: see_addr_def)

lemma dial_ok:
  assumes "dial_inv m"
  shows "dial_inv (settle p (dial tmgr p addresses (dialer m)) m)"
proof (cases "getBestConnectionForPeer p (cmgr (dialer m))")
  case (Some c)
  have "net_ok (cmgr (dialer m))" using assms by (simp add: dial_inv_but_def)
  from settle_finished_ok [OF assms getBest_answer_ok [OF this Some]] Some show ?thesis by (simp add: dial_def)
next
  case None
  note best = None
  show ?thesis
  proof (cases "map_of (dialing_peers (dialer m)) p")
    case (Some ctx)
    with best assms show ?thesis
      by (auto simp: dial_def settle_def dial_inv_but_def distinct_keys_put see_addr_dialled answer_ok_def never_answered_def)
  next
    case None
    show ?thesis
    proof (cases "addresses = []")
      case True
      with best None assms show ?thesis
        by (auto simp: dial_def answer_ok_def never_answered_def intro!: settle_finished_ok)
    next
      case False
      let ?ctx = "\<lparr>addr_queue = addresses, addr_seen = remdups addresses, dial_result = None, dialled = False\<rparr>"
      let ?m = "m\<lparr>dialer := put_ctx p ?ctx (dialer m)\<rparr>"
      have "dial_inv_but {p} ?m" using assms None by (auto simp: dial_inv_but_def distinct_keys_put)
      then have "dial_inv (settle p (rotate tmgr p (dialer ?m)) ?m)" by (rule settle_rotate_ok) auto
      moreover have "settle p (rotate tmgr p (dialer ?m)) ?m = settle p (rotate tmgr p (dialer ?m)) m"
        by (simp add: settle_def split: prod.split Dialing.split)
      ultimately show ?thesis using best None False by (simp add: dial_def)
    qed
  qed
qed

section \<open>Every step keeps it\<close>

lemma answer_ok_frame:
  assumes "answer_ok n x" and "remotes n' = remotes n @ ps"
  shows "answer_ok n' x"
proof -
  have "length (conns n) \<le> length (conns n')" using arg_cong [OF assms(2), of length] by simp
  moreover have "remotePeer c n' = remotePeer c n" if "c < length (conns n)" for c
    using nth_remotes [of c n'] nth_remotes [of c n] assms(2) that calculation by (simp add: nth_append)
  ultimately show ?thesis using assms(1) by (auto simp: answer_ok_def)
qed

lemma dial_inv_net:
  assumes "dial_inv_but w m" and "net_ok n" and "remotes n = remotes (cmgr (dialer m)) @ ps"
  shows "dial_inv_but w (m\<lparr>dialer := (dialer m)\<lparr>cmgr := n\<rparr>\<rparr>)"
  using assms answer_ok_frame [OF _ assms(3)] by (auto simp: dial_inv_but_def)

lemma settle_dialer: "settle p r (m\<lparr>dialer := d\<rparr>) = settle p r m"
  by (simp add: settle_def split: prod.split Dialing.split)

lemma distinct_remove1_keys: "distinct (map fst al) \<Longrightarrow> distinct (map fst (remove1 x al))"
  by (induction al) (auto dest: in_set_remove1 notin_set_remove1 set_remove1_subset [THEN subsetD] simp: image_iff)

lemma keys_remove1:
  "distinct (map fst al) \<Longrightarrow> (p, a) \<in> set al \<Longrightarrow> fst ` set (remove1 (p, a) al) = fst ` set al - {p}"
proof (induction al)
  case (Cons x al)
  then show ?case by (cases "x = (p, a)") (auto simp: image_iff)
qed simp

lemma remove1_key:
  assumes "distinct (map fst al)" and "map_of al p = Some a"
  shows "fst ` set (remove1 (p, a) al) = fst ` set al - {p}" and "distinct (map fst (remove1 (p, a) al))"
  using keys_remove1 [OF assms(1) map_of_SomeD [OF assms(2)]] distinct_remove1_keys [OF assms(1)] by simp_all

lemma dialed_ok:
  assumes inv: "dial_inv m" and a: "map_of (awaiting m) p = Some a" and q: "\<And>x. r = Inr x \<Longrightarrow> fst x = p"
  shows "dial_inv (settle p
           (case r of
              Inl e \<Rightarrow> rotate_dialed tmgr p a (Inl e) (dialer m)
            | Inr q \<Rightarrow> rotate_dialed tmgr p a (Inr (length (conns (cmgr (dialer m))))) (connected q (dialer m)))
           (m\<lparr>awaiting := remove1 (p, a) (awaiting m)\<rparr>))" (is "dial_inv (settle p _ ?m)")
proof -
  have dist: "distinct (map fst (awaiting m))" using inv by (simp add: dial_inv_but_def)
  note rm = remove1_key [OF dist a]
  have pin: "p \<in> fst ` set (awaiting m)" using map_of_SomeD [OF a] by force
  have m: "dial_inv_but {p} ?m"
    using inv rm pin by (auto simp: dial_inv_but_def)
  then have "p \<in> dom (map_of (dialing_peers (dialer m)))" by (simp add: dial_inv_but_def)
  then obtain ctx where ctx: "map_of (dialing_peers (dialer m)) p = Some ctx" by blast
  show ?thesis
  proof (cases r)
    case (Inl e)
    let ?ctx = "ctx\<lparr>dial_result := Some (Inl (Transport_error e))\<rparr>"
    let ?d = "put_ctx p ?ctx ((dialer m)\<lparr>addr_repo := dialFailed p a (addr_repo (dialer m))\<rparr>)"
    have "dial_inv_but {p} (?m\<lparr>dialer := ?d\<rparr>)"
      using m ctx by (auto simp: dial_inv_but_def put_ctx_def update_conv' distinct_update)
    then have "dial_inv (settle p (rotate tmgr p (dialer (?m\<lparr>dialer := ?d\<rparr>))) (?m\<lparr>dialer := ?d\<rparr>))"
      by (rule settle_rotate_ok) auto
    then show ?thesis using Inl ctx by (simp add: rotate_dialed_def settle_dialer)
  next
    case (Inr x)
    let ?n = "cmgr (dialer m)" and ?c = "length (conns (cmgr (dialer m)))"
    let ?n1 = "cmgr (connected x (dialer m))"
    have n: "net_ok ?n" using inv by (simp add: dial_inv_but_def)
    have n1: "net_ok ?n1" "?c \<notin> stored ?n1" using net_ok_extend [OF n] by (simp_all add: connected_def)
    have s1: "?c \<notin> set (serving ?n1)" "?c < length (conns ?n1)"
      using net_okD(1) [OF n] by (auto simp: connected_def net_wf_def)
    have ok: "net_ok (onConnection ?c ?n1)" using onConnection_ok [OF n1(1) s1(2) n1(2) s1(1)] .
    have rem: "remotes (onConnection ?c ?n1) = remotes ?n @ [p]"
      using q [OF Inr] by simp (simp add: connected_def remotes_def)
    let ?m1 = "?m\<lparr>dialer := (dialer m)\<lparr>cmgr := onConnection ?c ?n1\<rparr>\<rparr>"
    have "dial_inv_but {p} ?m1" using dial_inv_net [OF m ok, of "[p]"] rem by simp
    moreover have "answer_ok (onConnection ?c ?n1) (p, Inr ?c)"
    proof -
      have len: "?c < length (remotes (onConnection ?c ?n1))" by (simp only: rem) simp
      have "remotes (onConnection ?c ?n1) ! ?c = p" by (simp only: rem) (simp add: nth_append)
      with len nth_remotes [OF len] show ?thesis by (simp only: length_remotes) (simp add: answer_ok_def never_answered_def)
    qed
    ultimately have "dial_inv (?m1\<lparr>dialer := completeDial p (dialer ?m1), answers := answers m @ [(p, Inr ?c)]\<rparr>)"
      by (auto simp: dial_inv_but_def distinct_keys_complete)
    then show ?thesis using Inr ctx by (simp add: rotate_dialed_def settle_def connected_def)
  qed
qed

lemma dial_step_ok:
  assumes "dial_inv m" and "dial_op_ok x"
  shows "\<exists>m'. dial_step tmgr m x = Returns m' \<and> dial_inv m'"
proof (cases x)
  case (Op_dial p as)
  with dial_ok [OF assms(1)] show ?thesis by simp
next
  case (Op_dialed p r)
  have q: "\<And>y. r = Inr y \<Longrightarrow> fst y = p" using assms(2) Op_dialed by auto
  show ?thesis
  proof (cases "map_of (awaiting m) p")
    case (Some a)
    with dialed_ok [OF assms(1) Some q] Op_dialed show ?thesis by simp
  qed (use assms(1) Op_dialed in simp)
next
  case (Op_network y)
  have n: "net_ok (cmgr (dialer m))" using assms(1) by (simp add: dial_inv_but_def)
  from net_step_ok [OF n, of y] obtain n' where n': "net_step (cmgr (dialer m)) y = Returns n'" "net_ok n'" by blast
  from net_step_remotes [OF n'(1)] dial_inv_net [OF assms(1) n'(2)] n'(1) Op_network show ?thesis by auto
qed

interpretation dial_machine: safe_machine dial_inv dial_op_ok "dial_step tmgr" for tmgr
  by unfold_locales (use dial_step_ok in blast)

text \<open>Every call of \<open>dial\<close> has returned or waits.\<close>

fun dial_calls :: "DialOp list \<Rightarrow> nat" where
  "dial_calls [] = 0"
| "dial_calls (Op_dial _ _ # xs) = Suc (dial_calls xs)"
| "dial_calls (_ # xs) = dial_calls xs"

definition in_hand :: "DialMachine \<Rightarrow> nat" where
  "in_hand m = length (answers m) + length (awaiting m)"

lemma in_hand_settle: "in_hand (settle p r m) = Suc (in_hand m)"
  by (simp add: settle_def in_hand_def split: prod.split Dialing.split)

lemma in_hand_remove: "map_of (awaiting m) p = Some a \<Longrightarrow> Suc (in_hand (m\<lparr>awaiting := remove1 (p, a) (awaiting m)\<rparr>)) = in_hand m"
proof -
  assume "map_of (awaiting m) p = Some a"
  then have "(p, a) \<in> set (awaiting m)" by (rule map_of_SomeD)
  with length_pos_if_in_set [OF this] show ?thesis by (simp add: in_hand_def length_remove1)
qed

lemma in_hand_step: "dial_step tmgr m x = Returns m' \<Longrightarrow> in_hand m' = in_hand m + dial_calls [x]"
proof (cases x)
  case (Op_dialed p r)
  assume "dial_step tmgr m x = Returns m'"
  with Op_dialed in_hand_remove show ?thesis
    by (auto simp: in_hand_settle Let_def split: option.splits)
next
  case (Op_network y)
  assume "dial_step tmgr m x = Returns m'"
  with Op_network show ?thesis by (cases "net_step (cmgr (dialer m)) y") (auto simp: in_hand_def)
qed (auto simp: in_hand_settle)

lemma in_hand_run: "run_cxx (dial_step tmgr) m xs = Returns m' \<Longrightarrow> in_hand m' = in_hand m + dial_calls xs"
proof (induction xs arbitrary: m)
  case (Cons x xs)
  then obtain m1 where "dial_step tmgr m x = Returns m1" "run_cxx (dial_step tmgr) m1 xs = Returns m'"
    by (cases "dial_step tmgr m x") auto
  with Cons.IH [of m1] in_hand_step [of tmgr m x m1] show ?case by (cases x) auto
qed simp

text \<open>
  \<^bold>\<open>C12\<close> (safety). Whatever dials are requested, answered and interleaved with other events of
  the network: every call of \<open>dial\<close> has returned once or is the only one waiting for its
  peer; the contexts kept are exactly those of the waiting calls; no call ever returns
  \<open>STATE_INCONSISTENCY\<close> or \<open>HOST_UNREACHABLE\<close>; and a connection that is returned is one to
  the peer that was dialed, when the transport checks the identity of the peer.
\<close>

theorem dial_answers:
  assumes "list_all dial_op_ok xs"
  shows "\<exists>m. run_cxx (dial_step tmgr) (DialMachine_new repo) xs = Returns m
    \<and> length (answers m) + length (awaiting m) = dial_calls xs
    \<and> distinct (map fst (awaiting m)) \<and> dom (map_of (dialing_peers (dialer m))) = fst ` set (awaiting m)
    \<and> (\<forall>(p, r) \<in> set (answers m).
         r \<noteq> Inl STATE_INCONSISTENCY \<and> r \<noteq> Inl HOST_UNREACHABLE
         \<and> (\<forall>c. r = Inr c \<longrightarrow> remotePeer c (cmgr (dialer m)) = p))"
proof -
  have "dial_inv (DialMachine_new repo)" by (auto simp: dial_inv_but_def DialMachine_new_def net_ok_new)
  from dial_machine.run_safe [OF this assms] obtain m where
    m: "run_cxx (dial_step tmgr) (DialMachine_new repo) xs = Returns m" "dial_inv m" by blast
  have "in_hand (DialMachine_new repo) = 0" by (simp add: in_hand_def DialMachine_new_def)
  with in_hand_run [OF m(1)] have "length (answers m) + length (awaiting m) = dial_calls xs" by (simp add: in_hand_def)
  then show ?thesis using m by (auto simp: dial_inv_but_def answer_ok_def never_answered_def)
qed

section \<open>Which address is reached\<close>

abbreviation fails :: "(Multiaddress \<Rightarrow> (NetErrc, bool) result) \<Rightarrow> Multiaddress \<Rightarrow> bool" where
  "fails reach a \<equiv> (\<exists>e. reach a = Inl e)"

definition attempts :: "(Multiaddress \<Rightarrow> (NetErrc, bool) result) \<Rightarrow> Multiaddress list \<Rightarrow> Multiaddress list" where
  "attempts reach as = takeWhile (fails reach) as @ take 1 (dropWhile (fails reach) as)"

definition reports :: "PeerId \<Rightarrow> (Multiaddress \<Rightarrow> (NetErrc, bool) result) \<Rightarrow> Multiaddress list \<Rightarrow> DialOp list" where
  "reports p reach as = map (\<lambda>a. Op_dialed p (map_sum id (\<lambda>closed. (p, closed)) (reach a))) (attempts reach as)"

definition verdict :: "(Multiaddress \<Rightarrow> (NetErrc, bool) result) \<Rightarrow> Multiaddress list \<Rightarrow> nat \<Rightarrow> (DialError, nat) result" where
  "verdict reach as c =
     (if as = [] then Inl ADDRESS_FAMILY_NOT_SUPPORTED
      else if list_all (fails reach) as then Inl (Transport_error (projl (reach (last as))))
      else Inr c)"

lemma attempts_Cons: "attempts reach (a # as) = a # (if fails reach a then attempts reach as else [])"
  by (auto simp: attempts_def)

lemma filter_dropWhile:
  "filter P xs = (case dropWhile (\<lambda>x. \<not> P x) xs of [] \<Rightarrow> [] | y # ys \<Rightarrow> y # filter P ys)"
  by (induction xs) auto

text \<open>The dial under way, with the addresses still to be tried.\<close>

lemma dialing_peers_simps [simp]:
  "dialing_peers (completeDial p d) = AList.delete p (dialing_peers d)"
  "AList.delete p (dialing_peers (put_ctx p x d)) = AList.delete p (dialing_peers d)"
  by (simp_all add: completeDial_def put_ctx_def delete_update_same)

lemma dial_loop:
  assumes "map_of (dialing_peers (dialer m)) p = Some ctx" and "map_of (awaiting m) p = Some a" and "p \<notin> fst ` set (remove1 (p, a) (awaiting m))"
    and "dialled ctx" and "as = filter (supported tmgr) (addr_queue ctx)"
  shows "\<exists>m'. run_cxx (dial_step tmgr) m (reports p reach (a # as)) = Returns m'
    \<and> answers m' = answers m @ [(p, verdict reach (a # as) (length (conns (cmgr (dialer m)))))]
    \<and> awaiting m' = remove1 (p, a) (awaiting m) \<and> dialing_peers (dialer m') = AList.delete p (dialing_peers (dialer m))
    \<and> addr_repo (dialer m') = fold (dialFailed p) (takeWhile (fails reach) (a # as)) (addr_repo (dialer m))"
  using assms
proof (induction as arbitrary: m ctx a)
  case Nil
  have none: "dropWhile (\<lambda>a. \<not> supported tmgr a) (addr_queue ctx) = []"
    using Nil.prems(5) filter_dropWhile [of "supported tmgr" "addr_queue ctx"] by (simp split: list.splits)
  show ?case
    apply (cases "reach a")
    subgoal for e
      using Nil.prems none
      by (simp add: reports_def attempts_Cons rotate_dialed_def rotate_eq settle_def verdict_def attempts_def Let_def)
    subgoal
      using Nil.prems
      by (simp add: reports_def attempts_Cons rotate_dialed_def settle_def verdict_def attempts_def connected_def Let_def)
    done
next
  case (Cons b bs)
  show ?case
  proof (cases "reach a")
    case (Inr closed)
    then show ?thesis using Cons.prems
      by (simp add: reports_def attempts_Cons rotate_dialed_def settle_def verdict_def attempts_def connected_def Let_def)
  next
    case (Inl e)
    obtain queue where q: "dropWhile (\<lambda>a. \<not> supported tmgr a) (addr_queue ctx) = b # queue" "bs = filter (supported tmgr) queue"
      using Cons.prems(5) filter_dropWhile [of "supported tmgr" "addr_queue ctx"] by (auto split: list.splits)
    let ?ctx = "ctx\<lparr>dial_result := Some (Inl (Transport_error e)), addr_queue := queue, dialled := True\<rparr>"
    let ?d = "put_ctx p ?ctx ((dialer m)\<lparr>addr_repo := dialFailed p a (addr_repo (dialer m))\<rparr>)"
    let ?m = "m\<lparr>dialer := ?d, awaiting := remove1 (p, a) (awaiting m) @ [(p, b)]\<rparr>"
    have st: "dial_step tmgr m (Op_dialed p (map_sum id (\<lambda>closed. (p, closed)) (reach a))) = Returns ?m"
      using Cons.prems Inl q by (simp add: rotate_dialed_def rotate_eq settle_def Let_def)
    have none: "map_of (remove1 (p, a) (awaiting m)) p = None" using Cons.prems(3) by (simp add: map_of_eq_None_iff)
    have nin: "(p, b) \<notin> set (remove1 (p, a) (awaiting m))" using Cons.prems(3) by force
    have rm: "remove1 (p, b) (awaiting ?m) = remove1 (p, a) (awaiting m)" using nin by (simp add: remove1_append)
    have "map_of (dialing_peers (dialer ?m)) p = Some ?ctx" by simp
    moreover have "map_of (awaiting ?m) p = Some b" using none by (simp add: map_add_Some_iff)
    moreover have "p \<notin> fst ` set (remove1 (p, b) (awaiting ?m))" using rm Cons.prems(3) by simp
    ultimately have "\<exists>m'. run_cxx (dial_step tmgr) ?m (reports p reach (b # bs)) = Returns m'
      \<and> answers m' = answers ?m @ [(p, verdict reach (b # bs) (length (conns (cmgr (dialer ?m)))))]
      \<and> awaiting m' = remove1 (p, b) (awaiting ?m) \<and> dialing_peers (dialer m') = AList.delete p (dialing_peers (dialer ?m))
      \<and> addr_repo (dialer m') = fold (dialFailed p) (takeWhile (fails reach) (b # bs)) (addr_repo (dialer ?m))"
      using q(2) by (intro Cons.IH) auto
    moreover have "reports p reach (a # b # bs) = Op_dialed p (map_sum id (\<lambda>closed. (p, closed)) (reach a)) # reports p reach (b # bs)"
      using Inl by (simp add: reports_def attempts_Cons)
    moreover have "verdict reach (a # b # bs) c = verdict reach (b # bs) c" for c using Inl by (simp add: verdict_def)
    ultimately show ?thesis using st rm Inl by simp
  qed
qed

text \<open>
  \<^bold>\<open>C13\<close> (functional). A dial to a peer without an open connection or a dial under way tries
  the given addresses that some transport supports, in their order, up to the first that can
  be reached. It returns that connection; when none is reached, the error of the last
  attempt, and when none is supported, \<open>ADDRESS_FAMILY_NOT_SUPPORTED\<close>. Every failed address
  is reported to the address repository, in the order of the attempts, and nothing of the
  dial is left behind.
\<close>

theorem dial_tries_in_order:
  assumes "getBestConnectionForPeer p (cmgr (dialer m)) = None" and "map_of (dialing_peers (dialer m)) p = None"
    and "p \<notin> fst ` set (awaiting m)" and "addresses \<noteq> []" and "tried = filter (supported tmgr) addresses"
  shows "\<exists>m'. run_cxx (dial_step tmgr) m (Op_dial p addresses # reports p reach tried) = Returns m'
    \<and> answers m' = answers m @ [(p, verdict reach tried (length (conns (cmgr (dialer m)))))]
    \<and> addr_repo (dialer m') = fold (dialFailed p) (takeWhile (fails reach) tried) (addr_repo (dialer m))
    \<and> dialing_peers (dialer m') = dialing_peers (dialer m) \<and> awaiting m' = awaiting m"
proof -
  let ?ctx = "\<lparr>addr_queue = addresses, addr_seen = remdups addresses, dial_result = None, dialled = False\<rparr>"
  let ?d = "put_ctx p ?ctx (dialer m)"
  have d: "dial tmgr p addresses (dialer m) = rotate tmgr p ?d" using assms(1,2,4) by (simp add: dial_def)
  have del: "AList.delete p (dialing_peers (dialer m)) = dialing_peers (dialer m)"
    using assms(2) by (simp add: delete_idem map_of_eq_None_iff)
  have ctx: "map_of (dialing_peers ?d) p = Some ?ctx" by simp
  show ?thesis
  proof (cases "dropWhile (\<lambda>a. \<not> supported tmgr a) addresses")
    case Nil
    then have "tried = []" using assms(5) filter_dropWhile [of "supported tmgr" addresses] by simp
    with Nil d del show ?thesis
      by (simp add: rotate_eq [OF ctx] settle_def reports_def attempts_def verdict_def)
  next
    case (Cons a queue)
    then have tried: "tried = a # filter (supported tmgr) queue" using assms(5) filter_dropWhile [of "supported tmgr" addresses] by simp
    let ?m = "m\<lparr>dialer := put_ctx p (?ctx\<lparr>addr_queue := queue, dialled := True\<rparr>) (dialer m), awaiting := awaiting m @ [(p, a)]\<rparr>"
    have st: "dial_step tmgr m (Op_dial p addresses) = Returns ?m"
      using Cons d by (simp add: rotate_eq [OF ctx] settle_def)
    have nin: "(p, a) \<notin> set (awaiting m)" using assms(3) by force
    then have rm: "remove1 (p, a) (awaiting ?m) = awaiting m" by (simp add: remove1_append)
    have none: "map_of (awaiting m) p = None" using assms(3) by (simp add: map_of_eq_None_iff)
    have "\<exists>m'. run_cxx (dial_step tmgr) ?m (reports p reach (a # filter (supported tmgr) queue)) = Returns m'
      \<and> answers m' = answers ?m @ [(p, verdict reach (a # filter (supported tmgr) queue) (length (conns (cmgr (dialer ?m)))))]
      \<and> awaiting m' = remove1 (p, a) (awaiting ?m) \<and> dialing_peers (dialer m') = AList.delete p (dialing_peers (dialer ?m))
      \<and> addr_repo (dialer m') = fold (dialFailed p) (takeWhile (fails reach) (a # filter (supported tmgr) queue)) (addr_repo (dialer ?m))"
      by (rule dial_loop [where ctx = "?ctx\<lparr>addr_queue := queue, dialled := True\<rparr>"])
        (use none rm assms(3) in \<open>simp_all add: map_add_Some_iff\<close>)
    then show ?thesis using st rm tried del by auto
  qed
qed

theorem dial_answers_witness:
  "\<exists>m. run_cxx (dial_step [\<lambda>_. True]) (DialMachine_new AddressRepository_new)
       [Op_dial [1] [demo_addr 0], Op_dial [1] [demo_addr 1], Op_dial [2] [], Op_dialed [1] (Inl host_unreachable),
        Op_dialed [1] (Inr ([1], False))] = Returns m
     \<and> length (answers m) + length (awaiting m) = 3"
proof -
  have "list_all dial_op_ok [Op_dial [1] [demo_addr 0], Op_dial [1] [demo_addr 1], Op_dial [2] [],
      Op_dialed [1] (Inl host_unreachable), Op_dialed [1] (Inr ([1], False))]" by simp
  from dial_answers [OF this, of "[\<lambda>_. True]" AddressRepository_new] show ?thesis by auto
qed

theorem dial_tries_in_order_witness:
  "\<exists>m'. run_cxx (dial_step [\<lambda>a. a \<noteq> demo_addr 0]) (DialMachine_new AddressRepository_new)
       (Op_dial [1] [demo_addr 0, demo_addr 1, demo_addr 2]
        # reports [1] (\<lambda>a. if a = demo_addr 1 then Inl host_unreachable else Inr False) [demo_addr 1, demo_addr 2]) = Returns m'
     \<and> answers m' = [([1], Inr 0)]"
  using dial_tries_in_order [where tmgr = "[\<lambda>a. a \<noteq> demo_addr 0]" and m = "DialMachine_new AddressRepository_new"
      and p = "[1]" and addresses = "[demo_addr 0, demo_addr 1, demo_addr 2]" and tried = "[demo_addr 1, demo_addr 2]"
      and reach = "\<lambda>a. if a = demo_addr 1 then Inl host_unreachable else Inr False"]
  by (auto simp: DialMachine_new_def Net_new_def getBestConnectionForPeer_def verdict_def)

end
