(* ===== verification/Listener.thy ===== *)
theory Listener
  imports Connections Transport Multiselect "HOL-Library.Sublist"
begin

text \<open>
  The listener manager \<open>src/network/listener_manager.cpp\<close>: the registry of protocol
  handlers with the serving of inbound streams, and the listeners with their accept loops.

  The registry is a \<open>tsl::htrie_map\<close>, whose operations are a parameter; \<open>htrie_ok\<close> is what
  its documentation promises. A handler is a pointer, \<open>None\<close> the null pointer.

  A listener is shared between the map of listeners and the coroutine that accepts its
  connections, so a listener is an index into the list of all listeners. A coroutine spawned
  inside the executor runs at once, one spawned outside runs at the next tick. Closing a
  listener ends the wait of its coroutine. Undefined behaviour is \<open>Throws\<close>.

  The lemmas show that a stream is handled by the handler registered first for the
  negotiated name, what the map of listeners holds in every state, and when a listener no
  longer accepts connections.
\<close>

section \<open>Protocol handlers\<close>

record ('t, 'h) htrie_lib =
  ht_empty :: 't
  ht_emplace :: "ProtocolName \<Rightarrow> 'h option \<Rightarrow> 't \<Rightarrow> 't"
  ht_items :: "'t \<Rightarrow> (ProtocolName \<times> 'h option) list"
  ht_longest_prefix :: "ProtocolName \<Rightarrow> 't \<Rightarrow> (ProtocolName \<times> 'h option) option"
  ht_equal_prefix_range :: "string \<Rightarrow> 't \<Rightarrow> (ProtocolName \<times> 'h option) list"

datatype ListenerError = NO_HANDLER_FOUND

definition listenProtocol :: "('t, 'h) htrie_lib \<Rightarrow> ProtocolName list \<Rightarrow> 'h \<Rightarrow> 't \<Rightarrow> 't" where
  "listenProtocol lib ids h t = fold (\<lambda>i. ht_emplace lib i (Some h)) ids t"

definition getSupportedProtocols :: "('t, 'h) htrie_lib \<Rightarrow> 't \<Rightarrow> ProtocolName list" where
  "getSupportedProtocols lib t = map fst (ht_items lib t)"

definition longer_match :: "ProtocolName \<times> 'h option \<Rightarrow> (ProtocolName \<times> 'h option) option \<Rightarrow> (ProtocolName \<times> 'h option) option" where
  "longer_match m longest =
     (case longest of
        None \<Rightarrow> Some m
      | Some l \<Rightarrow> if length (fst m) > length (fst l) then Some m else Some l)"

definition getProtocol :: "('t, 'h) htrie_lib \<Rightarrow> ProtocolName \<Rightarrow> 't \<Rightarrow> (ListenerError, 'h option) result" where
  "getProtocol lib p t =
     (case ht_longest_prefix lib p t of
        None \<Rightarrow> Inl NO_HANDLER_FOUND
      | Some (key, protocol) \<Rightarrow>
          if key = p then Inr protocol
          else
            (case fold longer_match (ht_equal_prefix_range lib (take 2 (p @ [CHR 0x00])) t) None of
               None \<Rightarrow> Inl NO_HANDLER_FOUND
             | Some (_, protocol') \<Rightarrow> Inr protocol'))"

text \<open>One turn of the loop that serves the streams of a connection, after a stream was accepted.\<close>

datatype ('h, 's) served = Reset 's | Handled 'h ProtocolName 's

definition serve_stream ::
  "('t, 'h) htrie_lib \<Rightarrow> ('s, 'e) reader \<Rightarrow> ('s, 'e) writer \<Rightarrow> 't \<Rightarrow> 's \<Rightarrow> ('h, 's) served cxx option" where
  "serve_stream lib readSome writeSome t stream =
     (let protos = getSupportedProtocols lib t
      in if protos = [] then Some (Returns (Reset stream))
         else
           map_option
             (\<lambda>r. bind_cxx r (\<lambda>(rproto, s).
                Returns
                  (case rproto of
                     Inl e \<Rightarrow> Reset s
                   | Inr proto_name \<Rightarrow>
                       (case getProtocol lib proto_name t of
                          Inl e \<Rightarrow> Reset s
                        | Inr None \<Rightarrow> Reset s
                        | Inr (Some h) \<Rightarrow> Handled h proto_name s))))
             (selectOneOf readSome writeSome protos False True stream))"

text \<open>The documented behaviour of the trie, for keys within its size limit.\<close>

definition short :: "string \<Rightarrow> bool" where
  "short k \<longleftrightarrow> length k \<le> 65535"

definition htrie_ok :: "('t, 'h) htrie_lib \<Rightarrow> bool" where
  "htrie_ok lib \<longleftrightarrow>
     ht_items lib (ht_empty lib) = []
     \<and> (\<forall>t k v. short k \<longrightarrow>
          map_of (ht_items lib (ht_emplace lib k v t))
          = (if map_of (ht_items lib t) k = None then (map_of (ht_items lib t))(k \<mapsto> v) else map_of (ht_items lib t)))
     \<and> (\<forall>t p. case ht_longest_prefix lib p t of
          None \<Rightarrow> \<forall>k \<in> dom (map_of (ht_items lib t)). \<not> prefix k p
        | Some (k, v) \<Rightarrow> map_of (ht_items lib t) k = Some v \<and> prefix k p
            \<and> (\<forall>k' \<in> dom (map_of (ht_items lib t)). prefix k' p \<longrightarrow> length k' \<le> length k))
     \<and> (\<forall>t pre. ht_equal_prefix_range lib pre t = filter (\<lambda>(k, v). prefix pre k) (ht_items lib t))"

text \<open>The handlers registered by a sequence of calls; the first for a name stays.\<close>

definition registry :: "('t, 'h) htrie_lib \<Rightarrow> (ProtocolName list \<times> 'h) list \<Rightarrow> 't" where
  "registry lib calls = fold (\<lambda>(ids, h). listenProtocol lib ids h) calls (ht_empty lib)"

definition handlers :: "(ProtocolName list \<times> 'h) list \<Rightarrow> (ProtocolName \<times> 'h) list" where
  "handlers calls = concat (map (\<lambda>(ids, h). map (\<lambda>i. (i, h)) ids) calls)"

lemma emplace_fold:
  assumes "htrie_ok lib" and "list_all short ids"
  shows "map_of (ht_items lib (fold (\<lambda>i. ht_emplace lib i v) ids t))
    = map_of (map (\<lambda>i. (i, v)) ids) ++ map_of (ht_items lib t)"
  using assms(2)
proof (induction ids arbitrary: t)
  case (Cons i ids)
  have "map_of (ht_items lib (ht_emplace lib i v t))
    = (if map_of (ht_items lib t) i = None then (map_of (ht_items lib t))(i \<mapsto> v) else map_of (ht_items lib t))"
    using assms(1) Cons.prems by (simp add: htrie_ok_def)
  with Cons show ?case by (auto simp: map_add_def fun_eq_iff map_of_map_restrict split: option.splits)
qed simp

lemma registry_map:
  assumes "htrie_ok lib" and "\<forall>(ids, h) \<in> set calls. list_all short ids"
  shows "map_of (ht_items lib (registry lib calls)) = map_option Some \<circ> map_of (handlers calls)"
proof -
  have "map_of (ht_items lib (fold (\<lambda>(ids, h). listenProtocol lib ids h) calls t))
    = (map_option Some \<circ> map_of (handlers calls)) ++ map_of (ht_items lib t)" for t
    using assms(2)
  proof (induction calls arbitrary: t)
    case (Cons c calls)
    obtain ids h where c: "c = (ids, h)" by fastforce
    have "map_of (map (\<lambda>i. (i, Some h)) ids) = map_option Some \<circ> map_of (map (\<lambda>i. (i, h)) ids)"
      by (induction ids) (auto simp: fun_eq_iff)
    then show ?case using Cons emplace_fold [OF assms(1), of ids "Some h" t]
      by (simp add: c listenProtocol_def handlers_def map_add_def fun_eq_iff split: option.splits)
  qed (simp add: handlers_def map_add_def)
  moreover have "ht_items lib (ht_empty lib) = []" using assms(1) by (simp add: htrie_ok_def)
  ultimately show ?thesis by (simp add: registry_def)
qed

lemma getProtocol_exact:
  assumes "htrie_ok lib" and "map_of (ht_items lib t) p = Some v"
  shows "getProtocol lib p t = Inr v"
proof -
  have c: "case ht_longest_prefix lib p t of
          None \<Rightarrow> \<forall>k \<in> dom (map_of (ht_items lib t)). \<not> prefix k p
        | Some (k, v) \<Rightarrow> map_of (ht_items lib t) k = Some v \<and> prefix k p
            \<and> (\<forall>k' \<in> dom (map_of (ht_items lib t)). prefix k' p \<longrightarrow> length k' \<le> length k)"
    using assms(1) unfolding htrie_ok_def by blast
  have d: "p \<in> dom (map_of (ht_items lib t))" using assms(2) by blast
  show ?thesis
  proof (cases "ht_longest_prefix lib p t")
    case None
    with c d show ?thesis by auto
  next
    case (Some kv)
    obtain k w where kv: "kv = (k, w)" by fastforce
    with c d Some have "prefix k p" "length p \<le> length k" "map_of (ht_items lib t) k = Some w" by auto
    moreover from this have "k = p" by (auto elim!: prefixE)
    ultimately show ?thesis using Some kv assms(2) by (simp add: getProtocol_def)
  qed
qed

lemma supported_registry:
  assumes "htrie_ok lib" and "\<forall>(ids, h) \<in> set calls. list_all short ids"
  shows "set (getSupportedProtocols lib (registry lib calls)) = dom (map_of (handlers calls))"
  using arg_cong [OF registry_map [OF assms], of dom]
  by (simp add: getSupportedProtocols_def dom_map_of_conv_image_fst [symmetric] dom_def)

text \<open>
  \<^bold>\<open>C15\<close> (functional). An inbound stream over a connection that does not fail is given to the
  handler that was registered first for the first name the other side proposes and some
  handler was registered for; the names proposed before are refused, and the handler finds
  in the stream what follows the negotiation.
\<close>

theorem served_by_registered_handler:
  assumes "htrie_ok lib" and "\<forall>(ids, h) \<in> set calls. list_all short ids"
    and "duplex_ok readSome writeSome pending sent"
    and "map_of (handlers calls) p = Some h" and "name_ok p"
    and "\<forall>q \<in> set refused. name_ok q \<and> map_of (handlers calls) q = None"
    and "pending s = frame kProtocolId @ concat (map frame refused) @ frame p @ rest"
  shows "\<exists>s'. serve_stream lib readSome writeSome (registry lib calls) s = Some (Returns (Handled h p s'))
    \<and> pending s' = rest
    \<and> sent s' = sent s @ frame kProtocolId @ concat (replicate (length refused) (frame kNA)) @ frame p"
proof -
  let ?t = "registry lib calls"
  note sup = supported_registry [OF assms(1,2)]
  have "p \<in> set (getSupportedProtocols lib ?t)" using assms(4) by (simp add: sup domI)
  moreover have "\<forall>q \<in> set refused. name_ok q \<and> q \<notin> set (getSupportedProtocols lib ?t)" using assms(6) by (auto simp: sup)
  ultimately obtain s' where s': "selectOneOf readSome writeSome (getSupportedProtocols lib ?t) False True s = Some (Returns (Inr p, s'))"
      "pending s' = rest" "sent s' = sent s @ frame kProtocolId @ concat (replicate (length refused) (frame kNA)) @ frame p"
    using selectOneOf_responder [OF assms(3) _ assms(5) _ assms(7)] by blast
  have "map_of (ht_items lib ?t) p = Some (Some h)" using registry_map [OF assms(1,2)] assms(4) by simp
  then have "getProtocol lib p ?t = Inr (Some h)" by (rule getProtocol_exact [OF assms(1)])
  moreover have "getSupportedProtocols lib ?t \<noteq> []" using \<open>p \<in> _\<close> by auto
  ultimately show ?thesis using s' by (simp add: serve_stream_def)
qed

text \<open>A trie kept as an association list.\<close>

definition alist_trie :: "((ProtocolName \<times> 'h option) list, 'h) htrie_lib" where
  "alist_trie =
     \<lparr>ht_empty = [],
      ht_emplace = (\<lambda>k v t. if map_of t k = None then t @ [(k, v)] else t),
      ht_items = (\<lambda>t. t),
      ht_longest_prefix = (\<lambda>p t. map_option (\<lambda>k. (k, the (map_of t k))) (List.find (\<lambda>k. map_of t k \<noteq> None) (rev (prefixes p)))),
      ht_equal_prefix_range = (\<lambda>pre t. filter (\<lambda>(k, v). prefix pre k) t)\<rparr>"

lemma find_longest_prefix:
  "case List.find P (rev (prefixes p)) of
     None \<Rightarrow> \<forall>k. P k \<longrightarrow> \<not> prefix k p
   | Some k \<Rightarrow> P k \<and> prefix k p \<and> (\<forall>k'. P k' \<longrightarrow> prefix k' p \<longrightarrow> length k' \<le> length k)"
proof (induction p rule: rev_induct)
  case (snoc x p)
  then show ?case by (auto simp: prefixes_snoc dest: prefix_length_le split: option.splits)
qed auto

lemma alist_trie_ok: "htrie_ok alist_trie"
  unfolding htrie_ok_def
proof (intro conjI allI)
  fix t :: "(ProtocolName \<times> 'h option) list" and p
  show "case ht_longest_prefix alist_trie p t of
          None \<Rightarrow> \<forall>k \<in> dom (map_of (ht_items alist_trie t)). \<not> prefix k p
        | Some (k, v) \<Rightarrow> map_of (ht_items alist_trie t) k = Some v \<and> prefix k p
            \<and> (\<forall>k' \<in> dom (map_of (ht_items alist_trie t)). prefix k' p \<longrightarrow> length k' \<le> length k)"
    using find_longest_prefix [of "\<lambda>k. map_of t k \<noteq> None" p]
    by (cases "List.find (\<lambda>k. map_of t k \<noteq> None) (rev (prefixes p))") (auto simp: alist_trie_def dom_def)
qed (auto simp: alist_trie_def fun_eq_iff map_add_def split: option.split)

theorem served_by_registered_handler_witness:
  "\<exists>s'. serve_stream alist_trie demo_read demo_write
       (registry alist_trie [([''/ping''], 1 :: nat), ([''/echo'', ''/ping''], 2)])
       (frame kProtocolId @ concat (map frame [''/id'']) @ frame ''/ping'' @ [7], []) = Some (Returns (Handled 1 ''/ping'' s'))
     \<and> fst s' = [7]"
  using served_by_registered_handler [OF alist_trie_ok _ demo_duplex,
      where calls = "[([''/ping''], 1 :: nat), ([''/echo'', ''/ping''], 2)]" and p = "''/ping''" and h = 1
        and refused = "[''/id'']" and rest = "[7]" and s = "(frame kProtocolId @ concat (map frame [''/id'']) @ frame ''/ping'' @ [7], [])"]
  by (auto simp: name_ok_short short_def handlers_def)

section \<open>Listeners\<close>

record ListenerManager =
  started :: bool
  listeners :: "(Multiaddress, nat) alist"
  listener_objs :: "QuicListener list"
  spawned :: "nat list"
  accepting :: "nat list"
  l_cmgr :: Net

definition ListenerManager_new :: "Net \<Rightarrow> ListenerManager" where
  "ListenerManager_new n = \<lparr>started = False, listeners = [], listener_objs = [], spawned = [], accepting = [], l_cmgr = n\<rparr>"

abbreviation obj :: "ListenerManager \<Rightarrow> nat \<Rightarrow> QuicListener" where
  "obj m i \<equiv> listener_objs m ! i"

text \<open>
  \<open>close\<close> of a listener destroys its engine, with the channel that its coroutine waits for.
\<close>

definition close_obj :: "nat \<Rightarrow> ListenerManager \<Rightarrow> (NetErrc, unit) result \<times> ListenerManager" where
  "close_obj i m =
     (case ql_close (obj m i) of
        (r, l) \<Rightarrow> (r, m\<lparr>listener_objs := (listener_objs m)[i := l], accepting := removeAll i (accepting m)\<rparr>))"

definition closeListener :: "Multiaddress \<Rightarrow> ListenerManager \<Rightarrow> ((NetErrc, unit) result \<times> ListenerManager) cxx" where
  "closeListener ma m =
     (case map_of (listeners m) ma of
        Some i \<Rightarrow>
          (let m1 = m\<lparr>listeners := AList.delete ma (listeners m)\<rparr>
           in Returns (if \<not> ql_isClosed (obj m1 i) then close_obj i m1 else (Inr (), m1)))
      | None \<Rightarrow>
          if \<exists>(_, i) \<in> set (listeners m). ql_getListenMultiaddr (obj m i) = Inr ma then Throws
          else Returns (Inl invalid_argument, m))"

definition removeListener :: "Multiaddress \<Rightarrow> ListenerManager \<Rightarrow> (NetErrc, unit) result \<times> ListenerManager" where
  "removeListener ma m =
     (case map_of (listeners m) ma of
        Some i \<Rightarrow> (Inr (), m\<lparr>listeners := AList.delete ma (listeners m)\<rparr>)
      | None \<Rightarrow> (Inl invalid_argument, m))"

type_synonym bind_fun = "IpAddress \<times> u16 \<Rightarrow> (NetErrc, IpAddress \<times> u16) result"

fun start_loop ::
  "address_lib \<Rightarrow> bind_fun \<Rightarrow> (Multiaddress, nat) alist \<Rightarrow> QuicListener list \<Rightarrow> ((Multiaddress, nat) alist \<times> QuicListener list) cxx" where
  "start_loop lib bind_socket [] objs = Returns ([], objs)"
| "start_loop lib bind_socket ((ma, i) # ls) objs =
     bind_cxx (ql_listen lib bind_socket ma (objs ! i)) (\<lambda>(r, l).
     bind_cxx (start_loop lib bind_socket ls (objs[i := l])) (\<lambda>(ls', objs').
       Returns (case r of Inl _ \<Rightarrow> (ls', objs') | Inr _ \<Rightarrow> ((ma, i) # ls', objs'))))"

definition start :: "address_lib \<Rightarrow> bind_fun \<Rightarrow> ListenerManager \<Rightarrow> ListenerManager cxx" where
  "start lib bind_socket m =
     (if started m then Returns m
      else
        bind_cxx (start_loop lib bind_socket (listeners m) (listener_objs m)) (\<lambda>(ls, objs).
          Returns (m\<lparr>listeners := ls, listener_objs := objs, started := True\<rparr>)))"

fun stop_loop :: "(Multiaddress, nat) alist \<Rightarrow> ListenerManager \<Rightarrow> (Multiaddress, nat) alist \<times> ListenerManager" where
  "stop_loop [] m = ([], m)"
| "stop_loop ((ma, i) # ls) m =
     (case close_obj i m of
        (r, m1) \<Rightarrow>
          (case stop_loop ls m1 of (ls', m2) \<Rightarrow> (case r of Inl _ \<Rightarrow> (ls', m2) | Inr _ \<Rightarrow> ((ma, i) # ls', m2))))"

definition stop :: "ListenerManager \<Rightarrow> ListenerManager" where
  "stop m =
     (if \<not> started m then m
      else (case stop_loop (listeners m) m of (ls, m') \<Rightarrow> m'\<lparr>listeners := ls, started := False\<rparr>))"

text \<open>
  The coroutine of a listener up to its wait in \<open>asyncAccept\<close>, which returns an error at once
  when the listener has no engine.
\<close>

definition accept_wait :: "nat \<Rightarrow> ListenerManager \<Rightarrow> ListenerManager" where
  "accept_wait i m = (if ql_server (obj m i) = None then m else m\<lparr>accepting := accepting m @ [i]\<rparr>)"

definition listen ::
  "address_lib \<Rightarrow> bind_fun \<Rightarrow> (Multiaddress \<Rightarrow> bool) list \<Rightarrow> bool \<Rightarrow> Multiaddress \<Rightarrow> ListenerManager
     \<Rightarrow> ((NetErrc, unit) result \<times> ListenerManager) cxx" where
  "listen lib bind_socket tmgr in_executor ma m =
     (if findBest tmgr ma = None then Returns (Inl address_family_not_supported, m)
      else if map_of (listeners m) ma \<noteq> None then Returns (Inl address_in_use, m)
      else
        (let i = length (listener_objs m);
             m1 = m\<lparr>listener_objs := listener_objs m @ [QuicListener_new]\<rparr>;
             m2 = (if in_executor then accept_wait i m1 else m1\<lparr>spawned := spawned m1 @ [i]\<rparr>)
         in if started m2
            then
              bind_cxx (ql_listen lib bind_socket ma (obj m2 i)) (\<lambda>(r, l).
                let m3 = m2\<lparr>listener_objs := (listener_objs m2)[i := l]\<rparr>
                in Returns
                     (case r of
                        Inl e \<Rightarrow> (Inl e, m3)
                      | Inr _ \<Rightarrow> (Inr (), m3\<lparr>listeners := AList.update ma i (listeners m3)\<rparr>)))
            else Returns (Inr (), m2\<lparr>listeners := AList.update ma i (listeners m2)\<rparr>)))"

definition getListenAddresses :: "ListenerManager \<Rightarrow> Multiaddress list" where
  "getListenAddresses m = map fst (listeners m)"

definition getListenAddressesInterfaces :: "ListenerManager \<Rightarrow> Multiaddress list" where
  "getListenAddressesInterfaces m =
     concat (map (\<lambda>(_, i). case ql_getListenMultiaddr (obj m i) of Inl _ \<Rightarrow> [] | Inr a \<Rightarrow> [a]) (listeners m))"

text \<open>The executor starts the coroutines spawned outside it; an engine reports a connection or an error.\<close>

definition tick :: "ListenerManager \<Rightarrow> ListenerManager" where
  "tick m = fold accept_wait (spawned m) (m\<lparr>spawned := []\<rparr>)"

definition accepted :: "nat \<Rightarrow> (NetErrc, PeerId \<times> bool) result \<Rightarrow> ListenerManager \<Rightarrow> ListenerManager" where
  "accepted i r m =
     (if i \<notin> set (accepting m) then m
      else
        (let m1 = m\<lparr>accepting := remove1 i (accepting m)\<rparr>
         in case r of
              Inl e \<Rightarrow> m1
            | Inr (p, closed) \<Rightarrow>
                (let n = l_cmgr m1; c = length (conns n);
                     n' = n\<lparr>conns := conns n @ [\<lparr>c_remote = p, c_closed = closed, c_close_asked = False\<rparr>]\<rparr>
                 in accept_wait i (m1\<lparr>l_cmgr := onConnection c n'\<rparr>))))"

section \<open>States of the listeners\<close>

datatype ListenOp =
    L_listen bool Multiaddress
  | L_start
  | L_stop
  | L_close Multiaddress
  | L_remove Multiaddress
  | L_tick
  | L_accepted nat "(NetErrc, PeerId \<times> bool) result"

fun listen_step ::
  "address_lib \<Rightarrow> bind_fun \<Rightarrow> (Multiaddress \<Rightarrow> bool) list \<Rightarrow> ListenerManager \<Rightarrow> ListenOp \<Rightarrow> ListenerManager cxx" where
  "listen_step lib bind_socket tmgr m (L_listen in_executor ma) =
     bind_cxx (listen lib bind_socket tmgr in_executor ma m) (\<lambda>(_, m'). Returns m')"
| "listen_step lib bind_socket tmgr m L_start = start lib bind_socket m"
| "listen_step lib bind_socket tmgr m L_stop = Returns (stop m)"
| "listen_step lib bind_socket tmgr m (L_close ma) = bind_cxx (closeListener ma m) (\<lambda>(_, m'). Returns m')"
| "listen_step lib bind_socket tmgr m (L_remove ma) = Returns (snd (removeListener ma m))"
| "listen_step lib bind_socket tmgr m L_tick = Returns (tick m)"
| "listen_step lib bind_socket tmgr m (L_accepted i r) = Returns (accepted i r m)"

abbreviation opened :: "ListenerManager \<Rightarrow> nat \<Rightarrow> bool" where
  "opened m i \<equiv> ql_server (obj m i) \<noteq> None"

definition lm_inv :: "ListenerManager \<Rightarrow> bool" where
  "lm_inv m \<longleftrightarrow>
     distinct (map fst (listeners m)) \<and> distinct (map snd (listeners m))
     \<and> (\<forall>i \<in> snd ` set (listeners m). i < length (listener_objs m) \<and> (opened m i \<longleftrightarrow> started m))
     \<and> distinct (accepting m) \<and> distinct (spawned m) \<and> set (accepting m) \<inter> set (spawned m) = {}
     \<and> (\<forall>i \<in> set (spawned m). i < length (listener_objs m))
     \<and> (\<forall>i \<in> set (accepting m). i < length (listener_objs m) \<and> opened m i)"

lemma ql_listen_cases:
  assumes "ql_listen lib b ma l = Returns (r, l')"
  shows "(\<exists>e. r = Inl e \<and> l' = l) \<or> (r = Inr () \<and> ql_server l' \<noteq> None)"
  using assms unfolding ql_listen_def
  by (auto simp: bind_cxx_def split: cxx.splits sum.splits if_splits)

lemma start_loop_keeps:
  assumes "start_loop lib b ls objs = Returns (ls', objs')" and "distinct (map snd ls)" and "\<forall>i \<in> snd ` set ls. i < length objs"
  shows "set ls' \<subseteq> set ls \<and> (distinct (map fst ls) \<longrightarrow> distinct (map fst ls')) \<and> distinct (map snd ls') \<and> length objs' = length objs
    \<and> (\<forall>i. i \<notin> snd ` set ls \<longrightarrow> objs' ! i = objs ! i) \<and> (\<forall>i \<in> snd ` set ls'. ql_server (objs' ! i) \<noteq> None)"
  using assms
proof (induction ls arbitrary: objs ls' objs')
  case (Cons x ls)
  obtain ma i where x: "x = (ma, i)" by fastforce
  obtain r l ls1 where s: "ql_listen lib b ma (objs ! i) = Returns (r, l)" "start_loop lib b ls (objs[i := l]) = Returns (ls1, objs')"
    and ls': "ls' = (case r of Inl _ \<Rightarrow> ls1 | Inr _ \<Rightarrow> (ma, i) # ls1)"
    using Cons.prems(1) by (cases "ql_listen lib b ma (objs ! i)") (auto simp: x bind_cxx_def split: cxx.splits prod.splits sum.splits)
  have nin: "i \<notin> snd ` set ls" "i < length objs" using Cons.prems(2,3) x by auto
  have ih: "set ls1 \<subseteq> set ls" "distinct (map fst ls) \<Longrightarrow> distinct (map fst ls1)" "distinct (map snd ls1)" "length objs' = length objs"
    "\<And>j. j \<notin> snd ` set ls \<Longrightarrow> objs' ! j = objs[i := l] ! j" "\<forall>j \<in> snd ` set ls1. ql_server (objs' ! j) \<noteq> None"
    using Cons.IH [OF s(2)] Cons.prems(2,3) x by auto
  have oi: "objs' ! i = l" using ih(5) [OF nin(1)] nin(2) by simp
  have sub: "fst ` set ls1 \<subseteq> fst ` set ls" "snd ` set ls1 \<subseteq> snd ` set ls" using ih(1) by auto
  from ql_listen_cases [OF s(1)] show ?case
  proof
    assume "\<exists>e. r = Inl e \<and> l = objs ! i"
    with ls' ih x show ?thesis by auto
  next
    assume "r = Inr () \<and> ql_server l \<noteq> None"
    with ls' have e: "ls' = (ma, i) # ls1" "ql_server (objs' ! i) \<noteq> None" using oi by auto
    with ih sub nin x show ?thesis by (auto simp: nth_list_update)
  qed
qed simp

lemma close_obj_simps [simp]:
  "fst (close_obj i m) = Inr ()" "listeners (snd (close_obj i m)) = listeners m" "started (snd (close_obj i m)) = started m"
  "spawned (snd (close_obj i m)) = spawned m" "accepting (snd (close_obj i m)) = removeAll i (accepting m)"
  "length (listener_objs (snd (close_obj i m))) = length (listener_objs m)" "l_cmgr (snd (close_obj i m)) = l_cmgr m"
  by (simp_all add: close_obj_def ql_close_def)

lemma opened_close_obj [simp]:
  "i < length (listener_objs m) \<Longrightarrow> opened (snd (close_obj i m)) j \<longleftrightarrow> j \<noteq> i \<and> opened m j"
  by (auto simp: close_obj_def ql_close_def nth_list_update)

lemma stop_loop_eq:
  assumes "\<forall>i \<in> snd ` set ls. i < length (listener_objs m)"
  shows "fst (stop_loop ls m) = ls \<and> listeners (snd (stop_loop ls m)) = listeners m \<and> spawned (snd (stop_loop ls m)) = spawned m
    \<and> length (listener_objs (snd (stop_loop ls m))) = length (listener_objs m)
    \<and> accepting (snd (stop_loop ls m)) = filter (\<lambda>i. i \<notin> snd ` set ls) (accepting m)
    \<and> (\<forall>j. opened (snd (stop_loop ls m)) j \<longleftrightarrow> j \<notin> snd ` set ls \<and> opened m j)"
  using assms
proof (induction ls arbitrary: m)
  case (Cons x ls)
  obtain ma i where x: "x = (ma, i)" by fastforce
  let ?m1 = "snd (close_obj i m)"
  have e: "stop_loop (x # ls) m = (x # fst (stop_loop ls ?m1), snd (stop_loop ls ?m1))"
    using close_obj_simps(1) [of i m] by (cases "close_obj i m") (simp add: x split: prod.split)
  have "\<forall>i \<in> snd ` set ls. i < length (listener_objs ?m1)" using Cons.prems by simp
  note ih = Cons.IH [OF this]
  have "i < length (listener_objs m)" using Cons.prems x by simp
  note op = opened_close_obj [OF this]
  have "filter (\<lambda>j. j \<notin> snd ` set ls) (removeAll i (accepting m)) = filter (\<lambda>j. j \<notin> snd ` set (x # ls)) (accepting m)"
    by (induction "accepting m") (auto simp: x removeAll_filter_not_eq intro: filter_cong)
  with ih op show ?case by (simp add: e) (auto simp: x)
qed simp

lemma update_new: "k \<notin> fst ` set al \<Longrightarrow> AList.update k v al = al @ [(k, v)]"
  by (induction al) auto

lemma lm_inv_delete: "lm_inv m \<Longrightarrow> lm_inv (m\<lparr>listeners := AList.delete ma (listeners m)\<rparr>)"
  by (auto simp: lm_inv_def distinct_delete AList.delete_eq distinct_map_filter)

lemma snd_delete:
  assumes "distinct (map snd al)" and "map_of al k = Some v"
  shows "v \<notin> snd ` set (AList.delete k al)"
proof
  assume "v \<in> snd ` set (AList.delete k al)"
  then obtain k' where k': "k \<noteq> k'" "(k', v) \<in> set al" by (auto simp: AList.delete_eq)
  have "inj_on snd (set al)" using assms(1) by (simp add: distinct_map)
  from inj_onD [OF this _ k'(2) map_of_SomeD [OF assms(2)]] k'(1) show False by simp
qed

lemma closeListener_inv:
  assumes "lm_inv m" and "closeListener ma m = Returns (r, m')"
  shows "lm_inv m'"
proof (cases "map_of (listeners m) ma")
  case None
  with assms show ?thesis by (auto simp: closeListener_def split: if_splits)
next
  case (Some i)
  let ?m1 = "m\<lparr>listeners := AList.delete ma (listeners m)\<rparr>"
  have m1: "lm_inv ?m1" using assms(1) by (rule lm_inv_delete)
  have i: "i < length (listener_objs ?m1)" using assms(1) map_of_SomeD [OF Some] by (force simp: lm_inv_def)
  have nin: "i \<notin> snd ` set (listeners ?m1)" using snd_delete [OF _ Some] assms(1) by (simp add: lm_inv_def)
  have "lm_inv (snd (close_obj i ?m1))"
    using m1 nin opened_close_obj [OF i] unfolding lm_inv_def by (auto simp: distinct_removeAll)
  with m1 assms(2) Some show ?thesis by (auto simp: closeListener_def Let_def split: if_splits)
qed

lemma start_inv:
  assumes "lm_inv m" and "start lib b m = Returns m'"
  shows "lm_inv m'"
proof (cases "started m")
  case True
  with assms show ?thesis by (simp add: start_def)
next
  case False
  then obtain ls objs where s: "start_loop lib b (listeners m) (listener_objs m) = Returns (ls, objs)"
    and m': "m' = m\<lparr>listeners := ls, listener_objs := objs, started := True\<rparr>"
    using assms(2) by (cases "start_loop lib b (listeners m) (listener_objs m)") (auto simp: start_def)
  have k: "set ls \<subseteq> set (listeners m)" "distinct (map fst ls)" "distinct (map snd ls)" "length objs = length (listener_objs m)"
    "\<And>i. i \<notin> snd ` set (listeners m) \<Longrightarrow> objs ! i = listener_objs m ! i" "\<forall>i \<in> snd ` set ls. ql_server (objs ! i) \<noteq> None"
    using start_loop_keeps [OF s] assms(1) by (auto simp: lm_inv_def)
  have a: "i < length objs \<and> ql_server (objs ! i) \<noteq> None" if "i \<in> set (accepting m)" for i
  proof -
    have "i < length (listener_objs m)" "opened m i" using that assms(1) by (auto simp: lm_inv_def)
    moreover from this have "i \<notin> snd ` set (listeners m)" using assms(1) False by (auto simp: lm_inv_def)
    ultimately show ?thesis using k(4) k(5) [of i] by simp
  qed
  have l: "i < length objs" if "i \<in> snd ` set ls" for i
  proof -
    have "i \<in> snd ` set (listeners m)" using that k(1) by blast
    then show ?thesis using assms(1) k(4) unfolding lm_inv_def by auto
  qed
  show ?thesis using assms(1) k(2,3,4,6) a l unfolding lm_inv_def m' by simp
qed

lemma stop_inv: "lm_inv m \<Longrightarrow> lm_inv (stop m)"
proof (cases "started m")
  case True
  assume inv: "lm_inv m"
  then have "\<forall>i \<in> snd ` set (listeners m). i < length (listener_objs m)" by (simp add: lm_inv_def)
  from stop_loop_eq [OF this] inv True show ?thesis
    unfolding stop_def lm_inv_def by (cases "stop_loop (listeners m) m") auto
qed (simp add: stop_def)

lemma accept_wait_inv:
  "lm_inv m \<Longrightarrow> i < length (listener_objs m) \<Longrightarrow> i \<notin> set (accepting m) \<Longrightarrow> i \<notin> set (spawned m) \<Longrightarrow> lm_inv (accept_wait i m)"
  by (auto simp: accept_wait_def lm_inv_def)

lemma tick_inv: "lm_inv m \<Longrightarrow> lm_inv (tick m)"
proof -
  assume inv: "lm_inv m"
  have "lm_inv (fold accept_wait is m')"
    if "lm_inv m'" "distinct is" "\<forall>i \<in> set is. i < length (listener_objs m') \<and> i \<notin> set (accepting m')" "spawned m' = []" for "is" m'
    using that
  proof (induction "is" arbitrary: m')
    case (Cons i "is")
    have "lm_inv (accept_wait i m')" using Cons.prems by (intro accept_wait_inv) auto
    then show ?case using Cons.prems by (simp, intro Cons.IH) (auto simp: accept_wait_def)
  qed simp
  moreover have "lm_inv (m\<lparr>spawned := []\<rparr>)" "distinct (spawned m)"
      "\<forall>i \<in> set (spawned m). i < length (listener_objs (m\<lparr>spawned := []\<rparr>)) \<and> i \<notin> set (accepting (m\<lparr>spawned := []\<rparr>))"
    using inv by (auto simp: lm_inv_def)
  ultimately show ?thesis unfolding tick_def by simp
qed

lemma accepted_inv: "lm_inv m \<Longrightarrow> lm_inv (accepted i r m)"
proof (cases "i \<in> set (accepting m)")
  case True
  assume inv: "lm_inv m"
  let ?m1 = "m\<lparr>accepting := remove1 i (accepting m)\<rparr>"
  have m1: "lm_inv ?m1" using inv by (auto simp: lm_inv_def)
  have i: "i < length (listener_objs m)" "i \<notin> set (remove1 i (accepting m))" "i \<notin> set (spawned m)"
    using inv True by (auto simp: lm_inv_def)
  have "lm_inv (accept_wait i (?m1\<lparr>l_cmgr := n\<rparr>))" for n
  proof -
    have "lm_inv (?m1\<lparr>l_cmgr := n\<rparr>)" using m1 by (simp add: lm_inv_def)
    then show ?thesis by (rule accept_wait_inv) (use i in simp_all)
  qed
  with m1 True show ?thesis by (simp add: accepted_def Let_def split: sum.split prod.split)
qed (simp add: accepted_def)

lemma lm_inv_obj:
  assumes "lm_inv m" and "i \<notin> set (accepting m)" and "i \<notin> snd ` set (listeners m)"
  shows "lm_inv (m\<lparr>listener_objs := (listener_objs m)[i := l]\<rparr>)"
proof -
  have "\<forall>j \<in> snd ` set (listeners m). (listener_objs m)[i := l] ! j = obj m j"
    using assms(3) by (metis nth_list_update_neq)
  moreover have "\<forall>j \<in> set (accepting m). (listener_objs m)[i := l] ! j = obj m j"
    using assms(2) by (metis nth_list_update_neq)
  ultimately show ?thesis using assms(1) unfolding lm_inv_def by simp
qed

lemma listen_inv:
  assumes "lm_inv m" and "listen lib b tmgr in_executor ma m = Returns (r, m')"
  shows "lm_inv m'"
proof (cases "findBest tmgr ma = None \<or> map_of (listeners m) ma \<noteq> None")
  case True
  with assms show ?thesis by (auto simp: listen_def split: if_splits)
next
  case False
  let ?i = "length (listener_objs m)"
  let ?m1 = "m\<lparr>listener_objs := listener_objs m @ [QuicListener_new]\<rparr>"
  let ?m2 = "if in_executor then accept_wait ?i ?m1 else ?m1\<lparr>spawned := spawned ?m1 @ [?i]\<rparr>"
  have m2: "lm_inv ?m2" "length (listener_objs ?m2) = Suc ?i" "ql_server (obj ?m2 ?i) = None" "listeners ?m2 = listeners m"
      "started ?m2 = started m" "?i \<notin> set (accepting ?m2)" "?i \<notin> snd ` set (listeners ?m2)"
    using assms(1) by (auto simp: lm_inv_def accept_wait_def QuicListener_new_def nth_append less_SucI)
  have none: "ma \<notin> fst ` set (listeners m)" using False by (simp add: map_of_eq_None_iff)
  have add: "lm_inv (m3\<lparr>listeners := AList.update ma ?i (listeners m3)\<rparr>)"
    if "lm_inv m3" "listeners m3 = listeners m" "?i < length (listener_objs m3)" "opened m3 ?i \<longleftrightarrow> started m3"
      "?i \<notin> snd ` set (listeners m)" for m3
  proof -
    have "AList.update ma ?i (listeners m) = listeners m @ [(ma, ?i)]" using none by (rule update_new)
    then show ?thesis using that none by (auto simp: lm_inv_def)
  qed
  show ?thesis
  proof (cases "started m")
    case True
    obtain r1 l where q: "ql_listen lib b ma (obj ?m2 ?i) = Returns (r1, l)"
      and m': "m' = (let m3 = ?m2\<lparr>listener_objs := (listener_objs ?m2)[?i := l]\<rparr> in
        case r1 of Inl e \<Rightarrow> m3 | Inr _ \<Rightarrow> m3\<lparr>listeners := AList.update ma ?i (listeners m3)\<rparr>)"
      using assms(2) False True m2(5)
      by (cases "ql_listen lib b ma (obj ?m2 ?i)") (auto simp: listen_def Let_def split: sum.splits)
    let ?m3 = "?m2\<lparr>listener_objs := (listener_objs ?m2)[?i := l]\<rparr>"
    have op: "opened ?m3 j = (if j = ?i then ql_server l \<noteq> None else opened ?m2 j)" for j
      using m2(2) by (simp add: nth_list_update)
    have m3: "lm_inv ?m3" using lm_inv_obj [OF m2(1,6,7)] .
    from ql_listen_cases [OF q] show ?thesis
    proof
      assume "\<exists>e. r1 = Inl e \<and> l = obj ?m2 ?i"
      then obtain e where "r1 = Inl e" by blast
      then have "m' = ?m3" using m' by (simp only: Let_def sum.case)
      with m3 show ?thesis by (simp only:)
    next
      assume "r1 = Inr () \<and> ql_server l \<noteq> None"
      then have r1: "r1 = Inr ()" and l: "ql_server l \<noteq> None" by simp_all
      have "m' = ?m3\<lparr>listeners := AList.update ma ?i (listeners ?m3)\<rparr>" using m' r1 by (simp only: Let_def sum.case)
      moreover have "lm_inv (?m3\<lparr>listeners := AList.update ma ?i (listeners ?m3)\<rparr>)"
        by (rule add [OF m3]) (use m2 True op [of ?i] l in simp_all)
      ultimately show ?thesis by (simp only:)
    qed
  next
    case F: False
    have "lm_inv (?m2\<lparr>listeners := AList.update ma ?i (listeners ?m2)\<rparr>)"
      using m2 F by (intro add) auto
    then show ?thesis using assms(2) False F m2(5) by (auto simp: listen_def Let_def)
  qed
qed

lemma listen_step_inv:
  assumes "lm_inv m" and "listen_step lib b tmgr m x = Returns m'"
  shows "lm_inv m'"
proof (cases x)
  case (L_listen ex ma)
  with assms listen_inv [OF assms(1), of lib b tmgr ex ma] show ?thesis
    by (cases "listen lib b tmgr ex ma m") auto
next
  case (L_close ma)
  with assms closeListener_inv [OF assms(1), of ma] show ?thesis by (cases "closeListener ma m") auto
next
  case (L_remove ma)
  with assms lm_inv_delete [OF assms(1), of ma] show ?thesis by (auto simp: removeListener_def split: option.splits)
qed (use assms in \<open>auto simp: start_inv stop_inv tick_inv accepted_inv\<close>)

interpretation listener_machine: invariant_machine lm_inv "listen_step lib b tmgr" for lib b tmgr
  by unfold_locales (rule listen_step_inv)

text \<open>
  \<^bold>\<open>C16\<close> (type). Whatever is listened on, started, stopped, closed, removed and
  accepted, in any order and as long as nothing throws: no address is listed twice; while
  the manager is started every listener it holds is open and has an interface address, and
  while it is stopped none; and at most one accept loop waits at a listener, which is open.
\<close>

theorem listener_states:
  assumes "run_cxx (listen_step lib bind_socket tmgr) (ListenerManager_new n) xs = Returns m"
  shows "distinct (getListenAddresses m)
    \<and> length (getListenAddressesInterfaces m) = (if started m then length (getListenAddresses m) else 0)
    \<and> distinct (accepting m) \<and> (\<forall>i \<in> set (accepting m). opened m i)"
proof -
  have "lm_inv (ListenerManager_new n)" by (simp add: lm_inv_def ListenerManager_new_def)
  then have inv: "lm_inv m" using assms by (rule listener_machine.run_keeps)
  have "length (concat (map (\<lambda>(_, i). case ql_getListenMultiaddr (obj m i) of Inl _ \<Rightarrow> [] | Inr a \<Rightarrow> [a]) ls))
      = (if started m then length ls else 0)"
    if "\<forall>i \<in> snd ` set ls. opened m i \<longleftrightarrow> started m" for ls :: "(Multiaddress, nat) alist"
    using that by (induction ls) (auto simp: ql_getListenMultiaddr_def split: option.splits)
  then show ?thesis using inv by (simp add: lm_inv_def getListenAddresses_def getListenAddressesInterfaces_def)
qed

section \<open>When a listener stops accepting\<close>

text \<open>A listener whose accept loop has ended.\<close>

definition loop_ended :: "nat \<Rightarrow> ListenerManager \<Rightarrow> bool" where
  "loop_ended i m \<longleftrightarrow> i < length (listener_objs m) \<and> i \<notin> set (accepting m) \<and> i \<notin> set (spawned m)"

lemma loop_ended_fold:
  "loop_ended i m \<Longrightarrow> i \<notin> set is \<Longrightarrow> loop_ended i (fold accept_wait is m)"
  by (induction "is" arbitrary: m) (auto simp: loop_ended_def accept_wait_def)

lemma loop_ended_close: "loop_ended i m \<Longrightarrow> loop_ended i (snd (close_obj j m))"
  by (simp add: loop_ended_def)

lemma loop_ended_stop_loop: "loop_ended i m \<Longrightarrow> loop_ended i (snd (stop_loop ls m))"
proof (induction ls arbitrary: m)
  case (Cons x ls)
  obtain ma j where x: "x = (ma, j)" by fastforce
  have "snd (stop_loop (x # ls) m) = snd (stop_loop ls (snd (close_obj j m)))"
    using close_obj_simps(1) [of j m] by (cases "close_obj j m") (simp add: x split: prod.split)
  with Cons.IH [OF loop_ended_close [OF Cons.prems, of j]] show ?case by simp
qed simp

lemma start_loop_length: "start_loop lib b ls objs = Returns (ls', objs') \<Longrightarrow> length objs' = length objs"
proof (induction ls arbitrary: objs ls' objs')
  case (Cons x ls)
  obtain ma i where x: "x = (ma, i)" by fastforce
  obtain r l ls1 where "start_loop lib b ls (objs[i := l]) = Returns (ls1, objs')"
    using Cons.prems by (auto simp: x bind_cxx_def split: cxx.splits prod.splits sum.splits)
  from Cons.IH [OF this] show ?case by simp
qed simp

lemma loop_ended_step:
  assumes "loop_ended i m" and "listen_step lib b tmgr m x = Returns m'"
  shows "loop_ended i m'"
proof (cases x)
  case (L_listen ex ma)
  with assms show ?thesis
    by (auto simp: listen_def Let_def loop_ended_def accept_wait_def bind_cxx_def less_SucI
        split: cxx.splits if_splits prod.splits sum.splits)
next
  case L_start
  with assms start_loop_length [of lib b "listeners m" "listener_objs m"] show ?thesis
    by (auto simp: start_def loop_ended_def bind_cxx_def split: cxx.splits if_splits prod.splits)
next
  case L_stop
  with assms loop_ended_stop_loop [OF assms(1), of "listeners m"] show ?thesis
    by (auto simp: stop_def loop_ended_def split: if_splits prod.splits)
next
  case (L_close ma)
  have "loop_ended i (m\<lparr>listeners := ls\<rparr>)" for ls using assms(1) by (simp add: loop_ended_def)
  with assms L_close loop_ended_close show ?thesis
    by (auto simp: closeListener_def Let_def bind_cxx_def split: option.splits if_splits prod.splits) (metis snd_conv)
next
  case (L_remove ma)
  with assms show ?thesis by (auto simp: removeListener_def loop_ended_def split: option.splits)
next
  case L_tick
  have "loop_ended i (m\<lparr>spawned := []\<rparr>)" "i \<notin> set (spawned m)" using assms(1) by (auto simp: loop_ended_def)
  from loop_ended_fold [OF this] assms(2) L_tick show ?thesis by (simp add: tick_def)
next
  case (L_accepted j r)
  with assms show ?thesis
    by (auto simp: accepted_def Let_def loop_ended_def accept_wait_def dest: notin_set_remove1 split: if_splits sum.splits)
qed

interpretation ended_machine: invariant_machine "loop_ended i" "listen_step lib b tmgr" for i lib b tmgr
  by unfold_locales (rule loop_ended_step)

text \<open>
  One inbound handshake that fails ends the accept loop of its listener for
  good: the listener stays open and listed as it was, but whatever is done afterwards, also
  stopping and starting the manager, no connection that reaches it is accepted any more.
\<close>

theorem accept_error_is_final:
  assumes "run_cxx (listen_step lib bind_socket tmgr) (ListenerManager_new n) xs = Returns m" and "i \<in> set (accepting m)"
    and "run_cxx (listen_step lib bind_socket tmgr) (accepted i (Inl e) m) ys = Returns m'"
  shows "opened (accepted i (Inl e) m) i \<and> getListenAddresses (accepted i (Inl e) m) = getListenAddresses m
    \<and> accepted i (Inr conn) m' = m'"
proof -
  have "lm_inv (ListenerManager_new n)" by (simp add: lm_inv_def ListenerManager_new_def)
  then have inv: "lm_inv m" using assms(1) by (rule listener_machine.run_keeps)
  then have "loop_ended i (accepted i (Inl e) m)" using assms(2) by (auto simp: loop_ended_def accepted_def lm_inv_def)
  then have "loop_ended i m'" using assms(3) by (rule ended_machine.run_keeps)
  then have "accepted i (Inr conn) m' = m'" by (simp add: loop_ended_def accepted_def)
  with inv assms(2) show ?thesis by (simp add: accepted_def lm_inv_def getListenAddresses_def)
qed

text \<open>
  The usual order of calls: a manager that listens outside the executor, is started and
  then run accepts every connection; after it is stopped and started again, none.
\<close>

lemma ql_listen_endpoint:
  assumes "ip_ok lib ip" and "makeQuicAddr lib (ip, port) = Returns (Inr ma)" and "ip_ok lib ip'" and "bind_socket (ip, port) = Inr (ip', port')"
  shows "\<exists>a. ql_listen lib bind_socket ma QuicListener_new = Returns (Inr (), \<lparr>ql_server = Some a\<rparr>)"
proof -
  from quic_endpoint_address [OF assms(1), of port] assms(2) obtain info where
    "asQuic lib ma = Returns (Inr info)" "asUdp info = Inr (ip, port)" by auto
  moreover from quic_endpoint_address [OF assms(3), of port'] obtain a where "makeQuicAddr lib (ip', port') = Returns (Inr a)" by blast
  ultimately show ?thesis using assms(4) by (simp add: ql_listen_def QuicListener_new_def)
qed

lemma accepted_connections:
  assumes "accepting m = [i]" and "opened m i"
  shows "\<exists>m'. run_cxx (listen_step lib b tmgr) m (map (\<lambda>p. L_accepted i (Inr (p, False))) ps) = Returns m'
    \<and> accepting m' = [i] \<and> remotes (l_cmgr m') = remotes (l_cmgr m) @ ps"
  using assms
proof (induction ps arbitrary: m)
  case (Cons p ps)
  let ?n = "(l_cmgr m)\<lparr>conns := conns (l_cmgr m) @ [\<lparr>c_remote = p, c_closed = False, c_close_asked = False\<rparr>]\<rparr>"
  let ?m = "m\<lparr>l_cmgr := onConnection (length (conns (l_cmgr m))) ?n\<rparr>"
  have "accepted i (Inr (p, False)) m = ?m" using Cons.prems by (auto simp: accepted_def accept_wait_def Let_def)
  moreover have "remotes (l_cmgr ?m) = remotes (l_cmgr m) @ [p]" by simp (simp add: remotes_def)
  ultimately show ?case using Cons.IH [of ?m] Cons.prems by simp
qed simp

lemma run_cxx_append:
  "run_cxx step s (xs @ ys) = bind_cxx (run_cxx step s xs) (\<lambda>s'. run_cxx step s' ys)"
  by (induction xs arbitrary: s) (auto simp: bind_cxx_def split: cxx.split)

lemma listening_manager_accepts:
  assumes "ip_ok lib ip" and "makeQuicAddr lib (ip, port) = Returns (Inr ma)" and "ip_ok lib ip'" and "bind_socket (ip, port) = Inr (ip', port')"
    and "findBest tmgr ma \<noteq> None"
  shows "\<exists>m. run_cxx (listen_step lib bind_socket tmgr) (ListenerManager_new Net_new)
       ([L_listen False ma, L_start, L_tick] @ map (\<lambda>p. L_accepted 0 (Inr (p, False))) ps) = Returns m
     \<and> accepting m = [0] \<and> remotes (l_cmgr m) = ps"
proof -
  obtain a where a: "ql_listen lib bind_socket ma QuicListener_new = Returns (Inr (), \<lparr>ql_server = Some a\<rparr>)"
    using ql_listen_endpoint [OF assms(1-3), of bind_socket port'] assms(4) by blast
  let ?m = "\<lparr>started = True, listeners = [(ma, 0)], listener_objs = [\<lparr>ql_server = Some a\<rparr>], spawned = [], accepting = [0], l_cmgr = Net_new\<rparr>"
  have r: "run_cxx (listen_step lib bind_socket tmgr) (ListenerManager_new Net_new) [L_listen False ma, L_start, L_tick] = Returns ?m"
    using assms(5) a by (simp add: ListenerManager_new_def listen_def start_def tick_def accept_wait_def Let_def)
  obtain m where m: "run_cxx (listen_step lib bind_socket tmgr) ?m (map (\<lambda>p. L_accepted 0 (Inr (p, False))) ps) = Returns m"
      "accepting m = [0]" "remotes (l_cmgr m) = ps"
    using accepted_connections [of ?m 0 lib bind_socket tmgr ps] by (auto simp: remotes_def Net_new_def)
  have "run_cxx (listen_step lib bind_socket tmgr) (ListenerManager_new Net_new)
       ([L_listen False ma, L_start, L_tick] @ map (\<lambda>p. L_accepted 0 (Inr (p, False))) ps) = Returns m"
    by (simp only: run_cxx_append r bind_cxx_simps m(1))
  with m(2,3) show ?thesis by blast
qed

theorem listener_states_witness:
  "\<exists>ma m. makeQuicAddr sample_lib (V4 [127, 0, 0, 1], 9) = Returns (Inr ma)
     \<and> run_cxx (listen_step sample_lib Inr [\<lambda>_. True]) (ListenerManager_new Net_new)
         ([L_listen False ma, L_start, L_tick] @ map (\<lambda>p. L_accepted 0 (Inr (p, False))) [[1], [2]]) = Returns m
     \<and> distinct (getListenAddresses m)"
proof -
  obtain ma where ma: "makeQuicAddr sample_lib (V4 [127, 0, 0, 1], 9) = Returns (Inr ma)"
    using quic_endpoint_address [OF sample_ip_ok] by blast
  obtain m where m: "run_cxx (listen_step sample_lib Inr [\<lambda>_. True]) (ListenerManager_new Net_new)
      ([L_listen False ma, L_start, L_tick] @ map (\<lambda>p. L_accepted 0 (Inr (p, False))) [[1], [2]]) = Returns m"
    using listening_manager_accepts [OF sample_ip_ok ma sample_ip_ok, of Inr 9 "[\<lambda>_. True]" "[[1], [2]]"] by auto
  from listener_states [OF m] ma m show ?thesis by blast
qed

theorem accept_error_is_final_witness:
  "\<exists>ma m m'. makeQuicAddr sample_lib (V4 [127, 0, 0, 1], 9) = Returns (Inr ma)
     \<and> run_cxx (listen_step sample_lib Inr [\<lambda>_. True]) (ListenerManager_new Net_new)
         ([L_listen False ma, L_start, L_tick] @ map (\<lambda>p. L_accepted 0 (Inr (p, False))) [[1]]) = Returns m
     \<and> run_cxx (listen_step sample_lib Inr [\<lambda>_. True]) (accepted 0 (Inl host_unreachable) m) [L_tick] = Returns m'
     \<and> accepted 0 (Inr ([2], False)) m' = m'"
proof -
  obtain ma where ma: "makeQuicAddr sample_lib (V4 [127, 0, 0, 1], 9) = Returns (Inr ma)"
    using quic_endpoint_address [OF sample_ip_ok] by blast
  obtain m where m: "run_cxx (listen_step sample_lib Inr [\<lambda>_. True]) (ListenerManager_new Net_new)
      ([L_listen False ma, L_start, L_tick] @ map (\<lambda>p. L_accepted 0 (Inr (p, False))) [[1]]) = Returns m" "accepting m = [0]"
    using listening_manager_accepts [OF sample_ip_ok ma sample_ip_ok, of Inr 9 "[\<lambda>_. True]" "[[1]]"] by auto
  let ?m' = "tick (accepted 0 (Inl host_unreachable) m)"
  have "run_cxx (listen_step sample_lib Inr [\<lambda>_. True]) (accepted 0 (Inl host_unreachable) m) [L_tick] = Returns ?m'" by simp
  moreover from accept_error_is_final [OF m(1) _ this, of "([2], False)"] m(2) have "accepted 0 (Inr ([2], False)) ?m' = ?m'" by simp
  ultimately show ?thesis using ma m by blast
qed

end
