(* ===== verification/Tls.thy ===== *)
theory Tls
  imports Peer_Id "HOL-Library.Countable"
begin

text \<open>
  Certificates that prove a peer's identity, \<open>src/security/tls/tls_details.cpp\<close>: the
  certificate a host presents carries an extension with the public key of the host and a
  signature, by that key, of the key of the certificate.

  OpenSSL is a parameter: certificates and keys are of any type, with the functions the code
  calls; \<open>openssl_ok\<close> is what is used of their documentation. So are the random number of
  the serial number, the generation of an ECDSA key pair, and the signatures of the crypto
  provider. A null pointer is \<open>None\<close>; \<open>Throws\<close> is an exception, also the one of \<open>value()\<close>.
  Times and logging are left out of the results.

  The lemmas show that the extension is read back as it was written, which critical
  extensions are accepted, that an identity that is extracted is proven by a signature, and
  that the certificate of a host identifies it.
\<close>

section \<open>The extension\<close>

definition kSequenceTag :: byte where "kSequenceTag = 0x30"
definition kOctetStringTag :: byte where "kOctetStringTag = 0x04"
definition kAsnHeaderSize :: nat where "kAsnHeaderSize = 2"

definition extension_oid :: string where
  "extension_oid = ''1.3.6.1.4.1.53594.1.1''"

definition sign_prefix :: string where
  "sign_prefix = ''libp2p-tls-handshake:''"

definition marshalExtensionData :: "bytes \<Rightarrow> bytes \<Rightarrow> bytes" where
  "marshalExtensionData pub_key_bytes signature =
     [kSequenceTag, word_of_nat (kAsnHeaderSize + length pub_key_bytes + kAsnHeaderSize + length signature)]
     @ [kOctetStringTag, word_of_nat (length pub_key_bytes)] @ pub_key_bytes
     @ [kOctetStringTag, word_of_nat (length signature)] @ signature"

record KeyAndSignature =
  pkey :: bytes
  ks_signature :: bytes

definition asn_read :: "byte \<Rightarrow> bytes \<Rightarrow> (bytes \<times> bytes) option" where
  "asn_read tag input =
     (if length input < kAsnHeaderSize \<or> input ! 0 \<noteq> tag \<or> length input < kAsnHeaderSize + unat (input ! 1) then None
      else Some (take (unat (input ! 1)) (drop kAsnHeaderSize input), drop (kAsnHeaderSize + unat (input ! 1)) input))"

definition unmarshalExtensionData :: "bytes \<Rightarrow> KeyAndSignature option" where
  "unmarshalExtensionData data =
     (case asn_read kSequenceTag data of
        None \<Rightarrow> None
      | Some (r, _) \<Rightarrow>
          (case asn_read kOctetStringTag r of
             None \<Rightarrow> None
           | Some (public_key, data1) \<Rightarrow>
               (case asn_read kOctetStringTag data1 of
                  None \<Rightarrow> None
                | Some (signature, data2) \<Rightarrow>
                    if data2 \<noteq> [] then None else Some \<lparr>pkey = public_key, ks_signature = signature\<rparr>)))"

section \<open>OpenSSL\<close>

record X509_EXTENSION =
  ext_oid :: string
  ext_critical :: bool
  ext_supported :: bool
  ext_data :: bytes

record ('x, 'pk, 'ec) openssl =
  X509_new :: 'x
  X509_set_version :: "int \<Rightarrow> 'x \<Rightarrow> 'x"
  d2i_PUBKEY :: "bytes \<Rightarrow> 'pk option"
  i2d_PUBKEY :: "'pk \<Rightarrow> bytes"
  X509_set_pubkey :: "'pk \<Rightarrow> 'x \<Rightarrow> 'x option"
  X509_get_pubkey :: "'x \<Rightarrow> 'pk"
  X509_set_serialNumber :: "nat \<Rightarrow> 'x \<Rightarrow> 'x option"
  X509_set_validity :: "int \<Rightarrow> int \<Rightarrow> 'x \<Rightarrow> 'x"
  X509_has_subject_name :: "'x \<Rightarrow> bool"
  X509_NAME_add_entry :: "string \<Rightarrow> string \<Rightarrow> 'x \<Rightarrow> 'x"
  X509_set_issuer_name :: "'x \<Rightarrow> 'x option"
  X509_EXTENSION_create :: "string \<Rightarrow> bool \<Rightarrow> bytes \<Rightarrow> X509_EXTENSION option"
  X509_add_ext :: "X509_EXTENSION \<Rightarrow> 'x \<Rightarrow> 'x"
  X509_exts :: "'x \<Rightarrow> X509_EXTENSION list"
  d2i_ECPrivateKey :: "bytes \<Rightarrow> 'ec option"
  EVP_PKEY_assign_EC_KEY :: "'ec \<Rightarrow> 'ec option"
  X509_sign :: "'ec \<Rightarrow> 'x \<Rightarrow> 'x option"
  i2d_X509 :: "'x \<Rightarrow> bytes"
  d2i_X509 :: "bytes \<Rightarrow> 'x option"

definition or_throw :: "'a option \<Rightarrow> 'a cxx" where
  "or_throw r = (case r of None \<Rightarrow> Throws | Some x \<Rightarrow> Returns x)"

section \<open>Critical extensions\<close>

fun check_critical :: "bool \<Rightarrow> X509_EXTENSION list \<Rightarrow> bool" where
  "check_critical seen [] = True"
| "check_critical seen (ext # exts) =
     (if \<not> ext_critical ext then check_critical seen exts
      else if ext_supported ext then check_critical seen exts
      else if seen then False
      else if ext_oid ext = extension_oid then check_critical True exts
      else False)"

definition checkCriticalExtensions :: "('x, 'pk, 'ec) openssl \<Rightarrow> 'x \<Rightarrow> bool" where
  "checkCriticalExtensions ssl cert = check_critical False (X509_exts ssl cert)"

datatype X509_error =
    X509_V_OK
  | X509_V_ERR_SELF_SIGNED_CERT_IN_CHAIN
  | X509_V_ERR_DEPTH_ZERO_SELF_SIGNED_CERT
  | X509_V_ERR_UNHANDLED_CRITICAL_EXTENSION
  | X509_V_ERR int

definition verifyCallback :: "('x, 'pk, 'ec) openssl \<Rightarrow> bool \<Rightarrow> X509_error \<Rightarrow> 'x option \<Rightarrow> bool" where
  "verifyCallback ssl status err cert =
     (case cert of
        None \<Rightarrow> False
      | Some c \<Rightarrow>
          if err = X509_V_ERR_SELF_SIGNED_CERT_IN_CHAIN \<or> err = X509_V_ERR_DEPTH_ZERO_SELF_SIGNED_CERT then True
          else if err = X509_V_ERR_UNHANDLED_CRITICAL_EXTENSION then (if checkCriticalExtensions ssl c then True else status)
          else status)"

section \<open>Making a certificate\<close>

type_synonym sign_fun = "bytes \<Rightarrow> PrivateKey \<Rightarrow> bytes option"
type_synonym verify_fun = "bytes \<Rightarrow> bytes \<Rightarrow> PublicKey \<Rightarrow> bool option"

definition signed_text :: "bytes \<Rightarrow> bytes" where
  "signed_text cert_pub_key = map byte_of_char sign_prefix @ cert_pub_key"

definition makeExtensionSignature :: "sign_fun \<Rightarrow> bytes \<Rightarrow> PrivateKey \<Rightarrow> bytes cxx" where
  "makeExtensionSignature sign cert_pub_key host_private_key = or_throw (sign (signed_text cert_pub_key) host_private_key)"

definition assignPubkey :: "('x, 'pk, 'ec) openssl \<Rightarrow> bytes \<Rightarrow> 'x \<Rightarrow> 'x cxx" where
  "assignPubkey ssl cert_pub_key cert =
     bind_cxx (or_throw (d2i_PUBKEY ssl cert_pub_key)) (\<lambda>pub. or_throw (X509_set_pubkey ssl pub cert))"

definition assignSerial :: "('x, 'pk, 'ec) openssl \<Rightarrow> nat option \<Rightarrow> 'x \<Rightarrow> 'x cxx" where
  "assignSerial ssl bn cert = bind_cxx (or_throw bn) (\<lambda>n. or_throw (X509_set_serialNumber ssl n cert))"

definition assignIssuer :: "('x, 'pk, 'ec) openssl \<Rightarrow> 'x \<Rightarrow> 'x cxx" where
  "assignIssuer ssl cert =
     (let c1 = X509_set_validity ssl 0 (10 * 60 * 60 * 24 * 365) cert
      in if \<not> X509_has_subject_name ssl c1 then Throws
         else
           or_throw (X509_set_issuer_name ssl
             (X509_NAME_add_entry ssl ''CN'' ''libp2p''
               (X509_NAME_add_entry ssl ''O'' ''libp2p'' (X509_NAME_add_entry ssl ''C'' ''PY'' c1)))))"

definition insertExtension :: "('x, 'pk, 'ec) openssl \<Rightarrow> bytes \<Rightarrow> 'x \<Rightarrow> 'x cxx" where
  "insertExtension ssl data cert =
     bind_cxx (or_throw (X509_EXTENSION_create ssl extension_oid False data)) (\<lambda>ex. Returns (X509_add_ext ssl ex cert))"

definition signCertificate :: "('x, 'pk, 'ec) openssl \<Rightarrow> bytes \<Rightarrow> 'x \<Rightarrow> 'x cxx" where
  "signCertificate ssl priv_key cert =
     bind_cxx (or_throw (d2i_ECPrivateKey ssl priv_key)) (\<lambda>ec_key.
     bind_cxx (or_throw (EVP_PKEY_assign_EC_KEY ssl ec_key)) (\<lambda>evp_key. or_throw (X509_sign ssl evp_key cert)))"

record CertificateAndKey =
  private_key :: bytes
  certificate :: bytes

definition makeCertificate ::
  "('x, 'pk, 'ec) openssl \<Rightarrow> (bytes \<times> bytes) option \<Rightarrow> nat option \<Rightarrow> sign_fun \<Rightarrow> (pb_KeyType \<Rightarrow> bytes \<Rightarrow> bytes) \<Rightarrow> KeyPair
     \<Rightarrow> CertificateAndKey cxx" where
  "makeCertificate ssl generated bn sign serialize host_key_pair =
     bind_cxx (or_throw generated) (\<lambda>(cert_public, cert_private).
     bind_cxx (or_throw (case marshal serialize (publicKey host_key_pair) of Inl _ \<Rightarrow> None | Inr pb \<Rightarrow> Some pb)) (\<lambda>pub_key_bytes.
     bind_cxx (makeExtensionSignature sign cert_public (privateKey host_key_pair)) (\<lambda>signature.
     let extension_data = marshalExtensionData pub_key_bytes signature
     in bind_cxx (assignPubkey ssl cert_public (X509_set_version ssl 2 (X509_new ssl))) (\<lambda>c1.
        bind_cxx (assignSerial ssl bn c1) (\<lambda>c2.
        bind_cxx (assignIssuer ssl c2) (\<lambda>c3.
        bind_cxx (insertExtension ssl extension_data c3) (\<lambda>c4.
        bind_cxx (signCertificate ssl cert_private c4) (\<lambda>c5.
          Returns \<lparr>private_key = cert_private, certificate = i2d_X509 ssl c5\<rparr>))))))))"

section \<open>Verifying a peer\<close>

datatype TlsError =
    TLS_CTX_INIT_FAILED
  | TLS_NO_CERTIFICATE
  | TLS_INCOMPATIBLE_CERTIFICATE_EXTENSION
  | TLS_PEER_VERIFY_FAILED
  | TLS_UNEXPECTED_PEER_ID
  | TLS_REMOTE_PEER_NOT_AVAILABLE
  | TLS_REMOTE_PUBKEY_NOT_AVAILABLE

definition extractExtensionFields :: "('x, 'pk, 'ec) openssl \<Rightarrow> 'x \<Rightarrow> (TlsError, KeyAndSignature) result" where
  "extractExtensionFields ssl peer_certificate =
     (case List.find (\<lambda>e. ext_oid e = extension_oid) (X509_exts ssl peer_certificate) of
        None \<Rightarrow> Inl TLS_INCOMPATIBLE_CERTIFICATE_EXTENSION
      | Some ext \<Rightarrow>
          (case unmarshalExtensionData (ext_data ext) of
             None \<Rightarrow> Inl TLS_INCOMPATIBLE_CERTIFICATE_EXTENSION
           | Some ks \<Rightarrow> Inr ks))"

definition verifyExtensionSignature ::
  "('x, 'pk, 'ec) openssl \<Rightarrow> verify_fun \<Rightarrow> 'x \<Rightarrow> PublicKey \<Rightarrow> bytes \<Rightarrow> (TlsError, unit) result" where
  "verifyExtensionSignature ssl verify peer_certificate peer_pubkey signature =
     (case verify (signed_text (i2d_PUBKEY ssl (X509_get_pubkey ssl peer_certificate))) signature peer_pubkey of
        None \<Rightarrow> Inl TLS_PEER_VERIFY_FAILED
      | Some False \<Rightarrow> Inl TLS_PEER_VERIFY_FAILED
      | Some True \<Rightarrow> Inr ())"

record PubkeyAndPeerId =
  pp_public_key :: PublicKey
  pp_peer_id :: Multihash

definition verifyPeerAndExtractIdentity ::
  "('x, 'pk, 'ec) openssl \<Rightarrow> verify_fun \<Rightarrow> (bytes \<Rightarrow> ('h, bytes) result) \<Rightarrow> (bytes \<Rightarrow> int option)
     \<Rightarrow> (bytes \<Rightarrow> (pb_KeyType \<times> bytes) option) \<Rightarrow> 'x \<Rightarrow> (TlsError, PubkeyAndPeerId) result" where
  "verifyPeerAndExtractIdentity ssl verify sha rsa_bits parse peer_certificate =
     bind_result (extractExtensionFields ssl peer_certificate) (\<lambda>bin_fields.
       (case PeerId_fromPublicKey sha (pkey bin_fields) of
          Inl _ \<Rightarrow> Inl TLS_INCOMPATIBLE_CERTIFICATE_EXTENSION
        | Inr peer_id \<Rightarrow>
            (case unmarshalPublicKey rsa_bits parse (pkey bin_fields) of
               Inl _ \<Rightarrow> Inl TLS_INCOMPATIBLE_CERTIFICATE_EXTENSION
             | Inr peer_pubkey \<Rightarrow>
                 if key_type peer_pubkey \<noteq> Ed25519 \<and> key_type peer_pubkey \<noteq> Secp256k1
                 then Inl TLS_INCOMPATIBLE_CERTIFICATE_EXTENSION
                 else
                   bind_result (verifyExtensionSignature ssl verify peer_certificate peer_pubkey (ks_signature bin_fields))
                     (\<lambda>_. Inr \<lparr>pp_public_key = peer_pubkey, pp_peer_id = peer_id\<rparr>))))"

section \<open>The extension is read back\<close>

lemma asn_read_Some:
  "asn_read tag input = Some (v, rest) \<longleftrightarrow> length v < 256 \<and> input = [tag, word_of_nat (length v)] @ v @ rest"
proof
  assume a: "asn_read tag input = Some (v, rest)"
  then obtain t n xs where i: "input = t # n # xs" by (cases input; cases "tl input") (auto simp: asn_read_def kAsnHeaderSize_def split: if_splits)
  with a have "t = tag" "unat n \<le> length xs" "v = take (unat n) xs" "rest = drop (unat n) xs"
    by (auto simp: asn_read_def kAsnHeaderSize_def split: if_splits)
  with i show "length v < 256 \<and> input = [tag, word_of_nat (length v)] @ v @ rest" by (simp add: min_absorb2)
next
  assume "length v < 256 \<and> input = [tag, word_of_nat (length v)] @ v @ rest"
  then show "asn_read tag input = Some (v, rest)"
    by (simp add: asn_read_def kAsnHeaderSize_def unat_of_nat)
qed

lemma unmarshalExtensionData_iff:
  "unmarshalExtensionData data = Some \<lparr>pkey = k, ks_signature = s\<rparr> \<longleftrightarrow>
     length k + length s \<le> 251 \<and> (\<exists>rest. data = marshalExtensionData k s @ rest)"
proof
  assume "unmarshalExtensionData data = Some \<lparr>pkey = k, ks_signature = s\<rparr>"
  then obtain r rest d1 where
    "asn_read kSequenceTag data = Some (r, rest)" "asn_read kOctetStringTag r = Some (k, d1)" "asn_read kOctetStringTag d1 = Some (s, [])"
    by (auto simp: unmarshalExtensionData_def split: option.splits if_splits)
  then show "length k + length s \<le> 251 \<and> (\<exists>rest. data = marshalExtensionData k s @ rest)"
    by (auto simp: asn_read_Some marshalExtensionData_def kAsnHeaderSize_def add.assoc)
next
  assume a: "length k + length s \<le> 251 \<and> (\<exists>rest. data = marshalExtensionData k s @ rest)"
  then obtain rest where d: "data = marshalExtensionData k s @ rest" by blast
  have "asn_read kSequenceTag data
    = Some ([kOctetStringTag, word_of_nat (length k)] @ k @ [kOctetStringTag, word_of_nat (length s)] @ s, rest)"
    using a by (simp add: asn_read_Some d marshalExtensionData_def kAsnHeaderSize_def add.assoc)
  moreover have "asn_read kOctetStringTag ([kOctetStringTag, word_of_nat (length k)] @ k @ [kOctetStringTag, word_of_nat (length s)] @ s)
    = Some (k, [kOctetStringTag, word_of_nat (length s)] @ s)" using a by (simp add: asn_read_Some)
  moreover have "asn_read kOctetStringTag ([kOctetStringTag, word_of_nat (length s)] @ s) = Some (s, [])"
    using a by (simp add: asn_read_Some)
  ultimately show "unmarshalExtensionData data = Some \<lparr>pkey = k, ks_signature = s\<rparr>" by (simp add: unmarshalExtensionData_def)
qed

section \<open>Identities\<close>

text \<open>
  \<^bold>\<open>C17\<close> (safety). An identity is extracted from a certificate only when its first libp2p
  extension holds the marshalled public key the peer id is made of, of a type that can sign,
  and a signature, valid under that key, of the handshake prefix and the key of the
  certificate.
\<close>

theorem verified_identity_proven:
  assumes "verifyPeerAndExtractIdentity ssl verify sha rsa_bits parse cert = Inr info"
  shows "\<exists>ext k s rest. List.find (\<lambda>e. ext_oid e = extension_oid) (X509_exts ssl cert) = Some ext
    \<and> ext_data ext = marshalExtensionData k s @ rest
    \<and> PeerId_fromPublicKey sha k = Inr (pp_peer_id info)
    \<and> unmarshalPublicKey rsa_bits parse k = Inr (pp_public_key info)
    \<and> key_type (pp_public_key info) \<in> {Ed25519, Secp256k1}
    \<and> verify (signed_text (i2d_PUBKEY ssl (X509_get_pubkey ssl cert))) s (pp_public_key info) = Some True"
proof -
  obtain ks where ks: "extractExtensionFields ssl cert = Inr ks"
    and "(case PeerId_fromPublicKey sha (pkey ks) of
          Inl _ \<Rightarrow> Inl TLS_INCOMPATIBLE_CERTIFICATE_EXTENSION
        | Inr peer_id \<Rightarrow>
            (case unmarshalPublicKey rsa_bits parse (pkey ks) of
               Inl _ \<Rightarrow> Inl TLS_INCOMPATIBLE_CERTIFICATE_EXTENSION
             | Inr peer_pubkey \<Rightarrow>
                 if key_type peer_pubkey \<noteq> Ed25519 \<and> key_type peer_pubkey \<noteq> Secp256k1
                 then Inl TLS_INCOMPATIBLE_CERTIFICATE_EXTENSION
                 else
                   bind_result (verifyExtensionSignature ssl verify cert peer_pubkey (ks_signature ks))
                     (\<lambda>_. Inr \<lparr>pp_public_key = peer_pubkey, pp_peer_id = peer_id\<rparr>))) = Inr info"
    using assms unfolding verifyPeerAndExtractIdentity_def bind_result_eq_Inr by blast
  then have c: "PeerId_fromPublicKey sha (pkey ks) = Inr (pp_peer_id info)"
      "unmarshalPublicKey rsa_bits parse (pkey ks) = Inr (pp_public_key info)"
      "key_type (pp_public_key info) \<in> {Ed25519, Secp256k1}"
      "verifyExtensionSignature ssl verify cert (pp_public_key info) (ks_signature ks) = Inr ()"
    by (auto simp: bind_result_eq_Inr split: sum.splits if_splits)
  obtain ext where ext: "List.find (\<lambda>e. ext_oid e = extension_oid) (X509_exts ssl cert) = Some ext" "unmarshalExtensionData (ext_data ext) = Some ks"
    using ks by (auto simp: extractExtensionFields_def split: option.splits)
  then obtain rest where "ext_data ext = marshalExtensionData (pkey ks) (ks_signature ks) @ rest"
    using unmarshalExtensionData_iff [of "ext_data ext" "pkey ks" "ks_signature ks"] by auto
  moreover have "verify (signed_text (i2d_PUBKEY ssl (X509_get_pubkey ssl cert))) (ks_signature ks) (pp_public_key info) = Some True"
    using c(4) by (auto simp: verifyExtensionSignature_def split: option.splits bool.splits)
  ultimately show ?thesis using ext(1) c by blast
qed

text \<open>What is used of OpenSSL: setters set what the getters return, and leave the rest alone.\<close>

definition openssl_ok :: "('x, 'pk, 'ec) openssl \<Rightarrow> bool" where
  "openssl_ok ssl \<longleftrightarrow>
     X509_exts ssl (X509_new ssl) = []
     \<and> (\<forall>v x. X509_exts ssl (X509_set_version ssl v x) = X509_exts ssl x)
     \<and> (\<forall>pk x x'. X509_set_pubkey ssl pk x = Some x' \<longrightarrow> X509_get_pubkey ssl x' = pk \<and> X509_exts ssl x' = X509_exts ssl x)
     \<and> (\<forall>n x x'. X509_set_serialNumber ssl n x = Some x' \<longrightarrow>
          X509_get_pubkey ssl x' = X509_get_pubkey ssl x \<and> X509_exts ssl x' = X509_exts ssl x)
     \<and> (\<forall>a b x. X509_get_pubkey ssl (X509_set_validity ssl a b x) = X509_get_pubkey ssl x
          \<and> X509_exts ssl (X509_set_validity ssl a b x) = X509_exts ssl x)
     \<and> (\<forall>a b x. X509_get_pubkey ssl (X509_NAME_add_entry ssl a b x) = X509_get_pubkey ssl x
          \<and> X509_exts ssl (X509_NAME_add_entry ssl a b x) = X509_exts ssl x)
     \<and> (\<forall>x x'. X509_set_issuer_name ssl x = Some x' \<longrightarrow>
          X509_get_pubkey ssl x' = X509_get_pubkey ssl x \<and> X509_exts ssl x' = X509_exts ssl x)
     \<and> (\<forall>oid c d e. X509_EXTENSION_create ssl oid c d = Some e \<longrightarrow> ext_oid e = oid \<and> ext_data e = d)
     \<and> (\<forall>oid c d e x. X509_EXTENSION_create ssl oid c d = Some e \<longrightarrow>
          X509_get_pubkey ssl (X509_add_ext ssl e x) = X509_get_pubkey ssl x
          \<and> X509_exts ssl (X509_add_ext ssl e x) = X509_exts ssl x @ [e])
     \<and> (\<forall>k x x'. X509_sign ssl k x = Some x' \<longrightarrow>
          X509_get_pubkey ssl x' = X509_get_pubkey ssl x \<and> X509_exts ssl x' = X509_exts ssl x)
     \<and> (\<forall>x. d2i_X509 ssl (i2d_X509 ssl x) = Some x)"

lemma or_throw_Returns [simp]: "or_throw r = Returns x \<longleftrightarrow> r = Some x"
  by (simp add: or_throw_def split: option.split)

lemma bind_cxx_Returns: "bind_cxx r f = Returns y \<longleftrightarrow> (\<exists>x. r = Returns x \<and> f x = Returns y)"
  by (cases r) auto

lemma makeCertificate_cert:
  assumes ok: "openssl_ok ssl" and made: "makeCertificate ssl (Some (cp, cs)) bn sign serialize kp = Returns ret"
    and key: "\<And>pk. d2i_PUBKEY ssl cp = Some pk \<Longrightarrow> i2d_PUBKEY ssl pk = cp"
  shows "\<exists>x e pb s. d2i_X509 ssl (certificate ret) = Some x \<and> marshal serialize (publicKey kp) = Inr pb
    \<and> sign (signed_text cp) (privateKey kp) = Some s \<and> i2d_PUBKEY ssl (X509_get_pubkey ssl x) = cp
    \<and> X509_exts ssl x = [e] \<and> ext_oid e = extension_oid \<and> ext_data e = marshalExtensionData pb s"
proof -
  obtain pb s c1 c2 c3 c4 c5 where
    m: "marshal serialize (publicKey kp) = Inr pb" "sign (signed_text cp) (privateKey kp) = Some s"
      "assignPubkey ssl cp (X509_set_version ssl 2 (X509_new ssl)) = Returns c1" "assignSerial ssl bn c1 = Returns c2"
      "assignIssuer ssl c2 = Returns c3" "insertExtension ssl (marshalExtensionData pb s) c3 = Returns c4"
      "signCertificate ssl cs c4 = Returns c5" "certificate ret = i2d_X509 ssl c5"
    using made
    by (auto simp: makeCertificate_def or_throw_def [of "Some _"] makeExtensionSignature_def Let_def bind_cxx_Returns split: sum.splits)
  obtain pk where pk: "d2i_PUBKEY ssl cp = Some pk" "X509_set_pubkey ssl pk (X509_set_version ssl 2 (X509_new ssl)) = Some c1"
    using m(3) by (auto simp: assignPubkey_def bind_cxx_Returns)
  have 1: "X509_get_pubkey ssl c1 = pk" "X509_exts ssl c1 = []" using ok pk(2) by (auto simp: openssl_ok_def)
  have 2: "X509_get_pubkey ssl c2 = pk" "X509_exts ssl c2 = []"
    using ok m(4) 1 by (auto simp: assignSerial_def bind_cxx_Returns openssl_ok_def)
  have 3: "X509_get_pubkey ssl c3 = pk" "X509_exts ssl c3 = []"
    using ok m(5) 2 by (auto simp: assignIssuer_def Let_def openssl_ok_def split: if_splits)
  obtain e where e: "X509_EXTENSION_create ssl extension_oid False (marshalExtensionData pb s) = Some e" "c4 = X509_add_ext ssl e c3"
    using m(6) by (auto simp: insertExtension_def bind_cxx_Returns)
  have 4: "X509_get_pubkey ssl c4 = pk" "X509_exts ssl c4 = [e]" "ext_oid e = extension_oid" "ext_data e = marshalExtensionData pb s"
    using ok e 3 by (auto simp: openssl_ok_def)
  have 5: "X509_get_pubkey ssl c5 = pk" "X509_exts ssl c5 = [e]"
    using ok m(7) 4 by (auto simp: signCertificate_def bind_cxx_Returns openssl_ok_def)
  have "d2i_X509 ssl (certificate ret) = Some c5" using ok m(8) by (simp add: openssl_ok_def)
  with m(1,2) 4 5 key [OF pk(1)] show ?thesis by auto
qed

text \<open>
  The certificate a host makes identifies it: a peer that receives it
  extracts the public key of the host and the peer id made of it. The keys of the
  certificate and of the host are used as documented, the host key can sign, and key and
  signature together have at most 251 bytes.
\<close>

theorem certificate_identifies_host:
  assumes "openssl_ok ssl" and "makeCertificate ssl (Some (cp, cs)) bn sign serialize kp = Returns ret"
    and "\<And>pk. d2i_PUBKEY ssl cp = Some pk \<Longrightarrow> i2d_PUBKEY ssl pk = cp"
    and "\<And>t d. parse (serialize t d) = Some (t, d)" and "validate_public rsa_bits (publicKey kp) = Inr ()"
    and "key_type (publicKey kp) \<in> {Ed25519, Secp256k1}"
    and "\<And>m s. sign m (privateKey kp) = Some s \<Longrightarrow> verify m s (publicKey kp) = Some True"
    and "\<And>pb m s. marshal serialize (publicKey kp) = Inr pb \<Longrightarrow> sign m (privateKey kp) = Some s \<Longrightarrow> length pb + length s \<le> 251"
    and "\<And>pb. marshal serialize (publicKey kp) = Inr pb \<Longrightarrow> PeerId_fromPublicKey sha pb = Inr peer_id"
  shows "\<exists>x. d2i_X509 ssl (certificate ret) = Some x
    \<and> verifyPeerAndExtractIdentity ssl verify sha rsa_bits parse x = Inr \<lparr>pp_public_key = publicKey kp, pp_peer_id = peer_id\<rparr>"
proof -
  obtain x e pb s where x: "d2i_X509 ssl (certificate ret) = Some x" "marshal serialize (publicKey kp) = Inr pb"
    "sign (signed_text cp) (privateKey kp) = Some s" "i2d_PUBKEY ssl (X509_get_pubkey ssl x) = cp"
    "X509_exts ssl x = [e]" "ext_oid e = extension_oid" "ext_data e = marshalExtensionData pb s"
    using makeCertificate_cert [OF assms(1-3)] by blast
  have "unmarshalExtensionData (ext_data e) = Some \<lparr>pkey = pb, ks_signature = s\<rparr>"
    unfolding unmarshalExtensionData_iff using assms(8) [OF x(2,3)] x(7) by simp
  then have "extractExtensionFields ssl x = Inr \<lparr>pkey = pb, ks_signature = s\<rparr>"
    using x(5,6) by (simp add: extractExtensionFields_def)
  moreover have "unmarshalPublicKey rsa_bits parse pb = Inr (publicKey kp)"
    using unmarshal_marshal [OF assms(4) x(2)] assms(5) by (simp add: unmarshalPublicKey_def)
  moreover have "verifyExtensionSignature ssl verify x (publicKey kp) s = Inr ()"
    using assms(7) [OF x(3)] x(4) by (simp add: verifyExtensionSignature_def)
  ultimately show ?thesis
    using x(1) assms(6) assms(9) [OF x(2)] by (auto simp: verifyPeerAndExtractIdentity_def)
qed

text \<open>
  A chain is accepted although OpenSSL met critical extensions it does not know when there is
  at most one and it is the one of libp2p.
\<close>

lemma check_critical_iff:
  "check_critical seen exts \<longleftrightarrow>
     (case filter (\<lambda>e. ext_critical e \<and> \<not> ext_supported e) exts of
        [] \<Rightarrow> True
      | e # es \<Rightarrow> \<not> seen \<and> es = [] \<and> ext_oid e = extension_oid)"
  by (induction exts arbitrary: seen) (auto split: list.splits)

text \<open>
  A certificate as its key and its extensions, numbered by the length of its encoding. A
  signature is the first byte of the text and of the key.
\<close>

definition toy_ssl :: "(bytes \<times> (string \<times> bytes) list, bytes, unit) openssl" where
  "toy_ssl =
     \<lparr>X509_new = ([], []), X509_set_version = (\<lambda>_ x. x), d2i_PUBKEY = Some, i2d_PUBKEY = id,
      X509_set_pubkey = (\<lambda>pk x. Some (pk, snd x)), X509_get_pubkey = fst, X509_set_serialNumber = (\<lambda>_. Some),
      X509_set_validity = (\<lambda>_ _ x. x), X509_has_subject_name = (\<lambda>_. True), X509_NAME_add_entry = (\<lambda>_ _ x. x),
      X509_set_issuer_name = Some,
      X509_EXTENSION_create = (\<lambda>oid c d. Some \<lparr>ext_oid = oid, ext_critical = False, ext_supported = False, ext_data = d\<rparr>),
      X509_add_ext = (\<lambda>e x. (fst x, snd x @ [(ext_oid e, ext_data e)])),
      X509_exts = (\<lambda>x. map (\<lambda>(i, d). \<lparr>ext_oid = i, ext_critical = False, ext_supported = False, ext_data = d\<rparr>) (snd x)),
      d2i_ECPrivateKey = (\<lambda>_. Some ()), EVP_PKEY_assign_EC_KEY = Some, X509_sign = (\<lambda>_. Some),
      i2d_X509 = (\<lambda>x. replicate (to_nat x) 0), d2i_X509 = (\<lambda>bs. Some (from_nat (length bs)))\<rparr>"

definition toy_sign :: sign_fun where
  "toy_sign m k = Some (take 1 m @ take 1 (key_data k))"

definition toy_verify :: verify_fun where
  "toy_verify m s k = Some (s = take 1 m @ take 1 (key_data k))"

lemma toy_ssl_ok: "openssl_ok toy_ssl"
  by (simp add: openssl_ok_def toy_ssl_def)

definition toy_keys :: KeyPair where
  "toy_keys = \<lparr>publicKey = \<lparr>key_type = Ed25519, key_data = replicate 32 7\<rparr>, privateKey = \<lparr>key_type = Ed25519, key_data = replicate 32 7\<rparr>\<rparr>"

lemma toy_made:
  "\<exists>ret. makeCertificate toy_ssl (Some ([5], [6])) (Some 1) toy_sign serialize_ex toy_keys = Returns ret"
  by (simp add: makeCertificate_def makeExtensionSignature_def assignPubkey_def assignSerial_def assignIssuer_def insertExtension_def
      signCertificate_def or_throw_def toy_ssl_def toy_sign_def toy_keys_def marshal_def Let_def)

theorem certificate_identifies_host_witness:
  "\<exists>ret x. makeCertificate toy_ssl (Some ([5], [6])) (Some 1) toy_sign serialize_ex toy_keys = Returns ret
     \<and> d2i_X509 toy_ssl (certificate ret) = Some x
     \<and> verifyPeerAndExtractIdentity toy_ssl toy_verify (\<lambda>_. Inl ()) (\<lambda>_. None) parse_ex x
         = Inr \<lparr>pp_public_key = publicKey toy_keys, pp_peer_id = Multihash_Data identity (1 # replicate 32 7)\<rparr>"
proof -
  obtain ret where ret: "makeCertificate toy_ssl (Some ([5], [6])) (Some 1) toy_sign serialize_ex toy_keys = Returns ret"
    using toy_made by blast
  have pb: "marshal serialize_ex (publicKey toy_keys) = Inr (1 # replicate 32 7)" by (simp add: marshal_def toy_keys_def)
  have "PeerId_fromPublicKey (\<lambda>_. Inl ()) (1 # replicate 32 7) = Inr (Multihash_Data identity (1 # replicate 32 7))"
    by (simp add: PeerId_fromPublicKey_def kMaxInlineKeyLength_def Multihash_create_def kMaxHashLength_def)
  then have id: "PeerId_fromPublicKey (\<lambda>_. Inl ()) pb = Inr (Multihash_Data identity (1 # replicate 32 7))"
    if "marshal serialize_ex (publicKey toy_keys) = Inr pb" for pb using that unfolding pb by simp
  have len: "length pb + length s \<le> 251"
    if "marshal serialize_ex (publicKey toy_keys) = Inr pb" "toy_sign m (privateKey toy_keys) = Some s" for pb m s
    using that unfolding pb by (auto simp: toy_sign_def)
  have "\<exists>x. d2i_X509 toy_ssl (certificate ret) = Some x
    \<and> verifyPeerAndExtractIdentity toy_ssl toy_verify (\<lambda>_. Inl ()) (\<lambda>_. None) parse_ex x
        = Inr \<lparr>pp_public_key = publicKey toy_keys, pp_peer_id = Multihash_Data identity (1 # replicate 32 7)\<rparr>"
    by (rule certificate_identifies_host [OF toy_ssl_ok ret _ parse_serialize_ex _ _ _ len id])
      (auto simp: toy_ssl_def toy_keys_def toy_sign_def toy_verify_def validate_public_def validateEd25519_public_def
        ED25519_PUBLIC_KEY_SIZE_def)
  with ret show ?thesis by blast
qed

lemma toy_verified:
  "verifyPeerAndExtractIdentity toy_ssl toy_verify (\<lambda>_. Inl ()) (\<lambda>_. None) parse_ex
     ([5], [(extension_oid, marshalExtensionData (1 # replicate 32 7) [108, 7])])
   = Inr \<lparr>pp_public_key = publicKey toy_keys, pp_peer_id = Multihash_Data identity (1 # replicate 32 7)\<rparr>"
proof -
  have u: "unmarshalExtensionData (marshalExtensionData (1 # replicate 32 7) [108, 7]) = Some \<lparr>pkey = 1 # replicate 32 7, ks_signature = [108, 7]\<rparr>"
    by (simp add: unmarshalExtensionData_iff)
  have b: "byte_of_char CHR ''l'' = 108" by (simp add: byte_of_char_def)
  show ?thesis
    by (simp add: verifyPeerAndExtractIdentity_def extractExtensionFields_def u toy_ssl_def verifyExtensionSignature_def
        toy_verify_def toy_keys_def unmarshalPublicKey_def unmarshal_with_def validate_public_def validateEd25519_public_def
        ED25519_PUBLIC_KEY_SIZE_def PeerId_fromPublicKey_def kMaxInlineKeyLength_def Multihash_create_def kMaxHashLength_def
        signed_text_def sign_prefix_def b)
qed

theorem verified_identity_proven_witness:
  "\<exists>s rest. marshalExtensionData (1 # replicate 32 7) [108, 7] = marshalExtensionData (1 # replicate 32 7) s @ rest
     \<and> toy_verify (signed_text [5]) s (publicKey toy_keys) = Some True"
proof -
  from verified_identity_proven [OF toy_verified] obtain k s rest where
    e: "marshalExtensionData (1 # replicate 32 7) [108, 7] = marshalExtensionData k s @ rest"
    and k: "unmarshalPublicKey (\<lambda>_. None) parse_ex k = Inr (publicKey toy_keys)"
    and v: "toy_verify (signed_text [5]) s (publicKey toy_keys) = Some True"
    by (auto simp: toy_ssl_def)
  have "s = [108, 7]" using v by (simp add: toy_verify_def toy_keys_def signed_text_def sign_prefix_def byte_of_char_def)
  with v show ?thesis by (intro exI [of _ s] exI [of _ "[]"]) simp
qed

end
