(* ===== verification/Quic.thy ===== *)
theory Quic
  imports Tls Transport
begin

text \<open>
  The QUIC engine \<open>src/transport/quic/engine.cpp\<close> with its connections
  (\<open>src/transport/quic/connection.cpp\<close>) and streams (\<open>src/transport/quic/stream.cpp\<close>). The
  library lsquic is other code: its connections and streams are numbers, what it calls back
  are the steps, and what it answers to a call is an argument of the step that makes the
  call. It calls \<open>on_hsk_done\<close> once for a connection it opened, and the last call for a
  connection or a stream is the one that reports its end.

  Objects held by shared pointers are indices into lists; a context that lsquic holds lives
  in a map until the end of its connection or stream is reported. A \<open>std::optional\<close> with the
  handler of a waiting coroutine is the number of the call that waits. A channel is the list
  of what was sent to it. Using a null pointer is \<open>Throws\<close>, as is a \<open>std::logic_error\<close>.
  Calls that only ask lsquic to close or shut down something, and the sockets and timers that
  move packets, are left out: their effects are the callbacks that follow. Starting an engine
  processes what has arrived before anything was opened.

  The theories \<open>Quic_Conn\<close> and \<open>Quic_Props\<close> hold the lemmas.
\<close>

section \<open>State\<close>

datatype QuicError =
    HANDSHAKE_FAILED
  | CONN_CLOSED
  | STREAM_CLOSED
  | STREAM_READ_IN_PROGRESS
  | STREAM_WRITE_IN_PROGRESS
  | TOO_MANY_STREAMS
  | CANT_CREATE_CONNECTION
  | CANT_OPEN_STREAM

datatype QuicFail = Quic QuicError | TlsFail TlsError

record Connecting =
  co_call :: nat
  co_peer :: Multihash

record ConnCtx =
  cc_connecting :: "Connecting option"
  cc_new_stream :: "nat option option"
  cc_conn :: "nat option"

record QuicConnection =
  qc_ctx :: "nat option"
  qc_initiator :: bool
  qc_remote :: Multiaddress
  qc_peer :: Multihash
  qc_key :: PublicKey
  qc_alive :: bool
  stream_signal :: "(QuicError, nat) result list"

record StreamCtx =
  sc_stream :: "nat option"
  sc_reading :: "nat option"
  sc_writing :: "nat option"
  sc_want_flush :: bool

record QuicStream =
  qs_conn :: nat
  qs_ctx :: "nat option"
  qs_initiator :: bool
  qs_alive :: bool

record Engine =
  en_started :: bool
  en_connecting :: "Connecting option"
  en_ctxs :: "(nat, ConnCtx) alist"
  en_conns :: "QuicConnection list"
  en_stream_ctxs :: "(nat, StreamCtx) alist"
  en_streams :: "QuicStream list"
  en_want_flush :: "nat list"
  en_want_process :: bool
  conn_signal :: "(QuicFail, nat) result list"
  en_dialed :: "Multihash list"
  en_answers :: "(nat \<times> (QuicFail, nat) result) list"
  en_calls :: nat
  en_results :: "(nat \<times> (QuicError, nat) result) list"

definition Engine_new :: Engine where
  "Engine_new =
     \<lparr>en_started = False, en_connecting = None, en_ctxs = [], en_conns = [], en_stream_ctxs = [], en_streams = [],
      en_want_flush = [], en_want_process = False, conn_signal = [], en_dialed = [], en_answers = [], en_calls = 0, en_results = []\<rparr>"

abbreviation set_ctx :: "nat \<Rightarrow> ConnCtx \<Rightarrow> Engine \<Rightarrow> Engine" where
  "set_ctx i ctx e \<equiv> e\<lparr>en_ctxs := AList.update i ctx (en_ctxs e)\<rparr>"

abbreviation upd_conn :: "nat \<Rightarrow> (QuicConnection \<Rightarrow> QuicConnection) \<Rightarrow> Engine \<Rightarrow> Engine" where
  "upd_conn c f e \<equiv> e\<lparr>en_conns := (en_conns e)[c := f (en_conns e ! c)]\<rparr>"

abbreviation set_stream_ctx :: "nat \<Rightarrow> StreamCtx \<Rightarrow> Engine \<Rightarrow> Engine" where
  "set_stream_ctx i ctx e \<equiv> e\<lparr>en_stream_ctxs := AList.update i ctx (en_stream_ctxs e)\<rparr>"

text \<open>\<open>lock()\<close> of the weak pointers.\<close>

definition lock_conn :: "ConnCtx \<Rightarrow> Engine \<Rightarrow> nat option" where
  "lock_conn ctx e = (case cc_conn ctx of Some c \<Rightarrow> if qc_alive (en_conns e ! c) then Some c else None | None \<Rightarrow> None)"

definition lock_stream :: "StreamCtx \<Rightarrow> Engine \<Rightarrow> nat option" where
  "lock_stream ctx e = (case sc_stream ctx of Some s \<Rightarrow> if qs_alive (en_streams e ! s) then Some s else None | None \<Rightarrow> None)"

section \<open>Connections\<close>

definition answer :: "Connecting option \<Rightarrow> (QuicFail, nat) result \<Rightarrow> Engine \<Rightarrow> Engine" where
  "answer op r e =
     (case op of
        Some x \<Rightarrow> e\<lparr>en_answers := en_answers e @ [(co_call x, r)]\<rparr>
      | None \<Rightarrow> e\<lparr>conn_signal := conn_signal e @ [r]\<rparr>)"

definition on_hsk_done ::
  "address_lib \<Rightarrow> ('x \<Rightarrow> (TlsError, PubkeyAndPeerId) result) \<Rightarrow> nat \<Rightarrow> bool \<Rightarrow> 'x \<Rightarrow> IpAddress \<times> u16 \<Rightarrow> Engine \<Rightarrow> Engine cxx" where
  "on_hsk_done lib verify_peer i ok cert remote e =
     (case map_of (en_ctxs e) i of
        None \<Rightarrow> Throws
      | Some ctx \<Rightarrow>
          (let op = cc_connecting ctx;
               ctx1 = ctx\<lparr>cc_connecting := None\<rparr>;
               e1 = set_ctx i ctx1 e
           in if \<not> ok then Returns (answer op (Inl (Quic HANDSHAKE_FAILED)) e1)
              else
                (case verify_peer cert of
                   Inl t \<Rightarrow> Returns (answer op (Inl (TlsFail t)) e1)
                 | Inr info \<Rightarrow>
                     if (case op of Some x \<Rightarrow> PeerId_neq (pp_peer_id info) (co_peer x) | None \<Rightarrow> False)
                     then Returns (answer op (Inl (TlsFail TLS_UNEXPECTED_PEER_ID)) e1)
                     else
                       bind_cxx (makeQuicAddr lib remote) (\<lambda>a.
                         case a of
                           Inl _ \<Rightarrow> Throws
                         | Inr addr \<Rightarrow>
                             (let c = length (en_conns e1);
                                  conn = \<lparr>qc_ctx = Some i, qc_initiator = (op \<noteq> None), qc_remote = addr, qc_peer = pp_peer_id info,
                                          qc_key = pp_public_key info, qc_alive = True, stream_signal = []\<rparr>
                              in Returns (answer op (Inr c)
                                   (set_ctx i (ctx1\<lparr>cc_conn := Some c\<rparr>) (e1\<lparr>en_conns := en_conns e1 @ [conn]\<rparr>))))))))"

definition on_new_conn ::
  "address_lib \<Rightarrow> ('x \<Rightarrow> (TlsError, PubkeyAndPeerId) result) \<Rightarrow> nat \<Rightarrow> 'x \<Rightarrow> IpAddress \<times> u16 \<Rightarrow> Engine \<Rightarrow> Engine cxx" where
  "on_new_conn lib verify_peer i cert remote e =
     (let op = en_connecting e;
          e1 = set_ctx i \<lparr>cc_connecting = op, cc_new_stream = None, cc_conn = None\<rparr> (e\<lparr>en_connecting := None\<rparr>)
      in if op = None then on_hsk_done lib verify_peer i True cert remote e1 else Returns e1)"

text \<open>\<open>QuicConnection::onClose\<close>, and the last callback of a connection.\<close>

definition quic_onClose :: "nat \<Rightarrow> Engine \<Rightarrow> Engine" where
  "quic_onClose c e = upd_conn c (\<lambda>x. x\<lparr>qc_ctx := None, stream_signal := stream_signal x @ [Inl CONN_CLOSED]\<rparr>) e"

definition on_conn_closed :: "nat \<Rightarrow> Engine \<Rightarrow> Engine cxx" where
  "on_conn_closed i e =
     (case map_of (en_ctxs e) i of
        None \<Rightarrow> Throws
      | Some ctx \<Rightarrow>
          (let e1 = (case cc_connecting ctx of None \<Rightarrow> e | Some x \<Rightarrow> answer (Some x) (Inl (Quic CONN_CLOSED)) e);
               e2 = (case lock_conn ctx e1 of None \<Rightarrow> e1 | Some c \<Rightarrow> quic_onClose c e1)
           in Returns (e2\<lparr>en_ctxs := AList.delete i (en_ctxs e2)\<rparr>)))"

definition wantProcess :: "Engine \<Rightarrow> Engine" where
  "wantProcess e = e\<lparr>en_want_process := True\<rparr>"

text \<open>
  \<open>connect\<close>: lsquic makes a connection, for which it calls \<open>on_new_conn\<close>, or makes none. The
  certificate and the address are not looked at for a connection that was opened.
\<close>

definition connect ::
  "address_lib \<Rightarrow> ('x \<Rightarrow> (TlsError, PubkeyAndPeerId) result) \<Rightarrow> Multihash \<Rightarrow> (nat \<times> 'x \<times> IpAddress \<times> u16) option \<Rightarrow> Engine \<Rightarrow> Engine cxx" where
  "connect lib verify_peer peer made e =
     (let call = length (en_dialed e);
          e0 = e\<lparr>en_started := True, en_dialed := en_dialed e @ [peer]\<rparr>
      in if en_connecting e0 \<noteq> None then Throws
         else
           bind_cxx
             (case made of
                None \<Rightarrow> Returns (e0\<lparr>en_connecting := Some \<lparr>co_call = call, co_peer = peer\<rparr>\<rparr>)
              | Some (i, cert, remote) \<Rightarrow>
                  on_new_conn lib verify_peer i cert remote (e0\<lparr>en_connecting := Some \<lparr>co_call = call, co_peer = peer\<rparr>\<rparr>))
             (\<lambda>e1.
                Returns (wantProcess
                  (case en_connecting e1 of
                     None \<Rightarrow> e1
                   | Some x \<Rightarrow> answer (Some x) (Inl (Quic CANT_CREATE_CONNECTION)) (e1\<lparr>en_connecting := None\<rparr>)))))"

text \<open>The last pointer to a connection is dropped; its destructor asks lsquic to close it.\<close>

definition drop_conn :: "nat \<Rightarrow> Engine \<Rightarrow> Engine" where
  "drop_conn c e = upd_conn c (\<lambda>x. x\<lparr>qc_alive := False\<rparr>) e"

section \<open>Streams\<close>

definition on_new_stream :: "nat \<Rightarrow> nat \<Rightarrow> Engine \<Rightarrow> Engine cxx" where
  "on_new_stream i j e =
     (case map_of (en_ctxs e) i of
        None \<Rightarrow> Throws
      | Some ctx \<Rightarrow>
          (let sctx = \<lparr>sc_stream = None, sc_reading = None, sc_writing = None, sc_want_flush = False\<rparr>
           in case lock_conn ctx e of
                None \<Rightarrow> Returns (set_stream_ctx j sctx e)
              | Some c \<Rightarrow>
                  (let s = length (en_streams e);
                       stream = \<lparr>qs_conn = c, qs_ctx = Some j, qs_initiator = (cc_new_stream ctx \<noteq> None), qs_alive = True\<rparr>;
                       e1 = set_stream_ctx j (sctx\<lparr>sc_stream := Some s\<rparr>) (e\<lparr>en_streams := en_streams e @ [stream]\<rparr>)
                   in Returns
                        (if cc_new_stream ctx \<noteq> None then set_ctx i (ctx\<lparr>cc_new_stream := Some (Some s)\<rparr>) e1
                         else upd_conn c (\<lambda>x. x\<lparr>stream_signal := stream_signal x @ [Inr s]\<rparr>) e1))))"

text \<open>
  \<open>QuicConnection::newStream\<close> with \<open>Engine::newStream\<close>: lsquic has streams pending or not, and
  makes a stream, or none.
\<close>

definition engine_newStream :: "bool \<Rightarrow> nat option \<Rightarrow> nat \<Rightarrow> Engine \<Rightarrow> ((QuicError, nat) result \<times> Engine) cxx" where
  "engine_newStream pending made i e =
     (case map_of (en_ctxs e) i of
        None \<Rightarrow> Throws
      | Some ctx \<Rightarrow>
          if cc_new_stream ctx \<noteq> None then Throws
          else if pending then Returns (Inl TOO_MANY_STREAMS, e)
          else
            bind_cxx
              (let e1 = set_ctx i (ctx\<lparr>cc_new_stream := Some None\<rparr>) e
               in case made of None \<Rightarrow> Returns e1 | Some j \<Rightarrow> on_new_stream i j e1)
              (\<lambda>e2.
                 case map_of (en_ctxs e2) i of
                   None \<Rightarrow> Throws
                 | Some ctx2 \<Rightarrow>
                     (let e3 = set_ctx i (ctx2\<lparr>cc_new_stream := None\<rparr>) e2
                      in case cc_new_stream ctx2 of
                           None \<Rightarrow> Throws
                         | Some None \<Rightarrow> Returns (Inl CANT_OPEN_STREAM, e3)
                         | Some (Some s) \<Rightarrow> Returns (Inr s, e3))))"

definition conn_newStream :: "bool \<Rightarrow> nat option \<Rightarrow> nat \<Rightarrow> Engine \<Rightarrow> ((QuicError, nat) result \<times> Engine) cxx" where
  "conn_newStream pending made c e =
     (case qc_ctx (en_conns e ! c) of
        None \<Rightarrow> Returns (Inl CONN_CLOSED, e)
      | Some i \<Rightarrow> engine_newStream pending made i e)"

text \<open>What \<open>lsquic_stream_read\<close> and \<open>lsquic_stream_write\<close> answer: a count, no progress, or the end.\<close>

datatype ls_io = Ls_done nat | Ls_again | Ls_end

definition result_of :: "nat \<Rightarrow> (QuicError, nat) result \<Rightarrow> Engine \<Rightarrow> Engine" where
  "result_of call r e = e\<lparr>en_results := en_results e @ [(call, r)]\<rparr>"

definition read_turn :: "nat \<Rightarrow> ls_io \<Rightarrow> nat \<Rightarrow> Engine \<Rightarrow> Engine cxx" where
  "read_turn call n j e =
     (case map_of (en_stream_ctxs e) j of
        None \<Rightarrow> Throws
      | Some ctx \<Rightarrow>
          Returns
            (case n of
               Ls_done k \<Rightarrow> result_of call (Inr k) e
             | Ls_end \<Rightarrow> result_of call (Inl STREAM_CLOSED) e
             | Ls_again \<Rightarrow> set_stream_ctx j (ctx\<lparr>sc_reading := Some call\<rparr>) e))"

definition readSome :: "ls_io \<Rightarrow> nat \<Rightarrow> Engine \<Rightarrow> Engine cxx" where
  "readSome n s e =
     (let call = en_calls e; e0 = e\<lparr>en_calls := en_calls e + 1\<rparr>
      in case qs_ctx (en_streams e0 ! s) of
           None \<Rightarrow> Returns (result_of call (Inl STREAM_CLOSED) e0)
         | Some j \<Rightarrow>
             (case map_of (en_stream_ctxs e0) j of
                None \<Rightarrow> Throws
              | Some ctx \<Rightarrow>
                  if sc_reading ctx \<noteq> None then Returns (result_of call (Inl STREAM_READ_IN_PROGRESS) e0)
                  else read_turn call n j e0))"

definition wantFlush :: "nat \<Rightarrow> Engine \<Rightarrow> Engine cxx" where
  "wantFlush j e =
     (case map_of (en_stream_ctxs e) j of
        None \<Rightarrow> Throws
      | Some ctx \<Rightarrow>
          if sc_want_flush ctx then Returns e
          else
            (let e1 = set_stream_ctx j (ctx\<lparr>sc_want_flush := True\<rparr>) e
             in case lock_stream ctx e1 of
                  None \<Rightarrow> Returns e1
                | Some s \<Rightarrow> Returns (wantProcess (e1\<lparr>en_want_flush := en_want_flush e1 @ [s]\<rparr>))))"

definition write_turn :: "nat \<Rightarrow> ls_io \<Rightarrow> nat \<Rightarrow> Engine \<Rightarrow> Engine cxx" where
  "write_turn call n j e =
     bind_cxx (wantFlush j e) (\<lambda>e1.
       case map_of (en_stream_ctxs e1) j of
         None \<Rightarrow> Throws
       | Some ctx \<Rightarrow>
           Returns
             (case n of
                Ls_done k \<Rightarrow> result_of call (Inr k) e1
              | Ls_end \<Rightarrow> result_of call (Inl STREAM_CLOSED) e1
              | Ls_again \<Rightarrow> set_stream_ctx j (ctx\<lparr>sc_writing := Some call\<rparr>) e1))"

definition writeSome :: "ls_io \<Rightarrow> nat \<Rightarrow> Engine \<Rightarrow> Engine cxx" where
  "writeSome n s e =
     (let call = en_calls e; e0 = e\<lparr>en_calls := en_calls e + 1\<rparr>
      in case qs_ctx (en_streams e0 ! s) of
           None \<Rightarrow> Returns (result_of call (Inl STREAM_CLOSED) e0)
         | Some j \<Rightarrow>
             (case map_of (en_stream_ctxs e0) j of
                None \<Rightarrow> Throws
              | Some ctx \<Rightarrow>
                  if sc_writing ctx \<noteq> None then Returns (result_of call (Inl STREAM_WRITE_IN_PROGRESS) e0)
                  else write_turn call n j e0))"

text \<open>A stream can be read or written again: the waiting coroutine, if any, goes on.\<close>

definition on_read :: "ls_io \<Rightarrow> nat \<Rightarrow> Engine \<Rightarrow> Engine cxx" where
  "on_read n j e =
     (case map_of (en_stream_ctxs e) j of
        None \<Rightarrow> Throws
      | Some ctx \<Rightarrow>
          (case sc_reading ctx of
             None \<Rightarrow> Returns e
           | Some call \<Rightarrow> read_turn call n j (set_stream_ctx j (ctx\<lparr>sc_reading := None\<rparr>) e)))"

definition on_write :: "ls_io \<Rightarrow> nat \<Rightarrow> Engine \<Rightarrow> Engine cxx" where
  "on_write n j e =
     (case map_of (en_stream_ctxs e) j of
        None \<Rightarrow> Throws
      | Some ctx \<Rightarrow>
          (case sc_writing ctx of
             None \<Rightarrow> Returns e
           | Some call \<Rightarrow> write_turn call n j (set_stream_ctx j (ctx\<lparr>sc_writing := None\<rparr>) e)))"

text \<open>The end of a stream: what waits goes on, and no longer finds anything to wait for.\<close>

definition stream_onClose :: "nat \<Rightarrow> Engine \<Rightarrow> Engine" where
  "stream_onClose s e = e\<lparr>en_streams := (en_streams e)[s := (en_streams e ! s)\<lparr>qs_ctx := None\<rparr>]\<rparr>"

definition on_close :: "ls_io \<Rightarrow> ls_io \<Rightarrow> nat \<Rightarrow> Engine \<Rightarrow> Engine cxx" where
  "on_close n k j e =
     bind_cxx (on_read n j e) (\<lambda>e1.
     bind_cxx (on_write k j e1) (\<lambda>e2.
       case map_of (en_stream_ctxs e2) j of
         None \<Rightarrow> Throws
       | Some ctx \<Rightarrow>
           (let e3 = (case lock_stream ctx e2 of None \<Rightarrow> e2 | Some s \<Rightarrow> stream_onClose s e2)
            in Returns (e3\<lparr>en_stream_ctxs := AList.delete j (en_stream_ctxs e3)\<rparr>))))"

definition drop_stream :: "nat \<Rightarrow> Engine \<Rightarrow> Engine" where
  "drop_stream s e = e\<lparr>en_streams := (en_streams e)[s := (en_streams e ! s)\<lparr>qs_alive := False\<rparr>]\<rparr>"

text \<open>The flushes at the start of \<open>process\<close>; lsquic then makes its callbacks.\<close>

fun flush_loop :: "nat list \<Rightarrow> Engine \<Rightarrow> Engine cxx" where
  "flush_loop [] e = Returns e"
| "flush_loop (s # ss) e =
     (if \<not> qs_alive (en_streams e ! s) then flush_loop ss e
      else
        (case qs_ctx (en_streams e ! s) of
           None \<Rightarrow> Throws
         | Some j \<Rightarrow>
             (case map_of (en_stream_ctxs e) j of
                None \<Rightarrow> Throws
              | Some ctx \<Rightarrow> flush_loop ss (set_stream_ctx j (ctx\<lparr>sc_want_flush := False\<rparr>) e))))"

definition process :: "Engine \<Rightarrow> Engine cxx" where
  "process e = flush_loop (en_want_flush e) (e\<lparr>en_want_process := False, en_want_flush := []\<rparr>)"

section \<open>Steps\<close>

text \<open>
  What lsquic and the users of the engine do. A step that cannot happen, because lsquic does
  not know the connection or stream or would reuse its number, or because nobody holds the
  object, leaves the state as it is.
\<close>

datatype 'x QuicEvent =
    Ev_connect Multihash "(nat \<times> 'x \<times> IpAddress \<times> u16) option"
  | Ev_new_conn nat 'x "IpAddress \<times> u16"
  | Ev_hsk_done nat bool 'x "IpAddress \<times> u16"
  | Ev_conn_closed nat
  | Ev_drop_conn nat
  | Ev_new_stream nat nat
  | Ev_newStream nat bool "nat option"
  | Ev_readSome nat ls_io
  | Ev_writeSome nat ls_io
  | Ev_on_read nat ls_io
  | Ev_on_write nat ls_io
  | Ev_on_close nat "nat option" "nat option"
  | Ev_drop_stream nat
  | Ev_process

abbreviation has_ctx :: "Engine \<Rightarrow> nat \<Rightarrow> bool" where
  "has_ctx e i \<equiv> map_of (en_ctxs e) i \<noteq> None"

abbreviation has_stream_ctx :: "Engine \<Rightarrow> nat \<Rightarrow> bool" where
  "has_stream_ctx e j \<equiv> map_of (en_stream_ctxs e) j \<noteq> None"

abbreviation held_conn :: "Engine \<Rightarrow> nat \<Rightarrow> bool" where
  "held_conn e c \<equiv> c < length (en_conns e) \<and> qc_alive (en_conns e ! c)"

abbreviation held_stream :: "Engine \<Rightarrow> nat \<Rightarrow> bool" where
  "held_stream e s \<equiv> s < length (en_streams e) \<and> qs_alive (en_streams e ! s)"

definition last_io :: "nat option \<Rightarrow> ls_io" where
  "last_io n = (case n of None \<Rightarrow> Ls_end | Some k \<Rightarrow> Ls_done k)"

fun happens :: "'x QuicEvent \<Rightarrow> Engine \<Rightarrow> bool" where
  "happens (Ev_connect p made) e \<longleftrightarrow> (case made of None \<Rightarrow> True | Some (i, _) \<Rightarrow> \<not> has_ctx e i)"
| "happens (Ev_new_conn i _ _) e \<longleftrightarrow> \<not> has_ctx e i"
| "happens (Ev_hsk_done i _ _ _) e \<longleftrightarrow> (\<exists>ctx. map_of (en_ctxs e) i = Some ctx \<and> cc_connecting ctx \<noteq> None)"
| "happens (Ev_conn_closed i) e \<longleftrightarrow> has_ctx e i"
| "happens (Ev_drop_conn c) e \<longleftrightarrow> held_conn e c"
| "happens (Ev_new_stream i j) e \<longleftrightarrow> has_ctx e i \<and> \<not> has_stream_ctx e j"
| "happens (Ev_newStream c _ made) e \<longleftrightarrow> held_conn e c \<and> (case made of None \<Rightarrow> True | Some j \<Rightarrow> \<not> has_stream_ctx e j)"
| "happens (Ev_readSome s _) e \<longleftrightarrow> held_stream e s"
| "happens (Ev_writeSome s _) e \<longleftrightarrow> held_stream e s"
| "happens (Ev_on_read j _) e \<longleftrightarrow> has_stream_ctx e j"
| "happens (Ev_on_write j _) e \<longleftrightarrow> has_stream_ctx e j"
| "happens (Ev_on_close j _ _) e \<longleftrightarrow> has_stream_ctx e j"
| "happens (Ev_drop_stream s) e \<longleftrightarrow> held_stream e s"
| "happens Ev_process e \<longleftrightarrow> True"

fun quic_do :: "address_lib \<Rightarrow> ('x \<Rightarrow> (TlsError, PubkeyAndPeerId) result) \<Rightarrow> 'x QuicEvent \<Rightarrow> Engine \<Rightarrow> Engine cxx" where
  "quic_do lib v (Ev_connect p made) e = connect lib v p made e"
| "quic_do lib v (Ev_new_conn i cert remote) e = on_new_conn lib v i cert remote e"
| "quic_do lib v (Ev_hsk_done i ok cert remote) e = on_hsk_done lib v i ok cert remote e"
| "quic_do lib v (Ev_conn_closed i) e = on_conn_closed i e"
| "quic_do lib v (Ev_drop_conn c) e = Returns (drop_conn c e)"
| "quic_do lib v (Ev_new_stream i j) e = on_new_stream i j e"
| "quic_do lib v (Ev_newStream c pending made) e = bind_cxx (conn_newStream pending made c e) (\<lambda>(_, e'). Returns e')"
| "quic_do lib v (Ev_readSome s n) e = readSome n s e"
| "quic_do lib v (Ev_writeSome s n) e = writeSome n s e"
| "quic_do lib v (Ev_on_read j n) e = on_read n j e"
| "quic_do lib v (Ev_on_write j n) e = on_write n j e"
| "quic_do lib v (Ev_on_close j n k) e = on_close (last_io n) (last_io k) j e"
| "quic_do lib v (Ev_drop_stream s) e = Returns (drop_stream s e)"
| "quic_do lib v Ev_process e = process e"

definition quic_step ::
  "address_lib \<Rightarrow> ('x \<Rightarrow> (TlsError, PubkeyAndPeerId) result) \<Rightarrow> Engine \<Rightarrow> 'x QuicEvent \<Rightarrow> Engine cxx" where
  "quic_step lib v e x = (if happens x e then quic_do lib v x e else Returns e)"

end
