(* ===== verification/Quic_Conn.thy ===== *)
theory Quic_Conn
  imports Quic
begin

text \<open>
  The connections of the QUIC engine: which calls wait and which have been answered, and the
  invariant of the connections and their contexts, with the lemmas that every callback and
  call keeps it.
\<close>

section \<open>Calls that wait\<close>

text \<open>
  Calls are numbered. \<open>W\<close> tells which call waits at a place; the others of the first \<open>n\<close>
  have been answered, each once.
\<close>

definition calls_ok :: "('k \<rightharpoonup> nat) \<Rightarrow> nat list \<Rightarrow> nat \<Rightarrow> bool" where
  "calls_ok W A n \<longleftrightarrow> inj_on W (dom W) \<and> distinct A \<and> ran W \<inter> set A = {} \<and> ran W \<union> set A = {..<n}"

lemma calls_ok_start: "calls_ok W A n \<Longrightarrow> W i = None \<Longrightarrow> calls_ok (W(i \<mapsto> n)) A (Suc n)"
proof -
  assume c: "calls_ok W A n" and i: "W i = None"
  have ran: "ran (W(i \<mapsto> n)) = insert n (ran W)" using i by (rule ran_map_upd)
  have new: "n \<notin> ran W" "n \<notin> set A" using c by (auto simp: calls_ok_def)
  have "inj_on (W(i \<mapsto> n)) (dom (W(i \<mapsto> n)))"
    using c i new(1) by (auto simp: calls_ok_def inj_on_def ran_def)
  then show ?thesis using c ran new(2) by (auto simp: calls_ok_def)
qed

lemma calls_ok_end: "calls_ok W A n \<Longrightarrow> W i = Some k \<Longrightarrow> calls_ok (W(i := None)) (A @ [k]) n"
proof -
  assume c: "calls_ok W A n" and i: "W i = Some k"
  have "ran W = insert k (ran (W(i := None)))" using i by (auto simp: ran_def) (metis option.inject)
  moreover have "k \<notin> ran (W(i := None))"
    using c i by (auto simp: calls_ok_def ran_def inj_on_def dom_def split: if_splits)
  moreover have "inj_on (W(i := None)) (dom (W(i := None)))"
    using c by (auto simp: calls_ok_def inj_on_def)
  ultimately show ?thesis using c by (auto simp: calls_ok_def)
qed

lemma calls_ok_at_once: "calls_ok W A n \<Longrightarrow> calls_ok W (A @ [n]) (Suc n)"
  by (auto simp: calls_ok_def)

definition conn_waits :: "Engine \<Rightarrow> nat \<rightharpoonup> nat" where
  "conn_waits e i = map_option co_call (Option.bind (map_of (en_ctxs e) i) cc_connecting)"

definition io_waits :: "Engine \<Rightarrow> nat \<times> bool \<rightharpoonup> nat" where
  "io_waits e x = Option.bind (map_of (en_stream_ctxs e) (fst x)) (if snd x then sc_writing else sc_reading)"

section \<open>Connections and their contexts\<close>

definition ctx_ok :: "Engine \<Rightarrow> nat \<Rightarrow> ConnCtx \<Rightarrow> bool" where
  "ctx_ok e i ctx \<longleftrightarrow>
     (\<forall>c. cc_conn ctx = Some c \<longrightarrow> c < length (en_conns e) \<and> (qc_alive (en_conns e ! c) \<longrightarrow> qc_ctx (en_conns e ! c) = Some i))
     \<and> (\<forall>x. cc_connecting ctx = Some x \<longrightarrow> cc_conn ctx = None \<and> co_peer x = en_dialed e ! co_call x)"

definition conn_ok :: "('x \<Rightarrow> (TlsError, PubkeyAndPeerId) result) \<Rightarrow> Engine \<Rightarrow> nat \<Rightarrow> bool" where
  "conn_ok v e c \<longleftrightarrow>
     (\<exists>cert. v cert = Inr \<lparr>pp_public_key = qc_key (en_conns e ! c), pp_peer_id = qc_peer (en_conns e ! c)\<rparr>)
     \<and> (\<forall>i. qc_alive (en_conns e ! c) \<longrightarrow> qc_ctx (en_conns e ! c) = Some i \<longrightarrow>
          (\<exists>ctx. map_of (en_ctxs e) i = Some ctx \<and> cc_conn ctx = Some c))"

definition reply_ok :: "Engine \<Rightarrow> nat \<times> (QuicFail, nat) result \<Rightarrow> bool" where
  "reply_ok e x \<longleftrightarrow> (\<forall>c. snd x = Inr c \<longrightarrow> c < length (en_conns e) \<and> qc_initiator (en_conns e ! c)
     \<and> PeerId_eq (qc_peer (en_conns e ! c)) (en_dialed e ! fst x))"

definition signal_ok :: "Engine \<Rightarrow> (QuicFail, nat) result \<Rightarrow> bool" where
  "signal_ok e r \<longleftrightarrow> (\<forall>c. r = Inr c \<longrightarrow> c < length (en_conns e) \<and> \<not> qc_initiator (en_conns e ! c))"

definition conn_inv :: "('x \<Rightarrow> (TlsError, PubkeyAndPeerId) result) \<Rightarrow> Engine \<Rightarrow> bool" where
  "conn_inv v e \<longleftrightarrow>
     en_connecting e = None
     \<and> (\<forall>i ctx. map_of (en_ctxs e) i = Some ctx \<longrightarrow> ctx_ok e i ctx)
     \<and> (\<forall>c < length (en_conns e). conn_ok v e c)
     \<and> calls_ok (conn_waits e) (map fst (en_answers e)) (length (en_dialed e))
     \<and> (\<forall>x \<in> set (en_answers e). reply_ok e x) \<and> (\<forall>r \<in> set (conn_signal e). signal_ok e r)"

text \<open>A step that leaves all this alone.\<close>

lemma conn_inv_frame:
  assumes "conn_inv v e" and "en_connecting e' = en_connecting e" and "en_ctxs e' = en_ctxs e" and "en_conns e' = en_conns e"
    and "en_dialed e' = en_dialed e" and "en_answers e' = en_answers e" and "conn_signal e' = conn_signal e"
  shows "conn_inv v e'"
  using assms by (simp add: conn_inv_def ctx_ok_def conn_ok_def reply_ok_def signal_ok_def conn_waits_def [abs_def])

lemma conn_waits_update: "conn_waits (set_ctx i ctx e) = (conn_waits e)(i := map_option co_call (cc_connecting ctx))"
  by (auto simp: conn_waits_def fun_eq_iff update_conv')

lemma conn_waits_delete: "conn_waits (e\<lparr>en_ctxs := AList.delete i (en_ctxs e)\<rparr>) = (conn_waits e)(i := None)"
  by (auto simp: conn_waits_def fun_eq_iff delete_conv')

lemma conn_waits_frame: "en_ctxs e' = en_ctxs e \<Longrightarrow> conn_waits e' = conn_waits e"
  by (simp add: conn_waits_def fun_eq_iff)

lemma conn_invD:
  assumes "conn_inv v e"
  shows "en_connecting e = None" and "\<And>i ctx. map_of (en_ctxs e) i = Some ctx \<Longrightarrow> ctx_ok e i ctx"
    and "\<And>c. c < length (en_conns e) \<Longrightarrow> conn_ok v e c"
    and "calls_ok (conn_waits e) (map fst (en_answers e)) (length (en_dialed e))"
    and "\<And>x. x \<in> set (en_answers e) \<Longrightarrow> reply_ok e x" and "\<And>r. r \<in> set (conn_signal e) \<Longrightarrow> signal_ok e r"
  using assms by (auto simp: conn_inv_def)

lemma answer_simps [simp]:
  "en_ctxs (answer op r e) = en_ctxs e" "en_conns (answer op r e) = en_conns e" "en_dialed (answer op r e) = en_dialed e"
  "en_connecting (answer op r e) = en_connecting e" "en_stream_ctxs (answer op r e) = en_stream_ctxs e"
  "en_streams (answer op r e) = en_streams e" "en_calls (answer op r e) = en_calls e" "en_results (answer op r e) = en_results e"
  "en_want_flush (answer op r e) = en_want_flush e"
  "conn_waits (answer op r e) = conn_waits e" "ctx_ok (answer op r e) = ctx_ok e" "conn_ok v (answer op r e) = conn_ok v e"
  "reply_ok (answer op r e) = reply_ok e" "signal_ok (answer op r e) = signal_ok e"
  by (simp_all add: answer_def conn_waits_def [abs_def] ctx_ok_def [abs_def] conn_ok_def [abs_def] reply_ok_def [abs_def]
      signal_ok_def [abs_def] split: option.split)

lemma answer_logs [simp]:
  "en_answers (answer (Some x) r e) = en_answers e @ [(co_call x, r)]" "conn_signal (answer (Some x) r e) = conn_signal e"
  "en_answers (answer None r e) = en_answers e" "conn_signal (answer None r e) = conn_signal e @ [r]"
  by (simp_all add: answer_def)

text \<open>The call that waits in a context is answered, or an inbound connection is reported.\<close>

lemma answer_inv:
  assumes "en_connecting e = None" and "\<And>j ctx. map_of (en_ctxs e) j = Some ctx \<Longrightarrow> ctx_ok e j ctx"
    and "\<And>c. c < length (en_conns e) \<Longrightarrow> conn_ok v e c"
    and "\<And>x. x \<in> set (en_answers e) \<Longrightarrow> reply_ok e x" and "\<And>s. s \<in> set (conn_signal e) \<Longrightarrow> signal_ok e s"
    and "calls_ok W (map fst (en_answers e)) (length (en_dialed e))" and "W i = map_option co_call op"
    and "conn_waits e = W(i := None)"
    and "\<And>x. op = Some x \<Longrightarrow> reply_ok e (co_call x, r)" and "op = None \<Longrightarrow> signal_ok e r"
  shows "conn_inv v (answer op r e)"
proof (cases op)
  case None
  then have "conn_waits e = W" using assms(7,8) by (auto simp: fun_eq_iff)
  with None assms show ?thesis by (auto simp: conn_inv_def)
next
  case (Some x)
  have "calls_ok (W(i := None)) (map fst (en_answers e) @ [co_call x]) (length (en_dialed e))"
    using assms(6,7) Some by (intro calls_ok_end) simp_all
  with Some assms show ?thesis by (auto simp: conn_inv_def)
qed

text \<open>Changing a context that has no connection.\<close>

lemma set_ctx_facts:
  assumes "conn_inv v e" and "map_of (en_ctxs e) i = Some ctx \<Longrightarrow> cc_conn ctx = None"
    and "cc_conn ctx' = None" and "\<And>x. cc_connecting ctx' = Some x \<Longrightarrow> co_peer x = en_dialed e ! co_call x"
  shows "\<And>j k. map_of (en_ctxs (set_ctx i ctx' e)) j = Some k \<Longrightarrow> ctx_ok (set_ctx i ctx' e) j k"
    and "(\<And>k. map_of (en_ctxs e) i = Some k \<Longrightarrow> k = ctx) \<Longrightarrow> c < length (en_conns e) \<Longrightarrow> conn_ok v (set_ctx i ctx' e) c"
proof -
  fix j k
  assume "map_of (en_ctxs (set_ctx i ctx' e)) j = Some k"
  with conn_invD(2) [OF assms(1)] assms(3,4) show "ctx_ok (set_ctx i ctx' e) j k"
    by (auto simp: ctx_ok_def update_conv' split: if_splits)
next
  assume "\<And>k. map_of (en_ctxs e) i = Some k \<Longrightarrow> k = ctx" "c < length (en_conns e)"
  with conn_invD(3) [OF assms(1), of c] assms(2) show "conn_ok v (set_ctx i ctx' e) c"
    by (fastforce simp: conn_ok_def update_conv')
qed

lemma reply_ok_frame: "en_conns e' = en_conns e \<Longrightarrow> en_dialed e' = en_dialed e \<Longrightarrow> reply_ok e' = reply_ok e"
  by (simp add: reply_ok_def [abs_def])

lemma signal_ok_frame: "en_conns e' = en_conns e \<Longrightarrow> signal_ok e' = signal_ok e"
  by (simp add: signal_ok_def [abs_def])

lemma hsk_failed_inv:
  assumes "conn_inv v e" and "map_of (en_ctxs e) i = Some ctx" and "cc_conn ctx = None"
  shows "conn_inv v (answer (cc_connecting ctx) (Inl f) (set_ctx i (ctx\<lparr>cc_connecting := None\<rparr>) e))"
proof -
  note d = conn_invD [OF assms(1)]
  let ?e = "set_ctx i (ctx\<lparr>cc_connecting := None\<rparr>) e"
  note s = set_ctx_facts [OF assms(1), of i ctx "ctx\<lparr>cc_connecting := None\<rparr>"]
  have cx: "ctx_ok ?e j k" if "map_of (en_ctxs ?e) j = Some k" for j k
    by (rule s(1) [OF _ _ _ that]) (simp_all add: assms(3))
  have cn: "conn_ok v ?e c" if "c < length (en_conns ?e)" for c
    by (rule s(2)) (use assms(2,3) that in simp_all)
  have an: "reply_ok ?e x" if "x \<in> set (en_answers ?e)" for x
  proof -
    have "reply_ok ?e = reply_ok e" by (rule reply_ok_frame) simp_all
    moreover have "x \<in> set (en_answers e)" using that by simp
    ultimately show ?thesis using d(5) by simp
  qed
  have sg: "signal_ok ?e r" if "r \<in> set (conn_signal ?e)" for r
  proof -
    have "signal_ok ?e = signal_ok e" by (rule signal_ok_frame) simp
    moreover have "r \<in> set (conn_signal e)" using that by simp
    ultimately show ?thesis using d(6) by simp
  qed
  show ?thesis
  proof (rule answer_inv [where W = "conn_waits e" and i = i])
    show "conn_waits e i = map_option co_call (cc_connecting ctx)" using assms(2) by (simp add: conn_waits_def)
    show "conn_waits ?e = (conn_waits e)(i := None)" by (simp add: conn_waits_update)
    show "reply_ok ?e (co_call x, Inl f)" for x by (simp add: reply_ok_def)
    show "signal_ok ?e (Inl f)" by (simp add: signal_ok_def)
  qed (use d(1,4) cx cn an sg in simp_all)
qed

text \<open>A connection is made for a context.\<close>

lemma conn_made_inv:
  assumes "conn_inv v e" and "map_of (en_ctxs e) i = Some ctx" and "cc_conn ctx = None"
    and "v cert = Inr \<lparr>pp_public_key = qc_key conn, pp_peer_id = qc_peer conn\<rparr>" and "qc_ctx conn = Some i"
    and "qc_initiator conn \<longleftrightarrow> cc_connecting ctx \<noteq> None" and "\<And>x. cc_connecting ctx = Some x \<Longrightarrow> PeerId_eq (qc_peer conn) (co_peer x)"
  shows "conn_inv v (answer (cc_connecting ctx) (Inr (length (en_conns e)))
    (set_ctx i (ctx\<lparr>cc_connecting := None, cc_conn := Some (length (en_conns e))\<rparr>) (e\<lparr>en_conns := en_conns e @ [conn]\<rparr>)))"
proof -
  note d = conn_invD [OF assms(1)]
  let ?c = "length (en_conns e)"
  let ?ctx = "ctx\<lparr>cc_connecting := None, cc_conn := Some ?c\<rparr>"
  let ?e = "set_ctx i ?ctx (e\<lparr>en_conns := en_conns e @ [conn]\<rparr>)"
  have nth: "en_conns ?e ! x = (if x = ?c then conn else en_conns e ! x)" if "x \<le> ?c" for x
    using that by (simp add: nth_append)
  have ctxs: "map_of (en_ctxs ?e) = (map_of (en_ctxs e))(i \<mapsto> ?ctx)" by (simp add: update_conv')
  have cx: "ctx_ok ?e j k" if "map_of (en_ctxs ?e) j = Some k" for j k
  proof (cases "j = i")
    case True
    with that ctxs have "k = ?ctx" by simp
    with True assms(5) show ?thesis by (simp add: ctx_ok_def nth_append)
  next
    case False
    with that ctxs d(2) [of j k] show ?thesis by (auto simp: ctx_ok_def nth_append)
  qed
  have cn: "conn_ok v ?e x" if "x < length (en_conns ?e)" for x
  proof (cases "x = ?c")
    case True
    then show ?thesis using assms(4,5) ctxs by (auto simp: conn_ok_def nth_append)
  next
    case False
    then have "x < ?c" using that by simp
    with d(3) [OF this] assms(2,3) ctxs show ?thesis by (fastforce simp: conn_ok_def nth_append)
  qed
  have an: "reply_ok ?e x" if "x \<in> set (en_answers e)" for x using d(5) [OF that] by (auto simp: reply_ok_def nth_append)
  have sg: "signal_ok ?e r" if "r \<in> set (conn_signal e)" for r using d(6) [OF that] by (auto simp: signal_ok_def nth_append)
  have peer: "PeerId_eq (qc_peer conn) (en_dialed e ! co_call x)" if "cc_connecting ctx = Some x" for x
    using d(2) [OF assms(2)] assms(7) [OF that] that by (simp add: ctx_ok_def)
  show ?thesis
  proof (rule answer_inv [where W = "conn_waits e" and i = i])
    show "conn_waits e i = map_option co_call (cc_connecting ctx)" using assms(2) by (simp add: conn_waits_def)
    show "conn_waits ?e = (conn_waits e)(i := None)"
      using conn_waits_frame [of "e\<lparr>en_conns := en_conns e @ [conn]\<rparr>" e] by (simp only: conn_waits_update) simp
    show "reply_ok ?e (co_call x, Inr ?c)" if "cc_connecting ctx = Some x" for x
      using peer [OF that] assms(6) that by (simp add: reply_ok_def nth_append)
    show "signal_ok ?e (Inr ?c)" if "cc_connecting ctx = None" using assms(6) that by (simp add: signal_ok_def nth_append)
  qed (use d(1,4) cx cn an sg in simp_all)
qed

lemma on_hsk_done_inv:
  assumes "conn_inv v e" and "map_of (en_ctxs e) i = Some ctx" and "cc_conn ctx = None"
    and "on_hsk_done lib v i ok cert remote e = Returns e'"
  shows "conn_inv v e'"
proof -
  note fail = hsk_failed_inv [OF assms(1-3)]
  show ?thesis
  proof (cases ok)
    case False
    with assms(2,4) fail show ?thesis by (auto simp: on_hsk_done_def Let_def)
  next
    case True
    show ?thesis
    proof (cases "v cert")
      case (Inl t)
      with True assms(2,4) fail show ?thesis by (auto simp: on_hsk_done_def Let_def)
    next
      case (Inr info)
      show ?thesis
      proof (cases "case cc_connecting ctx of Some x \<Rightarrow> PeerId_neq (pp_peer_id info) (co_peer x) | None \<Rightarrow> False")
        case True
        with \<open>ok\<close> Inr assms(2,4) fail show ?thesis by (auto simp: on_hsk_done_def Let_def)
      next
        case False
        then obtain addr where a: "makeQuicAddr lib remote = Returns (Inr addr)"
          and e': "e' = answer (cc_connecting ctx) (Inr (length (en_conns e)))
            (set_ctx i (ctx\<lparr>cc_connecting := None, cc_conn := Some (length (en_conns e))\<rparr>)
              (e\<lparr>en_conns := en_conns e @ [\<lparr>qc_ctx = Some i, qc_initiator = (cc_connecting ctx \<noteq> None), qc_remote = addr,
                  qc_peer = pp_peer_id info, qc_key = pp_public_key info, qc_alive = True, stream_signal = []\<rparr>]\<rparr>))"
        proof (cases "makeQuicAddr lib remote")
          case Throws
          with \<open>ok\<close> Inr assms(2,4) False show thesis by (simp add: on_hsk_done_def Let_def)
        next
          case (Returns r)
          with \<open>ok\<close> Inr assms(2,4) False that show thesis by (cases r) (auto simp: on_hsk_done_def Let_def)
        qed
        show ?thesis unfolding e'
          by (rule conn_made_inv [OF assms(1-3), where cert = cert])
            (use Inr False in \<open>auto simp: PeerId_neq_def split: option.splits\<close>)
      qed
    qed
  qed
qed

lemma fresh_ctx_inv:
  assumes "conn_inv v e" and "map_of (en_ctxs e) i = None"
  shows "conn_inv v (set_ctx i \<lparr>cc_connecting = None, cc_new_stream = None, cc_conn = None\<rparr> e)" (is "conn_inv v ?e")
proof -
  note d = conn_invD [OF assms(1)]
  have "conn_waits e i = None" using assms(2) by (simp add: conn_waits_def)
  then have w: "conn_waits ?e = conn_waits e" by (auto simp: conn_waits_update fun_eq_iff)
  have "conn_ok v ?e c" if "c < length (en_conns e)" for c
    using d(3) [OF that] assms(2) by (fastforce simp: conn_ok_def update_conv')
  moreover have "ctx_ok ?e j k" if "map_of (en_ctxs ?e) j = Some k" for j k
    using d(2) [of j k] that by (auto simp: ctx_ok_def update_conv' split: if_splits)
  ultimately show ?thesis using d w reply_ok_frame [of ?e e] signal_ok_frame [of ?e e] by (simp add: conn_inv_def)
qed

lemma on_new_conn_inv:
  assumes "conn_inv v e" and "\<not> has_ctx e i" and "on_new_conn lib v i cert remote e = Returns e'"
  shows "conn_inv v e'"
proof -
  let ?e1 = "e\<lparr>en_connecting := None\<rparr>"
  let ?e = "set_ctx i \<lparr>cc_connecting = None, cc_new_stream = None, cc_conn = None\<rparr> ?e1"
  have c: "en_connecting e = None" using conn_invD(1) [OF assms(1)] .
  have "conn_inv v ?e1" using assms(1) by (rule conn_inv_frame) (simp_all add: c)
  from fresh_ctx_inv [OF this] assms(2) have "conn_inv v ?e" by simp
  moreover have "on_hsk_done lib v i True cert remote ?e = Returns e'" using assms(3) c by (simp add: on_new_conn_def Let_def)
  ultimately show ?thesis
    using on_hsk_done_inv [of v ?e i "\<lparr>cc_connecting = None, cc_new_stream = None, cc_conn = None\<rparr>"] by (simp add: update_conv')
qed

lemma dialed_inv:
  assumes "conn_inv v e"
  shows "ctx_ok e i ctx \<Longrightarrow> cc_connecting ctx = None \<or> co_call (the (cc_connecting ctx)) < length (en_dialed e)
      \<Longrightarrow> ctx_ok (e\<lparr>en_dialed := en_dialed e @ [peer]\<rparr>) i ctx"
    and "x \<in> set (en_answers e) \<Longrightarrow> reply_ok (e\<lparr>en_dialed := en_dialed e @ [peer]\<rparr>) x"
proof -
  show "ctx_ok (e\<lparr>en_dialed := en_dialed e @ [peer]\<rparr>) i ctx"
    if "ctx_ok e i ctx" "cc_connecting ctx = None \<or> co_call (the (cc_connecting ctx)) < length (en_dialed e)"
    using that by (auto simp: ctx_ok_def nth_append)
  show "reply_ok (e\<lparr>en_dialed := en_dialed e @ [peer]\<rparr>) x" if "x \<in> set (en_answers e)"
  proof -
    have "fst x < length (en_dialed e)" using conn_invD(4) [OF assms] that by (auto simp: calls_ok_def)
    with conn_invD(5) [OF assms that] show ?thesis by (simp add: reply_ok_def nth_append)
  qed
qed

lemma connect_inv:
  assumes "conn_inv v e" and "case made of None \<Rightarrow> True | Some (i, _) \<Rightarrow> \<not> has_ctx e i" and "connect lib v peer made e = Returns e'"
  shows "conn_inv v e'"
proof -
  note d = conn_invD [OF assms(1)]
  let ?k = "length (en_dialed e)" and ?x = "\<lparr>co_call = length (en_dialed e), co_peer = peer\<rparr>"
  let ?e0 = "e\<lparr>en_started := True, en_dialed := en_dialed e @ [peer], en_connecting := None\<rparr>"
  have cl: "co_call x < ?k" if "map_of (en_ctxs e) j = Some ctx" "cc_connecting ctx = Some x" for j ctx x
  proof -
    have "conn_waits e j = Some (co_call x)" using that by (simp add: conn_waits_def)
    then have "co_call x \<in> ran (conn_waits e)" by (rule ranI)
    then show ?thesis using d(4) by (auto simp: calls_ok_def)
  qed
  have cx: "ctx_ok ?e0 j ctx" if "map_of (en_ctxs e) j = Some ctx" for j ctx
    using d(2) [OF that] cl [OF that] by (auto simp: ctx_ok_def nth_append)
  have cn: "conn_ok v ?e0 c" if "c < length (en_conns e)" for c using d(3) [OF that] by (simp add: conn_ok_def)
  have an: "reply_ok ?e0 x" if "x \<in> set (en_answers e)" for x
    using dialed_inv(2) [OF assms(1) that, of peer] by (simp add: reply_ok_def)
  have sg: "signal_ok ?e0 r" if "r \<in> set (conn_signal e)" for r using d(6) [OF that] by (simp add: signal_ok_def)
  have w0: "conn_waits ?e0 = conn_waits e" by (rule conn_waits_frame) simp
  show ?thesis
  proof (cases made)
    case None
    let ?e1 = "answer (Some ?x) (Inl (Quic CANT_CREATE_CONNECTION)) ?e0"
    have "e' = wantProcess ?e1"
      using assms(3) None d(1) by (simp add: connect_def Let_def answer_def)
    moreover have "conn_inv v ?e1"
      using d(1) cx cn an sg w0 calls_ok_at_once [OF d(4)] unfolding conn_inv_def
      by (auto simp: reply_ok_def [of _ "(_, Inl _)"])
    ultimately show ?thesis by (simp add: conn_inv_frame wantProcess_def)
  next
    case (Some m)
    obtain i cert remote where m: "m = (i, cert, remote)" by (cases m) auto
    have new: "map_of (en_ctxs e) i = None" using assms(2) Some m by simp
    let ?e1 = "set_ctx i \<lparr>cc_connecting = Some ?x, cc_new_stream = None, cc_conn = None\<rparr> ?e0"
    have "e' = wantProcess ?e1"
      using assms(3) Some m d(1) by (auto simp: connect_def Let_def on_new_conn_def)
    moreover have "conn_inv v ?e1"
    proof -
      have "conn_waits e i = None" using new by (simp add: conn_waits_def)
      then have "calls_ok ((conn_waits e)(i \<mapsto> ?k)) (map fst (en_answers e)) (Suc ?k)" using d(4) by (intro calls_ok_start)
      moreover have "conn_waits ?e1 = (conn_waits e)(i \<mapsto> ?k)" unfolding conn_waits_update w0 by simp
      moreover have "ctx_ok ?e1 j k" if "map_of (en_ctxs ?e1) j = Some k" for j k
      proof (cases "j = i")
        case True
        then show ?thesis using that by (auto simp: update_conv' ctx_ok_def nth_append)
      next
        case False
        then have "ctx_ok ?e0 j k" using that cx by (simp add: update_conv')
        then show ?thesis by (simp add: ctx_ok_def)
      qed
      moreover have "conn_ok v ?e1 c" if "c < length (en_conns e)" for c
        using cn [OF that] new by (fastforce simp: conn_ok_def update_conv')
      ultimately show ?thesis
        using d(1) an sg reply_ok_frame [of ?e1 ?e0] signal_ok_frame [of ?e1 ?e0] by (simp add: conn_inv_def)
    qed
    ultimately show ?thesis by (simp add: conn_inv_frame wantProcess_def)
  qed
qed

text \<open>The end of a connection.\<close>

lemma upd_conn_inv:
  assumes "conn_inv v e" and "\<And>x. qc_initiator (f x) = qc_initiator x" and "\<And>x. qc_peer (f x) = qc_peer x"
    and "\<And>x. qc_key (f x) = qc_key x" and "\<And>x. qc_ctx (f x) = qc_ctx x" and "\<And>x. qc_alive (f x) \<Longrightarrow> qc_alive x"
  shows "conn_inv v (upd_conn c f e)"
proof -
  note d = conn_invD [OF assms(1)]
  let ?e = "upd_conn c f e"
  have nth: "en_conns ?e ! x = (if x = c \<and> c < length (en_conns e) then f (en_conns e ! x) else en_conns e ! x)" for x
    by (cases "c < length (en_conns e)") (simp_all add: nth_list_update list_update_beyond)
  have "ctx_ok ?e j k" if "map_of (en_ctxs e) j = Some k" for j k
    using d(2) [OF that] assms(5,6) unfolding ctx_ok_def nth by auto
  moreover have "conn_ok v ?e x" if "x < length (en_conns e)" for x
    using d(3) [OF that] assms(3-6) unfolding conn_ok_def nth by (auto split: if_splits)
  moreover have "reply_ok ?e x" if "x \<in> set (en_answers e)" for x
    using d(5) [OF that] assms(2,3) unfolding reply_ok_def nth by auto
  moreover have "signal_ok ?e x" if "x \<in> set (conn_signal e)" for x
    using d(6) [OF that] assms(2) unfolding signal_ok_def nth by auto
  moreover have "conn_waits ?e = conn_waits e" by (rule conn_waits_frame) simp
  ultimately show ?thesis using d(1,4) by (simp add: conn_inv_def)
qed

lemma closed_inv:
  assumes "conn_inv v e" and "map_of (en_ctxs e) i = Some ctx" and "cc_connecting ctx = None"
    and "en_ctxs e' = AList.delete i (en_ctxs e)" and "length (en_conns e') = length (en_conns e)"
    and conns: "\<And>x. x < length (en_conns e) \<Longrightarrow>
      qc_initiator (en_conns e' ! x) = qc_initiator (en_conns e ! x) \<and> qc_peer (en_conns e' ! x) = qc_peer (en_conns e ! x)
      \<and> qc_key (en_conns e' ! x) = qc_key (en_conns e ! x) \<and> qc_alive (en_conns e' ! x) = qc_alive (en_conns e ! x)
      \<and> qc_ctx (en_conns e' ! x) = (if qc_alive (en_conns e ! x) \<and> cc_conn ctx = Some x then None else qc_ctx (en_conns e ! x))"
    and "en_connecting e' = en_connecting e" and "en_dialed e' = en_dialed e" and "en_answers e' = en_answers e"
    and "conn_signal e' = conn_signal e"
  shows "conn_inv v e'"
proof -
  note d = conn_invD [OF assms(1)]
  have ctxs: "map_of (en_ctxs e') = (map_of (en_ctxs e))(i := None)" by (simp add: assms(4) delete_conv')
  have "ctx_ok e' j k" if j: "map_of (en_ctxs e') j = Some k" for j k
  proof -
    have jk: "j \<noteq> i" "map_of (en_ctxs e) j = Some k" using j ctxs by (auto split: if_splits)
    have "qc_ctx (en_conns e' ! c) = Some j" if "cc_conn k = Some c" "qc_alive (en_conns e' ! c)" for c
    proof -
      have c: "c < length (en_conns e)" "qc_alive (en_conns e ! c)" "qc_ctx (en_conns e ! c) = Some j"
        using d(2) [OF jk(2)] that conns [of c] by (auto simp: ctx_ok_def)
      moreover have "cc_conn ctx \<noteq> Some c" using d(2) [OF assms(2)] c jk(1) by (auto simp: ctx_ok_def)
      ultimately show ?thesis using conns [OF c(1)] by simp
    qed
    with d(2) [OF jk(2)] assms(5,8) show ?thesis by (auto simp: ctx_ok_def)
  qed
  moreover have "conn_ok v e' c" if c: "c < length (en_conns e')" for c
  proof -
    note cc = conns [of c] c assms(5)
    have "\<exists>k. map_of (en_ctxs e') j = Some k \<and> cc_conn k = Some c"
      if "qc_alive (en_conns e' ! c)" "qc_ctx (en_conns e' ! c) = Some j" for j
    proof -
      have "qc_alive (en_conns e ! c)" "qc_ctx (en_conns e ! c) = Some j" "cc_conn ctx \<noteq> Some c"
        using that cc by (auto split: if_splits)
      moreover from this obtain k where k: "map_of (en_ctxs e) j = Some k" "cc_conn k = Some c"
        using d(3) [of c] c assms(5) by (auto simp: conn_ok_def)
      moreover have "j \<noteq> i" using k assms(2) calculation(3) by auto
      ultimately show ?thesis using ctxs by simp
    qed
    with d(3) [of c] cc show ?thesis by (auto simp: conn_ok_def)
  qed
  moreover have "reply_ok e' x" if "x \<in> set (en_answers e)" for x
    using d(5) [OF that] conns assms(5,8) by (auto simp: reply_ok_def)
  moreover have "signal_ok e' x" if "x \<in> set (conn_signal e)" for x
    using d(6) [OF that] conns assms(5) by (auto simp: signal_ok_def)
  moreover have "conn_waits e' = conn_waits e"
    using assms(2,3) ctxs by (auto simp: conn_waits_def fun_eq_iff)
  ultimately show ?thesis using d(1,4) assms(7-10) by (simp add: conn_inv_def)
qed

lemma on_conn_closed_inv:
  assumes "conn_inv v e" and "on_conn_closed i e = Returns e'"
  shows "conn_inv v e'"
proof -
  obtain ctx where ctx: "map_of (en_ctxs e) i = Some ctx" using assms(2) by (cases "map_of (en_ctxs e) i") (simp_all add: on_conn_closed_def)
  note d = conn_invD [OF assms(1)]
  show ?thesis
  proof (cases "cc_connecting ctx")
    case (Some x)
    then have "cc_conn ctx = None" using d(2) [OF ctx] by (simp add: ctx_ok_def)
    let ?e = "e\<lparr>en_ctxs := AList.delete i (en_ctxs e)\<rparr>"
    have e': "e' = (answer (Some x) (Inl (Quic CONN_CLOSED)) e)\<lparr>en_ctxs := AList.delete i (en_ctxs e)\<rparr>"
      using assms(2) ctx Some \<open>cc_conn ctx = None\<close> by (simp add: on_conn_closed_def lock_conn_def Let_def)
    have cx: "ctx_ok ?e j k" if "map_of (en_ctxs ?e) j = Some k" for j k
      using d(2) [of j k] that by (auto simp: ctx_ok_def delete_conv' split: if_splits)
    have cn: "conn_ok v ?e c" if "c < length (en_conns ?e)" for c
      using d(3) [of c] that ctx \<open>cc_conn ctx = None\<close> by (fastforce simp: conn_ok_def delete_conv')
    have an: "reply_ok ?e x" if "x \<in> set (en_answers ?e)" for x using d(5) [of x] that by (simp add: reply_ok_def)
    have sg: "signal_ok ?e r" if "r \<in> set (conn_signal ?e)" for r using d(6) [of r] that by (simp add: signal_ok_def)
    have "conn_inv v (answer (Some x) (Inl (Quic CONN_CLOSED)) ?e)"
    proof (rule answer_inv [where W = "conn_waits e" and i = i])
      show "conn_waits e i = map_option co_call (Some x)" using ctx Some by (simp add: conn_waits_def)
      show "conn_waits ?e = (conn_waits e)(i := None)" by (rule conn_waits_delete)
      show "reply_ok ?e (co_call y, Inl (Quic CONN_CLOSED))" for y by (simp add: reply_ok_def)
    qed (use d(1,4) cx cn an sg in simp_all)
    then show ?thesis by (rule conn_inv_frame) (simp_all add: e')
  next
    case None
    then show ?thesis
    proof (cases "lock_conn ctx e")
      case (Some c)
      then have "cc_conn ctx = Some c" "qc_alive (en_conns e ! c)" by (auto simp: lock_conn_def split: option.splits if_splits)
      then show ?thesis using assms(2) ctx None Some d(2) [OF ctx]
        by (intro closed_inv [OF assms(1) ctx None])
          (auto simp: on_conn_closed_def Let_def quic_onClose_def nth_list_update ctx_ok_def split: if_splits)
    next
      case N: None
      then have "cc_conn ctx = Some c \<Longrightarrow> \<not> qc_alive (en_conns e ! c)" for c by (auto simp: lock_conn_def split: if_splits)
      then show ?thesis using assms(2) ctx None N
        by (intro closed_inv [OF assms(1) ctx None]) (auto simp: on_conn_closed_def Let_def)
    qed
  qed
qed

lemma drop_conn_inv: "conn_inv v e \<Longrightarrow> conn_inv v (drop_conn c e)"
  unfolding drop_conn_def by (rule upd_conn_inv) auto

text \<open>Streams are opened on a connection.\<close>

lemma new_stream_mark_inv:
  assumes "conn_inv v e" and "map_of (en_ctxs e) i = Some ctx"
  shows "conn_inv v (set_ctx i (ctx\<lparr>cc_new_stream := x\<rparr>) e)" (is "conn_inv v ?e")
proof -
  note d = conn_invD [OF assms(1)]
  have "conn_waits ?e = conn_waits e" using assms(2) by (auto simp: conn_waits_update fun_eq_iff conn_waits_def)
  moreover have "ctx_ok ?e j k" if "map_of (en_ctxs ?e) j = Some k" for j k
    using d(2) [of j] assms(2) that by (auto simp: ctx_ok_def update_conv' split: if_splits)
  moreover have "conn_ok v ?e c" if "c < length (en_conns e)" for c
    using d(3) [OF that] assms(2) by (fastforce simp: conn_ok_def update_conv')
  ultimately show ?thesis using d reply_ok_frame [of ?e e] signal_ok_frame [of ?e e] by (simp add: conn_inv_def)
qed

lemma on_new_stream_inv:
  assumes "conn_inv v e" and "on_new_stream i j e = Returns e'"
  shows "conn_inv v e'"
proof -
  obtain ctx where ctx: "map_of (en_ctxs e) i = Some ctx" using assms(2) by (cases "map_of (en_ctxs e) i") (simp_all add: on_new_stream_def)
  show ?thesis
  proof (cases "lock_conn ctx e")
    case None
    then show ?thesis using assms(2) ctx by (auto simp: on_new_stream_def Let_def intro: conn_inv_frame [OF assms(1)])
  next
    case (Some c)
    let ?f = "\<lambda>x. x\<lparr>stream_signal := stream_signal x @ [Inr (length (en_streams e))]\<rparr>"
    have 1: "conn_inv v (upd_conn c ?f e)" using assms(1) by (rule upd_conn_inv) auto
    show ?thesis
    proof (cases "cc_new_stream ctx")
      case None
      then show ?thesis using assms(2) ctx Some by (auto simp: on_new_stream_def Let_def intro: conn_inv_frame [OF 1])
    next
      case (Some y)
      then show ?thesis using assms(2) ctx \<open>lock_conn ctx e = Some c\<close>
        by (auto simp: on_new_stream_def Let_def
            intro: conn_inv_frame [OF new_stream_mark_inv [OF assms(1) ctx, of "Some (Some (length (en_streams e)))"]])
    qed
  qed
qed

end
