(* ===== verification/Quic_Props.thy ===== *)
theory Quic_Props
  imports Quic_Conn
begin

text \<open>
  The streams of the QUIC engine, the invariant of the whole engine, and what follows: the
  pointers between connections, streams and their contexts stay valid, every call that waits
  is answered once, and the peer of a connection is the one its certificate proves and, for a
  connection that was dialed, the one that was dialed.
\<close>

section \<open>Streams and their contexts\<close>

definition stream_ptrs :: "Engine \<Rightarrow> bool" where
  "stream_ptrs e \<longleftrightarrow>
     (\<forall>j ctx s. map_of (en_stream_ctxs e) j = Some ctx \<longrightarrow> sc_stream ctx = Some s \<longrightarrow>
        s < length (en_streams e) \<and> (qs_alive (en_streams e ! s) \<longrightarrow> qs_ctx (en_streams e ! s) = Some j))
     \<and> (\<forall>s < length (en_streams e). \<forall>j. qs_alive (en_streams e ! s) \<longrightarrow> qs_ctx (en_streams e ! s) = Some j \<longrightarrow>
        (\<exists>ctx. map_of (en_stream_ctxs e) j = Some ctx \<and> sc_stream ctx = Some s))
     \<and> (\<forall>s \<in> set (en_want_flush e). s < length (en_streams e))"

text \<open>\<open>A\<close> are the calls that run at the moment.\<close>

definition stream_inv :: "nat list \<Rightarrow> Engine \<Rightarrow> bool" where
  "stream_inv A e \<longleftrightarrow> stream_ptrs e \<and> calls_ok (io_waits e) (map fst (en_results e) @ A) (en_calls e)"

lemma calls_ok_wait: "calls_ok W (A @ [k]) n \<Longrightarrow> W i = None \<Longrightarrow> calls_ok (W(i \<mapsto> k)) A n"
proof -
  assume c: "calls_ok W (A @ [k]) n" and i: "W i = None"
  have ran: "ran (W(i \<mapsto> k)) = insert k (ran W)" using i by (rule ran_map_upd)
  have new: "k \<notin> ran W" "k \<notin> set A" using c by (auto simp: calls_ok_def)
  have "inj_on (W(i \<mapsto> k)) (dom (W(i \<mapsto> k)))"
    using c i new(1) by (auto simp: calls_ok_def inj_on_def ran_def)
  then show ?thesis using c ran new(2) by (auto simp: calls_ok_def)
qed

lemma io_waits_update:
  "io_waits (set_stream_ctx j ctx e) = (io_waits e)((j, False) := sc_reading ctx, (j, True) := sc_writing ctx)"
  by (auto simp: io_waits_def fun_eq_iff update_conv')

lemma io_waits_frame: "en_stream_ctxs e' = en_stream_ctxs e \<Longrightarrow> io_waits e' = io_waits e"
  by (simp add: io_waits_def fun_eq_iff)

lemma io_waits_at:
  "map_of (en_stream_ctxs e) j = Some ctx \<Longrightarrow> io_waits e (j, False) = sc_reading ctx \<and> io_waits e (j, True) = sc_writing ctx"
  by (simp add: io_waits_def)

lemma stream_ptrs_set:
  assumes "stream_ptrs e" and "map_of (en_stream_ctxs e) j = Some ctx" and "sc_stream ctx' = sc_stream ctx"
  shows "stream_ptrs (set_stream_ctx j ctx' e)"
proof -
  have m: "map_of (en_stream_ctxs (set_stream_ctx j ctx' e)) = (map_of (en_stream_ctxs e))(j \<mapsto> ctx')" by (simp add: update_conv')
  show ?thesis using assms unfolding stream_ptrs_def m by (simp add: assms(3)) (metis option.inject)
qed

lemma result_of_inv: "stream_inv [call] e \<Longrightarrow> stream_inv [] (result_of call r e)"
  by (simp add: stream_inv_def result_of_def stream_ptrs_def io_waits_def [abs_def])

lemma read_turn_inv:
  assumes "stream_inv [call] e" and "map_of (en_stream_ctxs e) j = Some ctx" and "sc_reading ctx = None"
  shows "\<exists>e'. read_turn call n j e = Returns e' \<and> stream_inv [] e' \<and> has_stream_ctx e' j
    \<and> (n \<noteq> Ls_again \<longrightarrow> io_waits e' = io_waits e \<and> en_stream_ctxs e' = en_stream_ctxs e)"
proof (cases n)
  case Ls_again
  let ?e = "set_stream_ctx j (ctx\<lparr>sc_reading := Some call\<rparr>) e"
  note at = io_waits_at [OF assms(2)]
  have "io_waits ?e = (io_waits e)((j, False) \<mapsto> call)"
    using at by (auto simp: io_waits_update fun_eq_iff)
  moreover have "calls_ok ((io_waits e)((j, False) \<mapsto> call)) (map fst (en_results e)) (en_calls e)"
    using assms(1,3) at by (intro calls_ok_wait) (simp_all add: stream_inv_def)
  moreover have "stream_ptrs ?e" using stream_ptrs_set [OF _ assms(2)] assms(1) by (simp add: stream_inv_def)
  ultimately show ?thesis using Ls_again assms(2) by (simp add: read_turn_def stream_inv_def update_conv')
qed (use assms result_of_inv [OF assms(1)] in \<open>auto simp: read_turn_def result_of_def io_waits_def [abs_def]\<close>)

lemma wantFlush_inv:
  assumes "stream_inv A e" and "map_of (en_stream_ctxs e) j = Some ctx"
  shows "\<exists>e'. wantFlush j e = Returns e' \<and> stream_inv A e' \<and> io_waits e' = io_waits e
    \<and> (\<exists>ctx'. map_of (en_stream_ctxs e') j = Some ctx' \<and> sc_writing ctx' = sc_writing ctx \<and> sc_reading ctx' = sc_reading ctx)"
proof (cases "sc_want_flush ctx")
  case True
  then show ?thesis using assms by (simp add: wantFlush_def)
next
  case False
  let ?e = "set_stream_ctx j (ctx\<lparr>sc_want_flush := True\<rparr>) e"
  have w: "io_waits ?e = io_waits e" using io_waits_at [OF assms(2)] by (auto simp: io_waits_update fun_eq_iff)
  have p: "stream_ptrs ?e" using stream_ptrs_set [OF _ assms(2)] assms(1) by (simp add: stream_inv_def)
  have i: "stream_inv A ?e" using p w assms(1) by (simp add: stream_inv_def)
  show ?thesis
  proof (cases "lock_stream ctx ?e")
    case None
    then show ?thesis using i w False assms(2) by (simp add: wantFlush_def Let_def update_conv')
  next
    case (Some s)
    let ?e' = "wantProcess (?e\<lparr>en_want_flush := en_want_flush ?e @ [s]\<rparr>)"
    have "sc_stream ctx = Some s" using Some by (auto simp: lock_stream_def split: option.splits if_splits)
    then have "s < length (en_streams e)" using assms by (auto simp: stream_inv_def stream_ptrs_def)
    then have "stream_ptrs ?e'" using p by (auto simp: stream_ptrs_def wantProcess_def)
    moreover have "io_waits ?e' = io_waits e" using io_waits_frame [of ?e' ?e] w by (simp add: wantProcess_def)
    ultimately have "stream_inv A ?e'" using assms(1) by (simp add: stream_inv_def wantProcess_def)
    then show ?thesis using Some False assms(2) \<open>io_waits ?e' = io_waits e\<close>
      by (simp add: wantFlush_def Let_def update_conv' wantProcess_def)
  qed
qed

lemma write_turn_inv:
  assumes "stream_inv [call] e" and "map_of (en_stream_ctxs e) j = Some ctx" and "sc_writing ctx = None"
  shows "\<exists>e'. write_turn call n j e = Returns e' \<and> stream_inv [] e' \<and> has_stream_ctx e' j
    \<and> (n \<noteq> Ls_again \<longrightarrow> io_waits e' = io_waits e)"
proof -
  obtain e1 ctx1 where e1: "wantFlush j e = Returns e1" "stream_inv [call] e1" "io_waits e1 = io_waits e"
      "map_of (en_stream_ctxs e1) j = Some ctx1" "sc_writing ctx1 = None"
    using wantFlush_inv [OF assms(1,2)] assms(3) by auto
  show ?thesis
  proof (cases n)
    case Ls_again
    let ?e = "set_stream_ctx j (ctx1\<lparr>sc_writing := Some call\<rparr>) e1"
    note at = io_waits_at [OF e1(4)]
    have "io_waits ?e = (io_waits e1)((j, True) \<mapsto> call)" using at by (auto simp: io_waits_update fun_eq_iff)
    moreover have "calls_ok ((io_waits e1)((j, True) \<mapsto> call)) (map fst (en_results e1)) (en_calls e1)"
      using e1(2,5) at by (intro calls_ok_wait) (simp_all add: stream_inv_def)
    moreover have "stream_ptrs ?e" using stream_ptrs_set [OF _ e1(4)] e1(2) by (simp add: stream_inv_def)
    ultimately show ?thesis using Ls_again e1 by (simp add: write_turn_def stream_inv_def update_conv')
  qed (use e1 result_of_inv [OF e1(2)] in \<open>auto simp: write_turn_def result_of_def io_waits_def [abs_def]\<close>)
qed

lemma call_starts:
  "stream_inv [] e \<Longrightarrow> stream_inv [en_calls e] (e\<lparr>en_calls := en_calls e + 1\<rparr>)"
  using calls_ok_at_once [of "io_waits e" "map fst (en_results e)" "en_calls e"]
  by (simp add: stream_inv_def stream_ptrs_def io_waits_def [abs_def])

lemma held_stream_ctx:
  assumes "stream_inv A e" and "held_stream e s" and "qs_ctx (en_streams e ! s) = Some j"
  shows "\<exists>ctx. map_of (en_stream_ctxs e) j = Some ctx"
  using assms unfolding stream_inv_def stream_ptrs_def by blast

lemma readSome_inv:
  assumes "stream_inv [] e" and "held_stream e s"
  shows "\<exists>e'. readSome n s e = Returns e' \<and> stream_inv [] e'"
proof -
  let ?e = "e\<lparr>en_calls := en_calls e + 1\<rparr>"
  note c = call_starts [OF assms(1)]
  show ?thesis
  proof (cases "qs_ctx (en_streams e ! s)")
    case None
    then show ?thesis using result_of_inv [OF c] by (simp add: readSome_def Let_def)
  next
    case (Some j)
    then obtain ctx where ctx: "map_of (en_stream_ctxs e) j = Some ctx" using held_stream_ctx [OF assms] by blast
    show ?thesis
    proof (cases "sc_reading ctx")
      case None
      with read_turn_inv [OF c, of j ctx n] Some ctx show ?thesis by (auto simp: readSome_def Let_def)
    qed (use Some ctx result_of_inv [OF c] in \<open>simp add: readSome_def Let_def\<close>)
  qed
qed

lemma writeSome_inv:
  assumes "stream_inv [] e" and "held_stream e s"
  shows "\<exists>e'. writeSome n s e = Returns e' \<and> stream_inv [] e'"
proof -
  let ?e = "e\<lparr>en_calls := en_calls e + 1\<rparr>"
  note c = call_starts [OF assms(1)]
  show ?thesis
  proof (cases "qs_ctx (en_streams e ! s)")
    case None
    then show ?thesis using result_of_inv [OF c] by (simp add: writeSome_def Let_def)
  next
    case (Some j)
    then obtain ctx where ctx: "map_of (en_stream_ctxs e) j = Some ctx" using held_stream_ctx [OF assms] by blast
    show ?thesis
    proof (cases "sc_writing ctx")
      case None
      with write_turn_inv [OF c, of j ctx n] Some ctx show ?thesis by (auto simp: writeSome_def Let_def)
    qed (use Some ctx result_of_inv [OF c] in \<open>simp add: writeSome_def Let_def\<close>)
  qed
qed

text \<open>A waiting call goes on.\<close>

lemma resumed_inv:
  assumes "stream_inv [] e" and "map_of (en_stream_ctxs e) j = Some ctx" and "io_waits e (j, w) = Some call"
  shows "stream_inv [call] (set_stream_ctx j (if w then ctx\<lparr>sc_writing := None\<rparr> else ctx\<lparr>sc_reading := None\<rparr>) e)"
proof -
  let ?ctx = "if w then ctx\<lparr>sc_writing := None\<rparr> else ctx\<lparr>sc_reading := None\<rparr>"
  have "io_waits (set_stream_ctx j ?ctx e) = (io_waits e)((j, w) := None)"
    using io_waits_at [OF assms(2)] by (auto simp: io_waits_update fun_eq_iff)
  moreover have "calls_ok ((io_waits e)((j, w) := None)) (map fst (en_results e) @ [call]) (en_calls e)"
    using assms(1,3) by (intro calls_ok_end) (simp_all add: stream_inv_def)
  moreover have "stream_ptrs (set_stream_ctx j ?ctx e)"
    using assms(1) by (intro stream_ptrs_set [OF _ assms(2)]) (simp_all add: stream_inv_def)
  ultimately show ?thesis by (simp add: stream_inv_def)
qed

lemma on_read_inv:
  assumes "stream_inv [] e" and "has_stream_ctx e j"
  shows "\<exists>e'. on_read n j e = Returns e' \<and> stream_inv [] e' \<and> has_stream_ctx e' j \<and> (n \<noteq> Ls_again \<longrightarrow> io_waits e' (j, False) = None)"
proof -
  obtain ctx where ctx: "map_of (en_stream_ctxs e) j = Some ctx" using assms(2) by auto
  note at = io_waits_at [OF ctx]
  show ?thesis
  proof (cases "sc_reading ctx")
    case None
    then show ?thesis using assms ctx at by (simp add: on_read_def)
  next
    case (Some call)
    let ?e = "set_stream_ctx j (ctx\<lparr>sc_reading := None\<rparr>) e"
    have "stream_inv [call] ?e" using resumed_inv [OF assms(1) ctx, of False call] Some at by simp
    then obtain e' where e': "read_turn call n j ?e = Returns e'" "stream_inv [] e'" "has_stream_ctx e' j"
        "n \<noteq> Ls_again \<longrightarrow> io_waits e' = io_waits ?e"
      using read_turn_inv [of call ?e j "ctx\<lparr>sc_reading := None\<rparr>" n] by (auto simp: update_conv')
    then have "n \<noteq> Ls_again \<longrightarrow> io_waits e' (j, False) = None" by (auto simp: io_waits_update)
    then show ?thesis using e' ctx Some by (simp add: on_read_def)
  qed
qed

lemma on_write_inv:
  assumes "stream_inv [] e" and "has_stream_ctx e j"
  shows "\<exists>e'. on_write n j e = Returns e' \<and> stream_inv [] e' \<and> has_stream_ctx e' j
    \<and> (n \<noteq> Ls_again \<longrightarrow> io_waits e' (j, True) = None \<and> io_waits e' (j, False) = io_waits e (j, False))"
proof -
  obtain ctx where ctx: "map_of (en_stream_ctxs e) j = Some ctx" using assms(2) by auto
  note at = io_waits_at [OF ctx]
  show ?thesis
  proof (cases "sc_writing ctx")
    case None
    then show ?thesis using assms ctx at by (simp add: on_write_def)
  next
    case (Some call)
    let ?e = "set_stream_ctx j (ctx\<lparr>sc_writing := None\<rparr>) e"
    have "stream_inv [call] ?e" using resumed_inv [OF assms(1) ctx, of True call] Some at by simp
    then obtain e' where e': "write_turn call n j ?e = Returns e'" "stream_inv [] e'" "has_stream_ctx e' j"
        "n \<noteq> Ls_again \<longrightarrow> io_waits e' = io_waits ?e"
      using write_turn_inv [of call ?e j "ctx\<lparr>sc_writing := None\<rparr>" n] by (auto simp: update_conv')
    then have "n \<noteq> Ls_again \<longrightarrow> io_waits e' (j, True) = None \<and> io_waits e' (j, False) = io_waits e (j, False)"
      using at by (auto simp: io_waits_update)
    then show ?thesis using e' ctx Some by (simp add: on_write_def)
  qed
qed

lemma stream_end_inv:
  assumes "stream_inv A e" and "map_of (en_stream_ctxs e) j = Some ctx" and "io_waits e (j, False) = None" and "io_waits e (j, True) = None"
    and "e3 = (case lock_stream ctx e of None \<Rightarrow> e | Some s \<Rightarrow> stream_onClose s e)"
  shows "stream_inv A (e3\<lparr>en_stream_ctxs := AList.delete j (en_stream_ctxs e3)\<rparr>)" (is "stream_inv A ?e")
proof -
  have p: "stream_ptrs e" using assms(1) by (simp add: stream_inv_def)
  have same: "en_stream_ctxs e3 = en_stream_ctxs e" "en_results e3 = en_results e" "en_calls e3 = en_calls e"
    "en_want_flush e3 = en_want_flush e" "length (en_streams e3) = length (en_streams e)"
    using assms(5) by (auto simp: stream_onClose_def split: option.split)
  have st: "qs_alive (en_streams e3 ! s) = qs_alive (en_streams e ! s)
      \<and> qs_ctx (en_streams e3 ! s) = (if lock_stream ctx e = Some s then None else qs_ctx (en_streams e ! s))" if "s < length (en_streams e)" for s
    using assms(5) that by (auto simp: stream_onClose_def nth_list_update split: option.split)
  have m: "map_of (en_stream_ctxs ?e) = (map_of (en_stream_ctxs e))(j := None)" by (simp add: same delete_conv')
  have lock: "lock_stream ctx e = Some s \<longleftrightarrow> sc_stream ctx = Some s \<and> qs_alive (en_streams e ! s)" for s
    by (auto simp: lock_stream_def split: option.split)
  have "s < length (en_streams e3) \<and> (qs_alive (en_streams e3 ! s) \<longrightarrow> qs_ctx (en_streams e3 ! s) = Some i)"
    if "map_of (en_stream_ctxs ?e) i = Some k" "sc_stream k = Some s" for i k s
  proof -
    have i: "i \<noteq> j" "map_of (en_stream_ctxs e) i = Some k" using that(1) m by (auto split: if_splits)
    have s: "s < length (en_streams e)" "qs_alive (en_streams e ! s) \<longrightarrow> qs_ctx (en_streams e ! s) = Some i"
      using p i(2) that(2) unfolding stream_ptrs_def by blast+
    moreover have "lock_stream ctx e \<noteq> Some s"
      using p assms(2) i(1) s(2) unfolding lock stream_ptrs_def by fastforce
    ultimately show ?thesis using st [OF s(1)] same(5) by simp
  qed
  moreover have "\<exists>k. map_of (en_stream_ctxs ?e) i = Some k \<and> sc_stream k = Some s"
    if s: "s < length (en_streams e3)" "qs_alive (en_streams e3 ! s)" "qs_ctx (en_streams e3 ! s) = Some i" for s i
  proof -
    have s1: "s < length (en_streams e)" "qs_alive (en_streams e ! s)" "qs_ctx (en_streams e ! s) = Some i" "lock_stream ctx e \<noteq> Some s"
      using st [of s] s same(5) by (auto split: if_splits)
    then obtain k where k: "map_of (en_stream_ctxs e) i = Some k" "sc_stream k = Some s"
      using p unfolding stream_ptrs_def by blast
    moreover have "i \<noteq> j" using k s1(2,4) assms(2) unfolding lock by auto
    ultimately show ?thesis using m by simp
  qed
  ultimately have "stream_ptrs ?e" using p same unfolding stream_ptrs_def by simp
  moreover have "io_waits ?e = io_waits e"
  proof
    fix x :: "nat \<times> bool"
    have "io_waits ?e x = (if fst x = j then None else io_waits e x)" unfolding io_waits_def m by simp
    with assms(3,4) show "io_waits ?e x = io_waits e x" by (cases x; cases "snd x") auto
  qed
  ultimately show ?thesis using assms(1) same by (simp add: stream_inv_def)
qed

lemma last_io_done [simp]: "last_io n \<noteq> Ls_again"
  by (simp add: last_io_def split: option.split)

lemma on_close_inv:
  assumes "stream_inv [] e" and "has_stream_ctx e j"
  shows "\<exists>e'. on_close (last_io n) (last_io k) j e = Returns e' \<and> stream_inv [] e'"
proof -
  obtain e1 where e1: "on_read (last_io n) j e = Returns e1" "stream_inv [] e1" "has_stream_ctx e1 j" "io_waits e1 (j, False) = None"
    using on_read_inv [OF assms, of "last_io n"] by auto
  obtain e2 where e2: "on_write (last_io k) j e1 = Returns e2" "stream_inv [] e2" "has_stream_ctx e2 j"
      "io_waits e2 (j, True) = None" "io_waits e2 (j, False) = None"
    using on_write_inv [OF e1(2,3), of "last_io k"] e1(4) by auto
  obtain ctx where ctx: "map_of (en_stream_ctxs e2) j = Some ctx" using e2(3) by auto
  from stream_end_inv [OF e2(2) ctx e2(5,4) refl] show ?thesis
    using e1(1) e2(1) ctx by (simp add: on_close_def Let_def)
qed

lemma stream_inv_frame:
  assumes "stream_inv A e" and "en_stream_ctxs e' = en_stream_ctxs e" and "en_streams e' = en_streams e"
    and "en_want_flush e' = en_want_flush e" and "en_results e' = en_results e" and "en_calls e' = en_calls e"
  shows "stream_inv A e'"
  using assms io_waits_frame [OF assms(2)] by (simp add: stream_inv_def stream_ptrs_def)

lemma fresh_stream_inv:
  assumes "stream_inv A e" and "\<not> has_stream_ctx e j"
    and "sc_stream ctx = None \<and> ss = [] \<or> sc_stream ctx = Some (length (en_streams e)) \<and> (\<exists>s. ss = [s] \<and> qs_ctx s = Some j \<and> qs_alive s)"
    and "sc_reading ctx = None" and "sc_writing ctx = None"
  shows "stream_inv A (set_stream_ctx j ctx (e\<lparr>en_streams := en_streams e @ ss\<rparr>))" (is "stream_inv A ?e")
proof -
  have p: "stream_ptrs e" using assms(1) by (simp add: stream_inv_def)
  have m: "map_of (en_stream_ctxs ?e) = (map_of (en_stream_ctxs e))(j \<mapsto> ctx)" by (simp add: update_conv')
  have "s < length (en_streams ?e) \<and> (qs_alive (en_streams ?e ! s) \<longrightarrow> qs_ctx (en_streams ?e ! s) = Some i)"
    if "map_of (en_stream_ctxs ?e) i = Some k" "sc_stream k = Some s" for i k s
  proof (cases "i = j")
    case True
    then show ?thesis using that m assms(3) by auto
  next
    case False
    then have "s < length (en_streams e) \<and> (qs_alive (en_streams e ! s) \<longrightarrow> qs_ctx (en_streams e ! s) = Some i)"
      using p that m unfolding stream_ptrs_def by auto
    then show ?thesis by (simp add: nth_append)
  qed
  moreover have "\<exists>k. map_of (en_stream_ctxs ?e) i = Some k \<and> sc_stream k = Some s"
    if s: "s < length (en_streams ?e)" "qs_alive (en_streams ?e ! s)" "qs_ctx (en_streams ?e ! s) = Some i" for s i
  proof (cases "s < length (en_streams e)")
    case True
    then obtain k where k: "map_of (en_stream_ctxs e) i = Some k" "sc_stream k = Some s"
      using p s unfolding stream_ptrs_def by (auto simp: nth_append) blast
    then have "i \<noteq> j" using assms(2) by auto
    with k m show ?thesis by simp
  next
    case False
    then have "ss \<noteq> []" "s = length (en_streams e)" using s(1) assms(3) by auto
    with s m assms(3) show ?thesis by auto
  qed
  moreover have "\<forall>s \<in> set (en_want_flush ?e). s < length (en_streams ?e)" using p by (auto simp: stream_ptrs_def)
  ultimately have "stream_ptrs ?e" unfolding stream_ptrs_def by blast
  moreover have "io_waits ?e = io_waits e"
  proof
    fix x :: "nat \<times> bool"
    have "io_waits e (j, b) = None" for b using assms(2) by (simp add: io_waits_def)
    moreover have "io_waits ?e x = (if fst x = j then None else io_waits e x)"
      unfolding io_waits_def m using assms(4,5) by simp
    ultimately show "io_waits ?e x = io_waits e x" by (cases x) auto
  qed
  ultimately show ?thesis using assms(1) by (simp add: stream_inv_def)
qed

lemma on_new_stream_streams:
  assumes "stream_inv A e" and "\<not> has_stream_ctx e j" and "map_of (en_ctxs e) i = Some ctx"
  shows "\<exists>e'. on_new_stream i j e = Returns e' \<and> stream_inv A e'
    \<and> (\<exists>x. (cc_new_stream ctx = None \<longrightarrow> x = None) \<and> (cc_new_stream ctx \<noteq> None \<longrightarrow> x \<noteq> None)
         \<and> map_of (en_ctxs e') = (map_of (en_ctxs e))(i \<mapsto> ctx\<lparr>cc_new_stream := x\<rparr>))"
proof (cases "lock_conn ctx e")
  case None
  have "stream_inv A (set_stream_ctx j \<lparr>sc_stream = None, sc_reading = None, sc_writing = None, sc_want_flush = False\<rparr> (e\<lparr>en_streams := en_streams e @ []\<rparr>))"
    by (rule fresh_stream_inv [OF assms(1,2)]) simp_all
  moreover have "(map_of (en_ctxs e))(i \<mapsto> ctx\<lparr>cc_new_stream := cc_new_stream ctx\<rparr>) = map_of (en_ctxs e)"
    using assms(3) by (simp add: fun_upd_idem)
  ultimately show ?thesis using None assms(3)
    by (simp add: on_new_stream_def) (rule exI [of _ "cc_new_stream ctx"], simp)
next
  case (Some c)
  let ?s = "\<lparr>qs_conn = c, qs_ctx = Some j, qs_initiator = (cc_new_stream ctx \<noteq> None), qs_alive = True\<rparr>"
  let ?e1 = "set_stream_ctx j \<lparr>sc_stream = Some (length (en_streams e)), sc_reading = None, sc_writing = None, sc_want_flush = False\<rparr>
    (e\<lparr>en_streams := en_streams e @ [?s]\<rparr>)"
  have inv: "stream_inv A ?e1" by (rule fresh_stream_inv [OF assms(1,2)]) simp_all
  show ?thesis
  proof (cases "cc_new_stream ctx")
    case None
    then have "(map_of (en_ctxs e))(i \<mapsto> ctx\<lparr>cc_new_stream := None\<rparr>) = map_of (en_ctxs e)"
      using assms(3) by (simp add: fun_upd_idem)
    moreover have "stream_inv A (upd_conn c (\<lambda>x. x\<lparr>stream_signal := stream_signal x @ [Inr (length (en_streams e))]\<rparr>) ?e1)"
      using inv by (rule stream_inv_frame) simp_all
    ultimately show ?thesis using None Some assms(3) by (simp add: on_new_stream_def Let_def)
  next
    case S: (Some y)
    have "stream_inv A (set_ctx i (ctx\<lparr>cc_new_stream := Some (Some (length (en_streams e)))\<rparr>) ?e1)"
      using inv by (rule stream_inv_frame) simp_all
    then show ?thesis using S Some assms(3) by (auto simp: on_new_stream_def Let_def update_conv')
  qed
qed

section \<open>Every step\<close>

definition no_new_stream :: "Engine \<Rightarrow> bool" where
  "no_new_stream e \<longleftrightarrow> (\<forall>i ctx. map_of (en_ctxs e) i = Some ctx \<longrightarrow> cc_new_stream ctx = None)"

definition quic_inv :: "('x \<Rightarrow> (TlsError, PubkeyAndPeerId) result) \<Rightarrow> Engine \<Rightarrow> bool" where
  "quic_inv v e \<longleftrightarrow> conn_inv v e \<and> no_new_stream e \<and> stream_inv [] e"

text \<open>A stream that was closed while its last bytes wait to be flushed, and that somebody still holds.\<close>

definition flush_of_closed :: "Engine \<Rightarrow> bool" where
  "flush_of_closed e \<longleftrightarrow> (\<exists>s \<in> set (en_want_flush e). qs_alive (en_streams e ! s) \<and> qs_ctx (en_streams e ! s) = None)"

lemma newStream_ok:
  assumes "quic_inv v e" and "held_conn e c" and "case made of None \<Rightarrow> True | Some j \<Rightarrow> \<not> has_stream_ctx e j"
  shows "\<exists>r e'. conn_newStream pending made c e = Returns (r, e') \<and> quic_inv v e'"
proof (cases "qc_ctx (en_conns e ! c)")
  case None
  then show ?thesis using assms(1) by (simp add: conn_newStream_def)
next
  case (Some i)
  have ci: "conn_inv v e" and ns: "no_new_stream e" and si: "stream_inv [] e" using assms(1) by (auto simp: quic_inv_def)
  obtain ctx where ctx: "map_of (en_ctxs e) i = Some ctx"
    using conn_invD(3) [OF ci, of c] assms(2) Some by (auto simp: conn_ok_def)
  have n: "cc_new_stream ctx = None" using ns ctx by (simp add: no_new_stream_def)
  show ?thesis
  proof (cases pending)
    case True
    then show ?thesis using assms(1) Some ctx n by (simp add: conn_newStream_def engine_newStream_def)
  next
    case False
    let ?e1 = "set_ctx i (ctx\<lparr>cc_new_stream := Some None\<rparr>) e"
    have c1: "conn_inv v ?e1" using new_stream_mark_inv [OF ci ctx] .
    have s1: "stream_inv [] ?e1" using si by (rule stream_inv_frame) simp_all
    have m1: "map_of (en_ctxs ?e1) i = Some (ctx\<lparr>cc_new_stream := Some None\<rparr>)" by (simp add: update_conv')
    obtain e2 y where e2: "(case made of None \<Rightarrow> Returns ?e1 | Some j \<Rightarrow> on_new_stream i j ?e1) = Returns e2" "conn_inv v e2"
      "stream_inv [] e2" "map_of (en_ctxs e2) = (map_of (en_ctxs e))(i \<mapsto> ctx\<lparr>cc_new_stream := Some y\<rparr>)"
    proof (cases made)
      case None
      show thesis by (rule that [of ?e1 None]) (use None c1 s1 in \<open>simp_all add: update_conv'\<close>)
    next
      case (Some j)
      then have "\<not> has_stream_ctx ?e1 j" using assms(3) by simp
      from on_new_stream_streams [OF s1 this m1] obtain e2 x where
        o: "on_new_stream i j ?e1 = Returns e2" "stream_inv [] e2" "x \<noteq> None" "map_of (en_ctxs e2) = (map_of (en_ctxs ?e1))(i \<mapsto> ctx\<lparr>cc_new_stream := x\<rparr>)"
        by auto
      from o(3) obtain y where "x = Some y" by blast
      with o show thesis using that [of e2 y] Some on_new_stream_inv [OF c1 o(1)] by (simp add: update_conv')
    qed
    let ?e3 = "set_ctx i (ctx\<lparr>cc_new_stream := None\<rparr>) e2"
    have m2: "map_of (en_ctxs e2) i = Some (ctx\<lparr>cc_new_stream := Some y\<rparr>)" using e2(4) by simp
    have "conn_inv v ?e3" using new_stream_mark_inv [OF e2(2) m2, of None] by simp
    moreover have "stream_inv [] ?e3" using e2(3) by (rule stream_inv_frame) simp_all
    moreover have "no_new_stream ?e3" using ns e2(4) by (auto simp: no_new_stream_def update_conv')
    ultimately have q: "quic_inv v ?e3" by (simp add: quic_inv_def)
    have "engine_newStream pending made i e
      = Returns ((case y of None \<Rightarrow> Inl CANT_OPEN_STREAM | Some s \<Rightarrow> Inr s), ?e3)"
      using False ctx n e2(1) m2 by (cases y) (simp_all add: engine_newStream_def Let_def)
    with q Some show ?thesis by (simp add: conn_newStream_def)
  qed
qed

lemma flush_loop_ok:
  assumes "stream_inv A e" and "\<forall>s \<in> set ss. s < length (en_streams e)"
  shows "(flush_loop ss e = Throws \<longleftrightarrow> (\<exists>s \<in> set ss. qs_alive (en_streams e ! s) \<and> qs_ctx (en_streams e ! s) = None))
    \<and> (\<forall>e'. flush_loop ss e = Returns e' \<longrightarrow> stream_inv A e' \<and> en_ctxs e' = en_ctxs e \<and> en_conns e' = en_conns e
         \<and> en_connecting e' = en_connecting e \<and> en_dialed e' = en_dialed e \<and> en_answers e' = en_answers e \<and> conn_signal e' = conn_signal e)"
  using assms
proof (induction ss arbitrary: e)
  case (Cons s ss)
  show ?case
  proof (cases "qs_alive (en_streams e ! s)")
    case False
    from Cons.IH [OF Cons.prems(1)] Cons.prems(2) False show ?thesis by simp
  next
    case True
    show ?thesis
    proof (cases "qs_ctx (en_streams e ! s)")
      case None
      with True show ?thesis by auto
    next
      case (Some j)
      then obtain ctx where ctx: "map_of (en_stream_ctxs e) j = Some ctx"
        using held_stream_ctx [OF Cons.prems(1), of s j] Cons.prems(2) True by auto
      let ?e = "set_stream_ctx j (ctx\<lparr>sc_want_flush := False\<rparr>) e"
      have "io_waits ?e = io_waits e" using io_waits_at [OF ctx] by (auto simp: io_waits_update fun_eq_iff)
      then have "stream_inv A ?e" using Cons.prems(1) stream_ptrs_set [OF _ ctx] by (simp add: stream_inv_def)
      from Cons.IH [OF this] Cons.prems(2) True Some ctx show ?thesis by simp
    qed
  qed
qed simp

text \<open>The steps on connections leave the streams alone.\<close>

definition streams_kept :: "Engine \<Rightarrow> Engine \<Rightarrow> bool" where
  "streams_kept e e' \<longleftrightarrow> en_stream_ctxs e' = en_stream_ctxs e \<and> en_streams e' = en_streams e
     \<and> en_want_flush e' = en_want_flush e \<and> en_results e' = en_results e \<and> en_calls e' = en_calls e"

lemma streams_kept_inv: "stream_inv A e \<Longrightarrow> streams_kept e e' \<Longrightarrow> stream_inv A e'"
  by (rule stream_inv_frame) (simp_all add: streams_kept_def)

lemma no_new_stream_answer [simp]: "no_new_stream (answer op r e) = no_new_stream e"
  by (simp add: no_new_stream_def)

lemma streams_kept_answer [simp]: "streams_kept e (answer op r e') = streams_kept e e'"
  by (simp add: streams_kept_def)

lemma no_new_stream_set: "no_new_stream e \<Longrightarrow> cc_new_stream ctx = None \<Longrightarrow> en_ctxs e' = AList.update i ctx (en_ctxs e) \<Longrightarrow> no_new_stream e'"
  by (auto simp: no_new_stream_def update_conv')

lemma on_hsk_done_ok:
  assumes "no_new_stream e" and "map_of (en_ctxs e) i = Some ctx" and "makeQuicAddr lib remote = Returns (Inr a)"
  shows "\<exists>e'. on_hsk_done lib v i ok cert remote e = Returns e' \<and> no_new_stream e' \<and> streams_kept e e'"
proof -
  have n: "cc_new_stream ctx = None" using assms(1,2) by (simp add: no_new_stream_def)
  have "no_new_stream (set_ctx i (ctx\<lparr>cc_connecting := None\<rparr>) e)" by (rule no_new_stream_set [OF assms(1)]) (simp_all add: n)
  moreover have "no_new_stream (set_ctx i (ctx\<lparr>cc_connecting := None, cc_conn := y\<rparr>) (e\<lparr>en_conns := z\<rparr>))" for y z
    by (rule no_new_stream_set [OF assms(1)]) (simp_all add: n)
  ultimately show ?thesis using assms(2,3)
    by (auto simp: on_hsk_done_def Let_def streams_kept_def split: sum.split)
qed

fun ev_ok :: "address_lib \<Rightarrow> 'x QuicEvent \<Rightarrow> bool" where
  "ev_ok lib (Ev_new_conn i cert remote) \<longleftrightarrow> ip_ok lib (fst remote)"
| "ev_ok lib (Ev_hsk_done i ok cert remote) \<longleftrightarrow> ip_ok lib (fst remote)"
| "ev_ok lib _ \<longleftrightarrow> True"

lemma makeQuicAddr_ok: "ip_ok lib (fst remote) \<Longrightarrow> \<exists>a. makeQuicAddr lib remote = Returns (Inr a)"
  using quic_endpoint_address [of lib "fst remote" "snd remote"] by auto

lemma conn_step_ok:
  assumes "quic_inv v e" and "op = Returns e'" and "conn_inv v e'" and "no_new_stream e'" and "streams_kept e e'"
  shows "\<exists>e'. op = Returns e' \<and> quic_inv v e'"
  using assms streams_kept_inv [of "[]" e e'] by (auto simp: quic_inv_def)

lemma stream_step_ok:
  assumes "quic_inv v e" and "\<exists>e'. op = Returns e' \<and> stream_inv [] e'"
    and "\<And>e'. op = Returns e' \<Longrightarrow> en_connecting e' = en_connecting e \<and> en_ctxs e' = en_ctxs e \<and> en_conns e' = en_conns e
      \<and> en_dialed e' = en_dialed e \<and> en_answers e' = en_answers e \<and> conn_signal e' = conn_signal e"
  shows "\<exists>e'. op = Returns e' \<and> quic_inv v e'"
proof -
  obtain e' where e': "op = Returns e'" "stream_inv [] e'" using assms(2) by blast
  have "conn_inv v e" "no_new_stream e" using assms(1) by (auto simp: quic_inv_def)
  with assms(3) [OF e'(1)] have "conn_inv v e'" "no_new_stream e'"
    by (auto intro: conn_inv_frame simp: no_new_stream_def)
  with e' show ?thesis by (simp add: quic_inv_def)
qed

definition conns_kept :: "Engine \<Rightarrow> Engine \<Rightarrow> bool" where
  "conns_kept e e' \<longleftrightarrow> en_connecting e' = en_connecting e \<and> en_ctxs e' = en_ctxs e \<and> en_conns e' = en_conns e
     \<and> en_dialed e' = en_dialed e \<and> en_answers e' = en_answers e \<and> conn_signal e' = conn_signal e"

lemma conns_kept_io:
  "read_turn call n j e = Returns e' \<Longrightarrow> conns_kept e e'" "wantFlush j e = Returns e' \<Longrightarrow> conns_kept e e'"
  "write_turn call n j e = Returns e' \<Longrightarrow> conns_kept e e'"
proof -
  show "conns_kept e e'" if "read_turn call n j e = Returns e'"
    using that by (auto simp: read_turn_def result_of_def conns_kept_def split: option.splits ls_io.splits)
  show f: "conns_kept e e'" if "wantFlush j e = Returns e'" for e e'
    using that by (auto simp: wantFlush_def wantProcess_def Let_def conns_kept_def split: option.splits if_splits)
  show "conns_kept e e'" if w: "write_turn call n j e = Returns e'"
  proof -
    obtain e1 where e1: "wantFlush j e = Returns e1" using w by (auto simp: write_turn_def bind_cxx_Returns)
    from f [OF e1] w e1 show ?thesis
      by (auto simp: write_turn_def result_of_def conns_kept_def split: option.splits ls_io.splits)
  qed
qed

lemma conns_kept_calls:
  "readSome n s e = Returns e' \<Longrightarrow> conns_kept e e'" "writeSome n s e = Returns e' \<Longrightarrow> conns_kept e e'"
  "on_read n j e = Returns e' \<Longrightarrow> conns_kept e e'" "on_write n j e = Returns e' \<Longrightarrow> conns_kept e e'"
  using conns_kept_io(1) [of "en_calls e" n _ "e\<lparr>en_calls := Suc (en_calls e)\<rparr>" e']
    conns_kept_io(3) [of "en_calls e" n _ "e\<lparr>en_calls := Suc (en_calls e)\<rparr>" e']
    conns_kept_io(1) [of _ n j _ e'] conns_kept_io(3) [of _ n j _ e']
  by (auto simp: readSome_def writeSome_def on_read_def on_write_def result_of_def conns_kept_def Let_def split: option.splits if_splits)

lemma conns_kept_close:
  assumes "on_close n k j e = Returns e'"
  shows "conns_kept e e'"
proof -
  obtain e1 e2 where e: "on_read n j e = Returns e1" "on_write k j e1 = Returns e2"
    using assms by (auto simp: on_close_def bind_cxx_Returns)
  with assms conns_kept_calls(3) [OF e(1)] conns_kept_calls(4) [OF e(2)] show ?thesis
    by (auto simp: on_close_def conns_kept_def stream_onClose_def Let_def split: option.splits)
qed

lemma drop_stream_inv:
  assumes "stream_inv A e"
  shows "stream_inv A (drop_stream s e)" (is "stream_inv A ?e")
proof -
  have nth: "qs_ctx (en_streams ?e ! x) = qs_ctx (en_streams e ! x) \<and> (qs_alive (en_streams ?e ! x) \<longrightarrow> qs_alive (en_streams e ! x))"
    if "x < length (en_streams e)" for x using that by (cases "x = s") (simp_all add: drop_stream_def)
  have same: "en_stream_ctxs ?e = en_stream_ctxs e" "en_want_flush ?e = en_want_flush e" "length (en_streams ?e) = length (en_streams e)"
    by (simp_all add: drop_stream_def)
  have p: "stream_ptrs e" using assms by (simp add: stream_inv_def)
  have "stream_ptrs ?e"
    unfolding stream_ptrs_def same
  proof (intro conjI allI impI ballI)
    fix i k x
    assume a: "map_of (en_stream_ctxs e) i = Some k" "sc_stream k = Some x"
    with p show x: "x < length (en_streams e)" unfolding stream_ptrs_def by blast
    assume "qs_alive (en_streams ?e ! x)"
    with a p nth [OF x] show "qs_ctx (en_streams ?e ! x) = Some i" unfolding stream_ptrs_def by metis
  next
    fix x i
    assume "x < length (en_streams e)" "qs_alive (en_streams ?e ! x)" "qs_ctx (en_streams ?e ! x) = Some i"
    with p nth [of x] show "\<exists>k. map_of (en_stream_ctxs e) i = Some k \<and> sc_stream k = Some x" unfolding stream_ptrs_def by metis
  next
    fix x
    assume "x \<in> set (en_want_flush e)"
    with p show "x < length (en_streams e)" unfolding stream_ptrs_def by blast
  qed
  moreover have "io_waits ?e = io_waits e" by (rule io_waits_frame) (simp add: drop_stream_def)
  ultimately show ?thesis using assms by (simp add: stream_inv_def drop_stream_def)
qed

lemma quic_step_ok:
  assumes inv: "quic_inv v e" and ok: "ev_ok lib x" and np: "x \<noteq> Ev_process"
  shows "\<exists>e'. quic_step lib v e x = Returns e' \<and> quic_inv v e'"
proof (cases "happens x e")
  case False
  with inv show ?thesis by (simp add: quic_step_def)
next
  case True
  have ci: "conn_inv v e" and ns: "no_new_stream e" and si: "stream_inv [] e" using inv by (auto simp: quic_inv_def)
  have st: "quic_step lib v e x = quic_do lib v x e" using True by (simp add: quic_step_def)
  show ?thesis unfolding st
  proof (cases x)
    case (Ev_connect p made)
    have c: "en_connecting e = None" using conn_invD(1) [OF ci] .
    obtain e' where e': "connect lib v p made e = Returns e'"
      using c by (cases made) (auto simp: connect_def on_new_conn_def Let_def)
    have "no_new_stream e' \<and> streams_kept e e'"
      using e' ns c by (cases made) (auto simp: connect_def on_new_conn_def Let_def wantProcess_def streams_kept_def no_new_stream_def update_conv' split: if_splits)
    with conn_step_ok [OF inv e' connect_inv [OF ci _ e']] True Ev_connect e' show "\<exists>e'. quic_do lib v x e = Returns e' \<and> quic_inv v e'" by simp
  next
    case (Ev_new_conn i cert remote)
    then obtain a where a: "makeQuicAddr lib remote = Returns (Inr a)" using ok makeQuicAddr_ok [of lib remote] by auto
    have c: "en_connecting e = None" using conn_invD(1) [OF ci] .
    let ?ctx = "\<lparr>cc_connecting = None, cc_new_stream = None, cc_conn = None\<rparr>"
    let ?e = "set_ctx i ?ctx (e\<lparr>en_connecting := None\<rparr>)"
    have "no_new_stream ?e" by (rule no_new_stream_set [OF ns]) simp_all
    then obtain e' where e': "on_hsk_done lib v i True cert remote ?e = Returns e'" "no_new_stream e'" "streams_kept ?e e'"
      using on_hsk_done_ok [of ?e i ?ctx lib remote a v True cert] a by (auto simp: update_conv')
    then have "on_new_conn lib v i cert remote e = Returns e'" using c by (simp add: on_new_conn_def Let_def)
    moreover have "streams_kept e e'" using e'(3) by (simp add: streams_kept_def)
    ultimately show "\<exists>e'. quic_do lib v x e = Returns e' \<and> quic_inv v e'"
      using conn_step_ok [OF inv _ on_new_conn_inv [OF ci]] True Ev_new_conn e'(2) by auto
  next
    case (Ev_hsk_done i k cert remote)
    then obtain a where a: "makeQuicAddr lib remote = Returns (Inr a)" using ok makeQuicAddr_ok [of lib remote] by auto
    obtain ctx where ctx: "map_of (en_ctxs e) i = Some ctx" "cc_connecting ctx \<noteq> None" using True Ev_hsk_done by auto
    then have n: "cc_conn ctx = None" using conn_invD(2) [OF ci ctx(1)] by (auto simp: ctx_ok_def)
    obtain e' where e': "on_hsk_done lib v i k cert remote e = Returns e'" "no_new_stream e'" "streams_kept e e'"
      using on_hsk_done_ok [OF ns ctx(1) a, of v k cert] by blast
    from conn_step_ok [OF inv e'(1) on_hsk_done_inv [OF ci ctx(1) n e'(1)] e'(2,3)]
    show "\<exists>e'. quic_do lib v x e = Returns e' \<and> quic_inv v e'" using Ev_hsk_done by simp
  next
    case (Ev_conn_closed i)
    then obtain ctx where ctx: "map_of (en_ctxs e) i = Some ctx" using True by auto
    obtain e' where e': "on_conn_closed i e = Returns e'" using ctx by (auto simp: on_conn_closed_def Let_def)
    then have "no_new_stream e' \<and> streams_kept e e'"
      using ns ctx by (auto simp: on_conn_closed_def Let_def no_new_stream_def streams_kept_def quic_onClose_def delete_conv' split: option.splits if_splits)
    with conn_step_ok [OF inv e' on_conn_closed_inv [OF ci e']] Ev_conn_closed show "\<exists>e'. quic_do lib v x e = Returns e' \<and> quic_inv v e'" by simp
  next
    case (Ev_drop_conn c)
    have "no_new_stream (drop_conn c e) \<and> streams_kept e (drop_conn c e)"
      using ns by (simp add: drop_conn_def no_new_stream_def streams_kept_def)
    with conn_step_ok [OF inv refl drop_conn_inv [OF ci]] Ev_drop_conn show "\<exists>e'. quic_do lib v x e = Returns e' \<and> quic_inv v e'" by simp
  next
    case (Ev_new_stream i j)
    then obtain ctx where ctx: "map_of (en_ctxs e) i = Some ctx" "\<not> has_stream_ctx e j" using True by auto
    have n: "cc_new_stream ctx = None" using ns ctx by (simp add: no_new_stream_def)
    obtain e' where e': "on_new_stream i j e = Returns e'" "stream_inv [] e'" "map_of (en_ctxs e') = (map_of (en_ctxs e))(i \<mapsto> ctx\<lparr>cc_new_stream := None\<rparr>)"
      using on_new_stream_streams [OF si ctx(2,1)] n by auto
    have "no_new_stream e'" using ns e'(3) by (auto simp: no_new_stream_def)
    with e'(1,2) on_new_stream_inv [OF ci e'(1)] Ev_new_stream show "\<exists>e'. quic_do lib v x e = Returns e' \<and> quic_inv v e'"
      by (simp add: quic_inv_def)
  next
    case (Ev_newStream c pending made)
    then show "\<exists>e'. quic_do lib v x e = Returns e' \<and> quic_inv v e'"
      using newStream_ok [OF inv, of c made pending] True by (auto simp: bind_cxx_Returns)
  next
    case (Ev_readSome s n)
    then show "\<exists>e'. quic_do lib v x e = Returns e' \<and> quic_inv v e'"
      using stream_step_ok [OF inv readSome_inv [OF si, of s n]] conns_kept_calls(1) [of n s e] True by (simp add: conns_kept_def)
  next
    case (Ev_writeSome s n)
    then show "\<exists>e'. quic_do lib v x e = Returns e' \<and> quic_inv v e'"
      using stream_step_ok [OF inv writeSome_inv [OF si, of s n]] conns_kept_calls(2) [of n s e] True by (simp add: conns_kept_def)
  next
    case (Ev_on_read j n)
    then show "\<exists>e'. quic_do lib v x e = Returns e' \<and> quic_inv v e'"
      using stream_step_ok [OF inv, of "on_read n j e"] on_read_inv [OF si, of j n] conns_kept_calls(3) [of n j e] True
      by (auto simp: conns_kept_def)
  next
    case (Ev_on_write j n)
    then show "\<exists>e'. quic_do lib v x e = Returns e' \<and> quic_inv v e'"
      using stream_step_ok [OF inv, of "on_write n j e"] on_write_inv [OF si, of j n] conns_kept_calls(4) [of n j e] True
      by (auto simp: conns_kept_def)
  next
    case (Ev_on_close j n k)
    then show "\<exists>e'. quic_do lib v x e = Returns e' \<and> quic_inv v e'"
      using stream_step_ok [OF inv on_close_inv [OF si, of j n k]] conns_kept_close [of "last_io n" "last_io k" j e] True
      by (simp add: conns_kept_def)
  next
    case (Ev_drop_stream s)
    then show "\<exists>e'. quic_do lib v x e = Returns e' \<and> quic_inv v e'"
      using stream_step_ok [OF inv, of "Returns (drop_stream s e)"] drop_stream_inv [OF si, of s] by (simp add: drop_stream_def)
  next
    case Ev_process
    with np show "\<exists>e'. quic_do lib v x e = Returns e' \<and> quic_inv v e'" by simp
  qed
qed

lemma process_ok:
  assumes "quic_inv v e"
  shows "process e = Throws \<longleftrightarrow> flush_of_closed e" and "process e = Returns e' \<Longrightarrow> quic_inv v e'"
proof -
  let ?e = "e\<lparr>en_want_process := False, en_want_flush := []\<rparr>"
  have ci: "conn_inv v e" and ns: "no_new_stream e" and si: "stream_inv [] e" using assms by (auto simp: quic_inv_def)
  have "stream_inv [] ?e" using si by (auto simp: stream_inv_def stream_ptrs_def io_waits_def [abs_def])
  moreover have "\<forall>s \<in> set (en_want_flush e). s < length (en_streams ?e)" using si by (simp add: stream_inv_def stream_ptrs_def)
  ultimately have f: "flush_loop (en_want_flush e) ?e = Throws \<longleftrightarrow> flush_of_closed e"
      "\<And>e'. flush_loop (en_want_flush e) ?e = Returns e' \<Longrightarrow> stream_inv [] e' \<and> conns_kept e e'"
    using flush_loop_ok [of "[]" ?e "en_want_flush e"] by (auto simp: flush_of_closed_def conns_kept_def)
  show "process e = Throws \<longleftrightarrow> flush_of_closed e" using f(1) by (simp add: process_def)
  assume "process e = Returns e'"
  then have "stream_inv [] e'" "conns_kept e e'" using f(2) by (auto simp: process_def)
  moreover have "conn_inv v e'" using ci by (rule conn_inv_frame) (use calculation(2) in \<open>simp_all add: conns_kept_def\<close>)
  moreover have "no_new_stream e'" using ns calculation(2) by (simp add: no_new_stream_def conns_kept_def)
  ultimately show "quic_inv v e'" by (simp add: quic_inv_def)
qed

text \<open>All steps, when every address is one that can be written as a multiaddress.\<close>

definition checked_step ::
  "address_lib \<Rightarrow> ('x \<Rightarrow> (TlsError, PubkeyAndPeerId) result) \<Rightarrow> Engine \<Rightarrow> 'x QuicEvent \<Rightarrow> Engine cxx" where
  "checked_step lib v e x = (if ev_ok lib x then quic_step lib v e x else Throws)"

lemma checked_step_inv: "quic_inv v e \<Longrightarrow> checked_step lib v e x = Returns e' \<Longrightarrow> quic_inv v e'"
proof (cases "x = Ev_process")
  case True
  assume "quic_inv v e" "checked_step lib v e x = Returns e'"
  with True process_ok(2) [of v e e'] show ?thesis by (simp add: checked_step_def quic_step_def)
next
  case False
  assume "quic_inv v e" "checked_step lib v e x = Returns e'"
  with False quic_step_ok [of v e lib x] show ?thesis by (auto simp: checked_step_def split: if_splits)
qed

interpretation quic_machine: invariant_machine "quic_inv v" "checked_step lib v" for v lib
  by unfold_locales (rule checked_step_inv)

lemma run_checked:
  "run_cxx (quic_step lib v) e xs = Returns e' \<Longrightarrow> list_all (ev_ok lib) xs \<Longrightarrow> run_cxx (checked_step lib v) e xs = Returns e'"
proof (induction xs arbitrary: e)
  case (Cons x xs)
  then show ?case by (cases "quic_step lib v e x") (simp_all add: checked_step_def)
qed simp

lemma quic_inv_new: "quic_inv v Engine_new"
  by (auto simp: quic_inv_def conn_inv_def no_new_stream_def stream_inv_def stream_ptrs_def Engine_new_def calls_ok_def
      conn_waits_def [abs_def] io_waits_def [abs_def])

lemma quic_reachable:
  "run_cxx (quic_step lib v) Engine_new xs = Returns e \<Longrightarrow> list_all (ev_ok lib) xs \<Longrightarrow> quic_inv v e"
  using quic_machine.run_keeps [OF quic_inv_new] run_checked by blast


text \<open>
  \<^bold>\<open>C24\<close> (safety). Every call of \<open>connect\<close> has been answered once or waits in the context of
  its connection. Every connection, in or outbound, has a peer id and a public key that some
  certificate proved, and a connection that answers a call is to the peer that was asked for.
\<close>

theorem quic_peers_authenticated:
  assumes "run_cxx (quic_step lib (verifyPeerAndExtractIdentity ssl verify sha rsa_bits parse)) Engine_new xs = Returns e"
    and "list_all (ev_ok lib) xs"
  shows "distinct (map fst (en_answers e)) \<and> ran (conn_waits e) \<inter> fst ` set (en_answers e) = {}
    \<and> ran (conn_waits e) \<union> fst ` set (en_answers e) = {..<length (en_dialed e)}
    \<and> (\<forall>c < length (en_conns e). \<exists>cert. verifyPeerAndExtractIdentity ssl verify sha rsa_bits parse cert
         = Inr \<lparr>pp_public_key = qc_key (en_conns e ! c), pp_peer_id = qc_peer (en_conns e ! c)\<rparr>)
    \<and> (\<forall>k c. (k, Inr c) \<in> set (en_answers e) \<longrightarrow> c < length (en_conns e) \<and> PeerId_eq (qc_peer (en_conns e ! c)) (en_dialed e ! k))"
proof -
  have "quic_inv (verifyPeerAndExtractIdentity ssl verify sha rsa_bits parse) e" using assms by (rule quic_reachable)
  then have "conn_inv (verifyPeerAndExtractIdentity ssl verify sha rsa_bits parse) e" by (simp add: quic_inv_def)
  note d = conn_invD [OF this]
  have "\<And>k c. (k, Inr c) \<in> set (en_answers e) \<Longrightarrow> c < length (en_conns e) \<and> PeerId_eq (qc_peer (en_conns e ! c)) (en_dialed e ! k)"
    using d(5) by (force simp: reply_ok_def)
  moreover have "\<And>c. c < length (en_conns e) \<Longrightarrow> \<exists>cert. verifyPeerAndExtractIdentity ssl verify sha rsa_bits parse cert
         = Inr \<lparr>pp_public_key = qc_key (en_conns e ! c), pp_peer_id = qc_peer (en_conns e ! c)\<rparr>"
    using d(3) by (simp add: conn_ok_def)
  ultimately show ?thesis using d(4) unfolding calls_ok_def by simp
qed


text \<open>
  The exception does happen: a peer opens a stream, a handler writes to it, and the stream is
  closed before the next \<open>process\<close>.
\<close>

definition toy_info :: PubkeyAndPeerId where
  "toy_info = \<lparr>pp_public_key = publicKey toy_keys, pp_peer_id = Multihash_Data identity (1 # replicate 32 7)\<rparr>"

definition toy_remote :: "IpAddress \<times> u16" where
  "toy_remote = (V4 [127, 0, 0, 1], 9)"

lemma toy_remote_addr: "\<exists>a. makeQuicAddr sample_lib toy_remote = Returns (Inr a)"
  using makeQuicAddr_ok [of sample_lib toy_remote] sample_ip_ok by (simp add: toy_remote_def)






abbreviation toy_peer :: "bytes \<times> (string \<times> bytes) list \<Rightarrow> (TlsError, PubkeyAndPeerId) result" where
  "toy_peer \<equiv> verifyPeerAndExtractIdentity toy_ssl toy_verify (\<lambda>_. Inl ()) (\<lambda>_. None) parse_ex"

definition toy_cert :: "bytes \<times> (string \<times> bytes) list" where
  "toy_cert = ([5], [(extension_oid, marshalExtensionData (1 # replicate 32 7) [108, 7])])"

definition toy_dial :: "(bytes \<times> (string \<times> bytes) list) QuicEvent list" where
  "toy_dial = [Ev_connect (pp_peer_id toy_info) (Some (0, toy_cert, toy_remote)), Ev_hsk_done 0 True toy_cert toy_remote]"

theorem quic_peers_authenticated_witness:
  "\<exists>e. run_cxx (quic_step sample_lib toy_peer) Engine_new toy_dial = Returns e \<and> (0, Inr 0) \<in> set (en_answers e)
     \<and> PeerId_eq (qc_peer (en_conns e ! 0)) (pp_peer_id toy_info)"
proof -
  obtain a where a: "makeQuicAddr sample_lib toy_remote = Returns (Inr a)" using toy_remote_addr by blast
  have v: "toy_peer toy_cert = Inr toy_info" using toy_verified by (simp add: toy_cert_def toy_info_def)
  have "\<exists>e. run_cxx (quic_step sample_lib toy_peer) Engine_new toy_dial = Returns e
      \<and> (0, Inr 0) \<in> set (en_answers e) \<and> en_dialed e = [pp_peer_id toy_info]"
    by (simp add: toy_dial_def quic_step_def Engine_new_def connect_def on_new_conn_def on_hsk_done_def a v answer_def wantProcess_def
        PeerId_neq_def PeerId_eq_def Multihash_eq_def)
  then obtain e where e: "run_cxx (quic_step sample_lib toy_peer) Engine_new toy_dial = Returns e"
    "(0, Inr 0) \<in> set (en_answers e)" "en_dialed e = [pp_peer_id toy_info]" by blast
  have "list_all (ev_ok sample_lib) toy_dial" using sample_ip_ok by (simp add: toy_dial_def toy_remote_def)
  from quic_peers_authenticated [OF e(1) this] e show ?thesis by force
qed

end
