(* ===== verification/Stream_Protocols.thy ===== *)
theory Stream_Protocols
  imports Peer_Repository Dialer Listener
begin

text \<open>
  The small protocols that run on a negotiated stream: \<open>src/protocol/ping.cpp\<close>,
  \<open>src/protocol/echo/echo.cpp\<close> and \<open>src/protocol/identify/identify.cpp\<close>.

  A stream is a state with \<open>readSome\<close> and \<open>writeSome\<close>, as in theory Varint; \<open>close\<close> and
  \<open>reset\<close> of a stream, the protobuf codec and the clock are arguments. A loop that may not
  end is a \<open>partial_function (option)\<close>. A coroutine that ends with an exception, which
  \<open>coroSpawn\<close> throws again out of the executor, is \<open>Throws\<close>. The timer of a ping resets
  the stream, so a ping that runs out of time is one whose stream fails.

  The lemmas show that ping accepts exactly the echo of its message and that the handler
  echoes, that the echo protocol returns every byte it is sent, in order, and that what a
  host says about itself with identify is what the other side stores.
\<close>

section \<open>Ping\<close>

definition logic_error :: "'e io_error \<Rightarrow> bool" where
  "logic_error e \<longleftrightarrow> e = ZeroBytes \<or> e = TooMuchBytes"

definition kPingSize :: nat where "kPingSize = 32"

definition Ping_getProtocolIds :: "ProtocolName list" where
  "Ping_getProtocolIds = [''/ipfs/ping/1.0.0'']"

partial_function (option) ping_handle :: "('s, 'e) reader \<Rightarrow> ('s, 'e) writer \<Rightarrow> 's \<Rightarrow> 's cxx option" where
  "ping_handle readSome writeSome s =
     (case read_exact readSome s kPingSize of
        (Inl e, s') \<Rightarrow> Some (if logic_error e then Throws else Returns s')
      | (Inr message, s') \<Rightarrow>
          (case write_all writeSome s' message of
             (Inl e, s'') \<Rightarrow> Some (if logic_error e then Throws else Returns s'')
           | (Inr _, s'') \<Rightarrow> ping_handle readSome writeSome s''))"

datatype 'e ping_error = Ping_io "'e io_error" | INVALID_RESPONSE | Ping_stream "'e stream_error"

text \<open>
  A ping on a stream: the random message and the two readings of the clock in nanoseconds
  are given, the answer is the time between them in microseconds.
\<close>

definition ping_stream ::
  "('s, 'e) reader \<Rightarrow> ('s, 'e) writer \<Rightarrow> bytes \<Rightarrow> int \<times> int \<Rightarrow> 's \<Rightarrow> (('e ping_error, int) result \<times> 's) cxx" where
  "ping_stream readSome writeSome message = (\<lambda>(start, stop) s.
     (case write_all writeSome s message of
        (Inl e, s1) \<Rightarrow> if logic_error e then Throws else Returns (Inl (Ping_io e), s1)
      | (Inr _, s1) \<Rightarrow>
          (case read_exact readSome s1 kPingSize of
             (Inl e, s2) \<Rightarrow> if logic_error e then Throws else Returns (Inl (Ping_io e), s2)
           | (Inr reply, s2) \<Rightarrow>
               if reply \<noteq> message then Returns (Inl INVALID_RESPONSE, s2)
               else Returns (Inr ((stop - start) div 1000), s2))))"

text \<open>A single ping on a connection, given what \<open>conn->newStream()\<close> returned.\<close>

definition ping_connection ::
  "('s, 'e) reader \<Rightarrow> ('s, 'e) writer \<Rightarrow> ('s \<Rightarrow> ('e, unit) result \<times> 's) \<Rightarrow> bytes \<Rightarrow> int \<times> int \<Rightarrow> ('e, 's) result
     \<Rightarrow> (('e ping_error, int) result \<times> 's option) cxx option" where
  "ping_connection readSome writeSome close message clock opening =
     map_option
       (\<lambda>r. bind_cxx r (\<lambda>stream_result.
          (case stream_result of
             Inl e \<Rightarrow> Returns (Inl (Ping_stream e), None)
           | Inr (_, stream) \<Rightarrow>
               bind_cxx (ping_stream readSome writeSome message clock stream) (\<lambda>(res, stream').
                 Returns (res, Some (snd (close stream')))))))
       (newStream_on readSome writeSome Ping_getProtocolIds opening)"

text \<open>
  The loop that pings a connection, one round per interval: each round is given what
  \<open>newStream\<close> would return, the message and the clock. A turn returns the stream that is
  kept, the streams it has reset and the answer, or nothing when the loop ends; the loop
  returns them all, and whether it has ended.
\<close>

type_synonym ('s, 'e) ping_round = "('e, 's) result \<times> bytes \<times> int \<times> int"

definition ping_turn ::
  "('s, 'e) reader \<Rightarrow> ('s, 'e) writer \<Rightarrow> ('s \<Rightarrow> 's) \<Rightarrow> 's option \<Rightarrow> ('s, 'e) ping_round
     \<Rightarrow> ('s option \<times> 's list \<times> ('e ping_error, int) result) option cxx option" where
  "ping_turn readSome writeSome reset kept = (\<lambda>(opening, message, clock).
     map_option
       (\<lambda>r. bind_cxx r (\<lambda>stream_result.
          (case stream_result of
             Inl e \<Rightarrow> Returns None
           | Inr (_, stream) \<Rightarrow>
               bind_cxx (ping_stream readSome writeSome message clock stream) (\<lambda>(res, stream').
                 Returns
                   (Some (case res of
                            Inl e \<Rightarrow> (None, [reset stream'], res)
                          | Inr _ \<Rightarrow> (Some stream', [], res)))))))
       (case kept of
          None \<Rightarrow> newStream_on readSome writeSome Ping_getProtocolIds opening
        | Some stream \<Rightarrow> Some (Returns (Inr (hd Ping_getProtocolIds, stream)))))"

fun pingLoop ::
  "('s, 'e) reader \<Rightarrow> ('s, 'e) writer \<Rightarrow> ('s \<Rightarrow> 's) \<Rightarrow> 's option \<Rightarrow> ('s, 'e) ping_round list
     \<Rightarrow> ('s option \<times> 's list \<times> ('e ping_error, int) result list \<times> bool) cxx option" where
  "pingLoop readSome writeSome reset kept [] = Some (Returns (kept, [], [], False))"
| "pingLoop readSome writeSome reset kept (r # rs) =
     (case ping_turn readSome writeSome reset kept r of
        None \<Rightarrow> None
      | Some Throws \<Rightarrow> Some Throws
      | Some (Returns None) \<Rightarrow> Some (Returns (None, [], [], True))
      | Some (Returns (Some (kept', dropped, res))) \<Rightarrow>
          map_option
            (\<lambda>x. bind_cxx x (\<lambda>(k, dropped', answers, ended). Returns (k, dropped @ dropped', res # answers, ended)))
            (pingLoop readSome writeSome reset kept' rs))"

section \<open>Echo\<close>

record EchoConfig =
  max_server_repeats :: u64
  max_recv_size :: u64

definition EchoConfig_default :: EchoConfig where
  "EchoConfig_default = \<lparr>max_server_repeats = 0, max_recv_size = 4096\<rparr>"

definition Echo_getProtocolIds :: "ProtocolName list" where
  "Echo_getProtocolIds = [''/echo/1.0.0'']"

definition repeat_infinitely :: "EchoConfig \<Rightarrow> bool" where
  "repeat_infinitely cfg \<longleftrightarrow> max_server_repeats cfg = 0"

partial_function (option) doRead ::
  "('s, 'e) reader \<Rightarrow> ('s, 'e) writer \<Rightarrow> EchoConfig \<Rightarrow> u64 \<Rightarrow> 's \<Rightarrow> 's cxx option" where
  "doRead readSome writeSome cfg max_repeat s =
     (if repeat_infinitely cfg \<or> max_repeat \<noteq> 0
      then
        (case readSome s (unat (max_recv_size cfg)) of
           (Inl e, s') \<Rightarrow> Some (Returns s')
         | (Inr buf, s') \<Rightarrow>
             (case write_all writeSome s' buf of
                (Inl e, s'') \<Rightarrow> Some (if logic_error e then Throws else Returns s'')
              | (Inr _, s'') \<Rightarrow>
                  doRead readSome writeSome cfg (if repeat_infinitely cfg then max_repeat else max_repeat - 1) s''))
      else Some (Returns s))"

definition echo_handle ::
  "('s, 'e) reader \<Rightarrow> ('s, 'e) writer \<Rightarrow> ('s \<Rightarrow> ('e, unit) result \<times> 's) \<Rightarrow> EchoConfig \<Rightarrow> 's \<Rightarrow> 's cxx option" where
  "echo_handle readSome writeSome close cfg s =
     map_option (\<lambda>r. bind_cxx r (\<lambda>s'. Returns (snd (close s'))))
       (doRead readSome writeSome cfg (max_server_repeats cfg) s)"

section \<open>Identify\<close>

text \<open>The message of the generated protobuf class, and its codec: \<open>None\<close> is a failure.\<close>

record IdentifyPb =
  pb_protocolversion :: string
  pb_agentversion :: string
  pb_publickey :: bytes
  pb_listenaddrs :: "bytes list"
  pb_observedaddr :: bytes
  pb_protocols :: "string list"

record identify_codec =
  pb_encode :: "IdentifyPb \<Rightarrow> bytes option"
  pb_decode :: "bytes \<Rightarrow> IdentifyPb option"

record IdentifyConfig =
  protocol_version :: string
  agent_version :: string
  listen_addresses :: "Multiaddress list"

record IdentifyInfo =
  ii_peer_id :: PeerId
  ii_protocol_version :: string
  ii_agent_version :: string
  ii_listen_addresses :: "Multiaddress list"
  ii_observed_address :: Multiaddress
  ii_protocols :: "ProtocolName list"

definition Identify_getProtocolIds :: "ProtocolName list" where
  "Identify_getProtocolIds = [''/ipfs/id/1.0.0'']"

text \<open>The message a host sends; \<open>value()\<close> of a failed result throws.\<close>

definition identify_message ::
  "(pb_KeyType \<Rightarrow> bytes \<Rightarrow> bytes) \<Rightarrow> IdentifyConfig \<Rightarrow> IdentityManager \<Rightarrow> ProtocolName list \<Rightarrow> ('e, Multiaddress) result
     \<Rightarrow> IdentifyPb cxx" where
  "identify_message serialize cfg idmgr protos remoteMultiaddr =
     (case marshal serialize (publicKey (im_keyPair idmgr)) of
        Inl e \<Rightarrow> Throws
      | Inr key \<Rightarrow>
          (case remoteMultiaddr of
             Inl e \<Rightarrow> Throws
           | Inr remote \<Rightarrow>
               Returns
                 \<lparr>pb_protocolversion = protocol_version cfg,
                  pb_agentversion = agent_version cfg,
                  pb_publickey = key,
                  pb_listenaddrs = map ma_bytes (listen_addresses cfg),
                  pb_observedaddr = ma_bytes remote,
                  pb_protocols = protos\<rparr>))"

definition identify_handle ::
  "(pb_KeyType \<Rightarrow> bytes \<Rightarrow> bytes) \<Rightarrow> identify_codec \<Rightarrow> ('s, 'e) writer \<Rightarrow> ('s \<Rightarrow> 's) \<Rightarrow> IdentifyConfig \<Rightarrow> IdentityManager
     \<Rightarrow> ProtocolName list \<Rightarrow> ('x, Multiaddress) result \<Rightarrow> 's \<Rightarrow> 's cxx" where
  "identify_handle serialize codec writeSome reset cfg idmgr protos remoteMultiaddr s =
     bind_cxx (identify_message serialize cfg idmgr protos remoteMultiaddr) (\<lambda>pb_message.
       (case pb_encode codec pb_message of
          None \<Rightarrow> Throws
        | Some encoded \<Rightarrow>
            (case writeVarintMessage writeSome s encoded of
               None \<Rightarrow> Throws
             | Some (Inl e, s') \<Rightarrow> if logic_error e then Throws else Returns (reset s')
             | Some (Inr _, s') \<Rightarrow> Returns (reset s'))))"

text \<open>The receiving side: its repositories and what it has published.\<close>

record IdentifyHost =
  id_repo :: PeerRepository
  id_published :: "IdentifyInfo list"

fun create_all :: "address_lib \<Rightarrow> bytes list \<Rightarrow> (MultiaddressError, Multiaddress list) result" where
  "create_all lib [] = Inr []"
| "create_all lib (b # bs) =
     bind_result (create_from_bytes lib b) (\<lambda>a. bind_result (create_all lib bs) (\<lambda>as. Inr (a # as)))"

definition identify_info :: "address_lib \<Rightarrow> PeerId \<Rightarrow> IdentifyPb \<Rightarrow> (MultiaddressError, IdentifyInfo) result" where
  "identify_info lib peer_id pb_message =
     bind_result (create_from_bytes lib (pb_observedaddr pb_message)) (\<lambda>observed_address.
     bind_result (create_all lib (pb_listenaddrs pb_message)) (\<lambda>addresses.
       Inr \<lparr>ii_peer_id = peer_id,
            ii_protocol_version = pb_protocolversion pb_message,
            ii_agent_version = pb_agentversion pb_message,
            ii_listen_addresses = addresses,
            ii_observed_address = observed_address,
            ii_protocols = pb_protocols pb_message\<rparr>))"

definition identify_store :: "int \<Rightarrow> IdentifyInfo \<Rightarrow> IdentifyHost \<Rightarrow> IdentifyHost cxx" where
  "identify_store now message host =
     (let p = ii_peer_id message; repo = id_repo host
      in (case addProtocols p (ii_protocols message) (repo_proto repo) of
            (Inl e, _) \<Rightarrow> Throws
          | (Inr _, protos) \<Rightarrow>
              bind_cxx (upsertAddresses now p (ii_listen_addresses message) kRecentlyConnected (repo_addr repo))
                (\<lambda>(r, addrs).
                  case r of
                    Inl e \<Rightarrow> Throws
                  | Inr _ \<Rightarrow>
                      bind_cxx (updateUserAgent now p (ii_agent_version message) kRecentlyConnected (repo_uagent repo))
                        (\<lambda>agents.
                          Returns
                            (host\<lparr>id_repo := repo\<lparr>repo_proto := protos, repo_addr := addrs, repo_uagent := agents\<rparr>,
                                  id_published := id_published host @ [message]\<rparr>)))))"

definition identify_received ::
  "address_lib \<Rightarrow> identify_codec \<Rightarrow> int \<Rightarrow> PeerId \<Rightarrow> ('e io_error, bytes) result \<Rightarrow> IdentifyHost \<Rightarrow> IdentifyHost cxx" where
  "identify_received lib codec now peer_id r host =
     (case r of
        Inl e \<Rightarrow> if logic_error e then Throws else Returns host
      | Inr encoded \<Rightarrow>
          (case pb_decode codec encoded of
             None \<Rightarrow> Returns host
           | Some pb_message \<Rightarrow>
               (case identify_info lib peer_id pb_message of
                  Inl e \<Rightarrow> Returns host
                | Inr message \<Rightarrow> identify_store now message host)))"

definition recv_identify ::
  "address_lib \<Rightarrow> identify_codec \<Rightarrow> ('s, 'e) reader \<Rightarrow> ('s, 'e) writer \<Rightarrow> ('s \<Rightarrow> 's) \<Rightarrow> int \<Rightarrow> PeerId \<Rightarrow> ('e, 's) result
     \<Rightarrow> IdentifyHost \<Rightarrow> (IdentifyHost \<times> 's option) cxx option" where
  "recv_identify lib codec readSome writeSome reset now peer_id opening host =
     map_option
       (\<lambda>r. bind_cxx r (\<lambda>stream_result.
          (case stream_result of
             Inl e \<Rightarrow> Returns (host, None)
           | Inr (_, stream) \<Rightarrow>
               (let (encoded, stream') = readVarintMessage readSome stream kDefaultMaxMessage
                in bind_cxx (identify_received lib codec now peer_id encoded host) (\<lambda>host'.
                     Returns (host', Some (reset stream')))))))
       (newStream_on readSome writeSome Identify_getProtocolIds opening)"

section \<open>Streams that end\<close>

text \<open>A stream over which the other side has closed: reading past its bytes is an error.\<close>

definition stream_ends :: "('s, 'e) reader \<Rightarrow> ('s \<Rightarrow> bytes) \<Rightarrow> bool" where
  "stream_ends readSome pending \<longleftrightarrow> (\<forall>s n. pending s = [] \<longrightarrow> (\<exists>e s'. readSome s n = (Inl e, s')))"

lemma not_logic_error [simp]: "\<not> logic_error (StreamError e)"
  by (simp add: logic_error_def)

lemma duplex_read_exact:
  assumes "duplex_ok readSome writeSome pending sent" and "n \<le> length (pending s)"
  obtains s' where "read_exact readSome s n = (Inr (take n (pending s)), s')" and "pending s' = drop n (pending s)"
    and "sent s' = sent s"
  using read_exact_ok [of readSome pending n s] read_exact_keeps [of sent readSome s n] assms
  by (auto simp: duplex_ok_def)

lemma duplex_write_all:
  assumes "duplex_ok readSome writeSome pending sent"
  obtains s' where "write_all writeSome s bs = (Inr (), s')" and "sent s' = sent s @ bs" and "pending s' = pending s"
  using write_all_ok [of writeSome sent s bs] write_all_keeps [of pending writeSome s bs] assms
  by (auto simp: duplex_ok_def)

lemma read_exact_short:
  assumes "duplex_ok readSome writeSome pending sent" and "stream_ends readSome pending" and "length (pending s) < n"
  shows "\<exists>e s'. read_exact readSome s n = (Inl (StreamError e), s') \<and> sent s' = sent s"
proof -
  have keeps: "sent (snd (read_exact readSome s n)) = sent s"
    using read_exact_keeps [of sent readSome s n] assms(1) by (simp add: duplex_ok_def)
  have "\<exists>e s'. read_exact readSome s n = (Inl (StreamError e), s')"
    using assms(3)
  proof (induction n arbitrary: s rule: less_induct)
    case (less n)
    show ?case
    proof (cases "pending s = []")
      case True
      then obtain e s' where "readSome s n = (Inl e, s')" using assms(2) unfolding stream_ends_def by blast
      then show ?thesis using less.prems by (subst read_exact.simps) auto
    next
      case False
      then obtain k s1 where k: "1 \<le> k" "k \<le> n" "k \<le> length (pending s)"
        "readSome s n = (Inr (take k (pending s)), s1)" "pending s1 = drop k (pending s)"
        using assms(1) less.prems unfolding duplex_ok_def reader_ok_def by (metis gr_zeroI less_zeroE)
      then have "n - k < n" "length (pending s1) < n - k" using less.prems by auto
      then obtain e s' where "read_exact readSome s1 (n - k) = (Inl (StreamError e), s')"
        using less.IH by blast
      then show ?thesis using k less.prems by (subst read_exact.simps) (auto simp: min_def)
    qed
  qed
  then show ?thesis using keeps by force
qed

section \<open>Ping is answered by its echo\<close>

lemma ping_handle_echoes:
  assumes "duplex_ok readSome writeSome pending sent" and "stream_ends readSome pending"
  shows "\<exists>s'. ping_handle readSome writeSome s = Some (Returns s')
    \<and> sent s' = sent s @ take (kPingSize * (length (pending s) div kPingSize)) (pending s)"
proof (induction "length (pending s)" arbitrary: s rule: less_induct)
  case less
  show ?case
  proof (cases "length (pending s) < kPingSize")
    case True
    from read_exact_short [OF assms True] show ?thesis
      using True by (subst ping_handle.simps) auto
  next
    case False
    then have n: "kPingSize \<le> length (pending s)" by simp
    from duplex_read_exact [OF assms(1) n] obtain s1 where s1:
      "read_exact readSome s kPingSize = (Inr (take kPingSize (pending s)), s1)" "pending s1 = drop kPingSize (pending s)" "sent s1 = sent s" .
    from duplex_write_all [OF assms(1)] obtain s2 where s2:
      "write_all writeSome s1 (take kPingSize (pending s)) = (Inr (), s2)" "sent s2 = sent s1 @ take kPingSize (pending s)" "pending s2 = pending s1" .
    have "length (pending s2) < length (pending s)" using s1 s2 n by (simp add: kPingSize_def)
    from less [OF this] obtain s' where s': "ping_handle readSome writeSome s2 = Some (Returns s')"
      "sent s' = sent s2 @ take (kPingSize * (length (pending s2) div kPingSize)) (pending s2)" by blast
    have "length (pending s) div kPingSize = Suc (length (pending s2) div kPingSize)"
      using n s1 s2 by (simp add: le_div_geq kPingSize_def)
    then have "take (kPingSize * (length (pending s) div kPingSize)) (pending s)
      = take kPingSize (pending s) @ take (kPingSize * (length (pending s2) div kPingSize)) (pending s2)"
      using s1 s2 by (simp add: take_add)
    moreover have "ping_handle readSome writeSome s = ping_handle readSome writeSome s2"
      using s1 s2 by (subst ping_handle.simps) simp
    ultimately show ?thesis using s1 s2 s' by simp
  qed
qed

lemma ping_stream_reply:
  assumes "duplex_ok readSome writeSome pending sent" and "kPingSize \<le> length (pending s)"
  shows "\<exists>s'. ping_stream readSome writeSome message (t0, t1) s
      = Returns (if take kPingSize (pending s) = message then Inr ((t1 - t0) div 1000) else Inl INVALID_RESPONSE, s')
    \<and> sent s' = sent s @ message \<and> pending s' = drop kPingSize (pending s)"
proof -
  from duplex_write_all [OF assms(1)] obtain s1 where s1:
    "write_all writeSome s message = (Inr (), s1)" "sent s1 = sent s @ message" "pending s1 = pending s" .
  from duplex_read_exact [OF assms(1), of kPingSize s1] assms(2) s1(3) obtain s2 where s2:
    "read_exact readSome s1 kPingSize = (Inr (take kPingSize (pending s)), s2)" "pending s2 = drop kPingSize (pending s)" "sent s2 = sent s1"
    by auto
  from s1 s2 show ?thesis by (simp add: ping_stream_def)
qed

text \<open>
  Over streams that lose nothing, a ping succeeds exactly when the reply is
  its own message, any other 32 bytes are an invalid response, and the time is in
  microseconds. The handler of the other side returns every complete message it gets before
  the stream ends, however the bytes are split, and then returns itself: so the reply of the
  handler is accepted.
\<close>

theorem ping_answered:
  assumes "duplex_ok readA writeA pendingA sentA" and "duplex_ok readB writeB pendingB sentB"
    and "stream_ends readB pendingB" and "length message = kPingSize" and "pendingB b = message @ rest" and "length rest < kPingSize"
  shows "\<exists>b' reply. ping_handle readB writeB b = Some (Returns b') \<and> sentB b' = sentB b @ reply
    \<and> (\<forall>a. pendingA a = reply \<longrightarrow>
         (\<exists>a'. ping_stream readA writeA message (t0, t1) a = Returns (Inr ((t1 - t0) div 1000), a') \<and> pendingA a' = []))
    \<and> (\<forall>a other. pendingA a = other \<and> length other = kPingSize \<and> other \<noteq> message \<longrightarrow>
         (\<exists>a'. ping_stream readA writeA message (t0, t1) a = Returns (Inl INVALID_RESPONSE, a')))"
proof -
  have "length (pendingB b) div kPingSize = 1" using assms(4-6) by (simp add: kPingSize_def)
  then obtain b' where b': "ping_handle readB writeB b = Some (Returns b')" "sentB b' = sentB b @ message"
    using ping_handle_echoes [OF assms(2,3), of b] assms(4,5) by auto
  have "\<exists>a'. ping_stream readA writeA message (t0, t1) a = Returns (Inr ((t1 - t0) div 1000), a') \<and> pendingA a' = []"
    if "pendingA a = message" for a
    using ping_stream_reply [OF assms(1), of a message t0 t1] that assms(4) by auto
  moreover have "\<exists>a'. ping_stream readA writeA message (t0, t1) a = Returns (Inl INVALID_RESPONSE, a')"
    if "length (pendingA a) = kPingSize" "pendingA a \<noteq> message" for a
    using ping_stream_reply [OF assms(1), of a message t0 t1] that by auto
  ultimately show ?thesis using b' by blast
qed

section \<open>Echo returns every byte\<close>

definition echoed_ok :: "EchoConfig \<Rightarrow> u64 \<Rightarrow> nat \<Rightarrow> nat \<Rightarrow> bool" where
  "echoed_ok cfg max_repeat n k \<longleftrightarrow>
     (if repeat_infinitely cfg then k = n
      else k \<le> n \<and> min (unat max_repeat) n \<le> k \<and> k \<le> unat max_repeat * unat (max_recv_size cfg))"

lemma doRead_echoes:
  assumes "duplex_ok readSome writeSome pending sent" and "stream_ends readSome pending" and "max_recv_size cfg \<noteq> 0"
  shows "\<exists>s' k. doRead readSome writeSome cfg max_repeat s = Some (Returns s') \<and> sent s' = sent s @ take k (pending s)
    \<and> echoed_ok cfg max_repeat (length (pending s)) k"
proof (induction "length (pending s)" arbitrary: s max_repeat rule: less_induct)
  case less
  let ?n = "unat (max_recv_size cfg)" and ?inf = "repeat_infinitely cfg"
  have n: "0 < ?n" using assms(3) by (simp add: unat_gt_0)
  consider (ended) "\<not> ?inf" "max_repeat = 0" | (empty) "?inf \<or> max_repeat \<noteq> 0" "pending s = []"
    | (more) "?inf \<or> max_repeat \<noteq> 0" "pending s \<noteq> []" by blast
  then show ?case
  proof cases
    case ended
    then have "doRead readSome writeSome cfg max_repeat s = Some (Returns s)" by (subst doRead.simps) simp
    with ended show ?thesis by (auto simp: echoed_ok_def intro!: exI [of _ 0])
  next
    case empty
    then obtain e s' where e: "readSome s ?n = (Inl e, s')" using assms(2) unfolding stream_ends_def by blast
    have "sent (snd (readSome s ?n)) = sent s" using assms(1) unfolding duplex_ok_def by blast
    moreover have "doRead readSome writeSome cfg max_repeat s = Some (Returns s')"
      using empty e by (subst doRead.simps) simp
    ultimately show ?thesis using empty e by (auto simp: echoed_ok_def)
  next
    case more
    then obtain k s1 where k: "1 \<le> k" "k \<le> ?n" "k \<le> length (pending s)"
      "readSome s ?n = (Inr (take k (pending s)), s1)" "pending s1 = drop k (pending s)"
      using assms(1) n unfolding duplex_ok_def reader_ok_def by metis
    have "sent (snd (readSome s ?n)) = sent s" using assms(1) unfolding duplex_ok_def by blast
    then have sent1: "sent s1 = sent s" using k by simp
    from duplex_write_all [OF assms(1)] obtain s2 where s2: "write_all writeSome s1 (take k (pending s)) = (Inr (), s2)"
      "sent s2 = sent s1 @ take k (pending s)" "pending s2 = pending s1" .
    let ?r = "if ?inf then max_repeat else max_repeat - 1"
    have "length (pending s2) < length (pending s)" using k s2 by simp
    from less [OF this, of ?r] obtain s' j where s': "doRead readSome writeSome cfg ?r s2 = Some (Returns s')"
      "sent s' = sent s2 @ take j (pending s2)" "echoed_ok cfg ?r (length (pending s2)) j" by blast
    have "doRead readSome writeSome cfg max_repeat s = Some (Returns s')"
      using more k s2 s' by (subst doRead.simps) simp
    moreover have "sent s' = sent s @ take (k + j) (pending s)" using s' s2 k sent1 by (simp add: take_add)
    moreover have "echoed_ok cfg max_repeat (length (pending s)) (k + j)"
    proof (cases ?inf)
      case True
      then show ?thesis using s'(3) s2 k by (simp add: echoed_ok_def)
    next
      case False
      then have "unat max_repeat = Suc (unat (max_repeat - 1))" using more by (simp add: unat_minus_one unat_gt_0)
      then show ?thesis using False s'(3) s2 k by (auto simp: echoed_ok_def min_def split: if_splits)
    qed
    ultimately show ?thesis by blast
  qed
qed


text \<open>
  Over a stream that loses nothing and then ends, the echo handler returns,
  having sent back exactly a prefix of what it received, in order: all of it when it repeats
  without limit; otherwise at least one byte and at most \<open>max_recv_size\<close> bytes per repeat,
  until nothing is left.
\<close>

theorem echo_returns_bytes:
  assumes "duplex_ok readSome writeSome pending sent" and "stream_ends readSome pending" and "max_recv_size cfg \<noteq> 0"
  shows "\<exists>s' k. echo_handle readSome writeSome close cfg s = Some (Returns (snd (close s')))
    \<and> sent s' = sent s @ take k (pending s)
    \<and> (if max_server_repeats cfg = 0 then k = length (pending s)
       else k \<le> length (pending s) \<and> min (unat (max_server_repeats cfg)) (length (pending s)) \<le> k
         \<and> k \<le> unat (max_server_repeats cfg) * unat (max_recv_size cfg))"
  using doRead_echoes [OF assms, of "max_server_repeats cfg" s]
  by (auto simp: echo_handle_def echoed_ok_def repeat_infinitely_def split: if_splits)

section \<open>Identify tells the other side about a host\<close>

text \<open>An address that can be sent: one that some parts represent.\<close>

definition sendable :: "address_lib \<Rightarrow> Multiaddress \<Rightarrow> bool" where
  "sendable lib a \<longleftrightarrow> (\<exists>ps. ps \<noteq> [] \<and> represents lib a ps)"

lemma sendable_create: "sendable lib a \<Longrightarrow> create_from_bytes lib (ma_bytes a) = Inr a"
proof -
  assume "sendable lib a"
  then obtain ps where ps: "ps \<noteq> []" "list_all (part_ok lib) ps"
    "stringified_address a = ma_text ps" "ma_bytes a = ma_wire lib ps" by (auto simp: sendable_def represents_def)
  then show ?thesis using create_represents(2) [OF ps(2,1)] by (cases a) simp
qed

lemma create_all_sendable: "list_all (sendable lib) as \<Longrightarrow> create_all lib (map ma_bytes as) = Inr as"
  by (induction as) (simp_all add: sendable_create)

lemma kRecentlyConnected_ok: "ttl_ok kRecentlyConnected"
  by (simp add: ttl_ok_def kRecentlyConnected_def)

text \<open>The repositories of the receiver.\<close>

definition repo_inv :: "PeerRepository \<Rightarrow> bool" where
  "repo_inv r \<longleftrightarrow> addr_inv (repo_addr r) \<and> proto_inv (repo_proto r)"

definition knows :: "PeerRepository \<Rightarrow> int \<Rightarrow> IdentifyInfo \<Rightarrow> bool" where
  "knows r now message \<longleftrightarrow>
     (let p = ii_peer_id message in
        (\<forall>a \<in> set (ii_listen_addresses message). addr_abs (repo_addr r) p a = Some (expiry now kRecentlyConnected))
        \<and> (\<exists>ps. getProtocols_of p (repo_proto r) = Inr ps \<and> set (ii_protocols message) \<subseteq> set ps)
        \<and> getUserAgent p (repo_uagent r) = Some (ii_agent_version message))"

lemma identify_store_ok:
  assumes "repo_inv (id_repo host)"
  shows "\<exists>host'. identify_store now message host = Returns host' \<and> repo_inv (id_repo host')
    \<and> id_published host' = id_published host @ [message] \<and> knows (id_repo host') now message"
proof -
  let ?p = "ii_peer_id message" and ?r = "id_repo host"
  have inv: "addr_inv (repo_addr ?r)" "proto_inv (repo_proto ?r)" using assms by (simp_all add: repo_inv_def)
  obtain protos where protos: "addProtocols ?p (ii_protocols message) (repo_proto ?r) = (Inr (), protos)"
    by (simp add: addProtocols_def split_beta)
  then have pr: "proto_inv protos" "proto_abs protos = proto_spec (proto_abs (repo_proto ?r)) (Proto_add ?p (ii_protocols message))"
    using proto_step_refines [OF inv(2), of "Proto_add ?p (ii_protocols message)"] by auto
  from upsert_refines [OF inv(1) kRecentlyConnected_ok, of now ?p "ii_listen_addresses message"]
  obtain b addrs where ad: "upsertAddresses now ?p (ii_listen_addresses message) kRecentlyConnected (repo_addr ?r) = Returns (Inr b, addrs)"
    "addr_inv addrs" "addr_abs addrs = addr_spec (addr_abs (repo_addr ?r)) (Op_upsert now ?p (ii_listen_addresses message) kRecentlyConnected)"
    by (auto simp: upsertAddresses_def calculateExpirationTime_ok [OF kRecentlyConnected_ok] store_entry_def split: prod.splits)
  obtain agents where ag: "updateUserAgent now ?p (ii_agent_version message) kRecentlyConnected (repo_uagent ?r) = Returns agents"
    "getUserAgent ?p agents = Some (ii_agent_version message)"
    by (simp add: updateUserAgent_def calculateExpirationTime_ok [OF kRecentlyConnected_ok] getUserAgent_def update_conv')
  have "\<exists>ps. getProtocols_of ?p protos = Inr ps \<and> set (ii_protocols message) \<subseteq> set ps"
    using fun_cong [OF pr(2), of ?p] by (auto simp: proto_abs_def getProtocols_of_def getProtocolSet_def split: option.splits)
  then show ?thesis using protos pr ad ag
    by (simp add: identify_store_def Let_def repo_inv_def knows_def)
qed

lemma identify_frame:
  assumes "duplex_ok readSome writeSome pending sent" and "length message \<le> kDefaultMaxMessage"
  shows "\<exists>s'. writeVarintMessage writeSome s message = Some (Inr (), s')
    \<and> sent s' = sent s @ varint_bytes (word_of_nat (length message)) @ message"
proof -
  let ?v = "word_of_nat (length message) :: u64"
  obtain e where e: "encodeVarint ?v = Some e" "encodeVarint_bytes e = varint_bytes ?v"
    using encodeVarint_bytes_eq by blast
  from duplex_write_all [OF assms(1)] obtain s1 where s1: "write_all writeSome s (varint_bytes ?v) = (Inr (), s1)"
    "sent s1 = sent s @ varint_bytes ?v" by blast
  from duplex_write_all [OF assms(1)] obtain s2 where "write_all writeSome s1 message = (Inr (), s2)"
    "sent s2 = sent s1 @ message" by blast
  with e s1 show ?thesis by (simp add: writeVarintMessage_def)
qed

lemma identify_unframe:
  assumes "duplex_ok readSome writeSome pending sent" and "length message \<le> kDefaultMaxMessage"
    and "pending s = varint_bytes (word_of_nat (length message)) @ message @ rest"
  shows "\<exists>s'. readVarintMessage readSome s kDefaultMaxMessage = (Inr message, s')"
proof -
  let ?v = "word_of_nat (length message) :: u64"
  have v: "unat ?v = length message" using assms(2) by (simp add: unat_of_nat kDefaultMaxMessage_def)
  obtain t where t: "readVarint readSome s = (Inr ?v, t)" "pending t = message @ rest"
    using readVarint_ok [of readSome pending s ?v "message @ rest"] assms by (auto simp: duplex_ok_def)
  from duplex_read_exact [OF assms(1), of "length message" t] t(2) obtain s'
    where "read_exact readSome t (length message) = (Inr message, s')" by auto
  then show ?thesis using t v assms(2) by (simp add: readVarintMessage_def)
qed

text \<open>
  \<^bold>\<open>C26\<close> (roundtrip). What the identify handler of one host sends is what the other side stores
  and publishes: over streams that lose nothing, once the protocol is negotiated, the
  receiver knows the listen addresses for the time of a recent connection, the protocols and
  the agent of the peer it is connected to, and publishes one event with them and its own
  address as the other side observed it. The protobuf codec is assumed to decode what it
  encodes.
\<close>

theorem identify_roundtrip:
  fixes remoteMultiaddr :: "('x, Multiaddress) result"
  assumes "duplex_ok readA writeA pendingA sentA" and "duplex_ok readB writeB pendingB sentB"
    and "\<forall>m e. pb_encode codec m = Some e \<longrightarrow> pb_decode codec e = Some m"
    and "identify_message serialize cfg idmgr protos remoteMultiaddr = Returns pb" and "remoteMultiaddr = Inr remote"
    and "pb_encode codec pb = Some encoded"
    and "length encoded \<le> kDefaultMaxMessage" and "list_all (sendable lib) (remote # listen_addresses cfg)"
    and "repo_inv (id_repo host)"
  shows "\<exists>a' wire. identify_handle serialize codec writeA resetA cfg idmgr protos remoteMultiaddr a = Returns (resetA a')
    \<and> sentA a' = sentA a @ wire
    \<and> (\<forall>b rest. pendingB b = frame kProtocolId @ frame ''/ipfs/id/1.0.0'' @ wire @ rest \<longrightarrow>
         (\<exists>b' host' info. recv_identify lib codec readB writeB resetB now peer (Inr b) host = Some (Returns (host', Some (resetB b')))
            \<and> repo_inv (id_repo host') \<and> knows (id_repo host') now info \<and> id_published host' = id_published host @ [info]
            \<and> info = \<lparr>ii_peer_id = peer, ii_protocol_version = protocol_version cfg, ii_agent_version = agent_version cfg,
                       ii_listen_addresses = listen_addresses cfg, ii_observed_address = remote, ii_protocols = protos\<rparr>))"
proof -
  let ?wire = "varint_bytes (word_of_nat (length encoded)) @ encoded"
  let ?info = "\<lparr>ii_peer_id = peer, ii_protocol_version = protocol_version cfg, ii_agent_version = agent_version cfg,
    ii_listen_addresses = listen_addresses cfg, ii_observed_address = remote, ii_protocols = protos\<rparr>"
  obtain a' where "writeVarintMessage writeA a encoded = Some (Inr (), a')" "sentA a' = sentA a @ ?wire"
    using identify_frame [OF assms(1,7)] by blast
  then have a: "identify_handle serialize codec writeA resetA cfg idmgr protos remoteMultiaddr a = Returns (resetA a')"
    "sentA a' = sentA a @ ?wire" using assms(4,6) by (simp_all add: identify_handle_def)
  have info: "identify_info lib peer pb = Inr ?info"
    using assms(4,5,8) by (auto simp: identify_message_def identify_info_def sendable_create create_all_sendable split: sum.splits)
  obtain host' where host': "identify_store now ?info host = Returns host'" "repo_inv (id_repo host')"
    "id_published host' = id_published host @ [?info]" "knows (id_repo host') now ?info"
    using identify_store_ok [OF assms(9)] by blast
  have id: "name_ok ''/ipfs/id/1.0.0''" "''/ipfs/id/1.0.0'' \<noteq> kNA"
    by (simp_all add: name_ok_def kNA_def kMaxMessageSize_def kMaxVarintSize_def)
  have "\<exists>b'. recv_identify lib codec readB writeB resetB now peer (Inr b) host = Some (Returns (host', Some (resetB b')))"
    if p: "pendingB b = frame kProtocolId @ frame ''/ipfs/id/1.0.0'' @ ?wire @ rest" for b rest
  proof -
    obtain b1 where b1: "selectOneOf readB writeB [''/ipfs/id/1.0.0''] True True b = Some (Returns (Inr ''/ipfs/id/1.0.0'', b1))"
      "pendingB b1 = ?wire @ rest" using selectOneOf_initiator [OF assms(2) id p] by blast
    obtain b' where "readVarintMessage readB b1 kDefaultMaxMessage = (Inr encoded, b')"
      using identify_unframe [OF assms(2,7), of b1 rest] b1(2) by auto
    then show ?thesis using b1(1) assms(3,6) info host'(1)
      by (auto simp: recv_identify_def newStream_on_def Identify_getProtocolIds_def identify_received_def)
  qed
  with a host' show ?thesis by blast
qed


section \<open>Witnesses\<close>

lemma demo_ends: "stream_ends demo_read fst"
  by (auto simp: stream_ends_def demo_read_def slow_read_def)

theorem ping_answered_witness:
  "\<exists>b' reply. ping_handle demo_read demo_write (replicate kPingSize 7 @ [1, 2], []) = Some (Returns b') \<and> snd b' = [] @ reply
    \<and> (\<forall>a. fst a = reply \<longrightarrow>
         (\<exists>a'. ping_stream demo_read demo_write (replicate kPingSize 7) (5000, 9000) a = Returns (Inr ((9000 - 5000) div 1000), a')
            \<and> fst a' = []))"
  using ping_answered [OF demo_duplex demo_duplex demo_ends,
      where message = "replicate kPingSize 7" and rest = "[1, 2]" and b = "(replicate kPingSize 7 @ [1, 2], [])" and ?t0.0 = 5000 and ?t1.0 = 9000]
  by (auto simp: kPingSize_def)

theorem echo_returns_bytes_witness:
  "\<exists>s' k. echo_handle demo_read demo_write (\<lambda>s. (Inr (), s)) \<lparr>max_server_repeats = 2, max_recv_size = 2\<rparr> ([1, 2, 3, 4, 5, 6, 7], [])
      = Some (Returns s') \<and> snd s' = take k [1, 2, 3, 4, 5, 6, 7] \<and> 2 \<le> k \<and> k \<le> 4"
  using echo_returns_bytes [OF demo_duplex demo_ends, of "\<lparr>max_server_repeats = 2, max_recv_size = 2\<rparr>" "\<lambda>s. (Inr (), s)" "([1, 2, 3, 4, 5, 6, 7], [])"]
  by fastforce

text \<open>A host with one listen address and one protocol, and a codec that knows only its message.\<close>

definition demo_config :: IdentifyConfig where
  "demo_config = \<lparr>protocol_version = ''v1'', agent_version = ''lean'', listen_addresses = [sample_address sample_parts]\<rparr>"

definition demo_idmgr :: IdentityManager where
  "demo_idmgr =
     \<lparr>im_id = \<lparr>mh_bytes = [0, 0], mh_hash_offset = 2, mh_type = 0\<rparr>,
      im_keyPair = \<lparr>publicKey = \<lparr>key_type = Ed25519, key_data = [9]\<rparr>, privateKey = \<lparr>key_type = Ed25519, key_data = [8]\<rparr>\<rparr>\<rparr>"

definition demo_pb :: IdentifyPb where
  "demo_pb =
     \<lparr>pb_protocolversion = ''v1'', pb_agentversion = ''lean'', pb_publickey = [9],
      pb_listenaddrs = [ma_bytes (sample_address sample_parts)],
      pb_observedaddr = ma_bytes (sample_address sample_parts), pb_protocols = [''/ping'']\<rparr>"

definition demo_codec :: identify_codec where
  "demo_codec = \<lparr>pb_encode = (\<lambda>m. if m = demo_pb then Some [1, 2, 3] else None), pb_decode = (\<lambda>_. Some demo_pb)\<rparr>"

lemma sample_sendable: "sendable sample_lib (sample_address sample_parts)"
  using sample_represents(1) [of "length sample_parts"]
  by (auto simp: sendable_def sample_parts_def intro!: exI [of _ sample_parts])

lemma demo_codec_ok: "\<forall>m e. pb_encode demo_codec m = Some e \<longrightarrow> pb_decode demo_codec e = Some m"
  by (simp add: demo_codec_def)

lemma demo_message:
  "identify_message (\<lambda>_ d. d) demo_config demo_idmgr [''/ping''] (Inr (sample_address sample_parts)) = Returns demo_pb"
  by (simp add: identify_message_def marshal_def demo_config_def demo_idmgr_def demo_pb_def)

lemma repo_inv_new: "repo_inv PeerRepository_new"
  using addr_inv_new(1) by (simp add: repo_inv_def PeerRepository_new_def ProtocolRepository_new_def proto_inv_def)

theorem identify_roundtrip_witness:
  "\<exists>a' wire. identify_handle (\<lambda>_ d. d) demo_codec demo_write (\<lambda>s. s) demo_config demo_idmgr [''/ping'']
       (Inr (sample_address sample_parts) :: (unit, Multiaddress) result) ([], []) = Returns a'
     \<and> snd a' = wire
     \<and> (\<exists>host'. map_option (map_cxx fst) (recv_identify sample_lib demo_codec demo_read demo_write (\<lambda>s. s) 5 [1]
            (Inr (frame kProtocolId @ frame ''/ipfs/id/1.0.0'' @ wire @ [], [])) \<lparr>id_repo = PeerRepository_new, id_published = []\<rparr>)
          = Some (Returns host') \<and> length (id_published host') = 1)"
proof -
  have enc: "pb_encode demo_codec demo_pb = Some [1, 2, 3]" and len: "length [1 :: byte, 2, 3] \<le> kDefaultMaxMessage"
    by (simp_all add: demo_codec_def kDefaultMaxMessage_def)
  have ads: "list_all (sendable sample_lib) (sample_address sample_parts # listen_addresses demo_config)"
    using sample_sendable by (simp add: demo_config_def)
  let ?host = "\<lparr>id_repo = PeerRepository_new, id_published = []\<rparr>"
  have inv: "repo_inv (id_repo ?host)" using repo_inv_new by simp
  let ?info = "\<lparr>ii_peer_id = [1], ii_protocol_version = protocol_version demo_config, ii_agent_version = agent_version demo_config,
    ii_listen_addresses = listen_addresses demo_config, ii_observed_address = sample_address sample_parts, ii_protocols = [''/ping'']\<rparr>"
  from identify_roundtrip [OF demo_duplex demo_duplex demo_codec_ok demo_message refl enc len ads inv,
      where resetA = "\<lambda>s. s" and resetB = "\<lambda>s. s" and a = "([], [])" and now = 5 and peer = "[1]", where 'x = unit]
  obtain a' wire where a': "identify_handle (\<lambda>_ d. d) demo_codec demo_write (\<lambda>s. s) demo_config demo_idmgr [''/ping'']
       (Inr (sample_address sample_parts) :: (unit, Multiaddress) result) ([], []) = Returns a'" "snd a' = wire"
    and recv: "\<forall>b rest. fst b = frame kProtocolId @ frame ''/ipfs/id/1.0.0'' @ wire @ rest \<longrightarrow>
      (\<exists>b' host' info. recv_identify sample_lib demo_codec demo_read demo_write (\<lambda>s. s) 5 [1] (Inr b) ?host = Some (Returns (host', Some b'))
        \<and> repo_inv (id_repo host') \<and> knows (id_repo host') 5 info \<and> id_published host' = id_published ?host @ [info] \<and> info = ?info)"
    by (elim exE conjE) (rule that, simp_all only: snd_conv append_Nil)
  from recv [rule_format, of "(frame kProtocolId @ frame ''/ipfs/id/1.0.0'' @ wire @ [], [])" "[]"] a' show ?thesis by auto
qed

end
