(* ===== verification/Host.thy ===== *)
theory Host
  imports Peer_Repository Dialer Listener
begin

text \<open>
  The host \<open>src/host/basic_host.cpp\<close>, which joins the identity, the listener manager, the
  dialer, the connection manager and the peer repository. The dialer, the listener manager
  and the host share one connection manager and one address repository: here the first is
  kept in the listener manager and the second in the peer repository, and the dialer works
  on them through \<open>the_dialer\<close> and \<open>put_dialer\<close>.

  The lemmas show that every interleaving of calls and network events keeps the components
  consistent with each other, that \<open>connectedness\<close> agrees with what \<open>connect\<close> does, and
  which addresses the host announces.
\<close>

section \<open>Model\<close>

record 't BasicHost =
  bh_idmgr :: IdentityManager
  bh_listener :: ListenerManager
  bh_protocols :: 't
  bh_dials :: DialMachine
  bh_repo :: PeerRepository

abbreviation bh_cmgr :: "'t BasicHost \<Rightarrow> Net" where
  "bh_cmgr h \<equiv> l_cmgr (bh_listener h)"

definition the_dialer :: "'t BasicHost \<Rightarrow> DialMachine" where
  "the_dialer h =
     (bh_dials h)\<lparr>dialer := (dialer (bh_dials h))\<lparr>cmgr := bh_cmgr h, addr_repo := repo_addr (bh_repo h)\<rparr>\<rparr>"

definition put_dialer :: "DialMachine \<Rightarrow> 't BasicHost \<Rightarrow> 't BasicHost" where
  "put_dialer m h =
     h\<lparr>bh_dials := m,
       bh_listener := (bh_listener h)\<lparr>l_cmgr := cmgr (dialer m)\<rparr>,
       bh_repo := (bh_repo h)\<lparr>repo_addr := addr_repo (dialer m)\<rparr>\<rparr>"

definition BasicHost_new :: "IdentityManager \<Rightarrow> 't \<Rightarrow> 't BasicHost" where
  "BasicHost_new idmgr protos =
     \<lparr>bh_idmgr = idmgr, bh_listener = ListenerManager_new Net_new, bh_protocols = protos,
      bh_dials = DialMachine_new AddressRepository_new, bh_repo = PeerRepository_new\<rparr>"

definition host_getId :: "'t BasicHost \<Rightarrow> PeerId" where
  "host_getId h = mh_bytes (im_id (bh_idmgr h))"

definition getObservedAddresses :: "'t BasicHost \<Rightarrow> Multiaddress list" where
  "getObservedAddresses h =
     (case getAddresses (host_getId h) (repo_addr (bh_repo h)) of Inl _ \<Rightarrow> [] | Inr as \<Rightarrow> as)"

text \<open>A \<open>std::set\<close> of addresses is a list ordered by \<open>operator<\<close>.\<close>

fun ma_set_insert :: "Multiaddress \<Rightarrow> Multiaddress list \<Rightarrow> Multiaddress list" where
  "ma_set_insert a [] = [a]"
| "ma_set_insert a (b # bs) =
     (if Multiaddress_less a b then a # b # bs
      else if Multiaddress_less b a then b # ma_set_insert a bs
      else b # bs)"

definition wildcard_part :: "Protocol \<times> string \<Rightarrow> bool" where
  "wildcard_part pv \<longleftrightarrow>
     (if p_code (fst pv) = IP4 then snd pv = ''0.0.0.0''
      else p_code (fst pv) = IP6 \<and> snd pv = ''::'')"

definition is_good_addr :: "Multiaddress \<Rightarrow> bool cxx" where
  "is_good_addr a = bind_cxx (getProtocolsWithValues a) (\<lambda>pvs. Returns (\<not> list_ex wildcard_part pvs))"

fun erase_bad :: "Multiaddress list \<Rightarrow> Multiaddress list cxx" where
  "erase_bad [] = Returns []"
| "erase_bad (a # as) =
     bind_cxx (is_good_addr a) (\<lambda>good.
     bind_cxx (erase_bad as) (\<lambda>rest. Returns (if good then a # rest else rest)))"

definition own_addresses :: "'t BasicHost \<Rightarrow> Multiaddress list" where
  "own_addresses h =
     getListenAddresses (bh_listener h) @ getListenAddressesInterfaces (bh_listener h) @ getObservedAddresses h"

definition host_getPeerInfo :: "'t BasicHost \<Rightarrow> PeerInfo cxx" where
  "host_getPeerInfo h =
     bind_cxx (erase_bad (fold ma_set_insert (own_addresses h) []))
       (\<lambda>as. Returns \<lparr>pi_id = host_getId h, pi_addresses = as\<rparr>)"

datatype Connectedness = NOT_CONNECTED | CONNECTED | CAN_CONNECT | CAN_NOT_CONNECT

definition connectedness :: "(Multiaddress \<Rightarrow> bool) list \<Rightarrow> PeerInfo \<Rightarrow> 't BasicHost \<Rightarrow> Connectedness" where
  "connectedness tmgr p h =
     (if getBestConnectionForPeer (pi_id p) (bh_cmgr h) \<noteq> None then CONNECTED
      else if \<exists>ma \<in> set (pi_addresses p). findBest tmgr ma \<noteq> None then CAN_CONNECT
      else
        (case getAddresses (pi_id p) (repo_addr (bh_repo h)) of
           Inr as \<Rightarrow> if \<exists>ma \<in> set as. findBest tmgr ma \<noteq> None then CAN_CONNECT else CAN_NOT_CONNECT
         | Inl _ \<Rightarrow> CAN_NOT_CONNECT))"

text \<open>
  The calls that change the host: \<open>connect\<close>, which runs until it returns or waits for a
  transport, and the delegations.
\<close>

definition host_connect :: "(Multiaddress \<Rightarrow> bool) list \<Rightarrow> PeerInfo \<Rightarrow> 't BasicHost \<Rightarrow> 't BasicHost cxx" where
  "host_connect tmgr p h =
     bind_cxx (dial_step tmgr (the_dialer h) (Op_dial (pi_id p) (pi_addresses p))) (\<lambda>m. Returns (put_dialer m h))"

definition host_disconnect :: "nat list \<Rightarrow> PeerId \<Rightarrow> 't BasicHost \<Rightarrow> 't BasicHost cxx" where
  "host_disconnect at_once p h =
     bind_cxx (dial_step [] (the_dialer h) (Op_network (Op_disconnect p at_once))) (\<lambda>m. Returns (put_dialer m h))"

definition host_listenProtocol :: "('t, 'h) htrie_lib \<Rightarrow> ProtocolName list \<Rightarrow> 'h \<Rightarrow> 't BasicHost \<Rightarrow> 't BasicHost" where
  "host_listenProtocol trie ids handler h = h\<lparr>bh_protocols := listenProtocol trie ids handler (bh_protocols h)\<rparr>"

definition host_getSupportedProtocols :: "('t, 'h) htrie_lib \<Rightarrow> 't BasicHost \<Rightarrow> ProtocolName list" where
  "host_getSupportedProtocols trie h = getSupportedProtocols trie (bh_protocols h)"

definition host_listener :: "address_lib \<Rightarrow> bind_fun \<Rightarrow> (Multiaddress \<Rightarrow> bool) list \<Rightarrow> ListenOp \<Rightarrow> 't BasicHost \<Rightarrow> 't BasicHost cxx" where
  "host_listener lib bind_socket tmgr x h =
     bind_cxx (listen_step lib bind_socket tmgr (bh_listener h) x) (\<lambda>m. Returns (h\<lparr>bh_listener := m\<rparr>))"

definition on_new_connection :: "nat \<Rightarrow> ('e, Multiaddress) result \<Rightarrow> 't BasicHost \<Rightarrow> PeerInfo option" where
  "on_new_connection c remoteMultiaddr h =
     (case remoteMultiaddr of
        Inl _ \<Rightarrow> None
      | Inr a \<Rightarrow> Some \<lparr>pi_id = remotePeer c (bh_cmgr h), pi_addresses = [a]\<rparr>)"

text \<open>
  What happens to a host: its calls, what the transports, lsquic and the accept loops
  report, and what its users store in the repository of addresses.
\<close>

datatype 'h HostOp =
    H_connect PeerInfo
  | H_dialed PeerId "(NetErrc, PeerId \<times> bool) result"
  | H_disconnect PeerId "nat list"
  | H_conn_closed nat
  | H_serve_end nat
  | H_listener ListenOp
  | H_listenProtocol "ProtocolName list" 'h
  | H_addresses AddrOp

definition host_dials :: "(Multiaddress \<Rightarrow> bool) list \<Rightarrow> DialOp \<Rightarrow> 't BasicHost \<Rightarrow> 't BasicHost cxx" where
  "host_dials tmgr x h = bind_cxx (dial_step tmgr (the_dialer h) x) (\<lambda>m. Returns (put_dialer m h))"

fun host_step ::
  "address_lib \<Rightarrow> bind_fun \<Rightarrow> (Multiaddress \<Rightarrow> bool) list \<Rightarrow> ('t, 'h) htrie_lib \<Rightarrow> 't BasicHost \<Rightarrow> 'h HostOp \<Rightarrow> 't BasicHost cxx" where
  "host_step lib b tmgr trie h (H_connect p) = host_connect tmgr p h"
| "host_step lib b tmgr trie h (H_dialed p r) = host_dials tmgr (Op_dialed p r) h"
| "host_step lib b tmgr trie h (H_disconnect p at_once) = host_disconnect at_once p h"
| "host_step lib b tmgr trie h (H_conn_closed c) = host_dials tmgr (Op_network (Op_conn_closed c)) h"
| "host_step lib b tmgr trie h (H_serve_end c) = host_dials tmgr (Op_network (Op_serve_end c)) h"
| "host_step lib b tmgr trie h (H_listener x) = host_listener lib b tmgr x h"
| "host_step lib b tmgr trie h (H_listenProtocol ids handler) = Returns (host_listenProtocol trie ids handler h)"
| "host_step lib b tmgr trie h (H_addresses x) =
     bind_cxx (addr_step (repo_addr (bh_repo h)) x) (\<lambda>r. Returns (h\<lparr>bh_repo := (bh_repo h)\<lparr>repo_addr := r\<rparr>\<rparr>))"

section \<open>The components stay consistent\<close>

fun host_op_ok :: "'h HostOp \<Rightarrow> bool" where
  "host_op_ok (H_dialed p r) \<longleftrightarrow> dial_op_ok (Op_dialed p r)"
| "host_op_ok (H_addresses x) \<longleftrightarrow> op_ok x"
| "host_op_ok _ \<longleftrightarrow> True"

definition host_inv :: "'t BasicHost \<Rightarrow> bool" where
  "host_inv h \<longleftrightarrow> lm_inv (bh_listener h) \<and> dial_inv (the_dialer h) \<and> addr_inv (repo_addr (bh_repo h))"

lemma the_dialer_simps [simp]:
  "cmgr (dialer (the_dialer h)) = bh_cmgr h" "addr_repo (dialer (the_dialer h)) = repo_addr (bh_repo h)"
  "awaiting (the_dialer h) = awaiting (bh_dials h)" "answers (the_dialer h) = answers (bh_dials h)"
  "dialing_peers (dialer (the_dialer h)) = dialing_peers (dialer (bh_dials h))"
  by (simp_all add: the_dialer_def)

lemma the_dialer_put [simp]: "the_dialer (put_dialer m h) = m"
  by (simp add: the_dialer_def put_dialer_def)

lemma lm_inv_cmgr [simp]: "lm_inv (m\<lparr>l_cmgr := n\<rparr>) = lm_inv m"
  by (simp add: lm_inv_def)

lemma put_dialer_simps [simp]:
  "bh_listener (put_dialer m h) = (bh_listener h)\<lparr>l_cmgr := cmgr (dialer m)\<rparr>"
  "repo_addr (bh_repo (put_dialer m h)) = addr_repo (dialer m)"
  by (simp_all add: put_dialer_def)

text \<open>Dialing touches the addresses only with \<open>dialFailed\<close>.\<close>

lemma rotate_addr_repo [simp]: "addr_repo (snd (rotate tmgr p d)) = addr_repo d"
proof (cases "map_of (dialing_peers d) p")
  case None
  then show ?thesis by (subst rotate.simps) simp
next
  case (Some ctx)
  then show ?thesis by (simp add: rotate_eq split: list.split)
qed

lemma settle_addr_repo: "addr_repo (dialer (settle p r m)) = addr_repo (snd r)"
  by (simp add: settle_def split: prod.split Dialing.split)

lemma dialFailed_inv: "addr_inv r \<Longrightarrow> addr_inv (dialFailed p a r)"
  using dialFailed_refines [of r p a] by auto

lemma dial_step_addr_inv:
  assumes "dial_step tmgr m x = Returns m'" and "addr_inv (addr_repo (dialer m))"
  shows "addr_inv (addr_repo (dialer m'))"
proof (cases x)
  case (Op_dial p as)
  have "addr_repo (snd (dial tmgr p as (dialer m))) = addr_repo (dialer m)"
    by (simp add: dial_def split: option.split)
  with assms Op_dial show ?thesis by (auto simp: settle_addr_repo)
next
  case (Op_dialed p r)
  have "addr_inv (addr_repo (snd (rotate_dialed tmgr p a s d)))" if "addr_inv (addr_repo d)" for a s d
    using that by (simp add: rotate_dialed_def dialFailed_inv split: option.split sum.split)
  with assms Op_dialed show ?thesis
    by (auto simp: settle_addr_repo Let_def connected_def split: option.splits sum.splits)
next
  case (Op_network y)
  with assms show ?thesis by (cases "net_step (cmgr (dialer m)) y") auto
qed

text \<open>The listener manager changes the connections only by accepting one.\<close>

lemma close_obj_cmgr [simp]: "l_cmgr (snd (close_obj i m)) = l_cmgr m"
  by (simp add: close_obj_def split: prod.split)

lemma stop_loop_cmgr: "l_cmgr (snd (stop_loop ls m)) = l_cmgr m"
proof (induction ls arbitrary: m)
  case (Cons x ls)
  obtain ma i where x: "x = (ma, i)" by fastforce
  obtain r m1 where c: "close_obj i m = (r, m1)" by fastforce
  obtain ls' m2 where s: "stop_loop ls m1 = (ls', m2)" by fastforce
  have "l_cmgr m1 = l_cmgr m" "l_cmgr m2 = l_cmgr m1"
    using close_obj_cmgr [of i m] Cons [of m1] c s by simp_all
  then show ?case using x c s by (cases r) simp_all
qed simp

lemma accept_wait_cmgr [simp]: "l_cmgr (accept_wait i m) = l_cmgr m"
  by (simp add: accept_wait_def)

lemma tick_cmgr: "l_cmgr (fold accept_wait is m) = l_cmgr m"
  by (induction "is" arbitrary: m) simp_all

lemma accepted_cmgr:
  "l_cmgr (accepted i r m) = l_cmgr m \<or> (\<exists>p closed. net_step (l_cmgr m) (Op_connected p closed) = Returns (l_cmgr (accepted i r m)))"
  by (auto simp: accepted_def Let_def split: sum.split)

lemma listen_step_cmgr:
  assumes "listen_step lib b tmgr m x = Returns m'"
  shows "l_cmgr m' = l_cmgr m \<or> (\<exists>p closed. net_step (l_cmgr m) (Op_connected p closed) = Returns (l_cmgr m'))"
proof (cases x)
  case (L_listen in_executor ma)
  with assms show ?thesis
    by (auto simp: listen_def Let_def bind_cxx_def split: if_splits cxx.splits sum.splits prod.splits)
next
  case L_start
  with assms show ?thesis by (auto simp: start_def bind_cxx_def split: if_splits cxx.splits prod.splits)
next
  case L_stop
  obtain ls m1 where "stop_loop (listeners m) m = (ls, m1)" by fastforce
  with stop_loop_cmgr [of "listeners m" m] assms L_stop show ?thesis by (auto simp: stop_def)
next
  case (L_close ma)
  show ?thesis
  proof (cases "map_of (listeners m) ma")
    case None
    with assms L_close show ?thesis by (simp add: closeListener_def split: if_splits)
  next
    case (Some i)
    obtain r m1 where "close_obj i (m\<lparr>listeners := AList.delete ma (listeners m)\<rparr>) = (r, m1)" by fastforce
    with close_obj_cmgr [of i "m\<lparr>listeners := AList.delete ma (listeners m)\<rparr>"] Some assms L_close
    show ?thesis by (auto simp: closeListener_def Let_def split: if_splits)
  qed
next
  case (L_remove ma)
  with assms show ?thesis by (auto simp: removeListener_def split: option.splits)
next
  case L_tick
  with assms tick_cmgr [of "spawned m" "m\<lparr>spawned := []\<rparr>"] show ?thesis by (auto simp: tick_def)
next
  case (L_accepted i r)
  with assms accepted_cmgr show ?thesis by auto
qed

lemma host_dials_inv:
  assumes "host_inv h" and "dial_op_ok x" and "dial_step tmgr (the_dialer h) x = Returns m"
  shows "host_inv (put_dialer m h)"
proof -
  obtain m' where "dial_step tmgr (the_dialer h) x = Returns m'" "dial_inv m'"
    using dial_step_ok [of "the_dialer h" x tmgr] assms(1,2) by (auto simp: host_inv_def)
  moreover have "addr_inv (addr_repo (dialer m))"
    using dial_step_addr_inv [OF assms(3)] assms(1) by (simp add: host_inv_def)
  ultimately show ?thesis using assms(1,3) by (simp add: host_inv_def)
qed

lemma host_listener_inv:
  assumes "host_inv h" and "listen_step lib b tmgr (bh_listener h) x = Returns m"
  shows "host_inv (h\<lparr>bh_listener := m\<rparr>)"
proof -
  have "lm_inv m" using listener_machine.step_keeps [OF _ assms(2)] assms(1) by (simp add: host_inv_def)
  moreover have "dial_inv (the_dialer (h\<lparr>bh_listener := m\<rparr>))"
    using listen_step_cmgr [OF assms(2)]
  proof
    assume "l_cmgr m = bh_cmgr h"
    then have "the_dialer (h\<lparr>bh_listener := m\<rparr>) = the_dialer h" by (simp add: the_dialer_def)
    then show ?thesis using assms(1) by (simp add: host_inv_def)
  next
    assume "\<exists>p closed. net_step (bh_cmgr h) (Op_connected p closed) = Returns (l_cmgr m)"
    then obtain p closed where "net_step (bh_cmgr h) (Op_connected p closed) = Returns (l_cmgr m)" by blast
    then have "dial_step tmgr (the_dialer h) (Op_network (Op_connected p closed)) = Returns (the_dialer (h\<lparr>bh_listener := m\<rparr>))"
      by (simp add: the_dialer_def)
    then show ?thesis using dial_step_ok [of "the_dialer h" "Op_network (Op_connected p closed)" tmgr] assms(1)
      by (auto simp: host_inv_def)
  qed
  ultimately show ?thesis using assms(1) by (simp add: host_inv_def)
qed

lemma host_addresses_inv:
  assumes "host_inv h" and "op_ok x" and "addr_step (repo_addr (bh_repo h)) x = Returns r"
  shows "host_inv (h\<lparr>bh_repo := (bh_repo h)\<lparr>repo_addr := r\<rparr>\<rparr>)"
proof -
  have "addr_inv r" using addr_machine.step_safe [of "repo_addr (bh_repo h)" x] assms by (auto simp: host_inv_def)
  then show ?thesis using assms(1) by (simp add: host_inv_def dial_inv_but_def the_dialer_def)
qed

lemma host_step_inv:
  assumes "host_inv h" and "host_op_ok x" and "host_step lib b tmgr trie h x = Returns h'"
  shows "host_inv h'"
proof (cases x)
  case (H_listener y)
  with assms host_listener_inv show ?thesis
    by (cases "listen_step lib b tmgr (bh_listener h) y") (auto simp: host_listener_def)
next
  case (H_addresses y)
  with assms host_addresses_inv show ?thesis by (cases "addr_step (repo_addr (bh_repo h)) y") auto
next
  case (H_listenProtocol ids handler)
  with assms show ?thesis by (auto simp: host_listenProtocol_def host_inv_def the_dialer_def)
next
  case (H_connect p)
  let ?x = "Op_dial (pi_id p) (pi_addresses p)"
  from H_connect assms show ?thesis using host_dials_inv [OF assms(1), of ?x tmgr]
    by (cases "dial_step tmgr (the_dialer h) ?x") (auto simp: host_connect_def)
next
  case (H_disconnect p at_once)
  let ?x = "Op_network (Op_disconnect p at_once)"
  from H_disconnect assms show ?thesis using host_dials_inv [OF assms(1), of ?x "[]"]
    by (cases "dial_step [] (the_dialer h) ?x") (auto simp: host_disconnect_def)
next
  case (H_dialed p r)
  let ?x = "Op_dialed p r"
  from H_dialed assms show ?thesis using host_dials_inv [OF assms(1), of ?x tmgr]
    by (cases "dial_step tmgr (the_dialer h) ?x") (auto simp: host_dials_def)
next
  case (H_conn_closed c)
  let ?x = "Op_network (Op_conn_closed c)"
  from H_conn_closed assms show ?thesis using host_dials_inv [OF assms(1), of ?x tmgr]
    by (cases "dial_step tmgr (the_dialer h) ?x") (auto simp: host_dials_def)
next
  case (H_serve_end c)
  let ?x = "Op_network (Op_serve_end c)"
  from H_serve_end assms show ?thesis using host_dials_inv [OF assms(1), of ?x tmgr]
    by (cases "dial_step tmgr (the_dialer h) ?x") (auto simp: host_dials_def)
qed

interpretation host_machine: guarded_machine host_inv host_op_ok "host_step lib b tmgr trie" for lib b tmgr trie
  by unfold_locales (rule host_step_inv)

lemma host_inv_new: "host_inv (BasicHost_new idmgr protos)"
  using addr_inv_new(1)
  by (auto simp: host_inv_def BasicHost_new_def lm_inv_def ListenerManager_new_def dial_inv_but_def the_dialer_def
      DialMachine_new_def net_ok_new PeerRepository_new_def)

text \<open>
  \<^bold>\<open>C11\<close> (invariant). Whatever a host is asked to do and whatever the network reports, in any
  order and as long as nothing throws: what the events published on the bus tell is exactly
  the connections stored and the peers connected; every finished dial has returned an error
  other than an internal one or a connection to the peer that was dialed; one dial at most
  waits per peer; the stored addresses are what their signals tell; and no two listeners
  share an address.
\<close>

theorem host_consistent:
  assumes "run_cxx (host_step lib bind_socket tmgr trie) (BasicHost_new idmgr protos) xs = Returns h" and "list_all host_op_ok xs"
  shows "told (bh_cmgr h) = Some (stored (bh_cmgr h), set (getConnectedPeers (bh_cmgr h)))
    \<and> (\<forall>(p, r) \<in> set (answers (bh_dials h)).
         r \<noteq> Inl STATE_INCONSISTENCY \<and> r \<noteq> Inl HOST_UNREACHABLE
         \<and> (\<forall>c. r = Inr c \<longrightarrow> remotePeer c (bh_cmgr h) = p))
    \<and> distinct (map fst (awaiting (bh_dials h)))
    \<and> replay (signals (repo_addr (bh_repo h))) {} = Some (known (repo_addr (bh_repo h)))
    \<and> distinct (getListenAddresses (bh_listener h))"
proof -
  have inv: "host_inv h" using host_machine.run_guarded [OF host_inv_new assms(2,1)] .
  then have d: "dial_inv (the_dialer h)" and l: "lm_inv (bh_listener h)" and a: "addr_inv (repo_addr (bh_repo h))"
    by (simp_all add: host_inv_def)
  from d have n: "net_ok (bh_cmgr h)" by (simp add: dial_inv_but_def)
  have "dom (map_of (connections (bh_cmgr h))) = set (getConnectedPeers (bh_cmgr h))"
    by (simp add: getConnectedPeers_def dom_map_of_conv_image_fst)
  then show ?thesis using net_okD(3) [OF n] d l a
    by (auto simp: dial_inv_but_def answer_ok_def never_answered_def addr_inv_def lm_inv_def getListenAddresses_def)
qed

section \<open>Connecting does what \<open>connectedness\<close> says\<close>

text \<open>
  In every state of a host: a peer is \<open>CONNECTED\<close> exactly when an open
  connection to it is stored, and then \<open>connect\<close> returns such a connection at once and
  leaves the host as it is; when the peer is \<open>CAN_NOT_CONNECT\<close> and is not being dialed,
  \<open>connect\<close> returns an error at once, without a transport; and \<open>NOT_CONNECTED\<close> is never the
  answer.
\<close>

theorem connectedness_agrees:
  assumes "run_cxx (host_step lib bind_socket tmgr trie) (BasicHost_new idmgr protos) xs = Returns h" and "list_all host_op_ok xs"
  shows "connectedness tmgr p h \<noteq> NOT_CONNECTED
    \<and> (connectedness tmgr p h = CONNECTED
        \<longleftrightarrow> (\<exists>c \<in> stored (bh_cmgr h). remotePeer c (bh_cmgr h) = pi_id p \<and> \<not> isClosed c (bh_cmgr h)))
    \<and> (connectedness tmgr p h = CONNECTED \<longrightarrow>
         (\<exists>c. dial tmgr (pi_id p) (pi_addresses p) (dialer (the_dialer h)) = (Finished (Inr c), dialer (the_dialer h))
            \<and> remotePeer c (bh_cmgr h) = pi_id p \<and> \<not> isClosed c (bh_cmgr h)))
    \<and> (connectedness tmgr p h = CAN_NOT_CONNECT \<and> pi_id p \<notin> fst ` set (awaiting (bh_dials h)) \<longrightarrow>
         (\<exists>d. dial tmgr (pi_id p) (pi_addresses p) (dialer (the_dialer h))
            = (Finished (Inl (if pi_addresses p = [] then NO_DESTINATION_ADDRESS else ADDRESS_FAMILY_NOT_SUPPORTED)), d)))"
proof -
  let ?n = "bh_cmgr h" and ?p = "pi_id p"
  have inv: "host_inv h" using host_machine.run_guarded [OF host_inv_new assms(2,1)] .
  then have d: "dial_inv (the_dialer h)" by (simp add: host_inv_def)
  then have n: "net_ok ?n" and dp: "dom (map_of (dialing_peers (dialer (bh_dials h)))) = fst ` set (awaiting (bh_dials h))"
    by (simp_all add: dial_inv_but_def)
  note wf = net_okD(1) [OF n]
  have none: "getBestConnectionForPeer ?p ?n = None \<longleftrightarrow> \<not> (\<exists>c \<in> stored ?n. remotePeer c ?n = ?p \<and> \<not> isClosed c ?n)"
    using stored_to_peer [OF wf, of ?p]
    by (cases "map_of (connections ?n) ?p") (auto simp: getBestConnectionForPeer_def find_None_iff)
  have some: "remotePeer c ?n = ?p \<and> \<not> isClosed c ?n" if "getBestConnectionForPeer ?p ?n = Some c" for c
    using that net_wf_entry(4) [OF wf, of ?p]
    by (auto simp: getBestConnectionForPeer_def find_Some_iff split: option.splits)
  have con: "connectedness tmgr p h = CONNECTED \<longleftrightarrow> getBestConnectionForPeer ?p ?n \<noteq> None"
    and never: "connectedness tmgr p h \<noteq> NOT_CONNECTED"
    by (auto simp: connectedness_def split: sum.split)
  have cannot: "\<exists>d. dial tmgr ?p (pi_addresses p) (dialer (the_dialer h))
      = (Finished (Inl (if pi_addresses p = [] then NO_DESTINATION_ADDRESS else ADDRESS_FAMILY_NOT_SUPPORTED)), d)"
    if c: "connectedness tmgr p h = CAN_NOT_CONNECT" and w: "?p \<notin> fst ` set (awaiting (bh_dials h))"
  proof -
    have b: "getBestConnectionForPeer ?p ?n = None" and u: "\<forall>ma \<in> set (pi_addresses p). findBest tmgr ma = None"
      using c by (auto simp: connectedness_def split: if_splits)
    have "map_of (dialing_peers (dialer (bh_dials h))) ?p = None" using w dp by auto
    moreover from u have "dropWhile (\<lambda>a. findBest tmgr a = None) (pi_addresses p) = []" by (simp only: dropWhile_eq_Nil_conv)
    ultimately show ?thesis using b by (simp add: dial_def rotate_eq del: dropWhile_eq_Nil_conv)
  qed
  have can: "\<exists>c. dial tmgr ?p (pi_addresses p) (dialer (the_dialer h)) = (Finished (Inr c), dialer (the_dialer h))
      \<and> remotePeer c ?n = ?p \<and> \<not> isClosed c ?n" if "connectedness tmgr p h = CONNECTED"
    using that con some by (auto simp: dial_def)
  have iff: "connectedness tmgr p h = CONNECTED \<longleftrightarrow> (\<exists>c \<in> stored ?n. remotePeer c ?n = ?p \<and> \<not> isClosed c ?n)"
    using con none by simp
  show ?thesis by (intro conjI impI) (rule never, rule iff, erule can, erule conjE, erule (1) cannot)
qed


text \<open>
  A peer whose addresses are only in the repository \<open>CAN_CONNECT\<close>, but \<open>connect\<close> does not
  look there.
\<close>

lemma stored_addresses_not_dialed:
  "\<exists>h. run_cxx (host_step lib b [\<lambda>_. True] trie) (BasicHost_new idmgr protos) [H_addresses (Op_add 0 [1] [demo_addr 0] 10)] = Returns h
    \<and> connectedness [\<lambda>_. True] \<lparr>pi_id = [1], pi_addresses = []\<rparr> h = CAN_CONNECT
    \<and> fst (dial [\<lambda>_. True] [1] [] (dialer (the_dialer h))) = Finished (Inl NO_DESTINATION_ADDRESS)"
  by (simp add: BasicHost_new_def addAddresses_def calculateExpirationTime_ok ttl_ok_def store_entry_def addr_entry_def AddrPeer_new_def
      PeerRepository_new_def AddressRepository_new_def connectedness_def ListenerManager_new_def Net_new_def
      getBestConnectionForPeer_def getAddresses_def dial_def DialMachine_new_def the_dialer_def)

section \<open>The addresses a host announces\<close>

lemma Multiaddress_less_irrefl: "\<not> Multiaddress_less a a"
  by (simp add: Multiaddress_less_def)

lemma sorted_addresses_distinct: "sorted_wrt Multiaddress_less as \<Longrightarrow> distinct as"
  by (induction as) (auto simp: Multiaddress_less_irrefl)

lemma ma_set_insert_ok:
  assumes "sorted_wrt Multiaddress_less bs"
  shows "sorted_wrt Multiaddress_less (ma_set_insert a bs) \<and> set (ma_set_insert a bs) \<subseteq> insert a (set bs)
    \<and> stringified_address ` set (ma_set_insert a bs) = insert (stringified_address a) (stringified_address ` set bs)"
  using assms
proof (induction bs)
  case (Cons b bs)
  consider "Multiaddress_less a b" | "\<not> Multiaddress_less a b" "Multiaddress_less b a"
    | "\<not> Multiaddress_less a b" "\<not> Multiaddress_less b a" by blast
  then show ?case
  proof cases
    case 1
    with Cons.prems show ?thesis
      using string_less_trans by (auto simp: Multiaddress_less_def)
  next
    case 2
    with Cons show ?thesis by auto
  next
    case 3
    then have "stringified_address a = stringified_address b"
      using string_less_total by (simp add: Multiaddress_less_def)
    with 3 Cons.prems show ?thesis by auto
  qed
qed simp

lemma fold_ma_set_insert:
  assumes "sorted_wrt Multiaddress_less bs"
  shows "sorted_wrt Multiaddress_less (fold ma_set_insert as bs) \<and> set (fold ma_set_insert as bs) \<subseteq> set as \<union> set bs
    \<and> stringified_address ` set (fold ma_set_insert as bs) = stringified_address ` (set as \<union> set bs)"
  using assms
proof (induction as arbitrary: bs)
  case (Cons a as)
  have ins: "sorted_wrt Multiaddress_less (ma_set_insert a bs)" "set (ma_set_insert a bs) \<subseteq> insert a (set bs)"
    "stringified_address ` set (ma_set_insert a bs) = insert (stringified_address a) (stringified_address ` set bs)"
    using ma_set_insert_ok [OF Cons.prems, of a] by blast+
  from Cons.IH [OF ins(1)] ins(2) show ?case by (simp add: image_Un ins(3)) blast
qed simp

lemma getProtocolsWithValues_cong:
  "stringified_address a = stringified_address b \<Longrightarrow> getProtocolsWithValues a = getProtocolsWithValues b"
  by (simp add: getProtocolsWithValues_def)

lemma is_good_addr_cong: "stringified_address a = stringified_address b \<Longrightarrow> is_good_addr a = is_good_addr b"
  using getProtocolsWithValues_cong [of a b] by (simp add: is_good_addr_def)

lemma no_wildcard:
  "\<not> list_ex wildcard_part pvs
     \<longleftrightarrow> (IP4, ''0.0.0.0'') \<notin> map_prod p_code id ` set pvs \<and> (IP6, ''::'') \<notin> map_prod p_code id ` set pvs"
  by (induction pvs) (auto simp: wildcard_part_def)

lemma is_good_addr_throws: "is_good_addr a = Throws \<longleftrightarrow> getProtocolsWithValues a = Throws"
  by (cases "getProtocolsWithValues a") (simp_all add: is_good_addr_def)

lemma erase_bad_eq:
  "erase_bad as = (if \<exists>a \<in> set as. is_good_addr a = Throws then Throws else Returns (filter (\<lambda>a. is_good_addr a = Returns True) as))"
proof (induction as)
  case (Cons a as)
  then show ?case by (cases "is_good_addr a") auto
qed simp

text \<open>
  \<open>getPeerInfo\<close> announces, ordered and each once by its text, exactly the
  addresses the host listens on, is bound to or was told of that have no \<open>0.0.0.0\<close> or \<open>::\<close>
  in them; it fails only on an address whose text has no leading protocol.
\<close>

theorem peer_info_addresses:
  "case host_getPeerInfo h of
     Throws \<Rightarrow> \<exists>a \<in> set (own_addresses h). getProtocolsWithValues a = Throws
   | Returns info \<Rightarrow>
       pi_id info = host_getId h \<and> sorted_wrt Multiaddress_less (pi_addresses info) \<and> distinct (pi_addresses info)
       \<and> set (pi_addresses info) \<subseteq> set (own_addresses h)
       \<and> stringified_address ` set (pi_addresses info)
         = {stringified_address a | a pvs. a \<in> set (own_addresses h) \<and> getProtocolsWithValues a = Returns pvs
              \<and> (IP4, ''0.0.0.0'') \<notin> map_prod p_code id ` set pvs \<and> (IP6, ''::'') \<notin> map_prod p_code id ` set pvs}"
proof -
  let ?s = "fold ma_set_insert (own_addresses h) []" and ?all = "set (own_addresses h)"
  have s: "sorted_wrt Multiaddress_less ?s" "set ?s \<subseteq> ?all" "stringified_address ` set ?s = stringified_address ` ?all"
    using fold_ma_set_insert [of "[]" "own_addresses h"] by simp_all
  have good: "is_good_addr a = Returns True \<longleftrightarrow> (\<exists>pvs. getProtocolsWithValues a = Returns pvs
      \<and> (IP4, ''0.0.0.0'') \<notin> map_prod p_code id ` set pvs \<and> (IP6, ''::'') \<notin> map_prod p_code id ` set pvs)" for a
    by (cases "getProtocolsWithValues a") (simp_all add: is_good_addr_def no_wildcard)
  show ?thesis
  proof (cases "\<exists>a \<in> set ?s. is_good_addr a = Throws")
    case True
    then obtain a where "a \<in> ?all" "getProtocolsWithValues a = Throws"
      using s(2) is_good_addr_throws by blast
    with True show ?thesis by (auto simp: host_getPeerInfo_def erase_bad_eq)
  next
    case False
    let ?l = "filter (\<lambda>a. is_good_addr a = Returns True) ?s"
    have "sorted_wrt Multiaddress_less ?l" using s(1) by (rule sorted_wrt_filter)
    moreover from this have "distinct ?l" by (rule sorted_addresses_distinct)
    moreover have "stringified_address ` set ?l = stringified_address ` {a \<in> ?all. is_good_addr a = Returns True}"
    proof (intro equalityI subsetI)
      fix x assume "x \<in> stringified_address ` {a \<in> ?all. is_good_addr a = Returns True}"
      then obtain a where a: "x = stringified_address a" "a \<in> ?all" "is_good_addr a = Returns True" by blast
      then have "x \<in> stringified_address ` set ?s" using s(3) by blast
      then obtain b where b: "b \<in> set ?s" "x = stringified_address b" by blast
      have "is_good_addr b = Returns True" using a b is_good_addr_cong [of b a] by simp
      with b show "x \<in> stringified_address ` set ?l" by (intro image_eqI [of _ _ b]) simp_all
    qed (use s(2) in auto)
    ultimately show ?thesis using False s(2) by (auto simp: host_getPeerInfo_def erase_bad_eq good)
  qed
qed


section \<open>Witnesses\<close>

text \<open>A host that dials a peer, is connected, gets an address to store, and is disconnected by the network.\<close>

definition demo_ops :: "nat HostOp list" where
  "demo_ops =
     [H_connect \<lparr>pi_id = [1], pi_addresses = [demo_addr 0]\<rparr>, H_dialed [1] (Inr ([1], False)),
      H_addresses (Op_add 0 [1] [demo_addr 0] 10)]"

lemma demo_ops_ok: "list_all host_op_ok (demo_ops @ xs) \<longleftrightarrow> list_all host_op_ok xs"
  by (simp add: demo_ops_def ttl_ok_def)

lemma demo_run:
  "\<exists>h. run_cxx (host_step sample_lib Inr [\<lambda>_. True] alist_trie) (BasicHost_new idmgr []) demo_ops = Returns h
     \<and> getBestConnectionForPeer [1] (bh_cmgr h) = Some 0"
  by (simp add: demo_ops_def host_connect_def host_dials_def dial_def rotate.simps rotate_dialed_def Let_def settle_def
      connected_def onConnection_def addConnectionToPeer_def publish_def remotePeer_def isClosed_def getBestConnectionForPeer_def
      BasicHost_new_def ListenerManager_new_def Net_new_def DialMachine_new_def the_dialer_def put_dialer_def put_ctx_def completeDial_def
      addAddresses_def calculateExpirationTime_ok ttl_ok_def store_entry_def)


definition demo_identity :: IdentityManager where
  "demo_identity =
     \<lparr>im_id = \<lparr>mh_bytes = [0, 0], mh_hash_offset = 2, mh_type = 0\<rparr>,
      im_keyPair = \<lparr>publicKey = \<lparr>key_type = Ed25519, key_data = [9]\<rparr>, privateKey = \<lparr>key_type = Ed25519, key_data = [8]\<rparr>\<rparr>\<rparr>"

abbreviation demo_host_run :: "(ProtocolName \<times> nat option) list BasicHost cxx" where
  "demo_host_run \<equiv> run_cxx (host_step sample_lib Inr [\<lambda>_. True] alist_trie) (BasicHost_new demo_identity []) demo_ops"

theorem host_consistent_witness:
  "\<exists>h. demo_host_run = Returns h
     \<and> told (bh_cmgr h) = Some (stored (bh_cmgr h), set (getConnectedPeers (bh_cmgr h)))"
proof -
  obtain h where h: "demo_host_run = Returns h" using demo_run by blast
  have ok: "list_all host_op_ok demo_ops" using demo_ops_ok [of "[]"] by simp
  from h host_consistent [OF h ok] show ?thesis by blast
qed

theorem connectedness_agrees_witness:
  "\<exists>h. demo_host_run = Returns h
     \<and> connectedness [\<lambda>_. True] \<lparr>pi_id = [1], pi_addresses = []\<rparr> h = CONNECTED
     \<and> (\<exists>c. dial [\<lambda>_. True] [1] [] (dialer (the_dialer h)) = (Finished (Inr c), dialer (the_dialer h)))"
proof -
  obtain h where h: "demo_host_run = Returns h" "getBestConnectionForPeer [1] (bh_cmgr h) = Some 0" using demo_run by blast
  have ok: "list_all host_op_ok demo_ops" using demo_ops_ok [of "[]"] by simp
  have "connectedness [\<lambda>_. True] \<lparr>pi_id = [1], pi_addresses = []\<rparr> h = CONNECTED" using h(2) by (simp add: connectedness_def)
  with h(1) connectedness_agrees [OF h(1) ok, of "\<lparr>pi_id = [1], pi_addresses = []\<rparr>"] show ?thesis by auto
qed


end
