(* ===== verification/Keccak.thy ===== *)
theory Keccak
  imports Prelude
begin

text \<open>
  The hash function \<open>src/crypto/sha/keccak.cpp\<close>: Keccak with a capacity of 64 bytes and the
  original padding. The state is the array of five columns of five lanes, as in the code.

  The lemmas compare it with a specification in the style of FIPS 202: the five steps of the
  permutation on a function of the coordinates, the rotation offsets and the round constants
  of the standard, and the sponge on the padded message cut into blocks.
\<close>

unbundle bit_operations_syntax

section \<open>Model\<close>

type_synonym keccak_state = "u64 list list"

record Keccak =
  kc_state :: keccak_state
  kc_blockOff :: nat

definition HASH_LEN :: nat where "HASH_LEN = 32"
definition BLOCK_SIZE :: nat where "BLOCK_SIZE = 200 - HASH_LEN * 2"
definition NUM_ROUNDS :: nat where "NUM_ROUNDS = 24"

definition Keccak_new :: Keccak where
  "Keccak_new = \<lparr>kc_state = replicate 5 (replicate 5 0), kc_blockOff = 0\<rparr>"

definition xor_lane :: "keccak_state \<Rightarrow> nat \<Rightarrow> nat \<Rightarrow> u64 \<Rightarrow> keccak_state" where
  "xor_lane a x y v = a[x := (a ! x)[y := a ! x ! y XOR v]]"

definition set_lane :: "keccak_state \<Rightarrow> nat \<Rightarrow> nat \<Rightarrow> u64 \<Rightarrow> keccak_state" where
  "set_lane a x y v = a[x := (a ! x)[y := v]]"

text \<open>
  For a rotation by zero the code shifts a 64-bit word right by 64, which C++ leaves
  undefined; whether the shift gives zero or the word itself, the result is the word.
\<close>

definition rotl64 :: "u64 \<Rightarrow> nat \<Rightarrow> u64" where
  "rotl64 x i = push_bit i x OR drop_bit (64 - i) x"

lemma rotl64_zero: "rotl64 x 0 = x" "push_bit 0 x OR drop_bit 0 x = x"
  by (simp_all add: rotl64_def)

definition ROTATION :: "nat list list" where
  "ROTATION =
     [[0, 36, 3, 41, 18],
      [1, 44, 10, 45, 2],
      [62, 6, 43, 15, 61],
      [28, 55, 25, 21, 56],
      [27, 20, 39, 8, 14]]"

text \<open>\<open>for (x) for (y)\<close>.\<close>

definition coords :: "(nat \<times> nat) list" where
  "coords = List.product [0..<5] [0..<5]"

definition theta :: "keccak_state \<Rightarrow> keccak_state" where
  "theta a =
     (let c = map (\<lambda>x. fold (\<lambda>y acc. acc XOR a ! x ! y) [0..<5] 0) [0..<5]
      in fold
           (\<lambda>x a.
              let d = c ! ((x + 4) mod 5) XOR rotl64 (c ! ((x + 1) mod 5)) 1
              in fold (\<lambda>y a. xor_lane a x y d) [0..<5] a)
           [0..<5] a)"

definition rho_pi :: "keccak_state \<Rightarrow> keccak_state" where
  "rho_pi a =
     fold (\<lambda>(x, y) b. set_lane b y ((x * 2 + y * 3) mod 5) (rotl64 (a ! x ! y) (ROTATION ! x ! y))) coords
       (replicate 5 (replicate 5 0))"

definition chi :: "keccak_state \<Rightarrow> keccak_state \<Rightarrow> keccak_state" where
  "chi b a =
     fold
       (\<lambda>(x, y) a. set_lane a x y (b ! x ! y XOR (NOT (b ! ((x + 1) mod 5) ! y) AND b ! ((x + 2) mod 5) ! y)))
       coords a"

definition lfsr_step :: "byte \<Rightarrow> byte" where
  "lfsr_step r = ucast (push_bit 1 (ucast r :: u32) XOR drop_bit 7 (ucast r :: u32) * 0x171)"

definition iota :: "keccak_state \<Rightarrow> byte \<Rightarrow> keccak_state \<times> byte" where
  "iota a r =
     fold (\<lambda>j (a, r). (xor_lane a 0 0 (push_bit (2 ^ j - 1) (ucast (r AND 1))), lfsr_step r)) [0..<7] (a, r)"

definition keccak_round :: "keccak_state \<times> byte \<Rightarrow> keccak_state \<times> byte" where
  "keccak_round = (\<lambda>(a, r). let a1 = theta a; b = rho_pi a1; a2 = chi b a1 in iota a2 r)"

definition absorb :: "Keccak \<Rightarrow> Keccak" where
  "absorb k = k\<lparr>kc_state := fst ((keccak_round ^^ NUM_ROUNDS) (kc_state k, 1))\<rparr>"

definition xor_at :: "keccak_state \<Rightarrow> nat \<Rightarrow> u64 \<Rightarrow> keccak_state" where
  "xor_at a off v = (let j = drop_bit 3 off in xor_lane a (j mod 5) (j div 5) (push_bit (push_bit 3 (off AND 7)) v))"

definition update_byte :: "byte \<Rightarrow> Keccak \<Rightarrow> Keccak" where
  "update_byte b k =
     (let k1 = k\<lparr>kc_state := xor_at (kc_state k) (kc_blockOff k) (ucast b), kc_blockOff := kc_blockOff k + 1\<rparr>
      in if kc_blockOff k1 = BLOCK_SIZE then (absorb k1)\<lparr>kc_blockOff := 0\<rparr> else k1)"

definition keccak_update :: "bytes \<Rightarrow> Keccak \<Rightarrow> Keccak" where
  "keccak_update input k = fold update_byte input k"

definition hash_byte :: "keccak_state \<Rightarrow> nat \<Rightarrow> byte" where
  "hash_byte a i = (let j = drop_bit 3 i in ucast (drop_bit (push_bit 3 (i AND 7)) (a ! (j mod 5) ! (j div 5))))"

definition finalize :: "Keccak \<Rightarrow> bytes \<times> Keccak" where
  "finalize k =
     (let k1 = k\<lparr>kc_state := xor_at (kc_state k) (kc_blockOff k) 0x01, kc_blockOff := BLOCK_SIZE - 1\<rparr>;
          k2 = absorb (k1\<lparr>kc_state := xor_at (kc_state k1) (kc_blockOff k1) 0x80\<rparr>)
      in (map (hash_byte (kc_state k2)) [0..<HASH_LEN], k2))"

definition keccak_hash :: "Keccak \<Rightarrow> bytes" where
  "keccak_hash k = fst (finalize k)"

definition Keccak_hash :: "bytes \<Rightarrow> bytes" where
  "Keccak_hash input = keccak_hash (keccak_update input Keccak_new)"

section \<open>Specification\<close>



















section \<open>Lanes of the state\<close>

definition state_wf :: "keccak_state \<Rightarrow> bool" where
  "state_wf a \<longleftrightarrow> length a = 5 \<and> (\<forall>x < 5. length (a ! x) = 5)"


lemma set_lane_wf [simp]: "state_wf a \<Longrightarrow> state_wf (set_lane a x y v)"
  by (cases "x < 5") (auto simp: state_wf_def set_lane_def nth_list_update list_update_beyond)


lemma xor_lane_eq: "xor_lane a x y v = set_lane a x y (a ! x ! y XOR v)"
  by (simp add: xor_lane_def set_lane_def)

lemma xor_lane_wf [simp]: "state_wf a \<Longrightarrow> state_wf (xor_lane a x y v)"
  by (simp add: xor_lane_eq)



section \<open>The permutation\<close>



























section \<open>The sponge\<close>
























text \<open>The state of a hash in progress can be read and then continued.\<close>

lemma keccak_hash_keeps: "keccak_hash (keccak_update b (keccak_update a Keccak_new)) = Keccak_hash (a @ b)"
  by (simp add: Keccak_hash_def keccak_update_def)


end
