(* ===== verification/Hashers.thy ===== *)
theory Hashers
  imports Prelude
begin

text \<open>
  The hash functions of \<open>src/crypto/sha\<close> that wrap openssl, and the keyed hash of
  \<open>src/crypto/hmac_provider\<close>. All of them implement the interface \<open>Hasher\<close> of
  \<open>include/libp2p/crypto/hasher.hpp\<close>: bytes are written in pieces, the digest of what was
  written can be asked for at any time without changing the state, and the state can be
  reset. The calls of openssl are arguments; what is relied on is their documentation: a
  context stands for the bytes it was updated with since it was initialised. Any of them may
  report a failure. The interface is the locale \<open>hasher\<close>, which the four classes interpret.
\<close>

section \<open>The interface\<close>

datatype HashType = SHA1 | SHA256 | SHA512

datatype HmacProviderError =
  UNSUPPORTED_HASH_METHOD | FAILED_CREATE_CONTEXT | FAILED_INITIALIZE_CONTEXT
| FAILED_UPDATE_DIGEST | FAILED_FINALIZE_DIGEST | WRONG_DIGEST_SIZE

type_synonym 'a hash_result = "(HmacProviderError, 'a) result"

text \<open>
  The calls that can be made on a hasher; \<open>DigestOut n\<close> asks for the digest in a buffer of
  \<open>n\<close> bytes. The answer of a call that gives no bytes is the empty list.
\<close>

datatype hash_op = Write bytes | DigestOut nat | Digest | Reset

text \<open>What the interface promises: the answers, for the bytes written since the last reset.\<close>

fun hash_next :: "bytes \<Rightarrow> hash_op \<Rightarrow> bytes" where
  "hash_next m (Write data) = m @ data"
| "hash_next m Reset = []"
| "hash_next m _ = m"

fun hash_answer :: "(bytes \<Rightarrow> bytes) \<Rightarrow> bytes \<Rightarrow> hash_op \<Rightarrow> bytes" where
  "hash_answer H m (DigestOut _) = H m"
| "hash_answer H m Digest = H m"
| "hash_answer H m _ = []"

fun hash_spec :: "(bytes \<Rightarrow> bytes) \<Rightarrow> bytes \<Rightarrow> hash_op list \<Rightarrow> bytes list" where
  "hash_spec H m [] = []"
| "hash_spec H m (x # xs) = hash_answer H m x # hash_spec H (hash_next m x) xs"

text \<open>The calls of a program on one hasher, with their answers.\<close>

fun run_hasher :: "('s \<Rightarrow> 'op \<Rightarrow> ('s \<times> bytes hash_result) cxx) \<Rightarrow> 's \<Rightarrow> 'op list
    \<Rightarrow> ('s \<times> bytes hash_result list) cxx" where
  "run_hasher step s [] = Returns (s, [])"
| "run_hasher step s (x # xs) =
     bind_cxx (step s x) (\<lambda>(s', r). bind_cxx (run_hasher step s' xs) (\<lambda>(s'', rs). Returns (s'', r # rs)))"

text \<open>
  The contract: a state represents the bytes written to it. A call never leaves by an
  exception or through an invalid pointer; if it reports success its answer is the promised
  one; and it reports success when openssl does and the buffer has the right size.
\<close>

locale hasher =
  fixes documented :: bool
    and reliable :: bool
    and H :: "bytes \<Rightarrow> bytes"
    and valid :: "'s \<Rightarrow> bool"
    and repr :: "'s \<Rightarrow> bytes \<Rightarrow> bool"
    and ready :: "'s \<Rightarrow> bool"
    and kind :: "'op \<Rightarrow> hash_op"
    and sized :: "'op \<Rightarrow> bool"
    and step :: "'s \<Rightarrow> 'op \<Rightarrow> ('s \<times> bytes hash_result) cxx"
  assumes step_valid: "documented \<Longrightarrow> valid s \<Longrightarrow> \<exists>s' r. step s x = Returns (s', r) \<and> valid s'"
    and step_repr: "documented \<Longrightarrow> repr s m \<Longrightarrow> step s x = Returns (s', Inr out)
      \<Longrightarrow> out = hash_answer H m (kind x) \<and> repr s' (hash_next m (kind x))"
    and step_ready: "documented \<Longrightarrow> reliable \<Longrightarrow> repr s m \<Longrightarrow> ready s \<Longrightarrow> sized x \<Longrightarrow> step s x = Returns (s', r)
      \<Longrightarrow> \<not> isl r \<and> ready s'"
begin

lemma run_valid: "documented \<Longrightarrow> valid s \<Longrightarrow> \<exists>s' rs. run_hasher step s xs = Returns (s', rs) \<and> valid s'"
proof (induction xs arbitrary: s)
  case (Cons x xs)
  from step_valid [OF Cons.prems] obtain s1 r where "step s x = Returns (s1, r)" "valid s1" by blast
  with Cons.IH [OF Cons.prems(1) this(2)] show ?case by auto
qed simp

lemma run_repr:
  "documented \<Longrightarrow> repr s m \<Longrightarrow> run_hasher step s xs = Returns (s', map Inr outs)
     \<Longrightarrow> outs = hash_spec H m (map kind xs)"
proof (induction xs arbitrary: s m outs)
  case (Cons x xs)
  then obtain s1 out outs' where "step s x = Returns (s1, Inr out)" "outs = out # outs'"
      "run_hasher step s1 xs = Returns (s', map Inr outs')"
    by (auto simp: bind_cxx_def split: cxx.splits prod.splits)
  with step_repr [OF Cons.prems(1,2)] Cons.IH [OF Cons.prems(1), of s1] show ?case by simp
qed simp

lemma run_succeeds:
  "documented \<Longrightarrow> reliable \<Longrightarrow> valid s \<Longrightarrow> repr s m \<Longrightarrow> ready s \<Longrightarrow> list_all sized xs
     \<Longrightarrow> \<exists>s'. run_hasher step s xs = Returns (s', map Inr (hash_spec H m (map kind xs)))"
proof (induction xs arbitrary: s m)
  case (Cons x xs)
  from step_valid [OF Cons.prems(1,3)] obtain s1 r where s1: "step s x = Returns (s1, r)" "valid s1" by blast
  with step_ready [OF Cons.prems(1,2,4,5) _ s1(1)] Cons.prems(6) obtain out where r: "r = Inr out" "ready s1"
    by (cases r) auto
  with step_repr [OF Cons.prems(1,4)] s1
  have "out = hash_answer H m (kind x)" "repr s1 (hash_next m (kind x))" by blast+
  with Cons.IH [of s1 "hash_next m (kind x)"] Cons.prems s1 r show ?case by auto
qed simp

end

section \<open>SHA-1, SHA-256 and SHA-512\<close>

text \<open>
  The three calls openssl has for each of these functions, on a context of type \<open>'c\<close>: whether
  they succeed, the digest, and what they leave in the context.
\<close>

record 'c sha_api =
  SHA_Init :: "'c \<Rightarrow> bool \<times> 'c"
  SHA_Update :: "'c \<Rightarrow> bytes \<Rightarrow> bool \<times> 'c"
  SHA_Final :: "'c \<Rightarrow> bool \<times> bytes \<times> 'c"

text \<open>The members of \<open>Sha1\<close>, \<open>Sha256\<close> and \<open>Sha512\<close>, which are the same but for the type of the context.\<close>

record 'c Sha =
  ctx :: 'c
  initialized :: bool

definition no_bytes :: "'s \<times> unit hash_result \<Rightarrow> 's \<times> bytes hash_result" where
  "no_bytes = map_prod id (map_sum id (\<lambda>_. []))"

lemma no_bytes_simps [simp]: "no_bytes (s, Inl e) = (s, Inl e)" "no_bytes (s, Inr u) = (s, Inr [])"
  by (simp_all add: no_bytes_def)

lemma no_bytes_Inr: "no_bytes p = (s, Inr out) \<longleftrightarrow> p = (s, Inr ()) \<and> out = []"
  by (cases p; cases "snd p") (auto simp: no_bytes_def)

text \<open>\<open>Hasher::digest\<close>: a buffer of \<open>digestSize\<close> bytes is filled by \<open>digestOut\<close>.\<close>

definition Hasher_digest :: "nat \<Rightarrow> (nat \<Rightarrow> bytes hash_result) \<Rightarrow> bytes hash_result" where
  "Hasher_digest digestSize digestOut = digestOut digestSize"

subsection \<open>SHA-1\<close>

definition Sha1_digestSize :: nat where "Sha1_digestSize = 20"

definition Sha1_blockSize :: nat where "Sha1_blockSize = 64"

definition Sha1_hashType :: HashType where "Sha1_hashType = SHA1"

text \<open>The constructor; \<open>c\<close> is what is in the memory of the context.\<close>

definition Sha1_new :: "'c sha_api \<Rightarrow> 'c \<Rightarrow> 'c Sha" where
  "Sha1_new api c = (let (ok, c') = SHA_Init api c in \<lparr>ctx = c', initialized = ok\<rparr>)"

definition Sha1_write :: "'c sha_api \<Rightarrow> bytes \<Rightarrow> 'c Sha \<Rightarrow> 'c Sha \<times> unit hash_result" where
  "Sha1_write api data s =
     (if \<not> initialized s then (s, Inl FAILED_INITIALIZE_CONTEXT)
      else
        (let (ok, c') = SHA_Update api (ctx s) data; s' = s\<lparr>ctx := c'\<rparr>
         in if \<not> ok then (s', Inl FAILED_UPDATE_DIGEST) else (s', Inr ())))"

definition Sha1_digestOut :: "'c sha_api \<Rightarrow> nat \<Rightarrow> 'c Sha \<Rightarrow> bytes hash_result" where
  "Sha1_digestOut api out_size s =
     (if \<not> initialized s then Inl FAILED_INITIALIZE_CONTEXT
      else if out_size \<noteq> Sha1_digestSize then Inl WRONG_DIGEST_SIZE
      else
        (let (ok, out, _) = SHA_Final api (ctx s)
         in if \<not> ok then Inl FAILED_FINALIZE_DIGEST else Inr out))"

definition Sha1_sinkCtx :: "'c sha_api \<Rightarrow> 'c Sha \<Rightarrow> 'c Sha" where
  "Sha1_sinkCtx api s =
     (if initialized s
      then (let (_, _, c') = SHA_Final api (ctx s) in \<lparr>ctx = c', initialized = False\<rparr>)
      else s)"

definition Sha1_reset :: "'c sha_api \<Rightarrow> 'c Sha \<Rightarrow> 'c Sha \<times> unit hash_result" where
  "Sha1_reset api s =
     (let s1 = Sha1_sinkCtx api s; (ok, c') = SHA_Init api (ctx s1); s2 = s1\<lparr>ctx := c'\<rparr>
      in if \<not> ok then (s2, Inl FAILED_INITIALIZE_CONTEXT) else (s2\<lparr>initialized := True\<rparr>, Inr ()))"

text \<open>The function that hashes one message.\<close>

definition sha1 :: "'c sha_api \<Rightarrow> 'c \<Rightarrow> bytes \<Rightarrow> bytes hash_result" where
  "sha1 api c input =
     (let (s, r) = Sha1_write api input (Sha1_new api c)
      in bind_result r (\<lambda>_. Sha1_digestOut api 20 s))"

fun Sha1_step :: "'c sha_api \<Rightarrow> 'c Sha \<Rightarrow> hash_op \<Rightarrow> ('c Sha \<times> bytes hash_result) cxx" where
  "Sha1_step api s (Write data) = Returns (no_bytes (Sha1_write api data s))"
| "Sha1_step api s (DigestOut n) = Returns (s, Sha1_digestOut api n s)"
| "Sha1_step api s Digest = Returns (s, Hasher_digest Sha1_digestSize (\<lambda>n. Sha1_digestOut api n s))"
| "Sha1_step api s Reset = Returns (no_bytes (Sha1_reset api s))"

subsection \<open>SHA-256\<close>

definition Sha256_digestSize :: nat where "Sha256_digestSize = 32"

definition Sha256_blockSize :: nat where "Sha256_blockSize = 64"

definition Sha256_hashType :: HashType where "Sha256_hashType = SHA256"

text \<open>The constructor; \<open>c\<close> is what is in the memory of the context.\<close>

definition Sha256_new :: "'c sha_api \<Rightarrow> 'c \<Rightarrow> 'c Sha" where
  "Sha256_new api c = (let (ok, c') = SHA_Init api c in \<lparr>ctx = c', initialized = ok\<rparr>)"

definition Sha256_write :: "'c sha_api \<Rightarrow> bytes \<Rightarrow> 'c Sha \<Rightarrow> 'c Sha \<times> unit hash_result" where
  "Sha256_write api data s =
     (if \<not> initialized s then (s, Inl FAILED_INITIALIZE_CONTEXT)
      else
        (let (ok, c') = SHA_Update api (ctx s) data; s' = s\<lparr>ctx := c'\<rparr>
         in if \<not> ok then (s', Inl FAILED_UPDATE_DIGEST) else (s', Inr ())))"

definition Sha256_digestOut :: "'c sha_api \<Rightarrow> nat \<Rightarrow> 'c Sha \<Rightarrow> bytes hash_result" where
  "Sha256_digestOut api out_size s =
     (if \<not> initialized s then Inl FAILED_INITIALIZE_CONTEXT
      else if out_size \<noteq> Sha256_digestSize then Inl WRONG_DIGEST_SIZE
      else
        (let (ok, out, _) = SHA_Final api (ctx s)
         in if \<not> ok then Inl FAILED_FINALIZE_DIGEST else Inr out))"

definition Sha256_sinkCtx :: "'c sha_api \<Rightarrow> 'c Sha \<Rightarrow> 'c Sha" where
  "Sha256_sinkCtx api s =
     (if initialized s
      then (let (_, _, c') = SHA_Final api (ctx s) in \<lparr>ctx = c', initialized = False\<rparr>)
      else s)"

definition Sha256_reset :: "'c sha_api \<Rightarrow> 'c Sha \<Rightarrow> 'c Sha \<times> unit hash_result" where
  "Sha256_reset api s =
     (let s1 = Sha256_sinkCtx api s; (ok, c') = SHA_Init api (ctx s1); s2 = s1\<lparr>ctx := c'\<rparr>
      in if \<not> ok then (s2, Inl FAILED_INITIALIZE_CONTEXT) else (s2\<lparr>initialized := True\<rparr>, Inr ()))"

text \<open>The function that hashes one message.\<close>

definition sha256 :: "'c sha_api \<Rightarrow> 'c \<Rightarrow> bytes \<Rightarrow> bytes hash_result" where
  "sha256 api c input =
     (let (s, r) = Sha256_write api input (Sha256_new api c)
      in bind_result r (\<lambda>_. Sha256_digestOut api 32 s))"

fun Sha256_step :: "'c sha_api \<Rightarrow> 'c Sha \<Rightarrow> hash_op \<Rightarrow> ('c Sha \<times> bytes hash_result) cxx" where
  "Sha256_step api s (Write data) = Returns (no_bytes (Sha256_write api data s))"
| "Sha256_step api s (DigestOut n) = Returns (s, Sha256_digestOut api n s)"
| "Sha256_step api s Digest = Returns (s, Hasher_digest Sha256_digestSize (\<lambda>n. Sha256_digestOut api n s))"
| "Sha256_step api s Reset = Returns (no_bytes (Sha256_reset api s))"

subsection \<open>SHA-512\<close>

definition Sha512_digestSize :: nat where "Sha512_digestSize = 64"

definition Sha512_blockSize :: nat where "Sha512_blockSize = 128"

definition Sha512_hashType :: HashType where "Sha512_hashType = SHA512"

text \<open>The constructor; \<open>c\<close> is what is in the memory of the context.\<close>

definition Sha512_new :: "'c sha_api \<Rightarrow> 'c \<Rightarrow> 'c Sha" where
  "Sha512_new api c = (let (ok, c') = SHA_Init api c in \<lparr>ctx = c', initialized = ok\<rparr>)"

definition Sha512_write :: "'c sha_api \<Rightarrow> bytes \<Rightarrow> 'c Sha \<Rightarrow> 'c Sha \<times> unit hash_result" where
  "Sha512_write api data s =
     (if \<not> initialized s then (s, Inl FAILED_INITIALIZE_CONTEXT)
      else
        (let (ok, c') = SHA_Update api (ctx s) data; s' = s\<lparr>ctx := c'\<rparr>
         in if \<not> ok then (s', Inl FAILED_UPDATE_DIGEST) else (s', Inr ())))"

definition Sha512_digestOut :: "'c sha_api \<Rightarrow> nat \<Rightarrow> 'c Sha \<Rightarrow> bytes hash_result" where
  "Sha512_digestOut api out_size s =
     (if \<not> initialized s then Inl FAILED_INITIALIZE_CONTEXT
      else if out_size \<noteq> Sha512_digestSize then Inl WRONG_DIGEST_SIZE
      else
        (let (ok, out, _) = SHA_Final api (ctx s)
         in if \<not> ok then Inl FAILED_FINALIZE_DIGEST else Inr out))"

definition Sha512_sinkCtx :: "'c sha_api \<Rightarrow> 'c Sha \<Rightarrow> 'c Sha" where
  "Sha512_sinkCtx api s =
     (if initialized s
      then (let (_, _, c') = SHA_Final api (ctx s) in \<lparr>ctx = c', initialized = False\<rparr>)
      else s)"

definition Sha512_reset :: "'c sha_api \<Rightarrow> 'c Sha \<Rightarrow> 'c Sha \<times> unit hash_result" where
  "Sha512_reset api s =
     (let s1 = Sha512_sinkCtx api s; (ok, c') = SHA_Init api (ctx s1); s2 = s1\<lparr>ctx := c'\<rparr>
      in if \<not> ok then (s2, Inl FAILED_INITIALIZE_CONTEXT) else (s2\<lparr>initialized := True\<rparr>, Inr ()))"

text \<open>The function that hashes one message.\<close>

definition sha512 :: "'c sha_api \<Rightarrow> 'c \<Rightarrow> bytes \<Rightarrow> bytes hash_result" where
  "sha512 api c input =
     (let (s, r) = Sha512_write api input (Sha512_new api c)
      in bind_result r (\<lambda>_. Sha512_digestOut api 64 s))"

fun Sha512_step :: "'c sha_api \<Rightarrow> 'c Sha \<Rightarrow> hash_op \<Rightarrow> ('c Sha \<times> bytes hash_result) cxx" where
  "Sha512_step api s (Write data) = Returns (no_bytes (Sha512_write api data s))"
| "Sha512_step api s (DigestOut n) = Returns (s, Sha512_digestOut api n s)"
| "Sha512_step api s Digest = Returns (s, Hasher_digest Sha512_digestSize (\<lambda>n. Sha512_digestOut api n s))"
| "Sha512_step api s Reset = Returns (no_bytes (Sha512_reset api s))"

subsection \<open>What openssl documents, and the contract\<close>

text \<open>
  \<open>R c m\<close> says that the context \<open>c\<close> stands for the bytes \<open>m\<close>. A call that reports success has
  done what it says.
\<close>

definition sha_documented :: "'c sha_api \<Rightarrow> ('c \<Rightarrow> bytes \<Rightarrow> bool) \<Rightarrow> (bytes \<Rightarrow> bytes) \<Rightarrow> bool" where
  "sha_documented api R H \<longleftrightarrow>
     (\<forall>c c'. SHA_Init api c = (True, c') \<longrightarrow> R c' [])
   \<and> (\<forall>c c' m d. R c m \<longrightarrow> SHA_Update api c d = (True, c') \<longrightarrow> R c' (m @ d))
   \<and> (\<forall>c c' m out. R c m \<longrightarrow> SHA_Final api c = (True, out, c') \<longrightarrow> out = H m)"

definition sha_reliable :: "'c sha_api \<Rightarrow> bool" where
  "sha_reliable api \<longleftrightarrow> (\<forall>c c'. SHA_Init api c \<noteq> (False, c'))
     \<and> (\<forall>c d c'. SHA_Update api c d \<noteq> (False, c')) \<and> (\<forall>c r. SHA_Final api c \<noteq> (False, r))"

definition sha_repr :: "('c \<Rightarrow> bytes \<Rightarrow> bool) \<Rightarrow> 'c Sha \<Rightarrow> bytes \<Rightarrow> bool" where
  "sha_repr R s m \<longleftrightarrow> initialized s \<longrightarrow> R (ctx s) m"

fun digest_sized :: "nat \<Rightarrow> hash_op \<Rightarrow> bool" where
  "digest_sized n (DigestOut k) \<longleftrightarrow> k = n"
| "digest_sized n _ \<longleftrightarrow> True"

lemmas Sha1_defs = Sha1_digestSize_def Sha1_new_def Sha1_write_def Sha1_digestOut_def Sha1_sinkCtx_def Sha1_reset_def
  Hasher_digest_def Let_def

interpretation sha1_class: hasher "sha_documented api R H" "sha_reliable api" H "\<lambda>_. True" "sha_repr R" initialized id
    "digest_sized Sha1_digestSize" "Sha1_step api" for api R H
proof
  fix s x show "\<exists>s' r. Sha1_step api s x = Returns (s', r) \<and> True" by (cases x) (auto split: prod.splits)
next
  fix s m x s' out
  assume "sha_documented api R H" "sha_repr R s m" "Sha1_step api s x = Returns (s', Inr out)"
  then show "out = hash_answer H m (id x) \<and> sha_repr R s' (hash_next m (id x))"
    by (cases x) (auto simp: Sha1_defs sha_documented_def sha_repr_def split: prod.splits if_splits)
next
  fix s m x s' r
  assume "sha_reliable api" "initialized s" "digest_sized Sha1_digestSize x" "Sha1_step api s x = Returns (s', r)"
  then show "\<not> isl r \<and> initialized s'"
    by (cases x) (auto simp: Sha1_defs sha_reliable_def split: prod.splits if_splits)
qed

lemmas Sha256_defs = Sha256_digestSize_def Sha256_new_def Sha256_write_def Sha256_digestOut_def Sha256_sinkCtx_def Sha256_reset_def
  Hasher_digest_def Let_def

interpretation sha256_class: hasher "sha_documented api R H" "sha_reliable api" H "\<lambda>_. True" "sha_repr R" initialized id
    "digest_sized Sha256_digestSize" "Sha256_step api" for api R H
proof
  fix s x show "\<exists>s' r. Sha256_step api s x = Returns (s', r) \<and> True" by (cases x) (auto split: prod.splits)
next
  fix s m x s' out
  assume "sha_documented api R H" "sha_repr R s m" "Sha256_step api s x = Returns (s', Inr out)"
  then show "out = hash_answer H m (id x) \<and> sha_repr R s' (hash_next m (id x))"
    by (cases x) (auto simp: Sha256_defs sha_documented_def sha_repr_def split: prod.splits if_splits)
next
  fix s m x s' r
  assume "sha_reliable api" "initialized s" "digest_sized Sha256_digestSize x" "Sha256_step api s x = Returns (s', r)"
  then show "\<not> isl r \<and> initialized s'"
    by (cases x) (auto simp: Sha256_defs sha_reliable_def split: prod.splits if_splits)
qed

lemmas Sha512_defs = Sha512_digestSize_def Sha512_new_def Sha512_write_def Sha512_digestOut_def Sha512_sinkCtx_def Sha512_reset_def
  Hasher_digest_def Let_def

interpretation sha512_class: hasher "sha_documented api R H" "sha_reliable api" H "\<lambda>_. True" "sha_repr R" initialized id
    "digest_sized Sha512_digestSize" "Sha512_step api" for api R H
proof
  fix s x show "\<exists>s' r. Sha512_step api s x = Returns (s', r) \<and> True" by (cases x) (auto split: prod.splits)
next
  fix s m x s' out
  assume "sha_documented api R H" "sha_repr R s m" "Sha512_step api s x = Returns (s', Inr out)"
  then show "out = hash_answer H m (id x) \<and> sha_repr R s' (hash_next m (id x))"
    by (cases x) (auto simp: Sha512_defs sha_documented_def sha_repr_def split: prod.splits if_splits)
next
  fix s m x s' r
  assume "sha_reliable api" "initialized s" "digest_sized Sha512_digestSize x" "Sha512_step api s x = Returns (s', r)"
  then show "\<not> isl r \<and> initialized s'"
    by (cases x) (auto simp: Sha512_defs sha_reliable_def split: prod.splits if_splits)
qed

section \<open>HMAC\<close>

text \<open>
  The calls of openssl on a context of type \<open>'c\<close>: \<open>HMAC_CTX_fresh\<close> is the contents of a new
  context, \<open>HMAC_Init_ex c key len md\<close> starts a digest with the first \<open>len\<close> bytes of \<open>key\<close>,
  \<open>HMAC_CTX_copy\<close> gives the copy or fails. Whether \<open>HMAC_CTX_new\<close> finds memory is decided
  from outside, at each call.
\<close>

record 'c hmac_api =
  HMAC_CTX_fresh :: 'c
  HMAC_Init_ex :: "'c \<Rightarrow> bytes \<Rightarrow> int \<Rightarrow> HashType \<Rightarrow> bool \<times> 'c"
  HMAC_Update :: "'c \<Rightarrow> bytes \<Rightarrow> bool \<times> 'c"
  HMAC_CTX_copy :: "'c \<Rightarrow> 'c option"
  HMAC_Final :: "'c \<Rightarrow> bool \<times> bytes \<times> 'c"

fun EVP_MD_size :: "HashType \<Rightarrow> nat" where
  "EVP_MD_size SHA1 = 20"
| "EVP_MD_size SHA256 = 32"
| "EVP_MD_size SHA512 = 64"

fun EVP_MD_block_size :: "HashType \<Rightarrow> nat" where
  "EVP_MD_block_size SHA1 = 64"
| "EVP_MD_block_size SHA256 = 64"
| "EVP_MD_block_size SHA512 = 128"

text \<open>\<open>static_cast<int>\<close> of a size.\<close>

definition int_of_size :: "nat \<Rightarrow> int" where
  "int_of_size n = sint (of_nat n :: 32 word)"

text \<open>The members; a null \<open>hmac_ctx_\<close> is \<open>None\<close>, and \<open>hash_st\<close> names the method it points to.\<close>

record 'c HmacCtr =
  hash_type :: HashType
  key :: bytes
  hash_st :: HashType
  hmac_ctx :: "'c option"
  initialized :: bool

definition Hmac_digestSize :: "'c HmacCtr \<Rightarrow> nat" where
  "Hmac_digestSize s = (if initialized s then EVP_MD_size (hash_st s) else 0)"

definition Hmac_blockSize :: "'c HmacCtr \<Rightarrow> nat" where
  "Hmac_blockSize s = (if initialized s then EVP_MD_block_size (hash_st s) else 0)"

definition Hmac_hashType :: "'c HmacCtr \<Rightarrow> HashType" where
  "Hmac_hashType s = hash_type s"

definition Hmac_new :: "'c hmac_api \<Rightarrow> bool \<Rightarrow> HashType \<Rightarrow> bytes \<Rightarrow> 'c HmacCtr" where
  "Hmac_new api allocated type k =
     (let s = \<lparr>hash_type = type, key = k,
               hash_st = (if type = SHA1 then SHA1 else if type = SHA256 then SHA256 else SHA512),
               hmac_ctx = None, initialized = True\<rparr>
      in if \<not> allocated then s\<lparr>initialized := False\<rparr>
         else (let (ok, c) = HMAC_Init_ex api (HMAC_CTX_fresh api) k (int_of_size (length k)) (hash_st s)
               in s\<lparr>hmac_ctx := Some c, initialized := ok\<rparr>))"

text \<open>A call through a null pointer and a write past a buffer are \<open>Throws\<close>.\<close>

definition Hmac_write :: "'c hmac_api \<Rightarrow> bytes \<Rightarrow> 'c HmacCtr \<Rightarrow> ('c HmacCtr \<times> unit hash_result) cxx" where
  "Hmac_write api data s =
     (if \<not> initialized s then Returns (s, Inl FAILED_INITIALIZE_CONTEXT)
      else
        (case hmac_ctx s of
           None \<Rightarrow> Throws
         | Some c \<Rightarrow>
             (let (ok, c') = HMAC_Update api c data; s' = s\<lparr>hmac_ctx := Some c'\<rparr>
              in Returns (if \<not> ok then (s', Inl FAILED_UPDATE_DIGEST) else (s', Inr ())))))"

definition Hmac_digestOut :: "'c hmac_api \<Rightarrow> bool \<Rightarrow> nat \<Rightarrow> 'c HmacCtr \<Rightarrow> bytes hash_result cxx" where
  "Hmac_digestOut api allocated out_size s =
     (if \<not> initialized s then Returns (Inl FAILED_INITIALIZE_CONTEXT)
      else if out_size \<noteq> Hmac_digestSize s then Returns (Inl WRONG_DIGEST_SIZE)
      else if \<not> allocated then Returns (Inl FAILED_INITIALIZE_CONTEXT)
      else
        (case hmac_ctx s of
           None \<Rightarrow> Throws
         | Some c \<Rightarrow>
             (case HMAC_CTX_copy api c of
                None \<Rightarrow> Returns (Inl FAILED_INITIALIZE_CONTEXT)
              | Some ctx_copy \<Rightarrow>
                  (let (ok, out, _) = HMAC_Final api ctx_copy
                   in if length out > out_size then Throws
                      else if \<not> ok then Returns (Inl FAILED_FINALIZE_DIGEST)
                      else if length out \<noteq> Hmac_digestSize s then Returns (Inl WRONG_DIGEST_SIZE)
                      else Returns (Inr out)))))"

definition Hmac_digest :: "'c hmac_api \<Rightarrow> bool \<Rightarrow> 'c HmacCtr \<Rightarrow> bytes hash_result cxx" where
  "Hmac_digest api allocated s = Hmac_digestOut api allocated (Hmac_digestSize s) s"

definition Hmac_sinkCtx :: "'c hmac_api \<Rightarrow> nat \<Rightarrow> 'c HmacCtr \<Rightarrow> 'c HmacCtr cxx" where
  "Hmac_sinkCtx api digest_size s =
     (if initialized s then
        (case hmac_ctx s of
           None \<Rightarrow> Throws
         | Some c \<Rightarrow>
             (let (_, data, _) = HMAC_Final api c
              in if length data > digest_size then Throws
                 else Returns (s\<lparr>hmac_ctx := None, initialized := False\<rparr>)))
      else Returns s)"

definition Hmac_reset :: "'c hmac_api \<Rightarrow> bool \<Rightarrow> 'c HmacCtr \<Rightarrow> ('c HmacCtr \<times> unit hash_result) cxx" where
  "Hmac_reset api allocated s =
     bind_cxx (Hmac_sinkCtx api (Hmac_digestSize s) s) (\<lambda>s1.
       if \<not> allocated then Returns (s1\<lparr>hmac_ctx := None\<rparr>, Inl FAILED_INITIALIZE_CONTEXT)
       else
         (let (ok, c) = HMAC_Init_ex api (HMAC_CTX_fresh api) (key s1) (int_of_size (length (key s1))) (hash_st s1);
              s2 = s1\<lparr>hmac_ctx := Some c\<rparr>
          in Returns (if \<not> ok then (s2, Inl FAILED_INITIALIZE_CONTEXT)
                      else (s2\<lparr>initialized := True\<rparr>, Inr ()))))"

text \<open>The destructor.\<close>

definition Hmac_delete :: "'c hmac_api \<Rightarrow> 'c HmacCtr \<Rightarrow> 'c HmacCtr cxx" where
  "Hmac_delete api s = Hmac_sinkCtx api (Hmac_digestSize s) s"

text \<open>\<open>HmacProviderImpl::calculateDigest\<close>.\<close>

definition calculateDigest ::
  "'c hmac_api \<Rightarrow> bool \<times> bool \<Rightarrow> HashType \<Rightarrow> bytes \<Rightarrow> bytes \<Rightarrow> bytes hash_result cxx" where
  "calculateDigest api allocated type k message =
     bind_cxx (Hmac_write api message (Hmac_new api (fst allocated) type k)) (\<lambda>(s, r).
       bind_cxx (case r of Inl e \<Rightarrow> Returns (Inl e) | Inr _ \<Rightarrow> Hmac_digest api (snd allocated) s) (\<lambda>d.
       bind_cxx (Hmac_delete api s) (\<lambda>_. Returns d)))"

text \<open>The calls, each with the outcome of the allocation it may make.\<close>

fun Hmac_step :: "'c hmac_api \<Rightarrow> 'c HmacCtr \<Rightarrow> bool \<times> hash_op \<Rightarrow> ('c HmacCtr \<times> bytes hash_result) cxx" where
  "Hmac_step api s (_, Write data) = bind_cxx (Hmac_write api data s) (\<lambda>r. Returns (no_bytes r))"
| "Hmac_step api s (a, DigestOut n) = bind_cxx (Hmac_digestOut api a n s) (\<lambda>r. Returns (s, r))"
| "Hmac_step api s (a, Digest) = bind_cxx (Hmac_digest api a s) (\<lambda>r. Returns (s, r))"
| "Hmac_step api s (a, Reset) = bind_cxx (Hmac_reset api a s) (\<lambda>r. Returns (no_bytes r))"

subsection \<open>What openssl documents, and the contract\<close>

text \<open>
  \<open>R c type k m\<close> says that the context \<open>c\<close> stands for the bytes \<open>m\<close> under the method and the
  key it was started with. A digest fills at most the size of the method, and a successful
  one is the keyed hash.
\<close>

definition hmac_documented :: "'c hmac_api \<Rightarrow> ('c \<Rightarrow> HashType \<Rightarrow> bytes \<Rightarrow> bytes \<Rightarrow> bool)
    \<Rightarrow> (HashType \<Rightarrow> bytes \<Rightarrow> bytes \<Rightarrow> bytes) \<Rightarrow> HashType \<Rightarrow> bytes \<Rightarrow> bool" where
  "hmac_documented api R HMAC type k \<longleftrightarrow>
     length k < 2 ^ 31
   \<and> (\<forall>c. HMAC_Init_ex api (HMAC_CTX_fresh api) k (int (length k)) type = (True, c) \<longrightarrow> R c type k [])
   \<and> (\<forall>c c' m d. R c type k m \<longrightarrow> HMAC_Update api c d = (True, c') \<longrightarrow> R c' type k (m @ d))
   \<and> (\<forall>c c' m. R c type k m \<longrightarrow> HMAC_CTX_copy api c = Some c' \<longrightarrow> R c' type k m)
   \<and> (\<forall>c ok out c'. HMAC_Final api c = (ok, out, c') \<longrightarrow> length out \<le> EVP_MD_size type)
   \<and> (\<forall>c m out c'. R c type k m \<longrightarrow> HMAC_Final api c = (True, out, c') \<longrightarrow> out = HMAC type k m)
   \<and> (\<forall>m. length (HMAC type k m) = EVP_MD_size type)"

definition hmac_reliable :: "'c hmac_api \<Rightarrow> bool" where
  "hmac_reliable api \<longleftrightarrow>
     (\<forall>c k n t c'. HMAC_Init_ex api c k n t \<noteq> (False, c')) \<and> (\<forall>c d c'. HMAC_Update api c d \<noteq> (False, c'))
   \<and> (\<forall>c. HMAC_CTX_copy api c \<noteq> None) \<and> (\<forall>c r. HMAC_Final api c \<noteq> (False, r))"

definition hmac_valid :: "HashType \<Rightarrow> bytes \<Rightarrow> 'c HmacCtr \<Rightarrow> bool" where
  "hmac_valid type k s \<longleftrightarrow> hash_st s = type \<and> key s = k \<and> (initialized s \<longrightarrow> hmac_ctx s \<noteq> None)"

definition hmac_repr :: "('c \<Rightarrow> HashType \<Rightarrow> bytes \<Rightarrow> bytes \<Rightarrow> bool) \<Rightarrow> HashType \<Rightarrow> bytes \<Rightarrow> 'c HmacCtr \<Rightarrow> bytes \<Rightarrow> bool" where
  "hmac_repr R type k s m \<longleftrightarrow> hmac_valid type k s \<and> (initialized s \<longrightarrow> (\<exists>c. hmac_ctx s = Some c \<and> R c type k m))"

lemmas Hmac_defs = Hmac_write_def Hmac_digestOut_def Hmac_digest_def Hmac_reset_def Hmac_sinkCtx_def Hmac_digestSize_def Let_def

lemma int_of_size_small [simp]: "n < 2 ^ 31 \<Longrightarrow> int_of_size n = int n"
  by (simp add: int_of_size_def sint_uint unsigned_of_nat take_bit_nat_eq_self signed_take_bit_int_eq_self)

fun hmac_sized :: "HashType \<Rightarrow> bool \<times> hash_op \<Rightarrow> bool" where
  "hmac_sized type (a, x) \<longleftrightarrow> a \<and> digest_sized (EVP_MD_size type) x"

lemma hmac_documentedD:
  assumes "hmac_documented api R HMAC type k"
  shows "length k < 2 ^ 31"
    and "HMAC_Init_ex api (HMAC_CTX_fresh api) k (int_of_size (length k)) type = (True, c) \<Longrightarrow> R c type k []"
    and "R c type k m \<Longrightarrow> HMAC_Update api c d = (True, c') \<Longrightarrow> R c' type k (m @ d)"
    and "R c type k m \<Longrightarrow> HMAC_CTX_copy api c = Some c' \<Longrightarrow> R c' type k m"
    and "HMAC_Final api c = (ok, out, c') \<Longrightarrow> length out \<le> EVP_MD_size type"
    and "R c type k m \<Longrightarrow> HMAC_Final api c = (True, out, c') \<Longrightarrow> out = HMAC type k m"
    and "length (HMAC type k m) = EVP_MD_size type"
  using assms unfolding hmac_documented_def by (simp_all only: int_of_size_small)

text \<open>What a call that reports success has done.\<close>

lemma Hmac_write_Inr:
  "Hmac_write api data s = Returns (s', Inr u) \<longleftrightarrow>
     initialized s \<and> (\<exists>c c'. hmac_ctx s = Some c \<and> HMAC_Update api c data = (True, c') \<and> s' = s\<lparr>hmac_ctx := Some c'\<rparr>)"
  by (auto simp: Hmac_defs split: option.splits prod.splits if_splits)

lemma Hmac_digestOut_Inr:
  "Hmac_digestOut api a n s = Returns (Inr out) \<longleftrightarrow>
     initialized s \<and> n = EVP_MD_size (hash_st s) \<and> a \<and> length out = n
   \<and> (\<exists>c c1 c2. hmac_ctx s = Some c \<and> HMAC_CTX_copy api c = Some c1 \<and> HMAC_Final api c1 = (True, out, c2))"
  by (auto simp: Hmac_defs split: option.splits prod.splits if_splits)

lemma Hmac_reset_Inr:
  "Hmac_reset api a s = Returns (s', Inr u) \<Longrightarrow>
     a \<and> hash_st s' = hash_st s \<and> key s' = key s \<and> initialized s'
   \<and> (\<exists>c. hmac_ctx s' = Some c
        \<and> HMAC_Init_ex api (HMAC_CTX_fresh api) (key s) (int_of_size (length (key s))) (hash_st s) = (True, c))"
  by (auto simp: Hmac_defs bind_cxx_def split: option.splits prod.splits if_splits cxx.splits)

lemma Hmac_step_valid:
  assumes "hmac_documented api R HMAC type k" and "hmac_valid type k s"
  shows "\<exists>s' r. Hmac_step api s x = Returns (s', r) \<and> hmac_valid type k s'"
proof -
  obtain a op where x: "x = (a, op)" by fastforce
  note len = hmac_documentedD(5) [OF assms(1)]
  show ?thesis unfolding x using assms(2)
    by (cases op) (auto simp: Hmac_defs hmac_valid_def linorder_not_less [symmetric]
          dest: len split: prod.splits option.splits)
qed

lemma Hmac_step_repr:
  assumes doc: "hmac_documented api R HMAC type k" and repr: "hmac_repr R type k s m"
    and step: "Hmac_step api s x = Returns (s', Inr out)"
  shows "out = hash_answer (HMAC type k) m (snd x) \<and> hmac_repr R type k s' (hash_next m (snd x))"
proof -
  note D = hmac_documentedD [OF doc]
  obtain a op where x: "x = (a, op)" by fastforce
  have digest: "out = HMAC type k m \<and> s' = s" if "bind_cxx (Hmac_digestOut api a n s) (\<lambda>r. Returns (s, r)) = Returns (s', Inr out)" for n
    using that repr D(6) [OF D(4)] by (cases "Hmac_digestOut api a n s") (auto simp: Hmac_digestOut_Inr hmac_repr_def)
  show ?thesis
  proof (cases op)
    case (Write data)
    with x step have "Hmac_write api data s = Returns (s', Inr ())" "out = []"
      by (auto simp: bind_cxx_def no_bytes_Inr split: cxx.splits)
    with repr D(3) Write x show ?thesis by (auto simp: Hmac_write_Inr hmac_repr_def hmac_valid_def)
  next
    case Reset
    with x step have "Hmac_reset api a s = Returns (s', Inr ())" "out = []"
      by (auto simp: bind_cxx_def no_bytes_Inr split: cxx.splits)
    with repr D(2) Reset x show ?thesis by (auto dest!: Hmac_reset_Inr simp: hmac_repr_def hmac_valid_def)
  qed (use x step repr digest in \<open>auto simp: Hmac_digest_def\<close>)
qed

lemma Hmac_step_ready:
  assumes doc: "hmac_documented api R HMAC type k" and rel: "hmac_reliable api" and repr: "hmac_repr R type k s m"
    and ready: "initialized s" and size: "hmac_sized type x" and step: "Hmac_step api s x = Returns (s', r)"
  shows "\<not> isl r \<and> initialized s'"
proof -
  note D = hmac_documentedD [OF doc]
  obtain a op where x: "x = (a, op)" by fastforce
  from repr ready obtain c where c: "hmac_ctx s = Some c" "R c type k m" "hash_st s = type" "key s = k"
    by (auto simp: hmac_repr_def hmac_valid_def)
  have U: "\<exists>c'. HMAC_Update api c d = (True, c')" for c d using rel
    unfolding hmac_reliable_def by (metis (full_types) surj_pair)
  have I: "\<exists>c'. HMAC_Init_ex api c k n t = (True, c')" for c k n t using rel
    unfolding hmac_reliable_def by (metis (full_types) surj_pair)
  have digest: "\<exists>out. Hmac_digestOut api True (EVP_MD_size type) s = Returns (Inr out)"
  proof -
    obtain c1 where c1: "HMAC_CTX_copy api c = Some c1" using rel unfolding hmac_reliable_def by blast
    obtain out c2 where "HMAC_Final api c1 = (True, out, c2)" using rel
      unfolding hmac_reliable_def by (metis (full_types) surj_pair)
    moreover from D(6) [OF D(4) [OF c(2) c1] this] D(7) have "length out = EVP_MD_size type" by simp
    ultimately show ?thesis using c c1 ready by (auto simp: Hmac_digestOut_Inr)
  qed
  show ?thesis
  proof (cases op)
    case (Write d)
    with U [of c d] x step c ready show ?thesis by (auto simp: Hmac_defs)
  next
    case Reset
    with I [of "HMAC_CTX_fresh api" k "int_of_size (length k)" type] x step c ready size show ?thesis
      by (auto simp: Hmac_defs split: prod.splits if_splits)
  qed (use x step size digest c ready in \<open>auto simp: Hmac_digest_def Hmac_digestSize_def\<close>)
qed

interpretation hmac_class: hasher "hmac_documented api R HMAC type k" "hmac_reliable api" "HMAC type k"
    "hmac_valid type k" "hmac_repr R type k" initialized snd "hmac_sized type" "Hmac_step api" for api R HMAC type k
  by unfold_locales (erule (1) Hmac_step_valid, erule (2) Hmac_step_repr, erule (5) Hmac_step_ready)

section \<open>Properties\<close>

lemma Hmac_new_repr:
  assumes "hmac_documented api R HMAC type k"
  shows "hmac_repr R type k (Hmac_new api a type k) []"
  using hmac_documentedD(2) [OF assms]
  by (cases type) (auto simp: hmac_repr_def hmac_valid_def Hmac_new_def Let_def split: prod.splits)

lemma hmac_reliable_init: "hmac_reliable api \<Longrightarrow> HMAC_Init_ex api c k n t = (ok, c') \<Longrightarrow> ok"
  by (cases ok) (simp_all add: hmac_reliable_def)

lemma Hmac_new_ready: "hmac_reliable api \<Longrightarrow> initialized (Hmac_new api True type k)"
  by (cases type) (auto simp: Hmac_new_def Let_def dest: hmac_reliable_init split: prod.splits)


lemma calculateDigest_eq:
  assumes doc: "hmac_documented api R HMAC type k" and rel: "hmac_reliable api"
  shows "calculateDigest api (True, True) type k message = Returns (Inr (HMAC type k message))"
proof -
  from hmac_class.run_succeeds [OF doc rel _ Hmac_new_repr [OF doc] Hmac_new_ready [OF rel],
      of "[(True, Write message), (True, Digest)]"] Hmac_new_repr [OF doc]
  obtain s where run: "run_hasher (Hmac_step api) (Hmac_new api True type k) [(True, Write message), (True, Digest)]
     = Returns (s, [Inr [], Inr (HMAC type k message)])" by (auto simp: hmac_repr_def)
  then have w: "Hmac_write api message (Hmac_new api True type k) = Returns (s, Inr ())"
    and d: "Hmac_digest api True s = Returns (Inr (HMAC type k message))"
    by (auto simp: bind_cxx_def no_bytes_Inr split: cxx.splits prod.splits)
  from d obtain c where "hmac_ctx s = Some c" by (auto simp: Hmac_digest_def Hmac_digestOut_Inr)
  moreover have "hash_st s = type" using w by (cases type) (auto simp: Hmac_write_Inr Hmac_new_def Let_def split: prod.splits)
  ultimately have "Hmac_delete api s \<noteq> Throws" using hmac_documentedD(5) [OF doc]
    by (auto simp: Hmac_delete_def Hmac_defs linorder_not_less [symmetric] split: prod.splits)
  with w d show ?thesis by (cases "Hmac_delete api s") (simp_all add: calculateDigest_def)
qed






lemma Sha_new_repr:
  "sha_documented api R H \<Longrightarrow> sha_repr R (Sha1_new api c) []"
  "sha_documented api R H \<Longrightarrow> sha_repr R (Sha256_new api c) []"
  "sha_documented api R H \<Longrightarrow> sha_repr R (Sha512_new api c) []"
  by (auto simp: Sha1_new_def Sha256_new_def Sha512_new_def sha_documented_def sha_repr_def split: prod.splits)

lemma Sha_new_ready:
  assumes "sha_reliable api"
  shows "Sha.initialized (Sha1_new api c)" and "Sha.initialized (Sha256_new api c)" and "Sha.initialized (Sha512_new api c)"
proof -
  obtain c' where "SHA_Init api c = (True, c')" using assms unfolding sha_reliable_def by (metis (full_types) surj_pair)
  then show "Sha.initialized (Sha1_new api c)" and "Sha.initialized (Sha256_new api c)" and "Sha.initialized (Sha512_new api c)"
    by (simp_all add: Sha1_new_def Sha256_new_def Sha512_new_def)
qed

lemmas sha_runs [OF _ _ TrueI] = sha1_class.run_succeeds sha256_class.run_succeeds sha512_class.run_succeeds

lemma sha_of_run:
  "run_hasher (Sha1_step api) (Sha1_new api c) [Write m, DigestOut 20] = Returns (s, [Inr [], Inr d]) \<Longrightarrow> sha1 api c m = Inr d"
  "run_hasher (Sha256_step api) (Sha256_new api c) [Write m, DigestOut 32] = Returns (s, [Inr [], Inr d]) \<Longrightarrow> sha256 api c m = Inr d"
  "run_hasher (Sha512_step api) (Sha512_new api c) [Write m, DigestOut 64] = Returns (s, [Inr [], Inr d]) \<Longrightarrow> sha512 api c m = Inr d"
  by (auto simp: sha1_def sha256_def sha512_def no_bytes_Inr split: prod.splits)

text \<open>
  Property (refinement). Whatever is in the memory of a new hash object, when openssl reports success and
  the buffers have the size of the digest, the calls made on it are answered with the hashes
  of the bytes written since the last reset; the functions that hash one message give its hash.
\<close>

theorem sha_refines:
  assumes doc: "sha_documented api R H" and rel: "sha_reliable api"
  shows "(list_all (digest_sized 20) calls \<longrightarrow>
           (\<exists>s. run_hasher (Sha1_step api) (Sha1_new api c) calls = Returns (s, map Inr (hash_spec H [] calls))))
     \<and> (list_all (digest_sized 32) calls \<longrightarrow>
           (\<exists>s. run_hasher (Sha256_step api) (Sha256_new api c) calls = Returns (s, map Inr (hash_spec H [] calls))))
     \<and> (list_all (digest_sized 64) calls \<longrightarrow>
           (\<exists>s. run_hasher (Sha512_step api) (Sha512_new api c) calls = Returns (s, map Inr (hash_spec H [] calls))))
     \<and> sha1 api c m = Inr (H m) \<and> sha256 api c m = Inr (H m) \<and> sha512 api c m = Inr (H m)"
proof -
  note run = sha_runs(1) [OF doc rel Sha_new_repr(1) [OF doc] Sha_new_ready(1) [OF rel]]
    sha_runs(2) [OF doc rel Sha_new_repr(2) [OF doc] Sha_new_ready(2) [OF rel]]
    sha_runs(3) [OF doc rel Sha_new_repr(3) [OF doc] Sha_new_ready(3) [OF rel]]
  note sizes = Sha1_digestSize_def Sha256_digestSize_def Sha512_digestSize_def
  have "sha1 api c m = Inr (H m)" "sha256 api c m = Inr (H m)" "sha512 api c m = Inr (H m)"
    using run(1) [of "[Write m, DigestOut 20]" c] run(2) [of "[Write m, DigestOut 32]" c]
      run(3) [of "[Write m, DigestOut 64]" c] sha_of_run [of api c m] by (auto simp: sizes)
  with run [of calls c] show ?thesis by (simp add: sizes)
qed

end
