(* ===== verification/Aes_Ctr.thy ===== *)
theory Aes_Ctr
  imports Hashers
begin

text \<open>
  The stream cipher of \<open>src/crypto/aes_provider/aes_ctr_impl.cpp\<close>. The calls of openssl are
  arguments; what is relied on is their documentation: in counter mode a context stands for a
  key stream and a position in it, and an update adds the key stream to the data from there.
\<close>

section \<open>The class\<close>

datatype AesMode = DECRYPT | ENCRYPT

datatype OpenSslError =
  FAILED_INITIALIZE_CONTEXT | FAILED_INITIALIZE_OPERATION | FAILED_ENCRYPT_UPDATE | FAILED_DECRYPT_UPDATE
| FAILED_ENCRYPT_FINALIZE | FAILED_DECRYPT_FINALIZE | WRONG_IV_SIZE | WRONG_KEY_SIZE | STREAM_FINALIZED

record AesSecret =
  key :: bytes
  iv :: bytes

datatype EVP_CIPHER = EVP_aes_128_ctr | EVP_aes_256_ctr

definition AES_BLOCK_SIZE :: nat where "AES_BLOCK_SIZE = 16"

text \<open>
  \<open>EVP_CIPHER_CTX_fresh\<close> is the contents of a new context. An update and the end of a stream
  say whether they succeed, and give the bytes they put at the start of the output buffer.
\<close>

record 'c evp_api =
  EVP_CIPHER_CTX_fresh :: 'c
  EVP_CipherInit_ex :: "'c \<Rightarrow> EVP_CIPHER \<Rightarrow> bytes \<Rightarrow> bytes \<Rightarrow> int \<Rightarrow> bool \<times> 'c"
  EVP_CipherUpdate :: "'c \<Rightarrow> bytes \<Rightarrow> int \<Rightarrow> bool \<times> bytes \<times> 'c"
  EVP_CipherFinal_ex :: "'c \<Rightarrow> bool \<times> bytes \<times> 'c"

record 'c AesCtr =
  mode :: AesMode
  initialization_error :: "(OpenSslError, unit) result"
  ctx :: "'c option"

definition AesCtr_init ::
  "'c evp_api \<Rightarrow> bool \<Rightarrow> bytes \<Rightarrow> bytes \<Rightarrow> EVP_CIPHER \<Rightarrow> 'c AesCtr \<Rightarrow> 'c AesCtr \<times> (OpenSslError, unit) result" where
  "AesCtr_init api allocated k v cipher s =
     (if \<not> allocated then (s\<lparr>ctx := None\<rparr>, Inl FAILED_INITIALIZE_CONTEXT)
      else
        (let m = (if mode s = ENCRYPT then 1 else 0);
             (ok, c) = EVP_CipherInit_ex api (EVP_CIPHER_CTX_fresh api) cipher k v m;
             s' = s\<lparr>ctx := Some c\<rparr>
         in if \<not> ok then (s', Inl FAILED_INITIALIZE_OPERATION) else (s', Inr ())))"

text \<open>The two constructors.\<close>

definition AesCtr_new128 :: "'c evp_api \<Rightarrow> bool \<Rightarrow> AesSecret \<Rightarrow> AesMode \<Rightarrow> 'c AesCtr" where
  "AesCtr_new128 api allocated secret m =
     (let (s, r) = AesCtr_init api allocated (key secret) (iv secret) EVP_aes_128_ctr
                     \<lparr>mode = m, initialization_error = Inr (), ctx = None\<rparr>
      in s\<lparr>initialization_error := r\<rparr>)"

definition AesCtr_new256 :: "'c evp_api \<Rightarrow> bool \<Rightarrow> AesSecret \<Rightarrow> AesMode \<Rightarrow> 'c AesCtr" where
  "AesCtr_new256 api allocated secret m =
     (let (s, r) = AesCtr_init api allocated (key secret) (iv secret) EVP_aes_256_ctr
                     \<lparr>mode = m, initialization_error = Inr (), ctx = None\<rparr>
      in s\<lparr>initialization_error := r\<rparr>)"

text \<open>
  \<open>crypt\<close> is \<open>const\<close> but advances the context. A call through a null pointer and a write past
  the output buffer are \<open>Throws\<close>.
\<close>

definition AesCtr_crypt :: "'c evp_api \<Rightarrow> bytes \<Rightarrow> 'c AesCtr \<Rightarrow> ('c AesCtr \<times> (OpenSslError, bytes) result) cxx" where
  "AesCtr_crypt api data s =
     (case initialization_error s of
        Inl e \<Rightarrow> Returns (s, Inl e)
      | Inr _ \<Rightarrow>
          (case ctx s of
             None \<Rightarrow> Throws
           | Some c \<Rightarrow>
               (let (ok, out, c') = EVP_CipherUpdate api c data (int_of_size (length data)); s' = s\<lparr>ctx := Some c'\<rparr>
                in if length out > length data + AES_BLOCK_SIZE then Throws
                   else if \<not> ok then
                     Returns (s', Inl (case mode s of ENCRYPT \<Rightarrow> FAILED_ENCRYPT_UPDATE | DECRYPT \<Rightarrow> FAILED_DECRYPT_UPDATE))
                   else Returns (s', Inr out))))"

definition AesCtr_finalize :: "'c evp_api \<Rightarrow> 'c AesCtr \<Rightarrow> ('c AesCtr \<times> (OpenSslError, bytes) result) cxx" where
  "AesCtr_finalize api s =
     (case initialization_error s of
        Inl e \<Rightarrow> Returns (s, Inl e)
      | Inr _ \<Rightarrow>
          (let s1 = s\<lparr>initialization_error := Inl STREAM_FINALIZED\<rparr>
           in case ctx s of
                None \<Rightarrow> Throws
              | Some c \<Rightarrow>
                  (let (ok, out, c') = EVP_CipherFinal_ex api c; s2 = s1\<lparr>ctx := Some c'\<rparr>
                   in if length out > AES_BLOCK_SIZE then Throws
                      else if \<not> ok then
                        Returns (s2, Inl (case mode s of ENCRYPT \<Rightarrow> FAILED_ENCRYPT_FINALIZE | DECRYPT \<Rightarrow> FAILED_DECRYPT_FINALIZE))
                      else Returns (s2, Inr out))))"

text \<open>A message in pieces: every piece through \<open>crypt\<close>, then \<open>finalize\<close>; the first error ends it.\<close>

fun crypt_all :: "'c evp_api \<Rightarrow> bytes list \<Rightarrow> 'c AesCtr \<Rightarrow> ('c AesCtr \<times> (OpenSslError, bytes) result) cxx" where
  "crypt_all api [] s = AesCtr_finalize api s"
| "crypt_all api (d # ds) s =
     bind_cxx (AesCtr_crypt api d s) (\<lambda>(s1, r).
       case r of
         Inl e \<Rightarrow> Returns (s1, Inl e)
       | Inr out \<Rightarrow> bind_cxx (crypt_all api ds s1) (\<lambda>(s2, r2). Returns (s2, map_sum id (\<lambda>rest. out @ rest) r2)))"

section \<open>What openssl documents\<close>

text \<open>The data with the key stream from position \<open>n\<close> on added to it.\<close>

definition add_stream :: "(nat \<Rightarrow> byte) \<Rightarrow> nat \<Rightarrow> bytes \<Rightarrow> bytes" where
  "add_stream ks n data = map (\<lambda>i. data ! i XOR ks (n + i)) [0..<length data]"

text \<open>\<open>R c ks n\<close>: the context stands for the key stream \<open>ks\<close> at position \<open>n\<close>.\<close>

definition ctr_documented :: "'c evp_api \<Rightarrow> ('c \<Rightarrow> (nat \<Rightarrow> byte) \<Rightarrow> nat \<Rightarrow> bool)
    \<Rightarrow> (EVP_CIPHER \<Rightarrow> bytes \<Rightarrow> bytes \<Rightarrow> nat \<Rightarrow> byte) \<Rightarrow> bool" where
  "ctr_documented api R stream \<longleftrightarrow>
     (\<forall>cipher k v m. \<exists>c. EVP_CipherInit_ex api (EVP_CIPHER_CTX_fresh api) cipher k v m = (True, c) \<and> R c (stream cipher k v) 0)
   \<and> (\<forall>c ks n d. R c ks n \<longrightarrow> length d < 2 ^ 31 \<longrightarrow>
        (\<exists>c'. EVP_CipherUpdate api c d (int (length d)) = (True, add_stream ks n d, c') \<and> R c' ks (n + length d)))
   \<and> (\<forall>c ks n. R c ks n \<longrightarrow> (\<exists>c'. EVP_CipherFinal_ex api c = (True, [], c')))"

section \<open>Properties\<close>

lemma length_add_stream [simp]: "length (add_stream ks n d) = length d"
  by (simp add: add_stream_def)

lemma add_stream_append: "add_stream ks n (d @ e) = add_stream ks n d @ add_stream ks (n + length d) e"
  by (rule nth_equalityI) (auto simp: add_stream_def nth_append)

lemma add_stream_involution [simp]: "add_stream ks n (add_stream ks n d) = d"
  by (rule nth_equalityI) (auto simp: add_stream_def xor.assoc)

definition running :: "('c \<Rightarrow> (nat \<Rightarrow> byte) \<Rightarrow> nat \<Rightarrow> bool) \<Rightarrow> (nat \<Rightarrow> byte) \<Rightarrow> nat \<Rightarrow> 'c AesCtr \<Rightarrow> bool" where
  "running R ks n s \<longleftrightarrow> initialization_error s = Inr () \<and> (\<exists>c. ctx s = Some c \<and> R c ks n)"

lemma crypt_running:
  assumes "ctr_documented api R stream" and "running R ks n s" and "length d < 2 ^ 31"
  shows "\<exists>s'. AesCtr_crypt api d s = Returns (s', Inr (add_stream ks n d)) \<and> running R ks (n + length d) s'"
proof -
  from assms(2) obtain c where c: "initialization_error s = Inr ()" "ctx s = Some c" "R c ks n"
    by (auto simp: running_def)
  with assms obtain c' where "EVP_CipherUpdate api c d (int (length d)) = (True, add_stream ks n d, c')" "R c' ks (n + length d)"
    unfolding ctr_documented_def by blast
  with c assms(3) show ?thesis by (simp add: AesCtr_crypt_def running_def)
qed

lemma finalize_running:
  assumes "ctr_documented api R stream" and "running R ks n s"
  shows "\<exists>s'. AesCtr_finalize api s = Returns (s', Inr []) \<and> initialization_error s' = Inl STREAM_FINALIZED"
proof -
  from assms(2) obtain c where c: "initialization_error s = Inr ()" "ctx s = Some c" "R c ks n"
    by (auto simp: running_def)
  with assms(1) obtain c' where "EVP_CipherFinal_ex api c = (True, [], c')" unfolding ctr_documented_def by blast
  with c show ?thesis by (simp add: AesCtr_finalize_def)
qed

lemma crypt_all_running:
  assumes doc: "ctr_documented api R stream"
  shows "running R ks n s \<Longrightarrow> list_all (\<lambda>d. length d < 2 ^ 31) ds \<Longrightarrow>
    \<exists>s'. crypt_all api ds s = Returns (s', Inr (add_stream ks n (concat ds))) \<and> initialization_error s' = Inl STREAM_FINALIZED"
proof (induction ds arbitrary: s n)
  case Nil
  with finalize_running [OF doc] show ?case by (simp add: add_stream_def)
next
  case (Cons d ds)
  then obtain s1 where "AesCtr_crypt api d s = Returns (s1, Inr (add_stream ks n d))" "running R ks (n + length d) s1"
    using crypt_running [OF doc] by fastforce
  with Cons show ?case by (fastforce simp: add_stream_append)
qed

lemma new_running:
  assumes "ctr_documented api R stream"
  shows "running R (stream EVP_aes_128_ctr (key secret) (iv secret)) 0 (AesCtr_new128 api True secret m)"
    and "running R (stream EVP_aes_256_ctr (key secret) (iv secret)) 0 (AesCtr_new256 api True secret m)"
proof -
  have "\<exists>c. EVP_CipherInit_ex api (EVP_CIPHER_CTX_fresh api) cipher k v n = (True, c) \<and> R c (stream cipher k v) 0" for cipher k v n
    using assms unfolding ctr_documented_def by blast
  from this [of EVP_aes_128_ctr "key secret" "iv secret" "if m = ENCRYPT then 1 else 0"]
    this [of EVP_aes_256_ctr "key secret" "iv secret" "if m = ENCRYPT then 1 else 0"]
  show "running R (stream EVP_aes_128_ctr (key secret) (iv secret)) 0 (AesCtr_new128 api True secret m)"
    and "running R (stream EVP_aes_256_ctr (key secret) (iv secret)) 0 (AesCtr_new256 api True secret m)"
    by (auto simp: AesCtr_new128_def AesCtr_new256_def AesCtr_init_def running_def Let_def)
qed

lemma finalized_refuses:
  assumes "initialization_error s = Inl e"
  shows "AesCtr_crypt api d s = Returns (s, Inl e)" and "AesCtr_finalize api s = Returns (s, Inl e)"
  using assms by (simp_all add: AesCtr_crypt_def AesCtr_finalize_def)

text \<open>
  With either key size, a message that is encrypted in any pieces gives as
  many bytes, and these, decrypted in any pieces with the same secret, give the message
  back. A finished stream refuses every further call.
\<close>

theorem aes_ctr_roundtrip:
  assumes doc: "ctr_documented api R stream"
    and new: "new = AesCtr_new128 \<or> new = AesCtr_new256"
    and small: "list_all (\<lambda>d. length d < 2 ^ 31) ds" "list_all (\<lambda>d. length d < 2 ^ 31) es"
  shows "\<exists>s out. crypt_all api ds (new api True secret ENCRYPT) = Returns (s, Inr out)
     \<and> length out = length (concat ds)
     \<and> (concat es = out \<longrightarrow> (\<exists>s'. crypt_all api es (new api True secret DECRYPT) = Returns (s', Inr (concat ds))))
     \<and> AesCtr_crypt api d s = Returns (s, Inl STREAM_FINALIZED)
     \<and> AesCtr_finalize api s = Returns (s, Inl STREAM_FINALIZED)"
proof -
  from new new_running [OF doc] obtain ks where ks: "running R ks 0 (new api True secret m)" for m by metis
  from crypt_all_running [OF doc ks small(1)] crypt_all_running [OF doc ks small(2)] finalized_refuses
  show ?thesis by fastforce
qed

text \<open>A context made of the key stream and the position.\<close>

definition toy_evp :: "((nat \<Rightarrow> byte) \<times> nat) evp_api" where
  "toy_evp = \<lparr>EVP_CIPHER_CTX_fresh = (\<lambda>_. 0, 0),
     EVP_CipherInit_ex = (\<lambda>_ _ k v _. (True, (\<lambda>i. k ! (i mod length k) XOR of_nat i), 0)),
     EVP_CipherUpdate = (\<lambda>(ks, n) d _. (True, add_stream ks n d, (ks, n + length d))),
     EVP_CipherFinal_ex = (\<lambda>c. (True, [], c))\<rparr>"

lemma toy_evp_documented:
  "ctr_documented toy_evp (\<lambda>c ks n. c = (ks, n)) (\<lambda>_ k v i. k ! (i mod length k) XOR of_nat i)"
  by (auto simp: ctr_documented_def toy_evp_def)

theorem aes_ctr_roundtrip_witness:
  "\<exists>s. crypt_all toy_evp [[1, 2], [], [3]] (AesCtr_new256 toy_evp True \<lparr>key = [7, 9], iv = []\<rparr> ENCRYPT)
         = Returns (s, Inr [6, 10, 6])
     \<and> (\<exists>s'. crypt_all toy_evp [[6], [10, 6]] (AesCtr_new256 toy_evp True \<lparr>key = [7, 9], iv = []\<rparr> DECRYPT)
         = Returns (s', Inr [1, 2, 3]))
     \<and> AesCtr_crypt toy_evp [5] s = Returns (s, Inl STREAM_FINALIZED)"
proof -
  have "\<exists>s. crypt_all toy_evp [[1, 2], [], [3]] (AesCtr_new256 toy_evp True \<lparr>key = [7, 9], iv = []\<rparr> ENCRYPT)
         = Returns (s, Inr [6, 10, 6])"
    by (simp add: toy_evp_def AesCtr_new256_def AesCtr_init_def AesCtr_crypt_def AesCtr_finalize_def add_stream_def)
  with aes_ctr_roundtrip [OF toy_evp_documented, of AesCtr_new256 "[[1, 2], [], [3]]" "[[6], [10, 6]]" "\<lparr>key = [7, 9], iv = []\<rparr>" "[5]"]
  show ?thesis by auto
qed


end
