(* ===== verification/Signatures.thy ===== *)
theory Signatures
  imports Hashers Peer_Id
begin

text \<open>
  The signature schemes: \<open>src/crypto/ed25519_provider\<close>, \<open>src/crypto/secp256k1_provider\<close>,
  \<open>src/crypto/ecdsa_provider\<close>, \<open>src/crypto/rsa_provider\<close> and the parts of
  \<open>src/crypto/common_functions.cpp\<close> they use. The calls of openssl and libsecp256k1 are
  arguments, and what is random is given from outside. The locale \<open>signature_scheme\<close> states what
  a scheme promises; the four providers interpret it, on what the documentation of the
  libraries says.
\<close>

section \<open>Errors\<close>

datatype KeyGeneratorError =
  CANNOT_GENERATE_UNSPECIFIED | UNKNOWN_KEY_TYPE | GENERATOR_NOT_INITIALIZED | KEY_GENERATION_FAILED
| KEY_DERIVATION_FAILED | FILE_NOT_FOUND | FAILED_TO_READ_FILE | INCORRECT_BITS_COUNT | UNSUPPORTED_KEY_TYPE
| WRONG_KEY_TYPE | CANNOT_LOAD_UNSPECIFIED | GET_KEY_BYTES_FAILED | INTERNAL_ERROR | UNSUPPORTED_CURVE_TYPE

datatype CryptoProviderImplError = UNKNOWN_CIPHER_TYPE | UNKNOWN_HASH_TYPE

text \<open>The error codes the functions of this part return.\<close>

datatype CryptoError =
  Generator KeyGeneratorError
| KeyInvalid KeyValidatorError
| Crypto CryptoProviderError
| Hashing HmacProviderError
| Impl CryptoProviderImplError

type_synonym 'a crypto_result = "(CryptoError, 'a) result"

text \<open>\<open>OUTCOME_TRY\<close> on a call that may throw.\<close>

definition try_crypto :: "'a crypto_result cxx \<Rightarrow> ('a \<Rightarrow> 'b crypto_result cxx) \<Rightarrow> 'b crypto_result cxx" where
  "try_crypto r f = bind_cxx r (\<lambda>x. case x of Inl e \<Rightarrow> Returns (Inl e) | Inr y \<Rightarrow> f y)"

lemma try_crypto_simps [simp]:
  "try_crypto Throws f = Throws"
  "try_crypto (Returns (Inl e)) f = Returns (Inl e)"
  "try_crypto (Returns (Inr y)) f = f y"
  by (simp_all add: try_crypto_def)

lemma try_crypto_Inr: "try_crypto r f = Returns (Inr y) \<longleftrightarrow> (\<exists>x. r = Returns (Inr x) \<and> f x = Returns (Inr y))"
  by (cases r) (auto simp: try_crypto_def split: sum.splits)

definition or_fail :: "CryptoError \<Rightarrow> 'a option \<Rightarrow> 'a crypto_result" where
  "or_fail e x = (case x of None \<Rightarrow> Inl e | Some y \<Rightarrow> Inr y)"

lemma or_fail_simps [simp]: "or_fail e None = Inl e" "or_fail e (Some y) = Inr y"
  by (simp_all add: or_fail_def)

lemma or_fail_Inr [simp]: "or_fail e x = Inr y \<longleftrightarrow> x = Some y"
  by (cases x) simp_all

section \<open>What a signature scheme promises\<close>

text \<open>
  Derivation and signing are functions of the private key, and \<open>generated\<close> says that a pair of keys
  was made by the generator. A generated public key is the derived one; and a signature made
  with a private key is accepted with the public key derived from it.
\<close>

locale signature_scheme =
  fixes documented :: bool
    and generated :: "bytes \<times> bytes \<Rightarrow> bool"
    and derive :: "bytes \<Rightarrow> bytes crypto_result"
    and sign :: "bytes \<Rightarrow> bytes \<Rightarrow> bytes crypto_result cxx"
    and verify :: "bytes \<Rightarrow> bytes \<Rightarrow> bytes \<Rightarrow> bool crypto_result cxx"
    and private_size :: "nat \<Rightarrow> bool"
    and public_size :: "nat \<Rightarrow> bool"
  assumes generate_derive: "documented \<Longrightarrow> generated (priv, pub) \<Longrightarrow> derive priv = Inr pub"
    and generate_size: "documented \<Longrightarrow> generated (priv, pub) \<Longrightarrow> private_size (length priv)"
    and derive_size: "documented \<Longrightarrow> derive priv = Inr pub \<Longrightarrow> public_size (length pub)"
    and sign_verify: "documented \<Longrightarrow> derive priv = Inr pub \<Longrightarrow> sign m priv = Returns (Inr s)
      \<Longrightarrow> verify m s pub = Returns (Inr True)"
begin

lemma generated_signs:
  "documented \<Longrightarrow> generated (priv, pub) \<Longrightarrow> sign m priv = Returns (Inr s) \<Longrightarrow> verify m s pub = Returns (Inr True)"
  using generate_derive sign_verify by blast

lemma generated_sizes:
  "documented \<Longrightarrow> generated (priv, pub) \<Longrightarrow> private_size (length priv) \<and> public_size (length pub)"
  using generate_derive generate_size derive_size by blast

end

section \<open>Ed25519\<close>

text \<open>
  Keys of openssl have type \<open>'k\<close>. A call that may fail gives \<open>None\<close> then; \<open>EVP_DigestVerify\<close> gives
  a number. Whether contexts can be allocated is decided from outside.
\<close>

record 'k ed25519_ssl =
  EVP_PKEY_new_raw_private_key :: "bytes \<Rightarrow> 'k option"
  EVP_PKEY_new_raw_public_key :: "bytes \<Rightarrow> 'k option"
  EVP_PKEY_get_raw_private_key :: "'k \<Rightarrow> bytes option"
  EVP_PKEY_get_raw_public_key :: "'k \<Rightarrow> bytes option"
  EVP_DigestSignInit :: "'k \<Rightarrow> bool"
  EVP_DigestSign :: "'k \<Rightarrow> bytes \<Rightarrow> bytes option"
  EVP_DigestVerifyInit :: "'k \<Rightarrow> bool"
  EVP_DigestVerify :: "'k \<Rightarrow> bytes \<Rightarrow> bytes \<Rightarrow> int"

definition NewEvpPkeyFromBytes :: "(bytes \<Rightarrow> 'k option) \<Rightarrow> bytes \<Rightarrow> 'k crypto_result" where
  "NewEvpPkeyFromBytes reader key_bytes = or_fail (Generator INTERNAL_ERROR) (reader key_bytes)"

text \<open>
  \<open>generate\<close>, with the outcomes of \<open>EVP_PKEY_CTX_new_id\<close>, \<open>EVP_PKEY_keygen_init\<close> and
  \<open>EVP_PKEY_keygen\<close>; the private key comes first.
\<close>

definition Ed25519_generate ::
  "'k ed25519_ssl \<Rightarrow> bool \<times> bool \<times> 'k option \<Rightarrow> (bytes \<times> bytes) crypto_result" where
  "Ed25519_generate ssl env =
     (let FAILED = Generator KEY_GENERATION_FAILED; (pctx, init, pkey) = env
      in if \<not> pctx then Inl FAILED
         else if \<not> init then Inl FAILED
         else bind_result (or_fail FAILED pkey) (\<lambda>k.
              bind_result (or_fail FAILED (EVP_PKEY_get_raw_private_key ssl k)) (\<lambda>priv.
              bind_result (or_fail FAILED (EVP_PKEY_get_raw_public_key ssl k)) (\<lambda>pub.
                Inr (priv, pub)))))"

definition Ed25519_derive :: "'k ed25519_ssl \<Rightarrow> bytes \<Rightarrow> bytes crypto_result" where
  "Ed25519_derive ssl private_key =
     bind_result (NewEvpPkeyFromBytes (EVP_PKEY_new_raw_private_key ssl) private_key) (\<lambda>evp_pkey.
       or_fail (Generator KEY_DERIVATION_FAILED) (EVP_PKEY_get_raw_public_key ssl evp_pkey))"

definition Ed25519_sign :: "'k ed25519_ssl \<Rightarrow> bool \<Rightarrow> bytes \<Rightarrow> bytes \<Rightarrow> bytes crypto_result" where
  "Ed25519_sign ssl mctx message private_key =
     bind_result (NewEvpPkeyFromBytes (EVP_PKEY_new_raw_private_key ssl) private_key) (\<lambda>evp_pkey.
       (let FAILED = Crypto SIGNATURE_GENERATION_FAILED
        in if \<not> mctx then Inl FAILED
           else if \<not> EVP_DigestSignInit ssl evp_pkey then Inl FAILED
           else or_fail FAILED (EVP_DigestSign ssl evp_pkey message)))"

definition Ed25519_verify :: "'k ed25519_ssl \<Rightarrow> bool \<Rightarrow> bytes \<Rightarrow> bytes \<Rightarrow> bytes \<Rightarrow> bool crypto_result" where
  "Ed25519_verify ssl mctx message signature public_key =
     bind_result (NewEvpPkeyFromBytes (EVP_PKEY_new_raw_public_key ssl) public_key) (\<lambda>evp_pkey.
       (let FAILED = Crypto SIGNATURE_VERIFICATION_FAILED
        in if \<not> mctx then Inl FAILED
           else if \<not> EVP_DigestVerifyInit ssl evp_pkey then Inl FAILED
           else (let valid = EVP_DigestVerify ssl evp_pkey signature message
                 in if valid = 1 \<or> valid = 0 then Inr (valid = 1) else Inl FAILED)))"

text \<open>
  What openssl documents: raw keys have 32 bytes and signatures 64; a key read back from its raw private
  key has the same public key; a key read from the raw public key of a private one can be
  used and accepts what was signed with that.
\<close>

definition ed25519_documented :: "'k ed25519_ssl \<Rightarrow> bool" where
  "ed25519_documented ssl \<longleftrightarrow>
     (\<forall>k priv pub. EVP_PKEY_get_raw_private_key ssl k = Some priv \<longrightarrow> EVP_PKEY_get_raw_public_key ssl k = Some pub
        \<longrightarrow> length priv = 32
          \<and> (\<exists>k'. EVP_PKEY_new_raw_private_key ssl priv = Some k' \<and> EVP_PKEY_get_raw_public_key ssl k' = Some pub))
   \<and> (\<forall>k pub. EVP_PKEY_get_raw_public_key ssl k = Some pub \<longrightarrow> length pub = 32)
   \<and> (\<forall>k m s. EVP_DigestSign ssl k m = Some s \<longrightarrow> length s = 64)
   \<and> (\<forall>k pub m s. EVP_PKEY_get_raw_public_key ssl k = Some pub \<longrightarrow> EVP_DigestSign ssl k m = Some s
        \<longrightarrow> (\<exists>k'. EVP_PKEY_new_raw_public_key ssl pub = Some k' \<and> EVP_DigestVerifyInit ssl k'
               \<and> EVP_DigestVerify ssl k' s m = 1))"

interpretation ed25519: signature_scheme "ed25519_documented ssl" "\<lambda>p. \<exists>env. Ed25519_generate ssl env = Inr p"
    "Ed25519_derive ssl" "\<lambda>m k. Returns (Ed25519_sign ssl True m k)" "\<lambda>m s k. Returns (Ed25519_verify ssl True m s k)"
    "\<lambda>n. n = 32" "\<lambda>n. n = 32" for ssl
  by unfold_locales
    (fastforce simp: ed25519_documented_def Ed25519_generate_def Ed25519_derive_def Ed25519_sign_def Ed25519_verify_def
       NewEvpPkeyFromBytes_def Let_def bind_result_eq_Inr split: prod.splits if_splits)+

section \<open>Secp256k1\<close>

text \<open>
  Public keys and signatures of libsecp256k1 have types \<open>'p\<close> and \<open>'s\<close>.
  \<open>signature_serialize_der s n\<close> is called with a buffer of \<open>n\<close> bytes and gives whether it
  succeeds, the size of the encoding, and what it has written.
\<close>

record ('p, 's) secp_lib =
  ec_seckey_verify :: "bytes \<Rightarrow> bool"
  ec_pubkey_create :: "bytes \<Rightarrow> 'p option"
  ec_pubkey_serialize :: "'p \<Rightarrow> bytes option"
  ec_pubkey_parse :: "bytes \<Rightarrow> 'p option"
  ecdsa_sign :: "bytes \<Rightarrow> bytes \<Rightarrow> 's option"
  ecdsa_verify :: "'s \<Rightarrow> bytes \<Rightarrow> 'p \<Rightarrow> int"
  signature_serialize_der :: "'s \<Rightarrow> nat \<Rightarrow> bool \<times> nat \<times> bytes"
  signature_parse_der :: "bytes \<Rightarrow> 's option"
  signature_serialize_compact :: "'s \<Rightarrow> bytes"
  signature_parse_compact :: "bytes \<Rightarrow> 's option"

text \<open>
  \<open>sha256(message).value()\<close>, which throws if there is no value; \<open>api\<close> and \<open>mem\<close> are the
  calls of openssl and the memory the hash object is made in.
\<close>

definition sha256_value :: "'c sha_api \<Rightarrow> 'c \<Rightarrow> bytes \<Rightarrow> bytes cxx" where
  "sha256_value api mem message = (case Hashers.sha256 api mem message of Inl _ \<Rightarrow> Throws | Inr digest \<Rightarrow> Returns digest)"

definition Secp256k1_derive :: "('p, 's) secp_lib \<Rightarrow> bytes \<Rightarrow> bytes crypto_result" where
  "Secp256k1_derive lib k =
     bind_result (or_fail (Generator KEY_DERIVATION_FAILED) (ec_pubkey_create lib k)) (\<lambda>ffi_pub.
       or_fail (Generator KEY_DERIVATION_FAILED) (ec_pubkey_serialize lib ffi_pub))"

text \<open>
  The loop of \<open>generate\<close>: \<open>random i\<close> is what the random generator fills the key with the
  \<open>i\<close>-th time. It need not end.
\<close>

partial_function (option) seckey_loop :: "('p, 's) secp_lib \<Rightarrow> (nat \<Rightarrow> bytes) \<Rightarrow> nat \<Rightarrow> bytes option" where
  "seckey_loop lib random i = (if ec_seckey_verify lib (random i) then Some (random i) else seckey_loop lib random (Suc i))"

definition Secp256k1_generate ::
  "('p, 's) secp_lib \<Rightarrow> (nat \<Rightarrow> bytes) \<Rightarrow> (bytes \<times> bytes) crypto_result option" where
  "Secp256k1_generate lib random =
     map_option (\<lambda>private_key. bind_result (Secp256k1_derive lib private_key) (\<lambda>public_key. Inr (private_key, public_key)))
       (seckey_loop lib random 0)"

definition Secp256k1_signRaw :: "('p, 's) secp_lib \<Rightarrow> bytes \<Rightarrow> bytes \<Rightarrow> 's crypto_result" where
  "Secp256k1_signRaw lib prehashed k = or_fail (Crypto SIGNATURE_GENERATION_FAILED) (ecdsa_sign lib prehashed k)"

definition Secp256k1_sign :: "('p, 's) secp_lib \<Rightarrow> 'c sha_api \<Rightarrow> 'c \<Rightarrow> bytes \<Rightarrow> bytes \<Rightarrow> bytes crypto_result cxx" where
  "Secp256k1_sign lib api mem message k =
     bind_cxx (sha256_value api mem message) (\<lambda>prehashed.
       Returns (bind_result (Secp256k1_signRaw lib prehashed k) (\<lambda>ffi_sig.
         (let (_, size1, _) = signature_serialize_der lib ffi_sig 0;
              (ok, _, signature) = signature_serialize_der lib ffi_sig size1
          in if \<not> ok then Inl (Crypto SIGNATURE_GENERATION_FAILED) else Inr signature))))"

definition Secp256k1_signCompact :: "('p, 's) secp_lib \<Rightarrow> bytes \<Rightarrow> bytes \<Rightarrow> bytes crypto_result" where
  "Secp256k1_signCompact lib prehashed k =
     bind_result (Secp256k1_signRaw lib prehashed k) (\<lambda>ffi_sig. Inr (signature_serialize_compact lib ffi_sig))"

definition Secp256k1_verifyRaw :: "('p, 's) secp_lib \<Rightarrow> bytes \<Rightarrow> 's \<Rightarrow> bytes \<Rightarrow> bool crypto_result" where
  "Secp256k1_verifyRaw lib prehashed ffi_sig k =
     bind_result (or_fail (Crypto SIGNATURE_VERIFICATION_FAILED) (ec_pubkey_parse lib k)) (\<lambda>ffi_pub.
       Inr (ecdsa_verify lib ffi_sig prehashed ffi_pub = 1))"

definition Secp256k1_verify ::
  "('p, 's) secp_lib \<Rightarrow> 'c sha_api \<Rightarrow> 'c \<Rightarrow> bytes \<Rightarrow> bytes \<Rightarrow> bytes \<Rightarrow> bool crypto_result cxx" where
  "Secp256k1_verify lib api mem message signature k =
     (case signature_parse_der lib signature of
        None \<Rightarrow> Returns (Inl (Crypto SIGNATURE_VERIFICATION_FAILED))
      | Some ffi_sig \<Rightarrow>
          bind_cxx (sha256_value api mem message) (\<lambda>prehashed. Returns (Secp256k1_verifyRaw lib prehashed ffi_sig k)))"

definition Secp256k1_verifyCompact :: "('p, 's) secp_lib \<Rightarrow> bytes \<Rightarrow> bytes \<Rightarrow> bytes \<Rightarrow> bool crypto_result" where
  "Secp256k1_verifyCompact lib prehashed signature k =
     bind_result (or_fail (Crypto SIGNATURE_VERIFICATION_FAILED) (signature_parse_compact lib signature)) (\<lambda>ffi_sig.
       Secp256k1_verifyRaw lib prehashed ffi_sig k)"

text \<open>
  What libsecp256k1 documents: valid secret keys have a public key, whose compressed form has 33 bytes, the
  first of them 2 or 3, and can be parsed; signatures verify; the DER serializer gives the size of the encoding even if
  the buffer is too small, and what it writes can be parsed, as can the compact form. The
  keys that are tried have the 32 bytes of the array they are put in.
\<close>

definition secp_documented :: "('p, 's) secp_lib \<Rightarrow> bool" where
  "secp_documented lib \<longleftrightarrow>
     (\<forall>k. ec_seckey_verify lib k \<longrightarrow> ec_pubkey_create lib k \<noteq> None)
   \<and> (\<forall>k p. ec_pubkey_create lib k = Some p
        \<longrightarrow> (\<exists>b. ec_pubkey_serialize lib p = Some b \<and> length b = 33 \<and> b ! 0 \<in> {2, 3} \<and> ec_pubkey_parse lib b = Some p))
   \<and> (\<forall>k p h s. ec_pubkey_create lib k = Some p \<longrightarrow> ecdsa_sign lib h k = Some s \<longrightarrow> ecdsa_verify lib s h p = 1)
   \<and> (\<forall>s. \<exists>der. signature_parse_der lib der = Some s
        \<and> (\<forall>n. signature_serialize_der lib s n = (length der \<le> n, length der, if length der \<le> n then der else [])))
   \<and> (\<forall>s. signature_parse_compact lib (signature_serialize_compact lib s) = Some s)"

lemma seckey_loop_Some: "seckey_loop lib random i = Some k \<Longrightarrow> ec_seckey_verify lib k \<and> (\<exists>j \<ge> i. k = random j)"
proof (induction lib random i k rule: seckey_loop.raw_induct [rotated, consumes 1, case_names step])
  case (step loop lib random i k)
  show ?case
  proof (cases "ec_seckey_verify lib (random i)")
    case False
    with step have "ec_seckey_verify lib k \<and> (\<exists>j \<ge> Suc i. k = random j)" by simp
    then show ?thesis using Suc_leD by blast
  qed (use step in auto)
qed

text \<open>It returns as soon as a valid key is drawn.\<close>

lemma seckey_loop_returns: "ec_seckey_verify lib (random (i + n)) \<Longrightarrow> \<exists>k. seckey_loop lib random i = Some k"
proof (induction n arbitrary: i)
  case 0
  then show ?case by (simp add: seckey_loop.simps)
next
  case (Suc n)
  then show ?case by (cases "ec_seckey_verify lib (random i)") (simp_all add: seckey_loop.simps [of _ _ i])
qed

interpretation secp256k1: signature_scheme
    "secp_documented lib \<and> (\<exists>R H. sha_documented api R H \<and> sha_reliable api) \<and> (\<forall>i. length (random i) = 32)"
    "\<lambda>p. Secp256k1_generate lib random = Some (Inr p)" "Secp256k1_derive lib"
    "Secp256k1_sign lib api mem" "Secp256k1_verify lib api mem" "\<lambda>n. n = 32" "\<lambda>n. n = 33" for lib api mem random
proof
  fix priv pub m s
  assume doc: "secp_documented lib \<and> (\<exists>R H. sha_documented api R H \<and> sha_reliable api) \<and> (\<forall>i. length (random i) = 32)"
  then have lib: "secp_documented lib" by blast
  { assume "Secp256k1_generate lib random = Some (Inr (priv, pub))"
    then show "Secp256k1_derive lib priv = Inr pub" "length priv = 32"
      using doc by (auto simp: Secp256k1_generate_def bind_result_eq_Inr dest!: seckey_loop_Some) }
  assume pub: "Secp256k1_derive lib priv = Inr pub"
  then obtain p where p: "ec_pubkey_create lib priv = Some p" "ec_pubkey_serialize lib p = Some pub"
    by (auto simp: Secp256k1_derive_def bind_result_eq_Inr)
  with lib have pub': "length pub = 33" "ec_pubkey_parse lib pub = Some p" unfolding secp_documented_def by fastforce+
  then show "length pub = 33" by simp
  assume "Secp256k1_sign lib api mem m priv = Returns (Inr s)"
  then obtain h f where h: "sha256_value api mem m = Returns h" and f: "ecdsa_sign lib h priv = Some f"
    and der: "(let (_, size1, _) = signature_serialize_der lib f 0; (ok, _, signature) = signature_serialize_der lib f size1
               in if \<not> ok then Inl (Crypto SIGNATURE_GENERATION_FAILED) else Inr signature) = Inr s"
    by (auto simp: Secp256k1_sign_def Secp256k1_signRaw_def bind_result_eq_Inr bind_cxx_def split: cxx.splits)
  from lib obtain d where "signature_parse_der lib d = Some f"
    "\<forall>n. signature_serialize_der lib f n = (length d \<le> n, length d, if length d \<le> n then d else [])"
    unfolding secp_documented_def by blast
  with der have "signature_parse_der lib s = Some f" by simp
  moreover from lib p f have "ecdsa_verify lib f h p = 1" unfolding secp_documented_def by blast
  ultimately show "Secp256k1_verify lib api mem m s pub = Returns (Inr True)"
    using h pub' by (simp add: Secp256k1_verify_def Secp256k1_verifyRaw_def)
qed

text \<open>The compact form.\<close>

lemma signCompact_verifies:
  assumes lib: "secp_documented lib" and "Secp256k1_derive lib priv = Inr pub" and "Secp256k1_signCompact lib h priv = Inr s"
  shows "Secp256k1_verifyCompact lib h s pub = Inr True"
proof -
  from assms obtain p f where "ec_pubkey_create lib priv = Some p" "ec_pubkey_serialize lib p = Some pub"
    "ecdsa_sign lib h priv = Some f" "s = signature_serialize_compact lib f"
    by (auto simp: Secp256k1_derive_def Secp256k1_signCompact_def Secp256k1_signRaw_def bind_result_eq_Inr)
  moreover from this lib have "ec_pubkey_parse lib pub = Some p" unfolding secp_documented_def by fastforce
  ultimately show ?thesis using lib
    by (simp add: secp_documented_def Secp256k1_verifyCompact_def Secp256k1_verifyRaw_def)
qed

section \<open>ECDSA\<close>

text \<open>
  Keys, points and signatures of openssl have types \<open>'k\<close>, \<open>'q\<close> and \<open>'s\<close>. The \<open>i2d\<close> functions
  give the encoding, or none and a negative size.
\<close>

record ('k, 'q, 's) ec_ssl =
  i2d_ECPrivateKey :: "'k \<Rightarrow> bytes option"
  i2d_EC_PUBKEY :: "'k \<Rightarrow> bytes option"
  d2i_ECPrivateKey :: "bytes \<Rightarrow> 'k option"
  d2i_EC_PUBKEY :: "bytes \<Rightarrow> 'k option"
  EC_KEY_check_key :: "'k \<Rightarrow> bool"
  EC_POINT_mul :: "'k \<Rightarrow> 'q option"
  EC_KEY_set_public_key :: "'k \<Rightarrow> 'q \<Rightarrow> 'k option"
  ECDSA_do_sign :: "bytes \<Rightarrow> 'k \<Rightarrow> 's option"
  i2d_ECDSA_SIG :: "'s \<Rightarrow> bytes option"
  ECDSA_verify :: "bytes \<Rightarrow> bytes \<Rightarrow> 'k \<Rightarrow> int"

definition ECDSA_PRIVATE_KEY_SIZE :: nat where "ECDSA_PRIVATE_KEY_SIZE = 121"
definition ECDSA_PUBLIC_KEY_SIZE :: nat where "ECDSA_PUBLIC_KEY_SIZE = 91"

definition i2d_size :: "bytes option \<Rightarrow> int" where
  "i2d_size r = (case r of None \<Rightarrow> - 1 | Some b \<Rightarrow> int (length b))"

definition convertEcKeyToBytes :: "nat \<Rightarrow> 'k \<Rightarrow> ('k \<Rightarrow> bytes option) \<Rightarrow> bytes crypto_result" where
  "convertEcKeyToBytes size_of_key ec_key converter =
     (if i2d_size (converter ec_key) \<noteq> int size_of_key then Inl (KeyInvalid DIFFERENT_KEY_TYPES)
      else (case converter ec_key of
              None \<Rightarrow> Inl (Generator INTERNAL_ERROR)
            | Some k \<Rightarrow> if length k \<noteq> size_of_key then Inl (Generator INTERNAL_ERROR) else Inr k))"

definition convertBytesToEcKey :: "('k, 'q, 's) ec_ssl \<Rightarrow> bytes \<Rightarrow> (bytes \<Rightarrow> 'k option) \<Rightarrow> 'k crypto_result" where
  "convertBytesToEcKey ssl k converter =
     bind_result (or_fail (KeyInvalid DIFFERENT_KEY_TYPES) (converter k)) (\<lambda>ec_key.
       if \<not> EC_KEY_check_key ssl ec_key then Inl (Generator INTERNAL_ERROR) else Inr ec_key)"

definition GenerateEcSignature :: "('k, 'q, 's) ec_ssl \<Rightarrow> bytes \<Rightarrow> 'k \<Rightarrow> bytes crypto_result" where
  "GenerateEcSignature ssl digest k =
     bind_result (or_fail (Crypto SIGNATURE_GENERATION_FAILED) (ECDSA_do_sign ssl digest k)) (\<lambda>signature.
       or_fail (Crypto SIGNATURE_GENERATION_FAILED) (i2d_ECDSA_SIG ssl signature))"

definition VerifyEcSignature :: "('k, 'q, 's) ec_ssl \<Rightarrow> bytes \<Rightarrow> bytes \<Rightarrow> 'k \<Rightarrow> bool crypto_result" where
  "VerifyEcSignature ssl digest signature k =
     (let result = ECDSA_verify ssl digest signature k
      in if result < 0 then Inl (Crypto SIGNATURE_VERIFICATION_FAILED) else Inr (result = 1))"

text \<open>\<open>generated\<close> is the key \<open>EC_KEY_generate_key\<close> makes, if it does.\<close>

definition Ecdsa_generate :: "('k, 'q, 's) ec_ssl \<Rightarrow> 'k option \<Rightarrow> (bytes \<times> bytes) crypto_result" where
  "Ecdsa_generate ssl generated =
     bind_result (or_fail (Generator KEY_GENERATION_FAILED) generated) (\<lambda>ec_key.
     bind_result (convertEcKeyToBytes ECDSA_PRIVATE_KEY_SIZE ec_key (i2d_ECPrivateKey ssl)) (\<lambda>private_key.
     bind_result (convertEcKeyToBytes ECDSA_PUBLIC_KEY_SIZE ec_key (i2d_EC_PUBKEY ssl)) (\<lambda>public_key.
       Inr (private_key, public_key))))"

definition Ecdsa_derive :: "('k, 'q, 's) ec_ssl \<Rightarrow> bytes \<Rightarrow> bytes crypto_result" where
  "Ecdsa_derive ssl k =
     bind_result (convertBytesToEcKey ssl k (d2i_ECPrivateKey ssl)) (\<lambda>ec_key.
     bind_result (or_fail (Generator KEY_GENERATION_FAILED) (EC_POINT_mul ssl ec_key)) (\<lambda>ec_point.
     bind_result (or_fail (Generator KEY_GENERATION_FAILED) (EC_KEY_set_public_key ssl ec_key ec_point)) (\<lambda>ec_key'.
       convertEcKeyToBytes ECDSA_PUBLIC_KEY_SIZE ec_key' (i2d_EC_PUBKEY ssl))))"

definition Ecdsa_signPrehashed :: "('k, 'q, 's) ec_ssl \<Rightarrow> bytes \<Rightarrow> bytes \<Rightarrow> bytes crypto_result" where
  "Ecdsa_signPrehashed ssl message k =
     bind_result (convertBytesToEcKey ssl k (d2i_ECPrivateKey ssl)) (GenerateEcSignature ssl message)"

definition Ecdsa_sign :: "('k, 'q, 's) ec_ssl \<Rightarrow> 'c sha_api \<Rightarrow> 'c \<Rightarrow> bytes \<Rightarrow> bytes \<Rightarrow> bytes crypto_result" where
  "Ecdsa_sign ssl api mem message k =
     bind_result (map_sum Hashing id (Hashers.sha256 api mem message)) (\<lambda>digest. Ecdsa_signPrehashed ssl digest k)"

definition Ecdsa_verifyPrehashed :: "('k, 'q, 's) ec_ssl \<Rightarrow> bytes \<Rightarrow> bytes \<Rightarrow> bytes \<Rightarrow> bool crypto_result" where
  "Ecdsa_verifyPrehashed ssl message signature public_key =
     bind_result (convertBytesToEcKey ssl public_key (d2i_EC_PUBKEY ssl)) (VerifyEcSignature ssl message signature)"

definition Ecdsa_verify :: "('k, 'q, 's) ec_ssl \<Rightarrow> 'c sha_api \<Rightarrow> 'c \<Rightarrow> bytes \<Rightarrow> bytes \<Rightarrow> bytes \<Rightarrow> bool crypto_result" where
  "Ecdsa_verify ssl api mem message signature k =
     bind_result (map_sum Hashing id (Hashers.sha256 api mem message)) (\<lambda>digest. Ecdsa_verifyPrehashed ssl digest signature k)"

text \<open>
  What openssl documents: an encoded private key is read back as a good key with the same
  multiple of the generator, which is its public key; the encoded public key that belongs to
  a private key is read back as a good key, which accepts what the private key has signed.
\<close>

definition ec_documented :: "('k, 'q, 's) ec_ssl \<Rightarrow> bool" where
  "ec_documented ssl \<longleftrightarrow>
     (\<forall>k priv pub. i2d_ECPrivateKey ssl k = Some priv \<longrightarrow> i2d_EC_PUBKEY ssl k = Some pub
        \<longrightarrow> (\<exists>k' q k''. d2i_ECPrivateKey ssl priv = Some k' \<and> EC_KEY_check_key ssl k' \<and> EC_POINT_mul ssl k' = Some q
               \<and> EC_KEY_set_public_key ssl k' q = Some k'' \<and> i2d_EC_PUBKEY ssl k'' = Some pub))
   \<and> (\<forall>k q k' pub m s b. EC_POINT_mul ssl k = Some q \<longrightarrow> EC_KEY_set_public_key ssl k q = Some k'
        \<longrightarrow> i2d_EC_PUBKEY ssl k' = Some pub \<longrightarrow> ECDSA_do_sign ssl m k = Some s \<longrightarrow> i2d_ECDSA_SIG ssl s = Some b
        \<longrightarrow> (\<exists>k''. d2i_EC_PUBKEY ssl pub = Some k'' \<and> EC_KEY_check_key ssl k'' \<and> ECDSA_verify ssl m b k'' = 1))"

lemma convertEcKeyToBytes_Inr [simp]:
  "convertEcKeyToBytes n k c = Inr b \<longleftrightarrow> c k = Some b \<and> length b = n"
  by (auto simp: convertEcKeyToBytes_def i2d_size_def split: option.splits)

lemma convertBytesToEcKey_Inr [simp]:
  "convertBytesToEcKey ssl b c = Inr k \<longleftrightarrow> c b = Some k \<and> EC_KEY_check_key ssl k"
  by (auto simp: convertBytesToEcKey_def bind_result_eq_Inr)

lemma map_sum_Inr: "map_sum f id r = Inr x \<longleftrightarrow> r = Inr x"
  by (cases r) simp_all

interpretation ecdsa: signature_scheme "ec_documented ssl" "\<lambda>p. \<exists>k. Ecdsa_generate ssl k = Inr p" "Ecdsa_derive ssl"
    "\<lambda>m k. Returns (Ecdsa_sign ssl api mem m k)" "\<lambda>m s k. Returns (Ecdsa_verify ssl api mem m s k)"
    "\<lambda>n. n = ECDSA_PRIVATE_KEY_SIZE" "\<lambda>n. n = ECDSA_PUBLIC_KEY_SIZE" for ssl api mem
proof
  fix priv pub m s
  assume doc: "ec_documented ssl"
  { assume "\<exists>k. Ecdsa_generate ssl k = Inr (priv, pub)"
    then obtain k where k: "i2d_ECPrivateKey ssl k = Some priv" "i2d_EC_PUBKEY ssl k = Some pub"
      and len: "length priv = ECDSA_PRIVATE_KEY_SIZE" "length pub = ECDSA_PUBLIC_KEY_SIZE"
      by (auto simp: Ecdsa_generate_def bind_result_eq_Inr)
    with doc obtain k' q k'' where "d2i_ECPrivateKey ssl priv = Some k'" "EC_KEY_check_key ssl k'"
      "EC_POINT_mul ssl k' = Some q" "EC_KEY_set_public_key ssl k' q = Some k''" "i2d_EC_PUBKEY ssl k'' = Some pub"
      unfolding ec_documented_def by blast
    with len show "Ecdsa_derive ssl priv = Inr pub" "length priv = ECDSA_PRIVATE_KEY_SIZE"
      by (auto simp: Ecdsa_derive_def bind_result_eq_Inr) }
  assume "Ecdsa_derive ssl priv = Inr pub"
  then obtain k q k' where k: "d2i_ECPrivateKey ssl priv = Some k" "EC_POINT_mul ssl k = Some q"
      "EC_KEY_set_public_key ssl k q = Some k'" "i2d_EC_PUBKEY ssl k' = Some pub" "length pub = ECDSA_PUBLIC_KEY_SIZE"
    by (auto simp: Ecdsa_derive_def bind_result_eq_Inr)
  then show "length pub = ECDSA_PUBLIC_KEY_SIZE" by simp
  assume "Returns (Ecdsa_sign ssl api mem m priv) = Returns (Inr s)"
  with k(1) obtain h f where h: "Hashers.sha256 api mem m = Inr h" "ECDSA_do_sign ssl h k = Some f" "i2d_ECDSA_SIG ssl f = Some s"
    by (auto simp: Ecdsa_sign_def Ecdsa_signPrehashed_def GenerateEcSignature_def bind_result_eq_Inr map_sum_Inr)
  with k doc obtain k'' where "d2i_EC_PUBKEY ssl pub = Some k''" "EC_KEY_check_key ssl k''" "ECDSA_verify ssl h s k'' = 1"
    unfolding ec_documented_def by blast
  with h show "Returns (Ecdsa_verify ssl api mem m s pub) = Returns (Inr True)"
    by (simp add: Ecdsa_verify_def Ecdsa_verifyPrehashed_def convertBytesToEcKey_def VerifyEcSignature_def)
qed

section \<open>RSA\<close>

text \<open>
  Keys of openssl have types \<open>'k\<close> (\<open>RSA\<close>), \<open>'x\<close> (\<open>X509_PUBKEY\<close>) and \<open>'e\<close> (\<open>EVP_PKEY\<close>).
  \<open>RSA_generate_key_ex\<close> is given its randomness, of type \<open>'r\<close>.
\<close>

datatype RSAKeyType = RSA1024 | RSA2048 | RSA4096

record ('k, 'x, 'e, 'r) rsa_ssl =
  BN_set_word :: bool
  RSA_generate_key_ex :: "'r \<Rightarrow> nat \<Rightarrow> 'k option"
  i2d_RSAPrivateKey :: "'k \<Rightarrow> bytes option"
  i2d_RSA_PUBKEY :: "'k \<Rightarrow> bytes option"
  d2i_RSAPrivateKey :: "bytes \<Rightarrow> 'k option"
  RSA_size :: "'k \<Rightarrow> nat"
  RSA_sign :: "bytes \<Rightarrow> 'k \<Rightarrow> bytes option"
  d2i_X509_PUBKEY :: "bytes \<Rightarrow> 'x option"
  X509_PUBKEY_get :: "'x \<Rightarrow> 'e option"
  EVP_PKEY_get1_RSA :: "'e \<Rightarrow> 'k option"
  RSA_verify :: "bytes \<Rightarrow> bytes \<Rightarrow> 'k \<Rightarrow> int"

fun rsa_bitness :: "RSAKeyType \<Rightarrow> nat" where
  "rsa_bitness RSA1024 = 1024"
| "rsa_bitness RSA4096 = 4096"
| "rsa_bitness RSA2048 = 2048"

definition encodeKeyDer :: "'k \<Rightarrow> ('k \<Rightarrow> bytes option) \<Rightarrow> bytes crypto_result" where
  "encodeKeyDer ks f = or_fail (Generator KEY_GENERATION_FAILED) (f ks)"

definition Rsa_generate :: "('k, 'x, 'e, 'r) rsa_ssl \<Rightarrow> 'r \<Rightarrow> RSAKeyType \<Rightarrow> (bytes \<times> bytes) crypto_result" where
  "Rsa_generate ssl random bitness =
     (let bits = rsa_bitness bitness
      in if \<not> BN_set_word ssl then Inl (Generator KEY_GENERATION_FAILED)
         else bind_result (or_fail (Generator KEY_GENERATION_FAILED) (RSA_generate_key_ex ssl random bits)) (\<lambda>rsa.
              bind_result (encodeKeyDer rsa (i2d_RSAPrivateKey ssl)) (\<lambda>private_bytes.
              bind_result (encodeKeyDer rsa (i2d_RSA_PUBKEY ssl)) (\<lambda>public_bytes.
                Inr (private_bytes, public_bytes)))))"

definition Rsa_derive :: "('k, 'x, 'e, 'r) rsa_ssl \<Rightarrow> bytes \<Rightarrow> bytes crypto_result" where
  "Rsa_derive ssl private_key =
     bind_result (or_fail (Generator KEY_DERIVATION_FAILED) (d2i_RSAPrivateKey ssl private_key)) (\<lambda>rsa.
       encodeKeyDer rsa (i2d_RSA_PUBKEY ssl))"

definition rsaFromPrivateKey :: "('k, 'x, 'e, 'r) rsa_ssl \<Rightarrow> bytes \<Rightarrow> 'k crypto_result" where
  "rsaFromPrivateKey ssl private_key = or_fail (KeyInvalid INVALID_PRIVATE_KEY) (d2i_RSAPrivateKey ssl private_key)"

text \<open>
  The signature is a buffer of \<open>RSA_size\<close> zero bytes, which \<open>RSA_sign\<close> fills from the start;
  it is not cut to the size that is written.
\<close>

definition Rsa_sign ::
  "('k, 'x, 'e, 'r) rsa_ssl \<Rightarrow> 'c sha_api \<Rightarrow> 'c \<Rightarrow> bytes \<Rightarrow> bytes \<Rightarrow> bytes crypto_result cxx" where
  "Rsa_sign ssl api mem message private_key =
     try_crypto (Returns (rsaFromPrivateKey ssl private_key)) (\<lambda>rsa.
     try_crypto (Returns (map_sum Hashing id (Hashers.sha256 api mem message))) (\<lambda>digest.
       (case RSA_sign ssl digest rsa of
          None \<Rightarrow> Returns (Inl (Crypto SIGNATURE_GENERATION_FAILED))
        | Some s \<Rightarrow>
            if length s > RSA_size ssl rsa then Throws
            else Returns (Inr (s @ replicate (RSA_size ssl rsa - length s) 0)))))"

definition getPublicKeyFromBytes :: "('k, 'x, 'e, 'r) rsa_ssl \<Rightarrow> bytes \<Rightarrow> 'x crypto_result" where
  "getPublicKeyFromBytes ssl input_key = or_fail (KeyInvalid INVALID_PUBLIC_KEY) (d2i_X509_PUBKEY ssl input_key)"

definition Rsa_verify ::
  "('k, 'x, 'e, 'r) rsa_ssl \<Rightarrow> 'c sha_api \<Rightarrow> 'c \<Rightarrow> bytes \<Rightarrow> bytes \<Rightarrow> bytes \<Rightarrow> bool crypto_result" where
  "Rsa_verify ssl api mem message signature public_key =
     bind_result (getPublicKeyFromBytes ssl public_key) (\<lambda>x509_key.
     bind_result (or_fail (Crypto SIGNATURE_VERIFICATION_FAILED) (X509_PUBKEY_get ssl x509_key)) (\<lambda>k.
     bind_result (or_fail (Crypto SIGNATURE_VERIFICATION_FAILED) (EVP_PKEY_get1_RSA ssl k)) (\<lambda>rsa.
     bind_result (map_sum Hashing id (Hashers.sha256 api mem message)) (\<lambda>digest.
       Inr (RSA_verify ssl digest signature rsa = 1)))))"

text \<open>
  What openssl documents: an encoded private key is read back with its public key; the
  encoded public key that belongs to a private key is read back as an RSA key, which
  accepts what the private key has signed; and a signature has the size of the key.
\<close>

definition rsa_documented :: "('k, 'x, 'e, 'r) rsa_ssl \<Rightarrow> bool" where
  "rsa_documented ssl \<longleftrightarrow>
     (\<forall>k priv. i2d_RSAPrivateKey ssl k = Some priv
        \<longrightarrow> (\<exists>k'. d2i_RSAPrivateKey ssl priv = Some k' \<and> i2d_RSA_PUBKEY ssl k' = i2d_RSA_PUBKEY ssl k))
   \<and> (\<forall>k m s. RSA_sign ssl m k = Some s \<longrightarrow> length s = RSA_size ssl k)
   \<and> (\<forall>k pub m s. i2d_RSA_PUBKEY ssl k = Some pub \<longrightarrow> RSA_sign ssl m k = Some s
        \<longrightarrow> (\<exists>x e k'. d2i_X509_PUBKEY ssl pub = Some x \<and> X509_PUBKEY_get ssl x = Some e
               \<and> EVP_PKEY_get1_RSA ssl e = Some k' \<and> RSA_verify ssl m s k' = 1))"

interpretation rsa: signature_scheme "rsa_documented ssl" "\<lambda>p. \<exists>r b. Rsa_generate ssl r b = Inr p" "Rsa_derive ssl"
    "Rsa_sign ssl api mem" "\<lambda>m s k. Returns (Rsa_verify ssl api mem m s k)" "\<lambda>_. True" "\<lambda>_. True" for ssl api mem
proof
  fix priv pub m s
  assume doc: "rsa_documented ssl"
  { assume "\<exists>r b. Rsa_generate ssl r b = Inr (priv, pub)"
    then obtain k where "i2d_RSAPrivateKey ssl k = Some priv" "i2d_RSA_PUBKEY ssl k = Some pub"
      by (auto simp: Rsa_generate_def encodeKeyDer_def Let_def bind_result_eq_Inr split: if_splits)
    with doc show "Rsa_derive ssl priv = Inr pub"
      by (fastforce simp: rsa_documented_def Rsa_derive_def encodeKeyDer_def bind_result_eq_Inr) }
  assume "Rsa_derive ssl priv = Inr pub" and "Rsa_sign ssl api mem m priv = Returns (Inr s)"
  then obtain k h t where k: "i2d_RSA_PUBKEY ssl k = Some pub" "RSA_sign ssl h k = Some t" "Hashers.sha256 api mem m = Inr h"
    and s: "s = t @ replicate (RSA_size ssl k - length t) 0"
    by (auto simp: Rsa_derive_def encodeKeyDer_def Rsa_sign_def rsaFromPrivateKey_def bind_result_eq_Inr try_crypto_Inr map_sum_Inr
          split: option.splits if_splits)
  from doc k(2) have "s = t" unfolding s rsa_documented_def by simp
  with doc k show "Returns (Rsa_verify ssl api mem m s pub) = Returns (Inr True)"
    unfolding rsa_documented_def by (fastforce simp: Rsa_verify_def getPublicKeyFromBytes_def)
qed simp_all


end
