(* ===== verification/Crypto_Provider.thy ===== *)
theory Crypto_Provider
  imports Signatures
begin

text \<open>
  \<open>src/crypto/crypto_provider/crypto_provider_impl.cpp\<close>: keys, signatures and key stretching
  over the providers of the signature schemes, which are reached through their interfaces.
  Keys and signatures are copied into arrays of fixed sizes with \<open>std::copy_n\<close>, which reads
  that many bytes whatever the size of the vector is: a read past its end is \<open>Throws\<close>.
  The exchange of ephemeral keys is in theory \<open>Ecdh\<close>.
\<close>

section \<open>The providers\<close>

text \<open>
  The interfaces \<open>Ed25519Provider\<close>, \<open>Secp256k1Provider\<close>, \<open>EcdsaProvider\<close> and \<open>RsaProvider\<close>;
  \<open>generate\<close> is what the next call answers, none if it does not return, and depends on the
  bitness for RSA. Arrays are lists of their size.
\<close>

record 'g provider =
  generate :: 'g
  derive :: "bytes \<Rightarrow> bytes crypto_result"
  psign :: "bytes \<Rightarrow> bytes \<Rightarrow> bytes crypto_result cxx"
  pverify :: "bytes \<Rightarrow> bytes \<Rightarrow> bytes \<Rightarrow> bool crypto_result cxx"

type_synonym generated = "(bytes \<times> bytes) crypto_result option"

record providers =
  ed25519_provider :: "generated provider"
  rsa_provider :: "(RSAKeyType \<Rightarrow> generated) provider"
  ecdsa_provider :: "generated provider"
  secp256k1_provider :: "generated provider"

definition copy_n :: "nat \<Rightarrow> bytes \<Rightarrow> bytes cxx" where
  "copy_n n data = (if n \<le> length data then Returns (take n data) else Throws)"

definition ED25519_SIGNATURE_SIZE :: nat where "ED25519_SIGNATURE_SIZE = 64"

section \<open>Keys\<close>

definition make_pair :: "Key_Type \<Rightarrow> (bytes \<times> bytes) crypto_result \<Rightarrow> KeyPair crypto_result" where
  "make_pair type r = bind_result r (\<lambda>(priv, pub).
     Inr \<lparr>publicKey = \<lparr>key_type = type, key_data = pub\<rparr>, privateKey = \<lparr>key_type = type, key_data = priv\<rparr>\<rparr>)"

definition generateRsa :: "providers \<Rightarrow> RSAKeyType \<Rightarrow> KeyPair crypto_result option" where
  "generateRsa ps bitness = map_option (make_pair RSA) (generate (rsa_provider ps) bitness)"

definition generateEd25519 :: "providers \<Rightarrow> KeyPair crypto_result option" where
  "generateEd25519 ps = map_option (make_pair Ed25519) (generate (ed25519_provider ps))"

definition generateSecp256k1 :: "providers \<Rightarrow> KeyPair crypto_result option" where
  "generateSecp256k1 ps = map_option (make_pair Secp256k1) (generate (secp256k1_provider ps))"

definition generateEcdsa :: "providers \<Rightarrow> KeyPair crypto_result option" where
  "generateEcdsa ps = map_option (make_pair ECDSA) (generate (ecdsa_provider ps))"

definition generateKeys :: "providers \<Rightarrow> Key_Type \<Rightarrow> RSAKeyType \<Rightarrow> KeyPair crypto_result option" where
  "generateKeys ps type bitness =
     (case type of
        RSA \<Rightarrow> generateRsa ps bitness
      | Ed25519 \<Rightarrow> generateEd25519 ps
      | Secp256k1 \<Rightarrow> generateSecp256k1 ps
      | ECDSA \<Rightarrow> generateEcdsa ps
      | UNSPECIFIED \<Rightarrow> Some (Inl (Generator UNSUPPORTED_KEY_TYPE)))"

definition as_key :: "Key_Type \<Rightarrow> bytes crypto_result \<Rightarrow> PublicKey crypto_result" where
  "as_key type r = bind_result r (\<lambda>pub. Inr \<lparr>key_type = type, key_data = pub\<rparr>)"

definition deriveRsa :: "providers \<Rightarrow> PrivateKey \<Rightarrow> PublicKey crypto_result cxx" where
  "deriveRsa ps k = Returns (as_key (key_type k) (derive (rsa_provider ps) (key_data k)))"

definition deriveEd25519 :: "providers \<Rightarrow> PrivateKey \<Rightarrow> PublicKey crypto_result cxx" where
  "deriveEd25519 ps k =
     bind_cxx (copy_n ED25519_PRIVATE_KEY_SIZE (key_data k)) (\<lambda>private_key.
       Returns (as_key (key_type k) (derive (ed25519_provider ps) private_key)))"

definition deriveSecp256k1 :: "providers \<Rightarrow> PrivateKey \<Rightarrow> PublicKey crypto_result cxx" where
  "deriveSecp256k1 ps k =
     bind_cxx (copy_n SECP256K1_PRIVATE_KEY_SIZE (key_data k)) (\<lambda>private_key.
       Returns (as_key (key_type k) (derive (secp256k1_provider ps) private_key)))"

definition deriveEcdsa :: "providers \<Rightarrow> PrivateKey \<Rightarrow> PublicKey crypto_result cxx" where
  "deriveEcdsa ps k =
     bind_cxx (copy_n ECDSA_PRIVATE_KEY_SIZE (key_data k)) (\<lambda>private_key.
       Returns (as_key (key_type k) (derive (ecdsa_provider ps) private_key)))"

definition derivePublicKey :: "providers \<Rightarrow> PrivateKey \<Rightarrow> PublicKey crypto_result cxx" where
  "derivePublicKey ps private_key =
     (case key_type private_key of
        RSA \<Rightarrow> deriveRsa ps private_key
      | Ed25519 \<Rightarrow> deriveEd25519 ps private_key
      | Secp256k1 \<Rightarrow> deriveSecp256k1 ps private_key
      | ECDSA \<Rightarrow> deriveEcdsa ps private_key
      | UNSPECIFIED \<Rightarrow> Returns (Inl (Generator WRONG_KEY_TYPE)))"

section \<open>Signatures\<close>

definition signRsa :: "providers \<Rightarrow> bytes \<Rightarrow> PrivateKey \<Rightarrow> bytes crypto_result cxx" where
  "signRsa ps message private_key = psign (rsa_provider ps) message (key_data private_key)"

definition signEd25519 :: "providers \<Rightarrow> bytes \<Rightarrow> PrivateKey \<Rightarrow> bytes crypto_result cxx" where
  "signEd25519 ps message private_key =
     bind_cxx (copy_n ED25519_PRIVATE_KEY_SIZE (key_data private_key)) (psign (ed25519_provider ps) message)"

definition signSecp256k1 :: "providers \<Rightarrow> bytes \<Rightarrow> PrivateKey \<Rightarrow> bytes crypto_result cxx" where
  "signSecp256k1 ps message private_key =
     bind_cxx (copy_n SECP256K1_PRIVATE_KEY_SIZE (key_data private_key)) (psign (secp256k1_provider ps) message)"

definition signEcdsa :: "providers \<Rightarrow> bytes \<Rightarrow> PrivateKey \<Rightarrow> bytes crypto_result cxx" where
  "signEcdsa ps message private_key =
     bind_cxx (copy_n ECDSA_PRIVATE_KEY_SIZE (key_data private_key)) (psign (ecdsa_provider ps) message)"

definition sign :: "providers \<Rightarrow> bytes \<Rightarrow> PrivateKey \<Rightarrow> bytes crypto_result cxx" where
  "sign ps message private_key =
     (case key_type private_key of
        RSA \<Rightarrow> signRsa ps message private_key
      | Ed25519 \<Rightarrow> signEd25519 ps message private_key
      | Secp256k1 \<Rightarrow> signSecp256k1 ps message private_key
      | ECDSA \<Rightarrow> signEcdsa ps message private_key
      | UNSPECIFIED \<Rightarrow> Returns (Inl (Generator WRONG_KEY_TYPE)))"

definition verifyRsa :: "providers \<Rightarrow> bytes \<Rightarrow> bytes \<Rightarrow> PublicKey \<Rightarrow> bool crypto_result cxx" where
  "verifyRsa ps message signature public_key = pverify (rsa_provider ps) message signature (key_data public_key)"

definition verifyEd25519 :: "providers \<Rightarrow> bytes \<Rightarrow> bytes \<Rightarrow> PublicKey \<Rightarrow> bool crypto_result cxx" where
  "verifyEd25519 ps message signature public_key =
     bind_cxx (copy_n ED25519_PUBLIC_KEY_SIZE (key_data public_key)) (\<lambda>ed_pub.
     bind_cxx (copy_n ED25519_SIGNATURE_SIZE signature) (\<lambda>ed_sig.
       pverify (ed25519_provider ps) message ed_sig ed_pub))"

definition verifySecp256k1 :: "providers \<Rightarrow> bytes \<Rightarrow> bytes \<Rightarrow> PublicKey \<Rightarrow> bool crypto_result cxx" where
  "verifySecp256k1 ps message signature public_key =
     bind_cxx (copy_n SECP256K1_PUBLIC_KEY_SIZE (key_data public_key)) (\<lambda>secp_pub.
       pverify (secp256k1_provider ps) message signature secp_pub)"

definition verifyEcdsa :: "providers \<Rightarrow> bytes \<Rightarrow> bytes \<Rightarrow> PublicKey \<Rightarrow> bool crypto_result cxx" where
  "verifyEcdsa ps message signature public_key =
     bind_cxx (copy_n ECDSA_PUBLIC_KEY_SIZE (key_data public_key)) (\<lambda>ecdsa_pub.
       pverify (ecdsa_provider ps) message signature ecdsa_pub)"

definition verify :: "providers \<Rightarrow> bytes \<Rightarrow> bytes \<Rightarrow> PublicKey \<Rightarrow> bool crypto_result cxx" where
  "verify ps message signature public_key =
     (case key_type public_key of
        RSA \<Rightarrow> verifyRsa ps message signature public_key
      | Ed25519 \<Rightarrow> verifyEd25519 ps message signature public_key
      | Secp256k1 \<Rightarrow> verifySecp256k1 ps message signature public_key
      | ECDSA \<Rightarrow> verifyEcdsa ps message signature public_key
      | UNSPECIFIED \<Rightarrow> Returns (Inl (Generator WRONG_KEY_TYPE)))"

section \<open>The implementation of the providers\<close>

text \<open>
  What the injector binds the interfaces to. What is random, or decided outside, is given: the
  outcome of the key generation of openssl, and the bytes of the random generator.
\<close>

definition Ed25519ProviderImpl :: "'edk ed25519_ssl \<Rightarrow> bool \<times> bool \<times> 'edk option \<Rightarrow> generated provider" where
  "Ed25519ProviderImpl ssl env =
     \<lparr>generate = Some (Ed25519_generate ssl env), derive = Ed25519_derive ssl,
      psign = (\<lambda>m k. Returns (Ed25519_sign ssl True m k)), pverify = (\<lambda>m s k. Returns (Ed25519_verify ssl True m s k))\<rparr>"

definition Secp256k1ProviderImpl :: "('p, 's) secp_lib \<Rightarrow> (nat \<Rightarrow> bytes) \<Rightarrow> 'c sha_api \<Rightarrow> 'c \<Rightarrow> generated provider" where
  "Secp256k1ProviderImpl lib random api mem =
     \<lparr>generate = Secp256k1_generate lib random, derive = Secp256k1_derive lib,
      psign = Secp256k1_sign lib api mem, pverify = Secp256k1_verify lib api mem\<rparr>"

definition EcdsaProviderImpl :: "('k, 'q, 's) ec_ssl \<Rightarrow> 'k option \<Rightarrow> 'c sha_api \<Rightarrow> 'c \<Rightarrow> generated provider" where
  "EcdsaProviderImpl ssl k api mem =
     \<lparr>generate = Some (Ecdsa_generate ssl k), derive = Ecdsa_derive ssl,
      psign = (\<lambda>m k. Returns (Ecdsa_sign ssl api mem m k)), pverify = (\<lambda>m s k. Returns (Ecdsa_verify ssl api mem m s k))\<rparr>"

definition RsaProviderImpl :: "('k, 'x, 'e, 'r) rsa_ssl \<Rightarrow> 'r \<Rightarrow> 'c sha_api \<Rightarrow> 'c \<Rightarrow> (RSAKeyType \<Rightarrow> generated) provider" where
  "RsaProviderImpl ssl random api mem =
     \<lparr>generate = (\<lambda>bitness. Some (Rsa_generate ssl random bitness)), derive = Rsa_derive ssl,
      psign = Rsa_sign ssl api mem, pverify = (\<lambda>m s k. Returns (Rsa_verify ssl api mem m s k))\<rparr>"

section \<open>Key stretching\<close>









section \<open>Properties of key stretching\<close>










section \<open>Properties of keys and signatures\<close>

text \<open>The provider as the injector makes it.\<close>

definition make_providers ::
  "'a ed25519_ssl \<Rightarrow> bool \<times> bool \<times> 'a option \<Rightarrow> ('p, 's) secp_lib \<Rightarrow> (nat \<Rightarrow> bytes) \<Rightarrow> ('k, 'q, 't) ec_ssl \<Rightarrow> 'k option
    \<Rightarrow> ('l, 'x, 'e, 'r) rsa_ssl \<Rightarrow> 'r \<Rightarrow> 'c sha_api \<Rightarrow> 'c \<Rightarrow> providers" where
  "make_providers ed ed_key secp random ec ec_key rsa rsa_random api mem =
     \<lparr>ed25519_provider = Ed25519ProviderImpl ed ed_key, rsa_provider = RsaProviderImpl rsa rsa_random api mem,
      ecdsa_provider = EcdsaProviderImpl ec ec_key api mem, secp256k1_provider = Secp256k1ProviderImpl secp random api mem\<rparr>"

lemmas provider_defs = make_providers_def Ed25519ProviderImpl_def RsaProviderImpl_def EcdsaProviderImpl_def Secp256k1ProviderImpl_def

lemmas generate_defs = generateKeys_def generateRsa_def generateEd25519_def generateSecp256k1_def generateEcdsa_def
lemmas derive_defs = derivePublicKey_def deriveRsa_def deriveEd25519_def deriveSecp256k1_def deriveEcdsa_def
lemmas sign_defs = sign_def signRsa_def signEd25519_def signSecp256k1_def signEcdsa_def
lemmas verify_defs = verify_def verifyRsa_def verifyEd25519_def verifySecp256k1_def verifyEcdsa_def
lemmas key_sizes = ED25519_PRIVATE_KEY_SIZE_def ED25519_PUBLIC_KEY_SIZE_def SECP256K1_PRIVATE_KEY_SIZE_def SECP256K1_PUBLIC_KEY_SIZE_def
  ED25519_SIGNATURE_SIZE_def

lemma copy_n_exact [simp]: "length data = n \<Longrightarrow> copy_n n data = Returns data"
  by (simp add: copy_n_def)

lemma make_pair_Inr:
  "make_pair t r = Inr keys \<longleftrightarrow> (\<exists>priv pub. r = Inr (priv, pub)
     \<and> keys = \<lparr>publicKey = \<lparr>key_type = t, key_data = pub\<rparr>, privateKey = \<lparr>key_type = t, key_data = priv\<rparr>\<rparr>)"
  by (auto simp: make_pair_def bind_result_eq_Inr)

lemma Ed25519_sign_size: "ed25519_documented ssl \<Longrightarrow> Ed25519_sign ssl a m k = Inr s \<Longrightarrow> length s = 64"
  by (auto simp: ed25519_documented_def Ed25519_sign_def bind_result_eq_Inr Let_def split: if_splits)

text \<open>What the libraries document, and that the random generator fills the arrays it is given.\<close>

definition libraries_documented ::
  "'a ed25519_ssl \<Rightarrow> ('p, 's) secp_lib \<Rightarrow> (nat \<Rightarrow> bytes) \<Rightarrow> ('k, 'q, 't) ec_ssl \<Rightarrow> ('l, 'x, 'e, 'r) rsa_ssl \<Rightarrow> 'c sha_api \<Rightarrow> bool" where
  "libraries_documented ed secp random ec rsa api \<longleftrightarrow>
     ed25519_documented ed \<and> (secp_documented secp \<and> (\<exists>R H. sha_documented api R H \<and> sha_reliable api) \<and> (\<forall>i. length (random i) = 32))
   \<and> ec_documented ec \<and> rsa_documented rsa"

lemma generated_roundtrip:
  assumes doc: "libraries_documented ed secp random ec rsa api"
    and ps: "ps = make_providers ed ed_key secp random ec ec_key rsa rsa_random api mem"
    and keys: "generateKeys ps type bitness = Some (Inr keys)"
  shows "derivePublicKey ps (privateKey keys) = Returns (Inr (publicKey keys))
    \<and> (sign ps m (privateKey keys) = Returns (Inr s) \<longrightarrow> verify ps m s (publicKey keys) = Returns (Inr True))"
proof -
  note D = doc [unfolded libraries_documented_def]
  note facts = generate_defs derive_defs sign_defs verify_defs provider_defs make_pair_Inr as_key_def key_sizes ps
  show ?thesis
  proof (cases type)
    case RSA
    with keys obtain priv pub where g: "\<exists>r b. Rsa_generate rsa r b = Inr (priv, pub)"
      and "keys = \<lparr>publicKey = \<lparr>key_type = RSA, key_data = pub\<rparr>, privateKey = \<lparr>key_type = RSA, key_data = priv\<rparr>\<rparr>"
      by (auto simp: facts)
    with D rsa.generate_derive [of rsa, OF _ g] rsa.generated_signs [of rsa, OF _ g] show ?thesis by (auto simp: facts)
  next
    case Ed25519
    with keys obtain priv pub where "Ed25519_generate ed ed_key = Inr (priv, pub)"
      and k: "keys = \<lparr>publicKey = \<lparr>key_type = Ed25519, key_data = pub\<rparr>, privateKey = \<lparr>key_type = Ed25519, key_data = priv\<rparr>\<rparr>"
      by (auto simp: facts)
    then have g: "\<exists>env. Ed25519_generate ed env = Inr (priv, pub)" by blast
    with k D ed25519.generate_derive [of ed, OF _ g] ed25519.generated_signs [of ed, OF _ g] ed25519.generated_sizes [of ed, OF _ g]
      Ed25519_sign_size [of ed True m priv s]
    show ?thesis by (auto simp: facts)
  next
    case Secp256k1
    with keys obtain priv pub where g: "Secp256k1_generate secp random = Some (Inr (priv, pub))"
      and "keys = \<lparr>publicKey = \<lparr>key_type = Secp256k1, key_data = pub\<rparr>, privateKey = \<lparr>key_type = Secp256k1, key_data = priv\<rparr>\<rparr>"
      by (auto simp: facts)
    with D secp256k1.generate_derive [of secp api random, OF _ g] secp256k1.generated_signs [of secp api random, OF _ g]
      secp256k1.generated_sizes [of secp api random, OF _ g]
    show ?thesis by (auto simp: facts)
  next
    case ECDSA
    with keys obtain priv pub where g: "\<exists>k. Ecdsa_generate ec k = Inr (priv, pub)"
      and "keys = \<lparr>publicKey = \<lparr>key_type = ECDSA, key_data = pub\<rparr>, privateKey = \<lparr>key_type = ECDSA, key_data = priv\<rparr>\<rparr>"
      by (auto simp: facts)
    with D ecdsa.generate_derive [of ec, OF _ g] ecdsa.generated_signs [of ec, OF _ g] ecdsa.generated_sizes [of ec, OF _ g]
    show ?thesis by (auto simp: facts)
  qed (use keys in \<open>simp add: facts\<close>)
qed


text \<open>The number of bits of a generated key, which the validator asks openssl for.\<close>

definition bits_documented :: "('l, 'x, 'e, 'r) rsa_ssl \<Rightarrow> (bytes \<Rightarrow> int option) \<Rightarrow> (bytes \<Rightarrow> int option) \<Rightarrow> bool" where
  "bits_documented rsa bits_private bits_public \<longleftrightarrow>
     (\<forall>r n k priv pub. RSA_generate_key_ex rsa r n = Some k \<longrightarrow> i2d_RSAPrivateKey rsa k = Some priv
        \<longrightarrow> i2d_RSA_PUBKEY rsa k = Some pub \<longrightarrow> bits_private priv = Some (int n) \<and> bits_public pub = Some (int n))"

lemma generated_validates:
  assumes doc: "libraries_documented ed secp random ec rsa api"
    and ps: "ps = make_providers ed ed_key secp random ec ec_key rsa rsa_random api mem"
    and keys: "generateKeys ps type bitness = Some (Inr keys)"
    and bits: "bits_documented rsa bits_private bits_public"
  shows "validate_private bits_private (privateKey keys)
      = (if type = RSA \<and> bitness = RSA1024 then Inl INVALID_PRIVATE_KEY else Inr ())
    \<and> validate_public bits_public (publicKey keys)
      = (if type = RSA \<and> bitness = RSA1024 then Inl INVALID_PUBLIC_KEY else Inr ())"
proof -
  note D = doc [unfolded libraries_documented_def]
  note facts = generate_defs provider_defs make_pair_Inr ps validate_private_def validate_public_def
  show ?thesis
  proof (cases type)
    case RSA
    with keys obtain priv pub where g: "Rsa_generate rsa rsa_random bitness = Inr (priv, pub)"
      and k: "keys = \<lparr>publicKey = \<lparr>key_type = RSA, key_data = pub\<rparr>, privateKey = \<lparr>key_type = RSA, key_data = priv\<rparr>\<rparr>"
      by (auto simp: facts)
    from g have "bits_private priv = Some (int (rsa_bitness bitness)) \<and> bits_public pub = Some (int (rsa_bitness bitness))"
      by (auto simp: Rsa_generate_def encodeKeyDer_def Let_def bind_result_eq_Inr dest: bits [unfolded bits_documented_def, rule_format] split: if_splits)
    with k RSA show ?thesis
      by (cases bitness) (auto simp: facts validateRsa_private_def validateRsa_public_def kMinimumRSABitsCount_def)
  next
    case Ed25519
    with keys obtain priv pub where "Ed25519_generate ed ed_key = Inr (priv, pub)"
      and k: "keys = \<lparr>publicKey = \<lparr>key_type = Ed25519, key_data = pub\<rparr>, privateKey = \<lparr>key_type = Ed25519, key_data = priv\<rparr>\<rparr>"
      by (auto simp: facts)
    then have "\<exists>env. Ed25519_generate ed env = Inr (priv, pub)" by blast
    with D ed25519.generated_sizes [of ed priv pub] k Ed25519 show ?thesis
      by (auto simp: facts validateEd25519_private_def validateEd25519_public_def key_sizes)
  next
    case Secp256k1
    with keys obtain priv pub where g: "Secp256k1_generate secp random = Some (Inr (priv, pub))"
      and k: "keys = \<lparr>publicKey = \<lparr>key_type = Secp256k1, key_data = pub\<rparr>, privateKey = \<lparr>key_type = Secp256k1, key_data = priv\<rparr>\<rparr>"
      by (auto simp: facts)
    from g obtain p where "ec_pubkey_create secp priv = Some p" "ec_pubkey_serialize secp p = Some pub"
      by (auto simp: Secp256k1_generate_def Secp256k1_derive_def bind_result_eq_Inr)
    with D have "pub ! 0 \<in> {2, 3}" unfolding secp_documented_def by fastforce
    with D secp256k1.generated_sizes [of secp api random, OF _ g] k Secp256k1 show ?thesis
      by (auto simp: facts validateSecp256k1_private_def validateSecp256k1_public_def key_sizes
          SECP256K1_PUBLIC_KEY_EVEN_PREFIX_def SECP256K1_PUBLIC_KEY_ODD_PREFIX_def Let_def)
  qed (use keys in \<open>auto simp: facts\<close>)
qed

text \<open>
  \<^bold>\<open>C20\<close> (round trip). On libraries that behave as documented, keys of any type that the provider
  generates belong together: the public key is the one derived from the private key, a
  signature made with the private key is accepted with the public key, and the key validator
  accepts the pair, unless it is an RSA pair of 1024 bits, which it refuses.
\<close>

theorem generated_keys_work:
  assumes "libraries_documented ed secp random ec rsa api"
    and "ps = make_providers ed ed_key secp random ec ec_key rsa rsa_random api mem"
    and "generateKeys ps type bitness = Some (Inr keys)"
    and "bits_documented rsa bits_private bits_public"
  shows "derivePublicKey ps (privateKey keys) = Returns (Inr (publicKey keys))
    \<and> (sign ps m (privateKey keys) = Returns (Inr s) \<longrightarrow> verify ps m s (publicKey keys) = Returns (Inr True))
    \<and> validate_pair bits_private bits_public (\<lambda>k. case derivePublicKey ps k of Returns r \<Rightarrow> r | Throws \<Rightarrow> Inl (Impl UNKNOWN_HASH_TYPE)) keys
      = (if type = RSA \<and> bitness = RSA1024 then Inl (Validator INVALID_PRIVATE_KEY) else Inr ())"
proof -
  have "key_type (privateKey keys) = type" "key_type (publicKey keys) = type" "type \<noteq> UNSPECIFIED"
    using assms(3) by (cases type; auto simp: generate_defs make_pair_Inr)+
  with generated_roundtrip [OF assms(1-3), of m s] generated_validates [OF assms(1-4)]
  show ?thesis by (simp add: validate_pair_def)
qed

text \<open>
  Libraries for an example: Ed25519 keys of 32 bytes that are their own public keys, with the key and the
  length of the message as signature; the others make no keys.
\<close>

definition toy_ed_sign :: "bytes \<Rightarrow> bytes \<Rightarrow> bytes" where
  "toy_ed_sign k m = take 64 (k @ of_nat (length m) # replicate 64 0)"

definition toy_ed :: "bytes ed25519_ssl" where
  "toy_ed = (let raw = (\<lambda>k. if length k = 32 then Some k else None)
     in \<lparr>EVP_PKEY_new_raw_private_key = raw, EVP_PKEY_new_raw_public_key = raw, EVP_PKEY_get_raw_private_key = raw,
         EVP_PKEY_get_raw_public_key = raw, EVP_DigestSignInit = (\<lambda>_. True), EVP_DigestSign = (\<lambda>k m. Some (toy_ed_sign k m)),
         EVP_DigestVerifyInit = (\<lambda>_. True), EVP_DigestVerify = (\<lambda>k s m. if s = toy_ed_sign k m then 1 else 0)\<rparr>)"

definition toy_secp :: "(unit, bytes) secp_lib" where
  "toy_secp = \<lparr>ec_seckey_verify = (\<lambda>_. False), ec_pubkey_create = Map.empty, ec_pubkey_serialize = (\<lambda>_. None),
     ec_pubkey_parse = Map.empty, ecdsa_sign = (\<lambda>_ _. None), ecdsa_verify = (\<lambda>_ _ _. 0),
     signature_serialize_der = (\<lambda>s n. (length s \<le> n, length s, if length s \<le> n then s else [])),
     signature_parse_der = Some, signature_serialize_compact = id, signature_parse_compact = Some\<rparr>"

definition toy_ec :: "(unit, unit, unit) ec_ssl" where
  "toy_ec = \<lparr>i2d_ECPrivateKey = (\<lambda>_. None), i2d_EC_PUBKEY = (\<lambda>_. None), d2i_ECPrivateKey = Map.empty, d2i_EC_PUBKEY = Map.empty,
     EC_KEY_check_key = (\<lambda>_. False), EC_POINT_mul = (\<lambda>_. None), EC_KEY_set_public_key = (\<lambda>_ _. None),
     ECDSA_do_sign = (\<lambda>_ _. None), i2d_ECDSA_SIG = (\<lambda>_. None), ECDSA_verify = (\<lambda>_ _ _. 0)\<rparr>"

definition toy_rsa :: "(unit, unit, unit, unit) rsa_ssl" where
  "toy_rsa = \<lparr>BN_set_word = True, RSA_generate_key_ex = (\<lambda>_ _. None), i2d_RSAPrivateKey = (\<lambda>_. None), i2d_RSA_PUBKEY = (\<lambda>_. None),
     d2i_RSAPrivateKey = Map.empty, RSA_size = (\<lambda>_. 0), RSA_sign = (\<lambda>_ _. None), d2i_X509_PUBKEY = Map.empty,
     X509_PUBKEY_get = (\<lambda>_. None), EVP_PKEY_get1_RSA = (\<lambda>_. None), RSA_verify = (\<lambda>_ _ _. 0)\<rparr>"

definition toy_sha :: "bytes sha_api" where
  "toy_sha = \<lparr>SHA_Init = (\<lambda>_. (True, [])), SHA_Update = (\<lambda>c d. (True, c @ d)), SHA_Final = (\<lambda>c. (True, replicate 32 (of_nat (length c)), c))\<rparr>"

lemma toy_sha_documented: "sha_documented toy_sha (=) (\<lambda>m. replicate 32 (of_nat (length m)))" "sha_reliable toy_sha"
  by (auto simp: sha_documented_def sha_reliable_def toy_sha_def)

lemma toy_libraries: "libraries_documented toy_ed toy_secp (\<lambda>_. replicate 32 0) toy_ec toy_rsa toy_sha"
proof -
  have "ed25519_documented toy_ed" by (auto simp: ed25519_documented_def toy_ed_def toy_ed_sign_def Let_def split: if_splits)
  moreover have "secp_documented toy_secp" by (auto simp: secp_documented_def toy_secp_def)
  moreover have "ec_documented toy_ec" "rsa_documented toy_rsa"
    by (simp_all add: ec_documented_def toy_ec_def rsa_documented_def toy_rsa_def)
  ultimately show ?thesis using toy_sha_documented by (auto simp: libraries_documented_def)
qed

definition toy_providers :: providers where
  "toy_providers = make_providers toy_ed (True, True, Some (replicate 32 7)) toy_secp (\<lambda>_. replicate 32 0) toy_ec None
     toy_rsa () toy_sha []"

definition toy_pair :: KeyPair where
  "toy_pair = (let k = \<lparr>key_type = Ed25519, key_data = replicate 32 7\<rparr> in \<lparr>publicKey = k, privateKey = k\<rparr>)"

theorem generated_keys_work_witness:
  "generateKeys toy_providers Ed25519 RSA2048 = Some (Inr toy_pair)
   \<and> sign toy_providers [1, 2, 3] (privateKey toy_pair) = Returns (Inr (replicate 32 7 @ 3 # replicate 31 0))
   \<and> verify toy_providers [1, 2, 3] (replicate 32 7 @ 3 # replicate 31 0) (publicKey toy_pair) = Returns (Inr True)"
proof -
  have g: "generateKeys toy_providers Ed25519 RSA2048 = Some (Inr toy_pair)"
    by (simp add: generate_defs toy_providers_def provider_defs Ed25519_generate_def toy_ed_def toy_pair_def make_pair_def Let_def)
  have s: "sign toy_providers [1, 2, 3] (privateKey toy_pair) = Returns (Inr (replicate 32 7 @ 3 # replicate 31 0))"
    by (simp add: sign_defs toy_providers_def provider_defs toy_pair_def key_sizes Ed25519_sign_def NewEvpPkeyFromBytes_def
        toy_ed_def toy_ed_sign_def Let_def)
  have "bits_documented toy_rsa (\<lambda>_. None) (\<lambda>_. None)" by (simp add: bits_documented_def toy_rsa_def)
  with g s generated_keys_work [OF toy_libraries toy_providers_def g]
  show ?thesis by blast
qed

text \<open>
  \<^bold>\<open>C21\<close> (error). For a key the validator accepts, checking a signature reads past the end of a
  vector exactly if the key is an Ed25519 key and the signature has less than 64 bytes, or
  the key is an ECDSA key of less than 91 bytes; what follows the first 64 bytes of an Ed25519
  signature is ignored.
\<close>

theorem verify_out_of_bounds:
  assumes "sha_documented api R H" and "sha_reliable api"
    and ps: "ps = make_providers ed ed_key secp random ec ec_key rsa rsa_random api mem"
    and valid: "validate_public bits pk = Inr ()"
  shows "(verify ps m s pk = Throws \<longleftrightarrow>
            key_type pk = Ed25519 \<and> length s < 64 \<or> key_type pk = ECDSA \<and> length (key_data pk) < 91)
     \<and> (key_type pk = Ed25519 \<longrightarrow> 64 \<le> length s \<longrightarrow> verify ps m (s @ t) pk = verify ps m s pk)"
proof -
  have sha: "sha256_value api mem m = Returns (H m)" for m
    using sha_refines [OF assms(1,2), of _ mem m] by (simp add: sha256_value_def)
  have secp: "Secp256k1_verify secp api mem m s k \<noteq> Throws" for k
    by (auto simp: Secp256k1_verify_def sha split: option.splits)
  show ?thesis
    using valid by (cases "key_type pk")
      (auto simp: verify_defs provider_defs ps copy_n_def key_sizes ECDSA_PUBLIC_KEY_SIZE_def secp validate_public_def
         validateEd25519_public_def validateSecp256k1_public_def split: if_splits)
qed

theorem verify_out_of_bounds_witness:
  "verify toy_providers [] [1, 2] (publicKey toy_pair) = Throws
   \<and> verify toy_providers [] [] \<lparr>key_type = ECDSA, key_data = [4]\<rparr> = Throws
   \<and> verify toy_providers [1] (replicate 64 0 @ [9]) (publicKey toy_pair) = verify toy_providers [1] (replicate 64 0) (publicKey toy_pair)"
proof -
  note oob = verify_out_of_bounds [OF toy_sha_documented toy_providers_def, of "\<lambda>_. None"]
  show ?thesis
    using oob [of "publicKey toy_pair" "[]" "[1, 2]"] oob [of "\<lparr>key_type = ECDSA, key_data = [4]\<rparr>" "[]" "[]"]
      oob [of "publicKey toy_pair" "[1]" "replicate 64 0" "[9]"]
    by (simp add: toy_pair_def validate_public_def validateEd25519_public_def key_sizes Let_def)
qed

end
