(* ===== verification/Ecdh.thy ===== *)
theory Ecdh
  imports Signatures
begin

text \<open>
  The exchange of ephemeral keys of \<open>src/crypto/crypto_provider/crypto_provider_impl.cpp\<close>:
  \<open>generateEphemeralKeyPair\<close> and the function that \<open>prepareSharedSecretGenerator\<close> makes. The calls
  of openssl are arguments; big numbers are natural numbers.
\<close>

section \<open>The calls of openssl\<close>




section \<open>The code\<close>





section \<open>Agreement\<close>









end
