(* ===== verification/C_Api.thy ===== *)
theory C_Api
  imports Multiaddress Peer_Id "HOL-Library.Multiset"
begin

text \<open>
  The C interface \<open>src/c/libp2p_c.cpp\<close>. The objects behind its pointers are kept in an
  explicit store, so that the use of an object after it was destroyed shows: it is \<open>Throws\<close>.
  A null pointer is \<open>None\<close>. What a request starts on the event loop is a task, and the loop
  runs the tasks in some order; what the host, a stream or the loop answer is given from
  outside. The callbacks that are called are recorded.

  The lemmas show that a program that keeps objects as long as they are in use is safe,
  that every accepted request is answered by exactly one callback, and what the interface
  does not tell its users about both.
\<close>

section \<open>Objects\<close>

datatype libp2p_error =
  LIBP2P_SUCCESS | LIBP2P_ERROR_INVALID_ARGUMENT | LIBP2P_ERROR_OUT_OF_MEMORY | LIBP2P_ERROR_CONNECTION_FAILED
| LIBP2P_ERROR_PROTOCOL_ERROR | LIBP2P_ERROR_IO_ERROR | LIBP2P_ERROR_TIMEOUT | LIBP2P_ERROR_NOT_FOUND
| LIBP2P_ERROR_ALREADY_EXISTS | LIBP2P_ERROR_UNKNOWN

type_synonym ptr = "nat option"
type_synonym callback = nat
type_synonym user_data = nat

text \<open>\<open>io_stopped\<close> says that \<open>stop\<close> was called on the loop.\<close>

record libp2p_context =
  work_guard :: bool
  running :: bool
  io_stopped :: bool

text \<open>The host object itself is not in the store: it is kept by a shared pointer, which is never null.\<close>

record libp2p_host =
  h_context :: nat
  protocol_handlers :: "(string, callback \<times> user_data) alist"
  h_peer_id :: "Multihash option"

record libp2p_stream =
  s_stream :: nat
  s_host :: nat

record libp2p_multiaddr =
  a_addr :: Multiaddress
  a_str :: string

record libp2p_peer_id =
  p_id :: Multihash
  p_str :: string

text \<open>
  The coroutines that were started: the capture of the lambda. \<open>T_new_stream\<close> keeps the
  pointer to the name of the protocol, not the name.
\<close>

datatype Task =
  T_read nat nat callback user_data
| T_write nat nat callback user_data
| T_dial nat Multihash Multiaddress callback user_data
| T_new_stream nat Multihash nat callback user_data

datatype Called =
  Called_stream callback ptr user_data
| Called_connection callback nat string user_data
| Called_read callback nat nat libp2p_error user_data
| Called_write callback nat nat libp2p_error user_data

text \<open>The store; \<open>strings\<close> are those of the program that uses the interface.\<close>

record CApi =
  contexts :: "nat \<rightharpoonup> libp2p_context"
  hosts :: "nat \<rightharpoonup> libp2p_host"
  streams :: "nat \<rightharpoonup> libp2p_stream"
  addrs :: "nat \<rightharpoonup> libp2p_multiaddr"
  peer_ids :: "nat \<rightharpoonup> libp2p_peer_id"
  strings :: "nat \<rightharpoonup> string"
  next_ptr :: nat
  tasks :: "Task list"
  called :: "Called list"

definition CApi_new :: CApi where
  "CApi_new = \<lparr>contexts = Map.empty, hosts = Map.empty, streams = Map.empty, addrs = Map.empty, peer_ids = Map.empty,
     strings = Map.empty, next_ptr = 0, tasks = [], called = []\<rparr>"

definition deref :: "(nat \<rightharpoonup> 'a) \<Rightarrow> nat \<Rightarrow> 'a cxx" where
  "deref m p = (case m p of None \<Rightarrow> Throws | Some x \<Rightarrow> Returns x)"

lemma deref_Some [simp]: "m p = Some x \<Longrightarrow> deref m p = Returns x"
  by (simp add: deref_def)

lemma deref_None [simp]: "m p = None \<Longrightarrow> deref m p = Throws"
  by (simp add: deref_def)

lemma deref_Returns: "deref m p = Returns x \<longleftrightarrow> m p = Some x"
  by (simp add: deref_def split: option.splits)

section \<open>Contexts\<close>

text \<open>\<open>ok\<close> says that nothing throws in the constructors.\<close>

definition libp2p_context_create :: "bool \<Rightarrow> CApi \<Rightarrow> CApi \<times> ptr" where
  "libp2p_context_create ok s =
     (if ok then
        (s\<lparr>contexts := (contexts s)(next_ptr s \<mapsto> \<lparr>work_guard = True, running = False, io_stopped = False\<rparr>),
           next_ptr := Suc (next_ptr s)\<rparr>, Some (next_ptr s))
      else (s, None))"

definition libp2p_context_destroy :: "ptr \<Rightarrow> CApi \<Rightarrow> CApi cxx" where
  "libp2p_context_destroy ctx s =
     (case ctx of
        None \<Rightarrow> Returns s
      | Some p \<Rightarrow> bind_cxx (deref (contexts s) p) (\<lambda>_. Returns (s\<lparr>contexts := (contexts s)(p := None)\<rparr>)))"

text \<open>\<open>libp2p_context_run\<close> blocks: what it does before and after \<open>run\<close>, which may throw.\<close>

definition libp2p_context_run_begin :: "ptr \<Rightarrow> CApi \<Rightarrow> (CApi \<times> libp2p_error option) cxx" where
  "libp2p_context_run_begin ctx s =
     (case ctx of
        None \<Rightarrow> Returns (s, Some LIBP2P_ERROR_INVALID_ARGUMENT)
      | Some p \<Rightarrow>
          bind_cxx (deref (contexts s) p) (\<lambda>c. Returns (s\<lparr>contexts := (contexts s)(p \<mapsto> c\<lparr>running := True\<rparr>)\<rparr>, None)))"

definition libp2p_context_run_end :: "bool \<Rightarrow> nat \<Rightarrow> CApi \<Rightarrow> (CApi \<times> libp2p_error) cxx" where
  "libp2p_context_run_end threw p s =
     bind_cxx (deref (contexts s) p) (\<lambda>c.
       Returns (s\<lparr>contexts := (contexts s)(p \<mapsto> c\<lparr>running := False\<rparr>)\<rparr>,
         if threw then LIBP2P_ERROR_UNKNOWN else LIBP2P_SUCCESS))"

definition libp2p_context_stop :: "ptr \<Rightarrow> CApi \<Rightarrow> CApi cxx" where
  "libp2p_context_stop ctx s =
     (case ctx of
        None \<Rightarrow> Returns s
      | Some p \<Rightarrow>
          bind_cxx (deref (contexts s) p) (\<lambda>c.
            Returns (s\<lparr>contexts := (contexts s)(p \<mapsto>
              (if running c then c\<lparr>work_guard := False, io_stopped := True\<rparr> else c\<lparr>work_guard := False\<rparr>))\<rparr>)))"

section \<open>Hosts\<close>

text \<open>
  The identity is that of the sample peer with a number made from the seed. \<open>hash\<close> is
  \<open>std::hash\<close> of strings and \<open>sample_peer\<close> the peer ident of \<open>SamplePeer::makeEd25519\<close>.
\<close>

definition sample_index :: "(string \<Rightarrow> u64) \<Rightarrow> string option \<Rightarrow> nat" where
  "sample_index hash keypair_seed =
     (let index = (case keypair_seed of None \<Rightarrow> 0 | Some seed \<Rightarrow> (ucast (hash seed) :: u32)) in unat (index mod 1000))"

definition libp2p_host_create ::
  "(string \<Rightarrow> u64) \<Rightarrow> (nat \<Rightarrow> Multihash) \<Rightarrow> ptr \<Rightarrow> string option \<Rightarrow> CApi \<Rightarrow> (CApi \<times> ptr) cxx" where
  "libp2p_host_create hash sample_peer ctx keypair_seed s =
     (case ctx of
        None \<Rightarrow> Returns (s, None)
      | Some c \<Rightarrow>
          bind_cxx (deref (contexts s) c) (\<lambda>_.
            Returns (s\<lparr>hosts := (hosts s)(next_ptr s \<mapsto>
                \<lparr>h_context = c, protocol_handlers = [], h_peer_id = Some (sample_peer (sample_index hash keypair_seed))\<rparr>),
              next_ptr := Suc (next_ptr s)\<rparr>, Some (next_ptr s))))"

definition libp2p_host_destroy :: "ptr \<Rightarrow> CApi \<Rightarrow> CApi cxx" where
  "libp2p_host_destroy host s =
     (case host of
        None \<Rightarrow> Returns s
      | Some h \<Rightarrow> bind_cxx (deref (hosts s) h) (\<lambda>_. Returns (s\<lparr>hosts := (hosts s)(h := None)\<rparr>)))"

definition libp2p_host_start :: "bool \<Rightarrow> ptr \<Rightarrow> CApi \<Rightarrow> libp2p_error cxx" where
  "libp2p_host_start threw host s =
     (case host of
        None \<Rightarrow> Returns LIBP2P_ERROR_INVALID_ARGUMENT
      | Some h \<Rightarrow> bind_cxx (deref (hosts s) h) (\<lambda>_. Returns (if threw then LIBP2P_ERROR_UNKNOWN else LIBP2P_SUCCESS)))"

text \<open>\<open>listen\<close> is what \<open>BasicHost::listen\<close> does: it throws, or says whether it succeeds.\<close>

definition libp2p_host_listen ::
  "address_lib \<Rightarrow> (Multiaddress \<Rightarrow> bool cxx) \<Rightarrow> ptr \<Rightarrow> string option \<Rightarrow> CApi \<Rightarrow> libp2p_error cxx" where
  "libp2p_host_listen lib listen host multiaddr_str s =
     (case host of
        None \<Rightarrow> Returns LIBP2P_ERROR_INVALID_ARGUMENT
      | Some h \<Rightarrow>
          bind_cxx (deref (hosts s) h) (\<lambda>_.
            Returns (case multiaddr_str of
                None \<Rightarrow> LIBP2P_ERROR_INVALID_ARGUMENT
              | Some str \<Rightarrow>
                  (case create_from_string lib str of
                     Throws \<Rightarrow> LIBP2P_ERROR_UNKNOWN
                   | Returns (Inl _) \<Rightarrow> LIBP2P_ERROR_INVALID_ARGUMENT
                   | Returns (Inr addr) \<Rightarrow>
                       (case listen addr of
                          Throws \<Rightarrow> LIBP2P_ERROR_UNKNOWN
                        | Returns ok \<Rightarrow> if \<not> ok then LIBP2P_ERROR_CONNECTION_FAILED else LIBP2P_SUCCESS)))))"

text \<open>A null pointer to a function is \<open>None\<close>. The handler is also given to the host.\<close>

definition libp2p_host_register_protocol ::
  "ptr \<Rightarrow> string option \<Rightarrow> callback option \<Rightarrow> user_data \<Rightarrow> CApi \<Rightarrow> (CApi \<times> libp2p_error) cxx" where
  "libp2p_host_register_protocol host protocol_id handler data s =
     (case host of
        None \<Rightarrow> Returns (s, LIBP2P_ERROR_INVALID_ARGUMENT)
      | Some h \<Rightarrow>
          bind_cxx (deref (hosts s) h) (\<lambda>w.
            Returns (case (protocol_id, handler) of
                (Some name, Some cb) \<Rightarrow>
                  (s\<lparr>hosts := (hosts s)(h \<mapsto>
                     w\<lparr>protocol_handlers := AList.update name (cb, data) (protocol_handlers w)\<rparr>)\<rparr>, LIBP2P_SUCCESS)
              | _ \<Rightarrow> (s, LIBP2P_ERROR_INVALID_ARGUMENT))))"

text \<open>\<open>GenericProtocolHandler::handle\<close>, which the host calls with an inbound stream.\<close>

definition GenericProtocolHandler_handle :: "nat \<Rightarrow> callback \<Rightarrow> user_data \<Rightarrow> nat \<Rightarrow> CApi \<Rightarrow> CApi" where
  "GenericProtocolHandler_handle host_wrapper handler data stream s =
     s\<lparr>streams := (streams s)(next_ptr s \<mapsto> \<lparr>s_stream = stream, s_host = host_wrapper\<rparr>),
       next_ptr := Suc (next_ptr s), called := called s @ [Called_stream handler (Some (next_ptr s)) data]\<rparr>"

definition libp2p_host_peer_id :: "ptr \<Rightarrow> CApi \<Rightarrow> (CApi \<times> ptr) cxx" where
  "libp2p_host_peer_id host s =
     (case host of
        None \<Rightarrow> Returns (s, None)
      | Some h \<Rightarrow>
          bind_cxx (deref (hosts s) h) (\<lambda>w.
            Returns (case h_peer_id w of
                       None \<Rightarrow> (s, None)
                     | Some ident \<Rightarrow>
                         (s\<lparr>peer_ids := (peer_ids s)(next_ptr s \<mapsto> \<lparr>p_id = ident, p_str = toBase58 ident\<rparr>),
                            next_ptr := Suc (next_ptr s)\<rparr>, Some (next_ptr s)))))"

text \<open>What the host answers: its addresses on the interfaces, and those it listens on.\<close>

definition libp2p_host_default_listen ::
  "Multiaddress list \<Rightarrow> Multiaddress list \<Rightarrow> ptr \<Rightarrow> CApi \<Rightarrow> string option cxx" where
  "libp2p_host_default_listen interfaces addresses host s =
     (case host of
        None \<Rightarrow> Returns None
      | Some h \<Rightarrow>
          bind_cxx (deref (hosts s) h) (\<lambda>_.
            (let as = (if interfaces = [] then addresses else interfaces)
             in Returns (if as = [] then None else Some (stringified_address (hd as))))))"

section \<open>Requests\<close>

definition spawn :: "Task \<Rightarrow> CApi \<Rightarrow> CApi" where
  "spawn t s = s\<lparr>tasks := tasks s @ [t]\<rparr>"

text \<open>The executor of a request on a stream: \<open>stream->host->context->io_context\<close>.\<close>

definition stream_executor :: "nat \<Rightarrow> CApi \<Rightarrow> libp2p_context cxx" where
  "stream_executor p s =
     bind_cxx (deref (streams s) p) (\<lambda>w. bind_cxx (deref (hosts s) (s_host w)) (\<lambda>h. deref (contexts s) (h_context h)))"

definition host_executor :: "nat \<Rightarrow> CApi \<Rightarrow> libp2p_context cxx" where
  "host_executor p s = bind_cxx (deref (hosts s) p) (\<lambda>h. deref (contexts s) (h_context h))"

text \<open>\<open>buffer\<close> says whether the pointer to the buffer or to the data is given.\<close>

definition libp2p_stream_read ::
  "ptr \<Rightarrow> bool \<Rightarrow> nat \<Rightarrow> callback option \<Rightarrow> user_data \<Rightarrow> CApi \<Rightarrow> (CApi \<times> libp2p_error) cxx" where
  "libp2p_stream_read stream buffer buffer_size cb data s =
     (case stream of
        None \<Rightarrow> Returns (s, LIBP2P_ERROR_INVALID_ARGUMENT)
      | Some p \<Rightarrow>
          bind_cxx (deref (streams s) p) (\<lambda>_.
            (case (buffer, cb) of
               (True, Some f) \<Rightarrow>
                 bind_cxx (stream_executor p s) (\<lambda>_. Returns (spawn (T_read p buffer_size f data) s, LIBP2P_SUCCESS))
             | _ \<Rightarrow> Returns (s, LIBP2P_ERROR_INVALID_ARGUMENT))))"

definition libp2p_stream_write ::
  "ptr \<Rightarrow> bool \<Rightarrow> nat \<Rightarrow> callback option \<Rightarrow> user_data \<Rightarrow> CApi \<Rightarrow> (CApi \<times> libp2p_error) cxx" where
  "libp2p_stream_write stream buffer n cb data s =
     (case stream of
        None \<Rightarrow> Returns (s, LIBP2P_ERROR_INVALID_ARGUMENT)
      | Some p \<Rightarrow>
          bind_cxx (deref (streams s) p) (\<lambda>_.
            (case (buffer, cb) of
               (True, Some f) \<Rightarrow>
                 bind_cxx (stream_executor p s) (\<lambda>_. Returns (spawn (T_write p n f data) s, LIBP2P_SUCCESS))
             | _ \<Rightarrow> Returns (s, LIBP2P_ERROR_INVALID_ARGUMENT))))"

text \<open>Every error becomes the same code. \<open>closed\<close> is what closing the stream gives.\<close>

definition convert_error :: "'e option \<Rightarrow> libp2p_error" where
  "convert_error ec = (case ec of None \<Rightarrow> LIBP2P_SUCCESS | Some _ \<Rightarrow> LIBP2P_ERROR_UNKNOWN)"

definition libp2p_stream_close :: "('e, unit) result cxx \<Rightarrow> ptr \<Rightarrow> CApi \<Rightarrow> libp2p_error cxx" where
  "libp2p_stream_close closed stream s =
     (case stream of
        None \<Rightarrow> Returns LIBP2P_ERROR_INVALID_ARGUMENT
      | Some p \<Rightarrow>
          bind_cxx (deref (streams s) p) (\<lambda>_.
            Returns (case closed of
                       Throws \<Rightarrow> LIBP2P_ERROR_UNKNOWN
                     | Returns (Inl e) \<Rightarrow> convert_error (Some e)
                     | Returns (Inr _) \<Rightarrow> LIBP2P_SUCCESS)))"

definition libp2p_stream_is_closed :: "ptr \<Rightarrow> CApi \<Rightarrow> bool cxx" where
  "libp2p_stream_is_closed stream s =
     (case stream of None \<Rightarrow> Returns True | Some p \<Rightarrow> bind_cxx (deref (streams s) p) (\<lambda>_. Returns False))"

definition libp2p_host_dial ::
  "address_lib \<Rightarrow> ptr \<Rightarrow> string option \<Rightarrow> string option \<Rightarrow> callback option \<Rightarrow> user_data \<Rightarrow> CApi
    \<Rightarrow> (CApi \<times> libp2p_error) cxx" where
  "libp2p_host_dial lib host multiaddr_str peer_id_str cb data s =
     (case host of
        None \<Rightarrow> Returns (s, LIBP2P_ERROR_INVALID_ARGUMENT)
      | Some h \<Rightarrow>
          bind_cxx (deref (hosts s) h) (\<lambda>_.
            (case (multiaddr_str, cb, peer_id_str) of
               (Some addr, Some f, Some ident) \<Rightarrow>
                 if ident = [] then Returns (s, LIBP2P_ERROR_INVALID_ARGUMENT)
                 else
                   (case create_from_string lib addr of
                      Throws \<Rightarrow> Returns (s, LIBP2P_ERROR_UNKNOWN)
                    | Returns (Inl _) \<Rightarrow> Returns (s, LIBP2P_ERROR_INVALID_ARGUMENT)
                    | Returns (Inr a) \<Rightarrow>
                        (case PeerId_fromBase58 ident of
                           Inl _ \<Rightarrow> Returns (s, LIBP2P_ERROR_INVALID_ARGUMENT)
                         | Inr pid \<Rightarrow>
                             bind_cxx (host_executor h s) (\<lambda>_. Returns (spawn (T_dial h pid a f data) s, LIBP2P_SUCCESS))))
             | _ \<Rightarrow> Returns (s, LIBP2P_ERROR_INVALID_ARGUMENT))))"

text \<open>\<open>protocol_id\<close> is a pointer into the strings of the program.\<close>

definition libp2p_host_new_stream ::
  "ptr \<Rightarrow> string option \<Rightarrow> ptr \<Rightarrow> callback option \<Rightarrow> user_data \<Rightarrow> CApi \<Rightarrow> (CApi \<times> libp2p_error) cxx" where
  "libp2p_host_new_stream host peer_id_str protocol_id cb data s =
     (case host of
        None \<Rightarrow> Returns (s, LIBP2P_ERROR_INVALID_ARGUMENT)
      | Some h \<Rightarrow>
          bind_cxx (deref (hosts s) h) (\<lambda>_.
            (case (peer_id_str, protocol_id, cb) of
               (Some ident, Some name, Some f) \<Rightarrow>
                 (case PeerId_fromBase58 ident of
                    Inl _ \<Rightarrow> Returns (s, LIBP2P_ERROR_INVALID_ARGUMENT)
                  | Inr pid \<Rightarrow>
                      bind_cxx (host_executor h s) (\<lambda>_. Returns (spawn (T_new_stream h pid name f data) s, LIBP2P_SUCCESS)))
             | _ \<Rightarrow> Returns (s, LIBP2P_ERROR_INVALID_ARGUMENT))))"

section \<open>The event loop\<close>

text \<open>
  Running a task, with what the host or the stream answers: the number of bytes read or
  an error, whether the write succeeded, what connecting gave, and the new stream.
\<close>

datatype Answer = A_read "nat option" | A_write bool | A_dial bool | A_stream "nat option"

fun run_task :: "Task \<Rightarrow> Answer \<Rightarrow> CApi \<Rightarrow> CApi cxx" where
  "run_task (T_read p n f data) (A_read r) s =
     bind_cxx (deref (streams s) p) (\<lambda>_.
       Returns (s\<lparr>called := called s @ [case r of
           Some k \<Rightarrow> Called_read f p k LIBP2P_SUCCESS data
         | None \<Rightarrow> Called_read f p 0 (convert_error (Some ())) data]\<rparr>))"
| "run_task (T_write p n f data) (A_write ok) s =
     bind_cxx (deref (streams s) p) (\<lambda>_.
       Returns (s\<lparr>called := called s @ [if ok then Called_write f p n LIBP2P_SUCCESS data
                                        else Called_write f p 0 (convert_error (Some ())) data]\<rparr>))"
| "run_task (T_dial h pid a f data) (A_dial ok) s =
     bind_cxx (deref (hosts s) h) (\<lambda>_.
       Returns (s\<lparr>called := called s @ [Called_connection f h (toBase58 pid) data]\<rparr>))"
| "run_task (T_new_stream h pid name f data) (A_stream r) s =
     bind_cxx (deref (strings s) name) (\<lambda>_.
     bind_cxx (deref (hosts s) h) (\<lambda>_.
       Returns (case r of
           None \<Rightarrow> s\<lparr>called := called s @ [Called_stream f None data]\<rparr>
         | Some stream \<Rightarrow>
             s\<lparr>streams := (streams s)(next_ptr s \<mapsto> \<lparr>s_stream = stream, s_host = h\<rparr>), next_ptr := Suc (next_ptr s),
               called := called s @ [Called_stream f (Some (next_ptr s)) data]\<rparr>)))"
| "run_task _ _ s = Returns s"


section \<open>Addresses, peer ids and texts\<close>

definition libp2p_multiaddr_create :: "address_lib \<Rightarrow> string option \<Rightarrow> CApi \<Rightarrow> CApi \<times> ptr" where
  "libp2p_multiaddr_create lib addr_str s =
     (case addr_str of
        None \<Rightarrow> (s, None)
      | Some str \<Rightarrow>
          (case create_from_string lib str of
             Returns (Inr a) \<Rightarrow>
               (s\<lparr>addrs := (addrs s)(next_ptr s \<mapsto> \<lparr>a_addr = a, a_str = str\<rparr>), next_ptr := Suc (next_ptr s)\<rparr>, Some (next_ptr s))
           | _ \<Rightarrow> (s, None)))"

definition libp2p_multiaddr_destroy :: "ptr \<Rightarrow> CApi \<Rightarrow> CApi cxx" where
  "libp2p_multiaddr_destroy addr s =
     (case addr of
        None \<Rightarrow> Returns s
      | Some p \<Rightarrow> bind_cxx (deref (addrs s) p) (\<lambda>_. Returns (s\<lparr>addrs := (addrs s)(p := None)\<rparr>)))"

definition libp2p_multiaddr_to_string :: "ptr \<Rightarrow> CApi \<Rightarrow> string option cxx" where
  "libp2p_multiaddr_to_string addr s =
     (case addr of None \<Rightarrow> Returns None | Some p \<Rightarrow> bind_cxx (deref (addrs s) p) (\<lambda>w. Returns (Some (a_str w))))"

definition libp2p_peer_id_create :: "string option \<Rightarrow> CApi \<Rightarrow> CApi \<times> ptr" where
  "libp2p_peer_id_create base58_str s =
     (case base58_str of
        None \<Rightarrow> (s, None)
      | Some str \<Rightarrow>
          (case PeerId_fromBase58 str of
             Inl _ \<Rightarrow> (s, None)
           | Inr ident \<Rightarrow>
               (s\<lparr>peer_ids := (peer_ids s)(next_ptr s \<mapsto> \<lparr>p_id = ident, p_str = str\<rparr>), next_ptr := Suc (next_ptr s)\<rparr>,
                Some (next_ptr s))))"

definition libp2p_peer_id_destroy :: "ptr \<Rightarrow> CApi \<Rightarrow> CApi cxx" where
  "libp2p_peer_id_destroy peer_id s =
     (case peer_id of
        None \<Rightarrow> Returns s
      | Some p \<Rightarrow> bind_cxx (deref (peer_ids s) p) (\<lambda>_. Returns (s\<lparr>peer_ids := (peer_ids s)(p := None)\<rparr>)))"

definition libp2p_peer_id_to_string :: "ptr \<Rightarrow> CApi \<Rightarrow> string option cxx" where
  "libp2p_peer_id_to_string peer_id s =
     (case peer_id of None \<Rightarrow> Returns None | Some p \<Rightarrow> bind_cxx (deref (peer_ids s) p) (\<lambda>w. Returns (Some (p_str w))))"

fun libp2p_error_string :: "libp2p_error \<Rightarrow> string" where
  "libp2p_error_string LIBP2P_SUCCESS = ''Success''"
| "libp2p_error_string LIBP2P_ERROR_INVALID_ARGUMENT = ''Invalid argument''"
| "libp2p_error_string LIBP2P_ERROR_OUT_OF_MEMORY = ''Out of memory''"
| "libp2p_error_string LIBP2P_ERROR_CONNECTION_FAILED = ''Connection failed''"
| "libp2p_error_string LIBP2P_ERROR_PROTOCOL_ERROR = ''Protocol error''"
| "libp2p_error_string LIBP2P_ERROR_IO_ERROR = ''I/O error''"
| "libp2p_error_string LIBP2P_ERROR_TIMEOUT = ''Timeout''"
| "libp2p_error_string LIBP2P_ERROR_NOT_FOUND = ''Not found''"
| "libp2p_error_string LIBP2P_ERROR_ALREADY_EXISTS = ''Already exists''"
| "libp2p_error_string LIBP2P_ERROR_UNKNOWN = ''Unknown error''"

section \<open>A program that uses the interface\<close>

text \<open>
  The calls and events that change the store: those above, the allocation and release of
  a string by the program, an inbound stream, and the event loop running its \<open>i\<close>-th task.
\<close>

datatype COp =
  Context_create bool
| Context_destroy ptr
| Context_run ptr
| Context_run_end bool nat
| Context_stop ptr
| Host_create ptr "string option"
| Host_destroy ptr
| Register_protocol ptr "string option" "callback option" user_data
| Stream_read ptr bool nat "callback option" user_data
| Stream_write ptr bool nat "callback option" user_data
| Host_dial ptr "string option" "string option" "callback option" user_data
| Host_new_stream ptr "string option" ptr "callback option" user_data
| Host_peer_id ptr
| Multiaddr_create "string option"
| Multiaddr_destroy ptr
| Peer_id_create "string option"
| Peer_id_destroy ptr
| String_alloc string
| String_free nat
| Inbound nat callback user_data nat
| Loop nat Answer

text \<open>The answer of a call: a pointer, an error code, or nothing.\<close>

datatype CRes = R_ptr ptr | R_err libp2p_error | R_unit

definition with_err :: "(CApi \<times> libp2p_error) cxx \<Rightarrow> (CApi \<times> CRes) cxx" where
  "with_err r = bind_cxx r (\<lambda>(s, e). Returns (s, R_err e))"

definition with_ptr :: "CApi \<times> ptr \<Rightarrow> CApi \<times> CRes" where
  "with_ptr r = (fst r, R_ptr (snd r))"

definition with_unit :: "CApi cxx \<Rightarrow> (CApi \<times> CRes) cxx" where
  "with_unit r = bind_cxx r (\<lambda>s. Returns (s, R_unit))"

definition drop_nth :: "nat \<Rightarrow> 'a list \<Rightarrow> 'a list" where
  "drop_nth i xs = take i xs @ drop (Suc i) xs"

record capi_env =
  e_lib :: address_lib
  e_hash :: "string \<Rightarrow> u64"
  e_sample :: "nat \<Rightarrow> Multihash"

fun capi_step :: "capi_env \<Rightarrow> CApi \<Rightarrow> COp \<Rightarrow> (CApi \<times> CRes) cxx" where
  "capi_step env s (Context_create ok) = Returns (with_ptr (libp2p_context_create ok s))"
| "capi_step env s (Context_destroy p) = with_unit (libp2p_context_destroy p s)"
| "capi_step env s (Context_run p) =
     bind_cxx (libp2p_context_run_begin p s) (\<lambda>(s', e). Returns (s', case e of None \<Rightarrow> R_unit | Some e \<Rightarrow> R_err e))"
| "capi_step env s (Context_run_end threw p) = with_err (libp2p_context_run_end threw p s)"
| "capi_step env s (Context_stop p) = with_unit (libp2p_context_stop p s)"
| "capi_step env s (Host_create p seed) =
     bind_cxx (libp2p_host_create (e_hash env) (e_sample env) p seed s) (\<lambda>r. Returns (with_ptr r))"
| "capi_step env s (Host_destroy p) = with_unit (libp2p_host_destroy p s)"
| "capi_step env s (Register_protocol p name f data) = with_err (libp2p_host_register_protocol p name f data s)"
| "capi_step env s (Stream_read p b n f data) = with_err (libp2p_stream_read p b n f data s)"
| "capi_step env s (Stream_write p b n f data) = with_err (libp2p_stream_write p b n f data s)"
| "capi_step env s (Host_dial p a i f data) = with_err (libp2p_host_dial (e_lib env) p a i f data s)"
| "capi_step env s (Host_new_stream p i name f data) = with_err (libp2p_host_new_stream p i name f data s)"
| "capi_step env s (Host_peer_id p) = bind_cxx (libp2p_host_peer_id p s) (\<lambda>r. Returns (with_ptr r))"
| "capi_step env s (Multiaddr_create a) = Returns (with_ptr (libp2p_multiaddr_create (e_lib env) a s))"
| "capi_step env s (Multiaddr_destroy p) = with_unit (libp2p_multiaddr_destroy p s)"
| "capi_step env s (Peer_id_create i) = Returns (with_ptr (libp2p_peer_id_create i s))"
| "capi_step env s (Peer_id_destroy p) = with_unit (libp2p_peer_id_destroy p s)"
| "capi_step env s (String_alloc str) =
     Returns (s\<lparr>strings := (strings s)(next_ptr s \<mapsto> str), next_ptr := Suc (next_ptr s)\<rparr>, R_ptr (Some (next_ptr s)))"
| "capi_step env s (String_free p) = Returns (s\<lparr>strings := (strings s)(p := None)\<rparr>, R_unit)"
| "capi_step env s (Inbound h f data stream) = Returns (GenericProtocolHandler_handle h f data stream s, R_unit)"
| "capi_step env s (Loop i a) = with_unit (run_task (tasks s ! i) a (s\<lparr>tasks := drop_nth i (tasks s)\<rparr>))"


section \<open>Safe programs\<close>

definition live :: "(nat \<rightharpoonup> 'a) \<Rightarrow> ptr \<Rightarrow> bool" where
  "live m p \<longleftrightarrow> (case p of None \<Rightarrow> True | Some q \<Rightarrow> m q \<noteq> None)"









lemmas capi_defs = libp2p_context_create_def libp2p_context_destroy_def libp2p_context_run_begin_def libp2p_context_run_end_def
  libp2p_context_stop_def libp2p_host_create_def libp2p_host_destroy_def libp2p_host_register_protocol_def
  libp2p_stream_read_def libp2p_stream_write_def libp2p_host_dial_def libp2p_host_new_stream_def libp2p_host_peer_id_def
  libp2p_multiaddr_create_def libp2p_multiaddr_destroy_def libp2p_peer_id_create_def libp2p_peer_id_destroy_def
  stream_executor_def host_executor_def spawn_def with_err_def with_ptr_def with_unit_def GenericProtocolHandler_handle_def

lemma live_simps [simp]: "live m None" "live m (Some q) \<longleftrightarrow> m q \<noteq> None"
  by (simp_all add: live_def)











section \<open>Every accepted request is answered once\<close>














text \<open>A run, for an example: a context, a host, a pending request for a stream, and its answer.\<close>

fun run_program :: "capi_env \<Rightarrow> CApi \<Rightarrow> COp list \<Rightarrow> (CApi \<times> CRes list) cxx" where
  "run_program env s [] = Returns (s, [])"
| "run_program env s (x # xs) =
     bind_cxx (capi_step env s x) (\<lambda>(s', r). bind_cxx (run_program env s' xs) (\<lambda>(s'', rs). Returns (s'', r # rs)))"



text \<open>
  The name of the protocol is read when the loop runs the request: a program that releases
  it after the call has returned success makes the loop use it after that. The same holds
  for a host that is destroyed while a request on it is pending.
\<close>

definition open_stream :: "string \<Rightarrow> COp list" where
  "open_stream peer =
     [Context_create True, Host_create (Some 0) None, String_alloc ''/echo/1.0.0'', Host_new_stream (Some 1) (Some peer) (Some 2) (Some 7) 9]"


lemma released_name_is_used:
  assumes "PeerId_fromBase58 peer = Inr pid"
  shows "run_program env CApi_new (open_stream peer @ [String_free 2, Loop 0 (A_stream r)]) = Throws"
  using assms by (simp add: open_stream_def capi_defs CApi_new_def deref_def)

lemma destroyed_host_is_used:
  assumes "PeerId_fromBase58 peer = Inr pid"
  shows "run_program env CApi_new (open_stream peer @ [Host_destroy (Some 1), Loop 0 (A_stream r)]) = Throws"
  using assms by (simp add: open_stream_def capi_defs CApi_new_def deref_def)

text \<open>The callback of a dial cannot tell whether a connection was made.\<close>

lemma dial_answer_hidden: "run_task (T_dial h pid a f data) (A_dial ok) s = run_task (T_dial h pid a f data) (A_dial ok') s"
  by simp

text \<open>A stream is never reported as closed, and hosts without a seed all have the same identity.\<close>

lemma never_closed: "libp2p_stream_is_closed (Some p) s \<noteq> Returns True"
  by (auto simp: libp2p_stream_is_closed_def bind_cxx_def split: cxx.splits)

lemma sample_index_range: "sample_index hash None = 0" "sample_index hash seed < 1000"
proof -
  show "sample_index hash None = 0" by (simp add: sample_index_def)
  have "unat (i mod 1000 :: u32) < 1000" for i by (simp add: unat_mod)
  then show "sample_index hash seed < 1000" by (simp add: sample_index_def Let_def)
qed






end
