(* ===== verification/Spec2Isabelle.thy ===== *)
theory Spec2Isabelle
  imports Byteutil Varint Read_Buffer Cid Multiaddress Time_Cache Backoff Score Gossip_Props Multiselect Peer_Repository Dialer Listener Quic_Props Stream_Protocols Host Keccak Aes_Ctr Crypto_Provider Ecdh C_Api
begin

text \<open>
  \<^bold>\<open>A verification library for leanp2p\<close>, a C++ implementation of the libp2p network stack. Paths
  are those of the repository below \<open>src/\<close>.

  \<^bold>\<open>The program.\<close> A host (\<open>src/host\<close>) owns an identity, a listener manager and a dialer
  (\<open>src/network\<close>), a connection manager that both feed, and a peer repository (\<open>src/peer\<close>).
  Connections come from the QUIC transport (\<open>src/transport/quic\<close>), which wraps lsquic and
  learns who the other side is from its TLS certificate (\<open>src/security/tls\<close>). On a connection
  streams are opened; each starts with a negotiation (\<open>src/protocol_muxer\<close>) and is then given to
  the handler of a protocol: ping, echo, identify or gossip (\<open>src/protocol\<close>). Below lie the
  encodings (\<open>src/multi\<close>, \<open>src/basic\<close>, \<open>src/common\<close>) and the cryptography (\<open>src/crypto\<close>). Above
  lies an interface for C programs (\<open>src/c\<close>).

  \<^bold>\<open>How the code is modelled.\<close> A class or struct is a record with the names of its members, an
  enum a datatype with the names of its values. A member function is a function from the record
  to the record and its result. Integers are words of the width the code uses, \<open>double\<close> is the
  rounded arithmetic of \<open>Double\<close>. An \<open>outcome::result\<close> is a sum with the error on the left; a
  value \<open>Throws\<close> of type \<open>cxx\<close> stands for an exception, a failed assertion or undefined
  behaviour such as a read out of bounds, so that a theorem that a call \<open>Returns\<close> excludes all of
  these. A hash map is an association list: the order of iteration, which the code leaves open,
  is then whatever order the list has, and no theorem assumes one. Readings of the clock, random
  values and the answers of sockets and libraries are arguments. What is relied on of a library
  (openssl, lsquic, libsecp256k1, boost, protobuf, the tsl trie) is a predicate on these arguments
  with a name that ends in \<open>_documented\<close> or \<open>_ok\<close>, or a hypothesis of the theorem, and each has an
  instance in a witness. A coroutine that waits is split into steps at the points where it waits,
  and the theorems on reachable states hold for every interleaving of the steps.

  \<^bold>\<open>Foundations.\<close>
  \<^item> \<open>Prelude\<close>: words, results, \<open>cxx\<close>, association lists, and the locales below.
  \<^item> \<open>Byteutil\<close> (\<open>src/common/byteutil.cpp\<close>), \<open>Varint\<close> (\<open>src/multi/uvarint.cpp\<close>,
    \<open>include/libp2p/basic/read_varint.hpp\<close> and its neighbours), \<open>Read_Buffer\<close>
    (\<open>src/basic/read_buffer.cpp\<close>): integers and framed messages are read back as written however a
    stream splits them; a read buffer is a queue of bytes.
  \<^item> \<open>Base32\<close>, \<open>Base58\<close>, \<open>Base64\<close>, \<open>Multibase\<close> (\<open>src/multi/multibase_codec\<close>), \<open>Multihash\<close>, \<open>Cid\<close>
    (\<open>src/multi/multihash.cpp\<close>, \<open>src/multi/content_identifier_codec.cpp\<close>): decoding inverts encoding;
    the errors of the decoders.
  \<^item> \<open>Multiaddr_Codec\<close> (\<open>src/multi/converters\<close>), \<open>Multiaddress\<close> (\<open>src/multi/multiaddress.cpp\<close>): the
    text and the bytes of an address encode one list of parts.

  \<^bold>\<open>Gossip\<close> (\<open>src/protocol/gossip\<close>).
  \<^item> \<open>Time_Cache\<close>, \<open>Backoff\<close>: the caches accept a key once in each window; history and backoff.
  \<^item> \<open>Double\<close>, \<open>Score\<close>: binary64 arithmetic and the score of a peer, whose counters stay within
    their caps, rounding included, and decay to zero.
  \<^item> \<open>Gossip\<close> has every handler of \<open>gossip.cpp\<close>, \<open>Gossip_Inv\<close> the invariant with the lemmas of the
    small operations, \<open>Gossip_Steps\<close> the step relation and that every handler keeps the invariant,
    \<open>Gossip_Props\<close> what follows: no handler throws outside of the listed cases, only authentic
    messages are delivered in strict mode, who is sent a message, what duplicates do, the bounds
    on meshes and retransmissions.

  \<^bold>\<open>Peers and the network.\<close>
  \<^item> \<open>Peer_Id\<close> (\<open>src/peer/peer_id.cpp\<close>, \<open>src/crypto/key_marshaller.cpp\<close>,
    \<open>src/crypto/key_validator\<close>), \<open>Peer_Store\<close>, \<open>Peer_Repository\<close> (\<open>src/peer\<close>): round trips of ids and
    keys; the repositories refine maps, and the signals they raise tell what they store.
  \<^item> \<open>Multiselect\<close> (\<open>src/protocol_muxer\<close>): both sides of the negotiation, that they end, and that
    they agree.
  \<^item> \<open>Transport\<close> (\<open>src/transport/quic/transport.cpp\<close>, \<open>src/network/transport_manager.cpp\<close>),
    \<open>Connections\<close> (\<open>src/network/connection_manager.cpp\<close>), \<open>Dialer\<close>, \<open>Listener\<close>
    (\<open>src/network/dialer.cpp\<close>, \<open>src/network/listener_manager.cpp\<close>): the events tell exactly the
    connections, every dial is answered once, streams go to the handler registered for them.
  \<^item> \<open>Tls\<close> (\<open>src/security/tls/tls_details.cpp\<close>): a verified peer has signed its certificate with the
    key its id is made of.
  \<^item> \<open>Quic\<close> (the engine, its connections and streams), \<open>Quic_Conn\<close> and \<open>Quic_Props\<close> (their
    invariant): pointers between objects stay valid but for one case that is characterised, calls
    are answered once, and a dialed connection is to the peer that was dialed.
  \<^item> \<open>Stream_Protocols\<close> (ping, echo, identify), \<open>Host\<close> (\<open>src/host/basic_host.cpp\<close>): the composition of
    identity, listener manager, dialer, connection manager and peer repository keeps the
    invariants of all of them.

  \<^bold>\<open>Cryptography\<close> (\<open>src/crypto\<close>).
  \<^item> \<open>Keccak\<close>: the whole hash over 64-bit words equals the sponge of the standard.
  \<^item> \<open>Hashers\<close>, \<open>Aes_Ctr\<close>: the classes around openssl, whatever sequence of calls is made.
  \<^item> \<open>Signatures\<close>, \<open>Crypto_Provider\<close>, \<open>Ecdh\<close>: the four signature schemes, the provider in front of
    them with key stretching, and ephemeral keys: generated keys belong together, where the
    provider reads out of bounds, and that two sides compute one secret.

  \<^bold>\<open>The C interface.\<close> \<open>C_Api\<close> (\<open>src/c/libp2p_c.cpp\<close>) keeps the objects behind the pointers in an
  explicit store, with the requests that still point to them: which programs are safe, and
  that each accepted request gets one callback.

  \<^bold>\<open>Across components.\<close> This theory joins the crypto provider, the certificates and the peer ids.
  \<open>Host\<close>, \<open>Dialer\<close>, \<open>Listener\<close> and \<open>Quic_Props\<close> compose the components they call.

  \<^bold>\<open>Interfaces.\<close> The contracts that several components share are locales, and each is interpreted
  on the definitions of the model. \<open>byte_queue\<close> is the contract of \<open>ReadBuffer\<close>; \<open>base_codec\<close> of
  base32, base58 and base64, through which \<open>Multibase\<close> uses them; \<open>suppression\<close> of
  \<open>DuplicateCache\<close>; \<open>hasher\<close> of SHA-1, SHA-256, SHA-512 and HMAC; \<open>signature_scheme\<close> of the four
  providers that \<open>Crypto_Provider\<close> calls. The locales \<open>guarded_machine\<close>, \<open>safe_machine\<close>,
  \<open>invariant_machine\<close> and \<open>refining_machine\<close> carry invariants along sequences of steps, with what
  is asked of the caller and whether a step may throw; \<open>Connections\<close>, \<open>Dialer\<close>, \<open>Score\<close>,
  \<open>Peer_Store\<close>, \<open>Peer_Repository\<close>, \<open>Listener\<close>, \<open>Quic_Props\<close> and \<open>Host\<close> interpret them.

  \<^bold>\<open>Loops.\<close> There is no fuel. Loops with a bound are total functions with a measure. The others
  (\<open>responder_loop\<close>, \<open>ping_handle\<close>, \<open>doRead\<close>, \<open>seckey_loop\<close>, \<open>stretch_loop\<close>) are partial functions whose
  value is \<open>None\<close> when they do not return, with lemmas that say when they return: on streams that
  end, when the generator hits a key at last, when the keyed hash is not empty.

  \<^bold>\<open>Not modelled.\<close> The event bus, a front of \<open>boost::signals2\<close> (what is published is a list of
  events); the injector, which only wires components; logging; the coroutine helpers, templates
  over \<open>boost::asio\<close>; the settings of the SSL context; the random generator, a call of boost;
  sockets, timers and settings of lsquic in the QUIC engine; the generated protobuf code, of which
  the round trip is assumed; the registration of ping, echo and identify with the event bus; the
  getters of the host that return a component; \<open>EcKeyFromPrivateKeyBytes\<close>, which nothing calls;
  sample peers, examples and test plans, which are programs that use the library.
\<close>

section \<open>From generated keys to a proven identity\<close>

text \<open>The crypto provider as the certificates use it: only the value matters.\<close>

definition provider_sign :: "providers \<Rightarrow> sign_fun" where
  "provider_sign ps m k = (case Crypto_Provider.sign ps m k of Returns (Inr s) \<Rightarrow> Some s | _ \<Rightarrow> None)"

definition provider_verify :: "providers \<Rightarrow> verify_fun" where
  "provider_verify ps m s k = (case Crypto_Provider.verify ps m s k of Returns (Inr b) \<Rightarrow> Some b | _ \<Rightarrow> None)"

lemma provider_sign_Some: "provider_sign ps m k = Some s \<longleftrightarrow> Crypto_Provider.sign ps m k = Returns (Inr s)"
  by (auto simp: provider_sign_def split: cxx.splits sum.splits)

text \<open>
  \<^bold>\<open>C18\<close> (round trip). A host whose keys the crypto provider has generated, of a type TLS accepts,
  makes a certificate with the signature of the provider; a peer that receives it and checks
  it with its provider extracts the public key of the host and the peer id made of it. No
  assumption is made on the signatures themselves: what they promise follows from the
  documentation of the libraries below the provider. Parsing a key inverts its serialization,
  the marshalled key and a signature have at most 251 bytes together, which is what the
  extension of the certificate can hold, and the marshalled key has a peer id.
\<close>

theorem generated_host_identified:
  assumes libs: "libraries_documented ed secp entropy ec rsa api"
    and bits: "bits_documented rsa bits_private bits_public"
    and ps: "ps = make_providers ed ed_key secp entropy ec ec_key rsa rsa_random api mem"
    and keys: "generateKeys ps type bitness = Some (Inr kp)" and type: "type \<in> {Ed25519, Secp256k1}"
    and "openssl_ok ssl" and cert: "makeCertificate ssl (Some (cp, cs)) bn (provider_sign ps) serialize kp = Returns ret"
    and "\<And>pk. d2i_PUBKEY ssl cp = Some pk \<Longrightarrow> i2d_PUBKEY ssl pk = cp"
    and "\<And>t d. parse (serialize t d) = Some (t, d)"
    and "\<And>pb m s. marshal serialize (publicKey kp) = Inr pb \<Longrightarrow> provider_sign ps m (privateKey kp) = Some s
      \<Longrightarrow> length pb + length s \<le> 251"
    and "\<And>pb. marshal serialize (publicKey kp) = Inr pb \<Longrightarrow> PeerId_fromPublicKey (Hashers.sha256 api mem) pb = Inr peer_id"
  shows "\<exists>x. d2i_X509 ssl (certificate ret) = Some x
    \<and> verifyPeerAndExtractIdentity ssl (provider_verify ps) (Hashers.sha256 api mem) bits_public parse x
        = Inr \<lparr>pp_public_key = publicKey kp, pp_peer_id = peer_id\<rparr>"
proof (rule certificate_identifies_host [OF assms(6,7)])
  show "validate_public bits_public (publicKey kp) = Inr ()"
    using generated_validates [OF libs ps keys bits] type by auto
  show "key_type (publicKey kp) \<in> {Ed25519, Secp256k1}"
    using keys type by (auto simp: generate_defs make_pair_Inr)
  show "provider_verify ps m s (publicKey kp) = Some True" if "provider_sign ps m (privateKey kp) = Some s" for m s
    using generated_roundtrip [OF libs ps keys, of m s] that by (simp add: provider_sign_Some provider_verify_def)
qed (fact assms)+

lemma toy_provider_sign:
  "\<exists>s. provider_sign toy_providers m (privateKey toy_keys) = Some s \<and> length s = 64"
  by (simp add: provider_sign_def sign_defs toy_providers_def provider_defs toy_keys_def key_sizes Ed25519_sign_def
      NewEvpPkeyFromBytes_def toy_ed_def toy_ed_sign_def Let_def)

lemma toy_signature_length: "provider_sign toy_providers m (privateKey toy_keys) = Some s \<Longrightarrow> length s = 64"
  using toy_provider_sign [of m] by auto

theorem generated_host_identified_witness:
  "\<exists>ret x. makeCertificate toy_ssl (Some ([5], [6])) (Some 1) (provider_sign toy_providers) serialize_ex toy_keys = Returns ret
     \<and> d2i_X509 toy_ssl (certificate ret) = Some x
     \<and> verifyPeerAndExtractIdentity toy_ssl (provider_verify toy_providers) (Hashers.sha256 toy_sha []) (\<lambda>_. None) parse_ex x
         = Inr \<lparr>pp_public_key = publicKey toy_keys, pp_peer_id = Multihash_Data identity (1 # replicate 32 7)\<rparr>"
proof -
  have g: "generateKeys toy_providers Ed25519 RSA2048 = Some (Inr toy_keys)"
    by (simp add: generate_defs toy_providers_def provider_defs Ed25519_generate_def toy_ed_def toy_keys_def make_pair_def Let_def)
  have bits: "bits_documented toy_rsa (\<lambda>_. None) (\<lambda>_. None)" by (simp add: bits_documented_def toy_rsa_def)
  from toy_provider_sign obtain s where "provider_sign toy_providers (signed_text [5]) (privateKey toy_keys) = Some s" by blast
  then have "\<exists>ret. makeCertificate toy_ssl (Some ([5], [6])) (Some 1) (provider_sign toy_providers) serialize_ex toy_keys = Returns ret"
    by (simp add: makeCertificate_def makeExtensionSignature_def assignPubkey_def assignSerial_def assignIssuer_def insertExtension_def
      signCertificate_def or_throw_def toy_ssl_def toy_keys_def marshal_def Let_def)
  then obtain ret where ret: "makeCertificate toy_ssl (Some ([5], [6])) (Some 1) (provider_sign toy_providers) serialize_ex toy_keys = Returns ret"
    by blast
  have pb: "marshal serialize_ex (publicKey toy_keys) = Inr (1 # replicate 32 7)" by (simp add: marshal_def toy_keys_def)
  have "PeerId_fromPublicKey (Hashers.sha256 toy_sha []) (1 # replicate 32 7) = Inr (Multihash_Data identity (1 # replicate 32 7))"
    by (simp add: PeerId_fromPublicKey_def kMaxInlineKeyLength_def Multihash_create_def kMaxHashLength_def)
  then have "\<exists>x. d2i_X509 toy_ssl (certificate ret) = Some x
    \<and> verifyPeerAndExtractIdentity toy_ssl (provider_verify toy_providers) (Hashers.sha256 toy_sha []) (\<lambda>_. None) parse_ex x
        = Inr \<lparr>pp_public_key = publicKey toy_keys, pp_peer_id = Multihash_Data identity (1 # replicate 32 7)\<rparr>"
    using pb
    by (intro generated_host_identified [OF toy_libraries bits toy_providers_def g _ toy_ssl_ok ret])
      (auto simp: toy_ssl_def parse_serialize_ex dest: toy_signature_length)
  with ret show ?thesis by blast
qed

end
